(* ===== verification/Prelude.thy ===== *)
theory Prelude
  imports Main "HOL-Library.Word" "HOL-Library.While_Combinator"
begin

unbundle bit_operations_syntax

text \<open>
  Shared vocabulary of the development.

  \<^item> The fixed-width integers of \<^verbatim>\<open>stdint.h\<close> as words, and little-endian access to
    byte buffers (the packed structs of the source are read through such buffers).
  \<^item> The outcome monad in which every stateful C function is written: a call returns a value
    and a state, or it never returns to its caller because the code halts, jumps to the loaded
    image, spins for ever in a polling loop, or runs into undefined behaviour.
  \<^item> Loops: \<^verbatim>\<open>for\<close> loops with a known bound are folds over an interval and come with an
    invariant rule; \<^verbatim>\<open>while\<close> loops over hardware are \<open>loopM\<close>, which reports a loop that
    does not end as \<open>Hung\<close>.
  \<^item> A weakest-precondition calculus and a calculus of preserved state relations (a locale)
    for these programs.
\<close>

section \<open>Machine integers\<close>

type_synonym u8 = "8 word"
type_synonym u16 = "16 word"
type_synonym u32 = "32 word"
type_synonym u64 = "64 word"

type_synonym bytes = "u8 list"

named_theorems le_simps \<open>little-endian buffer access\<close>
named_theorems wp_simps \<open>weakest preconditions of the program combinators\<close>

text \<open>Little-endian access to a packed structure, by byte offset.\<close>

definition get_u16 :: "bytes \<Rightarrow> nat \<Rightarrow> u16" where
  "get_u16 bs off = word_of_nat (unat (bs ! off) + 256 * unat (bs ! (off + 1)))"

definition get_u32 :: "bytes \<Rightarrow> nat \<Rightarrow> u32" where
  "get_u32 bs off =
     word_of_nat (unat (bs ! off) + 256 * (unat (bs ! (off + 1)) +
       256 * (unat (bs ! (off + 2)) + 256 * unat (bs ! (off + 3)))))"

definition u16_bytes :: "u16 \<Rightarrow> bytes" where
  "u16_bytes w = [ucast w, ucast (drop_bit 8 w)]"

definition u32_bytes :: "u32 \<Rightarrow> bytes" where
  "u32_bytes w = [ucast w, ucast (drop_bit 8 w), ucast (drop_bit 16 w), ucast (drop_bit 24 w)]"

lemma length_u16_bytes [simp]: "length (u16_bytes w) = 2"
  by (simp add: u16_bytes_def)

lemma length_u32_bytes [simp]: "length (u32_bytes w) = 4"
  by (simp add: u32_bytes_def)

lemma unat_ucast_u8: "unat (ucast (w :: 'a::len word) :: u8) = unat w mod 256"
  by (simp add: unsigned_ucast_eq take_bit_eq_mod)

lemma unat_drop_bit_word: "unat (drop_bit n (w :: 'a::len word)) = unat w div 2 ^ n"
  by (metis unat_drop_bit_eq drop_bit_eq_div)

lemma base_256_split4:
  assumes "n < 4294967296"
  shows "n mod 256 + 256 * (n div 256 mod 256 + 256 * (n div 65536 mod 256 + 256 * (n div 16777216)))
     = (n :: nat)"
proof -
  have "n div 65536 = n div 256 div 256" "n div 16777216 = n div 256 div 256 div 256"
    by (simp_all flip: div_mult2_eq)
  then show ?thesis
    by (simp add: mod_mult_div_eq add.commute)
qed

lemma unat_u32_div_24: "unat (w :: u32) div 16777216 mod 256 = unat w div 16777216"
proof -
  have "unat w < 4294967296" using unsigned_less [of w, where ?'a = nat] by simp
  then have "unat w div 16777216 < 256" by (simp add: less_mult_imp_div_less)
  then show ?thesis by simp
qed

lemma get_u32_u32_bytes [le_simps]:
  "get_u32 (pre @ u32_bytes w @ post) (length pre) = w"
proof -
  have "unat w < 4294967296" using unsigned_less [of w, where ?'a = nat] by simp
  from base_256_split4 [OF this]
  have "get_u32 (pre @ u32_bytes w @ post) (length pre) = word_of_nat (unat w)"
    by (simp add: get_u32_def u32_bytes_def nth_append unat_ucast_u8 unat_u32_div_24
        unat_drop_bit_word del: of_nat_add of_nat_mult)
  then show ?thesis by simp
qed

lemma get_u16_u16_bytes [le_simps]:
  "get_u16 (pre @ u16_bytes w @ post) (length pre) = w"
proof -
  have "unat w < 65536" using unsigned_less [of w, where ?'a = nat] by simp
  then have "unat w div 256 < 256" by (simp add: less_mult_imp_div_less)
  then have "get_u16 (pre @ u16_bytes w @ post) (length pre) = word_of_nat (unat w)"
    by (simp add: get_u16_def u16_bytes_def nth_append unat_ucast_u8 unat_drop_bit_word
        mod_mult_div_eq del: of_nat_add of_nat_mult)
  then show ?thesis by simp
qed

text \<open>Overwriting a run of bytes inside a buffer.\<close>

definition put_bytes :: "'a list \<Rightarrow> nat \<Rightarrow> 'a list \<Rightarrow> 'a list" where
  "put_bytes buf off bs = take off buf @ bs @ drop (off + length bs) buf"

lemma length_put_bytes [simp]:
  "off + length bs \<le> length buf \<Longrightarrow> length (put_bytes buf off bs) = length buf"
  by (simp add: put_bytes_def)

lemma nth_put_bytes:
  assumes "off + length bs \<le> length buf" "i < length buf"
  shows "put_bytes buf off bs ! i =
    (if off \<le> i \<and> i < off + length bs then bs ! (i - off) else buf ! i)"
  using assms by (auto simp: put_bytes_def nth_append)

lemma nth_put_bytes_below: "i < off \<Longrightarrow> off \<le> length buf \<Longrightarrow> put_bytes buf off bs ! i = buf ! i"
  by (simp add: put_bytes_def nth_append)

lemma get_u32_put_bytes_below:
  "i + 4 \<le> off \<Longrightarrow> off \<le> length buf \<Longrightarrow> get_u32 (put_bytes buf off bs) i = get_u32 buf i"
  by (simp add: get_u32_def nth_put_bytes_below)

lemma take_put_bytes_below: "k \<le> off \<Longrightarrow> off \<le> length buf \<Longrightarrow> take k (put_bytes buf off bs) = take k buf"
  by (simp add: put_bytes_def min_absorb1)

text \<open>The bytes of a buffer between two offsets.\<close>

definition slice :: "nat \<Rightarrow> nat \<Rightarrow> 'a list \<Rightarrow> 'a list" where
  "slice off n xs = take n (drop off xs)"

lemma length_slice [simp]: "off + n \<le> length xs \<Longrightarrow> length (slice off n xs) = n"
  by (simp add: slice_def)

lemma nth_slice [simp]: "off + n \<le> length xs \<Longrightarrow> i < n \<Longrightarrow> slice off n xs ! i = xs ! (off + i)"
  by (simp add: slice_def)

section \<open>Counting loops\<close>

text \<open>
  \<^verbatim>\<open>for (i = a; i < b; i++) body\<close> over loop state \<open>s\<close> is \<open>for_loop a b body s\<close>.
\<close>

definition for_loop :: "nat \<Rightarrow> nat \<Rightarrow> (nat \<Rightarrow> 's \<Rightarrow> 's) \<Rightarrow> 's \<Rightarrow> 's" where
  "for_loop a b body s = fold body [a..<b] s"

lemma for_loop_empty [simp]: "b \<le> a \<Longrightarrow> for_loop a b body s = s"
  by (simp add: for_loop_def)

lemma for_loop_Suc:
  "a \<le> b \<Longrightarrow> for_loop a (Suc b) body s = body b (for_loop a b body s)"
  by (simp add: for_loop_def)

lemma for_loop_inv:
  assumes "a \<le> b" and "P a s"
    and "\<And>i t. a \<le> i \<Longrightarrow> i < b \<Longrightarrow> P i t \<Longrightarrow> P (Suc i) (body i t)"
  shows "P b (for_loop a b body s)"
  using assms
proof (induction b)
  case 0
  then show ?case by simp
next
  case (Suc b)
  then show ?case by (cases "a = Suc b") (auto simp: for_loop_Suc)
qed

text \<open>\<^verbatim>\<open>for (k = a; k >= b; k--) body\<close> over loop state \<open>s\<close>, for unsigned bounds.\<close>

definition for_down :: "nat \<Rightarrow> nat \<Rightarrow> (nat \<Rightarrow> 's \<Rightarrow> 's) \<Rightarrow> 's \<Rightarrow> 's" where
  "for_down a b body s = fold body (rev [b..<Suc a]) s"

lemma for_down_inv:
  assumes "b \<le> Suc a" and "P (Suc a) s"
    and "\<And>i t. b \<le> i \<Longrightarrow> i \<le> a \<Longrightarrow> P (Suc i) t \<Longrightarrow> P i (body i t)"
  shows "P b (for_down a b body s)"
proof -
  have "P b (fold body (rev [b..<c]) t)" if "b \<le> c" "c \<le> Suc a" "P c t" for c t
    using that
  proof (induction c arbitrary: t)
    case 0
    then show ?case by simp
  next
    case (Suc c)
    then have "b = Suc c \<or> P c (body c t)"
      by (auto intro: assms(3))
    with Suc show ?case
      by (cases "b = Suc c") auto
  qed
  from this [of "Suc a" s] show ?thesis
    using assms(1,2) by (simp add: for_down_def del: upt_Suc)
qed

section \<open>Scanning a table\<close>

text \<open>One step of a scan over a table that ends at a marker.\<close>

lemma all_from_Suc:
  assumes "j < n"
  shows "(\<forall>i. j \<le> i \<and> i < n \<longrightarrow> P i) \<longleftrightarrow> P j \<and> (\<forall>i. Suc j \<le> i \<and> i < n \<longrightarrow> P i)"
proof -
  have "j \<le> i \<longleftrightarrow> i = j \<or> Suc j \<le> i" for i by auto
  with assms show ?thesis by auto
qed

lemma ex_from_Suc:
  "(\<exists>n \<ge> k. Q n \<and> (\<forall>i. k \<le> i \<and> i < n \<longrightarrow> P i)) \<longleftrightarrow>
   Q k \<or> P k \<and> (\<exists>n \<ge> Suc k. Q n \<and> (\<forall>i. Suc k \<le> i \<and> i < n \<longrightarrow> P i))" (is "?L \<longleftrightarrow> ?R")
proof
  assume ?L
  then obtain n where n: "k \<le> n" "Q n" "\<forall>i. k \<le> i \<and> i < n \<longrightarrow> P i" by blast
  show ?R
  proof (cases "n = k")
    case False
    with n have "Suc k \<le> n" "P k" "\<forall>i. Suc k \<le> i \<and> i < n \<longrightarrow> P i" by auto
    with n(2) show ?thesis by blast
  qed (use n in simp)
next
  assume ?R
  then show ?L
  proof
    assume "P k \<and> (\<exists>n \<ge> Suc k. Q n \<and> (\<forall>i. Suc k \<le> i \<and> i < n \<longrightarrow> P i))"
    then obtain n where n: "P k" "Suc k \<le> n" "Q n" "\<forall>i. Suc k \<le> i \<and> i < n \<longrightarrow> P i" by blast
    then have "\<forall>i. k \<le> i \<and> i < n \<longrightarrow> P i" using all_from_Suc [of k n P] by simp
    with n show ?thesis by (intro exI [of _ n]) simp
  qed auto
qed

section \<open>The outcome monad\<close>

text \<open>
  Why control never comes back to the caller of a C function:
  \<open>Halted st\<close> is the final \<^verbatim>\<open>while(1)\<close> of \<^verbatim>\<open>halt_and_catch_fire\<close> after it has published
  \<open>st\<close>; \<open>Jumped a\<close> is the jump to the image's entry point \<open>a\<close>; \<open>Hung\<close> is a loop that polls
  for ever; \<open>Fault\<close> is undefined behaviour (an access outside an array, a division by zero).
\<close>

datatype stop = Halted u32 | Jumped u32 | Hung | Fault

datatype ('s, 'a) outcome = Ret 'a 's | Stop stop 's

type_synonym ('s, 'a) prog = "'s \<Rightarrow> ('s, 'a) outcome"

definition return :: "'a \<Rightarrow> ('s, 'a) prog" where
  "return a s = Ret a s"

definition bind :: "('s, 'a) prog \<Rightarrow> ('a \<Rightarrow> ('s, 'b) prog) \<Rightarrow> ('s, 'b) prog" where
  "bind m f s = (case m s of Ret a s' \<Rightarrow> f a s' | Stop k s' \<Rightarrow> Stop k s')"

definition stop_with :: "stop \<Rightarrow> ('s, 'a) prog" where
  "stop_with k s = Stop k s"

definition get_state :: "('s, 's) prog" where
  "get_state s = Ret s s"

definition gets :: "('s \<Rightarrow> 'a) \<Rightarrow> ('s, 'a) prog" where
  "gets f s = Ret (f s) s"

definition modify :: "('s \<Rightarrow> 's) \<Rightarrow> ('s, unit) prog" where
  "modify f s = Ret () (f s)"

definition skip :: "('s, unit) prog" where
  "skip = return ()"

definition assert_or_fault :: "bool \<Rightarrow> ('s, unit) prog" where
  "assert_or_fault b = (if b then skip else stop_with Fault)"

fun outcome_state :: "('s, 'a) outcome \<Rightarrow> 's" where
  "outcome_state (Ret a s) = s"
| "outcome_state (Stop k s) = s"

text \<open>
  \<open>loopM body a\<close> runs \<open>body\<close> from loop value \<open>a\<close>: \<open>Inl a'\<close> goes round again with \<open>a'\<close>,
  \<open>Inr b\<close> leaves the loop with \<open>b\<close>. A loop that never leaves is \<open>Hung\<close> (in the state it was
  entered with).
\<close>

definition loop_continues :: "('s, 'a + 'b) outcome \<Rightarrow> bool" where
  "loop_continues out = (case out of Ret (Inl a) s \<Rightarrow> True | _ \<Rightarrow> False)"

definition loop_step :: "('a \<Rightarrow> ('s, 'a + 'b) prog) \<Rightarrow> ('s, 'a + 'b) outcome \<Rightarrow> ('s, 'a + 'b) outcome" where
  "loop_step body out = (case out of Ret (Inl a) s \<Rightarrow> body a s | _ \<Rightarrow> out)"

definition loop_exit :: "'s \<Rightarrow> ('s, 'a + 'b) outcome option \<Rightarrow> ('s, 'b) outcome" where
  "loop_exit s0 res =
     (case res of
        None \<Rightarrow> Stop Hung s0
      | Some (Ret (Inl a) s) \<Rightarrow> Stop Hung s0
      | Some (Ret (Inr b) s) \<Rightarrow> Ret b s
      | Some (Stop k s) \<Rightarrow> Stop k s)"

definition loopM :: "('a \<Rightarrow> ('s, 'a + 'b) prog) \<Rightarrow> 'a \<Rightarrow> ('s, 'b) prog" where
  "loopM body a s =
     loop_exit s (while_option loop_continues (loop_step body) (Ret (Inl a) s))"

lemmas prog_defs = return_def bind_def stop_with_def get_state_def gets_def modify_def skip_def
  assert_or_fault_def

lemma bind_return [simp]: "bind (return a) f = f a"
  by (simp add: bind_def return_def fun_eq_iff)

lemma bind_return_right [simp]: "bind m return = m"
  by (auto simp: bind_def return_def fun_eq_iff split: outcome.splits)

lemma bind_assoc: "bind (bind m f) g = bind m (\<lambda>a. bind (f a) g)"
  by (auto simp: bind_def fun_eq_iff split: outcome.splits)

lemma bind_Ret [simp]: "m s = Ret a s' \<Longrightarrow> bind m f s = f a s'"
  by (simp add: bind_def)

lemma bind_Stop [simp]: "m s = Stop k s' \<Longrightarrow> bind m f s = Stop k s'"
  by (simp add: bind_def)

lemma bind_stop_with [simp]: "bind (stop_with k) f = stop_with k"
  by (simp add: bind_def stop_with_def fun_eq_iff)

lemma bind_eq_RetE:
  assumes "bind m f s = Ret b t"
  obtains a s' where "m s = Ret a s'" "f a s' = Ret b t"
  using assms by (auto simp: bind_def split: outcome.splits)

lemma while_loop_Inl:
  "while_option loop_continues (loop_step body) (Ret (Inl a) s) =
   while_option loop_continues (loop_step body) (body a s)"
  by (subst while_option_unfold) (simp add: loop_continues_def loop_step_def)

lemma while_loop_done:
  "while_option loop_continues f (Ret (Inr b) s) = Some (Ret (Inr b) s)"
  "while_option loop_continues f (Stop k s) = Some (Stop k s)"
  by (subst while_option_unfold, simp add: loop_continues_def)+

lemma loopM_Inr: "body a s = Ret (Inr b) s' \<Longrightarrow> loopM body a s = Ret b s'"
  by (simp add: loopM_def while_loop_Inl while_loop_done loop_exit_def)

lemma loopM_Stop: "body a s = Stop k s' \<Longrightarrow> loopM body a s = Stop k s'"
  by (simp add: loopM_def while_loop_Inl while_loop_done loop_exit_def)

lemma loopM_Inl_Ret:
  "body a s = Ret (Inl a') s' \<Longrightarrow> loopM body a' s' = Ret b t \<Longrightarrow> loopM body a s = Ret b t"
  by (auto simp: loopM_def while_loop_Inl [of _ a] loop_exit_def
      split: option.splits outcome.splits sum.splits)

lemma loopM_Inl_Stop:
  "body a s = Ret (Inl a') s' \<Longrightarrow> loopM body a' s' = Stop k t \<Longrightarrow> k \<noteq> Hung \<Longrightarrow>
   loopM body a s = Stop k t"
  by (auto simp: loopM_def while_loop_Inl [of _ a] loop_exit_def
      split: option.splits outcome.splits sum.splits)

section \<open>Weakest preconditions\<close>

text \<open>
  \<open>wp m Q K s\<close>: from \<open>s\<close>, the call \<open>m\<close> either returns and \<open>Q\<close> holds of the value and the new
  state, or it never returns to its caller and \<open>K\<close> holds of the reason and the last state.
\<close>

definition wp :: "('s, 'a) prog \<Rightarrow> ('a \<Rightarrow> 's \<Rightarrow> bool) \<Rightarrow> (stop \<Rightarrow> 's \<Rightarrow> bool) \<Rightarrow> 's \<Rightarrow> bool" where
  "wp m Q K s = (case m s of Ret a s' \<Rightarrow> Q a s' | Stop k s' \<Rightarrow> K k s')"

lemma wp_return [wp_simps]: "wp (return a) Q K s = Q a s"
  by (simp add: wp_def return_def)

lemma wp_bind [wp_simps]: "wp (bind m f) Q K s = wp m (\<lambda>a. wp (f a) Q K) K s"
  by (simp add: wp_def bind_def split: outcome.splits)

lemma wp_stop_with [wp_simps]: "wp (stop_with k) Q K s = K k s"
  by (simp add: wp_def stop_with_def)

lemma wp_get_state [wp_simps]: "wp get_state Q K s = Q s s"
  by (simp add: wp_def get_state_def)

lemma wp_gets [wp_simps]: "wp (gets f) Q K s = Q (f s) s"
  by (simp add: wp_def gets_def)

lemma wp_modify [wp_simps]: "wp (modify f) Q K s = Q () (f s)"
  by (simp add: wp_def modify_def)

lemma wp_skip [wp_simps]: "wp skip Q K s = Q () s"
  by (simp add: skip_def wp_return)

lemma wp_if [wp_simps]: "wp (if b then m else n) Q K s = (if b then wp m Q K s else wp n Q K s)"
  by simp

lemma wp_assert_or_fault [wp_simps]:
  "wp (assert_or_fault b) Q K s = (if b then Q () s else K Fault s)"
  by (simp add: assert_or_fault_def wp_simps)

lemma wp_mono:
  assumes "wp m Q K s"
    and "\<And>a s'. m s = Ret a s' \<Longrightarrow> Q a s' \<Longrightarrow> Q' a s'"
    and "\<And>k s'. m s = Stop k s' \<Longrightarrow> K k s' \<Longrightarrow> K' k s'"
  shows "wp m Q' K' s"
  using assms by (auto simp: wp_def split: outcome.splits)

lemma wp_trivI: "(\<And>a t. Q a t) \<Longrightarrow> (\<And>k t. K k t) \<Longrightarrow> wp m Q K s"
  by (simp add: wp_def split: outcome.splits)

lemma wp_RetD: "wp m Q K s \<Longrightarrow> m s = Ret a s' \<Longrightarrow> Q a s'"
  by (simp add: wp_def)

lemma wp_StopD: "wp m Q K s \<Longrightarrow> m s = Stop k s' \<Longrightarrow> K k s'"
  by (simp add: wp_def)

text \<open>Partial correctness of \<open>loopM\<close>: an invariant of the body, and \<open>Hung\<close> allowed at the start.\<close>

lemma wp_loopM:
  assumes init: "I a s"
    and body: "\<And>a s. I a s \<Longrightarrow>
      wp (body a) (\<lambda>r s'. case r of Inl a' \<Rightarrow> I a' s' | Inr b \<Rightarrow> Q b s') K s"
    and hung: "K Hung s"
  shows "wp (loopM body a) Q K s"
proof -
  let ?J = "\<lambda>out. case out of Ret (Inl a) s \<Rightarrow> I a s | Ret (Inr b) s \<Rightarrow> Q b s | Stop k s \<Rightarrow> K k s"
  have step: "?J (loop_step body out)" if "?J out" "loop_continues out" for out
    using that body [unfolded wp_def]
    by (fastforce simp: loop_continues_def loop_step_def split: outcome.splits sum.splits)
  have "?J out" if "while_option loop_continues (loop_step body) (Ret (Inl a) s) = Some out" for out
    using step that by (rule while_option_rule [where P = ?J]) (simp_all add: init)
  then show ?thesis
    using hung by (auto simp: wp_def loopM_def loop_exit_def split: option.splits outcome.splits sum.splits)
qed

section \<open>Preserved state relations\<close>

text \<open>
  Most facts about a C function say how it may change the state: it only performs I/O, it keeps
  the sticky error, it never touches the loaded image. Each is a preorder on states that every
  primitive of the program respects.
\<close>

definition preserves :: "('s \<Rightarrow> 's \<Rightarrow> bool) \<Rightarrow> ('s, 'a) prog \<Rightarrow> bool" where
  "preserves R m \<longleftrightarrow> (\<forall>s. R s (outcome_state (m s)))"

lemma preservesI [intro?]: "(\<And>s. R s (outcome_state (m s))) \<Longrightarrow> preserves R m"
  by (simp add: preserves_def)

lemma preservesD: "preserves R m \<Longrightarrow> R s (outcome_state (m s))"
  by (simp add: preserves_def)

lemma preserves_RetD: "preserves R m \<Longrightarrow> m s = Ret a s' \<Longrightarrow> R s s'"
  unfolding preserves_def by (metis outcome_state.simps(1))

lemma preserves_StopD: "preserves R m \<Longrightarrow> m s = Stop k s' \<Longrightarrow> R s s'"
  unfolding preserves_def by (metis outcome_state.simps(2))

lemma preserves_gets_cases: "preserves R m \<Longrightarrow> wp m (\<lambda>_. R s) (\<lambda>_. R s) s"
  by (auto simp: wp_def split: outcome.splits dest: preserves_RetD preserves_StopD)

locale state_rel =
  fixes R :: "'s \<Rightarrow> 's \<Rightarrow> bool"
  assumes refl: "R s s"
    and trans: "R s t \<Longrightarrow> R t u \<Longrightarrow> R s u"
begin

lemma pres_return: "preserves R (return a)"
  by (auto simp: preserves_def return_def refl)

lemma pres_gets: "preserves R (gets f)"
  by (auto simp: preserves_def gets_def refl)

lemma pres_get_state: "preserves R get_state"
  by (auto simp: preserves_def get_state_def refl)

lemma pres_skip: "preserves R skip"
  by (simp add: skip_def pres_return)

lemma pres_stop_with: "preserves R (stop_with k)"
  by (auto simp: preserves_def stop_with_def refl)

lemma pres_assert: "preserves R (assert_or_fault b)"
  by (simp add: assert_or_fault_def pres_skip pres_stop_with)

lemma pres_modify: "(\<And>s. R s (f s)) \<Longrightarrow> preserves R (modify f)"
  by (auto simp: preserves_def modify_def)

lemma pres_bind:
  assumes "preserves R m" and "\<And>a. preserves R (f a)"
  shows "preserves R (bind m f)"
proof
  fix s
  show "R s (outcome_state (bind m f s))"
  proof (cases "m s")
    case (Ret a s')
    then have "R s s'" using assms(1) by (rule preserves_RetD [rotated])
    moreover have "R s' (outcome_state (f a s'))" using assms(2) by (simp add: preserves_def)
    ultimately show ?thesis using Ret by (simp add: trans)
  next
    case (Stop k s')
    then show ?thesis using assms(1) by (simp add: preserves_StopD)
  qed
qed

lemma pres_if: "preserves R m \<Longrightarrow> preserves R n \<Longrightarrow> preserves R (if b then m else n)"
  by simp

lemma pres_let: "(\<And>x. preserves R (f x)) \<Longrightarrow> preserves R (let x = a in f x)"
  by simp

lemma pres_prod: "(\<And>x y. preserves R (f x y)) \<Longrightarrow> preserves R (case p of (x, y) \<Rightarrow> f x y)"
  by (cases p) simp

lemma pres_option:
  "preserves R m \<Longrightarrow> (\<And>x. preserves R (f x)) \<Longrightarrow> preserves R (case p of None \<Rightarrow> m | Some x \<Rightarrow> f x)"
  by (cases p) simp_all

lemma pres_loopM:
  assumes "\<And>a. preserves R (body a)"
  shows "preserves R (loopM body a)"
proof
  fix s
  have "wp (loopM body a) (\<lambda>_. R s) (\<lambda>_. R s) s"
  proof (rule wp_loopM [where I = "\<lambda>_. R s"])
    fix b t
    assume "R s t"
    then show "wp (body b) (\<lambda>r s'. case r of Inl a' \<Rightarrow> R s s' | Inr b \<Rightarrow> R s s') (\<lambda>_. R s) t"
      using preserves_gets_cases [OF assms, of b t]
      by (auto simp: wp_def split: outcome.splits sum.splits intro: trans)
  qed (simp_all add: refl)
  then show "R s (outcome_state (loopM body a s))"
    by (auto simp: wp_def split: outcome.splits)
qed

lemmas pres_intros = pres_return pres_gets pres_get_state pres_skip pres_stop_with pres_assert
  pres_bind pres_if pres_let pres_prod pres_option pres_loopM

end

end
