(* ===== verification/Machine.thy ===== *)
theory Machine
  imports Prelude
begin

text \<open>
  The machine the boot ROM runs on: memory-mapped registers and RAM.

  Every register access is recorded, newest first, in the history \<open>io\<close>, so that statements about
  what the code does to the hardware, and in which order, are statements about that list. What a
  read returns is decided by the environment: a device may answer each read differently, as a
  function of everything the code has done so far. The environment also holds what the linker and
  the build fix (the stage being built, section addresses, the key table, the configuration data).
\<close>

section \<open>Environment and state\<close>

datatype io_event = RdReg u32 u32 | WrReg u32 u32 | WrReg8 u32 u8

text \<open>A row of the key table (\<^verbatim>\<open>crypto_public_key\<close>, \<^verbatim>\<open>common/shared_inc/crypto.h\<close>).\<close>

record crypto_public_key =
  key_type :: u32
  key_name :: bytes
  key_bytes :: bytes

text \<open>
  \<open>dev h a\<close> is what a 32-bit read of address \<open>a\<close> returns after history \<open>h\<close>; \<open>rx_buf h c\<close> is what
  the UniPro hardware has placed in the receive buffer of CPort \<open>c\<close>. \<open>cfgdata_bytes\<close> is the
  configuration area of the second stage, \<open>manifest\<close> the Greybus manifest linked into the image.
\<close>

record env =
  dev :: "io_event list \<Rightarrow> u32 \<Rightarrow> u32"
  rx_buf :: "io_event list \<Rightarrow> nat \<Rightarrow> bytes"
  boot_stage :: nat
  cport_max :: u32
  workram_start :: u32
  bootrom_data_area :: u32
  bootrom_text_area :: u32
  communication_area :: u32
  bufram_start :: u32
  bufram_end :: u32
  public_keys :: "crypto_public_key list"
  cfgdata_bytes :: bytes
  manifest :: bytes

record machine =
  io :: "io_event list"
  ram :: "u32 \<Rightarrow> u8"

text \<open>
  A concrete environment for evaluating the model: the first stage of an ES3 chip with the memory
  map of \<^verbatim>\<open>chips/tsb/scripts\<close>, a device \<open>d\<close>, and no keys.
\<close>

definition es3_env :: "(io_event list \<Rightarrow> u32 \<Rightarrow> u32) \<Rightarrow> env" where
  "es3_env d = \<lparr>dev = d, rx_buf = \<lambda>_ _. [], boot_stage = 1, cport_max = 2,
     workram_start = 0x10000000, bootrom_data_area = 0x1002E000, bootrom_text_area = 0,
     communication_area = 0x1002FC00, bufram_start = 0x20000000, bufram_end = 0x20030000,
     public_keys = [], cfgdata_bytes = [], manifest = []\<rparr>"

section \<open>Register access\<close>

definition getreg32 :: "env \<Rightarrow> u32 \<Rightarrow> ('a machine_scheme, u32) prog" where
  "getreg32 E a s = (let v = dev E (io s) a in Ret v (s\<lparr>io := RdReg a v # io s\<rparr>))"

definition putreg32 :: "u32 \<Rightarrow> u32 \<Rightarrow> ('a machine_scheme, unit) prog" where
  "putreg32 v a s = Ret () (s\<lparr>io := WrReg a v # io s\<rparr>)"

definition putreg8 :: "u8 \<Rightarrow> u32 \<Rightarrow> ('a machine_scheme, unit) prog" where
  "putreg8 v a s = Ret () (s\<lparr>io := WrReg8 a v # io s\<rparr>)"

text \<open>\<^verbatim>\<open>while (!ok(getreg32(a)));\<close>\<close>

definition poll_reg :: "env \<Rightarrow> u32 \<Rightarrow> (u32 \<Rightarrow> bool) \<Rightarrow> ('a machine_scheme, unit) prog" where
  "poll_reg E a ok =
     loopM (\<lambda>_. bind (getreg32 E a) (\<lambda>v. return (if ok v then Inr () else Inl ()))) ()"

text \<open>Running a list of statements one after the other.\<close>

primrec seqM :: "('s, unit) prog list \<Rightarrow> ('s, unit) prog" where
  "seqM [] = skip"
| "seqM (m # ms) = bind m (\<lambda>_. seqM ms)"

text \<open>Storing bytes in RAM from an address upwards; addresses wrap around.\<close>

definition store_ram :: "u32 \<Rightarrow> bytes \<Rightarrow> (u32 \<Rightarrow> u8) \<Rightarrow> (u32 \<Rightarrow> u8)" where
  "store_ram a bs m = for_loop 0 (length bs) (\<lambda>i m. m(a + word_of_nat i := bs ! i)) m"

lemma store_ram_outside:
  "(\<And>i. i < length bs \<Longrightarrow> x \<noteq> a + word_of_nat i) \<Longrightarrow> store_ram a bs m x = m x"
proof -
  assume out: "\<And>i. i < length bs \<Longrightarrow> x \<noteq> a + word_of_nat i"
  show ?thesis
    unfolding store_ram_def
    by (rule for_loop_inv [where P = "\<lambda>_ t. t x = m x"]) (use out in auto)
qed

lemma store_ram_inside:
  assumes "j < length bs" "length bs \<le> 2 ^ 32"
  shows "store_ram a bs m (a + word_of_nat j) = bs ! j"
proof -
  have inj: "(word_of_nat i :: u32) = word_of_nat j \<Longrightarrow> i = j" if "i < length bs" for i
    using that assms by (simp add: word_of_nat_eq_iff take_bit_nat_eq_self_iff [THEN iffD2])
  have "j < i \<longrightarrow> for_loop 0 i (\<lambda>i m. m(a + word_of_nat i := bs ! i)) m (a + word_of_nat j) = bs ! j"
    if "i \<le> length bs" for i
    using that
  proof (induction i)
    case 0
    then show ?case by simp
  next
    case (Suc i)
    then show ?case using inj [of i] by (auto simp: for_loop_Suc less_Suc_eq)
  qed
  then show ?thesis using assms(1) by (simp add: store_ram_def)
qed

section \<open>What an operation may change\<close>

text \<open>The whole state is as before, except that register accesses have been added to the history.\<close>

definition only_io :: "'a machine_scheme \<Rightarrow> 'a machine_scheme \<Rightarrow> bool" where
  "only_io s t \<longleftrightarrow> (\<exists>ev. t = s\<lparr>io := ev @ io s\<rparr>)"

text \<open>The history is only ever extended.\<close>

definition io_grows :: "'a machine_scheme \<Rightarrow> 'a machine_scheme \<Rightarrow> bool" where
  "io_grows s t \<longleftrightarrow> (\<exists>ev. io t = ev @ io s)"

lemma only_io_trans: "only_io s t \<Longrightarrow> only_io t u \<Longrightarrow> only_io s u"
  by (auto simp: only_io_def) (metis append.assoc)

interpretation only_io: state_rel only_io
proof unfold_locales
  fix s :: "'a machine_scheme"
  show "only_io s s" unfolding only_io_def by (rule exI [of _ "[]"]) simp
qed (rule only_io_trans)

interpretation io_grows: state_rel io_grows
  by unfold_locales (auto simp: io_grows_def)

lemma only_io_io_grows: "only_io s t \<Longrightarrow> io_grows s t"
  by (auto simp: only_io_def io_grows_def)

lemma only_io_ram: "only_io s t \<Longrightarrow> ram t = ram s"
  by (auto simp: only_io_def)

lemma only_io_cons: "only_io s (s\<lparr>io := e # io s\<rparr>)"
  unfolding only_io_def by (rule exI [of _ "[e]"]) simp

lemma getreg32_only_io: "preserves only_io (getreg32 E a)"
  by (rule preservesI) (simp add: getreg32_def Let_def only_io_cons)

lemma putreg32_only_io: "preserves only_io (putreg32 v a)"
  by (rule preservesI) (simp add: putreg32_def only_io_cons)

lemma putreg8_only_io: "preserves only_io (putreg8 v a)"
  by (rule preservesI) (simp add: putreg8_def only_io_cons)

lemma seqM_only_io: "(\<And>m. m \<in> set ms \<Longrightarrow> preserves only_io m) \<Longrightarrow> preserves only_io (seqM ms)"
  by (induction ms) (auto intro: only_io.pres_bind only_io.pres_skip)

lemmas io_intros = getreg32_only_io putreg32_only_io putreg8_only_io only_io.pres_intros

lemma poll_reg_only_io: "preserves only_io (poll_reg E a ok)"
  unfolding poll_reg_def by (intro io_intros)

text \<open>What a call that only does I/O returns, and that it leaves the rest of the state alone.\<close>

lemma only_io_RetD: "preserves only_io m \<Longrightarrow> m s = Ret a t \<Longrightarrow> \<exists>ev. t = s\<lparr>io := ev @ io s\<rparr>"
  by (auto dest: preserves_RetD simp: only_io_def)

lemma wp_getreg32 [wp_simps]:
  "wp (getreg32 E a) Q K s = Q (dev E (io s) a) (s\<lparr>io := RdReg a (dev E (io s) a) # io s\<rparr>)"
  by (simp add: wp_def getreg32_def Let_def)

lemma wp_putreg32 [wp_simps]: "wp (putreg32 v a) Q K s = Q () (s\<lparr>io := WrReg a v # io s\<rparr>)"
  by (simp add: wp_def putreg32_def)

lemma wp_putreg8 [wp_simps]: "wp (putreg8 v a) Q K s = Q () (s\<lparr>io := WrReg8 a v # io s\<rparr>)"
  by (simp add: wp_def putreg8_def)

end
