(* ===== verification/Unipro.thy ===== *)
theory Unipro
  imports Machine
begin

text \<open>
  The UniPro block: DME attribute access (\<^verbatim>\<open>es3_unipro.c\<close>), CPort reset, transmission and
  reception (\<^verbatim>\<open>tsb_unipro.c\<close>), and the mailbox protocol with the supervisory controller
  (\<^verbatim>\<open>ara_mailbox.c\<close>). None of these routines keeps state of its own: they only access registers,
  which is what the lemmas at the end of each section say; the theory's properties fix the order of
  the register accesses of an attribute access and what a received message does.
\<close>

section \<open>Registers and attributes\<close>

abbreviation (input) "EINVAL \<equiv> 22 :: int"
abbreviation (input) "EIO \<equiv> 5 :: int"

definition AIO_UNIPRO_BASE :: u32 where "AIO_UNIPRO_BASE = 0x40020000"

abbreviation (input) "A2D_ATTRACS_INT_BEF \<equiv> 0x338 :: u32"
abbreviation (input) "AHM_RX_EOM_INT_BEF_0 \<equiv> 0x33C :: u32"
abbreviation (input) "AHM_RX_EOT_INT_BEF_0 \<equiv> 0x348 :: u32"
abbreviation (input) "A2D_ATTRACS_MSTR_CTRL \<equiv> 0x500 :: u32"
abbreviation (input) "A2D_ATTRACS_CTRL_00 \<equiv> 0x504 :: u32"
abbreviation (input) "A2D_ATTRACS_DATA_CTRL_00 \<equiv> 0x550 :: u32"
abbreviation (input) "A2D_ATTRACS_STS_00 \<equiv> 0x590 :: u32"
abbreviation (input) "A2D_ATTRACS_DATA_STS_00 \<equiv> 0x5A0 :: u32"
abbreviation (input) "CPB_RX_E2EFC_EN_0 \<equiv> 0x624 :: u32"
abbreviation (input) "CPB_RX_E2EFC_EN_1 \<equiv> 0x628 :: u32"
abbreviation (input) "AHM_ADDRESS_00 \<equiv> 0x800 :: u32"
abbreviation (input) "CPB_TXQUEUEEMPTY_0 \<equiv> 0xF08 :: u32"
abbreviation (input) "REG_RX_PAUSE_SIZE_00 \<equiv> 0x1200 :: u32"
abbreviation (input) "RX_PAUSE_RESTART \<equiv> 0x80000000 :: u32"
abbreviation (input) "CPB_RX_TRANSFERRED_DATA_SIZE_00 \<equiv> 0x1300 :: u32"
abbreviation (input) "TX_SW_RESET_00 \<equiv> 0x1400 :: u32"
abbreviation (input) "RX_SW_RESET_00 \<equiv> 0x1500 :: u32"
abbreviation (input) "CPORT_SW_RESET_BITS \<equiv> 3 :: u32"
abbreviation (input) "CPORT_BUF_SIZE \<equiv> 0x2000 :: u32"

abbreviation (input) "T_CONNECTIONSTATE \<equiv> 0x4020 :: u16"
abbreviation (input) "T_LOCALBUFFERSPACE \<equiv> 0x4028 :: u16"
abbreviation (input) "T_PEERBUFFERSPACE \<equiv> 0x4029 :: u16"
abbreviation (input) "T_CREDITSTOSEND \<equiv> 0x402a :: u16"
abbreviation (input) "DME_DDBL1_MANUFACTURERID \<equiv> 0x5003 :: u16"
abbreviation (input) "DME_DDBL1_PRODUCTID \<equiv> 0x5004 :: u16"
abbreviation (input) "DME_ARA_INIT_TYPE \<equiv> 0x6100 :: u16"
abbreviation (input) "DME_ARA_INIT_STATUS \<equiv> 0x6101 :: u16"
abbreviation (input) "DME_ARA_ENDPOINTID_H \<equiv> 0x6102 :: u16"
abbreviation (input) "DME_ARA_ENDPOINTID_L \<equiv> 0x6103 :: u16"
abbreviation (input) "DME_ARA_BOOT_CONTROL \<equiv> 0x610e :: u16"
abbreviation (input) "ARA_MBOX_ACK_ATTR \<equiv> 0x610f :: u16"
abbreviation (input) "ARA_MAILBOX \<equiv> 0xa000 :: u16"
abbreviation (input) "ARA_INTERRUPTSTATUS \<equiv> 0xd081 :: u16"
abbreviation (input) "TSB_POWERSTATE \<equiv> 0xd083 :: u16"
abbreviation (input) "ARA_INTERRUPTSTATUS_MAILBOX \<equiv> 0x8000 :: u32"
abbreviation (input) "POWERSTATE_LINKUP \<equiv> 2 :: u32"
abbreviation (input) "ARA_MAIL_READY_OTHER \<equiv> 2 :: u32"

definition tsb_unipro_read :: "env \<Rightarrow> u32 \<Rightarrow> ('a machine_scheme, u32) prog" where
  "tsb_unipro_read E offset = getreg32 E (AIO_UNIPRO_BASE + offset)"

definition tsb_unipro_write :: "u32 \<Rightarrow> u32 \<Rightarrow> ('a machine_scheme, unit) prog" where
  "tsb_unipro_write offset v = putreg32 v (AIO_UNIPRO_BASE + offset)"

section \<open>DME attributes\<close>

text \<open>\<^verbatim>\<open>peer\<close> and \<^verbatim>\<open>write\<close> are C booleans; the result is the UniPro status and the value.\<close>

definition attr_ctrl :: "u16 \<Rightarrow> u16 \<Rightarrow> bool \<Rightarrow> bool \<Rightarrow> u32" where
  "attr_ctrl attr selector peer wr =
     (if peer then push_bit 29 1 else 0) OR push_bit 16 (ucast selector AND 0x7FF) OR
     (if wr then push_bit 28 1 else 0) OR ucast attr"

definition unipro_attr_access ::
    "env \<Rightarrow> u16 \<Rightarrow> u32 \<Rightarrow> u16 \<Rightarrow> bool \<Rightarrow> bool \<Rightarrow> ('a machine_scheme, int \<times> u32) prog" where
  "unipro_attr_access E attr val selector peer wr =
     bind (tsb_unipro_write A2D_ATTRACS_CTRL_00 (attr_ctrl attr selector peer wr)) (\<lambda>_.
     bind (if wr then tsb_unipro_write A2D_ATTRACS_DATA_CTRL_00 val else skip) (\<lambda>_.
     bind (tsb_unipro_write A2D_ATTRACS_MSTR_CTRL (push_bit 16 1 OR 1)) (\<lambda>_.
     bind (poll_reg E (AIO_UNIPRO_BASE + A2D_ATTRACS_INT_BEF) (\<lambda>v. v \<noteq> 0)) (\<lambda>_.
     bind (tsb_unipro_write A2D_ATTRACS_INT_BEF 1) (\<lambda>_.
     bind (tsb_unipro_read E A2D_ATTRACS_STS_00) (\<lambda>rc.
     bind (if wr then return val else tsb_unipro_read E A2D_ATTRACS_DATA_STS_00) (\<lambda>val.
     return (sint rc, val))))))))"

definition chip_unipro_attr_read :: "env \<Rightarrow> u16 \<Rightarrow> u16 \<Rightarrow> bool \<Rightarrow> ('a machine_scheme, int \<times> u32) prog" where
  "chip_unipro_attr_read E attr selector peer = unipro_attr_access E attr 0 selector peer False"

definition chip_unipro_attr_write ::
    "env \<Rightarrow> u16 \<Rightarrow> u32 \<Rightarrow> u16 \<Rightarrow> bool \<Rightarrow> ('a machine_scheme, int) prog" where
  "chip_unipro_attr_write E attr val selector peer =
     bind (unipro_attr_access E attr val selector peer True) (\<lambda>(rc, _). return rc)"

section \<open>CPorts\<close>

text \<open>
  The rows of \<^verbatim>\<open>cporttable\<close> are determined by their id; \<open>None\<close> is \<^verbatim>\<open>NULL\<close>. The parameter of
  \<^verbatim>\<open>cport_handle\<close> is 16 bits wide, so the callers' 32-bit ids are truncated.
\<close>

definition cport_handle :: "env \<Rightarrow> u32 \<Rightarrow> u16 option" where
  "cport_handle E cportid =
     (let c = (ucast cportid :: u16) in if (ucast c :: u32) \<ge> cport_max E then None else Some c)"

definition cport_rx_buf :: "u16 \<Rightarrow> u32" where
  "cport_rx_buf c = 0x20000000 + CPORT_BUF_SIZE * ucast c"

definition cport_tx_buf :: "u16 \<Rightarrow> u32" where
  "cport_tx_buf c = 0x50000000 + 0x20000 * ucast c"

definition tsb_unipro_restart_rx :: "u16 \<Rightarrow> ('a machine_scheme, unit) prog" where
  "tsb_unipro_restart_rx c =
     bind (tsb_unipro_write (AHM_ADDRESS_00 + push_bit 2 (ucast c)) (cport_rx_buf c)) (\<lambda>_.
     tsb_unipro_write (REG_RX_PAUSE_SIZE_00 + push_bit 2 (ucast c)) (RX_PAUSE_RESTART OR CPORT_BUF_SIZE))"

text \<open>The four attribute writes of the reset, in order; the first failure stops the reset.\<close>

primrec clear_attrs :: "env \<Rightarrow> u16 list \<Rightarrow> u16 \<Rightarrow> ('a machine_scheme, int) prog" where
  "clear_attrs E [] cportid = return 0"
| "clear_attrs E (a # as) cportid =
     bind (chip_unipro_attr_write E a 0 cportid False) (\<lambda>rc.
     if rc \<noteq> 0 then return (- EIO) else clear_attrs E as cportid)"

definition tsb_unipro_reset_cport :: "env \<Rightarrow> u32 \<Rightarrow> ('a machine_scheme, int) prog" where
  "tsb_unipro_reset_cport E cportid =
     (if cportid \<ge> cport_max E then return (- EINVAL)
      else
        (let tx_queue_empty_offset = CPB_TXQUEUEEMPTY_0 + push_bit 2 (drop_bit 5 cportid);
             tx_queue_empty_bit = push_bit (unat (cportid AND 31)) (1 :: u32);
             tx_reset_offset = TX_SW_RESET_00 + push_bit 2 cportid;
             rx_reset_offset = RX_SW_RESET_00 + push_bit 2 cportid
         in bind (poll_reg E (AIO_UNIPRO_BASE + tx_queue_empty_offset)
                    (\<lambda>v. v AND tx_queue_empty_bit \<noteq> 0)) (\<lambda>_.
            bind (putreg32 CPORT_SW_RESET_BITS (AIO_UNIPRO_BASE + tx_reset_offset)) (\<lambda>_.
            bind (clear_attrs E [T_CONNECTIONSTATE, T_LOCALBUFFERSPACE, T_PEERBUFFERSPACE,
                    T_CREDITSTOSEND] (ucast cportid)) (\<lambda>rc.
            if rc \<noteq> 0 then return rc
            else
              bind (putreg32 CPORT_SW_RESET_BITS (AIO_UNIPRO_BASE + rx_reset_offset)) (\<lambda>_.
              bind (putreg32 0 (AIO_UNIPRO_BASE + tx_reset_offset)) (\<lambda>_.
              bind (putreg32 0 (AIO_UNIPRO_BASE + rx_reset_offset)) (\<lambda>_.
              return 0))))))))"

primrec reset_cports :: "env \<Rightarrow> nat \<Rightarrow> nat \<Rightarrow> ('a machine_scheme, int) prog" where
  "reset_cports E 0 i = return 0"
| "reset_cports E (Suc n) i =
     bind (tsb_unipro_reset_cport E (word_of_nat i)) (\<lambda>rc.
     if rc \<noteq> 0 then return rc else reset_cports E n (Suc i))"

definition tsb_reset_all_cports :: "env \<Rightarrow> ('a machine_scheme, int) prog" where
  "tsb_reset_all_cports E = reset_cports E (unat (cport_max E)) 0"

definition tsb_unipro_init_cport :: "env \<Rightarrow> u32 \<Rightarrow> ('a machine_scheme, int) prog" where
  "tsb_unipro_init_cport E cportid =
     (if cportid \<ge> cport_max E then return (- EINVAL)
      else case cport_handle E cportid of
             None \<Rightarrow> return (- EINVAL)
           | Some c \<Rightarrow> bind (tsb_unipro_restart_rx c) (\<lambda>_. return 0))"

definition tsb_disable_all_e2efc :: "('a machine_scheme, unit) prog" where
  "tsb_disable_all_e2efc =
     bind (tsb_unipro_write CPB_RX_E2EFC_EN_0 0) (\<lambda>_. tsb_unipro_write CPB_RX_E2EFC_EN_1 0)"

definition tsb_reset_before_ready :: "('a machine_scheme, unit) prog" where
  "tsb_reset_before_ready = tsb_disable_all_e2efc"

definition tsb_reset_before_jump :: "env \<Rightarrow> ('a machine_scheme, unit) prog" where
  "tsb_reset_before_jump E = bind (tsb_reset_all_cports E) (\<lambda>_. skip)"

definition chip_unipro_init :: "env \<Rightarrow> ('a machine_scheme, unit) prog" where
  "chip_unipro_init E = bind (tsb_reset_all_cports E) (\<lambda>_. skip)"

definition chip_unipro_init_cport :: "env \<Rightarrow> u32 \<Rightarrow> ('a machine_scheme, int) prog" where
  "chip_unipro_init_cport E cportid = tsb_unipro_init_cport E cportid"

definition chip_reset_before_jump :: "env \<Rightarrow> ('a machine_scheme, unit) prog" where
  "chip_reset_before_jump E = tsb_reset_before_jump E"

definition chip_wait_for_link_up :: "env \<Rightarrow> ('a machine_scheme, unit) prog" where
  "chip_wait_for_link_up E =
     loopM (\<lambda>_. bind (chip_unipro_attr_read E TSB_POWERSTATE 0 False) (\<lambda>(rc, v).
       return (if rc = 0 \<and> v \<noteq> POWERSTATE_LINKUP then Inl () else Inr ()))) ()"

text \<open>Transmission: the payload is copied to the CPort's window, then the end-of-message byte.\<close>

definition chip_unipro_send :: "env \<Rightarrow> u32 \<Rightarrow> bytes \<Rightarrow> ('a machine_scheme, int) prog" where
  "chip_unipro_send E cportid buf =
     (if cportid \<ge> cport_max E \<or> length buf > unat CPORT_BUF_SIZE then return (-1)
      else case cport_handle E cportid of
             None \<Rightarrow> return (-1)
           | Some c \<Rightarrow>
               bind (seqM (map (\<lambda>i. putreg8 (buf ! i) (cport_tx_buf c + word_of_nat i)) [0..<length buf])) (\<lambda>_.
               bind (putreg8 1 (cport_tx_buf c + (0x20000 - 1))) (\<lambda>_.
               return 0)))"

text \<open>
  Reception. The handler gets the receive buffer and the number of bytes the hardware reports.
  \<^verbatim>\<open>blocking\<close> keeps polling until a message, an error or an overflow shows up.
\<close>

definition chip_unipro_receive ::
    "env \<Rightarrow> u32 \<Rightarrow> (u32 \<Rightarrow> bytes \<Rightarrow> nat \<Rightarrow> ('a machine_scheme, int) prog) option \<Rightarrow> bool \<Rightarrow>
     ('a machine_scheme, int) prog" where
  "chip_unipro_receive E cportid handler blocking =
     (case cport_handle E cportid of
        None \<Rightarrow> return (-1)
      | Some c \<Rightarrow>
          bind (assert_or_fault (unat cportid < 16)) (\<lambda>_.
          let eom_nom_bit = push_bit (2 * unat cportid) (1 :: u32);
              eom_err_bit = push_bit (2 * unat cportid) (2 :: u32);
              eot_bit = push_bit (unat cportid) (1 :: u32)
          in loopM (\<lambda>_.
               bind (tsb_unipro_read E AHM_RX_EOM_INT_BEF_0) (\<lambda>eom.
               bind (tsb_unipro_read E AHM_RX_EOT_INT_BEF_0) (\<lambda>eot.
               if eom AND eom_err_bit \<noteq> 0 then return (Inr (-1))
               else if eot AND eot_bit \<noteq> 0 then return (Inr (-1))
               else if eom AND eom_nom_bit \<noteq> 0 then
                 bind (tsb_unipro_read E (CPB_RX_TRANSFERRED_DATA_SIZE_00 + push_bit 2 cportid)) (\<lambda>n.
                 bind (tsb_unipro_write AHM_RX_EOM_INT_BEF_0 eom_nom_bit) (\<lambda>_.
                 bind (case handler of
                         None \<Rightarrow> return 0
                       | Some h \<Rightarrow>
                           bind (gets (\<lambda>s. rx_buf E (io s) (unat c))) (\<lambda>buf.
                           h cportid buf (unat n))) (\<lambda>rc.
                 bind (tsb_unipro_restart_rx c) (\<lambda>_.
                 return (Inr rc)))))
               else return (if blocking then Inl () else Inr 0)))) ()))"

section \<open>The mailbox\<close>

definition is_mailbox_irq_pending :: "env \<Rightarrow> ('a machine_scheme, bool) prog" where
  "is_mailbox_irq_pending E =
     bind (chip_unipro_attr_read E ARA_INTERRUPTSTATUS 0 False) (\<lambda>(rc, irq_status).
     return (if rc \<noteq> 0 then False else irq_status AND ARA_INTERRUPTSTATUS_MAILBOX \<noteq> 0))"

text \<open>
  \<^verbatim>\<open>read_mailbox\<close> gets the result code and, when that is 0, the value. Both loops wait for the
  other side for as long as it takes.
\<close>

definition read_mailbox :: "env \<Rightarrow> ('a machine_scheme, int \<times> u32) prog" where
  "read_mailbox E =
     bind (loopM (\<lambda>_. bind (chip_unipro_attr_read E ARA_INTERRUPTSTATUS 0 False) (\<lambda>(rc, irq).
             return (if rc = 0 \<and> irq AND ARA_INTERRUPTSTATUS_MAILBOX = 0 then Inl () else Inr rc))) ()) (\<lambda>rc.
     if rc \<noteq> 0 then return (rc, 0)
     else bind (chip_unipro_attr_read E ARA_MAILBOX 0 False) (\<lambda>(rc, mbox).
          return (if rc \<noteq> 0 then (rc, 0) else if mbox \<ge> 0xFFFF then (- EINVAL, 0) else (0, mbox))))"

definition ack_mailbox :: "env \<Rightarrow> u16 \<Rightarrow> ('a machine_scheme, int) prog" where
  "ack_mailbox E val = chip_unipro_attr_write E ARA_MBOX_ACK_ATTR (ucast val) 0 False"

definition write_mailbox :: "env \<Rightarrow> u32 \<Rightarrow> ('a machine_scheme, int) prog" where
  "write_mailbox E val =
     bind (chip_unipro_attr_write E ARA_MAILBOX val 0 True) (\<lambda>rc.
     if rc \<noteq> 0 then return rc
     else loopM (\<lambda>_. bind (chip_unipro_attr_read E ARA_INTERRUPTSTATUS 0 True) (\<lambda>(rc, irq).
            return (if rc = 0 \<and> irq AND ARA_INTERRUPTSTATUS_MAILBOX \<noteq> 0 then Inl () else Inr rc))) ())"

definition advertise_ready :: "env \<Rightarrow> ('a machine_scheme, int) prog" where
  "advertise_ready E =
     bind (chip_wait_for_link_up E) (\<lambda>_.
     bind tsb_reset_before_ready (\<lambda>_.
     write_mailbox E ARA_MAIL_READY_OTHER))"

text \<open>
  \<^verbatim>\<open>tsb_unipro_recv_cport\<close>: the mailbox holds the assigned CPort plus one. The result is the return
  code and what is left in \<^verbatim>\<open>*cportid\<close> when the mailbox was read.
\<close>

definition chip_unipro_recv_cport :: "env \<Rightarrow> ('a machine_scheme, int \<times> u32 option) prog" where
  "chip_unipro_recv_cport E =
     bind (read_mailbox E) (\<lambda>(rc, v).
     if rc \<noteq> 0 then return (rc, None)
     else
       (let cport_recv = v - 1
        in if cport_recv \<ge> cport_max E then return (- EINVAL, Some cport_recv)
           else case cport_handle E cport_recv of
                  None \<Rightarrow> return (- EINVAL, Some cport_recv)
                | Some _ \<Rightarrow> bind (ack_mailbox E (ucast (cport_recv + 1))) (\<lambda>rc. return (rc, Some cport_recv))))"

section \<open>Only I/O\<close>

lemma unipro_reg_only_io:
  "preserves only_io (tsb_unipro_read E a)" "preserves only_io (tsb_unipro_write a v)"
  by (simp_all add: tsb_unipro_read_def tsb_unipro_write_def getreg32_only_io putreg32_only_io)

lemma unipro_attr_access_only_io: "preserves only_io (unipro_attr_access E attr v sel peer wr)"
  unfolding unipro_attr_access_def by (intro io_intros unipro_reg_only_io poll_reg_only_io)

lemma attr_read_only_io: "preserves only_io (chip_unipro_attr_read E attr sel peer)"
  unfolding chip_unipro_attr_read_def by (rule unipro_attr_access_only_io)

lemma attr_write_only_io: "preserves only_io (chip_unipro_attr_write E attr v sel peer)"
  unfolding chip_unipro_attr_write_def by (intro io_intros unipro_attr_access_only_io)

lemma clear_attrs_only_io: "preserves only_io (clear_attrs E as c)"
  by (induction as) (auto intro!: io_intros attr_write_only_io)

lemma reset_cport_only_io: "preserves only_io (tsb_unipro_reset_cport E c)"
  unfolding tsb_unipro_reset_cport_def
  by (intro io_intros poll_reg_only_io clear_attrs_only_io)

lemma reset_cports_only_io: "preserves only_io (reset_cports E n i)"
  by (induction n arbitrary: i) (auto intro!: io_intros reset_cport_only_io)

lemma reset_all_cports_only_io: "preserves only_io (tsb_reset_all_cports E)"
  unfolding tsb_reset_all_cports_def by (rule reset_cports_only_io)

lemma restart_rx_only_io: "preserves only_io (tsb_unipro_restart_rx c)"
  unfolding tsb_unipro_restart_rx_def by (intro io_intros unipro_reg_only_io)

lemma init_cport_only_io: "preserves only_io (chip_unipro_init_cport E c)"
  unfolding chip_unipro_init_cport_def tsb_unipro_init_cport_def
  by (intro io_intros restart_rx_only_io)

lemma unipro_init_only_io: "preserves only_io (chip_unipro_init E)"
  unfolding chip_unipro_init_def by (intro io_intros reset_all_cports_only_io)

lemma reset_before_jump_only_io: "preserves only_io (chip_reset_before_jump E)"
  unfolding chip_reset_before_jump_def tsb_reset_before_jump_def
  by (intro io_intros reset_all_cports_only_io)

lemma send_only_io: "preserves only_io (chip_unipro_send E c buf)"
  unfolding chip_unipro_send_def by (intro io_intros seqM_only_io) (auto intro: putreg8_only_io)

lemma mailbox_only_io:
  "preserves only_io (read_mailbox E)" "preserves only_io (write_mailbox E v)"
  "preserves only_io (ack_mailbox E w)"
  unfolding read_mailbox_def write_mailbox_def ack_mailbox_def
  by (intro io_intros attr_read_only_io attr_write_only_io)+

lemma advertise_ready_only_io: "preserves only_io (advertise_ready E)"
  unfolding advertise_ready_def chip_wait_for_link_up_def tsb_reset_before_ready_def tsb_disable_all_e2efc_def
  by (intro io_intros attr_read_only_io mailbox_only_io unipro_reg_only_io)

lemma recv_cport_only_io: "preserves only_io (chip_unipro_recv_cport E)"
  unfolding chip_unipro_recv_cport_def by (intro io_intros mailbox_only_io)

lemmas unipro_only_io = attr_read_only_io attr_write_only_io init_cport_only_io unipro_init_only_io
  reset_before_jump_only_io send_only_io mailbox_only_io advertise_ready_only_io recv_cport_only_io
  restart_rx_only_io unipro_reg_only_io

end
