(* ===== verification/Errors.thy ===== *)
theory Errors
  imports Unipro
begin

text \<open>
  Error reporting (\<^verbatim>\<open>common/src/error.c\<close>) and boot status advertising
  (\<^verbatim>\<open>chips/es3tsb/src/es3_advertise.c\<close>). The two files call each other: failing to advertise a
  status halts, and halting advertises; a flag cuts the recursion. The theory shows that the
  recursion as written in the code is the one modelled, that the first error recorded in a
  reporting field is the one that stays, and that halting never returns.
\<close>

section \<open>Codes\<close>

abbreviation (input) "BRE_OK \<equiv> 0 :: u32"
abbreviation (input) "BRE_S1_PAIMARY_MASK \<equiv> 0x000000ff :: u32"
abbreviation (input) "BRE_S1_FALLBACK_MASK \<equiv> 0x0000ff00 :: u32"
abbreviation (input) "BRE_S2_FW_MASK \<equiv> 0x00ff0000 :: u32"

abbreviation (input) "BRE_EFUSE_ECC \<equiv> 0x10 :: u32"
abbreviation (input) "BRE_EFUSE_BAD_ARA_VID \<equiv> 0x11 :: u32"
abbreviation (input) "BRE_EFUSE_BAD_ARA_PID \<equiv> 0x12 :: u32"
abbreviation (input) "BRE_EFUSE_BAD_IMS \<equiv> 0x13 :: u32"
abbreviation (input) "BRE_EFUSE_BAD_SERIAL_NO \<equiv> 0x14 :: u32"
abbreviation (input) "BRE_EFUSE_UNIPRO_VID_READ \<equiv> 0x15 :: u32"
abbreviation (input) "BRE_EFUSE_UNIPRO_PID_READ \<equiv> 0x16 :: u32"
abbreviation (input) "BRE_EFUSE_ENDPOINT_ID_WRITE \<equiv> 0x17 :: u32"
abbreviation (input) "BRE_TFTF_LOAD_HEADER \<equiv> 0x20 :: u32"
abbreviation (input) "BRE_TFTF_HEADER_SIZE \<equiv> 0x21 :: u32"
abbreviation (input) "BRE_TFTF_MEMORY_RANGE \<equiv> 0x22 :: u32"
abbreviation (input) "BRE_TFTF_SENTINEL \<equiv> 0x23 :: u32"
abbreviation (input) "BRE_TFTF_NO_TABLE_END \<equiv> 0x24 :: u32"
abbreviation (input) "BRE_TFTF_LOAD_SIGNATURE \<equiv> 0x26 :: u32"
abbreviation (input) "BRE_TFTF_VIDPID_MISMATCH \<equiv> 0x27 :: u32"
abbreviation (input) "BRE_TFTF_COMPRESSION_UNSUPPORTED \<equiv> 0x28 :: u32"
abbreviation (input) "BRE_TFTF_COMPRESSION_BAD \<equiv> 0x29 :: u32"
abbreviation (input) "BRE_TFTF_HASHED_SECTION_AFTER_UNHASHED \<equiv> 0x2a :: u32"
abbreviation (input) "BRE_TFTF_HEADER_TYPE \<equiv> 0x2b :: u32"
abbreviation (input) "BRE_TFTF_COLLISION \<equiv> 0x2c :: u32"
abbreviation (input) "BRE_TFTF_START_NOT_IN_CODE \<equiv> 0x2d :: u32"
abbreviation (input) "BRE_TFTF_IMAGE_CORRUPTED \<equiv> 0x2e :: u32"
abbreviation (input) "BRE_TFTF_LOAD_DATA \<equiv> 0x2f :: u32"
abbreviation (input) "BRE_TFTF_UNTRUSTED_NOT_ALLOWED \<equiv> 0x30 :: u32"
abbreviation (input) "BRE_FFFF_LOAD_HEADER \<equiv> 0x40 :: u32"
abbreviation (input) "BRE_FFFF_HEADER_SIZE \<equiv> 0x41 :: u32"
abbreviation (input) "BRE_FFFF_SENTINEL \<equiv> 0x43 :: u32"
abbreviation (input) "BRE_FFFF_NO_TABLE_END \<equiv> 0x44 :: u32"
abbreviation (input) "BRE_FFFF_BLOCK_SIZE \<equiv> 0x46 :: u32"
abbreviation (input) "BRE_FFFF_FLASH_CAPACITY \<equiv> 0x47 :: u32"
abbreviation (input) "BRE_FFFF_IMAGE_LENGTH \<equiv> 0x48 :: u32"
abbreviation (input) "BRE_FFFF_HEADER_NOT_FOUND \<equiv> 0x49 :: u32"
abbreviation (input) "BRE_FFFF_NO_FIRMWARE \<equiv> 0x4a :: u32"
abbreviation (input) "BRE_FFFF_ELT_RESERVED_MEMORY \<equiv> 0x4b :: u32"
abbreviation (input) "BRE_FFFF_ELT_ALIGNMENT \<equiv> 0x4c :: u32"
abbreviation (input) "BRE_FFFF_ELT_COLLISION \<equiv> 0x4d :: u32"
abbreviation (input) "BRE_FFFF_ELT_DUPLICATE \<equiv> 0x4e :: u32"
abbreviation (input) "BRE_FFFF_LOGIC_ERROR \<equiv> 0x4f :: u32"
abbreviation (input) "BRE_BOU_GBCTRL_CPORT \<equiv> 0x80 :: u32"
abbreviation (input) "BRE_BOU_GBCTRL_CONNECTED \<equiv> 0x81 :: u32"
abbreviation (input) "BRE_BOU_GBBOOT_CPORT \<equiv> 0x83 :: u32"
abbreviation (input) "BRE_BOU_GBBOOT_CONNECTED \<equiv> 0x84 :: u32"
abbreviation (input) "BRE_BOU_GBBOOT_RECV \<equiv> 0x86 :: u32"
abbreviation (input) "BRE_BOU_GBBOOT_FW_SIZE \<equiv> 0x88 :: u32"
abbreviation (input) "BRE_BOU_GBBOOT_GET_FW \<equiv> 0x8a :: u32"
abbreviation (input) "BRE_BOU_GBBOOT_READY \<equiv> 0x8b :: u32"

abbreviation (input) "INIT_TYPE_TOSHIBA \<equiv> 0x01260001 :: u32"
abbreviation (input) "INIT_STATUS_OPERATING \<equiv> 0x01000000 :: u32"
abbreviation (input) "INIT_STATUS_SPI_BOOT_STARTED \<equiv> 0x02000000 :: u32"
abbreviation (input) "INIT_STATUS_TRUSTED_SPI_FLASH_BOOT_FINISHED \<equiv> 0x03000000 :: u32"
abbreviation (input) "INIT_STATUS_UNTRUSTED_SPI_FLASH_BOOT_FINISHED \<equiv> 0x04000000 :: u32"
abbreviation (input) "INIT_STATUS_UNIPRO_BOOT_STARTED \<equiv> 0x06000000 :: u32"
abbreviation (input) "INIT_STATUS_TRUSTED_UNIPRO_BOOT_FINISHED \<equiv> 0x07000000 :: u32"
abbreviation (input) "INIT_STATUS_UNTRUSTED_UNIPRO_BOOT_FINISHED \<equiv> 0x08000000 :: u32"
abbreviation (input) "INIT_STATUS_FALLLBACK_UNIPRO_BOOT_STARTED \<equiv> 0x09000000 :: u32"
abbreviation (input) "INIT_STATUS_FALLLBACK_TRUSTED_UNIPRO_BOOT_FINISHED \<equiv> 0x0a000000 :: u32"
abbreviation (input) "INIT_STATUS_FALLLBACK_UNTRUSTED_UNIPRO_BOOT_FINISHED \<equiv> 0x0b000000 :: u32"
abbreviation (input) "INIT_STATUS_RESUMED_FROM_STANDBY \<equiv> 0x0c000000 :: u32"
abbreviation (input) "INIT_STATUS_FAILED \<equiv> 0x80000000 :: u32"
abbreviation (input) "INIT_STATUS_ERROR_MASK \<equiv> 0x80000000 :: u32"
abbreviation (input) "INIT_STATUS_STATUS_MASK \<equiv> 0x7f000000 :: u32"
abbreviation (input) "INIT_STATUS_ERROR_CODE_MASK \<equiv> 0x00ffffff :: u32"

section \<open>State and operations\<close>

record errs = machine +
  fw_errno :: u32
  boot_status_offline :: bool

definition get_last_error :: "('a errs_scheme, u32) prog" where
  "get_last_error = gets fw_errno"

definition merge_errno_with_boot_status :: "u32 \<Rightarrow> ('a errs_scheme, u32) prog" where
  "merge_errno_with_boot_status boot_status =
     bind get_last_error (\<lambda>e.
     return ((boot_status AND NOT INIT_STATUS_ERROR_CODE_MASK) OR (e AND INIT_STATUS_ERROR_CODE_MASK)))"

text \<open>
  \<^verbatim>\<open>halt_and_catch_fire\<close> with the call it makes to \<^verbatim>\<open>chip_advertise_boot_status\<close> as a parameter,
  and the other way round. The handshake with the test controller is compiled out in production.
\<close>

definition halt_with :: "(u32 \<Rightarrow> ('a errs_scheme, unit) prog) \<Rightarrow> u32 \<Rightarrow> ('a errs_scheme, 'b) prog" where
  "halt_with advertise boot_status =
     bind (merge_errno_with_boot_status boot_status) (\<lambda>b.
     let b = b OR INIT_STATUS_FAILED
     in bind (advertise b) (\<lambda>_. stop_with (Halted b)))"

definition advertise_with ::
    "env \<Rightarrow> (u32 \<Rightarrow> ('a errs_scheme, unit) prog) \<Rightarrow> u32 \<Rightarrow> ('a errs_scheme, unit) prog" where
  "advertise_with E halt boot_status =
     bind (gets boot_status_offline) (\<lambda>off.
     if off then skip
     else
       bind (chip_unipro_attr_write E DME_ARA_INIT_STATUS boot_status 0 False) (\<lambda>status.
       if status \<noteq> 0
       then bind (modify (\<lambda>s. s\<lparr>boot_status_offline := True\<rparr>)) (\<lambda>_. halt boot_status)
       else skip))"

text \<open>
  The recursion is at most one call deep, because the flag is set before the inner call: the
  innermost \<^verbatim>\<open>chip_advertise_boot_status\<close> returns at once.
\<close>

definition chip_advertise_boot_status :: "env \<Rightarrow> u32 \<Rightarrow> ('a errs_scheme, unit) prog" where
  "chip_advertise_boot_status E = advertise_with E (halt_with (\<lambda>_. skip))"

definition halt_and_catch_fire :: "env \<Rightarrow> u32 \<Rightarrow> ('a errs_scheme, 'b) prog" where
  "halt_and_catch_fire E = halt_with (chip_advertise_boot_status E)"

definition chip_get_boot_status :: "env \<Rightarrow> ('a errs_scheme, u32) prog" where
  "chip_get_boot_status E =
     bind (chip_unipro_attr_read E DME_ARA_INIT_STATUS 0 False) (\<lambda>(status, boot_status).
     if status \<noteq> 0
     then bind (modify (\<lambda>s. s\<lparr>boot_status_offline := True\<rparr>)) (\<lambda>_.
          halt_and_catch_fire E boot_status)
     else return boot_status)"

definition chip_advertise_boot_type :: "env \<Rightarrow> ('a machine_scheme, int) prog" where
  "chip_advertise_boot_type E = chip_unipro_attr_write E DME_ARA_INIT_TYPE INIT_TYPE_TOSHIBA 0 False"

definition init_last_error :: "env \<Rightarrow> ('a errs_scheme, unit) prog" where
  "init_last_error E =
     (if boot_stage E = 1 then modify (\<lambda>s. s\<lparr>fw_errno := BRE_OK\<rparr>)
      else
        bind (chip_unipro_attr_read E DME_ARA_INIT_STATUS 0 False) (\<lambda>(rc, v).
        let e = (if rc \<noteq> 0 then BRE_OK else v)
        in modify (\<lambda>s. s\<lparr>fw_errno := e AND INIT_STATUS_ERROR_CODE_MASK AND NOT BRE_S2_FW_MASK\<rparr>)))"

text \<open>The field an error goes to: its mask and shift.\<close>

definition error_field :: "env \<Rightarrow> ('a errs_scheme, u32 \<times> nat) prog" where
  "error_field E =
     (if boot_stage E = 1 then
        bind (chip_get_boot_status E) (\<lambda>b.
        return (if b AND (INIT_STATUS_STATUS_MASK OR INIT_STATUS_ERROR_MASK) =
                   INIT_STATUS_FALLLBACK_UNIPRO_BOOT_STARTED
                then (BRE_S1_FALLBACK_MASK, 8) else (BRE_S1_PAIMARY_MASK, 0)))
      else return (BRE_S2_FW_MASK, 16))"

definition record_error :: "u32 \<Rightarrow> nat \<Rightarrow> u32 \<Rightarrow> u32 \<Rightarrow> u32" where
  "record_error msk shift err e =
     (if e AND msk = BRE_OK then e OR (push_bit shift err AND msk) else e)"

definition set_last_error :: "env \<Rightarrow> u32 \<Rightarrow> ('a errs_scheme, unit) prog" where
  "set_last_error E err =
     bind (error_field E) (\<lambda>(msk, shift).
     modify (\<lambda>s. s\<lparr>fw_errno := record_error msk shift err (fw_errno s)\<rparr>))"

section \<open>The recursion as the code writes it\<close>

lemma halt_offline:
  "boot_status_offline s \<Longrightarrow> halt_with (chip_advertise_boot_status E) b s = halt_with (\<lambda>_. skip) b s"
  by (simp add: halt_with_def merge_errno_with_boot_status_def get_last_error_def
      chip_advertise_boot_status_def advertise_with_def prog_defs Let_def)

lemma advertise_unfold:
  "chip_advertise_boot_status E b = advertise_with E (halt_and_catch_fire E) b"
proof
  fix s
  show "chip_advertise_boot_status E b s = advertise_with E (halt_and_catch_fire E) b s"
    unfolding halt_and_catch_fire_def
    by (subst chip_advertise_boot_status_def)
      (simp add: advertise_with_def bind_def gets_def modify_def halt_offline split: outcome.split)
qed

section \<open>What error handling may change\<close>

text \<open>Everything but the history and the two variables of this component is as before.\<close>

definition only_errs :: "'a errs_scheme \<Rightarrow> 'a errs_scheme \<Rightarrow> bool" where
  "only_errs s t \<longleftrightarrow> (\<exists>ev e off. t = s\<lparr>io := ev @ io s, fw_errno := e, boot_status_offline := off\<rparr>)"

lemma only_errs_trans: "only_errs s t \<Longrightarrow> only_errs t u \<Longrightarrow> only_errs s u"
proof -
  assume "only_errs s t" "only_errs t u"
  then obtain ev e off ev' e' off' where
    "t = s\<lparr>io := ev @ io s, fw_errno := e, boot_status_offline := off\<rparr>"
    "u = t\<lparr>io := ev' @ io t, fw_errno := e', boot_status_offline := off'\<rparr>"
    by (auto simp: only_errs_def)
  then have "u = s\<lparr>io := (ev' @ ev) @ io s, fw_errno := e', boot_status_offline := off'\<rparr>" by simp
  then show ?thesis unfolding only_errs_def by blast
qed

lemma only_io_only_errs: "only_io s t \<Longrightarrow> only_errs (s :: 'a errs_scheme) t"
  unfolding only_io_def only_errs_def
  by clarify (rule exI, rule exI [of _ "fw_errno s"], rule exI [of _ "boot_status_offline s"], simp)

interpretation only_errs: state_rel only_errs
proof unfold_locales
  fix s :: "'a errs_scheme"
  show "only_errs s s" by (rule only_io_only_errs) (rule only_io.refl)
qed (rule only_errs_trans)

lemma only_io_pres_errs: "preserves only_io m \<Longrightarrow> preserves only_errs (m :: ('a errs_scheme, 'b) prog)"
  by (auto simp: preserves_def only_io_only_errs)

lemma only_errs_set: "only_errs s (s\<lparr>fw_errno := e, boot_status_offline := off\<rparr>)"
  unfolding only_errs_def by (rule exI [of _ "[]"]) auto

lemma only_errs_set1:
  "only_errs s (s\<lparr>boot_status_offline := b\<rparr>)" "only_errs s (s\<lparr>fw_errno := e\<rparr>)"
  using only_errs_set [where s = s and e = "fw_errno s" and off = b]
    only_errs_set [where s = s and e = e and off = "boot_status_offline s"] by simp_all

lemma only_errs_modify:
  "preserves only_errs (modify (\<lambda>s. s\<lparr>boot_status_offline := b\<rparr>))"
  "preserves only_errs (modify (\<lambda>s. s\<lparr>fw_errno := f s\<rparr>))"
  by (intro only_errs.pres_modify only_errs_set1)+

lemma merge_only_errs: "preserves only_errs (merge_errno_with_boot_status b)"
  unfolding merge_errno_with_boot_status_def get_last_error_def by (intro only_errs.pres_intros)

lemma halt_with_only_errs:
  "(\<And>b. preserves only_errs (f b)) \<Longrightarrow> preserves only_errs (halt_with f b)"
  unfolding halt_with_def by (intro only_errs.pres_intros merge_only_errs)

lemma advertise_only_errs: "preserves only_errs (chip_advertise_boot_status E b)"
  unfolding chip_advertise_boot_status_def advertise_with_def
  by (intro only_errs.pres_intros halt_with_only_errs only_errs_modify only_io_pres_errs attr_write_only_io)

lemma halt_only_errs: "preserves only_errs (halt_and_catch_fire E b)"
  unfolding halt_and_catch_fire_def by (intro halt_with_only_errs advertise_only_errs)

lemma get_boot_status_only_errs: "preserves only_errs (chip_get_boot_status E)"
  unfolding chip_get_boot_status_def
  by (intro only_errs.pres_intros halt_only_errs only_errs_modify only_io_pres_errs attr_read_only_io)

lemma error_field_only_errs: "preserves only_errs (error_field E)"
  unfolding error_field_def by (intro only_errs.pres_intros get_boot_status_only_errs)

lemma set_last_error_only_errs: "preserves only_errs (set_last_error E err)"
  unfolding set_last_error_def
  by (intro only_errs.pres_intros error_field_only_errs only_errs_modify)

lemma init_last_error_only_errs: "preserves only_errs (init_last_error E)"
  unfolding init_last_error_def
  by (intro only_errs.pres_intros only_errs_modify only_io_pres_errs attr_read_only_io)

section \<open>Halting\<close>

lemma halt_with_stops: "\<exists>k t. halt_with f b s = Stop k t"
  by (auto simp: halt_with_def merge_errno_with_boot_status_def get_last_error_def prog_defs Let_def
      split: outcome.splits)

lemma halt_never_returns: "halt_and_catch_fire E b s \<noteq> Ret a t"
  unfolding halt_and_catch_fire_def by (metis halt_with_stops outcome.distinct(1))

section \<open>The first error stays\<close>

text \<open>Every reporting field that holds an error keeps it.\<close>

definition errno_sticky :: "'a errs_scheme \<Rightarrow> 'a errs_scheme \<Rightarrow> bool" where
  "errno_sticky s t \<longleftrightarrow>
     (\<forall>m \<in> {BRE_S1_PAIMARY_MASK, BRE_S1_FALLBACK_MASK, BRE_S2_FW_MASK}.
        fw_errno s AND m \<noteq> 0 \<longrightarrow> fw_errno t AND m = fw_errno s AND m)"

interpretation errno_sticky: state_rel errno_sticky
  by unfold_locales (auto simp: errno_sticky_def)

lemma record_error_other:
  "m AND m' = 0 \<Longrightarrow> record_error m sh err e AND m' = e AND m'"
  by (simp add: record_error_def bit.conj_disj_distrib2 and.assoc)

lemma record_error_same:
  "record_error m sh err e AND m = (if e AND m = 0 then push_bit sh err AND m else e AND m)"
  by (simp add: record_error_def bit.conj_disj_distrib2 and.assoc)

lemma only_io_sticky: "only_io s t \<Longrightarrow> errno_sticky s t"
  by (auto simp: only_io_def errno_sticky_def)

lemma sticky_advertise: "preserves errno_sticky (chip_advertise_boot_status E b)"
proof -
  have io: "preserves errno_sticky m" if "preserves only_io m" for m :: "('a errs_scheme, 'b) prog"
    using that by (auto simp: preserves_def only_io_sticky)
  show ?thesis
    unfolding chip_advertise_boot_status_def advertise_with_def halt_with_def
      merge_errno_with_boot_status_def get_last_error_def
    by (intro errno_sticky.pres_intros errno_sticky.pres_modify io attr_write_only_io)
      (simp add: errno_sticky_def)
qed

lemma sticky_io: "preserves only_io m \<Longrightarrow> preserves errno_sticky (m :: ('a errs_scheme, 'b) prog)"
  by (auto simp: preserves_def only_io_sticky)

lemma sticky_halt: "preserves errno_sticky (halt_and_catch_fire E b)"
  unfolding halt_and_catch_fire_def halt_with_def merge_errno_with_boot_status_def get_last_error_def
  by (intro errno_sticky.pres_intros sticky_advertise)

lemma record_error_sticky:
  assumes "m \<in> {BRE_S1_PAIMARY_MASK, BRE_S1_FALLBACK_MASK, BRE_S2_FW_MASK}"
  shows "errno_sticky s (s\<lparr>fw_errno := record_error m sh err (fw_errno s)\<rparr>)"
proof -
  have "record_error m sh err (fw_errno s) AND m' = fw_errno s AND m'"
    if "m' \<in> {BRE_S1_PAIMARY_MASK, BRE_S1_FALLBACK_MASK, BRE_S2_FW_MASK}" "fw_errno s AND m' \<noteq> 0" for m'
  proof (cases "m = m'")
    case True
    with that(2) show ?thesis by (simp add: record_error_same)
  next
    case False
    with assms that(1) have "m AND m' = 0" by auto
    then show ?thesis by (rule record_error_other)
  qed
  then show ?thesis by (simp add: errno_sticky_def)
qed

lemma error_field_masks:
  "wp (error_field E) (\<lambda>(m, sh) t. m \<in> {BRE_S1_PAIMARY_MASK, BRE_S1_FALLBACK_MASK, BRE_S2_FW_MASK} \<and> sh < 32)
     (\<lambda>_ _. True) s"
proof (cases "boot_stage E = 1")
  case True
  then show ?thesis
    by (simp add: error_field_def wp_bind) (rule wp_trivI, auto simp: wp_return)
qed (simp add: error_field_def wp_simps)

lemma error_field_keeps:
  assumes "error_field E s = Ret a t" "a = (m, sh)"
  shows "fw_errno t = fw_errno s"
proof (cases "boot_stage E = 1")
  case True
  then obtain b where "chip_get_boot_status E s = Ret b t"
    using assms by (auto simp: error_field_def return_def elim!: bind_eq_RetE)
  then obtain p where p: "chip_unipro_attr_read E DME_ARA_INIT_STATUS 0 False s = Ret p t"
    unfolding chip_get_boot_status_def
    by (auto elim!: bind_eq_RetE split: if_splits simp: return_def halt_never_returns)
  show ?thesis using only_io_RetD [OF attr_read_only_io p] by auto
next
  case False
  then show ?thesis using assms by (simp add: error_field_def return_def)
qed

lemma sticky_error_field: "preserves errno_sticky (error_field E)"
  unfolding error_field_def chip_get_boot_status_def
  by (intro errno_sticky.pres_intros errno_sticky.pres_modify sticky_io attr_read_only_io sticky_halt)
    (simp add: errno_sticky_def)

lemma set_last_error_sticky: "preserves errno_sticky (set_last_error E err)"
proof
  fix s :: "'a errs_scheme"
  show "errno_sticky s (outcome_state (set_last_error E err s))"
  proof (cases "error_field E s")
    case (Ret a t)
    obtain m sh where a: "a = (m, sh)" by (cases a)
    have "errno_sticky s t" using sticky_error_field Ret by (rule preserves_RetD)
    moreover have "m \<in> {BRE_S1_PAIMARY_MASK, BRE_S1_FALLBACK_MASK, BRE_S2_FW_MASK}"
      using wp_RetD [OF error_field_masks Ret] a by simp
    then have "errno_sticky t (t\<lparr>fw_errno := record_error m sh err (fw_errno t)\<rparr>)"
      by (rule record_error_sticky)
    ultimately show ?thesis
      using Ret a by (simp add: set_last_error_def modify_def errno_sticky.trans)
  next
    case (Stop k t)
    then show ?thesis
      using preserves_StopD [OF sticky_error_field Stop] by (simp add: set_last_error_def)
  qed
qed

section \<open>Properties\<close>

text \<open>
  The mutual recursion of \<^verbatim>\<open>halt_and_catch_fire\<close> and \<^verbatim>\<open>chip_advertise_boot_status\<close> is
  well-founded: the functions satisfy the two equations the C code writes, each calling the other,
  and from any state halting never comes back to its caller.
\<close>

theorem halt_advertise_recursion:
  "chip_advertise_boot_status E b =
     bind (gets boot_status_offline) (\<lambda>off.
     if off then skip
     else
       bind (chip_unipro_attr_write E DME_ARA_INIT_STATUS b 0 False) (\<lambda>status.
       if status \<noteq> 0
       then bind (modify (\<lambda>s. s\<lparr>boot_status_offline := True\<rparr>)) (\<lambda>_. halt_and_catch_fire E b)
       else skip)) \<and>
   halt_and_catch_fire E b =
     bind (merge_errno_with_boot_status b) (\<lambda>b'.
     bind (chip_advertise_boot_status E (b' OR INIT_STATUS_FAILED)) (\<lambda>_.
     stop_with (Halted (b' OR INIT_STATUS_FAILED)))) \<and>
   (\<exists>k t. halt_and_catch_fire E b s = Stop k t)"
proof (intro conjI)
  show "\<exists>k t. halt_and_catch_fire E b s = Stop k t"
    unfolding halt_and_catch_fire_def by (rule halt_with_stops)
qed (rule advertise_unfold [unfolded advertise_with_def],
    simp add: halt_and_catch_fire_def halt_with_def Let_def)

text \<open>
  C7: An error once recorded in its reporting field is never overwritten: whatever
  \<^verbatim>\<open>set_last_error\<close> does (return, or halt because the boot status cannot be read), a field that
  held an error holds the same error afterwards, and when it returns the field of the current stage
  holds either its earlier error or the new one shifted into place.
\<close>

theorem first_error_stays:
  "errno_sticky s (outcome_state (set_last_error E err s)) \<and>
   (case set_last_error E err s of
      Ret _ t \<Rightarrow> \<exists>m sh. m \<in> {BRE_S1_PAIMARY_MASK, BRE_S1_FALLBACK_MASK, BRE_S2_FW_MASK} \<and>
        fw_errno t AND m = (if fw_errno s AND m = 0 then push_bit sh err AND m else fw_errno s AND m)
    | Stop _ _ \<Rightarrow> True)"
proof (intro conjI)
  show "errno_sticky s (outcome_state (set_last_error E err s))"
    by (rule preservesD [OF set_last_error_sticky])
  show "case set_last_error E err s of
      Ret _ t \<Rightarrow> \<exists>m sh. m \<in> {BRE_S1_PAIMARY_MASK, BRE_S1_FALLBACK_MASK, BRE_S2_FW_MASK} \<and>
        fw_errno t AND m = (if fw_errno s AND m = 0 then push_bit sh err AND m else fw_errno s AND m)
    | Stop _ _ \<Rightarrow> True"
  proof (cases "error_field E s")
    case (Ret a t)
    obtain m sh where a: "a = (m, sh)" by (cases a)
    have "m \<in> {BRE_S1_PAIMARY_MASK, BRE_S1_FALLBACK_MASK, BRE_S2_FW_MASK}"
      using wp_RetD [OF error_field_masks Ret] a by simp
    moreover have "fw_errno t = fw_errno s" using Ret a by (rule error_field_keeps)
    then have "fw_errno (t\<lparr>fw_errno := record_error m sh err (fw_errno t)\<rparr>) AND m =
        (if fw_errno s AND m = 0 then push_bit sh err AND m else fw_errno s AND m)"
      by (simp add: record_error_same)
    moreover have eq: "set_last_error E err s = Ret () (t\<lparr>fw_errno := record_error m sh err (fw_errno t)\<rparr>)"
      using Ret a by (simp add: set_last_error_def modify_def)
    ultimately show ?thesis
      unfolding eq outcome.case by blast
  qed (simp add: set_last_error_def)
qed

end
