(* ===== verification/Utils.thy ===== *)
theory Utils
  imports Prelude
begin

text \<open>
  The string and arithmetic helpers of \<^verbatim>\<open>common/src/utils.c\<close>. A pointer argument is the list of
  bytes it points to. The lemmas give each helper its specification: comparison is equality of the
  compared prefixes (up to the terminator for strings), a power of two is what \<^verbatim>\<open>is_power_of_2\<close>
  accepts, and for such block sizes alignment is divisibility and the next boundary is the least
  multiple at or above the address.
\<close>

section \<open>The code\<close>

primrec memcmp_at :: "bytes \<Rightarrow> bytes \<Rightarrow> nat \<Rightarrow> nat \<Rightarrow> int" where
  "memcmp_at s1 s2 i 0 = 0"
| "memcmp_at s1 s2 i (Suc n) =
     (if s1 ! i \<noteq> s2 ! i then uint (s1 ! i) - uint (s2 ! i) else memcmp_at s1 s2 (Suc i) n)"

definition memcmp :: "bytes \<Rightarrow> bytes \<Rightarrow> nat \<Rightarrow> int" where
  "memcmp s1 s2 n = memcmp_at s1 s2 0 n"

primrec strncmp_at :: "bytes \<Rightarrow> bytes \<Rightarrow> nat \<Rightarrow> nat \<Rightarrow> int" where
  "strncmp_at s1 s2 i 0 = 0"
| "strncmp_at s1 s2 i (Suc n) =
     (if s1 ! i \<noteq> s2 ! i then uint (s1 ! i) - uint (s2 ! i)
      else if s1 ! i = 0 then 0
      else strncmp_at s1 s2 (Suc i) n)"

definition strncmp :: "bytes \<Rightarrow> bytes \<Rightarrow> nat \<Rightarrow> int" where
  "strncmp s1 s2 n = strncmp_at s1 s2 0 n"

definition memcpy :: "bytes \<Rightarrow> bytes \<Rightarrow> nat \<Rightarrow> bytes" where
  "memcpy dest src n = for_loop 0 n (\<lambda>i d. d[i := src ! i]) dest"

definition memset :: "bytes \<Rightarrow> u8 \<Rightarrow> nat \<Rightarrow> bytes" where
  "memset s c n = for_loop 0 n (\<lambda>i d. d[i := c]) s"

definition is_power_of_2 :: "u32 \<Rightarrow> bool" where
  "is_power_of_2 x \<longleftrightarrow> x \<noteq> 0 \<and> x AND (x - 1) = 0"

definition block_aligned :: "u32 \<Rightarrow> u32 \<Rightarrow> bool" where
  "block_aligned address block_size \<longleftrightarrow> address AND (block_size - 1) = 0"

definition next_block_boundary :: "u32 \<Rightarrow> u32 \<Rightarrow> u32" where
  "next_block_boundary address block_size = (address + (block_size - 1)) AND NOT (block_size - 1)"

primrec is_constant_fill_at :: "bytes \<Rightarrow> nat \<Rightarrow> u8 \<Rightarrow> nat \<Rightarrow> bool" where
  "is_constant_fill_at buf i fill_byte 0 = True"
| "is_constant_fill_at buf i fill_byte (Suc len) =
     (if buf ! i \<noteq> fill_byte then False else is_constant_fill_at buf (Suc i) fill_byte len)"

definition is_constant_fill :: "bytes \<Rightarrow> nat \<Rightarrow> u8 \<Rightarrow> bool" where
  "is_constant_fill buf len fill_byte = is_constant_fill_at buf 0 fill_byte len"

section \<open>Comparison and filling\<close>

lemma memcmp_at_0: "memcmp_at s1 s2 i n = 0 \<longleftrightarrow> (\<forall>j. i \<le> j \<and> j < i + n \<longrightarrow> s1 ! j = s2 ! j)"
proof (induction n arbitrary: i)
  case 0
  then show ?case by auto
next
  case (Suc n)
  show ?case
  proof (cases "s1 ! i = s2 ! i")
    case True
    have "(\<forall>j. i \<le> j \<and> j < i + Suc n \<longrightarrow> s1 ! j = s2 ! j) \<longleftrightarrow>
        (\<forall>j. Suc i \<le> j \<and> j < Suc i + n \<longrightarrow> s1 ! j = s2 ! j)"
      using True by (metis Suc_leD add_Suc_right add_Suc le_antisym not_less_eq_eq)
    with True Suc.IH [of "Suc i"] show ?thesis by simp
  next
    case False
    then have "uint (s1 ! i) \<noteq> uint (s2 ! i)" by (simp add: word_uint_eq_iff)
    with False show ?thesis by (auto intro!: exI [of _ i])
  qed
qed

lemma memcmp_0_iff:
  "n \<le> length s1 \<Longrightarrow> n \<le> length s2 \<Longrightarrow> memcmp s1 s2 n = 0 \<longleftrightarrow> take n s1 = take n s2"
  by (auto simp: memcmp_def memcmp_at_0 list_eq_iff_nth_eq)

text \<open>The C string held in the first \<open>n\<close> bytes.\<close>

definition cstring :: "nat \<Rightarrow> bytes \<Rightarrow> bytes" where
  "cstring n s = takeWhile (\<lambda>c. c \<noteq> 0) (take n s)"

lemma strncmp_at_0:
  "i + n \<le> length s1 \<Longrightarrow> i + n \<le> length s2 \<Longrightarrow>
   strncmp_at s1 s2 i n = 0 \<longleftrightarrow> cstring n (drop i s1) = cstring n (drop i s2)"
proof (induction n arbitrary: i)
  case 0
  then show ?case by (simp add: cstring_def)
next
  case (Suc n)
  have d: "drop i s1 = s1 ! i # drop (Suc i) s1" "drop i s2 = s2 ! i # drop (Suc i) s2"
    using Suc.prems by (simp_all add: Cons_nth_drop_Suc)
  have "uint (s1 ! i) = uint (s2 ! i) \<longleftrightarrow> s1 ! i = s2 ! i" by (simp add: word_uint_eq_iff)
  moreover have "strncmp_at s1 s2 (Suc i) n = 0 \<longleftrightarrow> cstring n (drop (Suc i) s1) = cstring n (drop (Suc i) s2)"
    using Suc.prems by (intro Suc.IH) simp_all
  ultimately show ?case
    unfolding d by (auto simp: cstring_def)
qed

lemma strncmp_0_iff:
  "n \<le> length s1 \<Longrightarrow> n \<le> length s2 \<Longrightarrow> strncmp s1 s2 n = 0 \<longleftrightarrow> cstring n s1 = cstring n s2"
  using strncmp_at_0 [of 0 n s1 s2] by (simp add: strncmp_def)

lemma memcpy_spec:
  assumes "n \<le> length dest" "n \<le> length src"
  shows "memcpy dest src n = take n src @ drop n dest"
proof -
  have "length (memcpy dest src n) = length dest \<and>
      (\<forall>j < length dest. memcpy dest src n ! j = (if j < n then src ! j else dest ! j))"
    unfolding memcpy_def
    by (rule for_loop_inv [where P = "\<lambda>i d. length d = length dest \<and>
          (\<forall>j < length dest. d ! j = (if j < i then src ! j else dest ! j))"])
      (use assms in \<open>auto simp: nth_list_update less_Suc_eq\<close>)
  then show ?thesis
    using assms by (intro nth_equalityI) (auto simp: nth_append)
qed

lemma is_constant_fill_at_iff:
  "i + len \<le> length buf \<Longrightarrow>
   is_constant_fill_at buf i b len \<longleftrightarrow> take len (drop i buf) = replicate len b"
proof (induction len arbitrary: i)
  case 0
  then show ?case by simp
next
  case (Suc len)
  then have "drop i buf = buf ! i # drop (Suc i) buf" by (simp add: Cons_nth_drop_Suc)
  with Suc show ?case by auto
qed

lemma is_constant_fill_iff:
  "len \<le> length buf \<Longrightarrow> is_constant_fill buf len b \<longleftrightarrow> take len buf = replicate len b"
  using is_constant_fill_at_iff [of 0 len buf b] by (simp add: is_constant_fill_def)

section \<open>Powers of two\<close>

lemma power_bracket: "0 < n \<Longrightarrow> \<exists>h. 2 ^ h \<le> n \<and> n < 2 ^ Suc h" for n :: nat
proof (induction n rule: less_induct)
  case (less n)
  show ?case
  proof (cases "n = 1")
    case True
    then show ?thesis by (intro exI [of _ 0]) simp
  next
    case False
    with less.prems have "0 < n div 2" "n div 2 < n" by simp_all
    with less.IH obtain h where "2 ^ h \<le> n div 2" "n div 2 < 2 ^ Suc h" by blast
    then have "2 ^ Suc h \<le> n" "n < 2 ^ Suc (Suc h)" by auto
    then show ?thesis by blast
  qed
qed

lemma bit_top: "2 ^ h \<le> n \<Longrightarrow> n < 2 ^ Suc h \<Longrightarrow> bit n h" for n :: nat
proof -
  assume "2 ^ h \<le> n" "n < 2 ^ Suc h"
  then have "n div 2 ^ h = 1" by (simp add: div_nat_eqI)
  then show ?thesis by (simp add: bit_iff_odd)
qed

lemma unat_exp_word: "unat x = 2 ^ k \<Longrightarrow> x = (2 ^ k :: u32)"
proof -
  assume "unat x = 2 ^ k"
  then have "word_of_nat (unat x) = (word_of_nat (2 ^ k) :: u32)" by (simp only:)
  then show ?thesis by simp
qed

lemma is_power_of_2_unat: "is_power_of_2 x \<longleftrightarrow> (\<exists>k < 32. unat x = 2 ^ k)"
proof
  assume p: "is_power_of_2 x"
  then have pos: "0 < unat x" by (simp add: is_power_of_2_def unat_gt_0)
  then obtain h where h: "2 ^ h \<le> unat x" "unat x < 2 ^ Suc h" using power_bracket by blast
  have h32: "h < 32"
  proof (rule ccontr)
    assume "\<not> h < 32"
    then have "(2 :: nat) ^ 32 \<le> 2 ^ h" by (intro power_increasing) simp_all
    moreover have "unat x < 2 ^ 32" using unsigned_less [of x, where ?'a = nat] by simp
    ultimately show False using h(1) by linarith
  qed
  have "unat x = 2 ^ h"
  proof (rule ccontr)
    assume "unat x \<noteq> 2 ^ h"
    with h have "2 ^ h \<le> unat x - 1" "unat x - 1 < 2 ^ Suc h" by simp_all
    then have "bit (unat x - 1) h" by (rule bit_top)
    moreover have "unat (x - 1) = unat x - 1" using pos by (simp add: unat_minus_one unat_gt_0)
    ultimately have "bit (x - 1) h" using h32 by (metis bit_unsigned_iff)
    moreover have "bit x h" using bit_top [OF h] by (metis bit_unsigned_iff)
    ultimately have "bit (x AND (x - 1)) h" by (simp add: bit_and_iff)
    with p show False by (simp add: is_power_of_2_def)
  qed
  with h32 show "\<exists>k < 32. unat x = 2 ^ k" by blast
next
  assume "\<exists>k < 32. unat x = 2 ^ k"
  then obtain k where k: "k < 32" "unat x = 2 ^ k" by blast
  have x: "x = 2 ^ k" using k(2) by (rule unat_exp_word)
  have "x \<noteq> 0" using k by (metis power_not_zero unat_0 zero_neq_numeral)
  moreover have "x AND (x - 1) = 0"
    unfolding x mask_eq_exp_minus_1 [symmetric] by (rule bit_word_eqI) (auto simp: bit_simps)
  ultimately show "is_power_of_2 x" by (simp add: is_power_of_2_def)
qed

lemma power_of_2_word:
  assumes "is_power_of_2 b"
  obtains k where "k < 32" "unat b = 2 ^ k" "b - 1 = mask k"
proof -
  obtain k where k: "k < 32" "unat b = 2 ^ k" using assms by (auto simp: is_power_of_2_unat)
  have "b = 2 ^ k" using k(2) by (rule unat_exp_word)
  then have "b - 1 = mask k" by (simp add: mask_eq_exp_minus_1)
  with k show ?thesis by (rule that)
qed

lemma block_aligned_dvd:
  assumes "is_power_of_2 b"
  shows "block_aligned a b \<longleftrightarrow> unat b dvd unat a"
proof -
  obtain k where k: "unat b = 2 ^ k" "b - 1 = mask k" using assms by (rule power_of_2_word)
  have "block_aligned a b \<longleftrightarrow> take_bit k a = 0"
    by (simp add: block_aligned_def k(2) take_bit_eq_mask)
  also have "\<dots> \<longleftrightarrow> unat (take_bit k a) = 0" by (simp only: unat_eq_0)
  also have "unat (take_bit k a) = unat a mod 2 ^ k"
    by (metis take_bit_eq_mod unsigned_take_bit_eq)
  finally show ?thesis by (simp add: k(1) dvd_eq_mod_eq_0)
qed

lemma unat_and_not_mask:
  assumes "k < 32"
  shows "unat (x AND NOT (mask k) :: u32) = unat x div 2 ^ k * 2 ^ k"
proof -
  have "x AND NOT (mask k) = push_bit k (drop_bit k x)"
    by (rule bit_word_eqI) (auto simp: bit_simps)
  moreover have "unat x div 2 ^ k * 2 ^ k < 2 ^ 32"
    by (rule order_le_less_trans [OF div_times_less_eq_dividend])
      (use unsigned_less [of x, where ?'a = nat] in simp)
  moreover have "unat (push_bit k (drop_bit k x)) = take_bit 32 (push_bit k (unat (drop_bit k x)))"
    by (simp only: unsigned_push_bit_eq) simp
  ultimately show ?thesis
    by (simp only: push_bit_eq_mult unat_drop_bit_word take_bit_nat_eq_self_iff)
qed

section \<open>Properties\<close>

text \<open>
  For a power-of-two block size, \<^verbatim>\<open>block_aligned\<close> is divisibility by the block size, and
  \<^verbatim>\<open>next_block_boundary\<close> is the least multiple of the block size at or above the address whenever
  the rounding does not leave the 32-bit address space.
\<close>

theorem block_arithmetic:
  assumes "is_power_of_2 b" "unat a + unat b \<le> 2 ^ 32"
  shows "(block_aligned a b \<longleftrightarrow> unat b dvd unat a) \<and>
    unat b dvd unat (next_block_boundary a b) \<and> unat a \<le> unat (next_block_boundary a b) \<and>
    unat (next_block_boundary a b) < unat a + unat b"
proof -
  obtain k where k: "k < 32" "unat b = 2 ^ k" "b - 1 = mask k" using assms(1) by (rule power_of_2_word)
  have "unat (b - 1) = unat b - 1"
    using assms(1) by (simp add: is_power_of_2_def unat_minus_one)
  moreover have pos: "0 < unat b" using k by simp
  ultimately have sum: "unat (a + (b - 1)) = unat a + unat b - 1"
    using assms(2) by (simp add: unat_plus_if')
  define q where "q = (unat a + unat b - 1) div unat b * unat b"
  have n: "unat (next_block_boundary a b) = q"
    using unat_and_not_mask [OF k(1), of "a + (b - 1)"] unfolding q_def sum
    by (simp add: next_block_boundary_def k)
  have "q + (unat a + unat b - 1) mod unat b = unat a + unat b - 1"
    unfolding q_def by (rule div_mult_mod_eq)
  moreover have "(unat a + unat b - 1) mod unat b < unat b" using pos by simp
  ultimately have "unat a \<le> q" "q < unat a + unat b" using pos by linarith+
  moreover have "unat b dvd q" by (simp add: q_def)
  ultimately show ?thesis
    using block_aligned_dvd [OF assms(1)] by (simp add: n)
qed

theorem block_arithmetic_witness:
  "(block_aligned 0x1804 0x800 \<longleftrightarrow> unat (0x800 :: u32) dvd unat (0x1804 :: u32)) \<and>
    unat (0x800 :: u32) dvd unat (next_block_boundary 0x1804 0x800) \<and>
    unat (0x1804 :: u32) \<le> unat (next_block_boundary 0x1804 0x800) \<and>
    unat (next_block_boundary 0x1804 0x800) < unat (0x1804 :: u32) + unat (0x800 :: u32)"
  by (rule block_arithmetic) (simp_all add: is_power_of_2_def)

end
