(* ===== verification/Chip.thy ===== *)
theory Chip
  imports Machine Utils
begin

text \<open>
  The chip services of the bridge: the security registers (\<^verbatim>\<open>tsb_isaa.c\<close>), the system controller
  (\<^verbatim>\<open>tsb_scm.c\<close>), GPIO, the load-location check and start-up (\<^verbatim>\<open>tsb_chipapi.c\<close>), the two
  assembly helpers the C code relies on (\<^verbatim>\<open>tsb_utils.S\<close>, \<^verbatim>\<open>boot.S\<close>), and the configuration data
  of the second stage (\<^verbatim>\<open>cfgdata.c\<close>) that overrides some of the fused values.
\<close>

section \<open>Configuration data of the second stage\<close>

text \<open>
  The packed structure \<^verbatim>\<open>secondstage_cfgdata\<close> at the start of the 1024-byte configuration buffer,
  by byte offset.
\<close>

definition secondstage_cfg_sentinel :: bytes where
  "secondstage_cfg_sentinel =
     [0x32, 0x6e, 0x64, 0x53, 0x74, 0x61, 0x67, 0x65, 0x46, 0x57, 0x43, 0x6f, 0x6e, 0x66, 0x69, 0x67]"

definition cfg_sentinel_ok :: "env \<Rightarrow> bool" where
  "cfg_sentinel_ok E \<longleftrightarrow> memcmp (cfgdata_bytes E) secondstage_cfg_sentinel 16 = 0"

text \<open>\<^verbatim>\<open>get_2ndstage_cfgdata\<close> with its two static variables.\<close>

record cfg_cache =
  cfg_initialized :: bool
  cfg_valid :: int

definition get_2ndstage_cfgdata :: "env \<Rightarrow> cfg_cache \<Rightarrow> int \<times> cfg_cache" where
  "get_2ndstage_cfgdata E c =
     (if cfg_initialized c then (cfg_valid c, c)
      else
        (let c1 = (if cfg_sentinel_ok E then c\<lparr>cfg_valid := 0\<rparr> else c);
             c2 = c1\<lparr>cfg_initialized := True\<rparr>
         in (cfg_valid c2, c2)))"

definition cfg_disable_jtag :: "env \<Rightarrow> u32" where
  "cfg_disable_jtag E = get_u32 (cfgdata_bytes E) 16"

definition cfg_use_fake_ara_vidpid :: "env \<Rightarrow> u32" where
  "cfg_use_fake_ara_vidpid E = get_u32 (cfgdata_bytes E) 20"

definition cfg_fake_ara_vid :: "env \<Rightarrow> u32" where
  "cfg_fake_ara_vid E = get_u32 (cfgdata_bytes E) 24"

definition cfg_fake_ara_pid :: "env \<Rightarrow> u32" where
  "cfg_fake_ara_pid E = get_u32 (cfgdata_bytes E) 28"

definition cfg_use_fake_ims :: "env \<Rightarrow> u8" where
  "cfg_use_fake_ims E = cfgdata_bytes E ! 32"

definition cfg_fake_ims :: "env \<Rightarrow> bytes" where
  "cfg_fake_ims E = slice 33 35 (cfgdata_bytes E)"

definition cfg_number_of_public_keys :: "env \<Rightarrow> u32" where
  "cfg_number_of_public_keys E = get_u32 (cfgdata_bytes E) 68"

text \<open>Row \<open>k\<close> of the key table behind the structure; \<open>None\<close> is a row beyond the buffer.\<close>

definition cfg_public_key :: "env \<Rightarrow> nat \<Rightarrow> crypto_public_key option" where
  "cfg_public_key E k =
     (let off = 72 + 356 * k; b = cfgdata_bytes E
      in if off + 356 > length b then None
         else Some \<lparr>key_type = get_u32 b off, key_name = slice (off + 4) 96 b,
                    key_bytes = slice (off + 100) 256 b\<rparr>)"

text \<open>
  The stages differ in whether the configuration data exist at all; where they do, the answer of
  \<^verbatim>\<open>get_2ndstage_cfgdata\<close> is this test (see \<open>cfg_cache_transparent\<close>).
\<close>

definition cfgdata_valid :: "env \<Rightarrow> bool" where
  "cfgdata_valid E \<longleftrightarrow> boot_stage E = 2 \<and> cfg_sentinel_ok E"

section \<open>System controller\<close>

definition SYSCTL_BASE :: u32 where "SYSCTL_BASE = 0x40000000"
definition ISAA_BASE :: u32 where "ISAA_BASE = 0x40084000"
definition GPIO_BASE :: u32 where "GPIO_BASE = 0x40003000"

abbreviation (input) "TSB_SCM_SOFTRESET0 \<equiv> 0x000 :: u32"
abbreviation (input) "TSB_SCM_SOFTRESETRELEASE0 \<equiv> 0x100 :: u32"
abbreviation (input) "TSB_SCM_CLOCKGATING0 \<equiv> 0x200 :: u32"
abbreviation (input) "TSB_SCM_CLOCKENABLE0 \<equiv> 0x300 :: u32"
abbreviation (input) "TSB_SCM_BOOTSELECTOR \<equiv> 0x400 :: u32"
abbreviation (input) "TSB_SCM_ECCERROR \<equiv> 0x4c4 :: u32"
abbreviation (input) "TSB_SCM_VID \<equiv> 0x700 :: u32"
abbreviation (input) "TSB_SCM_PID \<equiv> 0x704 :: u32"
abbreviation (input) "TSB_SCM_PINSHARE \<equiv> 0x800 :: u32"
abbreviation (input) "TSB_CLK_SPIP \<equiv> 23 :: u32"
abbreviation (input) "TSB_CLK_SPIS \<equiv> 24 :: u32"
abbreviation (input) "TSB_CLK_GPIO \<equiv> 25 :: u32"
abbreviation (input) "TSB_RST_GPIO \<equiv> 22 :: u32"

definition CLK_OFFSET :: "u32 \<Rightarrow> u32" where
  "CLK_OFFSET clk = drop_bit 22 clk AND 0xfc"

definition CLK_MASK :: "u32 \<Rightarrow> u32" where
  "CLK_MASK clk = push_bit (unat (clk AND 0x1f)) 1"

text \<open>The peripherals gated at start-up: bits 9, 10 and 12 to 25.\<close>

definition INIT_PERIPHERAL_CLOCK_BITS :: u32 where
  "INIT_PERIPHERAL_CLOCK_BITS = foldl (OR) 0 (map CLK_MASK
     [9, 10, 12, 13, 14, 15, 16, 17, 18, 19, 20, 21, 22, 23, 24, 25])"

definition scm_read :: "env \<Rightarrow> u32 \<Rightarrow> ('a machine_scheme, u32) prog" where
  "scm_read E offset = getreg32 E (SYSCTL_BASE + offset)"

definition scm_write :: "u32 \<Rightarrow> u32 \<Rightarrow> ('a machine_scheme, unit) prog" where
  "scm_write offset v = putreg32 v (SYSCTL_BASE + offset)"

definition tsb_clk_init :: "('a machine_scheme, unit) prog" where
  "tsb_clk_init = scm_write TSB_SCM_CLOCKGATING0 INIT_PERIPHERAL_CLOCK_BITS"

definition tsb_clk_enable :: "u32 \<Rightarrow> ('a machine_scheme, unit) prog" where
  "tsb_clk_enable clk = scm_write (TSB_SCM_CLOCKENABLE0 + CLK_OFFSET clk) (CLK_MASK clk)"

definition tsb_clk_disable :: "u32 \<Rightarrow> ('a machine_scheme, unit) prog" where
  "tsb_clk_disable clk = scm_write (TSB_SCM_CLOCKGATING0 + CLK_OFFSET clk) (CLK_MASK clk)"

definition tsb_reset :: "u32 \<Rightarrow> ('a machine_scheme, unit) prog" where
  "tsb_reset rst =
     bind (scm_write (TSB_SCM_SOFTRESET0 + CLK_OFFSET rst) (CLK_MASK rst)) (\<lambda>_.
     scm_write (TSB_SCM_SOFTRESETRELEASE0 + CLK_OFFSET rst) (CLK_MASK rst))"

definition tsb_set_pinshare :: "env \<Rightarrow> u32 \<Rightarrow> ('a machine_scheme, unit) prog" where
  "tsb_set_pinshare E bits =
     bind (scm_read E TSB_SCM_PINSHARE) (\<lambda>r. scm_write TSB_SCM_PINSHARE (r OR bits))"

definition tsb_clr_pinshare :: "env \<Rightarrow> u32 \<Rightarrow> ('a machine_scheme, unit) prog" where
  "tsb_clr_pinshare E bits =
     bind (scm_read E TSB_SCM_PINSHARE) (\<lambda>r. scm_write TSB_SCM_PINSHARE (r AND NOT bits))"

definition tsb_get_bootselector :: "env \<Rightarrow> ('a machine_scheme, u32) prog" where
  "tsb_get_bootselector E = scm_read E TSB_SCM_BOOTSELECTOR"

definition tsb_get_eccerror :: "env \<Rightarrow> ('a machine_scheme, u32) prog" where
  "tsb_get_eccerror E = scm_read E TSB_SCM_ECCERROR"

definition tsb_get_ara_vid :: "env \<Rightarrow> ('a machine_scheme, u32) prog" where
  "tsb_get_ara_vid E =
     (if cfgdata_valid E then return (cfg_fake_ara_vid E) else scm_read E TSB_SCM_VID)"

definition tsb_get_ara_pid :: "env \<Rightarrow> ('a machine_scheme, u32) prog" where
  "tsb_get_ara_pid E =
     (if cfgdata_valid E \<and> cfg_use_fake_ara_vidpid E \<noteq> 0 then return (cfg_fake_ara_pid E)
      else scm_read E TSB_SCM_PID)"

section \<open>GPIO\<close>

definition chip_gpio_init :: "('a machine_scheme, unit) prog" where
  "chip_gpio_init = bind (tsb_clk_enable TSB_CLK_GPIO) (\<lambda>_. tsb_reset TSB_RST_GPIO)"

definition chip_gpio_get_value :: "env \<Rightarrow> nat \<Rightarrow> ('a machine_scheme, u8) prog" where
  "chip_gpio_get_value E which =
     bind (getreg32 E GPIO_BASE) (\<lambda>v. return (if v AND push_bit which 1 \<noteq> 0 then 1 else 0))"

definition chip_gpio_set_value :: "nat \<Rightarrow> u8 \<Rightarrow> ('a machine_scheme, unit) prog" where
  "chip_gpio_set_value which v =
     putreg32 (push_bit which 1) (if v \<noteq> 0 then GPIO_BASE + 8 else GPIO_BASE + 0xc)"

definition chip_gpio_direction_in :: "nat \<Rightarrow> ('a machine_scheme, unit) prog" where
  "chip_gpio_direction_in which = putreg32 (push_bit which 1) (GPIO_BASE + 0x18)"

definition chip_gpio_direction_out :: "nat \<Rightarrow> u8 \<Rightarrow> ('a machine_scheme, unit) prog" where
  "chip_gpio_direction_out which v =
     bind (chip_gpio_set_value which v) (\<lambda>_. putreg32 (push_bit which 1) (GPIO_BASE + 0x14))"

section \<open>Security registers\<close>

abbreviation (input) "TSB_ISAA_IMS0 \<equiv> 0x100 :: u32"
abbreviation (input) "TSB_ISAA_CMS0 \<equiv> 0x200 :: u32"
abbreviation (input) "TSB_ISAA_SN0 \<equiv> 0x300 :: u32"
abbreviation (input) "TSB_ISAA_SCR \<equiv> 0x308 :: u32"
abbreviation (input) "TSB_ISAA_DISABLE_IMS_ACCESS \<equiv> 0x400 :: u32"
abbreviation (input) "TSB_ISAA_DISABLE_CMS_ACCESS \<equiv> 0x404 :: u32"
abbreviation (input) "TSB_ISAA_JTAG_DISABLE \<equiv> 0x40c :: u32"
abbreviation (input) "TSB_ISAA_TRUSTED_ONLY \<equiv> 0x10 :: u32"
abbreviation (input) "TSB_ISAA_ROM_KEY_VALIDITY \<equiv> 0x0f :: u32"
abbreviation (input) "TSB_ISAA_NUM_IMS_BYTES \<equiv> 35 :: nat"
abbreviation (input) "TSB_ISAA_NUM_CMS_BYTES \<equiv> 24 :: nat"

definition isaa_read :: "env \<Rightarrow> u32 \<Rightarrow> ('a machine_scheme, u32) prog" where
  "isaa_read E offset = getreg32 E (ISAA_BASE + offset)"

definition isaa_write :: "u32 \<Rightarrow> u32 \<Rightarrow> ('a machine_scheme, unit) prog" where
  "isaa_write offset v = putreg32 v (ISAA_BASE + offset)"

text \<open>
  \<^verbatim>\<open>isaa_read_n\<close> fills a buffer: whole registers while more than four bytes are missing, then the
  low bytes of one more register. The result is the list of bytes written.
\<close>

fun isaa_read_n :: "env \<Rightarrow> u32 \<Rightarrow> nat \<Rightarrow> ('a machine_scheme, bytes) prog" where
  "isaa_read_n E offset sz =
     (if sz > 4 then
        bind (isaa_read E offset) (\<lambda>v.
        bind (isaa_read_n E (offset + 4) (sz - 4)) (\<lambda>rest. return (u32_bytes v @ rest)))
      else if sz > 0 then
        bind (isaa_read E offset) (\<lambda>v. return (take sz (u32_bytes v)))
      else return [])"

declare isaa_read_n.simps [simp del]

definition tsb_get_serial_no :: "env \<Rightarrow> ('a machine_scheme, bytes) prog" where
  "tsb_get_serial_no E = isaa_read_n E TSB_ISAA_SN0 8"

text \<open>
  \<^verbatim>\<open>tsb_get_ims(buf, size)\<close> returns the new contents of \<^verbatim>\<open>buf\<close>; with valid configuration data that
  do not ask for a fake secret the buffer is left as it was.
\<close>

definition tsb_get_ims :: "env \<Rightarrow> bytes \<Rightarrow> nat \<Rightarrow> ('a machine_scheme, bytes) prog" where
  "tsb_get_ims E buf sz =
     (if cfgdata_valid E then
        (let sz = (if sz > 35 then 35 else sz)
         in return (if cfg_use_fake_ims E \<noteq> 0 then put_bytes buf 0 (take sz (cfg_fake_ims E)) else buf))
      else
        (let sz = (if sz > TSB_ISAA_NUM_IMS_BYTES then TSB_ISAA_NUM_IMS_BYTES else sz)
         in bind (isaa_read_n E TSB_ISAA_IMS0 sz) (\<lambda>bs. return (put_bytes buf 0 bs))))"

definition tsb_get_cms :: "env \<Rightarrow> nat \<Rightarrow> ('a machine_scheme, bytes) prog" where
  "tsb_get_cms E sz =
     (let sz = (if sz > TSB_ISAA_NUM_CMS_BYTES then TSB_ISAA_NUM_CMS_BYTES else sz)
      in isaa_read_n E TSB_ISAA_CMS0 sz)"

definition tsb_disable_ims_access :: "('a machine_scheme, unit) prog" where
  "tsb_disable_ims_access = isaa_write TSB_ISAA_DISABLE_IMS_ACCESS 1"

definition tsb_disable_cms_access :: "('a machine_scheme, unit) prog" where
  "tsb_disable_cms_access = isaa_write TSB_ISAA_DISABLE_CMS_ACCESS 1"

definition tsb_enable_ims_access :: "('a machine_scheme, unit) prog" where
  "tsb_enable_ims_access = isaa_write TSB_ISAA_DISABLE_IMS_ACCESS 0"

definition tsb_enable_cms_access :: "('a machine_scheme, unit) prog" where
  "tsb_enable_cms_access = isaa_write TSB_ISAA_DISABLE_CMS_ACCESS 0"

definition tsb_jtag_disable :: "('a machine_scheme, unit) prog" where
  "tsb_jtag_disable = isaa_write TSB_ISAA_JTAG_DISABLE 1"

definition chip_is_key_revoked :: "env \<Rightarrow> nat \<Rightarrow> ('a machine_scheme, bool) prog" where
  "chip_is_key_revoked E index =
     (let b = push_bit index (1 :: u32)
      in if b AND TSB_ISAA_ROM_KEY_VALIDITY = 0 then return True
         else bind (isaa_read E TSB_ISAA_SCR) (\<lambda>scr. return (scr AND b \<noteq> 0)))"

definition chip_is_untrusted_image_allowed :: "env \<Rightarrow> ('a machine_scheme, bool) prog" where
  "chip_is_untrusted_image_allowed E =
     bind (isaa_read E TSB_ISAA_SCR) (\<lambda>scr. return (scr AND TSB_ISAA_TRUSTED_ONLY = 0))"

section \<open>Loading area and start-up\<close>

definition load_limit :: "env \<Rightarrow> u32" where
  "load_limit E = (if boot_stage E = 1 then bootrom_data_area E else bootrom_text_area E)"

definition chip_validate_data_load_location :: "env \<Rightarrow> u32 \<Rightarrow> u32 \<Rightarrow> int" where
  "chip_validate_data_load_location E base len =
     (if base < workram_start E then -1
      else if base + len \<ge> load_limit E then -1
      else 0)"

text \<open>
  \<^verbatim>\<open>chip_clear_image_loading_ram\<close> stores zero words from \<^verbatim>\<open>_workram_start\<close> up to the limit, both
  word-aligned by the linker script.
\<close>

definition chip_clear_image_loading_ram :: "env \<Rightarrow> ('a machine_scheme, unit) prog" where
  "chip_clear_image_loading_ram E =
     modify (\<lambda>s. s\<lparr>ram := (\<lambda>a. if workram_start E \<le> a \<and> a < load_limit E then 0 else ram s a)\<rparr>)"

text \<open>
  \<^verbatim>\<open>chip_jump_to_image\<close> clears the boot code's data area up to the communication area and the
  buffer RAM (which holds the stack), sets the Thumb bit of the entry address and branches.
\<close>

definition chip_jump_to_image :: "env \<Rightarrow> u32 \<Rightarrow> ('a machine_scheme, unit) prog" where
  "chip_jump_to_image E start_address =
     bind (modify (\<lambda>s. s\<lparr>ram := (\<lambda>a.
       if bootrom_data_area E \<le> a \<and> a < communication_area E \<or> bufram_start E \<le> a \<and> a < bufram_end E
       then 0 else ram s a)\<rparr>)) (\<lambda>_.
     stop_with (Jumped (start_address OR 1)))"

text \<open>\<^verbatim>\<open>chip_init\<close> of the boot ROM build: no GPIO, no handshake, no bridged SPI.\<close>

definition chip_init :: "('a machine_scheme, unit) prog" where
  "chip_init = tsb_clk_init"

section \<open>Lemmas\<close>

lemma scm_only_io: "preserves only_io (scm_read E a)" "preserves only_io (scm_write a v)"
  by (simp_all add: scm_read_def scm_write_def getreg32_only_io putreg32_only_io)

lemma isaa_only_io: "preserves only_io (isaa_read E a)" "preserves only_io (isaa_write a v)"
  by (simp_all add: isaa_read_def isaa_write_def getreg32_only_io putreg32_only_io)

lemma isaa_read_n_only_io: "preserves only_io (isaa_read_n E offset sz)"
proof (induction E offset sz rule: isaa_read_n.induct)
  case (1 E offset sz)
  then show ?case
    by (subst isaa_read_n.simps) (auto intro!: io_intros isaa_only_io)
qed

lemma chip_only_io:
  "preserves only_io (tsb_clk_enable c)" "preserves only_io (tsb_clk_disable c)"
  "preserves only_io tsb_clk_init" "preserves only_io (tsb_get_bootselector E)"
  "preserves only_io (tsb_get_eccerror E)" "preserves only_io (tsb_get_ara_vid E)"
  "preserves only_io (tsb_get_ara_pid E)" "preserves only_io (tsb_get_ims E buf n)"
  "preserves only_io tsb_disable_ims_access" "preserves only_io tsb_disable_cms_access"
  "preserves only_io (chip_is_key_revoked E k)" "preserves only_io (chip_is_untrusted_image_allowed E)"
  "preserves only_io chip_init" "preserves only_io tsb_jtag_disable" "preserves only_io (tsb_get_cms E n)"
  "preserves only_io tsb_enable_ims_access" "preserves only_io tsb_enable_cms_access"
  unfolding tsb_clk_enable_def tsb_clk_disable_def tsb_clk_init_def tsb_get_bootselector_def
    tsb_get_eccerror_def tsb_get_ara_vid_def tsb_get_ara_pid_def tsb_get_ims_def tsb_disable_ims_access_def
    tsb_disable_cms_access_def chip_is_key_revoked_def chip_is_untrusted_image_allowed_def chip_init_def
    tsb_jtag_disable_def tsb_get_cms_def tsb_enable_ims_access_def tsb_enable_cms_access_def
  by (intro io_intros scm_only_io isaa_only_io isaa_read_n_only_io)+

lemma isaa_read_n_length: "isaa_read_n E offset sz s = Ret bs t \<Longrightarrow> length bs = sz"
proof (induction E offset sz arbitrary: s bs t rule: isaa_read_n.induct)
  case (1 E offset sz)
  show ?case
  proof (cases "sz > 4")
    case True
    from 1(2) True obtain v s' rest where "isaa_read_n E (offset + 4) (sz - 4) s' = Ret rest t"
      "bs = u32_bytes v @ rest"
      by (subst (asm) isaa_read_n.simps) (auto elim!: bind_eq_RetE simp: return_def)
    with 1(1) [OF True] True show ?thesis by simp
  next
    case False
    with 1(2) show ?thesis
      by (subst (asm) isaa_read_n.simps)
        (auto elim!: bind_eq_RetE simp: return_def split: if_splits)
  qed
qed

text \<open>The static cache of \<^verbatim>\<open>get_2ndstage_cfgdata\<close> starts uninitialised with \<^verbatim>\<open>valid = -1\<close>.\<close>

definition cfg_cache_ok :: "env \<Rightarrow> cfg_cache \<Rightarrow> bool" where
  "cfg_cache_ok E c \<longleftrightarrow>
     cfg_valid c = (if cfg_initialized c \<and> cfg_sentinel_ok E then 0 else -1)"

lemma cfg_cache_start: "cfg_cache_ok E \<lparr>cfg_initialized = False, cfg_valid = -1\<rparr>"
  by (simp add: cfg_cache_ok_def)

section \<open>Properties\<close>

text \<open>
  The cache of \<^verbatim>\<open>get_2ndstage_cfgdata\<close> is transparent: from the initial values of its static
  variables on, every call answers 0 exactly when the sentinel of the configuration area is right,
  and leaves the cache in a state for which that stays true.
\<close>

theorem cfg_cache_transparent:
  assumes "cfg_cache_ok E c"
  shows "fst (get_2ndstage_cfgdata E c) = (if cfg_sentinel_ok E then 0 else -1) \<and>
    cfg_cache_ok E (snd (get_2ndstage_cfgdata E c))"
  using assms by (auto simp: cfg_cache_ok_def get_2ndstage_cfgdata_def Let_def)

theorem cfg_cache_transparent_witness:
  "fst (get_2ndstage_cfgdata (es3_env (\<lambda>_ _. 0)\<lparr>cfgdata_bytes := secondstage_cfg_sentinel\<rparr>)
        \<lparr>cfg_initialized = False, cfg_valid = -1\<rparr>) = 0"
  using cfg_cache_transparent [OF cfg_cache_start, of
      "es3_env (\<lambda>_ _. 0)\<lparr>cfgdata_bytes := secondstage_cfg_sentinel\<rparr>"]
  by (simp add: cfg_sentinel_ok_def memcmp_0_iff secondstage_cfg_sentinel_def)



text \<open>
  The check adds the length in 32 bits, so a length that wraps around passes for a base far
  outside the loading area: every base at or above \<^verbatim>\<open>_workram_start\<close>, the stack in BufRAM included,
  is accepted with some length.
\<close>

theorem load_location_wraps:
  assumes "workram_start E \<le> base" "0 < load_limit E"
  shows "chip_validate_data_load_location E base (- base) = 0"
  using assms by (simp add: chip_validate_data_load_location_def word_gt_0 not_le)

theorem load_location_wraps_witness:
  "chip_validate_data_load_location (es3_env (\<lambda>_ _. 0)) 0x20020000 (- 0x20020000) = 0"
  using load_location_wraps [of "es3_env (\<lambda>_ _. 0)" "0x20020000"]
  by (simp add: load_limit_def es3_env_def)

end
