(* ===== verification/Sha256.thy ===== *)
theory Sha256
  imports Prelude
begin

text \<open>
  The SHA-256 routines of \<^verbatim>\<open>common/vendors/MIRACL/bootrom.c\<close> that the boot ROM hashes images
  with: a context that is fed one byte at a time. The reference is the standard's own shape: pad
  the message, cut it into blocks, expand each block to 64 words and compress. The theory shows
  that the streaming context computes that reference for every message, including the wrap-around
  of its 32-bit length counters, and that the padding loop of \<^verbatim>\<open>shs256_hash\<close> always ends.
\<close>

section \<open>The code\<close>

record sha256 =
  sh_len0 :: u32
  sh_len1 :: u32
  sh_h :: "u32 list"
  sh_w :: "u32 list"

definition H_init :: "u32 list" where
  "H_init = [0x6A09E667, 0xBB67AE85, 0x3C6EF372, 0xA54FF53A,
             0x510E527F, 0x9B05688C, 0x1F83D9AB, 0x5BE0CD19]"

definition K_sha :: "u32 list" where
  "K_sha = concat [
   [0x428a2f98, 0x71374491, 0xb5c0fbcf, 0xe9b5dba5, 0x3956c25b, 0x59f111f1, 0x923f82a4, 0xab1c5ed5],
   [0xd807aa98, 0x12835b01, 0x243185be, 0x550c7dc3, 0x72be5d74, 0x80deb1fe, 0x9bdc06a7, 0xc19bf174],
   [0xe49b69c1, 0xefbe4786, 0x0fc19dc6, 0x240ca1cc, 0x2de92c6f, 0x4a7484aa, 0x5cb0a9dc, 0x76f988da],
   [0x983e5152, 0xa831c66d, 0xb00327c8, 0xbf597fc7, 0xc6e00bf3, 0xd5a79147, 0x06ca6351, 0x14292967],
   [0x27b70a85, 0x2e1b2138, 0x4d2c6dfc, 0x53380d13, 0x650a7354, 0x766a0abb, 0x81c2c92e, 0x92722c85],
   [0xa2bfe8a1, 0xa81a664b, 0xc24b8b70, 0xc76c51a3, 0xd192e819, 0xd6990624, 0xf40e3585, 0x106aa070],
   [0x19a4c116, 0x1e376c08, 0x2748774c, 0x34b0bcb5, 0x391c0cb3, 0x4ed8aa4a, 0x5b9cca4f, 0x682e6ff3],
   [0x748f82ee, 0x78a5636f, 0x84c87814, 0x8cc70208, 0x90befffa, 0xa4506ceb, 0xbef9a3f7, 0xc67178f2]]"

definition S_rot :: "nat \<Rightarrow> u32 \<Rightarrow> u32" where
  "S_rot n x = drop_bit n x OR push_bit (32 - n) x"

definition R_shift :: "nat \<Rightarrow> u32 \<Rightarrow> u32" where
  "R_shift n x = drop_bit n x"

definition Ch :: "u32 \<Rightarrow> u32 \<Rightarrow> u32 \<Rightarrow> u32" where
  "Ch x y z = (x AND y) XOR (NOT x AND z)"

definition Maj :: "u32 \<Rightarrow> u32 \<Rightarrow> u32 \<Rightarrow> u32" where
  "Maj x y z = (x AND y) XOR (x AND z) XOR (y AND z)"

definition Sig0 :: "u32 \<Rightarrow> u32" where
  "Sig0 x = S_rot 2 x XOR S_rot 13 x XOR S_rot 22 x"

definition Sig1 :: "u32 \<Rightarrow> u32" where
  "Sig1 x = S_rot 6 x XOR S_rot 11 x XOR S_rot 25 x"

definition theta0 :: "u32 \<Rightarrow> u32" where
  "theta0 x = S_rot 7 x XOR S_rot 18 x XOR R_shift 3 x"

definition theta1 :: "u32 \<Rightarrow> u32" where
  "theta1 x = S_rot 17 x XOR S_rot 19 x XOR R_shift 10 x"

type_synonym working = "u32 \<times> u32 \<times> u32 \<times> u32 \<times> u32 \<times> u32 \<times> u32 \<times> u32"

text \<open>One pass of the 64-fold loop of \<^verbatim>\<open>shs_transform\<close>, with the loop's \<^verbatim>\<open>K[j]\<close> and \<^verbatim>\<open>w[j]\<close>.\<close>

fun sha_round :: "u32 \<Rightarrow> u32 \<Rightarrow> working \<Rightarrow> working" where
  "sha_round k wj (a, b, c, d, e, f, g, h) =
     (let t1 = h + Sig1 e + Ch e f g + k + wj;
          t2 = Sig0 a + Maj a b c
      in (t1 + t2, a, b, c, d + t1, e, f, g))"

definition shs_expand :: "u32 list \<Rightarrow> u32 list" where
  "shs_expand ws =
     for_loop 16 64
       (\<lambda>j w. w[j := theta1 (w ! (j - 2)) + w ! (j - 7) + theta0 (w ! (j - 15)) + w ! (j - 16)]) ws"

definition shs_transform :: "sha256 \<Rightarrow> sha256" where
  "shs_transform sh =
     (let w = shs_expand (sh_w sh);
          hs = sh_h sh;
          (a, b, c, d, e, f, g, h) =
            for_loop 0 64 (\<lambda>j. sha_round (K_sha ! j) (w ! j))
              (hs ! 0, hs ! 1, hs ! 2, hs ! 3, hs ! 4, hs ! 5, hs ! 6, hs ! 7)
      in sh\<lparr>sh_w := w,
            sh_h := [hs ! 0 + a, hs ! 1 + b, hs ! 2 + c, hs ! 3 + d,
                     hs ! 4 + e, hs ! 5 + f, hs ! 6 + g, hs ! 7 + h]\<rparr>)"

definition shs256_init :: "sha256 \<Rightarrow> sha256" where
  "shs256_init sh =
     sh\<lparr>sh_w := for_loop 0 64 (\<lambda>i w. w[i := 0]) (sh_w sh),
        sh_len0 := 0, sh_len1 := 0, sh_h := H_init\<rparr>"

definition shs256_process :: "sha256 \<Rightarrow> u8 \<Rightarrow> sha256" where
  "shs256_process sh byte =
     (let cnt = unat (sh_len0 sh div 32 mod 16);
          w = (sh_w sh)[cnt := push_bit 8 (sh_w sh ! cnt) OR ucast byte];
          len0 = sh_len0 sh + 8;
          len1 = (if len0 = 0 then sh_len1 sh + 1 else sh_len1 sh);
          sh' = sh\<lparr>sh_w := w, sh_len0 := len0, sh_len1 := len1\<rparr>
      in if len0 mod 512 = 0 then shs_transform sh' else sh')"

text \<open>
  \<^verbatim>\<open>shs256_hash\<close>: pad with zeros until 64 bits are left in the block. The loop would not end for
  a length that is not a multiple of 8; \<open>None\<close> is that case.
\<close>

definition pad_zeros :: "sha256 \<Rightarrow> sha256 option" where
  "pad_zeros sh = while_option (\<lambda>sh. sh_len0 sh mod 512 \<noteq> 448) (\<lambda>sh. shs256_process sh 0) sh"

definition digest_bytes :: "u32 list \<Rightarrow> bytes" where
  "digest_bytes hs =
     map (\<lambda>i. ucast (drop_bit (8 * (3 - i mod 4)) (hs ! (i div 4)) AND 0xff)) [0..<32]"

definition shs256_hash :: "sha256 \<Rightarrow> (bytes \<times> sha256) option" where
  "shs256_hash sh =
     (let len0 = sh_len0 sh; len1 = sh_len1 sh
      in case pad_zeros (shs256_process sh 0x80) of
           None \<Rightarrow> None
         | Some sh1 \<Rightarrow>
             (let sh2 = shs_transform (sh1\<lparr>sh_w := (sh_w sh1)[14 := len1, 15 := len0]\<rparr>)
              in Some (digest_bytes (sh_h sh2), shs256_init sh2)))"

section \<open>The reference\<close>

definition add_byte :: "u32 \<Rightarrow> u8 \<Rightarrow> u32" where
  "add_byte acc b = push_bit 8 acc OR ucast b"

fun words_be :: "bytes \<Rightarrow> u32 list" where
  "words_be (b0 # b1 # b2 # b3 # bs) = foldl add_byte 0 [b0, b1, b2, b3] # words_be bs"
| "words_be _ = []"

definition schedule_word :: "u32 list \<Rightarrow> nat \<Rightarrow> u32" where
  "schedule_word ws t = theta1 (ws ! (t - 2)) + ws ! (t - 7) + theta0 (ws ! (t - 15)) + ws ! (t - 16)"

definition schedule :: "u32 list \<Rightarrow> u32 list" where
  "schedule block = foldl (\<lambda>ws t. ws @ [schedule_word ws t]) block [16..<64]"

definition compress :: "u32 list \<Rightarrow> u32 list \<Rightarrow> u32 list" where
  "compress hs block =
     (case foldl (\<lambda>v (k, wj). sha_round k wj v)
        (hs ! 0, hs ! 1, hs ! 2, hs ! 3, hs ! 4, hs ! 5, hs ! 6, hs ! 7)
        (zip K_sha (schedule block)) of
        (a, b, c, d, e, f, g, h) \<Rightarrow>
          map2 (+) hs [a, b, c, d, e, f, g, h])"

function hash_blocks :: "u32 list \<Rightarrow> bytes \<Rightarrow> u32 list" where
  "hash_blocks hs bs =
     (if length bs < 64 then hs
      else hash_blocks (compress hs (words_be (take 64 bs))) (drop 64 bs))"
  by pat_completeness auto
termination
  by (relation "measure (\<lambda>(hs, bs). length bs)") auto

declare hash_blocks.simps [simp del]

definition bytes_be :: "nat \<Rightarrow> nat \<Rightarrow> bytes" where
  "bytes_be n v = map (\<lambda>i. word_of_nat (v div 256 ^ (n - 1 - i))) [0..<n]"

definition zeros_needed :: "nat \<Rightarrow> nat" where
  "zeros_needed n = (119 - n mod 64) mod 64"

definition sha_pad :: "bytes \<Rightarrow> bytes" where
  "sha_pad msg =
     msg @ [0x80] @ replicate (zeros_needed (length msg)) 0 @ bytes_be 8 (8 * length msg)"

definition sha256_spec :: "bytes \<Rightarrow> bytes" where
  "sha256_spec msg = concat (map (\<lambda>w. bytes_be 4 (unat w)) (hash_blocks H_init (sha_pad msg)))"

section \<open>The block transform\<close>

lemma for_loop_zip:
  assumes "n \<le> length xs" "n \<le> length ys"
  shows "for_loop 0 n (\<lambda>j. f (xs ! j) (ys ! j)) s = foldl (\<lambda>v (k, w). f k w v) s (zip (take n xs) (take n ys))"
  using assms
  by (induction n) (simp_all add: for_loop_Suc take_Suc_conv_app_nth)

lemma shs_expand_correct:
  assumes "length ws = 80"
  shows "take 64 (shs_expand ws) = schedule (take 16 ws) \<and> length (shs_expand ws) = 80"
proof -
  let ?P = "\<lambda>j w. length w = 80 \<and>
    take j w = foldl (\<lambda>ws t. ws @ [schedule_word ws t]) (take 16 ws) [16..<j]"
  have "?P 64 (shs_expand ws)"
    unfolding shs_expand_def
  proof (rule for_loop_inv [where P = ?P])
    fix i w
    assume i: "16 \<le> i" "i < 64" and P: "?P i w"
    have "schedule_word (take i w) i =
        theta1 (w ! (i - 2)) + w ! (i - 7) + theta0 (w ! (i - 15)) + w ! (i - 16)"
      using i by (simp add: schedule_word_def)
    with i P show "?P (Suc i) (w[i := theta1 (w ! (i - 2)) + w ! (i - 7) + theta0 (w ! (i - 15)) + w ! (i - 16)])"
      by (simp add: take_Suc_conv_app_nth)
  qed (simp_all add: assms)
  then show ?thesis
    unfolding schedule_def by (rule conj_commute [THEN iffD1])
qed

lemma length_K_sha: "length K_sha = 64"
  by (simp add: K_sha_def)

lemma list_8_nth:
  assumes "length xs = 8"
  shows "xs = [xs ! 0, xs ! 1, xs ! 2, xs ! 3, xs ! 4, xs ! 5, xs ! 6, xs ! 7]"
  using assms by (intro nth_equalityI) (auto simp: less_Suc_eq numeral_eq_Suc)

lemma shs_transform_correct:
  assumes "length (sh_w sh) = 80" "length (sh_h sh) = 8"
  shows "sh_h (shs_transform sh) = compress (sh_h sh) (take 16 (sh_w sh))"
    and "length (sh_w (shs_transform sh)) = 80"
    and "sh_len0 (shs_transform sh) = sh_len0 sh" "sh_len1 (shs_transform sh) = sh_len1 sh"
proof -
  note ex = shs_expand_correct [OF assms(1)]
  have "for_loop 0 64 (\<lambda>j. sha_round (K_sha ! j) (shs_expand (sh_w sh) ! j)) v =
      foldl (\<lambda>v (k, wj). sha_round k wj v) v (zip K_sha (schedule (take 16 (sh_w sh))))" for v
    using for_loop_zip [of 64 K_sha "shs_expand (sh_w sh)" sha_round v] ex
    by (simp add: length_K_sha)
  moreover have "map2 (+) (sh_h sh) [a, b, c, d, e, f, g, h] =
      [sh_h sh ! 0 + a, sh_h sh ! 1 + b, sh_h sh ! 2 + c, sh_h sh ! 3 + d,
       sh_h sh ! 4 + e, sh_h sh ! 5 + f, sh_h sh ! 6 + g, sh_h sh ! 7 + h]" for a b c d e f g h
    by (subst list_8_nth [OF assms(2)]) simp
  ultimately show "sh_h (shs_transform sh) = compress (sh_h sh) (take 16 (sh_w sh))"
    by (simp add: shs_transform_def compress_def Let_def split: prod.splits)
  show "length (sh_w (shs_transform sh)) = 80" "sh_len0 (shs_transform sh) = sh_len0 sh"
    "sh_len1 (shs_transform sh) = sh_len1 sh"
    using ex by (simp_all add: shs_transform_def Let_def split: prod.splits)
qed

lemma length_compress: "length hs = 8 \<Longrightarrow> length (compress hs block) = 8"
  by (simp add: compress_def split: prod.splits)

section \<open>Bytes and words\<close>

lemma add_byte_4:
  "foldl add_byte old [b0, b1, b2, b3] = foldl add_byte 0 [b0, b1, b2, b3]"
proof -
  have "push_bit 32 old = 0"
    by (rule bit_word_eqI) (simp add: bit_simps)
  then show ?thesis
    by (simp add: add_byte_def push_bit_or push_bit_push_bit)
qed

lemma add_byte_chunk:
  assumes "length bs = 4"
  shows "foldl add_byte old bs = foldl add_byte 0 bs"
proof -
  obtain b0 b1 b2 b3 where "bs = [b0, b1, b2, b3]"
    using assms by (auto simp: length_Suc_conv numeral_eq_Suc)
  then show ?thesis using add_byte_4 by simp
qed

lemma map_upt_shift: "map f [0..<Suc k] = f 0 # map (\<lambda>i. f (Suc i)) [0..<k]"
  by (simp add: upt_conv_Cons map_Suc_upt [symmetric] del: upt_Suc)

lemma drop_4: "drop (4 + n) (b0 # b1 # b2 # b3 # cs) = drop n cs"
  by (simp add: numeral_eq_Suc)

lemma words_be_nth:
  "length bs = 4 * k \<Longrightarrow>
   words_be bs = map (\<lambda>i. foldl add_byte 0 (take 4 (drop (4 * i) bs))) [0..<k]"
proof (induction k arbitrary: bs)
  case 0
  then show ?case by simp
next
  case (Suc k)
  then obtain b0 b1 b2 b3 cs where bs: "bs = b0 # b1 # b2 # b3 # cs" and "length cs = 4 * k"
    by (auto simp: length_Suc_conv numeral_eq_Suc)
  with Suc.IH show ?case
    unfolding map_upt_shift by (simp add: drop_4 numeral_eq_Suc)
qed

lemma words_be_append:
  "length xs = 4 * k \<Longrightarrow> words_be (xs @ ys) = words_be xs @ words_be ys"
proof (induction k arbitrary: xs)
  case 0
  then show ?case by simp
next
  case (Suc k)
  then obtain b0 b1 b2 b3 cs where "xs = b0 # b1 # b2 # b3 # cs" and "length cs = 4 * k"
    by (auto simp: length_Suc_conv numeral_eq_Suc)
  with Suc.IH show ?case by simp
qed

lemma bit_add_byte:
  "bit (add_byte acc b) n \<longleftrightarrow> n < 32 \<and> (if n < 8 then bit b n else bit acc (n - 8))"
  by (auto simp add: add_byte_def bit_or_iff bit_push_bit_iff bit_unsigned_iff simp del: push_bit_numeral push_bit_of_1 dest: bit_imp_le_length)
lemma add_byte_of_nat:
  "foldl add_byte 0 [word_of_nat (v div 16777216), word_of_nat (v div 65536),
     word_of_nat (v div 256), word_of_nat v] = word_of_nat v"
proof -
  have eq: "v div 16777216 = drop_bit 24 v" "v div 65536 = drop_bit 16 v" "v div 256 = drop_bit 8 v"
    by (simp_all add: drop_bit_eq_div)
  show ?thesis
    unfolding eq
    by (rule bit_word_eqI) (auto simp: bit_add_byte bit_of_nat_iff bit_drop_bit_eq)
qed

lemma words_be_bytes_be_8:
  "words_be (bytes_be 8 v) = [word_of_nat (v div 4294967296), word_of_nat v]"
proof -
  let ?hi = "v div 4294967296"
  have "bytes_be 8 v =
     [word_of_nat (?hi div 16777216), word_of_nat (?hi div 65536), word_of_nat (?hi div 256), word_of_nat ?hi,
      word_of_nat (v div 16777216), word_of_nat (v div 65536), word_of_nat (v div 256), word_of_nat v]"
    by (simp add: bytes_be_def upt_rec div_mult2_eq [symmetric])
  then show ?thesis
    using add_byte_of_nat [of ?hi] add_byte_of_nat [of v] by simp
qed

section \<open>Streaming\<close>

text \<open>The words of the context hold the bytes of a partial block, each shifted in from the right.\<close>

definition holds_block :: "u32 list \<Rightarrow> bytes \<Rightarrow> bool" where
  "holds_block w tail \<longleftrightarrow>
     (\<forall>i. 4 * i < length tail \<longrightarrow> (\<exists>old. w ! i = foldl add_byte old (take 4 (drop (4 * i) tail))))"

definition whole_blocks :: "bytes \<Rightarrow> bytes" where
  "whole_blocks msg = take (64 * (length msg div 64)) msg"

definition partial_block :: "bytes \<Rightarrow> bytes" where
  "partial_block msg = drop (64 * (length msg div 64)) msg"

text \<open>The context after the bytes of \<open>msg\<close> have been fed to a freshly initialised one.\<close>

definition absorbed :: "bytes \<Rightarrow> sha256 \<Rightarrow> bool" where
  "absorbed msg sh \<longleftrightarrow>
     length (sh_w sh) = 80 \<and> length (sh_h sh) = 8 \<and>
     sh_len0 sh = word_of_nat (8 * length msg) \<and>
     sh_len1 sh = word_of_nat (length msg div 536870912) \<and>
     sh_h sh = hash_blocks H_init (whole_blocks msg) \<and>
     holds_block (sh_w sh) (partial_block msg)"

lemma length_partial_block [simp]: "length (partial_block msg) = length msg mod 64"
  by (simp add: partial_block_def minus_mult_div_eq_mod)

lemma length_whole_blocks [simp]: "length (whole_blocks msg) = 64 * (length msg div 64)"
  by (simp add: whole_blocks_def)

lemma whole_partial: "whole_blocks msg @ partial_block msg = msg"
  by (simp add: whole_blocks_def partial_block_def)

lemma hash_blocks_append:
  "length xs = 64 * k \<Longrightarrow> hash_blocks hs (xs @ ys) = hash_blocks (hash_blocks hs xs) ys"
proof (induction k arbitrary: hs xs)
  case 0
  then show ?case by (simp add: hash_blocks.simps [of hs "[]"])
next
  case (Suc k)
  then have "hash_blocks hs (xs @ ys) = hash_blocks (compress hs (words_be (take 64 xs))) (drop 64 xs @ ys)"
    by (subst hash_blocks.simps) simp
  also have "\<dots> = hash_blocks (hash_blocks (compress hs (words_be (take 64 xs))) (drop 64 xs)) ys"
    using Suc by simp
  also have "hash_blocks (compress hs (words_be (take 64 xs))) (drop 64 xs) = hash_blocks hs xs"
    using Suc.prems by (subst (2) hash_blocks.simps) simp
  finally show ?case .
qed

lemma hash_blocks_one: "length b = 64 \<Longrightarrow> hash_blocks hs b = compress hs (words_be b)"
  by (simp add: hash_blocks.simps [of hs b] hash_blocks.simps [of _ "[]"])

lemma hash_blocks_short: "length b < 64 \<Longrightarrow> hash_blocks hs b = hs"
  by (simp add: hash_blocks.simps [of hs b])

lemma length_hash_blocks: "length hs = 8 \<Longrightarrow> length (hash_blocks hs bs) = 8"
proof (induction hs bs rule: hash_blocks.induct)
  case (1 hs bs)
  then show ?case
    by (cases "length bs < 64") (simp_all add: hash_blocks.simps [of hs bs] length_compress)
qed

lemma holds_block_snoc:
  assumes "holds_block w tail" "length tail < 64" "length w = 80"
  shows "holds_block (w[length tail div 4 := add_byte (w ! (length tail div 4)) b]) (tail @ [b])"
  unfolding holds_block_def
proof (intro allI impI)
  fix i
  let ?c = "length tail div 4"
  assume "4 * i < length (tail @ [b])"
  then consider "i < ?c" "4 * i + 4 \<le> length tail" | "i = ?c"
    by (auto simp: not_less less_Suc_eq_le) linarith
  then show "\<exists>old. w[?c := add_byte (w ! ?c) b] ! i = foldl add_byte old (take 4 (drop (4 * i) (tail @ [b])))"
  proof cases
    case 1
    with assms(1) show ?thesis by (simp add: holds_block_def)
  next
    case 2
    let ?d = "drop (4 * i) tail"
    have chunk: "take 4 (drop (4 * i) (tail @ [b])) = ?d @ [b]"
      using 2 by (simp add: minus_mult_div_eq_mod)
    have "\<exists>old. w ! ?c = foldl add_byte old ?d"
    proof (cases "length tail mod 4 = 0")
      case True
      then show ?thesis using 2 by (auto intro: exI [of _ "w ! ?c"])
    next
      case False
      then have "4 * ?c < length tail" by presburger
      with assms(1) have "\<exists>old. w ! ?c = foldl add_byte old (take 4 (drop (4 * ?c) tail))"
        unfolding holds_block_def by blast
      then show ?thesis using 2 by (simp add: minus_mult_div_eq_mod)
    qed
    with 2 assms chunk show ?thesis by auto
  qed
qed

lemma holds_block_words:
  assumes "holds_block w tail" "length tail = 4 * k" "k \<le> length w"
  shows "take k w = words_be tail"
proof (rule nth_equalityI)
  show "length (take k w) = length (words_be tail)"
    using assms by (simp add: words_be_nth)
  fix i
  assume "i < length (take k w)"
  then have i: "i < k" by simp
  then obtain old where "w ! i = foldl add_byte old (take 4 (drop (4 * i) tail))"
    using assms by (auto simp: holds_block_def)
  with i assms show "take k w ! i = words_be tail ! i"
    by (simp add: words_be_nth add_byte_chunk [of _ old])
qed

lemma mod_8_times: "8 * n mod 4294967296 = 8 * (n mod 536870912 :: nat)"
  by (simp add: mult_mod_right)

lemma div_8_32: "8 * m div 32 = m div (4 :: nat)"
  by simp

lemma mod_64_div_4: "m div 4 mod 16 = m mod 64 div (4 :: nat)"
  using mod_mult2_eq [of m 4 16] by simp

lemma len0_block_index:
  "unat ((word_of_nat (8 * n) :: u32) div 32 mod 16) = n mod 64 div 4"
proof -
  have "unat ((word_of_nat (8 * n) :: u32) div 32 mod 16) = (8 * n mod 4294967296) div 32 mod 16"
    by (simp add: unat_div_distrib unat_mod_distrib unsigned_of_nat take_bit_eq_mod del: of_nat_mult)
  also have "\<dots> = (n mod 536870912) mod 64 div 4"
    unfolding mod_8_times by (simp only: div_8_32 mod_64_div_4)
  finally show ?thesis
    by (simp add: mod_mod_cancel)
qed

lemma len0_mod_512: "unat ((word_of_nat (8 * n) :: u32) mod 512) = 8 * (n mod 64)"
proof -
  have "unat ((word_of_nat (8 * n) :: u32) mod 512) = (8 * n mod 4294967296) mod 512"
    by (simp add: unat_mod_distrib unsigned_of_nat take_bit_eq_mod del: of_nat_mult)
  also have "\<dots> = 8 * ((n mod 536870912) mod 64)"
    unfolding mod_8_times by (simp add: mult_mod_right)
  finally show ?thesis
    by (simp add: mod_mod_cancel)
qed

lemma len0_zero: "(word_of_nat (8 * n) :: u32) = 0 \<longleftrightarrow> n mod 536870912 = 0"
proof -
  have "(word_of_nat (8 * n) :: u32) = 0 \<longleftrightarrow> unat (word_of_nat (8 * n) :: u32) = 0"
    by (simp only: unat_eq_0)
  also have "\<dots> \<longleftrightarrow> 8 * n mod 4294967296 = 0"
    by (simp add: unsigned_of_nat take_bit_eq_mod del: of_nat_mult)
  finally show ?thesis
    by (simp add: mod_8_times)
qed

lemma absorbed_init:
  assumes "length (sh_w sh) = 80"
  shows "absorbed [] (shs256_init sh)"
proof -
  have "length (for_loop 0 64 (\<lambda>i w. w[i := 0]) (sh_w sh)) = 80"
    by (rule for_loop_inv [where P = "\<lambda>_ w. length w = 80"]) (simp_all add: assms)
  then show ?thesis
    by (simp add: absorbed_def shs256_init_def holds_block_def partial_block_def whole_blocks_def
        hash_blocks_short H_init_def)
qed

lemma snoc_blocks:
  shows "Suc (length msg) mod 64 \<noteq> 0 \<Longrightarrow>
      whole_blocks (msg @ [b]) = whole_blocks msg \<and> partial_block (msg @ [b]) = partial_block msg @ [b]"
    and "Suc (length msg) mod 64 = 0 \<Longrightarrow>
      whole_blocks (msg @ [b]) = msg @ [b] \<and> partial_block (msg @ [b]) = [] \<and>
      length (partial_block msg @ [b]) = 64"
proof -
  assume "Suc (length msg) mod 64 \<noteq> 0"
  then have "Suc (length msg) div 64 = length msg div 64" by (simp add: div_Suc)
  then show "whole_blocks (msg @ [b]) = whole_blocks msg \<and> partial_block (msg @ [b]) = partial_block msg @ [b]"
    by (simp add: whole_blocks_def partial_block_def)
next
  assume *: "Suc (length msg) mod 64 = 0"
  then have "64 * (Suc (length msg) div 64) = Suc (length msg)" by auto
  then have "whole_blocks (msg @ [b]) = msg @ [b] \<and> partial_block (msg @ [b]) = []"
    by (simp add: whole_blocks_def partial_block_def)
  moreover from * have "length msg mod 64 = 63" by (simp add: mod_Suc split: if_splits)
  ultimately show "whole_blocks (msg @ [b]) = msg @ [b] \<and> partial_block (msg @ [b]) = [] \<and>
      length (partial_block msg @ [b]) = 64"
    by simp
qed

lemma absorbed_process:
  assumes "absorbed msg sh"
  shows "absorbed (msg @ [b]) (shs256_process sh b)"
proof -
  let ?n = "length msg"
  let ?c = "?n mod 64 div 4"
  let ?w = "(sh_w sh)[?c := add_byte (sh_w sh ! ?c) b]"
  define sh' where "sh' = sh\<lparr>sh_w := ?w, sh_len0 := word_of_nat (8 * Suc ?n),
     sh_len1 := word_of_nat (Suc ?n div 536870912)\<rparr>"
  note ab = assms [unfolded absorbed_def]
  from ab have ab_h: "sh_h sh = hash_blocks H_init (whole_blocks msg)" by blast
  have len0: "sh_len0 sh + 8 = word_of_nat (8 * Suc ?n)" using ab by simp
  have len1: "(if sh_len0 sh + 8 = 0 then sh_len1 sh + 1 else sh_len1 sh) =
      word_of_nat (Suc ?n div 536870912)"
    unfolding len0 len0_zero using ab by (simp add: div_Suc)
  have cnt: "unat (sh_len0 sh div 32 mod 16) = ?c"
    using ab len0_block_index by simp
  have full: "(word_of_nat (8 * Suc ?n) :: u32) mod 512 = 0 \<longleftrightarrow> Suc ?n mod 64 = 0"
    unfolding unat_eq_0 [symmetric] len0_mod_512 by simp
  have proc: "shs256_process sh b = (if Suc ?n mod 64 = 0 then shs_transform sh' else sh')"
    unfolding shs256_process_def Let_def len1 cnt unfolding len0 full sh'_def add_byte_def ..
  have hb: "holds_block ?w (partial_block msg @ [b])"
    using holds_block_snoc [of "sh_w sh" "partial_block msg" b] ab by simp
  have "length (sh_w sh') = 80" using ab by (simp add: sh'_def)
  moreover have "length (sh_h sh') = 8" by (simp add: sh'_def ab_h length_hash_blocks H_init_def)
  ultimately have len': "length (sh_w sh') = 80" "length (sh_h sh') = 8" .
  show ?thesis
  proof (cases "Suc ?n mod 64 = 0")
    case False
    with snoc_blocks(1) [OF False, of b] hb ab len' show ?thesis
      by (simp add: proc absorbed_def sh'_def)
  next
    case True
    note sb = snoc_blocks(2) [OF True, of b]
    have "take 16 ?w = words_be (partial_block msg @ [b])"
      using holds_block_words [OF hb, of 16] sb ab by simp
    then have "sh_h (shs_transform sh') = hash_blocks H_init (whole_blocks msg @ partial_block msg @ [b])"
      using sb ab shs_transform_correct(1) [OF len']
      by (simp add: sh'_def hash_blocks_append [where k = "?n div 64"] hash_blocks_one)
    also have "whole_blocks msg @ partial_block msg @ [b] = msg @ [b]"
      by (metis append_assoc whole_partial)
    finally have h: "sh_h (shs_transform sh') = hash_blocks H_init (msg @ [b])" .
    then have "length (sh_h (shs_transform sh')) = 8"
      by (simp add: length_hash_blocks H_init_def)
    with True h sb shs_transform_correct [OF len'] show ?thesis
      by (simp add: proc absorbed_def sh'_def holds_block_def)
  qed
qed

text \<open>Feeding a whole buffer, as \<^verbatim>\<open>hash_update\<close> does.\<close>

lemma absorbed_fold:
  "absorbed msg sh \<Longrightarrow> absorbed (msg @ data) (fold (\<lambda>b sh. shs256_process sh b) data sh)"
proof (induction data arbitrary: msg sh)
  case Nil
  then show ?case by simp
next
  case (Cons b data)
  from Cons.IH [OF absorbed_process [OF Cons.prems, of b]] show ?case by simp
qed

section \<open>The padding loop ends\<close>

lemma unat_448: "unat (448 :: u32) = 448"
  by simp

lemma absorbed_len_mod:
  assumes "absorbed msg sh"
  shows "sh_len0 sh mod 512 = 448 \<longleftrightarrow> length msg mod 64 = 56"
proof -
  have "unat (sh_len0 sh mod 512) = 8 * (length msg mod 64)"
    using assms len0_mod_512 unfolding absorbed_def by simp
  moreover have "sh_len0 sh mod 512 = 448 \<longleftrightarrow> unat (sh_len0 sh mod 512) = 448"
    unfolding word_unat_eq_iff unat_448 ..
  moreover have "8 * m = 448 \<longleftrightarrow> m = 56" for m :: nat
    by auto
  ultimately show ?thesis by (simp only:)
qed

definition zeros_left :: "nat \<Rightarrow> nat" where
  "zeros_left n = (120 - n mod 64) mod 64"

lemma zeros_left_cases: "zeros_left n = (if n mod 64 \<le> 56 then 56 - n mod 64 else 120 - n mod 64)"
proof -
  have "(120 - m) mod 64 = (if m \<le> 56 then 56 - m else 120 - m)" if "m < 64" for m :: nat
    using that le_mod_geq [of 64 "120 - m"] by (cases "m \<le> 56") simp_all
  then show ?thesis by (simp add: zeros_left_def)
qed

lemma zeros_left_Suc: "zeros_left n = Suc k \<Longrightarrow> zeros_left (Suc n) = k"
  using mod_less_divisor [of 64 n]
  by (auto simp: zeros_left_cases mod_Suc split: if_splits)

lemma pad_zeros_ends:
  "absorbed msg sh \<Longrightarrow> zeros_left (length msg) = k \<Longrightarrow>
   \<exists>sh'. pad_zeros sh = Some sh' \<and> absorbed (msg @ replicate k 0) sh'"
proof (induction k arbitrary: msg sh)
  case 0
  then have "length msg mod 64 = 56"
    using mod_less_divisor [of 64 "length msg"] by (simp add: zeros_left_cases split: if_splits)
  with 0 show ?case
    unfolding pad_zeros_def by (subst while_option_unfold) (simp add: absorbed_len_mod)
next
  case (Suc k)
  from Suc.prems(2) have ne: "length msg mod 64 \<noteq> 56"
    by (auto simp: zeros_left_cases)
  have "zeros_left (length (msg @ [0 :: u8])) = k"
    using Suc.prems(2) by (simp add: zeros_left_Suc)
  from Suc.IH [OF absorbed_process [OF Suc.prems(1)] this]
  obtain sh' where "pad_zeros (shs256_process sh 0) = Some sh'" "absorbed ((msg @ [0]) @ replicate k 0) sh'"
    by blast
  moreover have "pad_zeros sh = pad_zeros (shs256_process sh 0)"
    unfolding pad_zeros_def using ne
    by (subst while_option_unfold) (simp add: absorbed_len_mod [OF Suc.prems(1)])
  ultimately show ?case by simp
qed

section \<open>The digest\<close>

lemma ucast_byte_of: "(ucast (drop_bit n (w :: u32) AND 0xff) :: u8) = word_of_nat (unat w div 2 ^ n)"
proof -
  have "(ucast (x AND 0xff) :: u8) = word_of_nat (unat x)" for x :: u32
  proof (rule bit_word_eqI)
    fix k
    assume "k < LENGTH(8)"
    then have "k < 8" by simp
    moreover have "bit (0xff :: u32) k" if "k < 8"
      using that by (auto simp: numeral_eq_Suc less_Suc_eq)
    ultimately show "bit (ucast (x AND 0xff) :: u8) k = bit (word_of_nat (unat x) :: u8) k"
      by (simp add: bit_simps)
  qed
  then show ?thesis by (simp only: unat_drop_bit_word)
qed

lemma digest_bytes_correct:
  assumes "length hs = 8"
  shows "digest_bytes hs = concat (map (\<lambda>w. bytes_be 4 (unat w)) hs)"
proof -
  have "bytes_be 4 (unat w) = [ucast (drop_bit 24 w AND 0xff), ucast (drop_bit 16 w AND 0xff),
     ucast (drop_bit 8 w AND 0xff), ucast (drop_bit 0 w AND 0xff)]" for w :: u32
    unfolding ucast_byte_of by (simp add: bytes_be_def upt_rec)
  then show ?thesis
    by (subst (2) list_8_nth [OF assms]) (simp add: digest_bytes_def upt_rec)
qed

lemma zeros_needed_left: "zeros_needed n = zeros_left (Suc n)"
proof -
  have "(119 - m) mod 64 = (if m \<le> 55 then 55 - m else 119 - m)" if "m < 64" for m :: nat
    using that le_mod_geq [of 64 "119 - m"] by (cases "m \<le> 55") simp_all
  then show ?thesis
    by (auto simp: zeros_needed_def zeros_left_cases mod_Suc)
qed

lemma final_block:
  assumes ab: "absorbed padded sh" and mod: "length padded mod 64 = 56"
  shows "sh_h (shs_transform (sh\<lparr>sh_w := (sh_w sh)[14 := word_of_nat (n div 536870912), 15 := word_of_nat (8 * n)]\<rparr>)) =
     hash_blocks H_init (padded @ bytes_be 8 (8 * n))"
proof -
  let ?w = "(sh_w sh)[14 := word_of_nat (n div 536870912), 15 := word_of_nat (8 * n)] :: u32 list"
  let ?last = "partial_block padded @ bytes_be 8 (8 * n)"
  note ab' = ab [unfolded absorbed_def]
  have len: "length (sh_w sh) = 80" "length (sh_h sh) = 8" and
    hash: "sh_h sh = hash_blocks H_init (whole_blocks padded)" using ab' by blast+
  have "take 14 (sh_w sh) = words_be (partial_block padded)"
    by (rule holds_block_words) (use ab' mod in auto)
  moreover have "take 16 ?w = take 14 (sh_w sh) @ [word_of_nat (8 * n div 4294967296), word_of_nat (8 * n)]"
    using len by (intro nth_equalityI) (auto simp: nth_append nth_list_update nth_Cons' simp del: of_nat_mult)
  ultimately have w: "take 16 ?w = words_be ?last"
    using mod by (simp add: words_be_append [where k = 14] words_be_bytes_be_8)
  have "sh_h (shs_transform (sh\<lparr>sh_w := ?w\<rparr>)) = compress (sh_h sh) (take 16 ?w)"
    using shs_transform_correct(1) [of "sh\<lparr>sh_w := ?w\<rparr>"] len by simp
  also have "\<dots> = hash_blocks (hash_blocks H_init (whole_blocks padded)) ?last"
    unfolding w hash using mod by (simp add: hash_blocks_one bytes_be_def)
  also have "\<dots> = hash_blocks H_init (whole_blocks padded @ ?last)"
    by (simp add: hash_blocks_append [where k = "length padded div 64"])
  also have "whole_blocks padded @ ?last = padded @ bytes_be 8 (8 * n)"
    by (metis append_assoc whole_partial)
  finally show ?thesis .
qed

lemma length_padded: "length (msg @ [0x80 :: u8] @ replicate (zeros_needed (length msg)) 0) mod 64 = 56"
proof -
  have "(Suc n + zeros_left (Suc n)) mod 64 = 56" for n
  proof -
    have "(Suc n + zeros_left (Suc n)) mod 64 = (Suc n mod 64 + zeros_left (Suc n)) mod 64"
      by (simp only: mod_add_left_eq)
    also have "Suc n mod 64 + zeros_left (Suc n) = (if Suc n mod 64 \<le> 56 then 56 else 120)"
      using mod_less_divisor [of 64 "Suc n"] by (auto simp: zeros_left_cases simp del: mod_less_divisor)
    finally show ?thesis by (simp split: if_splits)
  qed
  then show ?thesis by (simp add: zeros_needed_left)
qed

lemma shs256_hash_correct:
  assumes ab: "absorbed msg sh"
  shows "\<exists>sh'. shs256_hash sh = Some (sha256_spec msg, sh') \<and> absorbed [] sh'"
proof -
  let ?padded = "msg @ [0x80] @ replicate (zeros_needed (length msg)) 0"
  have "absorbed (msg @ [0x80]) (shs256_process sh 0x80)"
    using ab by (rule absorbed_process)
  from pad_zeros_ends [OF this refl]
  obtain sh1 where pad: "pad_zeros (shs256_process sh 0x80) = Some sh1" and ab1: "absorbed ?padded sh1"
    by (auto simp: zeros_needed_left)
  let ?w = "(sh_w sh1)[14 := sh_len1 sh, 15 := sh_len0 sh]"
  define sh2 where "sh2 = shs_transform (sh1\<lparr>sh_w := ?w\<rparr>)"
  have len: "sh_len1 sh = word_of_nat (length msg div 536870912)" "sh_len0 sh = word_of_nat (8 * length msg)"
    using ab unfolding absorbed_def by blast+
  have h2: "sh_h sh2 = hash_blocks H_init (sha_pad msg)"
    unfolding sh2_def len using final_block [OF ab1 length_padded] by (simp add: sha_pad_def)
  have w2: "length (sh_w sh2) = 80"
    unfolding sh2_def by (rule shs_transform_correct) (use ab1 in \<open>auto simp: absorbed_def\<close>)
  have "shs256_hash sh = Some (digest_bytes (sh_h sh2), shs256_init sh2)"
    by (simp add: shs256_hash_def Let_def pad sh2_def)
  moreover have "length (hash_blocks H_init (sha_pad msg)) = 8"
    by (simp add: length_hash_blocks H_init_def)
  then have "digest_bytes (sh_h sh2) = sha256_spec msg"
    unfolding h2 sha256_spec_def by (rule digest_bytes_correct)
  ultimately show ?thesis
    using absorbed_init [OF w2] by auto
qed

section \<open>Properties\<close>

text \<open>
  C3: Feeding any message to a fresh context byte by byte and closing it always returns (the
  padding loop ends), the digest is the reference SHA-256 of the whole message, whatever its
  length, and the context is left freshly initialised for the next image.
\<close>

theorem sha256_streaming:
  assumes "length (sh_w sh) = 80"
  shows "\<exists>sh'. shs256_hash (fold (\<lambda>b sh. shs256_process sh b) msg (shs256_init sh)) =
      Some (sha256_spec msg, sh') \<and>
    sh_len0 sh' = 0 \<and> sh_len1 sh' = 0 \<and> sh_h sh' = H_init \<and> length (sh_w sh') = 80"
proof -
  have "absorbed msg (fold (\<lambda>b sh. shs256_process sh b) msg (shs256_init sh))"
    using absorbed_fold [OF absorbed_init [OF assms], of msg] by simp
  from shs256_hash_correct [OF this] show ?thesis
    by (auto simp: absorbed_def whole_blocks_def hash_blocks_short)
qed

theorem sha256_streaming_witness:
  "\<exists>sh'. shs256_hash (shs256_process (shs256_init \<lparr>sh_len0 = 7, sh_len1 = 9, sh_h = [], sh_w = replicate 80 1\<rparr>) 0x61) =
      Some (sha256_spec [0x61], sh') \<and>
    sh_len0 sh' = 0 \<and> sh_len1 sh' = 0 \<and> sh_h sh' = H_init \<and> length (sh_w sh') = 80"
  using sha256_streaming [of "\<lparr>sh_len0 = 7, sh_len1 = 9, sh_h = [], sh_w = replicate 80 1\<rparr>" "[0x61]"]
  by simp

end
