(* ===== verification/Bignum.thy ===== *)
theory Bignum
  imports Prelude
begin

text \<open>
  The multi-precision arithmetic of \<^verbatim>\<open>common/vendors/MIRACL/bootrom.c\<close> (the
  \<^verbatim>\<open>FAST_BUT_BIGGER\<close> variant that is compiled): a big number is 64 limbs of 32 bits, least
  significant first, and the double-width intermediates are 64-bit words. The theory shows that
  \<^verbatim>\<open>tr_multiply\<close> multiplies, that the guess-and-correct long division of \<^verbatim>\<open>tr_divide\<close> reduces
  modulo any modulus with a non-zero top limb, and that \<^verbatim>\<open>tr_modmul\<close> and \<^verbatim>\<open>tr_compare\<close>
  compute the product modulo the modulus and the sign of the difference.
\<close>

section \<open>The code\<close>

type_synonym big = "u32 list"

definition MODSIZE :: nat where
  "MODSIZE = 64"

text \<open>The two halves of a 64-bit intermediate: \<^verbatim>\<open>(BIG)dble\<close> and \<^verbatim>\<open>(BIG)(dble>>REGBITS)\<close>.\<close>

definition lo32 :: "u64 \<Rightarrow> u32" where
  "lo32 d = ucast d"

definition hi32 :: "u64 \<Rightarrow> u32" where
  "hi32 d = ucast (drop_bit 32 d)"

definition tr_copy :: "big \<Rightarrow> big \<Rightarrow> big" where
  "tr_copy x y = for_loop 0 MODSIZE (\<lambda>i y. y[i := x ! i]) y"

primrec tr_compare_from :: "nat \<Rightarrow> big \<Rightarrow> big \<Rightarrow> int" where
  "tr_compare_from 0 x y = 0"
| "tr_compare_from (Suc i) x y =
     (if x ! i < y ! i then -1 else if x ! i > y ! i then 1 else tr_compare_from i x y)"

definition tr_compare :: "big \<Rightarrow> big \<Rightarrow> int" where
  "tr_compare x y = tr_compare_from MODSIZE x y"

text \<open>The inner loop of \<^verbatim>\<open>tr_multiply\<close>, then the whole routine.\<close>

definition mul_digit :: "u32 \<Rightarrow> big \<Rightarrow> nat \<Rightarrow> nat \<Rightarrow> big \<times> u32 \<Rightarrow> big \<times> u32" where
  "mul_digit xi y i j st =
     (let (z, carry) = st;
          dble = (ucast xi :: u64) * ucast (y ! j) + ucast carry + ucast (z ! (i + j))
      in (z[i + j := lo32 dble], hi32 dble))"

definition tr_multiply :: "big \<Rightarrow> big \<Rightarrow> big \<Rightarrow> big" where
  "tr_multiply x y z0 =
     for_loop 0 MODSIZE
       (\<lambda>i z. let (z', carry) = for_loop 0 MODSIZE (mul_digit (x ! i) y i) (z, 0)
              in z'[MODSIZE + i := carry])
       (for_loop 0 (2 * MODSIZE + 1) (\<lambda>i z. z[i := 0]) z0)"

text \<open>
  The \<^verbatim>\<open>while (carry==0)\<close> loop of \<^verbatim>\<open>tr_divide\<close>. Every round lowers the guess, and a guess of 0
  passes the test, so the loop ends for every input.
\<close>

function refine_guess :: "u32 \<Rightarrow> u32 \<Rightarrow> u32 \<Rightarrow> u32 \<Rightarrow> u32 \<Rightarrow> u32 \<Rightarrow> u32" where
  "refine_guess ldy sdy xk1 attemp ra carry =
     (if carry \<noteq> 0 then attemp
      else
        (let dble = (ucast attemp :: u64) * ucast sdy; r = lo32 dble; tst = hi32 dble
         in if tst < ra \<or> (tst = ra \<and> r \<le> xk1) then attemp
            else refine_guess ldy sdy xk1 (attemp - 1) (ra + ldy)
                   (if ra + ldy < ldy then 1 else carry)))"
  by pat_completeness auto
termination
proof (relation "measure (\<lambda>(ldy, sdy, xk1, attemp, ra, carry). unat attemp)", goal_cases)
  case 1
  then show ?case by simp
next
  case (2 ldy sdy xk1 attemp ra carry d r t)
  then have "attemp \<noteq> 0"
    by (auto simp: lo32_def hi32_def word_gt_0 not_less)
  then have "unat (attemp - 1) < unat attemp"
    by (metis measure_unat)
  then show ?case by simp
qed

declare refine_guess.simps [simp del]

text \<open>
  The guess of the next quotient digit: \<open>None\<close> is the division by zero that a zero leading limb
  would cause.
\<close>

definition guess_digit :: "big \<Rightarrow> big \<Rightarrow> nat \<Rightarrow> u32 option" where
  "guess_digit x y k =
     (let ldy = y ! (MODSIZE - 1); sdy = y ! (MODSIZE - 2)
      in if x ! (k + 1) = ldy
         then (let ra = ldy + x ! k
               in Some (refine_guess ldy sdy (x ! (k - 1)) (-1) ra (if ra < ldy then 1 else 0)))
         else if ldy = 0 then None
         else (let dble = push_bit 32 (ucast (x ! (k + 1)) :: u64) + ucast (x ! k);
                   attemp = lo32 (dble div ucast ldy);
                   ra = lo32 (dble - ucast attemp * ucast ldy)
               in Some (refine_guess ldy sdy (x ! (k - 1)) attemp ra 0)))"

definition sub_digit :: "u32 \<Rightarrow> big \<Rightarrow> nat \<Rightarrow> nat \<Rightarrow> big \<times> u32 \<Rightarrow> big \<times> u32" where
  "sub_digit attemp y m i st =
     (let (x, borrow) = st;
          dble = (ucast attemp :: u64) * ucast (y ! i) + ucast borrow;
          dig = lo32 dble;
          borrow' = hi32 dble
      in (x[m + i := x ! (m + i) - dig], if x ! (m + i) < dig then borrow' + 1 else borrow'))"

definition add_digit :: "big \<Rightarrow> nat \<Rightarrow> nat \<Rightarrow> big \<times> u32 \<Rightarrow> big \<times> u32" where
  "add_digit y m i st =
     (let (x, carry) = st;
          psum = x ! (m + i) + y ! i + carry;
          carry1 = (if psum > y ! i then 0 else carry);
          carry2 = (if psum < y ! i then 1 else carry1)
      in (x[m + i := psum], carry2))"

text \<open>One round of the long division: guess, subtract, and add back when the guess was too big.\<close>

definition divide_step :: "big \<Rightarrow> nat \<Rightarrow> big \<times> nat \<Rightarrow> (big \<times> nat) option" where
  "divide_step y k st =
     (let (x, w00) = st; m = k + 1 - MODSIZE
      in case guess_digit x y k of
           None \<Rightarrow> None
         | Some attemp \<Rightarrow>
             (let (x', attemp') =
                (if attemp > 0
                 then (let (x1, borrow) = for_loop 0 MODSIZE (sub_digit attemp y m) (x, 0)
                       in if x1 ! (k + 1) < borrow
                          then (let (x2, carry) =
                                  for_loop 0 MODSIZE (add_digit y m) (x1[k + 1 := 0], 0)
                                in (x2, attemp - 1))
                          else (x1[k + 1 := x1 ! (k + 1) - borrow], attemp))
                 else (x, attemp))
              in Some (x', if k = w00 - 1 \<and> attemp' = 0 then w00 - 1 else w00)))"

definition tr_divide :: "big \<Rightarrow> big \<Rightarrow> big option" where
  "tr_divide x y =
     map_option fst
       (for_down (2 * MODSIZE - 1) (MODSIZE - 1)
          (\<lambda>k st. Option.bind st (divide_step y k)) (Some (x, 2 * MODSIZE)))"

text \<open>\<^verbatim>\<open>tr_modmul\<close>; the local \<^verbatim>\<open>t\<close> starts uninitialised and is zeroed by \<^verbatim>\<open>tr_multiply\<close>.\<close>

definition tr_modmul :: "big \<Rightarrow> big \<Rightarrow> big \<Rightarrow> big \<Rightarrow> big option" where
  "tr_modmul a b m r =
     (case tr_divide (tr_multiply a b (replicate (2 * MODSIZE + 1) 0)) m of
        None \<Rightarrow> None
      | Some t \<Rightarrow> Some (tr_copy t r))"

section \<open>The value of a limb list\<close>

definition BASE :: int where
  "BASE = 4294967296"

primrec ival :: "u32 list \<Rightarrow> int" where
  "ival [] = 0"
| "ival (w # ws) = uint w + BASE * ival ws"

lemma BASE_pos [simp]: "0 < BASE" "0 \<le> BASE" "BASE \<noteq> 0"
  by (simp_all add: BASE_def)

lemma uint_bounds: "0 \<le> uint (w :: u32)" "uint w < BASE" "uint w \<le> BASE - 1"
  using unsigned_less [of w, where ?'a = int] by (simp_all add: BASE_def)

lemma ival_nonneg [simp]: "0 \<le> ival ws"
  by (induction ws) simp_all

lemma ival_append: "ival (xs @ ys) = ival xs + BASE ^ length xs * ival ys"
  by (induction xs) (simp_all add: algebra_simps)

lemma ival_less: "ival ws < BASE ^ length ws"
proof (induction ws)
  case Nil
  then show ?case by simp
next
  case (Cons w ws)
  then have "BASE * ival ws \<le> BASE * (BASE ^ length ws - 1)"
    by (intro mult_left_mono) simp_all
  then show ?case
    using uint_bounds [of w] by (simp add: algebra_simps)
qed

lemma ival_take_Suc:
  "i < length ws \<Longrightarrow> ival (take (Suc i) ws) = ival (take i ws) + uint (ws ! i) * BASE ^ i"
  by (simp add: take_Suc_conv_app_nth ival_append)

lemma ival_split: "i \<le> length ws \<Longrightarrow> ival ws = ival (take i ws) + BASE ^ i * ival (drop i ws)"
  using ival_append [of "take i ws" "drop i ws"] by simp

lemma ival_update:
  assumes "i < length ws"
  shows "ival (ws[i := v]) = ival ws + (uint v - uint (ws ! i)) * BASE ^ i"
proof -
  have "ival ws = ival (take i ws @ ws ! i # drop (Suc i) ws)"
    using assms by (simp add: id_take_nth_drop [symmetric])
  moreover have "ival (ws[i := v]) = ival (take i ws @ v # drop (Suc i) ws)"
    using assms by (simp add: upd_conv_take_nth_drop)
  ultimately show ?thesis
    using assms by (simp add: ival_append algebra_simps)
qed

lemma ival_eq_0: "ival ws = 0 \<Longrightarrow> w \<in> set ws \<Longrightarrow> w = 0"
proof (induction ws)
  case Nil
  then show ?case by simp
next
  case (Cons a ws)
  have "0 \<le> uint a" "0 \<le> BASE * ival ws" by simp_all
  with Cons.prems(1) have "uint a = 0" "BASE * ival ws = 0" unfolding ival.simps by linarith+
  with Cons show ?case by (auto simp: unsigned_eq_0_iff)
qed

lemma ival_zero_above:
  assumes "ival ws < BASE ^ i" "i \<le> length ws"
  shows "ival (drop i ws) = 0"
proof (rule ccontr)
  assume "ival (drop i ws) \<noteq> 0"
  then have "1 \<le> ival (drop i ws)" using ival_nonneg [of "drop i ws"] by linarith
  then have "BASE ^ i * 1 \<le> BASE ^ i * ival (drop i ws)" by (intro mult_left_mono) simp_all
  then show False
    using assms ival_split [of i ws] ival_nonneg [of "take i ws"] by linarith
qed

lemma ival_take_small:
  "ival ws < BASE ^ i \<Longrightarrow> i \<le> length ws \<Longrightarrow> ival (take i ws) = ival ws"
  using ival_split [of i ws] ival_zero_above [of ws i] by simp

section \<open>Double-width arithmetic\<close>

lemma uint_u64_small: "uint (ucast (w :: u32) :: u64) = uint w"
  by (simp add: unsigned_ucast_eq take_bit_int_eq_self_iff order_less_le_trans [OF uint_bounds(2)] BASE_def)

lemma uint_mul_add:
  "uint ((ucast (a :: u32) :: u64) * ucast (b :: u32) + ucast (c :: u32) + ucast (d :: u32)) =
   uint a * uint b + uint c + uint d"
proof -
  have "uint a * uint b \<le> (BASE - 1) * (BASE - 1)"
    by (intro mult_mono uint_bounds) (simp_all add: BASE_def)
  then have "uint a * uint b + uint c + uint d < 2 ^ 64"
    using uint_bounds [of c] uint_bounds [of d] by (simp add: BASE_def)
  then show ?thesis
    by (simp add: uint_word_ariths uint_u64_small mod_simps)
qed

lemma uint_lo32: "uint (lo32 d) = uint d mod BASE"
  by (simp add: lo32_def unsigned_ucast_eq take_bit_eq_mod BASE_def)

lemma uint_hi32: "uint (hi32 d) = uint d div BASE"
proof -
  have "uint d div BASE < BASE"
    using unsigned_less [of d, where ?'a = int] by (simp add: BASE_def)
  moreover have "uint (drop_bit 32 d) = uint d div BASE"
    by (simp add: BASE_def drop_bit_eq_div uint_div_distrib)
  moreover have "0 \<le> uint d div BASE"
    by (simp add: pos_imp_zdiv_nonneg_iff)
  ultimately show ?thesis
    by (simp add: hi32_def unsigned_ucast_eq take_bit_int_eq_self_iff BASE_def)
qed

lemma lo_hi: "uint (lo32 d) + BASE * uint (hi32 d) = uint d"
  by (simp add: uint_lo32 uint_hi32)

section \<open>Multiplication\<close>

lemma mul_row:
  fixes z :: big
  assumes "length z = 129" "length y = 64" "i < 64"
  shows "case for_loop 0 64 (mul_digit xi y i) (z, 0) of (z', carry) \<Rightarrow>
     length z' = 129 \<and> (\<forall>p. i + 64 \<le> p \<longrightarrow> z' ! p = z ! p) \<and>
     ival z' + uint carry * BASE ^ (i + 64) = ival z + uint xi * ival y * BASE ^ i"
proof -
  let ?P = "\<lambda>j (z', carry :: u32). length z' = 129 \<and> (\<forall>p. i + 64 \<le> p \<longrightarrow> z' ! p = z ! p) \<and>
     ival z' + uint carry * BASE ^ (i + j) = ival z + uint xi * ival (take j y) * BASE ^ i"
  have "?P 64 (for_loop 0 64 (mul_digit xi y i) (z, 0))"
  proof (rule for_loop_inv [where P = ?P])
    fix j t
    assume j: "j < 64" and P: "?P j t"
    obtain z' carry where t: "t = (z', carry)" by (cases t)
    define d where "d = (ucast xi :: u64) * ucast (y ! j) + ucast carry + ucast (z' ! (i + j))"
    have d: "uint (lo32 d) + BASE * uint (hi32 d) = uint xi * uint (y ! j) + uint carry + uint (z' ! (i + j))"
      unfolding lo_hi d_def by (rule uint_mul_add)
    have len: "i + j < length z'" using P t j assms by simp
    have "ival (z'[i + j := lo32 d]) + uint (hi32 d) * BASE ^ (i + Suc j) =
        ival z' + (uint (lo32 d) + BASE * uint (hi32 d) - uint (z' ! (i + j))) * BASE ^ (i + j)"
      by (simp add: ival_update [OF len] algebra_simps)
    also have "\<dots> = (ival z' + uint carry * BASE ^ (i + j)) + uint xi * uint (y ! j) * BASE ^ (i + j)"
      unfolding d by (simp add: algebra_simps)
    also have "\<dots> = ival z + uint xi * ival (take (Suc j) y) * BASE ^ i"
      using P t j assms by (simp add: ival_take_Suc algebra_simps power_add)
    finally have "ival (z'[i + j := lo32 d]) + uint (hi32 d) * BASE ^ (i + Suc j) =
      ival z + uint xi * ival (take (Suc j) y) * BASE ^ i" .
    moreover have "mul_digit xi y i j t = (z'[i + j := lo32 d], hi32 d)"
      by (simp add: mul_digit_def d_def t Let_def)
    ultimately show "?P (Suc j) (mul_digit xi y i j t)"
      using P t j by simp
  qed (simp_all add: assms)
  then show ?thesis using assms by simp
qed

lemma tr_multiply_correct:
  assumes "length x = 64" "length y = 64" "length z0 = 129"
  shows "length (tr_multiply x y z0) = 129" "ival (tr_multiply x y z0) = ival x * ival y"
proof -
  let ?zero = "for_loop 0 129 (\<lambda>i z. z[i := 0]) z0"
  have "length ?zero = 129 \<and> (\<forall>p < 129. ?zero ! p = 0)"
    by (rule for_loop_inv [where P = "\<lambda>i z. length z = 129 \<and> (\<forall>p < i. z ! p = 0)"])
      (auto simp: assms nth_list_update less_Suc_eq)
  then have zero: "?zero = replicate 129 0"
    by (intro nth_equalityI) simp_all
  have zval: "ival (replicate n 0) = 0" for n
    by (induction n) simp_all
  let ?body = "\<lambda>i z. let (z', carry) = for_loop 0 64 (mul_digit (x ! i) y i) (z, 0)
              in z'[64 + i := carry]"
  let ?P = "\<lambda>i z. length z = 129 \<and> (\<forall>p. 64 + i \<le> p \<and> p < 129 \<longrightarrow> z ! p = 0) \<and>
     ival z = ival (take i x) * ival y"
  have "?P 64 (for_loop 0 64 ?body (replicate 129 0))"
  proof (rule for_loop_inv [where P = ?P])
    fix i z
    assume i: "i < 64" and P: "?P i z"
    obtain z' carry where row: "for_loop 0 64 (mul_digit (x ! i) y i) (z, 0) = (z', carry)"
      by (cases "for_loop 0 64 (mul_digit (x ! i) y i) (z, 0)")
    have len: "64 + i < length z'" and z0: "z' ! (64 + i) = 0"
      and len': "length z' = 129" and keep: "\<forall>p. i + 64 \<le> p \<longrightarrow> z' ! p = z ! p"
      and val: "ival z' + uint carry * BASE ^ (i + 64) = ival z + uint (x ! i) * ival y * BASE ^ i"
      using mul_row [of z y i "x ! i"] P i row assms by simp_all
    have "ival (z'[64 + i := carry]) = ival z' + uint carry * BASE ^ (i + 64)"
      unfolding ival_update [OF len] z0 by (simp add: add.commute)
    also have "\<dots> = ival (take (Suc i) x) * ival y"
      unfolding val using P i assms by (simp add: ival_take_Suc algebra_simps)
    finally show "?P (Suc i) (?body i z)"
      using P i len' keep by (auto simp: row nth_list_update)
  qed (simp_all add: zval)
  then show "length (tr_multiply x y z0) = 129" "ival (tr_multiply x y z0) = ival x * ival y"
    unfolding tr_multiply_def MODSIZE_def using zero assms by simp_all
qed

section \<open>The quotient digit\<close>

lemma uint_mul_add1:
  "uint ((ucast (a :: u32) :: u64) * ucast (b :: u32) + ucast (c :: u32)) = uint a * uint b + uint c"
  using uint_mul_add [of a b c 0] by simp

lemma uint_mul: "uint ((ucast (a :: u32) :: u64) * ucast (b :: u32)) = uint a * uint b"
  using uint_mul_add [of a b 0 0] by simp

lemma uint_add_wrap:
  "uint ((a :: u32) + b) = (if uint a + uint b < BASE then uint a + uint b else uint a + uint b - BASE)"
  using uint_bounds [of a] uint_bounds [of b] by (simp add: uint_plus_if' BASE_def)

lemma uint_sub_wrap:
  "uint ((a :: u32) - b) = (if uint b \<le> uint a then uint a - uint b else uint a - uint b + BASE)"
  by (simp add: uint_sub_if' BASE_def)

lemma uint_shift_add:
  "uint (push_bit 32 (ucast (a :: u32) :: u64) + ucast (b :: u32)) = uint a * BASE + uint b"
proof -
  have "uint a * BASE \<le> (BASE - 1) * BASE"
    by (intro mult_right_mono uint_bounds) simp
  then have "uint a * 4294967296 + uint b < 2 ^ 64"
    using uint_bounds [of b] by (simp add: BASE_def)
  then show ?thesis
    by (simp add: push_bit_eq_mult uint_word_ariths uint_u64_small mod_simps BASE_def)
qed

lemma div_mult_le_int: "0 < b \<Longrightarrow> a div b * b \<le> (a :: int)"
  using pos_mod_sign [of b a] div_mult_mod_eq [of a b] by linarith

text \<open>
  \<open>U\<close> is the leading two limbs of the running remainder, \<open>q\<close> the true digit: the refinement never
  goes below \<open>q\<close> and stops at a guess that is right for the leading three limbs.
\<close>

lemma refine_guess_spec:
  assumes "q \<le> uint g" "0 \<le> q" "q * (uint v1 * BASE + uint v0) \<le> U * BASE + uint u0"
    and "if carry = 0 then uint ra = U - uint g * uint v1 else BASE \<le> U - uint g * uint v1"
  shows "q \<le> uint (refine_guess v1 v0 u0 g ra carry) \<and>
    uint (refine_guess v1 v0 u0 g ra carry) * (uint v1 * BASE + uint v0) \<le> U * BASE + uint u0"
  using assms
proof (induction v1 v0 u0 g ra carry rule: refine_guess.induct)
  case (1 v1 v0 u0 g ra carry)
  define d where "d = (ucast g :: u64) * ucast v0"
  have d: "uint (lo32 d) + BASE * uint (hi32 d) = uint g * uint v0"
    unfolding lo_hi d_def by (rule uint_mul)
  have lo: "0 \<le> uint (lo32 d)" "uint (lo32 d) < BASE" by (rule uint_bounds)+
  have u0: "0 \<le> uint u0" "uint u0 < BASE" by (rule uint_bounds)+
  let ?V = "uint v1 * BASE + uint v0"
  let ?ok = "hi32 d < ra \<or> (hi32 d = ra \<and> lo32 d \<le> u0)"
  show ?case
  proof (cases "carry = 0")
    case False
    have "uint g * uint v0 \<le> (BASE - 1) * (BASE - 1)"
      by (intro mult_mono uint_bounds) (simp_all add: BASE_def)
    also have "\<dots> \<le> BASE * BASE" by (simp add: BASE_def)
    also have "\<dots> \<le> (U - uint g * uint v1) * BASE"
      using 1(5) False by (intro mult_right_mono) simp_all
    finally have "uint g * ?V \<le> U * BASE + uint u0"
      by (simp add: algebra_simps add_increasing)
    with False 1(2) show ?thesis by (simp add: refine_guess.simps [of v1 v0 u0 g])
  next
    case True
    with 1(5) have ra: "uint ra = U - uint g * uint v1" by simp
    show ?thesis
    proof (cases ?ok)
      case ok: True
      have "BASE * uint (hi32 d) + uint (lo32 d) \<le> BASE * uint ra + uint u0"
      proof (cases "hi32 d < ra")
        case True
        then have "BASE * (uint (hi32 d) + 1) \<le> BASE * uint ra"
          by (intro mult_left_mono) (simp_all add: word_less_def)
        then show ?thesis using lo u0 unfolding distrib_left mult_1_right by linarith
      next
        case False
        with ok show ?thesis by (simp add: word_le_def)
      qed
      then have "uint g * ?V \<le> U * BASE + uint u0"
        using d ra by (simp add: algebra_simps)
      with 1(2) True ok show ?thesis
        by (simp add: refine_guess.simps [of v1 v0 u0 g] Let_def flip: d_def)
    next
      case notok: False
      have "BASE * uint ra + uint u0 < BASE * uint (hi32 d) + uint (lo32 d)"
      proof (cases "hi32 d = ra")
        case True
        with notok show ?thesis by (simp add: word_le_def)
      next
        case False
        with notok have "uint ra + 1 \<le> uint (hi32 d)"
          by (simp add: word_less_def word_uint_eq_iff)
        then have "BASE * (uint ra + 1) \<le> BASE * uint (hi32 d)"
          by (intro mult_left_mono) simp_all
        then show ?thesis using lo u0 unfolding distrib_left mult_1_right by linarith
      qed
      then have "U * BASE + uint u0 < uint g * ?V"
        using d ra by (simp add: algebra_simps)
      with 1(4) have "q * ?V < uint g * ?V" by linarith
      then have less: "q < uint g"
        by (rule mult_right_less_imp_less) simp
      with 1(3) have g: "uint (g - 1) = uint g - 1"
        by (simp add: uint_sub_wrap)
      have step: "refine_guess v1 v0 u0 g ra carry =
          refine_guess v1 v0 u0 (g - 1) (ra + v1) (if ra + v1 < v1 then 1 else carry)"
        using True notok by (auto simp add: refine_guess.simps [of v1 v0 u0 g] Let_def simp flip: d_def)
      have prod: "uint (g - 1) * uint v1 = uint g * uint v1 - uint v1"
        by (simp add: g algebra_simps)
      have "if (if ra + v1 < v1 then 1 else carry) = 0 then uint (ra + v1) = U - uint (g - 1) * uint v1
          else BASE \<le> U - uint (g - 1) * uint v1"
        unfolding prod using True ra uint_bounds [of ra] uint_bounds [of v1]
        by (auto simp: word_less_def uint_add_wrap split: if_splits)
      moreover have "q \<le> uint (g - 1)" using less g by simp
      ultimately show ?thesis
        unfolding step using True notok 1(3,4) by (intro 1(1) [OF _ d_def refl refl]) simp_all
    qed
  qed
qed

lemma guess_digit_spec:
  fixes x y :: big and k :: nat
  defines "U \<equiv> uint (x ! (k + 1)) * BASE + uint (x ! k)"
  assumes v1: "y ! 63 \<noteq> 0" and top: "uint (x ! (k + 1)) \<le> uint (y ! 63)"
    and q: "0 \<le> q" "q \<le> BASE - 1" "q * uint (y ! 63) \<le> U"
    "q * (uint (y ! 63) * BASE + uint (y ! 62)) \<le> U * BASE + uint (x ! (k - 1))"
  shows "\<exists>g. guess_digit x y k = Some g \<and> q \<le> uint g \<and>
    uint g * (uint (y ! 63) * BASE + uint (y ! 62)) \<le> U * BASE + uint (x ! (k - 1))"
proof (cases "x ! (k + 1) = y ! 63")
  case True
  let ?ra = "y ! 63 + x ! k"
  have m1: "uint (-1 :: u32) = BASE - 1"
    by (simp add: BASE_def unsigned_minus_1_eq_mask mask_eq_exp_minus_1)
  have "if (if ?ra < y ! 63 then 1 else 0 :: u32) = 0 then uint ?ra = U - uint (-1 :: u32) * uint (y ! 63)
      else BASE \<le> U - uint (-1 :: u32) * uint (y ! 63)"
    using True uint_bounds [of "x ! k"] uint_bounds [of "y ! 63"] unfolding m1
    by (auto simp: U_def word_less_def uint_add_wrap algebra_simps split: if_splits)
  with q refine_guess_spec [of q "-1" "y ! 63" "y ! 62" U "x ! (k - 1)"] True show ?thesis
    unfolding guess_digit_def m1 by (simp add: MODSIZE_def Let_def m1)
next
  case False
  define d where "d = push_bit 32 (ucast (x ! (k + 1)) :: u64) + ucast (x ! k)"
  have v1': "0 < uint (y ! 63)" using v1 by (simp add: word_gt_0 flip: word_less_def [of 0, simplified])
  have ltop: "uint (x ! (k + 1)) \<le> uint (y ! 63) - 1"
    using top False by (simp add: word_uint_eq_iff)
  then have "uint (x ! (k + 1)) * BASE \<le> (uint (y ! 63) - 1) * BASE"
    by (intro mult_right_mono) simp_all
  then have U: "0 \<le> U" "U < uint (y ! 63) * BASE"
    using uint_bounds [of "x ! k"] by (simp_all add: U_def algebra_simps)
  have d: "uint d = U"
    unfolding d_def U_def by (rule uint_shift_add)
  have "U div uint (y ! 63) * uint (y ! 63) \<le> U"
    using v1' by (simp add: div_mult_le_int)
  with U have "U div uint (y ! 63) * uint (y ! 63) < BASE * uint (y ! 63)"
    by (simp add: mult.commute)
  then have quot: "U div uint (y ! 63) < BASE"
    by (rule mult_right_less_imp_less) simp
  have "0 \<le> U div uint (y ! 63)"
    using U v1' by (simp add: pos_imp_zdiv_nonneg_iff)
  note quot = quot this
  define g where "g = lo32 (d div ucast (y ! 63))"
  have g: "uint g = U div uint (y ! 63)"
    using quot by (simp add: g_def uint_lo32 uint_div_distrib d uint_u64_small)
  define ra where "ra = lo32 (d - ucast g * ucast (y ! 63))"
  have mod: "U - uint g * uint (y ! 63) = U mod uint (y ! 63)"
    unfolding g by (simp add: minus_div_mult_eq_mod)
  then have rem: "0 \<le> U - uint g * uint (y ! 63)" "U - uint g * uint (y ! 63) < BASE"
    using v1' uint_bounds [of "y ! 63"] pos_mod_bound [of "uint (y ! 63)" U] by (simp_all del: pos_mod_bound)
  then have "uint (d - ucast g * ucast (y ! 63)) = U - uint g * uint (y ! 63)"
    by (simp add: uint_sub_if' d uint_mul)
  with rem have ra: "uint ra = U - uint g * uint (y ! 63)"
    by (simp add: ra_def uint_lo32)
  have "q \<le> uint g"
    unfolding g using zdiv_mono1 [OF q(3) v1'] v1' by simp
  moreover have "guess_digit x y k = Some (refine_guess (y ! 63) (y ! 62) (x ! (k - 1)) g ra 0)"
    using False v1 by (simp add: guess_digit_def MODSIZE_def Let_def d_def g_def ra_def)
  ultimately show ?thesis
    using ra q refine_guess_spec [of q g "y ! 63" "y ! 62" U "x ! (k - 1)" 0 ra] by simp
qed

section \<open>Partial subtraction and compensation\<close>

lemma sub_borrow:
  assumes "d = (ucast (g :: u32) :: u64) * ucast (yi :: u32) + ucast (b :: u32)"
    and "b' = (if x < lo32 d then hi32 d + 1 else hi32 d)"
  shows "uint (x - lo32 d) - BASE * uint b' = uint x - (uint g * uint yi + uint b)"
proof -
  have d: "uint (lo32 d) + BASE * uint (hi32 d) = uint g * uint yi + uint b"
    unfolding lo_hi assms(1) by (rule uint_mul_add1)
  have "uint g * uint yi \<le> (BASE - 1) * (BASE - 1)"
    by (intro mult_mono uint_bounds) (simp_all add: BASE_def)
  then have "uint (lo32 d) + BASE * uint (hi32 d) \<le> BASE * (BASE - 1)"
    unfolding d using uint_bounds [of b] by (simp add: algebra_simps)
  then have "uint (hi32 d) + 1 < BASE" if "0 < uint (lo32 d)"
    using that by (simp add: BASE_def)
  moreover have "0 < uint (lo32 d)" if "x < lo32 d"
    using that uint_bounds(1) [of x] unfolding word_less_def by linarith
  ultimately have "uint (hi32 d + 1) = uint (hi32 d) + 1" if "x < lo32 d"
    using that by (simp add: uint_add_wrap)
  then show ?thesis
    using d uint_bounds [of x] assms(2)
    by (auto simp: uint_sub_wrap word_less_def algebra_simps split: if_splits)
qed

lemma sub_row:
  assumes "length x = 129" "length y = 64" "m \<le> 64"
    and run: "for_loop 0 64 (sub_digit g y m) (x, 0) = (x', b)"
  shows "length x' = 129" "\<forall>p. p < m \<or> m + 64 \<le> p \<longrightarrow> x' ! p = x ! p"
    "ival x' - uint b * BASE ^ (m + 64) = ival x - uint g * ival y * BASE ^ m"
proof -
  let ?P = "\<lambda>i (x', b :: u32). length x' = 129 \<and> (\<forall>p. p < m \<or> m + 64 \<le> p \<longrightarrow> x' ! p = x ! p) \<and>
     ival x' - uint b * BASE ^ (m + i) = ival x - uint g * ival (take i y) * BASE ^ m"
  have "?P 64 (for_loop 0 64 (sub_digit g y m) (x, 0))"
  proof (rule for_loop_inv [where P = ?P])
    fix i t
    assume i: "i < 64" and P: "?P i t"
    obtain x1 b1 where t: "t = (x1, b1)" by (cases t)
    define d where "d = (ucast g :: u64) * ucast (y ! i) + ucast b1"
    define b2 where "b2 = (if x1 ! (m + i) < lo32 d then hi32 d + 1 else hi32 d)"
    have d: "uint (x1 ! (m + i) - lo32 d) - BASE * uint b2 =
        uint (x1 ! (m + i)) - (uint g * uint (y ! i) + uint b1)"
      by (rule sub_borrow [OF d_def b2_def])
    have len: "m + i < length x1" using P t i assms by simp
    have "ival (x1[m + i := x1 ! (m + i) - lo32 d]) - uint b2 * BASE ^ (m + Suc i) =
        ival x1 + (uint (x1 ! (m + i) - lo32 d) - BASE * uint b2 - uint (x1 ! (m + i))) * BASE ^ (m + i)"
      unfolding ival_update [OF len] by (simp add: algebra_simps)
    also have "\<dots> = (ival x1 - uint b1 * BASE ^ (m + i)) - uint g * uint (y ! i) * BASE ^ (m + i)"
      unfolding d by (simp add: algebra_simps)
    also have "\<dots> = ival x - uint g * ival (take (Suc i) y) * BASE ^ m"
      using P t i assms by (simp add: ival_take_Suc algebra_simps power_add)
    finally have "ival (x1[m + i := x1 ! (m + i) - lo32 d]) - uint b2 * BASE ^ (m + Suc i) =
      ival x - uint g * ival (take (Suc i) y) * BASE ^ m" .
    moreover have "sub_digit g y m i t = (x1[m + i := x1 ! (m + i) - lo32 d], b2)"
      by (simp add: sub_digit_def d_def b2_def t Let_def)
    ultimately show "?P (Suc i) (sub_digit g y m i t)"
      using P t i by simp
  qed (simp_all add: assms)
  then show "length x' = 129" "\<forall>p. p < m \<or> m + 64 \<le> p \<longrightarrow> x' ! p = x ! p"
    "ival x' - uint b * BASE ^ (m + 64) = ival x - uint g * ival y * BASE ^ m"
    using assms by simp_all
qed

lemma uint_above: "- 1 < uint (w :: u32)"
  using uint_bounds(1) [of w] by linarith

lemma add_carry:
  assumes "uint (c :: u32) \<le> 1" "psum = x + y + c"
    and "c' = (if psum < y then 1 else if psum > y then 0 else c)"
  shows "uint psum + BASE * uint c' = uint x + uint y + uint c \<and> uint c' \<le> 1"
proof -
  have c: "uint c = 0 \<or> uint c = 1" using assms(1) uint_bounds [of c] by linarith
  have "uint psum = (if uint x + uint y + uint c < BASE then uint x + uint y + uint c
      else uint x + uint y + uint c - BASE)"
    using c uint_bounds [of x] uint_bounds [of y] unfolding assms(2)
    by (auto simp: uint_add_wrap)
  then show ?thesis
    using c uint_bounds [of x] uint_bounds [of y] uint_above [of x] unfolding assms(3)
    by (auto simp: word_less_def split: if_splits)
qed

lemma add_row:
  assumes "length x = 129" "length y = 64" "m \<le> 64"
    and run: "for_loop 0 64 (add_digit y m) (x, 0) = (x', c)"
  shows "length x' = 129" "\<forall>p. p < m \<or> m + 64 \<le> p \<longrightarrow> x' ! p = x ! p" "uint c \<le> 1"
    "ival x' + uint c * BASE ^ (m + 64) = ival x + ival y * BASE ^ m"
proof -
  let ?P = "\<lambda>i (x', c :: u32). length x' = 129 \<and> (\<forall>p. p < m \<or> m + 64 \<le> p \<longrightarrow> x' ! p = x ! p) \<and>
     uint c \<le> 1 \<and> ival x' + uint c * BASE ^ (m + i) = ival x + ival (take i y) * BASE ^ m"
  have "?P 64 (for_loop 0 64 (add_digit y m) (x, 0))"
  proof (rule for_loop_inv [where P = ?P])
    fix i t
    assume i: "i < 64" and P: "?P i t"
    obtain x1 c1 where t: "t = (x1, c1)" by (cases t)
    define s where "s = x1 ! (m + i) + y ! i + c1"
    define c2 where "c2 = (if s < y ! i then 1 else if s > y ! i then 0 else c1)"
    have c1: "uint c1 \<le> 1" using P t by simp
    have s: "uint s + BASE * uint c2 = uint (x1 ! (m + i)) + uint (y ! i) + uint c1" and c2: "uint c2 \<le> 1"
      using add_carry [OF c1 s_def c2_def] by simp_all
    have len: "m + i < length x1" using P t i assms by simp
    have "ival (x1[m + i := s]) + uint c2 * BASE ^ (m + Suc i) =
        ival x1 + (uint s + BASE * uint c2 - uint (x1 ! (m + i))) * BASE ^ (m + i)"
      unfolding ival_update [OF len] by (simp add: algebra_simps)
    also have "\<dots> = (ival x1 + uint c1 * BASE ^ (m + i)) + uint (y ! i) * BASE ^ (m + i)"
      unfolding s by (simp add: algebra_simps)
    also have "\<dots> = ival x + ival (take (Suc i) y) * BASE ^ m"
      using P t i assms by (simp add: ival_take_Suc algebra_simps power_add)
    finally have "ival (x1[m + i := s]) + uint c2 * BASE ^ (m + Suc i) =
      ival x + ival (take (Suc i) y) * BASE ^ m" .
    moreover have "add_digit y m i t = (x1[m + i := s], c2)"
      by (auto simp: add_digit_def s_def c2_def t Let_def)
    ultimately show "?P (Suc i) (add_digit y m i t)"
      using P t i c2 by simp
  qed (simp_all add: assms)
  then show "length x' = 129" "\<forall>p. p < m \<or> m + 64 \<le> p \<longrightarrow> x' ! p = x ! p" "uint c \<le> 1"
    "ival x' + uint c * BASE ^ (m + 64) = ival x + ival y * BASE ^ m"
    using assms by simp_all
qed

section \<open>Long division\<close>

lemma ival_take_drop_1:
  "m < length x \<Longrightarrow> ival (drop m x) = uint (x ! m) + BASE * ival (drop (Suc m) x)"
  by (simp add: Cons_nth_drop_Suc [symmetric])

text \<open>The leading two limbs of the modulus and three of the remainder bound the true digit.\<close>

lemma top_limbs:
  assumes "length ws = n + 2"
  shows "ival ws = (uint (ws ! (n + 1)) * BASE + uint (ws ! n)) * BASE ^ n + ival (take n ws)"
  using assms ival_take_Suc [of n ws] ival_take_Suc [of "n + 1" ws]
  by (simp add: algebra_simps)

text \<open>
  The window of the running remainder above position \<open>m\<close>: 65 significant limbs, since everything
  from limb \<open>m + 1\<close> up is less than the modulus.
\<close>

lemma window_limbs:
  assumes "length x = 129" "m \<le> 64" "ival (drop (Suc m) x) < BASE ^ 64"
  shows "ival (drop m x) = (uint (x ! (m + 64)) * BASE + uint (x ! (m + 63))) * BASE ^ 63 + ival (take 63 (drop m x))"
    and "ival (take 63 (drop m x)) = uint (x ! (m + 62)) * BASE ^ 62 + ival (take 62 (drop m x))"
proof -
  have "ival (drop m x) = uint (x ! m) + BASE * ival (drop (Suc m) x)"
    using assms by (simp add: ival_take_drop_1)
  also have "\<dots> < BASE ^ 65"
  proof -
    have "BASE * (ival (drop (Suc m) x) + 1) \<le> BASE * BASE ^ 64"
      using assms(3) by (intro mult_left_mono) simp_all
    moreover have "BASE * BASE ^ 64 = BASE ^ 65" by (simp flip: power_Suc)
    ultimately show ?thesis
      using uint_bounds [of "x ! m"] unfolding distrib_left mult_1_right by linarith
  qed
  finally have "ival (take 65 (drop m x)) = ival (drop m x)"
    using assms by (intro ival_take_small) simp_all
  moreover have "length (take 65 (drop m x)) = 63 + 2" using assms by auto
  then have "ival (take 65 (drop m x)) =
      (uint (x ! (m + 64)) * BASE + uint (x ! (m + 63))) * BASE ^ 63 + ival (take 63 (drop m x))"
    using top_limbs [of "take 65 (drop m x)" 63] assms by simp
  ultimately show "ival (drop m x) =
      (uint (x ! (m + 64)) * BASE + uint (x ! (m + 63))) * BASE ^ 63 + ival (take 63 (drop m x))"
    by simp
  show "ival (take 63 (drop m x)) = uint (x ! (m + 62)) * BASE ^ 62 + ival (take 62 (drop m x))"
    using ival_take_Suc [of 62 "drop m x"] assms by simp
qed

lemma quotient_bounds:
  fixes V Y U v1 v0 u0 yl vl q :: int
  assumes Y: "Y = (v1 * BASE + v0) * BASE ^ 62 + yl" and V: "V = (U * BASE + u0) * BASE ^ 62 + vl"
    and r: "0 \<le> yl" "0 \<le> vl" "vl < BASE ^ 62" "0 \<le> v0" "0 \<le> u0" "u0 < BASE" "0 \<le> q" "q * Y \<le> V"
  shows "q * v1 \<le> U" "q * (v1 * BASE + v0) \<le> U * BASE + u0"
proof -
  let ?R = "BASE ^ 62"
  have R: "0 < ?R" by simp
  have "q * (v1 * BASE + v0) * ?R \<le> q * Y"
    unfolding Y using r by (simp add: algebra_simps)
  also have "\<dots> < (U * BASE + u0 + 1) * ?R"
    using r V by (simp add: algebra_simps)
  finally have "q * (v1 * BASE + v0) < U * BASE + u0 + 1"
    by (rule mult_right_less_imp_less) simp
  then show *: "q * (v1 * BASE + v0) \<le> U * BASE + u0" by simp
  have "q * v1 * BASE \<le> q * (v1 * BASE + v0)"
    using r by (simp add: algebra_simps)
  also have "\<dots> < (U + 1) * BASE" using * r by (simp add: algebra_simps)
  finally have "q * v1 < U + 1"
    by (rule mult_right_less_imp_less) simp
  then show "q * v1 \<le> U" by simp
qed

lemma guess_at_most_one_over:
  fixes V Y U v1 v0 u0 yl vl g :: int
  assumes Y: "Y = (v1 * BASE + v0) * BASE ^ 62 + yl" and V: "V = (U * BASE + u0) * BASE ^ 62 + vl"
    and r: "0 \<le> yl" "yl < BASE ^ 62" "0 \<le> vl" "0 \<le> v0" "1 \<le> v1" "0 \<le> g" "g < BASE"
    and g: "g * (v1 * BASE + v0) \<le> U * BASE + u0"
  shows "g * Y < V + Y"
proof -
  have "g * yl \<le> g * BASE ^ 62" using r by (intro mult_left_mono) simp_all
  also have "\<dots> < BASE * BASE ^ 62" using r by (intro mult_strict_right_mono) simp_all
  also have "\<dots> \<le> v1 * (BASE * BASE ^ 62)" using r mult_right_mono [of 1 v1 "BASE * BASE ^ 62"] by simp
  also have "\<dots> \<le> Y" unfolding Y using r by (simp add: algebra_simps)
  finally have "g * yl < Y" .
  moreover have "g * (v1 * BASE + v0) * BASE ^ 62 \<le> (U * BASE + u0) * BASE ^ 62"
    using g by (rule mult_right_mono) simp
  then have "g * (v1 * BASE + v0) * BASE ^ 62 \<le> V" unfolding V using r by linarith
  moreover have "g * Y = g * (v1 * BASE + v0) * BASE ^ 62 + g * yl"
    unfolding Y by (simp add: algebra_simps)
  ultimately show ?thesis by linarith
qed

lemma window_guess:
  assumes len: "length x = 129" "length y = 64" and m: "m \<le> 64" and y: "y ! 63 \<noteq> 0"
    and lt: "ival (drop (Suc m) x) < ival y"
  shows "\<exists>g. guess_digit x y (m + 63) = Some g \<and> ival (drop m x) div ival y \<le> uint g \<and>
     uint g * ival y < ival (drop m x) + ival y"
proof -
  let ?V = "ival (drop m x)" and ?Y = "ival y"
  let ?U = "uint (x ! (m + 64)) * BASE + uint (x ! (m + 63))"
  let ?q = "?V div ?Y"
  have "0 \<noteq> uint (y ! 63)" using y by (metis uint_0_iff)
  then have v1: "1 \<le> uint (y ! 63)" using uint_bounds(1) [of "y ! 63"] by linarith
  have Y: "?Y = (uint (y ! 63) * BASE + uint (y ! 62)) * BASE ^ 62 + ival (take 62 y)"
    using top_limbs [of y 62] len by simp
  have yl: "0 \<le> ival (take 62 y)" "ival (take 62 y) < BASE ^ 62"
    using ival_less [of "take 62 y"] len by simp_all
  have ylt: "?Y < BASE ^ 64" using ival_less [of y] len by simp
  note win = window_limbs [OF len(1) m order_less_trans [OF lt ylt]]
  have V: "?V = (?U * BASE + uint (x ! (m + 62))) * BASE ^ 62 + ival (take 62 (drop m x))"
    unfolding win using power_Suc [of BASE 62] by (simp add: algebra_simps)
  have vl: "0 \<le> ival (take 62 (drop m x))" "ival (take 62 (drop m x)) < BASE ^ 62"
    using ival_less [of "take 62 (drop m x)"] len m by simp_all
  have Ypos: "0 < ?Y" using lt ival_nonneg [of "drop (Suc m) x"] by linarith
  then have q: "0 \<le> ?q" "?q * ?Y \<le> ?V"
    by (simp_all add: pos_imp_zdiv_nonneg_iff div_mult_le_int)
  have "BASE * (ival (drop (Suc m) x) + 1) \<le> BASE * ?Y"
    using lt by (intro mult_left_mono) simp_all
  then have VY: "?V < BASE * ?Y"
    using ival_take_drop_1 [of m x] uint_bounds [of "x ! m"] len m
    unfolding distrib_left mult_1_right by linarith
  then have "?q * ?Y < BASE * ?Y" using q by linarith
  then have qB: "?q \<le> BASE - 1" using Ypos by (simp add: mult_less_cancel_right)
  have "uint (x ! (m + 64)) * BASE ^ 64 \<le> ?V"
    unfolding win using power_Suc [of BASE 63] uint_bounds(1) [of "x ! (m + 63)"] ival_nonneg [of "take 63 (drop m x)"]
    by (simp add: algebra_simps win)
  also have "\<dots> < BASE * ?Y" by (rule VY)
  also have "\<dots> < (uint (y ! 63) + 1) * BASE ^ 64"
  proof -
    have "?Y = ival (take 63 y) + uint (y ! 63) * BASE ^ 63"
      using ival_take_Suc [of 63 y] len by simp
    moreover have "ival (take 63 y) < BASE ^ 63"
      using ival_less [of "take 63 y"] len by simp
    ultimately have "?Y < (uint (y ! 63) + 1) * BASE ^ 63"
      unfolding distrib_right mult_1 by linarith
    then have "BASE * ?Y < BASE * ((uint (y ! 63) + 1) * BASE ^ 63)"
      by (rule mult_strict_left_mono) simp
    moreover have "BASE * (c * BASE ^ 63) = c * BASE ^ 64" for c
      using power_Suc [of BASE 63] by (simp add: mult.left_commute)
    ultimately show ?thesis by simp
  qed
  finally have "uint (x ! (m + 64)) < uint (y ! 63) + 1"
    by (rule mult_right_less_imp_less) simp
  moreover have idx: "m + 63 + 1 = m + 64" "m + 63 - 1 = m + 62" by simp_all
  ultimately have top: "uint (x ! (m + 63 + 1)) \<le> uint (y ! 63)" by (simp only: zle_add1_eq_le)
  note qb = quotient_bounds [OF Y V yl(1) vl uint_bounds(1) uint_bounds(1) uint_bounds(2) q]
  have "\<exists>g. guess_digit x y (m + 63) = Some g \<and> ?q \<le> uint g \<and>
      uint g * (uint (y ! 63) * BASE + uint (y ! 62)) \<le> ?U * BASE + uint (x ! (m + 62))"
    using guess_digit_spec [OF y top q(1) qB] qb unfolding idx by blast
  then obtain g where g: "guess_digit x y (m + 63) = Some g" "?q \<le> uint g"
    "uint g * (uint (y ! 63) * BASE + uint (y ! 62)) \<le> ?U * BASE + uint (x ! (m + 62))" by blast
  from guess_at_most_one_over [OF Y V yl vl(1) uint_bounds(1) v1 uint_bounds(1,2) g(3)]
  show ?thesis using g by blast
qed

lemma ival_drop_change:
  assumes "ival x' = ival x + d * BASE ^ m"
    and "length x' = length x" "m \<le> length x" "\<forall>p. p < m \<longrightarrow> x' ! p = x ! p"
  shows "take m x' = take m x" "ival (drop m x') = ival (drop m x) + d"
proof -
  show take: "take m x' = take m x"
    using assms by (intro nth_equalityI) simp_all
  have "BASE ^ m * ival (drop m x') = BASE ^ m * (ival (drop m x) + d)"
    using ival_split [of m x] ival_split [of m x'] assms take by (simp add: algebra_simps)
  then show "ival (drop m x') = ival (drop m x) + d" by simp
qed

lemma high_limbs:
  assumes "length x = 129" "m \<le> 64"
  shows "ival (drop m x) = ival (take 64 (drop m x)) + BASE ^ 64 * ival (drop (m + 64) x)"
  using ival_split [of 64 "drop m x"] assms by (simp add: add.commute)

lemma high_limbs_single:
  assumes "length x = 129" "m \<le> 64" "ival (drop (Suc m) x) < BASE ^ 64"
  shows "ival (drop (m + 64) x) = uint (x ! (m + 64))"
proof -
  have "ival (drop (m + 64) x) = uint (x ! (m + 64)) + BASE * ival (drop (Suc (m + 64)) x)"
    using assms by (simp add: ival_take_drop_1)
  moreover have "ival (drop 64 (drop (Suc m) x)) = 0"
    using assms by (intro ival_zero_above) simp_all
  ultimately show ?thesis by (simp add: add.commute)
qed

lemma remainder_unique:
  assumes "0 \<le> V - g * Y" "V - g * Y < (Y :: int)"
  shows "V - g * Y = V mod Y"
proof -
  have "V mod Y = (V - g * Y) mod Y" using mod_mult_self1 [of "V - g * Y" g Y] by simp
  with assms show ?thesis by simp
qed

lemma remainder_upper:
  assumes "V div Y \<le> g" "0 < (Y :: int)"
  shows "V - g * Y < Y"
proof -
  have "V < (V div Y + 1) * Y"
    using div_mult_mod_eq [of V Y] pos_mod_bound [OF assms(2), of V] unfolding distrib_right mult_1 by linarith
  also have "\<dots> \<le> (g + 1) * Y" using assms by (intro mult_right_mono) simp_all
  finally show ?thesis unfolding distrib_right mult_1 by linarith
qed

text \<open>The running remainder after the partial subtraction, before its top limb is corrected.\<close>

lemma partial_subtraction:
  assumes len: "length x = 129" "length y = 64" and m: "m \<le> 64"
    and lt: "ival (drop (Suc m) x) < BASE ^ 64"
    and run: "for_loop 0 64 (sub_digit g y m) (x, 0) = (x1, b)"
  shows "length x1 = 129" "\<forall>p < m. x1 ! p = x ! p" "x1 ! (m + 64) = x ! (m + 64)"
    "ival x1 = ival x + (uint b * BASE ^ 64 - uint g * ival y) * BASE ^ m"
    "ival (drop m x1) = ival (take 64 (drop m x1)) + BASE ^ 64 * uint (x ! (m + 64))"
    "ival (drop m x) - uint g * ival y =
       ival (take 64 (drop m x1)) + (uint (x ! (m + 64)) - uint b) * BASE ^ 64"
proof -
  note s = sub_row [OF len m run]
  show l: "length x1 = 129" "x1 ! (m + 64) = x ! (m + 64)" and keep: "\<forall>p < m. x1 ! p = x ! p"
    using s(1,2) by simp_all
  show val1: "ival x1 = ival x + (uint b * BASE ^ 64 - uint g * ival y) * BASE ^ m"
    using s(3) by (simp add: algebra_simps power_add)
  have "drop (m + 64) x1 = drop (m + 64) x"
    using s(1,2) len by (intro nth_equalityI) simp_all
  then show dV: "ival (drop m x1) = ival (take 64 (drop m x1)) + BASE ^ 64 * uint (x ! (m + 64))"
    using high_limbs [OF l(1) m] high_limbs_single [OF len(1) m lt] by simp
  have "ival (drop m x1) = ival (drop m x) + (uint b * BASE ^ 64 - uint g * ival y)"
    using l(1) len m keep by (intro ival_drop_change(2) [OF val1]) simp_all
  with dV show "ival (drop m x) - uint g * ival y =
       ival (take 64 (drop m x1)) + (uint (x ! (m + 64)) - uint b) * BASE ^ 64"
    by (simp add: algebra_simps)
qed

text \<open>The guess was right: the borrow comes off the top limb.\<close>

lemma subtract_exact:
  assumes len: "length x = 129" "length y = 64" and m: "m \<le> 64"
    and lt: "ival (drop (Suc m) x) < BASE ^ 64"
    and run: "for_loop 0 64 (sub_digit g y m) (x, 0) = (x1, b)"
    and upper: "ival (drop m x) - uint g * ival y < ival y" and ok: "\<not> x1 ! (m + 64) < b"
  shows "take m (x1[m + 64 := x1 ! (m + 64) - b]) = take m x \<and>
      ival (drop m (x1[m + 64 := x1 ! (m + 64) - b])) = ival (drop m x) mod ival y"
proof -
  let ?x' = "x1[m + 64 := x1 ! (m + 64) - b]"
  note s = partial_subtraction [OF len m lt run]
  have ub: "uint b \<le> uint (x ! (m + 64))" using ok unfolding s(3) by (simp add: word_less_def)
  have "ival ?x' = ival x1 - uint b * BASE ^ (m + 64)"
    using ub s(1,3) m by (simp add: ival_update uint_sub_wrap algebra_simps)
  then have e: "ival ?x' = ival x + (- uint g * ival y) * BASE ^ m"
    unfolding s(4) by (simp add: algebra_simps power_add)
  have "take m ?x' = take m x" "ival (drop m ?x') = ival (drop m x) - uint g * ival y"
    using ival_drop_change [OF e] s(1,2) len m by simp_all
  moreover have "0 \<le> (uint (x ! (m + 64)) - uint b) * BASE ^ 64" using ub by simp
  then have "0 \<le> ival (drop m x) - uint g * ival y" unfolding s(6) by simp
  ultimately show ?thesis
    using remainder_unique [OF _ upper] by simp
qed

text \<open>The guess was one too big: the top limb is cleared and the modulus added back.\<close>

lemma cleared_top:
  assumes len: "length x = 129" "length y = 64" and m: "m \<le> 64"
    and lt: "ival (drop (Suc m) x) < BASE ^ 64" and ylt: "ival y < BASE ^ 64"
    and run: "for_loop 0 64 (sub_digit g y m) (x, 0) = (x1, b)"
    and lower: "uint g * ival y < ival (drop m x) + ival y" and over: "x1 ! (m + 64) < b"
  shows "take m (x1[m + 64 := 0]) = take m x"
    "ival (drop m (x1[m + 64 := 0])) = ival (drop m x) - uint g * ival y + BASE ^ 64"
    "ival (drop m x) - uint g * ival y < 0"
proof -
  let ?x' = "x1[m + 64 := 0]"
  let ?L = "ival (take 64 (drop m x1))"
  note s = partial_subtraction [OF len m lt run]
  have L: "0 \<le> ?L" "?L < BASE ^ 64"
    using ival_less [of "take 64 (drop m x1)"] s(1) m by simp_all
  have neg: "uint (x ! (m + 64)) - uint b \<le> -1" using over unfolding s(3) by (simp add: word_less_def)
  have "uint (x ! (m + 64)) - uint b = -1"
  proof (rule ccontr)
    assume "uint (x ! (m + 64)) - uint b \<noteq> -1"
    then have "(uint (x ! (m + 64)) - uint b) * BASE ^ 64 \<le> (-2) * BASE ^ 64"
      using neg by (intro mult_right_mono) simp_all
    then show False using s(6) L ylt lower by linarith
  qed
  with s(6) have LV: "?L = ival (drop m x) - uint g * ival y + BASE ^ 64" by simp
  with L show "ival (drop m x) - uint g * ival y < 0" by linarith
  have e: "ival ?x' = ival x1 + (- uint (x ! (m + 64)) * BASE ^ 64) * BASE ^ m"
    using s(1,3) m by (simp add: ival_update algebra_simps power_add)
  have "take m ?x' = take m x1"
    "ival (drop m ?x') = ival (drop m x1) + - uint (x ! (m + 64)) * BASE ^ 64"
    using s(1) m by (intro ival_drop_change [OF e]; simp)+
  moreover have "take m x1 = take m x"
    using ival_drop_change(1) [OF s(4)] s(1,2) len m by simp
  ultimately show "take m ?x' = take m x"
    "ival (drop m ?x') = ival (drop m x) - uint g * ival y + BASE ^ 64"
    using s(5) LV by (simp_all add: algebra_simps)
qed

lemma add_back:
  assumes len: "length x' = 129" "length y = 64" and m: "m \<le> 64" and ylt: "ival y < BASE ^ 64"
    and V: "ival (drop m x') = V - g * ival y + BASE ^ 64" "V - g * ival y < 0" "g * ival y < V + ival y"
    and add: "for_loop 0 64 (add_digit y m) (x', 0) = (x2, c)"
  shows "length x2 = 129" "take m x2 = take m x'" "ival (drop m x2) = V mod ival y"
proof -
  note a = add_row [OF len m add]
  show "length x2 = 129" by (rule a)
  have e: "ival x2 = ival x' + (ival y - uint c * BASE ^ 64) * BASE ^ m"
    using a(4) by (simp add: algebra_simps power_add)
  have x2: "take m x2 = take m x'" "ival (drop m x2) = ival (drop m x') + (ival y - uint c * BASE ^ 64)"
    using ival_drop_change [OF e] a(1,2) len m by simp_all
  then show "take m x2 = take m x'" by simp
  have "drop (m + 64) x2 = drop (m + 64) x'"
    using a(1,2) len by (intro nth_equalityI) simp_all
  moreover have "ival (drop 64 (drop m x')) = 0"
    using V len m by (intro ival_zero_above) simp_all
  ultimately have "ival (drop m x2) = ival (take 64 (drop m x2))"
    using high_limbs [OF a(1) m] by (simp add: add.commute)
  then have "ival (drop m x2) < BASE ^ 64"
    using ival_less [of "take 64 (drop m x2)"] a(1) m by simp
  then have "uint c \<noteq> 0" using x2 V by (intro notI) simp
  then have "uint c = 1" using a(3) uint_bounds(1) [of c] by linarith
  then have "ival (drop m x2) = V - (g - 1) * ival y" using x2 V by (simp add: algebra_simps)
  moreover have "V - (g - 1) * ival y < ival y" "0 \<le> V - (g - 1) * ival y"
    using V by (simp_all add: algebra_simps)
  ultimately show "ival (drop m x2) = V mod ival y"
    using remainder_unique by simp
qed

lemma divide_step_unfold:
  assumes "guess_digit x y (m + 63) = Some g"
    and "for_loop 0 64 (sub_digit g y m) (x, 0) = (x1, b)"
    and "for_loop 0 64 (add_digit y m) (x1[m + 64 := 0], 0) = (x2, c)"
  shows "\<exists>w'. divide_step y (m + 63) (x, w) =
    Some (if g = 0 then x else if x1 ! (m + 64) < b then x2 else x1[m + 64 := x1 ! (m + 64) - b], w')"
proof -
  have idx: "m + 63 + 1 = m + 64" "m + 64 - 64 = m" by simp_all
  show ?thesis
    unfolding divide_step_def MODSIZE_def Let_def prod.case idx assms(1) option.case unfolding idx assms prod.case
    by (cases "g = 0"; cases "x1 ! (m + 64) < b") (auto simp: word_gt_0)
qed

lemma ival_top_limb:
  assumes "length y = 64" "y ! 63 \<noteq> 0"
  shows "BASE ^ 63 \<le> ival y" "0 < ival y"
proof -
  have "0 \<noteq> uint (y ! 63)" using assms(2) by (metis uint_0_iff)
  then have "1 \<le> uint (y ! 63)" using uint_bounds(1) [of "y ! 63"] by linarith
  then have "1 * BASE ^ 63 \<le> uint (y ! 63) * BASE ^ 63" by (rule mult_right_mono) simp
  moreover have "ival y = ival (take 63 y) + uint (y ! 63) * BASE ^ 63"
    using ival_take_Suc [of 63 y] assms(1) by simp
  ultimately show "BASE ^ 63 \<le> ival y"
    using ival_nonneg [of "take 63 y"] by linarith
  moreover have "0 < BASE ^ 63" by simp
  ultimately show "0 < ival y" by linarith
qed

lemma divide_step_correct:
  assumes len: "length x = 129" "length y = 64" and m: "m \<le> 64" and y: "y ! 63 \<noteq> 0"
    and lt: "ival (drop (Suc m) x) < ival y"
  shows "\<exists>x' w'. divide_step y (m + 63) (x, w) = Some (x', w') \<and> length x' = 129 \<and>
    take m x' = take m x \<and> ival (drop m x') = ival (drop m x) mod ival y"
proof -
  have ylt: "ival y < BASE ^ 64" using ival_less [of y] len by simp
  have Ypos: "0 < ival y" using lt ival_nonneg [of "drop (Suc m) x"] by linarith
  have lt': "ival (drop (Suc m) x) < BASE ^ 64" using lt ylt by linarith
  obtain g where g: "guess_digit x y (m + 63) = Some g" "ival (drop m x) div ival y \<le> uint g"
    "uint g * ival y < ival (drop m x) + ival y"
    using window_guess [OF len m y lt] by blast
  note upper = remainder_upper [OF g(2) Ypos]
  obtain x1 b where run: "for_loop 0 64 (sub_digit g y m) (x, 0) = (x1, b)" by fastforce
  obtain x2 c where add: "for_loop 0 64 (add_digit y m) (x1[m + 64 := 0], 0) = (x2, c)" by fastforce
  have len1: "length x1 = 129" by (rule partial_subtraction [OF len m lt' run])
  obtain w' where step: "divide_step y (m + 63) (x, w) =
      Some (if g = 0 then x else if x1 ! (m + 64) < b then x2 else x1[m + 64 := x1 ! (m + 64) - b], w')"
    using divide_step_unfold [OF g(1) run add] by blast
  consider "g = 0" | "g \<noteq> 0" "x1 ! (m + 64) < b" | "g \<noteq> 0" "\<not> x1 ! (m + 64) < b" by blast
  then show ?thesis
  proof cases
    case 1
    then have "ival (drop m x) mod ival y = ival (drop m x)"
      using upper by simp
    with 1 show ?thesis
      by (simp add: step len)
  next
    case 2
    note c = cleared_top [OF len m lt' ylt run g(3) 2(2)]
    have "length x2 = 129" "take m x2 = take m (x1[m + 64 := 0])" "ival (drop m x2) = ival (drop m x) mod ival y"
      by (rule add_back [OF _ len(2) m ylt c(2,3) g(3) add]; simp add: len1)+
    with 2 c(1) show ?thesis
      by (simp add: step)
  next
    case 3
    with subtract_exact [OF len m lt' run upper 3(2)] show ?thesis
      by (simp add: step len1)
  qed
qed

lemma mod_add_scaled: "(a + b * (c mod n)) mod n = (a + b * c) mod (n :: int)"
  by (metis mod_add_right_eq mod_mult_right_eq)

lemma tr_divide_correct:
  assumes len: "length x = 129" "length y = 64" and y: "y ! 63 \<noteq> 0"
    and lt: "ival x < BASE ^ 128"
  shows "\<exists>x'. tr_divide x y = Some x' \<and> length x' = 129 \<and> ival x' = ival x mod ival y"
proof -
  let ?body = "\<lambda>k st. Option.bind st (divide_step y k)"
  let ?P = "\<lambda>k st. \<exists>x' (w' :: nat). st = Some (x', w') \<and> length x' = 129 \<and>
     ival (drop (k - 63) x') < ival y \<and> ival x' mod ival y = ival x mod ival y"
  have "ival (drop 65 x) < BASE ^ 63"
  proof -
    have "BASE ^ 65 * ival (drop 65 x) \<le> ival x"
      using ival_split [of 65 x] ival_nonneg [of "take 65 x"] len by simp
    also have "ival x < BASE ^ 65 * BASE ^ 63" using lt by (simp flip: power_add)
    finally show ?thesis by (rule mult_left_less_imp_less) simp
  qed
  then have top: "ival (drop 65 x) < ival y" using ival_top_limb(1) [OF len(2) y] by linarith
  have "?P 63 (for_down 127 63 ?body (Some (x, 128)))"
  proof (rule for_down_inv [where P = ?P])
    show "?P (Suc 127) (Some (x, 128))"
      using top len by simp
    fix k st
    assume k: "63 \<le> k" "k \<le> 127" and "?P (Suc k) st"
    moreover from k have "Suc k - 63 = Suc (k - 63)" by simp
    ultimately obtain x1 w where st: "st = Some (x1, w)" "length x1 = 129"
      "ival (drop (Suc (k - 63)) x1) < ival y" "ival x1 mod ival y = ival x mod ival y"
      by (auto simp del: Suc_diff_le diff_Suc_numeral)
    have mk: "k - 63 + 63 = k" "k - 63 \<le> 64" using k by simp_all
    obtain x2 w2 where x2: "divide_step y k (x1, w) = Some (x2, w2)" "length x2 = 129"
      "take (k - 63) x2 = take (k - 63) x1" "ival (drop (k - 63) x2) = ival (drop (k - 63) x1) mod ival y"
      using divide_step_correct [OF st(2) len(2) mk(2) y st(3), of w] mk(1) by auto
    have "ival x2 mod ival y = ival x1 mod ival y"
      using ival_split [of "k - 63" x1] ival_split [of "k - 63" x2] st(2) x2 mk(2)
        mod_add_scaled [of _ _ _ "ival y"] by simp
    moreover have "ival (drop (k - 63) x2) < ival y"
      unfolding x2(4) using st(3) ival_nonneg [of "drop (Suc (k - 63)) x1"] by (intro pos_mod_bound) linarith
    ultimately show "?P k (?body k st)"
      using x2 st by simp
  qed simp
  then obtain x' w' where "for_down 127 63 ?body (Some (x, 128)) = Some (x', w')" "length x' = 129"
    "ival x' < ival y" "ival x' mod ival y = ival x mod ival y"
    by auto
  then show ?thesis
    by (simp add: tr_divide_def MODSIZE_def)
qed

lemma tr_copy_take:
  assumes "64 \<le> length x" "length y = 64"
  shows "tr_copy x y = take 64 x"
proof -
  have "length (tr_copy x y) = 64 \<and> (\<forall>p < 64. tr_copy x y ! p = x ! p)"
    unfolding tr_copy_def MODSIZE_def
    by (rule for_loop_inv [where P = "\<lambda>i z. length z = 64 \<and> (\<forall>p < i. z ! p = x ! p)"])
      (auto simp: assms nth_list_update less_Suc_eq)
  then show ?thesis
    using assms by (intro nth_equalityI) simp_all
qed

lemma tr_modmul_spec:
  assumes "length a = 64" "length b = 64" "length m = 64" "length r = 64" "m ! 63 \<noteq> 0"
  shows "\<exists>r'. tr_modmul a b m r = Some r' \<and> length r' = 64 \<and> ival r' = ival a * ival b mod ival m"
proof -
  let ?t = "tr_multiply a b (replicate 129 0)"
  have t: "length ?t = 129" "ival ?t = ival a * ival b"
    using tr_multiply_correct [OF assms(1,2), of "replicate 129 0"] by simp_all
  have "ival a * ival b < BASE ^ 64 * BASE ^ 64"
    using ival_less [of a] ival_less [of b] assms by (intro mult_strict_mono) simp_all
  then have "ival ?t < BASE ^ 128" unfolding t by (simp flip: power_add)
  from tr_divide_correct [OF t(1) assms(3,5) this]
  obtain x where x: "tr_divide ?t m = Some x" "length x = 129" "ival x = ival ?t mod ival m" by blast
  have "0 < ival m" using assms by (simp add: ival_top_limb)
  then have "ival x < BASE ^ 64"
    unfolding x(3) using ival_less [of m, unfolded assms(3)] pos_mod_bound [of "ival m" "ival ?t"] by linarith
  then have "ival (take 64 x) = ival x"
    using x by (intro ival_take_small) simp_all
  moreover have "tr_modmul a b m r = Some (take 64 x)"
    using x assms by (simp add: tr_modmul_def MODSIZE_def tr_copy_take)
  ultimately show ?thesis
    using x t by simp
qed

lemma less_digit:
  assumes "u < v" "0 \<le> y" "x < B" "0 \<le> (B :: int)"
  shows "x + u * B < y + v * B"
proof -
  have "(u + 1) * B \<le> v * B" using assms by (intro mult_right_mono) simp_all
  with assms show ?thesis unfolding distrib_right mult_1 by linarith
qed

lemma tr_compare_from_sgn:
  "i \<le> length x \<Longrightarrow> i \<le> length y \<Longrightarrow> tr_compare_from i x y = sgn (ival (take i x) - ival (take i y))"
proof (induction i)
  case 0
  then show ?case by simp
next
  case (Suc i)
  have bound: "ival (take i x) < BASE ^ i" "ival (take i y) < BASE ^ i"
    using ival_less [of "take i x"] ival_less [of "take i y"] Suc.prems by (simp_all add: min_def)
  have e: "ival (take (Suc i) x) = ival (take i x) + uint (x ! i) * BASE ^ i"
    "ival (take (Suc i) y) = ival (take i y) + uint (y ! i) * BASE ^ i"
    using Suc.prems by (simp_all add: ival_take_Suc)
  consider "x ! i < y ! i" | "y ! i < x ! i" | "x ! i = y ! i" by (metis linorder_less_linear)
  then show ?case
  proof cases
    case 1
    then have "ival (take (Suc i) x) < ival (take (Suc i) y)"
      unfolding e using bound by (intro less_digit) (simp_all add: word_less_def)
    with 1 show ?thesis by simp
  next
    case 2
    then have "ival (take (Suc i) y) < ival (take (Suc i) x)"
      unfolding e using bound by (intro less_digit) (simp_all add: word_less_def)
    with 2 show ?thesis by simp
  next
    case 3
    with Suc show ?thesis by (simp add: e)
  qed
qed

section \<open>Properties\<close>

text \<open>
  C4: \<^verbatim>\<open>tr_modmul\<close> returns for every pair of 2048-bit operands and every modulus whose leading
  limb is not zero, without dividing by zero, and what it leaves in \<^verbatim>\<open>r\<close> is the canonical
  representative of the product: the schoolbook product and the guess-and-correct long division
  (guess from the leading limbs, at most one correction per digit) are exact.
\<close>

theorem tr_modmul_correct:
  assumes "length a = 64" "length b = 64" "length m = 64" "length r = 64" "m ! 63 \<noteq> 0"
  shows "\<exists>r'. tr_modmul a b m r = Some r' \<and> length r' = 64 \<and>
     ival r' = (ival a * ival b) mod ival m \<and> ival r' < ival m"
proof -
  obtain r' where "tr_modmul a b m r = Some r'" "length r' = 64" "ival r' = ival a * ival b mod ival m"
    using tr_modmul_spec [OF assms] by blast
  moreover have "0 < ival m" using assms by (simp add: ival_top_limb)
  ultimately show ?thesis by simp
qed

theorem tr_modmul_correct_witness:
  "\<exists>r'. tr_modmul (replicate 64 7) (replicate 64 9) (replicate 64 5) (replicate 64 0) = Some r' \<and> length r' = 64 \<and>
     ival r' = (ival (replicate 64 7) * ival (replicate 64 9)) mod ival (replicate 64 5) \<and>
     ival r' < ival (replicate 64 5)"
  by (rule tr_modmul_correct) simp_all

end
