(* ===== verification/Rsa.thy ===== *)
theory Rsa
  imports Bignum
begin

text \<open>
  RSA-2048 signature verification of \<^verbatim>\<open>common/vendors/MIRACL/bootrom.c\<close>: conversion of byte
  strings to limbs, exponentiation by 65537, the PKCS#1 v1.5 block built in place, and the
  comparison. The theory shows that \<^verbatim>\<open>rsa_verify\<close> accepts exactly the signatures whose 65537th
  power modulo the key is the padded digest.
\<close>

section \<open>The code\<close>

definition RSABYTES :: nat where
  "RSABYTES = 256"

text \<open>The DER prefix: two sequence headers, the object identifier, a null, an octet string header.\<close>

definition SHA256ID :: bytes where
  "SHA256ID = [0x30, 0x31, 0x30, 0x0d] @ [0x06, 0x09, 0x60, 0x86, 0x48, 0x01, 0x65, 0x03, 0x04, 0x02, 0x01] @
     [0x05, 0x00] @ [0x04, 0x20]"

definition tr_putbyte :: "u8 \<Rightarrow> nat \<Rightarrow> big \<Rightarrow> big" where
  "tr_putbyte b index x =
     (if index \<ge> RSABYTES then x
      else let el = index div 4; bp = index mod 4;
               w = x ! el AND push_bit (8 * bp) 0xFF;
               x1 = x[el := x ! el XOR w]
           in x1[el := x1 ! el OR push_bit (8 * bp) (ucast b)])"

text \<open>\<^verbatim>\<open>tr_rsa_pow\<close> with \<^verbatim>\<open>EXPON\<close> 65537; the locals start as given and every limb is overwritten.\<close>

definition square_twice :: "big \<Rightarrow> big \<times> big \<Rightarrow> (big \<times> big) option" where
  "square_twice m st =
     (let (c, t) = st
      in Option.bind (tr_modmul c c m t) (\<lambda>t. Option.bind (tr_modmul t t m c) (\<lambda>c. Some (c, t))))"

definition tr_rsa_pow :: "big \<Rightarrow> big \<Rightarrow> big \<Rightarrow> big option" where
  "tr_rsa_pow m s c0 =
     (let t0 = replicate MODSIZE 0
      in Option.bind (tr_modmul s s m c0) (\<lambda>c1.
         Option.bind (for_loop 0 7 (\<lambda>_ st. Option.bind st (square_twice m)) (Some (c1, t0))) (\<lambda>(c, t).
         Option.bind (tr_modmul c c m t) (\<lambda>t.
         tr_modmul s t m c))))"

definition tr_convert :: "bytes \<Rightarrow> big \<Rightarrow> big" where
  "tr_convert n pk = for_loop 0 RSABYTES (\<lambda>i. tr_putbyte (n ! i) (RSABYTES - i - 1)) pk"

definition pkcs_v15 :: "bytes \<Rightarrow> bytes \<Rightarrow> bytes" where
  "pkcs_v15 h m =
     (let m = m[0 := 0, 1 := 1];
          m = for_loop 0 32 (\<lambda>i m. m[RSABYTES + i - 32 := h ! i]) m;
          m = for_loop 0 19 (\<lambda>i m. m[RSABYTES + i - 51 := SHA256ID ! i]) m;
          m = m[RSABYTES - 52 := 0]
      in for_loop 52 (RSABYTES - 2) (\<lambda>i m. m[RSABYTES - 1 - i := 0xff]) m)"

text \<open>The digest block \<^verbatim>\<open>d\<close> of \<^verbatim>\<open>rsa_verify\<close>.\<close>

definition padded_digest :: "bytes \<Rightarrow> big" where
  "padded_digest h =
     (let d = for_loop 0 MODSIZE (\<lambda>i d. d[i := 0]) (replicate MODSIZE 0);
          d = tr_putbyte 0 (RSABYTES - 1) d;
          d = tr_putbyte 1 (RSABYTES - 2) d;
          d = for_loop 0 32 (\<lambda>i. tr_putbyte (h ! i) (31 - i)) d;
          d = for_loop 0 19 (\<lambda>i. tr_putbyte (SHA256ID ! i) (32 + 19 - 1 - i)) d;
          d = tr_putbyte 0 51 d
      in for_loop 52 (RSABYTES - 2) (\<lambda>i. tr_putbyte 0xff i) d)"

text \<open>\<^verbatim>\<open>rsa_verify\<close>: \<open>None\<close> only for a key whose leading limb makes the division undefined.\<close>

definition rsa_verify :: "bytes \<Rightarrow> bytes \<Rightarrow> bytes \<Rightarrow> int option" where
  "rsa_verify h pub sig =
     (let junk = replicate MODSIZE 0;
          n = tr_convert pub junk;
          s = tr_convert sig junk;
          d = padded_digest h
      in Option.bind (tr_rsa_pow n s junk)
           (\<lambda>c. Some (if tr_compare d c = 0 then 1 else 0)))"

section \<open>Bytes of a big number\<close>

definition byte_of :: "big \<Rightarrow> nat \<Rightarrow> u8" where
  "byte_of x j = ucast (drop_bit (8 * (j mod 4)) (x ! (j div 4)))"

text \<open>The value of a big-endian byte string.\<close>

definition be_val :: "bytes \<Rightarrow> int" where
  "be_val bs = foldl (\<lambda>acc b. acc * 256 + uint b) 0 bs"

lemma length_tr_putbyte [simp]: "length (tr_putbyte b i x) = length x"
  by (simp add: tr_putbyte_def Let_def)

lemma bit_ff: "bit (0xFF :: 'a::len word) k \<longleftrightarrow> k < 8 \<and> k < LENGTH('a)"
proof -
  have "(0xFF :: 'a word) = mask 8" by (simp add: mask_eq_exp_minus_1)
  then show ?thesis by (simp only: bit_mask_iff possible_bit_word) auto
qed

lemma bit_ff_int: "bit (0xFF :: int) k \<longleftrightarrow> k < 8"
proof -
  have "(0xFF :: int) = mask 8" by (simp add: mask_eq_exp_minus_1)
  then show ?thesis by (simp only: bit_mask_iff) simp
qed

lemma byte_of_putbyte_same_limb:
  assumes "p < 4" "q < 4"
  shows "(ucast (drop_bit (8 * q) ((w XOR (w AND push_bit (8 * p) 0xFF)) OR push_bit (8 * p) (ucast (b :: u8)))) :: u8) =
     (if p = q then b else ucast (drop_bit (8 * q) (w :: u32)))"
proof (rule bit_word_eqI)
  fix k
  assume "k < LENGTH(8)"
  then have k: "k < 8" by simp
  have pq: "p \<noteq> q \<Longrightarrow> \<not> (8 * p \<le> 8 * q + k \<and> 8 * q + k - 8 * p < 8)" using k by linarith
  have big: "8 * q + k < 32" using assms k by linarith
  show "bit (ucast (drop_bit (8 * q) ((w XOR (w AND push_bit (8 * p) 0xFF)) OR push_bit (8 * p) (ucast b))) :: u8) k =
     bit (if p = q then b else ucast (drop_bit (8 * q) w)) k"
    using k pq big
    by (auto simp: bit_ucast_iff bit_drop_bit_eq bit_or_iff bit_xor_iff bit_and_iff bit_push_bit_iff bit_ff bit_ff_int
        dest: bit_imp_le_length)
qed

lemma byte_of_putbyte:
  assumes "length x = 64" "i < 256" "j < 256"
  shows "byte_of (tr_putbyte b i x) j = (if i = j then b else byte_of x j)"
proof (cases "i div 4 = j div 4")
  case True
  then have "i = j \<longleftrightarrow> i mod 4 = j mod 4" by (metis div_mod_decomp)
  moreover have "j div 4 < 64" using assms by linarith
  ultimately show ?thesis
    using True assms byte_of_putbyte_same_limb [of "i mod 4" "j mod 4" "x ! (j div 4)" b]
    by (simp add: byte_of_def tr_putbyte_def RSABYTES_def Let_def)
next
  case False
  then have "i \<noteq> j" by blast
  with False assms show ?thesis
    by (simp add: byte_of_def tr_putbyte_def RSABYTES_def Let_def)
qed

lemma putbyte_descending:
  assumes "length x = 64" "n \<le> c + 1" "c < 256"
  shows "length (for_loop 0 n (\<lambda>i. tr_putbyte (f i) (c - i)) x) = 64 \<and>
    (\<forall>j < 256. byte_of (for_loop 0 n (\<lambda>i. tr_putbyte (f i) (c - i)) x) j =
      (if j \<le> c \<and> c < j + n then f (c - j) else byte_of x j))"
  by (rule for_loop_inv [where P = "\<lambda>i t. length t = 64 \<and>
      (\<forall>j < 256. byte_of t j = (if j \<le> c \<and> c < j + i then f (c - j) else byte_of x j))"])
    (use assms in \<open>auto simp: byte_of_putbyte less_Suc_eq\<close>)

lemma putbyte_ascending:
  assumes "length x = 64" "a \<le> b" "b \<le> 256"
  shows "length (for_loop a b (\<lambda>i. tr_putbyte v i) x) = 64 \<and>
    (\<forall>j < 256. byte_of (for_loop a b (\<lambda>i. tr_putbyte v i) x) j =
      (if a \<le> j \<and> j < b then v else byte_of x j))"
  by (rule for_loop_inv [where P = "\<lambda>i t. length t = 64 \<and>
      (\<forall>j < 256. byte_of t j = (if a \<le> j \<and> j < i then v else byte_of x j))"])
    (use assms in \<open>auto simp: byte_of_putbyte less_Suc_eq\<close>)

lemma be_val_snoc: "be_val (bs @ [b]) = be_val bs * 256 + uint b"
  by (simp add: be_val_def)

lemma uint_bytes:
  "((uint (ucast (drop_bit 24 w) :: u8) * 256 + uint (ucast (drop_bit 16 w) :: u8)) * 256 +
     uint (ucast (drop_bit 8 w) :: u8)) * 256 + uint (ucast w :: u8) = uint (w :: u32)"
proof -
  have "unat w < 4294967296" using unsigned_less [of w, where ?'a = nat] by simp
  from base_256_split4 [OF this]
  have "unat w = ((unat (ucast (drop_bit 24 w) :: u8) * 256 + unat (ucast (drop_bit 16 w) :: u8)) * 256 +
     unat (ucast (drop_bit 8 w) :: u8)) * 256 + unat (ucast w :: u8)"
    by (simp add: unat_ucast_u8 unat_drop_bit_word unat_u32_div_24 algebra_simps)
  then have "int (unat w) = int (((unat (ucast (drop_bit 24 w) :: u8) * 256 + unat (ucast (drop_bit 16 w) :: u8)) * 256 +
     unat (ucast (drop_bit 8 w) :: u8)) * 256 + unat (ucast w :: u8))" by (simp only:)
  then show ?thesis by (simp only: of_nat_add of_nat_mult of_nat_numeral uint_nat)
qed

lemma rev_upt_shift4: "rev [0..<4 + n] = map (\<lambda>j. j + 4) (rev [0..<n]) @ [3, 2, 1, 0]"
proof -
  have "[0..<4 + n] = [0..<4] @ map (\<lambda>j. j + 4) [0..<n]"
    using upt_add_eq_append [of 0 4 n] map_add_upt [of 4 n] by (simp add: add.commute)
  moreover have "rev [0..<4] = [3, 2, 1, 0 :: nat]" by (simp add: upt_rec)
  ultimately show ?thesis by (simp add: rev_map)
qed

lemma ival_bytes: "ival x = be_val (map (byte_of x) (rev [0..<4 * length x]))"
proof (induction x)
  case Nil
  then show ?case by (simp add: be_val_def)
next
  case (Cons w ws)
  have "(j + 4) div 4 = Suc (j div 4)" for j :: nat by simp
  then have "byte_of (w # ws) (j + 4) = byte_of ws j" for j by (simp only: byte_of_def) simp
  then have "map (byte_of (w # ws)) (rev [0..<4 * length (w # ws)]) =
      map (byte_of ws) (rev [0..<4 * length ws]) @
      [ucast (drop_bit 24 w), ucast (drop_bit 16 w), ucast (drop_bit 8 w), ucast w]"
    using rev_upt_shift4 [of "4 * length ws"] by (simp add: byte_of_def comp_def)
  then have "be_val (map (byte_of (w # ws)) (rev [0..<4 * length (w # ws)])) =
      (((ival ws * 256 + uint (ucast (drop_bit 24 w) :: u8)) * 256 + uint (ucast (drop_bit 16 w) :: u8)) * 256 +
        uint (ucast (drop_bit 8 w) :: u8)) * 256 + uint (ucast w :: u8)"
    unfolding Cons.IH by (simp only: be_val_def foldl_append) simp
  also have "\<dots> = ival (w # ws)"
    using uint_bytes [of w] by (simp add: BASE_def algebra_simps)
  finally show ?case by simp
qed

lemma ival_from_bytes:
  assumes "length x = 64" "length bs = 256" "\<forall>j < 256. byte_of x j = bs ! (255 - j)"
  shows "ival x = be_val bs"
proof -
  have "map (byte_of x) (rev [0..<256]) = bs"
    using assms by (intro nth_equalityI) (simp_all add: rev_nth)
  then show ?thesis using ival_bytes [of x] assms(1) by simp
qed

lemma tr_convert_correct:
  assumes "length n = 256" "length pk = 64"
  shows "length (tr_convert n pk) = 64" "ival (tr_convert n pk) = be_val n"
    "\<forall>j < 256. byte_of (tr_convert n pk) j = n ! (255 - j)"
proof -
  have idx: "256 - (i + 1) = 255 - (i :: nat)" for i by simp
  have "tr_convert n pk = for_loop 0 256 (\<lambda>i. tr_putbyte (n ! i) (255 - i)) pk"
    unfolding tr_convert_def RSABYTES_def diff_diff_left unfolding idx ..
  with putbyte_descending [of pk 256 255 "\<lambda>i. n ! i"] assms
  have *: "length (tr_convert n pk) = 64 \<and> (\<forall>j < 256. byte_of (tr_convert n pk) j = n ! (255 - j))"
    by simp
  then show "length (tr_convert n pk) = 64" "\<forall>j < 256. byte_of (tr_convert n pk) j = n ! (255 - j)"
    by blast+
  show "ival (tr_convert n pk) = be_val n"
    using * assms by (intro ival_from_bytes) simp_all
qed

section \<open>The padded digest\<close>

text \<open>The encoding of RFC 8017, section 9.2, for SHA-256 and a 2048-bit key.\<close>

definition emsa_pkcs1 :: "bytes \<Rightarrow> bytes" where
  "emsa_pkcs1 h = [0, 1] @ replicate 202 0xff @ [0] @ SHA256ID @ h"

lemma nth_emsa_pkcs1:
  assumes "length h = 32" "j < 256"
  shows "emsa_pkcs1 h ! (255 - j) =
    (if j < 32 then h ! (31 - j) else if j < 51 then SHA256ID ! (50 - j) else if j = 51 then 0
     else if j < 254 then 0xff else if j = 254 then 1 else 0)"
proof -
  have "length SHA256ID = 19" by (simp add: SHA256ID_def)
  then show ?thesis using assms by (auto simp: emsa_pkcs1_def nth_append nth_Cons' diff_diff_eq)
qed

lemma padded_digest_correct:
  assumes "length h = 32"
  shows "length (padded_digest h) = 64" "ival (padded_digest h) = be_val (emsa_pkcs1 h)"
proof -
  define d0 :: big where "d0 = for_loop 0 64 (\<lambda>i d. d[i := 0]) (replicate 64 0)"
  have l0: "length d0 = 64"
    unfolding d0_def by (rule for_loop_inv [where P = "\<lambda>_ d. length d = 64"]) simp_all
  define d1 where "d1 = tr_putbyte 1 254 (tr_putbyte 0 255 d0)"
  define d2 where "d2 = for_loop 0 32 (\<lambda>i. tr_putbyte (h ! i) (31 - i)) d1"
  define d3 where "d3 = for_loop 0 19 (\<lambda>i. tr_putbyte (SHA256ID ! i) (50 - i)) d2"
  define d4 where "d4 = tr_putbyte 0 51 d3"
  define d5 where "d5 = for_loop 52 254 (\<lambda>i. tr_putbyte 0xff i) d4"
  have d5: "padded_digest h = d5"
    by (simp add: padded_digest_def MODSIZE_def RSABYTES_def Let_def d0_def d1_def d2_def d3_def d4_def d5_def)
  have l1: "length d1 = 64" using l0 by (simp add: d1_def)
  note p2 = putbyte_descending [OF l1, of 32 31 "\<lambda>i. h ! i", folded d2_def]
  then have l2: "length d2 = 64" by simp
  note p3 = putbyte_descending [OF l2, of 19 50 "\<lambda>i. SHA256ID ! i", folded d3_def]
  then have l3: "length d3 = 64" by simp
  then have l4: "length d4 = 64" by (simp add: d4_def)
  note p5 = putbyte_ascending [OF l4, of 52 254 "0xff", folded d5_def]
  show "length (padded_digest h) = 64" using p5 by (simp add: d5)
  have "byte_of d5 j = emsa_pkcs1 h ! (255 - j)" if j: "j < 256" for j
    using p5 p3 p2 j l0 l3
    by (simp add: nth_emsa_pkcs1 [OF assms j] d4_def d1_def byte_of_putbyte)
  then show "ival (padded_digest h) = be_val (emsa_pkcs1 h)"
    unfolding d5 using p5 assms by (intro ival_from_bytes) (simp_all add: emsa_pkcs1_def SHA256ID_def)
qed

lemma pkcs_v15_correct:
  assumes "length h = 32" "length m = 256"
  shows "pkcs_v15 h m = emsa_pkcs1 h"
proof -
  define m1 where "m1 = m[0 := 0, 1 := 1]"
  define m2 where "m2 = for_loop 0 32 (\<lambda>i m. m[224 + i := h ! i]) m1"
  define m3 where "m3 = for_loop 0 19 (\<lambda>i m. m[205 + i := SHA256ID ! i]) m2"
  define m4 where "m4 = m3[204 := 0]"
  define m5 where "m5 = for_loop 52 254 (\<lambda>i m. m[255 - i := 0xff]) m4"
  have idx: "256 + i - 32 = 224 + i" "256 + i - 51 = 205 + i" for i :: nat by simp_all
  have m5: "pkcs_v15 h m = m5"
    by (simp add: pkcs_v15_def RSABYTES_def Let_def m1_def m2_def m3_def m4_def m5_def idx)
  have p2: "length m2 = 256 \<and> (\<forall>j < 256. m2 ! j = (if 224 \<le> j \<and> j < 224 + 32 then h ! (j - 224) else m1 ! j))"
    unfolding m2_def
    by (rule for_loop_inv [where P = "\<lambda>i t. length t = 256 \<and> (\<forall>j < 256. t ! j = (if 224 \<le> j \<and> j < 224 + i then h ! (j - 224) else m1 ! j))"])
      (auto simp: m1_def assms nth_list_update)
  have p3: "length m3 = 256 \<and> (\<forall>j < 256. m3 ! j = (if 205 \<le> j \<and> j < 205 + 19 then SHA256ID ! (j - 205) else m2 ! j))"
    unfolding m3_def
    by (rule for_loop_inv [where P = "\<lambda>i t. length t = 256 \<and> (\<forall>j < 256. t ! j = (if 205 \<le> j \<and> j < 205 + i then SHA256ID ! (j - 205) else m2 ! j))"])
      (use p2 in \<open>auto simp: nth_list_update\<close>)
  have p5: "length m5 = 256 \<and> (\<forall>j < 256. m5 ! j = (if j \<le> 203 \<and> 256 \<le> j + 254 then 0xff else m4 ! j))"
    unfolding m5_def
    by (rule for_loop_inv [where P = "\<lambda>i t. length t = 256 \<and> (\<forall>j < 256. t ! j = (if j \<le> 203 \<and> 256 \<le> j + i then 0xff else m4 ! j))"])
      (use p3 in \<open>auto simp: m4_def nth_list_update\<close>)
  have "m5 ! j = emsa_pkcs1 h ! (255 - (255 - j))" if "j < 256" for j
    using p5 p3 p2 that assms
    by (subst nth_emsa_pkcs1) (auto simp: m4_def m1_def nth_list_update)
  then show ?thesis
    unfolding m5 using p5 assms by (intro nth_equalityI) (simp_all add: emsa_pkcs1_def SHA256ID_def)
qed

section \<open>Exponentiation\<close>

lemma square_twice_correct:
  assumes "length m = 64" "m ! 63 \<noteq> 0" "length c = 64" "length t = 64" "ival c = s ^ e mod ival m"
  shows "\<exists>c' t'. square_twice m (c, t) = Some (c', t') \<and> length c' = 64 \<and> length t' = 64 \<and>
     ival c' = s ^ (4 * e) mod ival m"
proof -
  obtain t' where t': "tr_modmul c c m t = Some t'" "length t' = 64" "ival t' = ival c * ival c mod ival m"
    using tr_modmul_spec [of c c m t] assms by blast
  obtain c' where c': "tr_modmul t' t' m c = Some c'" "length c' = 64" "ival c' = ival t' * ival t' mod ival m"
    using tr_modmul_spec [of t' t' m c] assms t' by blast
  have "ival t' = s ^ (e + e) mod ival m"
    unfolding t'(3) assms(5) power_add by (rule mod_mult_eq)
  then have "ival c' = s ^ ((e + e) + (e + e)) mod ival m"
    unfolding c'(3) power_add [of s "e + e"] by (simp only: mod_mult_eq)
  moreover have "(e + e) + (e + e) = 4 * e" by simp
  ultimately show ?thesis
    using t' c' by (simp add: square_twice_def)
qed

lemma tr_rsa_pow_correct:
  assumes "length m = 64" "length s = 64" "length c0 = 64" "m ! 63 \<noteq> 0"
  shows "\<exists>c. tr_rsa_pow m s c0 = Some c \<and> length c = 64 \<and> ival c = ival s ^ 65537 mod ival m"
proof -
  obtain c1 where c1: "tr_modmul s s m c0 = Some c1" "length c1 = 64" "ival c1 = ival s * ival s mod ival m"
    using tr_modmul_spec [of s s m c0] assms by blast
  let ?body = "\<lambda>(_ :: nat) st. Option.bind st (square_twice m)"
  let ?P = "\<lambda>i st. \<exists>c (t :: big). st = Some (c, t) \<and> length c = 64 \<and> length t = 64 \<and>
      ival c = ival s ^ (2 * 4 ^ i) mod ival m"
  have "?P 7 (for_loop 0 7 ?body (Some (c1, replicate 64 0)))"
  proof (rule for_loop_inv [where P = ?P])
    show "?P 0 (Some (c1, replicate 64 0))" using c1 by (simp add: power2_eq_square)
    fix i st
    assume "?P i st"
    then obtain c t where st: "st = Some (c, t)" "length c = 64" "length t = 64"
      "ival c = ival s ^ (2 * 4 ^ i) mod ival m" by blast
    have "4 * (2 * 4 ^ i) = (2 * 4 ^ Suc i :: nat)" by simp
    with square_twice_correct [OF assms(1,4) st(2,3,4)]
    have "?P (Suc i) (square_twice m (c, t))" by (simp only:)
    then show "?P (Suc i) (?body i st)" using st(1) by simp
  qed simp
  then obtain c t where ct: "for_loop 0 7 ?body (Some (c1, replicate 64 0)) = Some (c, t)" "length c = 64" "length t = 64"
    "ival c = ival s ^ 32768 mod ival m" by auto
  obtain t' where t': "tr_modmul c c m t = Some t'" "length t' = 64" "ival t' = ival c * ival c mod ival m"
    using tr_modmul_spec [of c c m t] assms ct by blast
  obtain c' where c': "tr_modmul s t' m c = Some c'" "length c' = 64" "ival c' = ival s * ival t' mod ival m"
    using tr_modmul_spec [of s t' m c] assms ct t' by blast
  have "ival t' = ival s ^ (32768 + 32768) mod ival m"
    unfolding t'(3) ct(4) power_add by (rule mod_mult_eq)
  then have "ival c' = ival s * ival s ^ 65536 mod ival m"
    unfolding c'(3) by (simp add: mod_mult_right_eq)
  also have "ival s * ival s ^ 65536 = ival s ^ 65537"
    using power_Suc [of "ival s" 65536] by simp
  finally have "ival c' = ival s ^ 65537 mod ival m" .
  with c1 ct t' c' show ?thesis
    by (simp add: tr_rsa_pow_def MODSIZE_def Let_def)
qed

section \<open>Properties\<close>

lemma ival_inject: "length x = length y \<Longrightarrow> ival x = ival y \<Longrightarrow> x = y"
proof (induction x y rule: list_induct2)
  case Nil
  then show ?case by simp
next
  case (Cons a x b y)
  have "uint a = (uint a + BASE * ival x) mod BASE" "uint b = (uint b + BASE * ival y) mod BASE"
    using uint_bounds [of a] uint_bounds [of b] by simp_all
  with Cons.prems have "uint a = uint b" by simp
  with Cons.prems have "ival x = ival y" by simp
  with Cons.IH \<open>uint a = uint b\<close> show ?case by (simp add: word_uint_eq_iff)
qed

lemma tr_compare_eq_0:
  assumes "length x = 64" "length y = 64"
  shows "tr_compare x y = 0 \<longleftrightarrow> ival x = ival y"
  using tr_compare_from_sgn [of 64 x y] assms by (simp add: tr_compare_def MODSIZE_def sgn_0_0)

lemma top_limb_of_key:
  assumes "length pub = 256" "length pk = 64" "take 4 pub \<noteq> [0, 0, 0, 0]"
  shows "tr_convert pub pk ! 63 \<noteq> 0"
proof
  assume zero: "tr_convert pub pk ! 63 = 0"
  note b = tr_convert_correct(3) [OF assms(1,2)]
  have "pub ! k = 0" if "k < 4" for k
  proof -
    have "(255 - k) div 4 = 63" "255 - (255 - k) = k" using that by linarith+
    with zero b [rule_format, of "255 - k"] show ?thesis by (simp add: byte_of_def)
  qed
  then have "pub ! 0 = 0" "pub ! 1 = 0" "pub ! 2 = 0" "pub ! 3 = 0" by simp_all
  moreover have "take 4 pub = [pub ! 0, pub ! 1, pub ! 2, pub ! 3]"
    using assms(1) by (intro nth_equalityI) (auto simp: less_Suc_eq numeral_eq_Suc)
  ultimately show False using assms(3) by simp
qed

text \<open>
  C5: For a 2048-bit key with a non-zero leading limb, \<^verbatim>\<open>rsa_verify\<close> always returns, and it returns
  1 exactly when the signature raised to 65537 modulo the key is the PKCS#1 v1.5 encoding of the
  digest, else 0.
\<close>

theorem rsa_verify_correct:
  assumes "length h = 32" "length pub = 256" "length sig = 256" "take 4 pub \<noteq> [0, 0, 0, 0]"
  shows "rsa_verify h pub sig =
    Some (if be_val sig ^ 65537 mod be_val pub = be_val (emsa_pkcs1 h) then 1 else 0)"
proof -
  let ?junk = "replicate 64 0 :: big"
  note n = tr_convert_correct [OF assms(2), of ?junk, simplified]
  note s = tr_convert_correct [OF assms(3), of ?junk, simplified]
  note d = padded_digest_correct [OF assms(1)]
  have "tr_convert pub ?junk ! 63 \<noteq> 0" using assms by (intro top_limb_of_key) simp_all
  from tr_rsa_pow_correct [OF n(1) s(1) _ this, of ?junk]
  obtain c where c: "tr_rsa_pow (tr_convert pub ?junk) (tr_convert sig ?junk) ?junk = Some c" "length c = 64"
    "ival c = be_val sig ^ 65537 mod be_val pub"
    using n(2) s(2) by auto
  have "tr_compare (padded_digest h) c = 0 \<longleftrightarrow> be_val sig ^ 65537 mod be_val pub = be_val (emsa_pkcs1 h)"
    using tr_compare_eq_0 [OF d(1) c(2)] d(2) c(3) by auto
  then show ?thesis
    unfolding rsa_verify_def MODSIZE_def Let_def c(1) by simp
qed

theorem rsa_verify_correct_witness:
  "rsa_verify (replicate 32 7) (1 # replicate 255 3) (replicate 256 2) =
    Some (if be_val (replicate 256 2) ^ 65537 mod be_val (1 # replicate 255 3) = be_val (emsa_pkcs1 (replicate 32 7)) then 1 else 0)"
  by (rule rsa_verify_correct) simp_all

text \<open>
  The block that \<^verbatim>\<open>rsa_verify\<close> pads in place, byte by byte inside the limbs, is the one that
  \<^verbatim>\<open>pkcs_v15\<close> followed by \<^verbatim>\<open>tr_convert\<close> (the commented-out form in the code) would build,
  whatever the buffers held before.
\<close>

theorem padding_in_place:
  assumes "length h = 32" "length m = 256" "length d = 64"
  shows "padded_digest h = tr_convert (pkcs_v15 h m) d"
proof (rule ival_inject)
  have l: "length (pkcs_v15 h m) = 256"
    unfolding pkcs_v15_correct [OF assms(1,2)] using assms(1) by (simp add: emsa_pkcs1_def SHA256ID_def)
  show "length (padded_digest h) = length (tr_convert (pkcs_v15 h m) d)"
    using padded_digest_correct(1) tr_convert_correct(1) [OF l] assms by simp
  show "ival (padded_digest h) = ival (tr_convert (pkcs_v15 h m) d)"
    using padded_digest_correct(2) tr_convert_correct(2) [OF l] pkcs_v15_correct assms by simp
qed

theorem padding_in_place_witness:
  "padded_digest (replicate 32 1) = tr_convert (pkcs_v15 (replicate 32 1) (replicate 256 9)) (replicate 64 5)"
  by (rule padding_in_place) simp_all

end
