(* ===== verification/Crypto.thy ===== *)
theory Crypto
  imports Errors Chip Sha256 Rsa
begin

text \<open>
  \<^verbatim>\<open>common/src/crypto.c\<close>: the hashing context and the choice of a public key for a signature. The
  four cryptographic routines are called through function pointers; the first stage publishes them
  in the communication area at the top of work RAM and the second stage picks them up from there.
  A pointer is represented by the routine it points to, and calling any other pointer (or a null
  one) is undefined behaviour. The theory shows that after \<^verbatim>\<open>crypto_init\<close> of the first stage the
  hash interface computes SHA-256 of the concatenation of the buffers it was given, that a revoked
  key is never used, and what it takes for \<^verbatim>\<open>verify_signature\<close> to accept.
\<close>

section \<open>State\<close>

datatype code_ptr = Shs256_init | Shs256_process | Shs256_hash | Rsa_verify | Enter_standby

text \<open>The fields of the communication area that this code reads and writes.\<close>

record crypto = errs +
  sha256_init_func :: "code_ptr option"
  sha256_process_func :: "code_ptr option"
  sha256_hash_func :: "code_ptr option"
  rsa2048_verify_func :: "code_ptr option"
  shctx :: sha256
  shared_functions :: "nat \<Rightarrow> code_ptr option"
  endpoint_unique_id :: bytes
  stage_2_firmware_identity :: bytes
  stage_2_validation_key_name :: bytes
  build_timestamp :: bytes
  firmware_package_name :: bytes

abbreviation (input) "SHARED_FUNCTION_SHA256_INIT \<equiv> 0 :: nat"
abbreviation (input) "SHARED_FUNCTION_SHA256_PROCESS \<equiv> 1 :: nat"
abbreviation (input) "SHARED_FUNCTION_SHA256_HASH \<equiv> 2 :: nat"
abbreviation (input) "SHARED_FUNCTION_RSA2048_VERIFY \<equiv> 3 :: nat"
abbreviation (input) "SHARED_FUNCTION_ENTER_STANDBY \<equiv> 4 :: nat"
abbreviation (input) "NUMBER_OF_SHARED_FUNCTIONS \<equiv> 5 :: nat"

definition get_shared_function :: "nat \<Rightarrow> ('a crypto_scheme, code_ptr option) prog" where
  "get_shared_function i =
     (if i \<ge> NUMBER_OF_SHARED_FUNCTIONS then return None else gets (\<lambda>s. shared_functions s i))"

definition set_shared_function :: "nat \<Rightarrow> code_ptr \<Rightarrow> ('a crypto_scheme, unit) prog" where
  "set_shared_function i f =
     (if i \<ge> NUMBER_OF_SHARED_FUNCTIONS then skip
      else modify (\<lambda>s. s\<lparr>shared_functions := (shared_functions s)(i := Some f)\<rparr>))"

definition crypto_init :: "env \<Rightarrow> ('a crypto_scheme, unit) prog" where
  "crypto_init E =
     bind (if boot_stage E = 1 then
             bind (set_shared_function SHARED_FUNCTION_SHA256_INIT Shs256_init) (\<lambda>_.
             bind (set_shared_function SHARED_FUNCTION_SHA256_PROCESS Shs256_process) (\<lambda>_.
             bind (set_shared_function SHARED_FUNCTION_SHA256_HASH Shs256_hash) (\<lambda>_.
             set_shared_function SHARED_FUNCTION_RSA2048_VERIFY Rsa_verify)))
           else skip) (\<lambda>_.
     bind (get_shared_function SHARED_FUNCTION_SHA256_INIT) (\<lambda>f.
     bind (modify (\<lambda>s. s\<lparr>sha256_init_func := f\<rparr>)) (\<lambda>_.
     bind (get_shared_function SHARED_FUNCTION_SHA256_PROCESS) (\<lambda>f.
     bind (modify (\<lambda>s. s\<lparr>sha256_process_func := f\<rparr>)) (\<lambda>_.
     bind (get_shared_function SHARED_FUNCTION_SHA256_HASH) (\<lambda>f.
     bind (modify (\<lambda>s. s\<lparr>sha256_hash_func := f\<rparr>)) (\<lambda>_.
     bind (get_shared_function SHARED_FUNCTION_RSA2048_VERIFY) (\<lambda>f.
     modify (\<lambda>s. s\<lparr>rsa2048_verify_func := f\<rparr>)))))))))"

section \<open>Hashing\<close>

definition hash_start :: "('a crypto_scheme, unit) prog" where
  "hash_start =
     bind (gets sha256_init_func) (\<lambda>f.
     bind (assert_or_fault (f = Some Shs256_init)) (\<lambda>_.
     modify (\<lambda>s. s\<lparr>shctx := shs256_init (shctx s)\<rparr>)))"

definition hash_update :: "bytes \<Rightarrow> ('a crypto_scheme, unit) prog" where
  "hash_update data =
     (if data = [] then skip
      else
        bind (gets sha256_process_func) (\<lambda>f.
        bind (assert_or_fault (f = Some Shs256_process)) (\<lambda>_.
        modify (\<lambda>s. s\<lparr>shctx := fold (\<lambda>b sh. shs256_process sh b) data (shctx s)\<rparr>))))"

definition hash_final :: "('a crypto_scheme, bytes) prog" where
  "hash_final =
     bind (gets sha256_hash_func) (\<lambda>f.
     bind (assert_or_fault (f = Some Shs256_hash)) (\<lambda>_.
     bind (gets (\<lambda>s. shs256_hash (shctx s))) (\<lambda>r.
     case r of
       None \<Rightarrow> stop_with Hung
     | Some (digest, sh) \<Rightarrow> bind (modify (\<lambda>s. s\<lparr>shctx := sh\<rparr>)) (\<lambda>_. return digest))))"

section \<open>Signatures\<close>

text \<open>\<^verbatim>\<open>tftf_signature\<close> (\<^verbatim>\<open>common/shared_inc/tftf.h\<close>).\<close>

record tftf_signature =
  sig_length :: u32
  sig_type :: u32
  sig_key_name :: bytes
  sig_bytes :: bytes

text \<open>
  \<^verbatim>\<open>find_public_key\<close>, the loop of the first stage over its table, from row \<open>k\<close>; \<open>None\<close> is the
  return value -1.
\<close>

primrec find_rom_key ::
    "env \<Rightarrow> tftf_signature \<Rightarrow> nat \<Rightarrow> crypto_public_key list \<Rightarrow> ('a machine_scheme, bytes option) prog" where
  "find_rom_key E sg k [] = return None"
| "find_rom_key E sg k (key # keys) =
     bind (chip_is_key_revoked E k) (\<lambda>revoked.
     if revoked then find_rom_key E sg (Suc k) keys
     else if key_type key \<noteq> sig_type sg then find_rom_key E sg (Suc k) keys
     else if strncmp (key_name key) (sig_key_name sg) 96 = 0 then return (Some (key_bytes key))
     else find_rom_key E sg (Suc k) keys)"

text \<open>The loop of the second stage over the keys of its configuration data.\<close>

primrec find_cfg_key :: "env \<Rightarrow> tftf_signature \<Rightarrow> nat \<Rightarrow> nat \<Rightarrow> ('a machine_scheme, bytes option) prog" where
  "find_cfg_key E sg k 0 = return None"
| "find_cfg_key E sg k (Suc n) =
     (case cfg_public_key E k of
        None \<Rightarrow> stop_with Fault
      | Some key \<Rightarrow>
          if key_type key \<noteq> sig_type sg then find_cfg_key E sg (Suc k) n
          else if strncmp (key_name key) (sig_key_name sg) 96 = 0 then return (Some (key_bytes key))
          else find_cfg_key E sg (Suc k) n)"

definition find_public_key :: "env \<Rightarrow> tftf_signature \<Rightarrow> ('a machine_scheme, bytes option) prog" where
  "find_public_key E sg =
     (if boot_stage E = 1 then find_rom_key E sg 0 (public_keys E)
      else if cfg_sentinel_ok E then find_cfg_key E sg 0 (unat (cfg_number_of_public_keys E))
      else return None)"

definition verify_signature :: "env \<Rightarrow> bytes \<Rightarrow> tftf_signature \<Rightarrow> ('a crypto_scheme, int) prog" where
  "verify_signature E digest sg =
     bind (find_public_key E sg) (\<lambda>key.
     case key of
       None \<Rightarrow> return (-1)
     | Some public_key \<Rightarrow>
         bind (gets rsa2048_verify_func) (\<lambda>f.
         bind (assert_or_fault (f = Some Rsa_verify)) (\<lambda>_.
         case rsa_verify digest public_key (sig_bytes sg) of
           None \<Rightarrow> stop_with Fault
         | Some v \<Rightarrow>
             if v \<noteq> 0 then
               bind (if boot_stage E = 1 then
                       modify (\<lambda>s. s\<lparr>stage_2_firmware_identity := take 32 digest,
                                     stage_2_validation_key_name := take 96 (sig_key_name sg)\<rparr>)
                     else skip) (\<lambda>_.
               return 0)
             else return (-1))))"

section \<open>The hash interface\<close>

text \<open>
  What the users of the hash functions rely on: started, fed buffer by buffer and closed, they
  give the digest of everything fed in between.
\<close>

locale hash_api =
  fixes start :: "('s, unit) prog" and update :: "bytes \<Rightarrow> ('s, unit) prog"
    and finish :: "('s, bytes) prog"
    and ready :: "'s \<Rightarrow> bool" and fed :: "bytes \<Rightarrow> 's \<Rightarrow> bool" and digest :: "bytes \<Rightarrow> bytes"
  assumes start_ok: "ready s \<Longrightarrow> \<exists>t. start s = Ret () t \<and> fed [] t"
    and update_ok: "fed d s \<Longrightarrow> \<exists>t. update x s = Ret () t \<and> fed (d @ x) t"
    and finish_ok: "fed d s \<Longrightarrow> \<exists>t. finish s = Ret (digest d) t \<and> ready t"
begin

lemma updates_ok: "fed d s \<Longrightarrow> \<exists>t. seqM (map update xs) s = Ret () t \<and> fed (d @ concat xs) t"
proof (induction xs arbitrary: d s)
  case Nil
  then show ?case by (simp add: skip_def return_def)
next
  case (Cons x xs)
  from update_ok [OF Cons.prems, of x] obtain s' where "update x s = Ret () s'" "fed (d @ x) s'" by blast
  with Cons.IH show ?case by fastforce
qed

lemma digest_of_parts:
  assumes "ready s"
  shows "\<exists>t. bind start (\<lambda>_. bind (seqM (map update xs)) (\<lambda>_. finish)) s = Ret (digest (concat xs)) t \<and> ready t"
proof -
  obtain s1 where s1: "start s = Ret () s1" "fed [] s1" using start_ok [OF assms] by blast
  obtain s2 where s2: "seqM (map update xs) s1 = Ret () s2" "fed (concat xs) s2"
    using updates_ok [OF s1(2), of xs] by auto
  obtain s3 where s3: "finish s2 = Ret (digest (concat xs)) s3" "ready s3"
    using finish_ok [OF s2(2)] by blast
  show ?thesis using s1 s2 s3 by simp
qed

end

text \<open>The pointers are in place and the context has its 80 words.\<close>

definition crypto_ready :: "'a crypto_scheme \<Rightarrow> bool" where
  "crypto_ready s \<longleftrightarrow>
     sha256_init_func s = Some Shs256_init \<and> sha256_process_func s = Some Shs256_process \<and>
     sha256_hash_func s = Some Shs256_hash \<and> rsa2048_verify_func s = Some Rsa_verify \<and>
     length (sh_w (shctx s)) = 80"

definition hash_fed :: "bytes \<Rightarrow> 'a crypto_scheme \<Rightarrow> bool" where
  "hash_fed d s \<longleftrightarrow> crypto_ready s \<and> absorbed d (shctx s)"

lemma absorbed_length: "absorbed d sh \<Longrightarrow> length (sh_w sh) = 80"
  by (simp add: absorbed_def)

lemma hash_start_run:
  assumes "crypto_ready s"
  shows "hash_start s = Ret () (s\<lparr>shctx := shs256_init (shctx s)\<rparr>)"
    and "hash_fed [] (s\<lparr>shctx := shs256_init (shctx s)\<rparr>)"
proof -
  have ab: "absorbed [] (shs256_init (shctx s))"
    using assms by (simp add: crypto_ready_def absorbed_init)
  show "hash_start s = Ret () (s\<lparr>shctx := shs256_init (shctx s)\<rparr>)"
    using assms by (simp add: hash_start_def crypto_ready_def prog_defs)
  show "hash_fed [] (s\<lparr>shctx := shs256_init (shctx s)\<rparr>)"
    using assms ab absorbed_length [OF ab] by (simp add: hash_fed_def crypto_ready_def)
qed

lemma hash_update_run:
  assumes "hash_fed d s"
  shows "hash_update x s = Ret () (s\<lparr>shctx := fold (\<lambda>b sh. shs256_process sh b) x (shctx s)\<rparr>)"
    and "hash_fed (d @ x) (s\<lparr>shctx := fold (\<lambda>b sh. shs256_process sh b) x (shctx s)\<rparr>)"
proof -
  have ab: "absorbed (d @ x) (fold (\<lambda>b sh. shs256_process sh b) x (shctx s))"
    using assms by (simp add: hash_fed_def absorbed_fold)
  show "hash_update x s = Ret () (s\<lparr>shctx := fold (\<lambda>b sh. shs256_process sh b) x (shctx s)\<rparr>)"
    using assms by (cases x) (simp_all add: hash_update_def hash_fed_def crypto_ready_def prog_defs)
  show "hash_fed (d @ x) (s\<lparr>shctx := fold (\<lambda>b sh. shs256_process sh b) x (shctx s)\<rparr>)"
    using assms ab absorbed_length [OF ab] by (simp add: hash_fed_def crypto_ready_def)
qed

lemma hash_final_run:
  assumes "hash_fed d s"
  shows "\<exists>sh. hash_final s = Ret (sha256_spec d) (s\<lparr>shctx := sh\<rparr>) \<and> crypto_ready (s\<lparr>shctx := sh\<rparr>)"
proof -
  obtain sh where sh: "shs256_hash (shctx s) = Some (sha256_spec d, sh)" "absorbed [] sh"
    using shs256_hash_correct assms by (auto simp: hash_fed_def)
  then show ?thesis
    using assms absorbed_length [OF sh(2)]
    by (auto simp: hash_final_def hash_fed_def crypto_ready_def prog_defs)
qed

interpretation rom_hash: hash_api hash_start hash_update hash_final crypto_ready hash_fed sha256_spec
proof
  fix s :: "'a crypto_scheme" and d x
  show "\<exists>t. hash_start s = Ret () t \<and> hash_fed [] t" if "crypto_ready s"
    using hash_start_run [OF that] by blast
  show "\<exists>t. hash_update x s = Ret () t \<and> hash_fed (d @ x) t" if "hash_fed d s"
    using hash_update_run [OF that] by blast
  show "\<exists>t. hash_final s = Ret (sha256_spec d) t \<and> crypto_ready t" if "hash_fed d s"
    using hash_final_run [OF that] by blast
qed

lemma crypto_init_ready:
  assumes "boot_stage E = 1" "length (sh_w (shctx s)) = 80"
  shows "\<exists>t. crypto_init E s = Ret () t \<and> crypto_ready t \<and> io t = io s \<and> ram t = ram s"
  using assms
  by (simp add: crypto_init_def set_shared_function_def get_shared_function_def crypto_ready_def prog_defs)

section \<open>Keys\<close>

text \<open>What it means that row \<open>k\<close> of the ROM's table was chosen for a signature.\<close>

definition rom_key_matches :: "env \<Rightarrow> tftf_signature \<Rightarrow> nat \<Rightarrow> bytes \<Rightarrow> bool" where
  "rom_key_matches E sg k kb \<longleftrightarrow>
     k < length (public_keys E) \<and> k < 4 \<and> kb = key_bytes (public_keys E ! k) \<and>
     key_type (public_keys E ! k) = sig_type sg \<and>
     strncmp (key_name (public_keys E ! k)) (sig_key_name sg) 96 = 0"

lemma revoked_bit: "push_bit k (1 :: u32) AND 0x0f = 0 \<longleftrightarrow> 4 \<le> k"
proof -
  have "(0x0f :: u32) = mask 4" by (simp add: mask_eq_exp_minus_1)
  then have "push_bit k (1 :: u32) AND 0x0f = take_bit 4 (push_bit k 1)"
    by (simp only: take_bit_eq_mask)
  also have "take_bit 4 (push_bit k (1 :: u32)) = 0 \<longleftrightarrow> 4 \<le> k"
  proof
    assume "take_bit 4 (push_bit k (1 :: u32)) = 0"
    then have "\<not> bit (take_bit 4 (push_bit k (1 :: u32))) k" by simp
    then show "4 \<le> k" by (auto simp: bit_simps)
  next
    assume "4 \<le> k"
    then show "take_bit 4 (push_bit k (1 :: u32)) = 0"
      by (intro bit_word_eqI) (auto simp: bit_simps)
  qed
  finally show ?thesis .
qed

lemma key_not_revoked:
  assumes "chip_is_key_revoked E k s = Ret False t"
  shows "k < 4 \<and> (\<exists>v. v AND push_bit k 1 = 0 \<and> io t = RdReg (ISAA_BASE + TSB_ISAA_SCR) v # io s)"
  using assms revoked_bit [of k]
  by (auto simp: chip_is_key_revoked_def isaa_read_def getreg32_def Let_def return_def
      elim!: bind_eq_RetE split: if_splits)

lemma find_rom_key_sound:
  assumes "find_rom_key E sg k keys s = Ret (Some kb) t"
  shows "\<exists>j v rest. j < length keys \<and> k + j < 4 \<and> kb = key_bytes (keys ! j) \<and>
     key_type (keys ! j) = sig_type sg \<and> strncmp (key_name (keys ! j)) (sig_key_name sg) 96 = 0 \<and>
     v AND push_bit (k + j) 1 = 0 \<and> io t = RdReg (ISAA_BASE + TSB_ISAA_SCR) v # rest"
  using assms
proof (induction keys arbitrary: k s)
  case Nil
  then show ?case by (simp add: return_def)
next
  case (Cons key keys)
  from Cons.prems obtain revoked s' where r: "chip_is_key_revoked E k s = Ret revoked s'" and
    rest: "(if revoked then find_rom_key E sg (Suc k) keys
       else if key_type key \<noteq> sig_type sg then find_rom_key E sg (Suc k) keys
       else if strncmp (key_name key) (sig_key_name sg) 96 = 0 then return (Some (key_bytes key))
       else find_rom_key E sg (Suc k) keys) s' = Ret (Some kb) t"
    by (auto elim!: bind_eq_RetE)
  show ?case
  proof (cases "find_rom_key E sg (Suc k) keys s' = Ret (Some kb) t")
    case True
    from Cons.IH [OF this] show ?thesis
      by (elim exE conjE) (rule_tac x = "Suc j" in exI, auto)
  next
    case False
    with rest have "\<not> revoked" "key_type key = sig_type sg"
      "strncmp (key_name key) (sig_key_name sg) 96 = 0" "kb = key_bytes key" "t = s'"
      by (auto simp: return_def split: if_splits)
    with key_not_revoked [of E k s s'] r show ?thesis
      by (intro exI [of _ "0 :: nat"]) auto
  qed
qed

lemma find_public_key_only_io: "preserves only_io (find_public_key E sg)"
proof -
  have "preserves only_io (find_rom_key E sg k keys)" for k keys
    by (induction keys arbitrary: k) (auto intro!: io_intros chip_only_io)
  moreover have "preserves only_io (find_cfg_key E sg k n)" for k n
    by (induction n arbitrary: k) (auto intro!: io_intros split: option.split)
  ultimately show ?thesis
    unfolding find_public_key_def by (auto intro!: io_intros)
qed

lemma verify_signature_accepts:
  assumes "verify_signature E digest sg s = Ret 0 t"
  shows "\<exists>kb u. find_public_key E sg s = Ret (Some kb) u \<and> io t = io u \<and>
    rsa_verify digest kb (sig_bytes sg) \<noteq> Some 0 \<and> rsa_verify digest kb (sig_bytes sg) \<noteq> None"
proof (cases "find_public_key E sg s")
  case (Ret key u)
  with assms show ?thesis
    by (auto simp: verify_signature_def prog_defs split: option.splits if_splits)
next
  case (Stop k u)
  with assms show ?thesis by (simp add: verify_signature_def)
qed

section \<open>Properties\<close>

text \<open>The state after reset (the C start-up code clears the zero-initialised data).\<close>

definition reset_crypto :: crypto where
  "reset_crypto = \<lparr>io = [], ram = \<lambda>_. 0, fw_errno = 0, boot_status_offline = False,
     sha256_init_func = None, sha256_process_func = None, sha256_hash_func = None,
     rsa2048_verify_func = None,
     shctx = \<lparr>sh_len0 = 0, sh_len1 = 0, sh_h = replicate 8 0, sh_w = replicate 80 0\<rparr>,
     shared_functions = \<lambda>_. None, endpoint_unique_id = replicate 8 0,
     stage_2_firmware_identity = replicate 32 0, stage_2_validation_key_name = replicate 96 0,
     build_timestamp = replicate 16 0, firmware_package_name = replicate 48 0\<rparr>"

text \<open>
  After \<^verbatim>\<open>crypto_init\<close> of the first stage, starting the hash, feeding any sequence of buffers
  and closing it runs to the end (no call through a stale pointer, no endless padding) and gives
  the SHA-256 digest of the concatenation of the buffers.
\<close>

theorem hash_of_buffers:
  assumes "boot_stage E = 1" "length (sh_w (shctx s)) = 80"
  shows "\<exists>t. bind (crypto_init E) (\<lambda>_. bind hash_start (\<lambda>_.
      bind (seqM (map hash_update bufs)) (\<lambda>_. hash_final))) s = Ret (sha256_spec (concat bufs)) t"
proof -
  obtain u where "crypto_init E s = Ret () u" "crypto_ready u"
    using crypto_init_ready [OF assms] by blast
  with rom_hash.digest_of_parts show ?thesis by fastforce
qed

theorem hash_of_buffers_witness:
  "\<exists>t. bind (crypto_init (es3_env (\<lambda>_ _. 0))) (\<lambda>_. bind hash_start (\<lambda>_.
      bind (seqM (map hash_update [[0x61], [], [0x62, 0x63]])) (\<lambda>_. hash_final))) reset_crypto
    = Ret (sha256_spec [0x61, 0x62, 0x63]) t"
  using hash_of_buffers [of "es3_env (\<lambda>_ _. 0)" reset_crypto "[[0x61], [], [0x62, 0x63]]"]
  by (simp add: es3_env_def reset_crypto_def)

text \<open>
  C6: A key that the first stage picks for a signature is never a revoked one: the row that is
  returned is one of the four ROM keys, its type and name are those of the signature, and the last
  thing read from the hardware is the security register with that row's revocation bit clear.
\<close>

theorem key_choice_sound:
  assumes "boot_stage E = 1" "find_public_key E sg s = Ret (Some kb) t"
  shows "\<exists>k v rest. rom_key_matches E sg k kb \<and> v AND push_bit k 1 = 0 \<and>
    io t = RdReg (ISAA_BASE + TSB_ISAA_SCR) v # rest"
  using assms find_rom_key_sound [of E sg 0 "public_keys E" s kb t]
  by (auto simp: find_public_key_def rom_key_matches_def)

text \<open>One ROM key of type 1 with an empty name, and a security register with no key revoked.\<close>

definition one_key_env :: env where
  "one_key_env = es3_env (\<lambda>_ _. 0)\<lparr>public_keys :=
     [\<lparr>key_type = 1, key_name = replicate 96 0, key_bytes = replicate 256 7\<rparr>]\<rparr>"

theorem key_choice_sound_witness:
  "\<exists>k v rest. rom_key_matches one_key_env
      \<lparr>sig_length = 360, sig_type = 1, sig_key_name = replicate 96 0, sig_bytes = []\<rparr> k (replicate 256 7) \<and>
    v AND push_bit k 1 = 0 \<and>
    io (reset_crypto\<lparr>io := [RdReg (ISAA_BASE + TSB_ISAA_SCR) 0]\<rparr>) = RdReg (ISAA_BASE + TSB_ISAA_SCR) v # rest"
  by (rule key_choice_sound [where s = reset_crypto])
    (simp_all add: one_key_env_def es3_env_def find_public_key_def chip_is_key_revoked_def
      isaa_read_def getreg32_def prog_defs strncmp_0_iff cstring_def reset_crypto_def)

end
