(* ===== verification/Loader.thy ===== *)
theory Loader
  imports Crypto
begin

text \<open>
  The interface of \<^verbatim>\<open>common/include/data_loading.h\<close>: a table of operations through which images are
  fetched, from SPI flash or over UniPro. An operation that fills a buffer returns, beside its
  return code, the bytes it has stored at the destination; the caller's model puts them there. The
  contract the header file documents (exactly the requested bytes on success, hashing of what was
  loaded when asked to) is the locale \<open>loader\<close>.
\<close>

section \<open>Operations\<close>

text \<open>
  The objects an image is loaded into. The C code passes a pointer to one of them: RAM at an address,
  the TFTF header buffer from an offset on, the signature buffer, or the temporary buffer of
  \<^verbatim>\<open>discard_section\<close>. The SPI loader only stores through it; the Greybus loader also keeps it.
\<close>

datatype load_dest = To_ram u32 | To_header nat | To_signature | To_temp

record 's data_load_ops =
  ops_init :: "('s, int) prog"
  ops_read :: "(u32 \<Rightarrow> u32 \<Rightarrow> ('s, int \<times> bytes) prog) option"
  ops_load :: "load_dest \<Rightarrow> u32 \<Rightarrow> bool \<Rightarrow> ('s, int \<times> bytes) prog"
  ops_finish :: "bool \<Rightarrow> bool \<Rightarrow> ('s, int) prog"

text \<open>Storing loaded bytes in a fixed buffer: a store past its end is undefined behaviour.\<close>

definition fits :: "bytes \<Rightarrow> nat \<Rightarrow> bytes \<Rightarrow> bool" where
  "fits buf off bs \<longleftrightarrow> off + length bs \<le> length buf"

section \<open>The contract\<close>

text \<open>
  \<open>load\<close> is the operation, \<open>keeps\<close> relates two states that agree on everything a loader must not
  touch.
\<close>

locale loader =
  fixes load :: "load_dest \<Rightarrow> u32 \<Rightarrow> bool \<Rightarrow> ('a crypto_scheme, int \<times> bytes) prog"
    and keeps :: "'a crypto_scheme \<Rightarrow> 'a crypto_scheme \<Rightarrow> bool"
  assumes keeps_refl: "keeps s s"
    and keeps_trans: "keeps s t \<Longrightarrow> keeps t u \<Longrightarrow> keeps s u"
    and load_keeps: "load dst n h s = Ret r t \<Longrightarrow> keeps s t"
    and load_exact: "load dst n h s = Ret (0, bs) t \<Longrightarrow> length bs = unat n"
    and load_hashes: "hash_fed d s \<Longrightarrow> load dst n h s = Ret (0, bs) t \<Longrightarrow> hash_fed (if h then d @ bs else d) t"
    and load_ready: "crypto_ready s \<Longrightarrow> load dst n False s = Ret r t \<Longrightarrow> crypto_ready t"
begin

lemma load_keeps_prop:
  assumes "load dst n h s = Ret r t" and "\<And>s t. keeps s t \<Longrightarrow> P s \<Longrightarrow> P t" and "P s"
  shows "P t"
  using assms load_keeps by blast

end

end
