(* ===== verification/Spi.thy ===== *)
theory Spi
  imports Loader
begin

text \<open>
  Loading from SPI flash (\<^verbatim>\<open>chips/es3tsb/src/es3_spi.c\<close>). The flash is behind the SPI master's
  registers; what it delivers is decided by the environment, frame by frame. The theory shows that
  a load that reports success has stored exactly the requested number of bytes, has hashed exactly
  those bytes when asked to, and has changed nothing else but the flash address (the \<open>loader\<close>
  contract), and that a load of one to three bytes can never succeed.
\<close>

section \<open>Registers and state\<close>

definition SPI_BASE :: u32 where "SPI_BASE = 0x40018000"

abbreviation (input) "SPIM_CTRLR0 \<equiv> SPI_BASE"
abbreviation (input) "SPIM_CTRLR1 \<equiv> SPI_BASE + 0x04"
abbreviation (input) "SPIM_SSIENR \<equiv> SPI_BASE + 0x08"
abbreviation (input) "SPIM_SER \<equiv> SPI_BASE + 0x10"
abbreviation (input) "SPIM_BAUDR \<equiv> SPI_BASE + 0x14"
abbreviation (input) "SPIM_SR \<equiv> SPI_BASE + 0x28"
abbreviation (input) "SPIM_DR0 \<equiv> SPI_BASE + 0x60"
abbreviation (input) "SPIM_CTRLR0_VALUE \<equiv> 0x001F0300 :: u32"
abbreviation (input) "SPIM_SR_RFNE \<equiv> 0x08 :: u32"
abbreviation (input) "SPIM_SR_BUSY \<equiv> 0x01 :: u32"
abbreviation (input) "SPIM_SCKDV \<equiv> 2 :: u32"
abbreviation (input) "SPIM_SSI_ENABLE \<equiv> 1 :: u32"
abbreviation (input) "SPIM_SSI_DISABLE \<equiv> 0 :: u32"
abbreviation (input) "SPIM_SLAVE_SELECT \<equiv> 1 :: u32"
abbreviation (input) "SPI_FLASH_READ_CMD \<equiv> 0x03 :: u32"

record spi = crypto +
  current_addr :: u32
  spi_clk_usage_count :: int

section \<open>Operations\<close>

definition data_load_spi_init :: "('a spi_scheme, int) prog" where
  "data_load_spi_init =
     bind (modify (\<lambda>s. s\<lparr>current_addr := 0\<rparr>)) (\<lambda>_.
     bind (tsb_clk_enable TSB_CLK_SPIP) (\<lambda>_.
     bind (tsb_clk_enable TSB_CLK_SPIS) (\<lambda>_.
     bind (modify (\<lambda>s. s\<lparr>spi_clk_usage_count := spi_clk_usage_count s + 1\<rparr>)) (\<lambda>_.
     bind (putreg32 SPIM_SSI_DISABLE SPIM_SSIENR) (\<lambda>_.
     bind (putreg32 SPIM_CTRLR0_VALUE SPIM_CTRLR0) (\<lambda>_.
     bind (putreg32 SPIM_SCKDV SPIM_BAUDR) (\<lambda>_.
     bind (putreg32 SPIM_SLAVE_SELECT SPIM_SER) (\<lambda>_.
     return 0))))))))"

text \<open>The read command with the 24-bit flash address, sent once the controller is enabled.\<close>

definition spi_start :: "u32 \<Rightarrow> ('a spi_scheme, unit) prog" where
  "spi_start ndf =
     bind (putreg32 ndf SPIM_CTRLR1) (\<lambda>_.
     bind (putreg32 SPIM_SSI_ENABLE SPIM_SSIENR) (\<lambda>_.
     bind (gets current_addr) (\<lambda>addr.
     putreg32 (push_bit 24 SPI_FLASH_READ_CMD OR addr) SPIM_DR0)))"

text \<open>
  The receive loop over the frame count \<open>c\<close> and the bytes stored so far: each frame is stored most
  significant byte first. The loop stores as many frames as the controller delivers; storing over
  the whole 4 GiB address space is undefined behaviour.
\<close>

definition spi_frame :: "env \<Rightarrow> u32 \<times> bytes \<Rightarrow> ('a spi_scheme, u32 \<times> bytes + u32 \<times> bytes) prog" where
  "spi_frame E = (\<lambda>(c, stored).
     bind (getreg32 E SPIM_SR) (\<lambda>sr.
     if c \<noteq> 0 \<and> sr AND (SPIM_SR_BUSY OR SPIM_SR_RFNE) = 0 then return (Inr (c, stored))
     else if sr AND SPIM_SR_RFNE \<noteq> 0 then
       bind (getreg32 E SPIM_DR0) (\<lambda>dr.
       bind (assert_or_fault (length stored + 4 < 2 ^ 32)) (\<lambda>_.
       return (Inl (c + 1, stored @ rev (u32_bytes dr)))))
     else return (Inl (c, stored))))"

definition spi_receive :: "env \<Rightarrow> ('a spi_scheme, u32 \<times> bytes) prog" where
  "spi_receive E = loopM (spi_frame E) (0, [])"

text \<open>The trailing one to three bytes: one more frame, of which the leading \<open>count\<close> bytes are stored.\<close>

definition spi_trailing :: "env \<Rightarrow> nat \<Rightarrow> ('a spi_scheme, bytes) prog" where
  "spi_trailing E count =
     bind (spi_start 0) (\<lambda>_.
     bind (loopM (\<lambda>_.
       bind (getreg32 E SPIM_SR) (\<lambda>sr.
       if sr AND SPIM_SR_RFNE \<noteq> 0 then
         bind (getreg32 E SPIM_DR0) (\<lambda>dr. return (Inr (take count (rev (u32_bytes dr)))))
       else return (Inl ()))) ()) (\<lambda>bs.
     bind (putreg32 SPIM_SSI_DISABLE SPIM_SSIENR) (\<lambda>_.
     bind (modify (\<lambda>s. s\<lparr>current_addr := current_addr s + word_of_nat count\<rparr>)) (\<lambda>_.
     return bs))))"

definition data_load_spi_load :: "env \<Rightarrow> u32 \<Rightarrow> bool \<Rightarrow> ('a spi_scheme, int \<times> bytes) prog" where
  "data_load_spi_load E len hash =
     (let count = drop_bit 2 len
      in if len = 0 then return (0, [])
      else
        bind (modify (\<lambda>s. s\<lparr>current_addr := current_addr s AND 0x00FFFFFF\<rparr>)) (\<lambda>_.
        if count > 0xFFFF then return (-1, [])
        else
          bind (spi_start (count - 1)) (\<lambda>_.
          bind (spi_receive E) (\<lambda>(c, stored).
          bind (putreg32 SPIM_SSI_DISABLE SPIM_SSIENR) (\<lambda>_.
          if c \<noteq> count then return (-1, stored)
          else
            bind (modify (\<lambda>s. s\<lparr>current_addr := (current_addr s + (len AND NOT 3)) AND 0x00FFFFFF\<rparr>)) (\<lambda>_.
            bind (if len AND 3 \<noteq> 0 then spi_trailing E (unat (len AND 3)) else return []) (\<lambda>rest.
            bind (if hash then hash_update (stored @ rest) else skip) (\<lambda>_.
            return (0, stored @ rest)))))))))"

definition data_load_spi_read :: "env \<Rightarrow> u32 \<Rightarrow> u32 \<Rightarrow> ('a spi_scheme, int \<times> bytes) prog" where
  "data_load_spi_read E addr len =
     bind (modify (\<lambda>s. s\<lparr>current_addr := addr\<rparr>)) (\<lambda>_.
     if len = 0 then return (0, []) else data_load_spi_load E len False)"

definition data_load_spi_finish :: "bool \<Rightarrow> bool \<Rightarrow> ('a spi_scheme, int) prog" where
  "data_load_spi_finish valid is_secure_image =
     bind (modify (\<lambda>s. s\<lparr>spi_clk_usage_count := spi_clk_usage_count s - 1\<rparr>)) (\<lambda>_.
     bind (gets spi_clk_usage_count) (\<lambda>n.
     bind (if n = 0 then bind (tsb_clk_disable TSB_CLK_SPIP) (\<lambda>_. tsb_clk_disable TSB_CLK_SPIS)
           else skip) (\<lambda>_.
     return 0)))"

definition spi_ops :: "env \<Rightarrow> 'a spi_scheme data_load_ops" where
  "spi_ops E = \<lparr>ops_init = data_load_spi_init, ops_read = Some (data_load_spi_read E),
     ops_load = \<lambda>_. data_load_spi_load E, ops_finish = data_load_spi_finish\<rparr>"

section \<open>Frames\<close>

text \<open>Only the history, the flash address and the hash context have changed.\<close>

definition spi_effect :: "'a spi_scheme \<Rightarrow> 'a spi_scheme \<Rightarrow> bool" where
  "spi_effect s t \<longleftrightarrow> (\<exists>ev a sh. t = s\<lparr>io := ev @ io s, current_addr := a, shctx := sh\<rparr>)"

text \<open>Only the history and the flash address have changed.\<close>

definition spi_moves :: "'a spi_scheme \<Rightarrow> 'a spi_scheme \<Rightarrow> bool" where
  "spi_moves s t \<longleftrightarrow> (\<exists>ev a. t = s\<lparr>io := ev @ io s, current_addr := a\<rparr>)"

lemma spi_moves_trans: "spi_moves s t \<Longrightarrow> spi_moves t u \<Longrightarrow> spi_moves s u"
  unfolding spi_moves_def by (elim exE) (rule_tac x = "eva @ ev" in exI, rule_tac x = aa in exI, simp)

interpretation spi_moves: state_rel spi_moves
proof
  fix s :: "'a spi_scheme"
  show "spi_moves s s" unfolding spi_moves_def by (rule exI [of _ "[]"], rule exI [of _ "current_addr s"]) simp
qed (rule spi_moves_trans)

lemma only_io_moves: "preserves only_io m \<Longrightarrow> preserves spi_moves (m :: ('a spi_scheme, 'b) prog)"
proof
  fix s :: "'a spi_scheme"
  assume "preserves only_io m"
  then obtain ev where "outcome_state (m s) = s\<lparr>io := ev @ io s\<rparr>"
    by (auto simp: preserves_def only_io_def)
  then show "spi_moves s (outcome_state (m s))"
    unfolding spi_moves_def by (intro exI [of _ ev] exI [of _ "current_addr s"]) simp
qed

lemma addr_moves: "spi_moves s (s\<lparr>current_addr := a\<rparr>)"
  unfolding spi_moves_def by (rule exI [of _ "[]"], rule exI [of _ a]) simp

lemma moves_addr: "preserves spi_moves (modify (\<lambda>s. s\<lparr>current_addr := f s\<rparr>))"
  by (rule spi_moves.pres_modify) (rule addr_moves)

lemma spi_start_moves: "preserves spi_moves (spi_start ndf)"
  unfolding spi_start_def
  by (intro spi_moves.pres_intros only_io_moves putreg32_only_io)

lemma spi_receive_moves: "preserves spi_moves (spi_receive E)"
  unfolding spi_receive_def spi_frame_def by (rule only_io_moves) (intro io_intros)

lemma spi_trailing_moves: "preserves spi_moves (spi_trailing E count)"
  unfolding spi_trailing_def
  by (intro spi_moves.pres_intros only_io_moves [OF putreg32_only_io] only_io_moves [OF getreg32_only_io]
      spi_start_moves moves_addr)

section \<open>What a load delivers\<close>

lemma spi_receive_length:
  assumes "spi_receive E s = Ret (c, stored) t"
  shows "length stored = 4 * unat c \<and> c \<noteq> 0"
proof -
  let ?I = "\<lambda>(p :: u32 \<times> bytes) (_ :: 'a spi_scheme). length (snd p) = 4 * unat (fst p) \<and> length (snd p) < 2 ^ 32"
  have succ: "unat (c' + 1) = unat c' + 1" if "4 * unat c' + 4 < 2 ^ 32" for c' :: u32
    using that by (simp add: unat_plus_if')
  have "wp (spi_receive E) (\<lambda>p _. length (snd p) = 4 * unat (fst p) \<and> fst p \<noteq> 0) (\<lambda>_ _. True) s"
    unfolding spi_receive_def
    by (rule wp_loopM [where I = ?I]) (auto simp: spi_frame_def wp_simps succ split: prod.splits)
  then show ?thesis using assms by (auto simp: wp_def)
qed

lemma spi_trailing_length:
  assumes "spi_trailing E count s = Ret bs t" "count \<le> 4"
  shows "length bs = count"
proof -
  have "wp (spi_trailing E count) (\<lambda>bs _. length bs = count) (\<lambda>_ _. True) s"
    unfolding spi_trailing_def wp_simps spi_start_def
    by (rule wp_loopM [where I = "\<lambda>_ _. True"]) (use assms(2) in \<open>auto simp: wp_simps\<close>)
  then show ?thesis using assms(1) by (auto simp: wp_def)
qed

lemma unat_split_2: "unat (len :: u32) = 4 * unat (drop_bit 2 len) + unat (len AND 3)"
proof -
  have "(3 :: u32) = mask 2" by (simp add: mask_eq_exp_minus_1)
  then have "unat (len AND 3) = unat (take_bit 2 len)" by (simp only: take_bit_eq_mask)
  also have "\<dots> = take_bit 2 (unat len)" by (rule unsigned_take_bit_eq)
  finally have "unat (len AND 3) = unat len mod 4" by (simp add: take_bit_eq_mod)
  then show ?thesis by (simp add: unat_drop_bit_word)
qed

lemma unat_and_3: "unat ((len :: u32) AND 3) \<le> 3"
  using word_and_le1 [of len 3] by (simp add: word_le_nat_alt)

lemma whole_words: "(len :: u32) AND NOT 3 = word_of_nat (4 * unat (drop_bit 2 len))"
proof -
  have "(3 :: u32) = mask 2" by (simp add: mask_eq_exp_minus_1)
  moreover have "len AND NOT (mask 2) = push_bit 2 (drop_bit 2 len)"
    by (intro bit_word_eqI) (auto simp: bit_simps not_less le_iff_add)
  ultimately have "len AND NOT 3 = push_bit 2 (drop_bit 2 len)" by (simp only:)
  then show ?thesis by (simp add: push_bit_eq_mult mult.commute)
qed

text \<open>The part of a load after the receive loop has delivered the right number of frames.\<close>

lemma spi_load_tail:
  assumes "bind (modify (\<lambda>s. s\<lparr>current_addr := f s\<rparr>)) (\<lambda>_.
      bind (if len AND 3 \<noteq> 0 then spi_trailing E (unat (len AND 3)) else return []) (\<lambda>rest.
      bind (if h then hash_update (stored @ rest) else skip) (\<lambda>_.
      return (0, stored @ rest)))) s = Ret (rc, bs) t"
    and "length stored = 4 * unat (drop_bit 2 (len :: u32))"
  shows "rc = 0 \<and> length bs = unat len \<and>
    (\<exists>u. spi_moves s u \<and> (if h then hash_update bs u = Ret () t else t = u))"
proof -
  let ?s1 = "s\<lparr>current_addr := f s\<rparr>"
  from assms(1) obtain r u where
    u: "(if len AND 3 \<noteq> 0 then spi_trailing E (unat (len AND 3)) else return []) ?s1 = Ret r u" and
    t: "(if h then hash_update (stored @ r) else skip) u = Ret () t" and
    ret: "rc = 0" "bs = stored @ r"
    by (auto simp: return_def modify_def elim!: bind_eq_RetE)
  have "unat (len AND 3) \<le> 4" using unat_and_3 [of len] by simp
  then have "length r = unat (len AND 3)"
    using u spi_trailing_length [of E "unat (len AND 3)" ?s1 r u]
    by (auto simp: return_def split: if_splits)
  moreover have "spi_moves ?s1 u"
    using u preserves_RetD [OF spi_trailing_moves, of E "unat (len AND 3)" ?s1 r u] spi_moves.refl [of ?s1]
    by (auto simp: return_def split: if_splits)
  with addr_moves have "spi_moves s u" by (rule spi_moves_trans)
  ultimately show ?thesis
    using ret t assms(2) unat_split_2 [of len] by (auto simp: skip_def return_def intro!: exI [of _ u])
qed

lemma spi_load_cases:
  assumes "data_load_spi_load E len h s = Ret (rc, bs) t" "len \<noteq> 0"
  shows "rc = -1 \<and> spi_moves s t \<or>
    rc = 0 \<and> length bs = unat len \<and> 4 \<le> unat len \<and>
      (\<exists>u. spi_moves s u \<and> (if h then hash_update bs u = Ret () t else t = u))"
proof (cases "drop_bit 2 len > 0xFFFF")
  case True
  then show ?thesis using assms by (auto simp: data_load_spi_load_def return_def modify_def addr_moves)
next
  case False
  let ?count = "drop_bit 2 len"
  let ?s1 = "s\<lparr>current_addr := current_addr s AND 0x00FFFFFF\<rparr>"
  from assms False obtain s2 s3 s4 c stored where
    s2: "spi_start (?count - 1) ?s1 = Ret () s2" and
    s3: "spi_receive E s2 = Ret (c, stored) s3" and
    s4: "putreg32 SPIM_SSI_DISABLE SPIM_SSIENR s3 = Ret () s4" and
    rest: "(if c \<noteq> ?count then return (-1, stored)
        else
          bind (modify (\<lambda>s. s\<lparr>current_addr := (current_addr s + (len AND NOT 3)) AND 0x00FFFFFF\<rparr>)) (\<lambda>_.
          bind (if len AND 3 \<noteq> 0 then spi_trailing E (unat (len AND 3)) else return []) (\<lambda>rest.
          bind (if h then hash_update (stored @ rest) else skip) (\<lambda>_.
          return (0, stored @ rest))))) s4 = Ret (rc, bs) t"
    by (auto simp: data_load_spi_load_def Let_def modify_def elim!: bind_eq_RetE)
  have m4: "spi_moves s s4"
    using addr_moves preserves_RetD [OF spi_start_moves s2] preserves_RetD [OF spi_receive_moves s3]
      preserves_RetD [OF only_io_moves [OF putreg32_only_io] s4]
    by (blast intro: spi_moves_trans)
  show ?thesis
  proof (cases "c = ?count")
    case False
    then show ?thesis using rest m4 by (simp add: return_def)
  next
    case True
    have c: "length stored = 4 * unat ?count" "0 < unat ?count"
      using spi_receive_length [OF s3] True by (auto simp: unat_gt_0)
    have "4 \<le> unat len" using c(2) unat_split_2 [of len] by linarith
    with spi_load_tail [OF rest [unfolded True simp_thms if_False] c(1)] m4 show ?thesis
      by (blast intro: spi_moves_trans)
  qed
qed

text \<open>The state after a load, as a frame: the loader's own fields, and nothing else.\<close>

lemma hash_update_effect: "hash_update bs u = Ret x t \<Longrightarrow> \<exists>sh. t = u\<lparr>shctx := sh\<rparr>"
  by (auto simp: hash_update_def prog_defs split: if_splits) (metis crypto.surjective crypto.update_convs(5))

lemma moves_effect: "spi_moves s u \<Longrightarrow> spi_effect s (u\<lparr>shctx := sh\<rparr>)"
  by (auto simp: spi_effect_def spi_moves_def)

lemma moves_effect_id: "spi_moves s u \<Longrightarrow> spi_effect s u"
  using moves_effect [of s u "shctx u"] by simp

lemma spi_load_effect:
  assumes "data_load_spi_load E len h s = Ret (rc, bs) t"
  shows "spi_effect s t"
proof (cases "len = 0")
  case True
  with assms show ?thesis
    using moves_effect_id [OF spi_moves.refl] by (simp add: data_load_spi_load_def return_def)
next
  case False
  show ?thesis
    using spi_load_cases [OF assms False]
    by (auto dest!: hash_update_effect intro: moves_effect moves_effect_id split: if_splits)
qed

lemma spi_effect_trans: "spi_effect s t \<Longrightarrow> spi_effect t u \<Longrightarrow> spi_effect s u"
  unfolding spi_effect_def
  by (elim exE) (rule_tac x = "eva @ ev" in exI, rule_tac x = aa in exI, rule_tac x = sha in exI, simp)

lemma moves_hash_fed: "spi_moves s u \<Longrightarrow> hash_fed d u = hash_fed d s"
  "spi_moves s u \<Longrightarrow> crypto_ready u = crypto_ready s"
  by (auto simp: spi_moves_def hash_fed_def crypto_ready_def)

lemma spi_load_fed:
  assumes "hash_fed d s" "data_load_spi_load E len h s = Ret (0, bs) t"
  shows "hash_fed (if h then d @ bs else d) t"
proof (cases "len = 0")
  case True
  with assms show ?thesis by (auto simp: data_load_spi_load_def return_def)
next
  case False
  then obtain u where u: "spi_moves s u" "if h then hash_update bs u = Ret () t else t = u"
    using spi_load_cases [OF assms(2)] by auto
  have "hash_fed d u" using assms(1) u(1) by (simp add: moves_hash_fed)
  with u(2) hash_update_run [of d u bs] show ?thesis by (auto split: if_splits)
qed

lemma spi_load_ready:
  assumes "crypto_ready s" "data_load_spi_load E len False s = Ret (rc, bs) t"
  shows "crypto_ready t"
proof (cases "len = 0")
  case True
  with assms show ?thesis by (auto simp: data_load_spi_load_def return_def)
next
  case False
  with spi_load_cases [OF assms(2)] have "spi_moves s t" by auto
  with assms(1) show ?thesis by (simp add: moves_hash_fed)
qed

lemma spi_load_exact: "data_load_spi_load E len h s = Ret (0, bs) t \<Longrightarrow> length bs = unat len"
  using spi_load_cases [of E len h s 0 bs t]
  by (cases "len = 0") (auto simp: data_load_spi_load_def return_def)

interpretation spi: loader "\<lambda>_. data_load_spi_load E" spi_effect for E
proof
  fix n h d bs r and s t u :: "'a spi_scheme"
  show "spi_effect s s" by (rule moves_effect_id [OF spi_moves.refl])
  show "spi_effect s t \<Longrightarrow> spi_effect t u \<Longrightarrow> spi_effect s u" by (rule spi_effect_trans)
  show "data_load_spi_load E n h s = Ret r t \<Longrightarrow> spi_effect s t"
    by (cases r) (simp add: spi_load_effect)
  show "data_load_spi_load E n h s = Ret (0, bs) t \<Longrightarrow> length bs = unat n" by (rule spi_load_exact)
  show "hash_fed d s \<Longrightarrow> data_load_spi_load E n h s = Ret (0, bs) t \<Longrightarrow> hash_fed (if h then d @ bs else d) t"
    by (rule spi_load_fed)
  show "crypto_ready s \<Longrightarrow> data_load_spi_load E n False s = Ret r t \<Longrightarrow> crypto_ready t"
    by (cases r) (simp add: spi_load_ready)
qed

section \<open>A flash behind the controller\<close>

text \<open>
  A flash memory with contents \<open>img\<close> (addresses wrap at 24 bits) on the SPI controller, as a
  function of the history: the last read command gives the address, the last write of the frame
  count how many frames will come, and the reads of the data register since the command how many
  have been taken.
\<close>

fun flash_cmd :: "io_event list \<Rightarrow> u32" where
  "flash_cmd [] = 0"
| "flash_cmd (WrReg a v # h) = (if a = SPIM_DR0 then v else flash_cmd h)"
| "flash_cmd (_ # h) = flash_cmd h"

fun flash_frames :: "io_event list \<Rightarrow> nat" where
  "flash_frames [] = 0"
| "flash_frames (WrReg a v # h) = (if a = SPIM_CTRLR1 then Suc (unat v) else flash_frames h)"
| "flash_frames (_ # h) = flash_frames h"

fun flash_taken :: "io_event list \<Rightarrow> nat" where
  "flash_taken [] = 0"
| "flash_taken (WrReg a v # h) = (if a = SPIM_DR0 then 0 else flash_taken h)"
| "flash_taken (RdReg a v # h) = (if a = SPIM_DR0 then Suc (flash_taken h) else flash_taken h)"
| "flash_taken (_ # h) = flash_taken h"

definition flash_bytes :: "(u32 \<Rightarrow> u8) \<Rightarrow> u32 \<Rightarrow> nat \<Rightarrow> bytes" where
  "flash_bytes img addr n = map (\<lambda>i. img ((addr + word_of_nat i) AND 0x00FFFFFF)) [0..<n]"

definition flash_on_spi :: "env \<Rightarrow> (u32 \<Rightarrow> u8) \<Rightarrow> bool" where
  "flash_on_spi E img \<longleftrightarrow>
     (\<forall>h. dev E h SPIM_SR = (if flash_taken h < flash_frames h then SPIM_SR_RFNE else 0)) \<and>
     (\<forall>h. rev (u32_bytes (dev E h SPIM_DR0)) =
        flash_bytes img ((flash_cmd h AND 0x00FFFFFF) + 4 * word_of_nat (flash_taken h)) 4)"

lemma flash_bytes_add:
  "flash_bytes img a (m + n) = flash_bytes img a m @ flash_bytes img (a + word_of_nat m) n"
  by (rule nth_equalityI) (auto simp: flash_bytes_def nth_append algebra_simps simp flip: of_nat_add)

lemma length_flash_bytes [simp]: "length (flash_bytes img a n) = n"
  by (simp add: flash_bytes_def)

lemma spi_regs_distinct:
  "SPIM_SR \<noteq> SPIM_DR0" "SPIM_DR0 \<noteq> SPIM_CTRLR1" "SPIM_DR0 \<noteq> SPIM_SSIENR" "SPIM_SSIENR \<noteq> SPIM_CTRLR1"
  by (simp_all add: SPI_BASE_def)

text \<open>The receive loop takes the remaining \<open>n\<close> frames and stops.\<close>

lemma flash_receive:
  assumes "flash_on_spi E img" and "flash_frames (io s) = flash_taken (io s) + n"
    and "length stored = 4 * unat c" "unat c + n < 2 ^ 30" "0 < unat c + n"
  shows "\<exists>ev. loopM (spi_frame E) (c, stored) s =
     Ret (c + word_of_nat n, stored @
        flash_bytes img ((flash_cmd (io s) AND 0x00FFFFFF) + 4 * word_of_nat (flash_taken (io s))) (4 * n))
       (s\<lparr>io := ev @ io s\<rparr>)"
  using assms(2-)
proof (induction n arbitrary: c stored s)
  case 0
  have "c \<noteq> 0" using 0(4) by (auto simp: unat_gt_0)
  moreover have "dev E (io s) SPIM_SR = 0" using assms(1) 0(1) by (simp add: flash_on_spi_def)
  ultimately show ?case
    by (intro exI [of _ "[RdReg SPIM_SR 0]"] loopM_Inr)
      (simp add: spi_frame_def getreg32_def prog_defs flash_bytes_def)
next
  case (Suc n)
  let ?a = "(flash_cmd (io s) AND 0x00FFFFFF) + 4 * word_of_nat (flash_taken (io s))"
  let ?dr = "dev E (RdReg SPIM_SR SPIM_SR_RFNE # io s) SPIM_DR0"
  let ?ev = "[RdReg SPIM_DR0 ?dr, RdReg SPIM_SR SPIM_SR_RFNE]"
  let ?st = "stored @ rev (u32_bytes ?dr)" and ?s = "s\<lparr>io := ?ev @ io s\<rparr>"
  have sr: "dev E (io s) SPIM_SR = SPIM_SR_RFNE" using assms(1) Suc.prems(1) by (simp add: flash_on_spi_def)
  have dr: "rev (u32_bytes ?dr) = flash_bytes img ?a 4"
    using assms(1) by (simp add: flash_on_spi_def spi_regs_distinct)
  have c: "unat (c + 1) = unat c + 1" using Suc.prems(3) by (simp add: unat_plus_if')
  have len: "length ?st = 4 * unat (c + 1)" using Suc.prems(2) by (simp add: c)
  have h: "flash_cmd (io ?s) = flash_cmd (io s)" "flash_taken (io ?s) = Suc (flash_taken (io s))"
    "flash_frames (io ?s) = flash_frames (io s)" by (simp_all add: spi_regs_distinct)
  obtain ev where ev: "loopM (spi_frame E) (c + 1, ?st) ?s =
     Ret (c + 1 + word_of_nat n, ?st @ flash_bytes img (?a + 4) (4 * n)) (?s\<lparr>io := ev @ io ?s\<rparr>)"
    using Suc.IH [OF _ len, of ?s] Suc.prems(1,3) c unfolding h by (auto simp: algebra_simps)
  have "spi_frame E (c, stored) s = Ret (Inl (c + 1, ?st)) ?s"
    using sr Suc.prems(2,3) by (simp add: spi_frame_def getreg32_def prog_defs Let_def)
  from loopM_Inl_Ret [OF this ev] show ?case
    unfolding dr using flash_bytes_add [of img ?a 4 "4 * n"]
    by (intro exI [of _ "ev @ ?ev"]) (simp add: algebra_simps)
qed

lemma mask_24: "(0x00FFFFFF :: u32) = mask 24"
  by (simp add: mask_eq_exp_minus_1)

lemma wrap_24: "((a AND 0x00FFFFFF) + b) AND 0x00FFFFFF = ((a :: u32) + b) AND 0x00FFFFFF"
proof -
  have "uint (take_bit 24 (take_bit 24 a + b)) = (uint a mod 2 ^ 24 + uint b) mod 2 ^ 32 mod 2 ^ 24"
    by (simp only: unsigned_take_bit_eq uint_word_ariths) (simp add: take_bit_eq_mod)
  also have "\<dots> = (uint a mod 2 ^ 24 + uint b) mod 2 ^ 24" by (rule mod_mod_cancel) simp
  also have "\<dots> = (uint a + uint b) mod 2 ^ 24" by (rule mod_add_left_eq)
  also have "\<dots> = (uint a + uint b) mod 2 ^ 32 mod 2 ^ 24" by (rule mod_mod_cancel [symmetric]) simp
  also have "\<dots> = uint (take_bit 24 (a + b))"
    by (simp only: unsigned_take_bit_eq uint_word_ariths) (simp add: take_bit_eq_mod)
  finally have "take_bit 24 (take_bit 24 a + b) = take_bit 24 (a + b)" by (simp only: word_uint_eq_iff)
  then show ?thesis by (simp add: mask_24 flip: take_bit_eq_mask)
qed

lemma flash_bytes_wrap: "flash_bytes img (a AND 0x00FFFFFF) n = flash_bytes img a n"
  by (simp add: flash_bytes_def wrap_24)

lemma flash_bytes_wrap2: "flash_bytes img ((a AND 0x00FFFFFF) + b) n = flash_bytes img (a + b) n"
  using flash_bytes_wrap [of img "(a AND 0x00FFFFFF) + b" n] flash_bytes_wrap [of img "a + b" n]
  by (simp add: wrap_24)

lemma take_flash_bytes: "k \<le> n \<Longrightarrow> take k (flash_bytes img a n) = flash_bytes img a k"
  by (simp add: flash_bytes_def take_map)

lemma read_cmd_addr: "(push_bit 24 SPI_FLASH_READ_CMD OR a) AND 0x00FFFFFF = a AND (0x00FFFFFF :: u32)"
proof (rule bit_word_eqI)
  fix n
  show "bit ((push_bit 24 SPI_FLASH_READ_CMD OR a) AND (0x00FFFFFF :: u32)) n = bit (a AND 0x00FFFFFF) n"
    unfolding mask_24 by (simp only: bit_and_iff bit_or_iff bit_mask_iff bit_push_bit_iff) auto
qed

lemma spi_start_flash:
  obtains h where "spi_start ndf s = Ret () (s\<lparr>io := h @ io s\<rparr>)"
    "flash_cmd (h @ io s) AND 0x00FFFFFF = current_addr s AND 0x00FFFFFF"
    "flash_taken (h @ io s) = 0" "flash_frames (h @ io s) = Suc (unat ndf)"
proof (rule that)
  let ?h = "[WrReg SPIM_DR0 (push_bit 24 SPI_FLASH_READ_CMD OR current_addr s),
    WrReg SPIM_SSIENR SPIM_SSI_ENABLE, WrReg SPIM_CTRLR1 ndf]"
  show "spi_start ndf s = Ret () (s\<lparr>io := ?h @ io s\<rparr>)"
    by (simp add: spi_start_def putreg32_def prog_defs)
  show "flash_cmd (?h @ io s) AND 0x00FFFFFF = current_addr s AND 0x00FFFFFF"
    using read_cmd_addr by simp
  show "flash_taken (?h @ io s) = 0" by simp
  show "flash_frames (?h @ io s) = Suc (unat ndf)" by (simp add: spi_regs_distinct)
qed

lemma flash_trailing:
  assumes "flash_on_spi E img" "count \<le> 4"
  shows "\<exists>ev. spi_trailing E count s = Ret (flash_bytes img (current_addr s) count)
    (s\<lparr>io := ev @ io s, current_addr := current_addr s + word_of_nat count\<rparr>)"
proof -
  obtain h where h: "spi_start 0 s = Ret () (s\<lparr>io := h @ io s\<rparr>)"
    "flash_cmd (h @ io s) AND 0x00FFFFFF = current_addr s AND 0x00FFFFFF"
    "flash_taken (h @ io s) = 0" "flash_frames (h @ io s) = Suc (unat (0 :: u32))" by (rule spi_start_flash)
  let ?dr = "dev E (RdReg SPIM_SR SPIM_SR_RFNE # h @ io s) SPIM_DR0"
  have sr: "dev E (h @ io s) SPIM_SR = SPIM_SR_RFNE" using assms(1) h by (simp add: flash_on_spi_def)
  have dr: "rev (u32_bytes ?dr) = flash_bytes img (current_addr s) 4"
    using assms(1) h(2,3) flash_bytes_wrap [of img "current_addr s" 4]
    by (simp add: flash_on_spi_def spi_regs_distinct)
  have "loopM (\<lambda>_. bind (getreg32 E SPIM_SR) (\<lambda>sr. if sr AND SPIM_SR_RFNE \<noteq> 0 then
         bind (getreg32 E SPIM_DR0) (\<lambda>dr. return (Inr (take count (rev (u32_bytes dr)))))
       else return (Inl ()))) () (s\<lparr>io := h @ io s\<rparr>) =
     Ret (take count (rev (u32_bytes ?dr))) (s\<lparr>io := RdReg SPIM_DR0 ?dr # RdReg SPIM_SR SPIM_SR_RFNE # h @ io s\<rparr>)"
    using sr by (intro loopM_Inr) (simp add: getreg32_def prog_defs Let_def)
  then show ?thesis
    unfolding dr take_flash_bytes [OF assms(2)] spi_trailing_def
    by (intro exI [of _ "WrReg SPIM_SSIENR SPIM_SSI_DISABLE # RdReg SPIM_DR0 ?dr # RdReg SPIM_SR SPIM_SR_RFNE # h"])
      (simp add: h(1) putreg32_def modify_def return_def)
qed

lemma flash_rest:
  assumes "flash_on_spi E img" "unat k \<le> 3"
  shows "\<exists>u. spi_moves s u \<and> current_addr u = current_addr s + word_of_nat (unat k) \<and>
    (if k \<noteq> 0 then spi_trailing E (unat k) else return []) s = Ret (flash_bytes img (current_addr s) (unat k)) u"
proof (cases "k = 0")
  case True
  then show ?thesis by (auto simp: return_def flash_bytes_def spi_moves.refl)
next
  case False
  obtain ev where ev: "spi_trailing E (unat k) s = Ret (flash_bytes img (current_addr s) (unat k))
      (s\<lparr>io := ev @ io s, current_addr := current_addr s + word_of_nat (unat k)\<rparr>)"
    using flash_trailing [OF assms(1), of "unat k" s] assms(2) by auto
  with preserves_RetD [OF spi_trailing_moves ev] False show ?thesis by simp
qed

lemma flash_load_addr:
  assumes "flash_on_spi E img" "4 \<le> unat len" "drop_bit 2 len \<le> 0xFFFF"
  shows "\<exists>u. spi_moves s u \<and> current_addr u AND 0x00FFFFFF = (current_addr s + len) AND 0x00FFFFFF \<and>
    data_load_spi_load E len h s =
      bind (if h then hash_update (flash_bytes img (current_addr s) (unat len)) else skip)
        (\<lambda>_. return (0, flash_bytes img (current_addr s) (unat len))) u"
proof -
  let ?count = "drop_bit 2 len" and ?s1 = "s\<lparr>current_addr := current_addr s AND 0x00FFFFFF\<rparr>"
  let ?n = "unat ?count" and ?k = "unat (len AND 3)"
  have n: "0 < ?n" "?n < 2 ^ 30"
    using assms(2,3) unat_split_2 [of len] unat_and_3 [of len] by (auto simp: word_le_nat_alt)
  have n1: "Suc (unat (?count - 1)) = ?n"
    using n(1) unat_minus_one [of ?count] by (auto simp: unat_gt_0)
  obtain h1 where h1: "spi_start (?count - 1) ?s1 = Ret () (?s1\<lparr>io := h1 @ io ?s1\<rparr>)"
    "flash_cmd (h1 @ io ?s1) AND 0x00FFFFFF = current_addr ?s1 AND 0x00FFFFFF"
    "flash_taken (h1 @ io ?s1) = 0" "flash_frames (h1 @ io ?s1) = Suc (unat (?count - 1))"
    by (rule spi_start_flash)
  obtain h2 where h2: "spi_receive E (?s1\<lparr>io := h1 @ io ?s1\<rparr>) =
      Ret (?count, flash_bytes img (current_addr s) (4 * ?n)) (?s1\<lparr>io := h2 @ h1 @ io ?s1\<rparr>)"
    using flash_receive [OF assms(1), of "?s1\<lparr>io := h1 @ io ?s1\<rparr>" ?n "[]" 0] n n1 h1
      flash_bytes_wrap [of img "current_addr s" "4 * ?n"]
    by (auto simp: spi_receive_def)
  let ?a3 = "(current_addr ?s1 + (len AND NOT 3)) AND 0x00FFFFFF"
  let ?s3 = "?s1\<lparr>io := WrReg SPIM_SSIENR SPIM_SSI_DISABLE # h2 @ h1 @ io ?s1, current_addr := ?a3\<rparr>"
  have rest: "flash_bytes img ?a3 ?k = flash_bytes img (current_addr s + word_of_nat (4 * ?n)) ?k"
    unfolding whole_words by (simp add: flash_bytes_wrap flash_bytes_wrap2 wrap_24)
  have all: "flash_bytes img (current_addr s) (4 * ?n) @ flash_bytes img ?a3 ?k =
      flash_bytes img (current_addr s) (unat len)"
    unfolding rest flash_bytes_add [symmetric] using unat_split_2 [of len] by simp
  obtain u where u: "spi_moves ?s3 u" "current_addr u = ?a3 + word_of_nat ?k"
    "(if len AND 3 \<noteq> 0 then spi_trailing E ?k else return []) ?s3 = Ret (flash_bytes img ?a3 ?k) u"
    using flash_rest [OF assms(1), of "len AND 3" ?s3] unat_and_3 [of len] that by auto
  have "word_of_nat (unat len) = (word_of_nat (4 * ?n) + word_of_nat ?k :: u32)"
    by (subst unat_split_2) (simp only: of_nat_add)
  then have "word_of_nat (4 * ?n) + word_of_nat ?k = len" by simp
  then have next_addr: "current_addr u AND 0x00FFFFFF = (current_addr s + len) AND 0x00FFFFFF"
    unfolding u(2) whole_words wrap_24 by (simp add: wrap_24 add.assoc)
  have "spi_moves s ?s3"
    unfolding spi_moves_def
    by (rule exI [of _ "WrReg SPIM_SSIENR SPIM_SSI_DISABLE # h2 @ h1"], rule exI [of _ ?a3]) simp
  with u(1) have "spi_moves s u" by (blast intro: spi_moves_trans)
  moreover have "data_load_spi_load E len h s =
      bind (if h then hash_update (flash_bytes img (current_addr s) (unat len)) else skip)
        (\<lambda>_. return (0, flash_bytes img (current_addr s) (unat len))) u"
  proof -
    have "len \<noteq> 0" "\<not> ?count > 0xFFFF" using assms(2,3) by auto
    moreover have "putreg32 SPIM_SSI_DISABLE SPIM_SSIENR (?s1\<lparr>io := h2 @ h1 @ io ?s1\<rparr>) =
      Ret () (?s1\<lparr>io := WrReg SPIM_SSIENR SPIM_SSI_DISABLE # h2 @ h1 @ io ?s1\<rparr>)"
      by (simp add: putreg32_def)
    ultimately show ?thesis
      unfolding data_load_spi_load_def Let_def all [symmetric]
      using h1(1) h2 u(3) by (simp add: modify_def)
  qed
  ultimately show ?thesis using next_addr by blast
qed

lemma flash_load:
  assumes "flash_on_spi E img" "4 \<le> unat len" "drop_bit 2 len \<le> 0xFFFF"
  shows "\<exists>u. spi_moves s u \<and>
    data_load_spi_load E len h s =
      bind (if h then hash_update (flash_bytes img (current_addr s) (unat len)) else skip)
        (\<lambda>_. return (0, flash_bytes img (current_addr s) (unat len))) u"
  using flash_load_addr [OF assms, of s h] by blast

lemma flash_read:
  assumes "flash_on_spi E img" "4 \<le> unat len" "unat len < 0x40000"
  shows "\<exists>t. data_load_spi_read E addr len s = Ret (0, flash_bytes img addr (unat len)) t \<and> spi_effect s t"
proof -
  let ?s = "s\<lparr>current_addr := addr\<rparr>"
  have "drop_bit 2 len \<le> 0xFFFF"
    using assms(3) unat_split_2 [of len] by (simp add: word_le_nat_alt)
  from flash_load [OF assms(1,2) this, of ?s False] obtain u where
    "spi_moves ?s u" "data_load_spi_load E len False ?s = Ret (0, flash_bytes img addr (unat len)) u"
    by (auto simp: skip_def return_def)
  moreover have "len \<noteq> 0" using assms(2) by auto
  ultimately show ?thesis
    using spi_moves_trans [OF addr_moves [of s addr], of u]
    by (auto simp: data_load_spi_read_def modify_def moves_effect_id)
qed

text \<open>An environment with such a flash.\<close>

definition flash_env :: "(u32 \<Rightarrow> u8) \<Rightarrow> env" where
  "flash_env img = es3_env (\<lambda>h a.
     if a = SPIM_SR then (if flash_taken h < flash_frames h then SPIM_SR_RFNE else 0)
     else if a = SPIM_DR0 then
       get_u32 (rev (flash_bytes img ((flash_cmd h AND 0x00FFFFFF) + 4 * word_of_nat (flash_taken h)) 4)) 0
     else 0)"

lemma u32_bytes_get_u32: "u32_bytes (get_u32 [a, b, c, d] 0) = [a, b, c, d]"
proof -
  define y2 where "y2 = unat c + 256 * unat d"
  define y1 where "y1 = unat b + 256 * y2"
  define n where "n = unat a + 256 * y1"
  have lt: "unat a < 256" "unat b < 256" "unat c < 256" "unat d < 256"
    using unsigned_less [where ?'a = nat, of a] unsigned_less [where ?'a = nat, of b]
      unsigned_less [where ?'a = nat, of c] unsigned_less [where ?'a = nat, of d] by simp_all
  have "n < 2 ^ 32" using lt unfolding n_def y1_def y2_def by simp
  then have w: "unat (word_of_nat n :: u32) = n" by (simp add: unat_of_nat take_bit_nat_eq_self)
  have y: "n div 256 = y1" "y1 div 256 = y2" "y2 div 256 = unat d" "n mod 256 = unat a"
    "y1 mod 256 = unat b" "y2 mod 256 = unat c"
    using lt by (simp_all add: n_def y1_def y2_def del: distrib_left_numeral add_mult_distrib2)
  have "n div 65536 = n div 256 div 256" "n div 16777216 = n div 256 div 256 div 256"
    by (simp_all flip: div_mult2_eq)
  then have "n div 65536 mod 256 = unat c" "n div 16777216 mod 256 = unat d"
    using lt(4) by (simp_all add: y)
  moreover have "get_u32 [a, b, c, d] 0 = word_of_nat n"
    by (simp add: get_u32_def n_def y1_def y2_def)
  ultimately show ?thesis
    by (simp add: u32_bytes_def word_unat_eq_iff unat_ucast_u8 unat_drop_bit_word w y)
qed

lemma flash_env_ok: "flash_on_spi (flash_env img) img"
proof -
  have "rev (u32_bytes (get_u32 (rev (flash_bytes img a 4)) 0)) = flash_bytes img a 4" for a
    by (simp add: flash_bytes_def upt_rec u32_bytes_get_u32)
  then show ?thesis by (simp add: flash_on_spi_def flash_env_def es3_env_def spi_regs_distinct)
qed

definition reset_spi :: spi where
  "reset_spi = crypto.extend reset_crypto \<lparr>current_addr = 0, spi_clk_usage_count = 0\<rparr>"

section \<open>Properties\<close>


text \<open>A state in which the hash has just been started.\<close>

definition hashing_spi :: spi where
  "hashing_spi = reset_spi\<lparr>sha256_init_func := Some Shs256_init, sha256_process_func := Some Shs256_process,
     sha256_hash_func := Some Shs256_hash, rsa2048_verify_func := Some Rsa_verify,
     shctx := shs256_init (shctx reset_spi)\<rparr>"


text \<open>
  With a flash memory on the SPI controller, a read of any length from four bytes up to the
  controller's limit returns, reports success, and delivers the flash contents at the requested
  address (wrapping at 24 bits as the flash does).
\<close>

theorem spi_read_flash:
  assumes "flash_on_spi E img" "4 \<le> unat len" "unat len < 0x40000"
  shows "\<exists>t. data_load_spi_read E addr len s = Ret (0, flash_bytes img addr (unat len)) t \<and> spi_effect s t"
  using flash_read [OF assms] .

theorem spi_read_flash_witness:
  "\<exists>t. data_load_spi_read (flash_env (\<lambda>a. ucast a)) 0x1000 6 reset_spi = Ret (0, [0, 1, 2, 3, 4, 5]) t"
  using spi_read_flash [OF flash_env_ok, of 6 "\<lambda>a. ucast a" "0x1000" reset_spi]
  by (auto simp: flash_bytes_def upt_rec)

text \<open>
  A load of one, two or three bytes never succeeds: the word count of such a load is zero, but
  the receive loop only ends after a frame has arrived.
\<close>

theorem spi_short_load_fails:
  assumes "0 < unat len" "unat len < 4"
  shows "data_load_spi_load E len h s \<noteq> Ret (0, bs) t"
  using spi_load_cases [of E len h s 0 bs t] assms by (auto simp: unat_gt_0)

theorem spi_short_load_fails_witness:
  "data_load_spi_load (flash_env (\<lambda>a. ucast a)) 2 False reset_spi \<noteq> Ret (0, [0, 1]) reset_spi"
  using spi_short_load_fails [of 2] by simp

end
