(* ===== verification/Ffff.thy ===== *)
theory Ffff
  imports Spi
begin

text \<open>
  The flash format for firmware (\<^verbatim>\<open>common/src/ffff.c\<close>, \<^verbatim>\<open>common/shared_inc/ffff.h\<close>): finding the
  newest valid table of elements in a flash memory and the newest element of a wanted type in it.
  Validation is split into a function that computes the error code, if any, and the wrapper that
  reports it. The theory gives a declarative meaning to the validation and shows that it is exactly
  what the nested scanning loops decide; that the element chosen is the newest of its type in a
  valid table; and that the flash is positioned at that element.
\<close>

section \<open>Headers\<close>

abbreviation (input) "FFFF_HEADER_SIZE_MIN \<equiv> 512 :: u32"
abbreviation (input) "MAX_FFFF_HEADER_SIZE_SUPPORTED \<equiv> 4096 :: u32"
abbreviation (input) "FFFF_ERASE_BLOCK_SIZE_MAX \<equiv> 524288 :: u32"
abbreviation (input) "FFFF_SENTINEL_SIZE \<equiv> 16 :: nat"
abbreviation (input) "FFFF_ELEMENT_STAGE_2_FW \<equiv> 0x01 :: u32"
abbreviation (input) "FFFF_ELEMENT_STAGE_3_FW \<equiv> 0x02 :: u32"
abbreviation (input) "FFFF_ELEMENT_END \<equiv> 0xfe :: u8"

text \<open>The characters of \<^verbatim>\<open>"FlashFormatForFW"\<close>.\<close>

definition ffff_sentinel_value :: bytes where
  "ffff_sentinel_value =
     [0x46, 0x6c, 0x61, 0x73, 0x68, 0x46, 0x6f, 0x72, 0x6d, 0x61, 0x74, 0x46, 0x6f, 0x72, 0x46, 0x57]"

record ffff_element =
  element_type :: u8
  element_class :: u32
  element_id :: u32
  element_length :: u32
  element_location :: u32
  element_generation :: u32

text \<open>Element \<open>k\<close> of the table, which starts at byte 116 of the header.\<close>

definition element_offset :: "nat \<Rightarrow> nat" where
  "element_offset k = 116 + 20 * k"

definition element_at :: "bytes \<Rightarrow> nat \<Rightarrow> ffff_element" where
  "element_at h k =
     (let off = element_offset k
      in \<lparr>element_type = h ! off, element_class = drop_bit 8 (get_u32 h off),
          element_id = get_u32 h (off + 4), element_length = get_u32 h (off + 8),
          element_location = get_u32 h (off + 12), element_generation = get_u32 h (off + 16)\<rparr>)"

definition flash_capacity :: "bytes \<Rightarrow> u32" where "flash_capacity h = get_u32 h 80"
definition erase_block_size :: "bytes \<Rightarrow> u32" where "erase_block_size h = get_u32 h 84"
definition ffff_header_size :: "bytes \<Rightarrow> u32" where "ffff_header_size h = get_u32 h 88"
definition flash_image_length :: "bytes \<Rightarrow> u32" where "flash_image_length h = get_u32 h 92"
definition header_generation :: "bytes \<Rightarrow> u32" where "header_generation h = get_u32 h 96"

definition get_trailing_sentinel :: "bytes \<Rightarrow> bytes" where
  "get_trailing_sentinel h = drop (unat (ffff_header_size h) - FFFF_SENTINEL_SIZE) h"

definition is_element_out_of_range :: "bytes \<Rightarrow> nat \<Rightarrow> bool" where
  "is_element_out_of_range h k \<longleftrightarrow> element_offset k + (16 + 20) \<ge> unat (ffff_header_size h)"

section \<open>Validation\<close>

definition element_end :: "ffff_element \<Rightarrow> u32" where
  "element_end e = element_location e + element_length e - 1"

definition element_location_min :: "bytes \<Rightarrow> u32" where
  "element_location_min h =
     (if erase_block_size h < ffff_header_size h then push_bit 1 (ffff_header_size h)
      else push_bit 1 (erase_block_size h))"

definition elements_collide :: "ffff_element \<Rightarrow> ffff_element \<Rightarrow> bool" where
  "elements_collide this that \<longleftrightarrow>
     element_end that \<ge> element_location this \<and> element_location that \<le> element_end this"

definition elements_duplicate :: "ffff_element \<Rightarrow> ffff_element \<Rightarrow> bool" where
  "elements_duplicate this that \<longleftrightarrow>
     element_type this = element_type that \<and> element_id this = element_id that \<and>
     element_generation this = element_generation that"

text \<open>The loop over the elements behind \<open>this\<close>, from index \<open>j\<close>: the error it reports, if any.\<close>

function scan_other_elements :: "bytes \<Rightarrow> ffff_element \<Rightarrow> nat \<Rightarrow> u32 option" where
  "scan_other_elements h this j =
     (if is_element_out_of_range h j \<or> element_type (element_at h j) = FFFF_ELEMENT_END then None
      else if elements_collide this (element_at h j) then Some BRE_FFFF_ELT_COLLISION
      else if elements_duplicate this (element_at h j) then Some BRE_FFFF_ELT_DUPLICATE
      else scan_other_elements h this (Suc j))"
  by auto
termination
  by (relation "measure (\<lambda>(h, _, j). unat (ffff_header_size h) - j)")
    (auto simp: is_element_out_of_range_def element_offset_def)

text \<open>
  \<^verbatim>\<open>valid_ffff_element\<close>: \<open>Inl err\<close> is an invalid element with the error reported, \<open>Inr end\<close> a valid
  one, with \<open>end\<close> set for the end-of-table marker.
\<close>

definition valid_ffff_element :: "bytes \<Rightarrow> nat \<Rightarrow> u32 + bool" where
  "valid_ffff_element h k =
     (let e = element_at h k
      in if element_type e = FFFF_ELEMENT_END then Inr True
      else if element_location e < element_location_min h \<or> element_end e \<ge> flash_image_length h
        then Inl BRE_FFFF_ELT_RESERVED_MEMORY
      else if \<not> block_aligned (element_location e) (erase_block_size h) then Inl BRE_FFFF_ELT_ALIGNMENT
      else case scan_other_elements h e (Suc k) of Some err \<Rightarrow> Inl err | None \<Rightarrow> Inr False)"

text \<open>The loop of \<^verbatim>\<open>validate_ffff_header\<close> over the element table, from index \<open>k\<close>.\<close>

function scan_element_table :: "bytes \<Rightarrow> nat \<Rightarrow> u32 option" where
  "scan_element_table h k =
     (if is_element_out_of_range h k then Some BRE_FFFF_NO_TABLE_END
      else case valid_ffff_element h k of
        Inl err \<Rightarrow> Some err
      | Inr end \<Rightarrow> if end then None else scan_element_table h (Suc k))"
  by auto
termination
  by (relation "measure (\<lambda>(h, k). unat (ffff_header_size h) - k)")
    (auto simp: is_element_out_of_range_def element_offset_def)

declare scan_other_elements.simps [simp del] scan_element_table.simps [simp del]

definition ffff_header_error :: "bytes \<Rightarrow> u32 option" where
  "ffff_header_error h =
     (if memcmp (get_trailing_sentinel h) ffff_sentinel_value FFFF_SENTINEL_SIZE \<noteq> 0 then Some BRE_FFFF_SENTINEL
      else if erase_block_size h > FFFF_ERASE_BLOCK_SIZE_MAX then Some BRE_FFFF_BLOCK_SIZE
      else if flash_capacity h < push_bit 1 (erase_block_size h) then Some BRE_FFFF_FLASH_CAPACITY
      else if flash_image_length h > flash_capacity h then Some BRE_FFFF_IMAGE_LENGTH
      else scan_element_table h 0)"

definition validate_ffff_header :: "env \<Rightarrow> bytes \<Rightarrow> ('a errs_scheme, int) prog" where
  "validate_ffff_header E h =
     (case ffff_header_error h of
        None \<Rightarrow> return 0
      | Some err \<Rightarrow> bind (set_last_error E err) (\<lambda>_. return (-1)))"

section \<open>State\<close>

datatype ffff_buf = Header1 | Header2

record ffff = spi +
  header1 :: bytes
  header2 :: bytes
  cur_header :: ffff_buf
  cur_element :: "nat option"

fun header_buf :: "ffff_buf \<Rightarrow> 'a ffff_scheme \<Rightarrow> bytes" where
  "header_buf Header1 s = header1 s"
| "header_buf Header2 s = header2 s"

fun set_header_buf :: "ffff_buf \<Rightarrow> bytes \<Rightarrow> 'a ffff_scheme \<Rightarrow> 'a ffff_scheme" where
  "set_header_buf Header1 b s = s\<lparr>header1 := b\<rparr>"
| "set_header_buf Header2 b s = s\<lparr>header2 := b\<rparr>"

section \<open>Loading and choosing a header\<close>

text \<open>The read operation stores what it delivers at offset \<open>off\<close> of a header buffer.\<close>

definition read_header_part ::
    "(u32 \<Rightarrow> u32 \<Rightarrow> ('a ffff_scheme, int \<times> bytes) prog) \<Rightarrow> ffff_buf \<Rightarrow> nat \<Rightarrow> u32 \<Rightarrow> u32 \<Rightarrow>
     ('a ffff_scheme, int) prog" where
  "read_header_part rd w off addr n =
     bind (rd addr n) (\<lambda>(rc, bs).
     bind (gets (header_buf w)) (\<lambda>buf.
     bind (assert_or_fault (fits buf off bs)) (\<lambda>_.
     bind (modify (set_header_buf w (put_bytes buf off bs))) (\<lambda>_.
     return rc))))"

definition load_ffff_header ::
    "env \<Rightarrow> (u32 \<Rightarrow> u32 \<Rightarrow> ('a ffff_scheme, int \<times> bytes) prog) \<Rightarrow> ffff_buf \<Rightarrow> u32 \<Rightarrow>
     ('a ffff_scheme, int \<times> bool) prog" where
  "load_ffff_header E rd w addr =
     bind (read_header_part rd w 0 addr FFFF_HEADER_SIZE_MIN) (\<lambda>rc.
     if rc \<noteq> 0 then bind (set_last_error E BRE_FFFF_LOAD_HEADER) (\<lambda>_. return (-1, False))
     else
       bind (gets (header_buf w)) (\<lambda>h.
       if memcmp h ffff_sentinel_value FFFF_SENTINEL_SIZE \<noteq> 0
       then bind (set_last_error E BRE_FFFF_SENTINEL) (\<lambda>_. return (0, False))
       else if ffff_header_size h < FFFF_HEADER_SIZE_MIN \<or> ffff_header_size h > MAX_FFFF_HEADER_SIZE_SUPPORTED
       then bind (set_last_error E BRE_FFFF_HEADER_SIZE) (\<lambda>_. return (0, False))
       else
         bind (if ffff_header_size h \<noteq> FFFF_HEADER_SIZE_MIN
               then read_header_part rd w 512 (addr + FFFF_HEADER_SIZE_MIN)
                      (ffff_header_size h - FFFF_HEADER_SIZE_MIN)
               else return 0) (\<lambda>rc.
         if rc \<noteq> 0 then bind (set_last_error E BRE_FFFF_LOAD_HEADER) (\<lambda>_. return (-1, False))
         else
           bind (gets (header_buf w)) (\<lambda>h.
           bind (validate_ffff_header E h) (\<lambda>v. return (0, v = 0))))))"

text \<open>
  The addresses tried for the second header when there is no first one: from
  \<^verbatim>\<open>FFFF_HEADER_SIZE_MIN\<close>, doubling, below twice the largest erase block.
\<close>

definition second_header_addresses :: "u32 list" where
  "second_header_addresses = map (\<lambda>k. push_bit k FFFF_HEADER_SIZE_MIN) [0..<11]"

primrec search_second_header ::
    "env \<Rightarrow> (u32 \<Rightarrow> u32 \<Rightarrow> ('a ffff_scheme, int \<times> bytes) prog) \<Rightarrow> u32 list \<Rightarrow> ('a ffff_scheme, int) prog" where
  "search_second_header E rd [] = bind (set_last_error E BRE_FFFF_HEADER_NOT_FOUND) (\<lambda>_. return (-1))"
| "search_second_header E rd (addr # addrs) =
     bind (load_ffff_header E rd Header2 addr) (\<lambda>(rc, valid_header).
     if rc \<noteq> 0 then return (-1)
     else if valid_header then
       bind (modify (\<lambda>s. s\<lparr>cur_header := Header2\<rparr>)) (\<lambda>_.
       bind (init_last_error E) (\<lambda>_. return 0))
     else search_second_header E rd addrs)"

definition locate_ffff_table ::
    "env \<Rightarrow> (u32 \<Rightarrow> u32 \<Rightarrow> ('a ffff_scheme, int \<times> bytes) prog) \<Rightarrow> ('a ffff_scheme, int) prog" where
  "locate_ffff_table E rd =
     bind (modify (\<lambda>s. s\<lparr>cur_header := Header1\<rparr>)) (\<lambda>_.
     bind (load_ffff_header E rd Header1 0) (\<lambda>(rc, valid_header).
     if rc \<noteq> 0 then return (-1)
     else if \<not> valid_header then search_second_header E rd second_header_addresses
     else
       bind (gets header1) (\<lambda>h.
       let address = (if erase_block_size h < ffff_header_size h then ffff_header_size h
                      else erase_block_size h)
       in bind (load_ffff_header E rd Header2 address) (\<lambda>(rc, valid_header).
       if rc \<noteq> 0 then return (-1)
       else if \<not> valid_header then bind (init_last_error E) (\<lambda>_. return 0)
       else
         bind get_state (\<lambda>s.
         bind (if header_generation (header2 s) > header_generation (header1 s)
               then modify (\<lambda>s. s\<lparr>cur_header := Header2\<rparr>) else skip) (\<lambda>_.
         bind (init_last_error E) (\<lambda>_. return 0)))))))"

section \<open>Choosing an element\<close>

text \<open>The loop of \<^verbatim>\<open>locate_element\<close> from index \<open>k\<close>, with the best element so far.\<close>

function newest_element :: "bytes \<Rightarrow> u32 \<Rightarrow> nat \<Rightarrow> nat option \<Rightarrow> nat option" where
  "newest_element h ty k best =
     (if element_offset k + 16 + 20 \<le> unat (ffff_header_size h) then
        (let e = element_at h k
         in if element_type e = FFFF_ELEMENT_END then best
            else newest_element h ty (Suc k)
              (if ucast (element_type e) = ty \<and>
                  (case best of None \<Rightarrow> True
                   | Some b \<Rightarrow> element_generation (element_at h b) < element_generation e)
               then Some k else best))
      else best)"
  by auto
termination
  by (relation "measure (\<lambda>(h, _, k, _). unat (ffff_header_size h) - k)")
    (auto simp: element_offset_def)

declare newest_element.simps [simp del]

definition locate_element :: "env \<Rightarrow> u32 \<Rightarrow> ('a ffff_scheme, int \<times> u32) prog" where
  "locate_element E ty =
     bind (gets (\<lambda>s. header_buf (cur_header s) s)) (\<lambda>h.
     let best = newest_element h ty 0 None
     in bind (modify (\<lambda>s. s\<lparr>cur_element := best\<rparr>)) (\<lambda>_.
     case best of
       None \<Rightarrow> bind (set_last_error E BRE_FFFF_NO_FIRMWARE) (\<lambda>_. return (-1, 0))
     | Some k \<Rightarrow> return (0, element_length (element_at h k))))"

definition locate_ffff_element_on_storage ::
    "env \<Rightarrow> 'a ffff_scheme data_load_ops \<Rightarrow> u32 \<Rightarrow> ('a ffff_scheme, int \<times> u32) prog" where
  "locate_ffff_element_on_storage E ops ty =
     (case ops_read ops of
        None \<Rightarrow> bind (set_last_error E BRE_FFFF_LOGIC_ERROR) (\<lambda>_. return (-1, 0))
      | Some rd \<Rightarrow>
          bind (locate_ffff_table E rd) (\<lambda>rc.
          if rc \<noteq> 0 then return (-1, 0)
          else
            bind (locate_element E ty) (\<lambda>(rc, len).
            if rc \<noteq> 0 then return (-1, len)
            else
              bind get_state (\<lambda>s.
              case cur_element s of
                None \<Rightarrow> stop_with Fault
              | Some k \<Rightarrow>
                  bind (rd (element_location (element_at (header_buf (cur_header s) s) k)) 0) (\<lambda>_.
                  return (0, len))))))"

section \<open>What validation means\<close>

text \<open>
  The table ends at index \<open>n\<close>: every element before it lies behind the two headers and inside the
  image, is aligned to an erase block, and neither overlaps nor duplicates another one.
\<close>

definition element_placed :: "bytes \<Rightarrow> ffff_element \<Rightarrow> bool" where
  "element_placed h e \<longleftrightarrow>
     element_location_min h \<le> element_location e \<and> element_end e < flash_image_length h \<and>
     block_aligned (element_location e) (erase_block_size h)"

definition ffff_table_ok :: "bytes \<Rightarrow> nat \<Rightarrow> bool" where
  "ffff_table_ok h n \<longleftrightarrow>
     \<not> is_element_out_of_range h n \<and> element_type (element_at h n) = FFFF_ELEMENT_END \<and>
     (\<forall>k < n. element_type (element_at h k) \<noteq> FFFF_ELEMENT_END \<and> element_placed h (element_at h k)) \<and>
     (\<forall>k < n. \<forall>j < n. k < j \<longrightarrow>
        \<not> elements_collide (element_at h k) (element_at h j) \<and>
        \<not> elements_duplicate (element_at h k) (element_at h j))"

definition ffff_wf :: "bytes \<Rightarrow> bool" where
  "ffff_wf h \<longleftrightarrow>
     memcmp (get_trailing_sentinel h) ffff_sentinel_value FFFF_SENTINEL_SIZE = 0 \<and>
     erase_block_size h \<le> FFFF_ERASE_BLOCK_SIZE_MAX \<and>
     push_bit 1 (erase_block_size h) \<le> flash_capacity h \<and>
     flash_image_length h \<le> flash_capacity h \<and>
     (\<exists>n. ffff_table_ok h n)"

lemma out_of_range_mono: "is_element_out_of_range h k \<Longrightarrow> k \<le> j \<Longrightarrow> is_element_out_of_range h j"
  by (simp add: is_element_out_of_range_def element_offset_def)

lemma scan_others_None:
  assumes "\<not> is_element_out_of_range h n" "element_type (element_at h n) = FFFF_ELEMENT_END"
    and "\<forall>i < n. element_type (element_at h i) \<noteq> FFFF_ELEMENT_END" and "j \<le> n"
  shows "scan_other_elements h this j = None \<longleftrightarrow>
    (\<forall>i. j \<le> i \<and> i < n \<longrightarrow>
       \<not> elements_collide this (element_at h i) \<and> \<not> elements_duplicate this (element_at h i))"
  using assms(4)
proof (induction rule: inc_induct)
  case base
  show ?case using assms(2) by (subst scan_other_elements.simps) auto
next
  case (step j)
  have "\<not> is_element_out_of_range h j" using assms(1) out_of_range_mono step by fastforce
  then show ?case
    using assms(3) step unfolding all_from_Suc [OF step(2)]
    by (subst scan_other_elements.simps) auto
qed

lemma scan_table_None:
  "scan_element_table h k = None \<longleftrightarrow>
    (\<exists>n \<ge> k. \<not> is_element_out_of_range h n \<and> element_type (element_at h n) = FFFF_ELEMENT_END \<and>
      (\<forall>i. k \<le> i \<and> i < n \<longrightarrow> valid_ffff_element h i = Inr False))"
proof (induction h k rule: scan_element_table.induct)
  case (1 h k)
  let ?Q = "\<lambda>n. \<not> is_element_out_of_range h n \<and> element_type (element_at h n) = FFFF_ELEMENT_END"
  let ?P = "\<lambda>i. valid_ffff_element h i = Inr False"
  have eq: "(\<exists>n \<ge> k. \<not> is_element_out_of_range h n \<and> element_type (element_at h n) = FFFF_ELEMENT_END \<and>
      (\<forall>i. k \<le> i \<and> i < n \<longrightarrow> ?P i)) \<longleftrightarrow> (\<exists>n \<ge> k. ?Q n \<and> (\<forall>i. k \<le> i \<and> i < n \<longrightarrow> ?P i))" for k
    by auto
  have out: "\<not> (\<exists>n \<ge> k. ?Q n \<and> (\<forall>i. k \<le> i \<and> i < n \<longrightarrow> ?P i))" if "is_element_out_of_range h k"
    using that out_of_range_mono by blast
  have marker: "valid_ffff_element h k = Inr True \<longleftrightarrow> element_type (element_at h k) = FFFF_ELEMENT_END"
    by (auto simp: valid_ffff_element_def Let_def split: option.splits)
  show ?case
    unfolding eq
  proof (cases "is_element_out_of_range h k")
    case True
    then show "scan_element_table h k = None \<longleftrightarrow> (\<exists>n \<ge> k. ?Q n \<and> (\<forall>i. k \<le> i \<and> i < n \<longrightarrow> ?P i))"
      using out by (subst scan_element_table.simps) auto
  next
    case False
    then show "scan_element_table h k = None \<longleftrightarrow> (\<exists>n \<ge> k. ?Q n \<and> (\<forall>i. k \<le> i \<and> i < n \<longrightarrow> ?P i))"
      using 1 marker unfolding eq ex_from_Suc [of k ?Q ?P]
      by (subst scan_element_table.simps) (auto split: sum.splits)
  qed
qed

lemma valid_element_iff:
  "valid_ffff_element h k = Inr False \<longleftrightarrow>
    element_type (element_at h k) \<noteq> FFFF_ELEMENT_END \<and> element_placed h (element_at h k) \<and>
    scan_other_elements h (element_at h k) (Suc k) = None"
  by (auto simp: valid_ffff_element_def element_placed_def Let_def not_less not_le split: option.splits)

lemma table_ok_iff: "scan_element_table h 0 = None \<longleftrightarrow> (\<exists>n. ffff_table_ok h n)"
proof -
  have "(\<forall>i < n. valid_ffff_element h i = Inr False) \<longleftrightarrow>
      (\<forall>k < n. element_type (element_at h k) \<noteq> FFFF_ELEMENT_END \<and> element_placed h (element_at h k)) \<and>
      (\<forall>k < n. \<forall>j < n. k < j \<longrightarrow> \<not> elements_collide (element_at h k) (element_at h j) \<and>
        \<not> elements_duplicate (element_at h k) (element_at h j))"
    if "\<not> is_element_out_of_range h n" "element_type (element_at h n) = FFFF_ELEMENT_END" for n
    using scan_others_None [OF that] unfolding valid_element_iff by (auto simp: Suc_le_eq)
  then have "(\<not> is_element_out_of_range h n \<and> element_type (element_at h n) = FFFF_ELEMENT_END \<and>
      (\<forall>i < n. valid_ffff_element h i = Inr False)) = ffff_table_ok h n" for n
    unfolding ffff_table_ok_def by blast
  then show ?thesis by (simp add: scan_table_None)
qed

section \<open>The newest element\<close>

text \<open>\<open>best\<close> is the first of the newest elements of type \<open>ty\<close> among the first \<open>n\<close>.\<close>

definition newest_of :: "bytes \<Rightarrow> u32 \<Rightarrow> nat \<Rightarrow> nat option \<Rightarrow> bool" where
  "newest_of h ty n best \<longleftrightarrow>
     (case best of
        None \<Rightarrow> \<forall>j < n. ucast (element_type (element_at h j)) \<noteq> ty
      | Some b \<Rightarrow>
          b < n \<and> ucast (element_type (element_at h b)) = ty \<and>
          (\<forall>j < n. ucast (element_type (element_at h j)) = ty \<longrightarrow>
             element_generation (element_at h j) \<le> element_generation (element_at h b)) \<and>
          (\<forall>j < b. ucast (element_type (element_at h j)) = ty \<longrightarrow>
             element_generation (element_at h j) < element_generation (element_at h b)))"

lemma newest_of_step:
  assumes "newest_of h ty k best"
  shows "newest_of h ty (Suc k)
    (if ucast (element_type (element_at h k)) = ty \<and>
        (case best of None \<Rightarrow> True
         | Some b \<Rightarrow> element_generation (element_at h b) < element_generation (element_at h k))
     then Some k else best)"
  using assms
  by (cases best) (auto simp: newest_of_def less_Suc_eq not_less intro: le_less_trans less_imp_le)

lemma newest_element_correct:
  assumes "ffff_table_ok h n" "k \<le> n" "newest_of h ty k best"
  shows "newest_of h ty n (newest_element h ty k best)"
  using assms(2,3)
proof (induction arbitrary: best rule: inc_induct)
  case base
  with assms(1) show ?case
    by (subst newest_element.simps) (auto simp: ffff_table_ok_def Let_def)
next
  case (step k)
  have "element_offset k + 16 + 20 \<le> unat (ffff_header_size h)" "element_type (element_at h k) \<noteq> FFFF_ELEMENT_END"
    using assms(1) step(2)
    by (auto simp: ffff_table_ok_def is_element_out_of_range_def element_offset_def)
  then show ?case
    using step.IH [OF newest_of_step [OF step.prems]]
    by (subst newest_element.simps) (simp add: Let_def)
qed

section \<open>A reader that leaves the tables alone\<close>

definition ffff_frame :: "'a ffff_scheme \<Rightarrow> 'a ffff_scheme \<Rightarrow> bool" where
  "ffff_frame s t \<longleftrightarrow>
     header1 t = header1 s \<and> header2 t = header2 s \<and> cur_header t = cur_header s \<and> cur_element t = cur_element s"

lemma only_errs_frame: "only_errs s t \<Longrightarrow> ffff_frame s t"
  by (auto simp: only_errs_def ffff_frame_def)

lemma errors_frame:
  "set_last_error E e s = Ret x t \<Longrightarrow> ffff_frame s t"
  "init_last_error E s = Ret x t \<Longrightarrow> ffff_frame s t"
  using preserves_RetD [OF set_last_error_only_errs] preserves_RetD [OF init_last_error_only_errs]
  by (blast intro: only_errs_frame)+

text \<open>What a header that was accepted looks like.\<close>

definition ffff_valid :: "bytes \<Rightarrow> bool" where
  "ffff_valid h \<longleftrightarrow>
     memcmp h ffff_sentinel_value FFFF_SENTINEL_SIZE = 0 \<and>
     FFFF_HEADER_SIZE_MIN \<le> ffff_header_size h \<and> ffff_header_size h \<le> MAX_FFFF_HEADER_SIZE_SUPPORTED \<and>
     ffff_wf h"

lemma validate_run:
  "validate_ffff_header E h s = Ret v t \<Longrightarrow> only_errs s t \<and> (v = 0 \<longleftrightarrow> ffff_header_error h = None)"
  using preserves_RetD [OF set_last_error_only_errs]
  by (auto simp: validate_ffff_header_def return_def only_errs.refl split: option.splits elim!: bind_eq_RetE)

lemma header_error_iff: "ffff_header_error h = None \<longleftrightarrow> ffff_wf h"
  by (auto simp: ffff_header_error_def ffff_wf_def table_ok_iff not_less)

lemma report_run:
  "bind (set_last_error E e) (\<lambda>_. return r) s = Ret r' t \<longleftrightarrow> set_last_error E e s = Ret () t \<and> r' = r"
  by (auto simp: bind_def return_def split: outcome.splits)

lemma header_prefix_kept:
  assumes "fits h 512 bs" "memcmp h ffff_sentinel_value FFFF_SENTINEL_SIZE = 0"
  shows "ffff_header_size (put_bytes h 512 bs) = ffff_header_size h \<and>
    memcmp (put_bytes h 512 bs) ffff_sentinel_value FFFF_SENTINEL_SIZE = 0"
proof -
  have len: "512 \<le> length h" "length (put_bytes h 512 bs) = length h" using assms(1) by (auto simp: fits_def)
  have "length ffff_sentinel_value = 16" by (simp add: ffff_sentinel_value_def)
  with len assms(2) show ?thesis
    by (simp add: ffff_header_size_def get_u32_put_bytes_below memcmp_0_iff take_put_bytes_below)
qed

text \<open>The other header buffer and the choice of header are as before.\<close>

definition other_kept :: "ffff_buf \<Rightarrow> 'a ffff_scheme \<Rightarrow> 'a ffff_scheme \<Rightarrow> bool" where
  "other_kept w s t \<longleftrightarrow> (\<forall>w'. w' \<noteq> w \<longrightarrow> header_buf w' t = header_buf w' s) \<and> cur_header t = cur_header s"

lemma frame_header_buf: "ffff_frame s t \<Longrightarrow> header_buf w t = header_buf w s"
  by (cases w) (auto simp: ffff_frame_def)

lemma frame_other_kept: "ffff_frame s t \<Longrightarrow> other_kept w s t"
  by (auto simp: other_kept_def frame_header_buf) (simp add: ffff_frame_def)

lemma other_kept_trans: "other_kept w s t \<Longrightarrow> other_kept w t u \<Longrightarrow> other_kept w s u"
  by (simp add: other_kept_def)

lemma set_header_buf_get: "header_buf w' (set_header_buf w b s) = (if w' = w then b else header_buf w' s)"
  by (cases w; cases w') auto

lemma cur_header_set [simp]: "cur_header (set_header_buf w b s) = cur_header s"
  by (cases w) auto

text \<open>
  The table that is used is a valid one, and no other valid table that was read is newer.
\<close>

definition newest_table :: "'a ffff_scheme \<Rightarrow> bool" where
  "newest_table t \<longleftrightarrow>
     ffff_valid (header_buf (cur_header t) t) \<and>
     (\<forall>w. ffff_valid (header_buf w t) \<longrightarrow>
        header_generation (header_buf w t) \<le> header_generation (header_buf (cur_header t) t))"

lemma all_ffff_buf: "(\<forall>w. P w) \<longleftrightarrow> P Header1 \<and> P Header2"
  by (metis ffff_buf.exhaust)

locale flash_reader =
  fixes rd :: "u32 \<Rightarrow> u32 \<Rightarrow> ('a ffff_scheme, int \<times> bytes) prog"
  assumes rd_frame: "rd a n s = Ret r t \<Longrightarrow> ffff_frame s t"
begin

lemma read_part:
  assumes "read_header_part rd w off a n s = Ret rc t"
  shows "other_kept w s t \<and> (\<exists>bs. fits (header_buf w s) off bs \<and> header_buf w t = put_bytes (header_buf w s) off bs)"
proof -
  from assms obtain bs u where u: "rd a n s = Ret (rc, bs) u" "fits (header_buf w u) off bs"
    "t = set_header_buf w (put_bytes (header_buf w u) off bs) u"
    by (auto simp: read_header_part_def return_def gets_def modify_def assert_or_fault_def skip_def
        stop_with_def elim!: bind_eq_RetE split: if_splits)
  from rd_frame [OF u(1)] have f: "ffff_frame s u" .
  with u show ?thesis
    by (auto simp: other_kept_def set_header_buf_get frame_header_buf) (simp add: ffff_frame_def)
qed

lemma load_header_run:
  assumes "load_ffff_header E rd w a s = Ret (rc, v) t"
  shows "other_kept w s t \<and> (rc = 0 \<longrightarrow> v = ffff_valid (header_buf w t))"
proof -
  obtain rc1 s1 where s1: "read_header_part rd w 0 a FFFF_HEADER_SIZE_MIN s = Ret rc1 s1"
    using assms by (auto simp: load_ffff_header_def elim!: bind_eq_RetE)
  let ?h = "header_buf w s1"
  let ?bad = "memcmp ?h ffff_sentinel_value FFFF_SENTINEL_SIZE \<noteq> 0 \<or>
      ffff_header_size ?h < FFFF_HEADER_SIZE_MIN \<or> ffff_header_size ?h > MAX_FFFF_HEADER_SIZE_SUPPORTED"
  have k1: "other_kept w s s1" using read_part [OF s1] by simp
  show ?thesis
  proof (cases "rc1 \<noteq> 0 \<or> ?bad")
    case True
    with assms s1 have e: "\<exists>e. set_last_error E e s1 = Ret () t" "\<not> v" "rc = 0 \<Longrightarrow> ?bad"
      by (auto simp: load_ffff_header_def gets_def report_run split: if_splits)
    then have f: "ffff_frame s1 t" using errors_frame(1) by blast
    have "\<not> ffff_valid ?h" if ?bad using that by (simp only: ffff_valid_def not_less [symmetric]) blast
    with e(2,3) have "rc = 0 \<longrightarrow> v = ffff_valid (header_buf w t)" by (simp add: frame_header_buf [OF f])
    moreover have "other_kept w s t" using k1 frame_other_kept [OF f] by (rule other_kept_trans)
    ultimately show ?thesis by blast
  next
    case False
    let ?part = "if ffff_header_size ?h \<noteq> FFFF_HEADER_SIZE_MIN
            then read_header_part rd w 512 (a + FFFF_HEADER_SIZE_MIN) (ffff_header_size ?h - FFFF_HEADER_SIZE_MIN)
            else return 0"
    let ?rest = "\<lambda>rc. if rc \<noteq> 0 then bind (set_last_error E BRE_FFFF_LOAD_HEADER) (\<lambda>_. return (-1, False))
         else bind (gets (header_buf w)) (\<lambda>h. bind (validate_ffff_header E h) (\<lambda>v. return (0, v = 0)))"
    have "bind ?part ?rest s1 = Ret (rc, v) t"
      using assms s1 False by (simp add: load_ffff_header_def gets_def)
    then obtain rc2 s2 where s2: "?part s1 = Ret rc2 s2" and rest: "?rest rc2 s2 = Ret (rc, v) t"
      by (rule bind_eq_RetE)
    have k12: "other_kept w s1 s2" and
      low: "header_buf w s2 = ?h \<or> (\<exists>bs. fits ?h 512 bs \<and> header_buf w s2 = put_bytes ?h 512 bs)"
      using s2 read_part [of w 512] by (auto simp: return_def other_kept_def split: if_splits)
    have k2: "other_kept w s s2" using k1 k12 by (rule other_kept_trans)
    have "ffff_header_size (header_buf w s2) = ffff_header_size ?h \<and>
        memcmp (header_buf w s2) ffff_sentinel_value FFFF_SENTINEL_SIZE = 0"
      using low False header_prefix_kept by auto
    then have valid: "ffff_header_error (header_buf w s2) = None \<longleftrightarrow> ffff_valid (header_buf w s2)"
      using False by (auto simp: ffff_valid_def header_error_iff not_less)
    show ?thesis
    proof (cases "rc2 = 0")
      case True
      with rest obtain x where x: "validate_ffff_header E (header_buf w s2) s2 = Ret x t" "rc = 0" "v = (x = 0)"
        by (auto simp: gets_def return_def elim!: bind_eq_RetE)
      have f: "ffff_frame s2 t" using validate_run [OF x(1)] only_errs_frame by blast
      then have "v = ffff_valid (header_buf w t)"
        using x(3) valid validate_run [OF x(1)] by (simp add: frame_header_buf)
      moreover have "other_kept w s t" using k2 frame_other_kept [OF f] by (rule other_kept_trans)
      ultimately show ?thesis by blast
    next
      case False
      with rest have "set_last_error E BRE_FFFF_LOAD_HEADER s2 = Ret () t" "rc = -1" by (auto simp: report_run)
      moreover have "other_kept w s t"
        using k2 frame_other_kept [OF errors_frame(1) [OF calculation(1)]] by (rule other_kept_trans)
      ultimately show ?thesis by simp
    qed
  qed
qed

lemma search_second_run:
  "search_second_header E rd addrs s = Ret 0 t \<Longrightarrow>
    cur_header t = Header2 \<and> ffff_valid (header2 t) \<and> header1 t = header1 s"
proof (induction addrs arbitrary: s)
  case Nil
  then show ?case by (simp add: report_run)
next
  case (Cons a addrs)
  then obtain rc v u where u: "load_ffff_header E rd Header2 a s = Ret (rc, v) u" and
    rest: "(if rc \<noteq> 0 then return (-1) else if v then
       bind (modify (\<lambda>s. s\<lparr>cur_header := Header2\<rparr>)) (\<lambda>_. bind (init_last_error E) (\<lambda>_. return 0))
     else search_second_header E rd addrs) u = Ret 0 t"
    by (auto elim!: bind_eq_RetE)
  have h1: "header1 u = header1 s"
    using load_header_run [OF u] by (auto simp: other_kept_def dest: spec [of _ Header1])
  show ?case
  proof (cases "rc = 0 \<and> v")
    case True
    with rest have "init_last_error E (u\<lparr>cur_header := Header2\<rparr>) = Ret () t"
      by (auto simp: modify_def return_def elim!: bind_eq_RetE)
    from errors_frame(2) [OF this] load_header_run [OF u] True h1 show ?thesis
      by (simp add: ffff_frame_def)
  qed (use rest Cons.IH h1 in \<open>auto simp: return_def split: if_splits\<close>)
qed

lemma locate_table_run:
  assumes "locate_ffff_table E rd s = Ret 0 t"
  shows "newest_table t"
proof -
  let ?s0 = "s\<lparr>cur_header := Header1\<rparr>"
  from assms obtain rc v u where u: "load_ffff_header E rd Header1 0 ?s0 = Ret (rc, v) u" "rc = 0"
    by (auto simp: locate_ffff_table_def modify_def return_def elim!: bind_eq_RetE split: if_splits)
  have h1u: "v = ffff_valid (header1 u)" "cur_header u = Header1"
    using load_header_run [OF u(1)] u(2) by (auto simp: other_kept_def)
  show ?thesis
  proof (cases v)
    case False
    with assms u have "search_second_header E rd second_header_addresses u = Ret 0 t"
      by (simp add: locate_ffff_table_def modify_def)
    from search_second_run [OF this] False h1u show ?thesis by (simp add: newest_table_def all_ffff_buf)
  next
    case True
    let ?addr = "if erase_block_size (header1 u) < ffff_header_size (header1 u)
      then ffff_header_size (header1 u) else erase_block_size (header1 u)"
    from assms u True obtain rc2 v2 w where w: "load_ffff_header E rd Header2 ?addr u = Ret (rc2, v2) w" "rc2 = 0"
      and rest: "(if \<not> v2 then bind (init_last_error E) (\<lambda>_. return 0)
       else
         bind get_state (\<lambda>s.
         bind (if header_generation (header2 s) > header_generation (header1 s)
               then modify (\<lambda>s. s\<lparr>cur_header := Header2\<rparr>) else skip) (\<lambda>_.
         bind (init_last_error E) (\<lambda>_. return 0)))) w = Ret (0 :: int) t"
      by (auto simp: locate_ffff_table_def modify_def gets_def Let_def return_def elim!: bind_eq_RetE split: if_splits)
    have hw: "ffff_valid (header1 w)" "cur_header w = Header1" "v2 = ffff_valid (header2 w)"
      using load_header_run [OF w(1)] h1u True w(2) by (auto simp: other_kept_def dest: spec [of _ Header1])
    have same: "w\<lparr>cur_header := Header1\<rparr> = w" using hw(2) by simp
    let ?c = "if v2 \<and> header_generation (header2 w) > header_generation (header1 w) then Header2 else Header1"
    have "init_last_error E (w\<lparr>cur_header := ?c\<rparr>) = Ret () t"
      using rest same
      by (auto simp: get_state_def modify_def skip_def return_def elim!: bind_eq_RetE split: if_splits)
    from errors_frame(2) [OF this] hw show ?thesis
      by (auto simp: newest_table_def all_ffff_buf ffff_frame_def not_less)
  qed
qed

lemma locate_element_run:
  assumes "locate_element E ty s = Ret (0, len) t" "ffff_valid (header_buf (cur_header s) s)"
  shows "\<exists>n k. t = s\<lparr>cur_element := Some k\<rparr> \<and> ffff_table_ok (header_buf (cur_header s) s) n \<and>
    newest_of (header_buf (cur_header s) s) ty n (Some k) \<and>
    len = element_length (element_at (header_buf (cur_header s) s) k)"
proof -
  let ?h = "header_buf (cur_header s) s"
  from assms(2) obtain n where n: "ffff_table_ok ?h n" by (auto simp: ffff_valid_def ffff_wf_def)
  have new: "newest_of ?h ty n (newest_element ?h ty 0 None)"
    by (rule newest_element_correct [OF n]) (simp_all add: newest_of_def)
  from assms(1) obtain k where "newest_element ?h ty 0 None = Some k" "t = s\<lparr>cur_element := Some k\<rparr>"
    "len = element_length (element_at ?h k)"
    by (auto simp: locate_element_def gets_def modify_def return_def report_run Let_def
        elim!: bind_eq_RetE split: option.splits)
  with n new show ?thesis by auto
qed

end

text \<open>The SPI flash is such a reader.\<close>

lemma spi_effect_frame: "spi_effect s t \<Longrightarrow> ffff_frame s t"
  by (auto simp: spi_effect_def ffff_frame_def)

lemma spi_read_effect:
  assumes "data_load_spi_read E a n s = Ret r t"
  shows "spi_effect s t"
proof (cases "n = 0")
  case True
  with assms show ?thesis
    by (auto simp: data_load_spi_read_def modify_def return_def addr_moves intro!: moves_effect_id)
next
  case False
  obtain rc bs where r: "r = (rc, bs)" by (cases r)
  with assms False have "data_load_spi_load E n False (s\<lparr>current_addr := a\<rparr>) = Ret (rc, bs) t"
    by (simp add: data_load_spi_read_def modify_def)
  with moves_effect_id [OF addr_moves] show ?thesis by (blast intro: spi_effect_trans spi_load_effect)
qed

interpretation spi_reader: flash_reader "data_load_spi_read E" for E
  by unfold_locales (blast intro: spi_effect_frame spi_read_effect)

section \<open>An example table\<close>

text \<open>
  A header of 512 bytes with two versions of a second-stage firmware, 4 KiB each, at 0x2000
  (generation 1) and at 0x3000 (generation 2), as the contents of its bytes.
\<close>

definition demo_byte :: "nat \<Rightarrow> u8" where
  "demo_byte i =
     (if i < 16 then ffff_sentinel_value ! i
      else if 496 \<le> i \<and> i < 512 then ffff_sentinel_value ! (i - 496)
      else if i = 82 \<or> i = 116 \<or> i = 132 \<or> i = 136 then 1
      else if i = 85 \<or> i = 125 \<or> i = 145 then 0x10
      else if i = 89 \<or> i = 152 then 2
      else if i = 93 then 0x40 else if i = 129 then 0x20 else if i = 149 then 0x30
      else if i = 156 then 0xfe else 0)"

definition demo_header :: bytes where
  "demo_header = map demo_byte [0..<512] @ replicate 3584 0"

lemma demo_nth: "i < 512 \<Longrightarrow> demo_header ! i = demo_byte i"
  by (simp add: demo_header_def nth_append)

lemma demo_fields:
  "flash_capacity demo_header = 0x10000" "erase_block_size demo_header = 0x1000"
  "ffff_header_size demo_header = 512" "flash_image_length demo_header = 0x4000"
  "header_generation demo_header = 0"
  by (simp_all add: flash_capacity_def erase_block_size_def ffff_header_size_def flash_image_length_def
      header_generation_def get_u32_def demo_nth demo_byte_def)

lemma demo_elements:
  "element_at demo_header 0 = \<lparr>element_type = 1, element_class = 0, element_id = 0,
     element_length = 0x1000, element_location = 0x2000, element_generation = 1\<rparr>"
  "element_at demo_header (Suc 0) = \<lparr>element_type = 1, element_class = 0, element_id = 0,
     element_length = 0x1000, element_location = 0x3000, element_generation = 2\<rparr>"
  "element_type (element_at demo_header 2) = FFFF_ELEMENT_END"
  by (simp_all add: element_at_def element_offset_def get_u32_def demo_nth demo_byte_def)

lemma demo_table: "ffff_table_ok demo_header 2"
proof -
  have "(\<forall>k < 2. P k) \<longleftrightarrow> P 0 \<and> P (Suc 0)" for P :: "nat \<Rightarrow> bool"
    by (auto simp: less_2_cases_iff)
  then show ?thesis
    by (simp add: ffff_table_ok_def is_element_out_of_range_def element_offset_def demo_fields demo_elements
        element_placed_def element_location_min_def element_end_def block_aligned_def
        elements_collide_def elements_duplicate_def)
qed

lemma demo_valid: "ffff_valid demo_header"
proof -
  have "map demo_byte [496..<512] = ffff_sentinel_value" "map demo_byte [0..<16] = ffff_sentinel_value"
    by (simp_all add: upt_conv_Cons demo_byte_def ffff_sentinel_value_def)
  then have "take 16 (get_trailing_sentinel demo_header) = ffff_sentinel_value"
    "take 16 demo_header = ffff_sentinel_value"
    by (simp_all add: get_trailing_sentinel_def demo_fields)
      (simp_all add: demo_header_def drop_map take_map ffff_sentinel_value_def del: upt_conv_Cons)
  moreover have "length ffff_sentinel_value = 16" "length demo_header = 4096"
    "length (get_trailing_sentinel demo_header) = 3600"
    by (simp_all add: ffff_sentinel_value_def demo_header_def get_trailing_sentinel_def
        demo_fields [unfolded demo_header_def])
  ultimately show ?thesis
    using demo_table by (auto simp: ffff_valid_def ffff_wf_def demo_fields memcmp_0_iff)
qed

text \<open>A flash with a copy of that header at the start of every erase block.\<close>

definition demo_flash :: "u32 \<Rightarrow> u8" where
  "demo_flash a = (let i = unat (a AND 0xFFF) in if i < 512 then demo_byte i else 0)"

definition reset_ffff :: ffff where
  "reset_ffff = spi.extend reset_spi \<lparr>header1 = replicate 4096 0, header2 = replicate 4096 0,
     cur_header = Header1, cur_element = None\<rparr>"

lemma demo_flash_bytes:
  assumes "a = 0 \<or> a = 0x1000"
  shows "flash_bytes demo_flash a 512 = map demo_byte [0..<512]"
proof (rule nth_equalityI)
  fix i
  assume "i < length (flash_bytes demo_flash a 512)"
  then have i: "i < 512" by simp
  have m: "(0x00FFFFFF :: u32) = mask 24" "(0xFFF :: u32) = mask 12" by (simp_all add: mask_eq_exp_minus_1)
  have "unat (a + word_of_nat i) = unat a + i"
    using assms i by (auto simp: unat_plus_if' unat_of_nat take_bit_nat_eq_self)
  then have "unat (take_bit 12 (take_bit 24 (a + word_of_nat i))) = take_bit 12 (take_bit 24 (unat a + i))"
    by (simp add: unsigned_take_bit_eq)
  also have "\<dots> = i" using assms i by (auto simp: take_bit_eq_mod)
  finally have "unat (((a + word_of_nat i) AND 0x00FFFFFF) AND 0xFFF) = i"
    by (simp only: m take_bit_eq_mask)
  with i show "flash_bytes demo_flash a 512 ! i = map demo_byte [0..<512] ! i"
    by (simp add: flash_bytes_def demo_flash_def)
qed simp

lemma demo_load:
  assumes "flash_on_spi E img" "flash_bytes img a 512 = map demo_byte [0..<512]" "header_buf w s = replicate 4096 0"
  shows "\<exists>t. load_ffff_header E (data_load_spi_read E) w a s = Ret (0, True) t \<and>
    header_buf w t = demo_header \<and> other_kept w s t"
proof -
  obtain u where u: "data_load_spi_read E a FFFF_HEADER_SIZE_MIN s = Ret (0, map demo_byte [0..<512]) u"
    "spi_effect s u"
    using flash_read [OF assms(1), of "512" a s] assms(2) by auto
  have h: "header_buf w u = replicate 4096 0" using spi_effect_frame [OF u(2)] assms(3) by (simp add: frame_header_buf)
  have put: "put_bytes (replicate 4096 0) 0 (map demo_byte [0..<512]) = demo_header"
    by (simp add: put_bytes_def demo_header_def)
  let ?t = "set_header_buf w demo_header u"
  have t: "header_buf w ?t = demo_header" by (simp add: set_header_buf_get)
  have "read_header_part (data_load_spi_read E) w 0 a FFFF_HEADER_SIZE_MIN s = Ret 0 ?t"
    using u(1) h put by (simp add: read_header_part_def fits_def gets_def assert_or_fault_def skip_def modify_def return_def)
  moreover have "validate_ffff_header E demo_header ?t = Ret 0 ?t"
  proof -
    have "ffff_header_error demo_header = None" using demo_valid by (simp add: header_error_iff ffff_valid_def)
    then show ?thesis by (simp add: validate_ffff_header_def return_def)
  qed
  ultimately have "load_ffff_header E (data_load_spi_read E) w a s = Ret (0, True) ?t"
    using demo_valid t by (simp add: load_ffff_header_def gets_def ffff_valid_def demo_fields return_def)
  with t spi_reader.load_header_run show ?thesis by blast
qed

text \<open>On any flash with that table in both places, its newest element is found.\<close>

lemma demo_locate:
  assumes "flash_on_spi E img" "boot_stage E = 1"
    and "\<And>a. a = 0 \<or> a = 0x1000 \<Longrightarrow> flash_bytes img a 512 = map demo_byte [0..<512]"
    and "header1 s = replicate 4096 0" "header2 s = replicate 4096 0"
  shows "\<exists>t. locate_ffff_element_on_storage E (spi_ops E) FFFF_ELEMENT_STAGE_2_FW s = Ret (0, 0x1000) t \<and>
    current_addr t = 0x3000"
proof -
  have b: "header_buf Header1 (s\<lparr>cur_header := Header1\<rparr>) = replicate 4096 0"
    "header_buf Header2 (s\<lparr>cur_header := Header1\<rparr>) = replicate 4096 0"
    using assms(4,5) by simp_all
  from demo_load [OF assms(1) assms(3) b(1), of 0] obtain u where
    u: "load_ffff_header E (data_load_spi_read E) Header1 0 (s\<lparr>cur_header := Header1\<rparr>) = Ret (0, True) u"
      "header1 u = demo_header" "header_buf Header2 u = replicate 4096 0"
    using b(2) by (auto simp: other_kept_def dest: spec [of _ Header2])
  from demo_load [OF assms(1) assms(3) u(3), of "0x1000"] obtain w where
    w: "load_ffff_header E (data_load_spi_read E) Header2 0x1000 u = Ret (0, True) w"
      "header2 w = demo_header" "header1 w = demo_header" "cur_header w = Header1"
    using u(2) spi_reader.load_header_run [OF u(1)] by (auto simp: other_kept_def dest: spec [of _ Header1])
  have table: "locate_ffff_table E (data_load_spi_read E) s = Ret 0 (w\<lparr>fw_errno := BRE_OK\<rparr>)"
    using u w assms(2) by (simp add: locate_ffff_table_def modify_def gets_def demo_fields get_state_def
        init_last_error_def skip_def return_def)
  have "newest_element demo_header 1 0 None = Some 1"
    by (simp add: newest_element.simps element_offset_def demo_fields demo_elements numeral_2_eq_2 [symmetric])
  then have "locate_element E 1 (w\<lparr>fw_errno := BRE_OK\<rparr>) = Ret (0, 0x1000) (w\<lparr>fw_errno := BRE_OK, cur_element := Some 1\<rparr>)"
    using w by (simp add: locate_element_def gets_def modify_def return_def demo_elements)
  with table w show ?thesis
    by (simp add: locate_ffff_element_on_storage_def spi_ops_def get_state_def data_load_spi_read_def
        modify_def return_def demo_elements)
qed

lemma demo_locate_reset:
  "\<exists>t. locate_ffff_element_on_storage (flash_env demo_flash) (spi_ops (flash_env demo_flash)) 1 reset_ffff
    = Ret (0, 0x1000) t"
  using demo_locate [OF flash_env_ok, of demo_flash reset_ffff] demo_flash_bytes
  by (auto simp: flash_env_def es3_env_def reset_ffff_def spi.defs)

section \<open>Properties\<close>

text \<open>
  C14: \<^verbatim>\<open>validate_ffff_header\<close> accepts a header exactly when it is well formed: its trailing sentinel and
  sizes are right, and its element table is terminated inside the header and holds only elements
  that lie behind the headers and inside the image, are block aligned, and pairwise neither overlap
  nor duplicate each other. Otherwise it records an error and returns -1.
\<close>

theorem validate_ffff_header_exact:
  "validate_ffff_header E h s =
     (if ffff_wf h then Ret 0 s
      else bind (set_last_error E (the (ffff_header_error h))) (\<lambda>_. return (-1)) s)"
  using header_error_iff [of h] by (auto simp: validate_ffff_header_def return_def split: option.splits)



text \<open>
  C13: When \<^verbatim>\<open>locate_ffff_element_on_storage\<close> succeeds on SPI flash, the table it used is valid and no
  other valid table it read is newer; the element it chose is of the wanted type, of the highest
  generation among those, the first such; the length it reports is that element's, and the flash
  address is set to the element's location for the loads that follow.
\<close>

theorem spi_locates_newest_element:
  assumes "locate_ffff_element_on_storage E (spi_ops E) ty s = Ret (0, len) t"
  shows "newest_table t \<and> (\<exists>n k. cur_element t = Some k \<and>
    ffff_table_ok (header_buf (cur_header t) t) n \<and> newest_of (header_buf (cur_header t) t) ty n (Some k) \<and>
    len = element_length (element_at (header_buf (cur_header t) t) k) \<and>
    current_addr t = element_location (element_at (header_buf (cur_header t) t) k))"
proof -
  from assms obtain u l w where u: "locate_ffff_table E (data_load_spi_read E) s = Ret 0 u"
    and w: "locate_element E ty u = Ret (0, l) w"
    and rest: "(case cur_element w of
        None \<Rightarrow> stop_with Fault
      | Some k \<Rightarrow>
          bind (data_load_spi_read E (element_location (element_at (header_buf (cur_header w) w) k)) 0) (\<lambda>_.
          return (0 :: int, l))) w = Ret (0, len) t"
    by (auto simp: locate_ffff_element_on_storage_def spi_ops_def return_def get_state_def
        elim!: bind_eq_RetE split: if_splits)
  have new: "newest_table u" by (rule spi_reader.locate_table_run [OF u])
  let ?h = "header_buf (cur_header u) u"
  have "ffff_valid ?h" using new by (simp add: newest_table_def)
  from spi_reader.locate_element_run [OF w this] obtain n k where
    k: "w = u\<lparr>cur_element := Some k\<rparr>" "ffff_table_ok ?h n" "newest_of ?h ty n (Some k)"
      "l = element_length (element_at ?h k)" by blast
  have hw: "header_buf (cur_header w) w = ?h" using k(1) by (cases "cur_header u") auto
  have "len = l \<and> t = w\<lparr>current_addr := element_location (element_at ?h k)\<rparr>"
    using rest k(1) hw
    by (auto simp: data_load_spi_read_def modify_def return_def elim!: bind_eq_RetE)
  with new k show ?thesis
    by (cases "cur_header u") (auto simp: newest_table_def all_ffff_buf)
qed

theorem spi_locates_newest_element_witness:
  "\<exists>t. newest_table t \<and> (\<exists>n k. cur_element t = Some k \<and>
    newest_of (header_buf (cur_header t) t) FFFF_ELEMENT_STAGE_2_FW n (Some k) \<and>
    locate_ffff_element_on_storage (flash_env demo_flash) (spi_ops (flash_env demo_flash)) FFFF_ELEMENT_STAGE_2_FW
      reset_ffff = Ret (0, element_length (element_at (header_buf (cur_header t) t) k)) t)"
  using demo_locate_reset spi_locates_newest_element [of "flash_env demo_flash" 1 reset_ffff] by metis

end
