(* ===== verification/Tftf.thy ===== *)
theory Tftf
  imports Ffff
begin

text \<open>
  The trusted firmware transfer format (\<^verbatim>\<open>common/src/tftf.c\<close>, \<^verbatim>\<open>common/shared_inc/tftf.h\<close>): loading
  an image section by section into RAM, hashing the signed part on the way and checking its
  signatures. Validation of the header is split into functions that compute the error code, if any,
  and wrappers that report it. The main result says what a successful load has established: which
  bytes are in RAM, and that a secure image's header prefix and signed sections are what a ROM key
  signed.
\<close>

section \<open>Headers\<close>

abbreviation (input) "TFTF_HEADER_SIZE_MIN \<equiv> 512 :: u32"
abbreviation (input) "MAX_TFTF_HEADER_SIZE_SUPPORTED \<equiv> 4096 :: u32"
abbreviation (input) "TFTF_SENTINEL_SIZE \<equiv> 4 :: nat"
abbreviation (input) "TFTF_SECTION_END \<equiv> 0xFE :: u8"
abbreviation (input) "TFTF_SECTION_RAW_CODE \<equiv> 1 :: u8"
abbreviation (input) "TFTF_SECTION_RAW_DATA \<equiv> 2 :: u8"
abbreviation (input) "TFTF_SECTION_COMPRESSED_CODE \<equiv> 3 :: u8"
abbreviation (input) "TFTF_SECTION_COMPRESSED_DATA \<equiv> 4 :: u8"
abbreviation (input) "TFTF_SECTION_MANIFEST \<equiv> 5 :: u8"
abbreviation (input) "TFTF_SECTION_SIGNATURE \<equiv> 0x80 :: u8"
abbreviation (input) "TFTF_SECTION_CERTIFICATE \<equiv> 0x81 :: u8"
abbreviation (input) "DATA_ADDRESS_TO_BE_IGNORED \<equiv> 0xFFFFFFFF :: u32"
abbreviation (input) "TEMP_BUFFER_SIZE \<equiv> 2048 :: u32"

text \<open>The characters of \<^verbatim>\<open>"TFTF"\<close>.\<close>

definition tftf_sentinel :: bytes where
  "tftf_sentinel = [0x54, 0x46, 0x54, 0x46]"

record tftf_section =
  section_type :: u8
  section_class :: u32
  section_id :: u32
  section_length :: u32
  section_load_address :: u32
  section_expanded_length :: u32

text \<open>Section \<open>k\<close> of the table, which starts at byte 112 of the header.\<close>

definition section_offset :: "nat \<Rightarrow> nat" where
  "section_offset k = 112 + 20 * k"

definition section_at :: "bytes \<Rightarrow> nat \<Rightarrow> tftf_section" where
  "section_at h k =
     (let off = section_offset k
      in \<lparr>section_type = h ! off, section_class = drop_bit 8 (get_u32 h off),
          section_id = get_u32 h (off + 4), section_length = get_u32 h (off + 8),
          section_load_address = get_u32 h (off + 12), section_expanded_length = get_u32 h (off + 16)\<rparr>)"

definition tftf_header_size :: "bytes \<Rightarrow> u32" where "tftf_header_size h = get_u32 h 4"
definition tftf_build_timestamp :: "bytes \<Rightarrow> bytes" where "tftf_build_timestamp h = slice 8 16 h"
definition tftf_package_name :: "bytes \<Rightarrow> bytes" where "tftf_package_name h = slice 24 48 h"
definition start_location :: "bytes \<Rightarrow> u32" where "start_location h = get_u32 h 76"
definition tftf_unipro_mid :: "bytes \<Rightarrow> u32" where "tftf_unipro_mid h = get_u32 h 80"
definition tftf_unipro_pid :: "bytes \<Rightarrow> u32" where "tftf_unipro_pid h = get_u32 h 84"
definition tftf_ara_vid :: "bytes \<Rightarrow> u32" where "tftf_ara_vid h = get_u32 h 88"
definition tftf_ara_pid :: "bytes \<Rightarrow> u32" where "tftf_ara_pid h = get_u32 h 92"

definition is_section_hashed :: "tftf_section \<Rightarrow> bool" where
  "is_section_hashed sec \<longleftrightarrow> section_type sec AND 0x80 = 0"

definition is_section_out_of_range :: "bytes \<Rightarrow> nat \<Rightarrow> bool" where
  "is_section_out_of_range h k \<longleftrightarrow> section_offset k + 20 \<ge> unat (tftf_header_size h)"

text \<open>The 360 bytes of a \<^verbatim>\<open>tftf_signature\<close>.\<close>

definition signature_of :: "bytes \<Rightarrow> tftf_signature" where
  "signature_of bs = \<lparr>sig_length = get_u32 bs 0, sig_type = get_u32 bs 4, sig_key_name = slice 8 96 bs,
     sig_bytes = slice 104 256 bs\<rparr>"

section \<open>Validation\<close>

definition known_tftf_type :: "u8 \<Rightarrow> bool" where
  "known_tftf_type ty \<longleftrightarrow>
     TFTF_SECTION_RAW_CODE \<le> ty \<and> ty \<le> TFTF_SECTION_MANIFEST \<or>
     ty = TFTF_SECTION_SIGNATURE \<or> ty = TFTF_SECTION_CERTIFICATE \<or> ty = TFTF_SECTION_END"

definition section_end :: "tftf_section \<Rightarrow> u32" where
  "section_end sec = section_load_address sec + section_expanded_length sec"

text \<open>The loop over the sections behind \<open>sec\<close>, from index \<open>j\<close>.\<close>

function scan_other_sections :: "bytes \<Rightarrow> tftf_section \<Rightarrow> nat \<Rightarrow> u32 option" where
  "scan_other_sections h sec j =
     (if is_section_out_of_range h j \<or> section_type (section_at h j) = TFTF_SECTION_END \<or>
         section_load_address (section_at h j) = DATA_ADDRESS_TO_BE_IGNORED then None
      else if \<not> (section_end (section_at h j) \<le> section_load_address sec \<or>
                 section_load_address (section_at h j) \<ge> section_end sec)
        then Some BRE_TFTF_COLLISION
      else scan_other_sections h sec (Suc j))"
  by auto
termination
  by (relation "measure (\<lambda>(h, _, j). unat (tftf_header_size h) - j)")
    (auto simp: is_section_out_of_range_def section_offset_def)

text \<open>
  \<^verbatim>\<open>valid_tftf_section\<close>: \<open>Inl err\<close> is an invalid section with the error reported,
  \<open>Inr (start, end)\<close> a valid one, with \<open>start\<close> set when it contains the entry point and \<open>end\<close> set
  for the end-of-table marker.
\<close>

definition valid_tftf_section :: "env \<Rightarrow> bytes \<Rightarrow> nat \<Rightarrow> u32 + (bool \<times> bool)" where
  "valid_tftf_section E h k =
     (let sec = section_at h k
      in if \<not> known_tftf_type (section_type sec) then Inl BRE_TFTF_HEADER_TYPE
      else if section_type sec = TFTF_SECTION_END then Inr (False, True)
      else if section_load_address sec = DATA_ADDRESS_TO_BE_IGNORED then Inr (False, False)
      else if section_expanded_length sec < section_length sec then Inl BRE_TFTF_COMPRESSION_BAD
      else if chip_validate_data_load_location E (section_load_address sec) (section_expanded_length sec) \<noteq> 0
        then Inl BRE_TFTF_MEMORY_RANGE
      else case scan_other_sections h sec (Suc k) of
          Some err \<Rightarrow> Inl err
        | None \<Rightarrow> Inr (section_load_address sec \<le> start_location h \<and> start_location h < section_end sec \<and>
                      section_type sec = TFTF_SECTION_RAW_CODE, False))"

text \<open>The loop of \<^verbatim>\<open>valid_tftf_header\<close>, from index \<open>k\<close>, and the test that follows it.\<close>

function scan_section_table :: "env \<Rightarrow> bytes \<Rightarrow> nat \<Rightarrow> bool \<Rightarrow> u32 option" where
  "scan_section_table E h k contains_start =
     (if is_section_out_of_range h k then Some BRE_TFTF_NO_TABLE_END
      else case valid_tftf_section E h k of
        Inl err \<Rightarrow> Some err
      | Inr (start, end) \<Rightarrow>
          if end then
            (if start_location h \<noteq> 0 \<and> \<not> contains_start then Some BRE_TFTF_START_NOT_IN_CODE else None)
          else scan_section_table E h (Suc k) (contains_start \<or> start))"
  by auto
termination
  by (relation "measure (\<lambda>(_, h, k, _). unat (tftf_header_size h) - k)")
    (auto simp: is_section_out_of_range_def section_offset_def)

declare scan_other_sections.simps [simp del] scan_section_table.simps [simp del]

definition tftf_header_error :: "env \<Rightarrow> bytes \<Rightarrow> u32 option" where
  "tftf_header_error E h = scan_section_table E h 0 False"

definition valid_tftf_header :: "env \<Rightarrow> bytes \<Rightarrow> ('a errs_scheme, bool) prog" where
  "valid_tftf_header E h =
     (case tftf_header_error E h of
        None \<Rightarrow> return True
      | Some err \<Rightarrow> bind (set_last_error E err) (\<lambda>_. return False))"

section \<open>State\<close>

datatype crypto_processing_state =
  CRYPTO_STATE_INIT | CRYPTO_STATE_HASHING | CRYPTO_STATE_HASHED | CRYPTO_STATE_VERIFIED

record tftf = ffff +
  tftf_header :: bytes
  tftf_header_end :: nat
  crypto_state :: crypto_processing_state
  tftf_hash :: bytes
  tftf_sig :: bytes
  contain_signature :: bool
  ara_vid :: u32
  ara_pid :: u32

section \<open>The header\<close>

definition load_header_part ::
    "'a tftf_scheme data_load_ops \<Rightarrow> nat \<Rightarrow> u32 \<Rightarrow> ('a tftf_scheme, int) prog" where
  "load_header_part ops off n =
     bind (ops_load ops (To_header off) n False) (\<lambda>(rc, bs).
     bind (gets tftf_header) (\<lambda>buf.
     bind (assert_or_fault (fits buf off bs)) (\<lambda>_.
     bind (modify (\<lambda>s. s\<lparr>tftf_header := put_bytes buf off bs\<rparr>)) (\<lambda>_.
     return rc))))"

text \<open>The first unsigned section starts the hash with the part of the header in front of it.\<close>

definition start_hashing :: "bytes \<Rightarrow> nat \<Rightarrow> ('a tftf_scheme, unit) prog" where
  "start_hashing h k =
     bind (gets crypto_state) (\<lambda>cs.
     if cs = CRYPTO_STATE_INIT then
       bind hash_start (\<lambda>_.
       bind (modify (\<lambda>s. s\<lparr>crypto_state := CRYPTO_STATE_HASHING\<rparr>)) (\<lambda>_.
       hash_update (take (section_offset k) h)))
     else skip)"

function process_section_types :: "env \<Rightarrow> bytes \<Rightarrow> nat \<Rightarrow> ('a tftf_scheme, int) prog" where
  "process_section_types E h k =
     (if is_section_out_of_range h k then bind (set_last_error E BRE_TFTF_NO_TABLE_END) (\<lambda>_. return (-1))
      else
        (let ty = section_type (section_at h k)
         in if ty = TFTF_SECTION_END then return 0
         else if ty = TFTF_SECTION_SIGNATURE then
           bind (modify (\<lambda>s. s\<lparr>contain_signature := True\<rparr>)) (\<lambda>_.
           bind (start_hashing h k) (\<lambda>_.
           process_section_types E h (Suc k)))
         else if ty = TFTF_SECTION_CERTIFICATE then
           bind (start_hashing h k) (\<lambda>_.
           process_section_types E h (Suc k))
         else if ty = TFTF_SECTION_COMPRESSED_CODE \<or> ty = TFTF_SECTION_COMPRESSED_DATA then
           bind (set_last_error E BRE_TFTF_COMPRESSION_UNSUPPORTED) (\<lambda>_. return (-1))
         else
           bind (gets crypto_state) (\<lambda>cs.
           if cs = CRYPTO_STATE_HASHING
           then bind (set_last_error E BRE_TFTF_HASHED_SECTION_AFTER_UNHASHED) (\<lambda>_. return (-1))
           else process_section_types E h (Suc k))))"
  by pat_completeness auto
termination
  by (relation "measure (\<lambda>(_, h, k). unat (tftf_header_size h) - k)")
    (auto simp: is_section_out_of_range_def section_offset_def)

declare process_section_types.simps [simp del]

definition ids_match :: "'a tftf_scheme \<Rightarrow> u32 \<Rightarrow> u32 \<Rightarrow> bool" where
  "ids_match s mid pid \<longleftrightarrow>
     (let h = tftf_header s
      in (tftf_unipro_mid h = 0 \<or> tftf_unipro_mid h = mid) \<and> (tftf_unipro_pid h = 0 \<or> tftf_unipro_pid h = pid) \<and>
         (tftf_ara_vid h = 0 \<or> tftf_ara_vid h = ara_vid s) \<and> (tftf_ara_pid h = 0 \<or> tftf_ara_pid h = ara_pid s))"

text \<open>The part of \<^verbatim>\<open>load_tftf_header\<close> after the whole header is in its buffer.\<close>

definition check_tftf_header :: "env \<Rightarrow> ('a tftf_scheme, int) prog" where
  "check_tftf_header E =
     bind (modify (\<lambda>s. s\<lparr>tftf_header_end := unat (tftf_header_size (tftf_header s))\<rparr>)) (\<lambda>_.
     bind (gets tftf_header) (\<lambda>h.
     bind (valid_tftf_header E h) (\<lambda>ok.
     if \<not> ok then return (-1)
     else
       bind (chip_unipro_attr_read E DME_DDBL1_MANUFACTURERID 0 False) (\<lambda>(rc, mid).
       if rc \<noteq> 0 then bind (set_last_error E BRE_EFUSE_UNIPRO_VID_READ) (\<lambda>_. return (-1))
       else
         bind (chip_unipro_attr_read E DME_DDBL1_PRODUCTID 0 False) (\<lambda>(rc, pid).
         if rc \<noteq> 0 then bind (set_last_error E BRE_EFUSE_UNIPRO_PID_READ) (\<lambda>_. return (-1))
         else
           bind (gets (\<lambda>s. ids_match s mid pid)) (\<lambda>ok.
           if \<not> ok then bind (set_last_error E BRE_TFTF_VIDPID_MISMATCH) (\<lambda>_. return (-1))
           else process_section_types E h 0))))))"

text \<open>
  \<^verbatim>\<open>load_tftf_header\<close>. In the two branches where the C code returns \<^verbatim>\<open>false\<close> the value is 0, which the
  caller takes for success.
\<close>

definition load_tftf_header :: "env \<Rightarrow> 'a tftf_scheme data_load_ops \<Rightarrow> ('a tftf_scheme, int) prog" where
  "load_tftf_header E ops =
     bind (modify (\<lambda>s. s\<lparr>crypto_state := CRYPTO_STATE_INIT, contain_signature := False\<rparr>)) (\<lambda>_.
     bind (load_header_part ops 0 TFTF_HEADER_SIZE_MIN) (\<lambda>rc.
     if rc \<noteq> 0 then bind (set_last_error E BRE_TFTF_LOAD_HEADER) (\<lambda>_. return (-1))
     else
       bind (gets tftf_header) (\<lambda>h.
       if memcmp h tftf_sentinel TFTF_SENTINEL_SIZE \<noteq> 0
       then bind (set_last_error E BRE_TFTF_SENTINEL) (\<lambda>_. return 0)
       else if tftf_header_size h < TFTF_HEADER_SIZE_MIN \<or> tftf_header_size h > MAX_TFTF_HEADER_SIZE_SUPPORTED
       then bind (set_last_error E BRE_TFTF_HEADER_SIZE) (\<lambda>_. return 0)
       else
         bind (if tftf_header_size h \<noteq> TFTF_HEADER_SIZE_MIN
               then load_header_part ops 512 (tftf_header_size h - TFTF_HEADER_SIZE_MIN) else return 0) (\<lambda>rc.
         if rc \<noteq> 0 then bind (set_last_error E BRE_TFTF_LOAD_HEADER) (\<lambda>_. return (-1))
         else
           check_tftf_header E))))"

section \<open>Sections\<close>

text \<open>Loading \<open>len\<close> bytes into a temporary buffer, block by block.\<close>

function discard_section ::
    "'a tftf_scheme data_load_ops \<Rightarrow> u32 \<Rightarrow> bool \<Rightarrow> ('a tftf_scheme, int) prog" where
  "discard_section ops len hash =
     (if len = 0 then return 0
      else
        (let blk_len = (if len > TEMP_BUFFER_SIZE then TEMP_BUFFER_SIZE else len)
         in bind (ops_load ops To_temp blk_len hash) (\<lambda>(rc, bs).
            bind (assert_or_fault (length bs \<le> 2048)) (\<lambda>_.
            if rc \<noteq> 0 then return (-1)
            else discard_section ops (len - blk_len) hash))))"
  by pat_completeness auto
termination
  by (relation "measure (\<lambda>(_, len, _). unat len)")
    (auto simp: word_less_nat_alt unat_sub_if' unat_gt_0)

declare discard_section.simps [simp del]

definition process_tftf_section ::
    "env \<Rightarrow> 'a tftf_scheme data_load_ops \<Rightarrow> tftf_section \<Rightarrow> ('a tftf_scheme, int) prog" where
  "process_tftf_section E ops sec =
     bind (gets crypto_state) (\<lambda>cs.
     bind (if \<not> is_section_hashed sec \<and> cs = CRYPTO_STATE_HASHING then
             bind hash_final (\<lambda>digest.
             modify (\<lambda>s. s\<lparr>tftf_hash := digest, crypto_state := CRYPTO_STATE_HASHED\<rparr>))
           else skip) (\<lambda>_.
     if section_type sec = TFTF_SECTION_SIGNATURE then
       bind (ops_load ops To_signature 360 False) (\<lambda>(rc, bs).
       bind (gets tftf_sig) (\<lambda>buf.
       bind (assert_or_fault (fits buf 0 bs)) (\<lambda>_.
       bind (modify (\<lambda>s. s\<lparr>tftf_sig := put_bytes buf 0 bs\<rparr>)) (\<lambda>_.
       if rc \<noteq> 0 then bind (set_last_error E BRE_TFTF_LOAD_SIGNATURE) (\<lambda>_. return (-1))
       else
         bind get_state (\<lambda>s.
         if crypto_state s = CRYPTO_STATE_HASHED then
           bind (verify_signature E (tftf_hash s) (signature_of (tftf_sig s))) (\<lambda>v.
           bind (if v = 0 then modify (\<lambda>s. s\<lparr>crypto_state := CRYPTO_STATE_VERIFIED\<rparr>) else skip) (\<lambda>_.
           return 0))
         else return 0)))))
     else
       bind (gets (\<lambda>s. crypto_state s = CRYPTO_STATE_HASHING)) (\<lambda>hash_loaded_data.
       if section_load_address sec = DATA_ADDRESS_TO_BE_IGNORED then
         bind (discard_section ops (section_length sec) hash_loaded_data) (\<lambda>rc.
         if rc \<noteq> 0 then bind (set_last_error E BRE_TFTF_LOAD_DATA) (\<lambda>_. return (-1)) else return 0)
       else
         bind (ops_load ops (To_ram (section_load_address sec)) (section_length sec) hash_loaded_data) (\<lambda>(rc, bs).
         bind (modify (\<lambda>s. s\<lparr>ram := store_ram (section_load_address sec) bs (ram s)\<rparr>)) (\<lambda>_.
         if rc \<noteq> 0 then bind (set_last_error E BRE_TFTF_LOAD_DATA) (\<lambda>_. return (-1)) else return 0)))))"

text \<open>
  The loop of \<^verbatim>\<open>load_tftf_image\<close> from section \<open>k\<close>. Reading a descriptor beyond the header buffer, which
  an unchecked header size can cause, is undefined behaviour.
\<close>

function process_sections ::
    "env \<Rightarrow> 'a tftf_scheme data_load_ops \<Rightarrow> bytes \<Rightarrow> nat \<Rightarrow> ('a tftf_scheme, int) prog" where
  "process_sections E ops h k =
     (if is_section_out_of_range h k then return 0
      else if section_offset k + 20 > length h then stop_with Fault
      else if section_type (section_at h k) = TFTF_SECTION_END then return 0
      else
        bind (process_tftf_section E ops (section_at h k)) (\<lambda>rc.
        if rc \<noteq> 0 then return (-1) else process_sections E ops h (Suc k)))"
  by pat_completeness auto
termination
  by (relation "measure (\<lambda>(_, _, h, k). unat (tftf_header_size h) - k)")
    (auto simp: is_section_out_of_range_def section_offset_def)

declare process_sections.simps [simp del]

text \<open>\<^verbatim>\<open>load_tftf_image\<close> returns its code and \<^verbatim>\<open>*is_secure_image\<close>.\<close>

definition load_tftf_image ::
    "env \<Rightarrow> 'a tftf_scheme data_load_ops \<Rightarrow> ('a tftf_scheme, int \<times> bool) prog" where
  "load_tftf_image E ops =
     bind (load_tftf_header E ops) (\<lambda>rc.
     if rc \<noteq> 0 then return (-1, False)
     else
       bind (gets tftf_header) (\<lambda>h.
       bind (process_sections E ops h 0) (\<lambda>rc.
       if rc \<noteq> 0 then return (-1, False)
       else
         bind (gets (\<lambda>s. crypto_state s = CRYPTO_STATE_VERIFIED)) (\<lambda>verified.
         bind (modify (\<lambda>s. s\<lparr>build_timestamp := tftf_build_timestamp h,
                             firmware_package_name := tftf_package_name h\<rparr>)) (\<lambda>_.
         bind (gets contain_signature) (\<lambda>signed.
         if \<not> verified \<and> signed
         then bind (set_last_error E BRE_TFTF_IMAGE_CORRUPTED) (\<lambda>_. return (-1, False))
         else
           bind (if \<not> signed then chip_is_untrusted_image_allowed E else return True) (\<lambda>allowed.
           if \<not> allowed
           then bind (set_last_error E BRE_TFTF_UNTRUSTED_NOT_ALLOWED) (\<lambda>_. return (-1, verified))
           else return (0, verified))))))))"

definition jump_to_image :: "env \<Rightarrow> ('a tftf_scheme, unit) prog" where
  "jump_to_image E =
     bind (chip_reset_before_jump E) (\<lambda>_.
     bind (gets (\<lambda>s. start_location (tftf_header s))) (\<lambda>a. chip_jump_to_image E a))"

section \<open>What validation means\<close>

text \<open>
  The table ends at index \<open>n\<close>: every section before it is of a known type and is either to be
  ignored or lies where the chip accepts it; a section does not overlap any section behind it up to
  the first one that is to be ignored; and a start location other than 0 lies in a code section.
\<close>

definition section_placed :: "env \<Rightarrow> tftf_section \<Rightarrow> bool" where
  "section_placed E sec \<longleftrightarrow>
     section_load_address sec = DATA_ADDRESS_TO_BE_IGNORED \<or>
     section_length sec \<le> section_expanded_length sec \<and>
     chip_validate_data_load_location E (section_load_address sec) (section_expanded_length sec) = 0"

definition sections_apart :: "tftf_section \<Rightarrow> tftf_section \<Rightarrow> bool" where
  "sections_apart a b \<longleftrightarrow>
     section_end b \<le> section_load_address a \<or> section_load_address b \<ge> section_end a"

definition section_has_start :: "bytes \<Rightarrow> tftf_section \<Rightarrow> bool" where
  "section_has_start h sec \<longleftrightarrow>
     section_type sec = TFTF_SECTION_RAW_CODE \<and> section_load_address sec \<noteq> DATA_ADDRESS_TO_BE_IGNORED \<and>
     section_load_address sec \<le> start_location h \<and> start_location h < section_end sec"

text \<open>Section \<open>k\<close> does not overlap the sections behind it, up to the first that is to be ignored.\<close>

definition apart_from_next :: "bytes \<Rightarrow> nat \<Rightarrow> nat \<Rightarrow> bool" where
  "apart_from_next h n k \<longleftrightarrow>
     (\<forall>j < n. k < j \<and> (\<forall>i. k \<le> i \<and> i \<le> j \<longrightarrow>
          section_load_address (section_at h i) \<noteq> DATA_ADDRESS_TO_BE_IGNORED) \<longrightarrow>
        sections_apart (section_at h k) (section_at h j))"

definition tftf_table_ok :: "env \<Rightarrow> bytes \<Rightarrow> nat \<Rightarrow> bool" where
  "tftf_table_ok E h n \<longleftrightarrow>
     \<not> is_section_out_of_range h n \<and> section_type (section_at h n) = TFTF_SECTION_END \<and>
     (\<forall>k < n. section_type (section_at h k) \<noteq> TFTF_SECTION_END \<and>
        known_tftf_type (section_type (section_at h k)) \<and> section_placed E (section_at h k)) \<and>
     (\<forall>k < n. apart_from_next h n k) \<and>
     (start_location h = 0 \<or> (\<exists>k < n. section_has_start h (section_at h k)))"

lemma section_range_mono: "is_section_out_of_range h k \<Longrightarrow> k \<le> j \<Longrightarrow> is_section_out_of_range h j"
  by (simp add: is_section_out_of_range_def section_offset_def)

lemma scan_sections_None:
  assumes "\<not> is_section_out_of_range h n" "section_type (section_at h n) = TFTF_SECTION_END"
    and "\<forall>i < n. section_type (section_at h i) \<noteq> TFTF_SECTION_END" and "j \<le> n"
  shows "scan_other_sections h sec j = None \<longleftrightarrow>
    (\<forall>m. j \<le> m \<and> m < n \<and> (\<forall>i. j \<le> i \<and> i \<le> m \<longrightarrow>
        section_load_address (section_at h i) \<noteq> DATA_ADDRESS_TO_BE_IGNORED) \<longrightarrow>
      sections_apart sec (section_at h m))"
  using assms(4)
proof (induction rule: inc_induct)
  case base
  show ?case using assms(2) by (subst scan_other_sections.simps) auto
next
  case (step j)
  let ?I = "\<lambda>i. section_load_address (section_at h i) = DATA_ADDRESS_TO_BE_IGNORED"
  have r: "\<not> is_section_out_of_range h j" "section_type (section_at h j) \<noteq> TFTF_SECTION_END"
    using assms(1,3) section_range_mono step by fastforce+
  have from_j: "(\<forall>i. j \<le> i \<and> i \<le> m \<longrightarrow> \<not> ?I i) \<longleftrightarrow> \<not> ?I j \<and> (\<forall>i. Suc j \<le> i \<and> i \<le> m \<longrightarrow> \<not> ?I i)" if "j \<le> m" for m
    using that all_from_Suc [of j "Suc m" "\<lambda>i. \<not> ?I i"] by (simp add: less_Suc_eq_le)
  have "scan_other_sections h sec j = None \<longleftrightarrow> ?I j \<or> sections_apart sec (section_at h j) \<and>
      scan_other_sections h sec (Suc j) = None"
    using r by (subst scan_other_sections.simps) (auto simp: sections_apart_def)
  also have "\<dots> \<longleftrightarrow> (\<forall>m. j \<le> m \<and> m < n \<longrightarrow> (\<forall>i. j \<le> i \<and> i \<le> m \<longrightarrow> \<not> ?I i) \<longrightarrow> sections_apart sec (section_at h m))"
    unfolding step.IH all_from_Suc [OF step(2)] using from_j by auto
  finally show ?case by auto
qed

text \<open>A scan from \<open>k\<close> that has or has not met the start location yet.\<close>

definition sections_scan_ok :: "env \<Rightarrow> bytes \<Rightarrow> nat \<Rightarrow> bool \<Rightarrow> nat \<Rightarrow> bool" where
  "sections_scan_ok E h k c n \<longleftrightarrow>
     \<not> is_section_out_of_range h n \<and> section_type (section_at h n) = TFTF_SECTION_END \<and>
     (\<forall>i. k \<le> i \<and> i < n \<longrightarrow> (\<exists>b. valid_tftf_section E h i = Inr (b, False))) \<and>
     (start_location h = 0 \<or> c \<or> (\<exists>i. k \<le> i \<and> i < n \<and> valid_tftf_section E h i = Inr (True, False)))"

lemma valid_section_end:
  "section_type (section_at h k) = TFTF_SECTION_END \<Longrightarrow> valid_tftf_section E h k = Inr (False, True)"
  by (simp add: valid_tftf_section_def known_tftf_type_def Let_def)

lemma valid_section_not_end:
  "valid_tftf_section E h k = Inr (b, True) \<Longrightarrow> section_type (section_at h k) = TFTF_SECTION_END \<and> \<not> b"
  by (auto simp: valid_tftf_section_def Let_def split: if_splits option.splits)

lemma sections_scan_ok_Suc:
  assumes "valid_tftf_section E h k = Inr (b, False)"
  shows "(\<exists>n \<ge> k. sections_scan_ok E h k c n) \<longleftrightarrow> (\<exists>n \<ge> Suc k. sections_scan_ok E h (Suc k) (c \<or> b) n)"
proof -
  have ne: "section_type (section_at h k) \<noteq> TFTF_SECTION_END"
    using assms valid_section_end [of h k E] by auto
  have "sections_scan_ok E h k c n \<longleftrightarrow> sections_scan_ok E h (Suc k) (c \<or> b) n" if "Suc k \<le> n" for n
  proof -
    have "k < n" using that by simp
    have "(\<exists>i. k \<le> i \<and> i < n \<and> valid_tftf_section E h i = Inr (True, False)) \<longleftrightarrow>
        b \<or> (\<exists>i. Suc k \<le> i \<and> i < n \<and> valid_tftf_section E h i = Inr (True, False))"
      using all_from_Suc [OF \<open>k < n\<close>, of "\<lambda>i. valid_tftf_section E h i \<noteq> Inr (True, False)"] assms by auto
    then show ?thesis
      unfolding sections_scan_ok_def all_from_Suc [OF \<open>k < n\<close>] using assms by auto
  qed
  moreover have "\<not> sections_scan_ok E h k c k" using ne by (simp add: sections_scan_ok_def)
  moreover have "k \<le> n \<longleftrightarrow> n = k \<or> Suc k \<le> n" for n by auto
  ultimately show ?thesis by auto
qed

lemma scan_section_table_None:
  "scan_section_table E h k c = None \<longleftrightarrow> (\<exists>n \<ge> k. sections_scan_ok E h k c n)"
proof (induction E h k c rule: scan_section_table.induct)
  case (1 E h k c)
  show ?case
  proof (cases "is_section_out_of_range h k")
    case True
    then show ?thesis
      using section_range_mono by (subst scan_section_table.simps) (auto simp: sections_scan_ok_def)
  next
    case False
    show ?thesis
    proof (cases "valid_tftf_section E h k")
      case (Inl err)
      have "\<not> (\<exists>n \<ge> k. sections_scan_ok E h k c n)"
        using Inl valid_section_end [of h k E] by (auto simp: sections_scan_ok_def le_less)
      with Inl False show ?thesis by (subst scan_section_table.simps) auto
    next
      case (Inr p)
      obtain b e where p: "p = (b, e)" by (cases p)
      show ?thesis
      proof (cases e)
        case True
        with Inr p have marker: "section_type (section_at h k) = TFTF_SECTION_END" by (auto dest: valid_section_not_end)
        have "sections_scan_ok E h k c n \<longrightarrow> n = k" if "k \<le> n" for n
          using that Inr p True by (auto simp: sections_scan_ok_def le_less)
        then have "(\<exists>n \<ge> k. sections_scan_ok E h k c n) \<longleftrightarrow> sections_scan_ok E h k c k" by auto
        also have "\<dots> \<longleftrightarrow> start_location h = 0 \<or> c"
          using False marker by (auto simp: sections_scan_ok_def)
        finally have "(\<exists>n \<ge> k. sections_scan_ok E h k c n) \<longleftrightarrow> start_location h = 0 \<or> c" .
        with Inr p True False show ?thesis by (subst scan_section_table.simps) auto
      next
        case e: False
        with Inr p have "valid_tftf_section E h k = Inr (b, False)" by simp
        from sections_scan_ok_Suc [OF this, of c] 1 [OF False Inr p [symmetric] e] False Inr p e show ?thesis
          by (subst scan_section_table.simps) auto
      qed
    qed
  qed
qed

lemma valid_section_iff:
  "valid_tftf_section E h k = Inr (b, False) \<longleftrightarrow>
    section_type (section_at h k) \<noteq> TFTF_SECTION_END \<and> known_tftf_type (section_type (section_at h k)) \<and>
    section_placed E (section_at h k) \<and>
    (section_load_address (section_at h k) \<noteq> DATA_ADDRESS_TO_BE_IGNORED \<longrightarrow>
       scan_other_sections h (section_at h k) (Suc k) = None) \<and>
    b = section_has_start h (section_at h k)"
  by (auto simp: valid_tftf_section_def section_placed_def section_has_start_def Let_def not_less
      split: option.splits if_splits)

lemma apart_from_next_iff:
  assumes "\<not> is_section_out_of_range h n" "section_type (section_at h n) = TFTF_SECTION_END"
    and "\<forall>i < n. section_type (section_at h i) \<noteq> TFTF_SECTION_END" and "k < n"
  shows "apart_from_next h n k \<longleftrightarrow> section_load_address (section_at h k) = DATA_ADDRESS_TO_BE_IGNORED \<or>
    scan_other_sections h (section_at h k) (Suc k) = None"
proof -
  let ?I = "\<lambda>i. section_load_address (section_at h i) = DATA_ADDRESS_TO_BE_IGNORED"
  have "(\<forall>i. k \<le> i \<and> i \<le> j \<longrightarrow> \<not> ?I i) \<longleftrightarrow> \<not> ?I k \<and> (\<forall>i. Suc k \<le> i \<and> i \<le> j \<longrightarrow> \<not> ?I i)" if "k < j" for j
    using that all_from_Suc [of k "Suc j" "\<lambda>i. \<not> ?I i"] by (simp add: less_Suc_eq_le)
  then show ?thesis
    using assms scan_sections_None [OF assms(1-3), of "Suc k"] by (auto simp: apart_from_next_def Suc_le_eq)
qed

lemma tftf_table_iff: "tftf_header_error E h = None \<longleftrightarrow> (\<exists>n. tftf_table_ok E h n)"
proof -
  have "sections_scan_ok E h 0 False n \<longleftrightarrow> tftf_table_ok E h n" for n
  proof (cases "\<not> is_section_out_of_range h n \<and> section_type (section_at h n) = TFTF_SECTION_END \<and>
      (\<forall>i < n. section_type (section_at h i) \<noteq> TFTF_SECTION_END)")
    case True
    then have valid: "(\<exists>b. valid_tftf_section E h k = Inr (b, False)) \<longleftrightarrow>
        known_tftf_type (section_type (section_at h k)) \<and> section_placed E (section_at h k) \<and> apart_from_next h n k"
      and start: "valid_tftf_section E h k = Inr (True, False) \<longleftrightarrow>
        (\<exists>b. valid_tftf_section E h k = Inr (b, False)) \<and> section_has_start h (section_at h k)"
      if "k < n" for k
      using that by (auto simp: valid_section_iff apart_from_next_iff)
    then show ?thesis
      using True by (auto simp: sections_scan_ok_def tftf_table_ok_def)
  next
    case False
    then show ?thesis by (auto simp: sections_scan_ok_def tftf_table_ok_def valid_section_iff)
  qed
  then show ?thesis by (simp add: tftf_header_error_def scan_section_table_None)
qed

section \<open>Frames\<close>

text \<open>What the loaders and the error reports leave alone.\<close>

definition tftf_frame :: "'a tftf_scheme \<Rightarrow> 'a tftf_scheme \<Rightarrow> bool" where
  "tftf_frame s t \<longleftrightarrow>
     tftf_header t = tftf_header s \<and> crypto_state t = crypto_state s \<and> tftf_hash t = tftf_hash s \<and>
     contain_signature t = contain_signature s \<and> ara_vid t = ara_vid s \<and> ara_pid t = ara_pid s \<and>
     ram t = ram s \<and> (\<exists>ev. io t = ev @ io s)"

interpretation tftf_frame: state_rel tftf_frame
  by unfold_locales (auto simp: tftf_frame_def)

lemma tftf_frame_trans: "tftf_frame s t \<Longrightarrow> tftf_frame t u \<Longrightarrow> tftf_frame s u"
  by (rule tftf_frame.trans)

text \<open>The hash context is as before, too.\<close>

definition tftf_quiet :: "'a tftf_scheme \<Rightarrow> 'a tftf_scheme \<Rightarrow> bool" where
  "tftf_quiet s t \<longleftrightarrow> tftf_frame s t \<and> shctx t = shctx s \<and> crypto_ready t = crypto_ready s"

lemma tftf_quiet_trans: "tftf_quiet s t \<Longrightarrow> tftf_quiet t u \<Longrightarrow> tftf_quiet s u"
  by (auto simp: tftf_quiet_def intro: tftf_frame_trans)

lemma tftf_quiet_hash_fed: "tftf_quiet s t \<Longrightarrow> hash_fed d t = hash_fed d s"
  by (simp add: tftf_quiet_def hash_fed_def)

lemma only_errs_quiet: "only_errs s t \<Longrightarrow> tftf_quiet s t"
  by (auto simp: only_errs_def tftf_quiet_def tftf_frame_def crypto_ready_def)

lemma set_last_error_quiet: "set_last_error E e s = Ret x t \<Longrightarrow> tftf_quiet s t"
  by (rule only_errs_quiet, rule preserves_RetD [OF set_last_error_only_errs])

lemma only_io_quiet:
  fixes m :: "('a tftf_scheme, 'b) prog"
  shows "preserves only_io m \<Longrightarrow> m s = Ret x t \<Longrightarrow> tftf_quiet s t"
  by (auto dest!: only_io_RetD simp: tftf_quiet_def tftf_frame_def crypto_ready_def)

lemma verify_signature_frame:
  assumes "verify_signature E digest sg s = Ret v t"
  shows "tftf_quiet s t"
proof (cases "find_public_key E sg s")
  case (Ret key u)
  have "tftf_quiet s u" using find_public_key_only_io Ret by (rule only_io_quiet)
  moreover have "tftf_quiet u t"
    using assms Ret
    by (auto simp: verify_signature_def prog_defs tftf_quiet_def tftf_frame_def crypto_ready_def
        split: option.splits if_splits)
  ultimately show ?thesis by (rule tftf_quiet_trans)
next
  case (Stop k u)
  with assms show ?thesis by (simp add: verify_signature_def)
qed

section \<open>What a signature establishes\<close>

text \<open>
  A key that may verify a signature, given the register accesses so far: in the first stage a ROM
  key of the signature's type and name whose revocation bit was read as clear; in the second a key
  of the configuration data.
\<close>

definition trusted_key :: "env \<Rightarrow> io_event list \<Rightarrow> tftf_signature \<Rightarrow> bytes \<Rightarrow> bool" where
  "trusted_key E hist sg kb \<longleftrightarrow>
     (if boot_stage E = 1 then
        (\<exists>k v. rom_key_matches E sg k kb \<and> RdReg (ISAA_BASE + TSB_ISAA_SCR) v \<in> set hist \<and> v AND push_bit k 1 = 0)
      else
        cfg_sentinel_ok E \<and>
        (\<exists>k key. k < unat (cfg_number_of_public_keys E) \<and> cfg_public_key E k = Some key \<and> kb = key_bytes key \<and>
           key_type key = sig_type sg \<and> strncmp (key_name key) (sig_key_name sg) 96 = 0))"

definition digest_verified :: "env \<Rightarrow> io_event list \<Rightarrow> bytes \<Rightarrow> bool" where
  "digest_verified E hist digest \<longleftrightarrow>
     (\<exists>sg kb v. trusted_key E hist sg kb \<and> rsa_verify digest kb (sig_bytes sg) = Some v \<and> v \<noteq> 0)"

lemma digest_verified_mono: "digest_verified E hist d \<Longrightarrow> digest_verified E (ev @ hist) d"
  unfolding digest_verified_def trusted_key_def by (auto split: if_splits)

lemma find_cfg_key_sound:
  "find_cfg_key E sg k n s = Ret (Some kb) t \<Longrightarrow>
    \<exists>j key. k \<le> j \<and> j < k + n \<and> cfg_public_key E j = Some key \<and> kb = key_bytes key \<and>
      key_type key = sig_type sg \<and> strncmp (key_name key) (sig_key_name sg) 96 = 0"
proof (induction n arbitrary: k)
  case 0
  then show ?case by (simp add: return_def)
next
  case (Suc n)
  show ?case
  proof (cases "find_cfg_key E sg (Suc k) n s = Ret (Some kb) t")
    case True
    from Suc.IH [OF this] show ?thesis by (elim exE conjE) (rule_tac x = j in exI, auto)
  next
    case False
    with Suc.prems show ?thesis
      by (intro exI [of _ k]) (auto simp: return_def stop_with_def split: option.splits if_splits)
  qed
qed

lemma find_public_key_trusted:
  assumes "find_public_key E sg s = Ret (Some kb) t"
  shows "trusted_key E (io t) sg kb"
proof (cases "boot_stage E = 1")
  case True
  with assms find_rom_key_sound [of E sg 0 "public_keys E" s kb t] obtain k v rest where
    "rom_key_matches E sg k kb" "v AND push_bit k 1 = 0" "io t = RdReg (ISAA_BASE + TSB_ISAA_SCR) v # rest"
    by (auto simp: find_public_key_def rom_key_matches_def)
  with True show ?thesis unfolding trusted_key_def by (auto intro!: exI [of _ k] exI [of _ v])
next
  case False
  with assms have "cfg_sentinel_ok E" "find_cfg_key E sg 0 (unat (cfg_number_of_public_keys E)) s = Ret (Some kb) t"
    by (auto simp: find_public_key_def return_def split: if_splits)
  with find_cfg_key_sound [OF this(2)] False show ?thesis by (auto simp: trusted_key_def)
qed

lemma verify_signature_verified:
  assumes "verify_signature E digest sg s = Ret 0 t"
  shows "digest_verified E (io t) digest"
proof -
  obtain kb u where u: "find_public_key E sg s = Ret (Some kb) u" "io t = io u"
    "rsa_verify digest kb (sig_bytes sg) \<noteq> Some 0" "rsa_verify digest kb (sig_bytes sg) \<noteq> None"
    using verify_signature_accepts [OF assms] by blast
  then show ?thesis
    using find_public_key_trusted [OF u(1)] by (auto simp: digest_verified_def)
qed

section \<open>What has been loaded and hashed\<close>

text \<open>The sections' data \<open>ds\<close>, stored one after the other.\<close>

definition store_section :: "tftf_section \<Rightarrow> bytes \<Rightarrow> (u32 \<Rightarrow> u8) \<Rightarrow> (u32 \<Rightarrow> u8)" where
  "store_section sec bs m =
     (if section_type sec = TFTF_SECTION_SIGNATURE \<or> section_load_address sec = DATA_ADDRESS_TO_BE_IGNORED then m
      else store_ram (section_load_address sec) bs m)"

definition stored_sections :: "bytes \<Rightarrow> bytes list \<Rightarrow> (u32 \<Rightarrow> u8) \<Rightarrow> (u32 \<Rightarrow> u8)" where
  "stored_sections h ds m = fold (\<lambda>i. store_section (section_at h i) (ds ! i)) [0..<length ds] m"

lemma stored_sections_Nil [simp]: "stored_sections h [] m = m"
  by (simp add: stored_sections_def)

lemma stored_sections_snoc:
  "stored_sections h (ds @ [b]) m = store_section (section_at h (length ds)) b (stored_sections h ds m)"
proof -
  have "fold (\<lambda>i. store_section (section_at h i) ((ds @ [b]) ! i)) [0..<length ds] m =
      fold (\<lambda>i. store_section (section_at h i) (ds ! i)) [0..<length ds] m"
    by (rule fold_cong) (auto simp: nth_append)
  then show ?thesis by (simp add: stored_sections_def)
qed

definition first_unsigned :: "bytes \<Rightarrow> nat \<Rightarrow> bool" where
  "first_unsigned h k0 \<longleftrightarrow>
     \<not> is_section_hashed (section_at h k0) \<and> (\<forall>i < k0. is_section_hashed (section_at h i))"

text \<open>What is signed: the header up to the first unsigned section, and the data of the sections before it.\<close>

definition signed_digest :: "bytes \<Rightarrow> nat \<Rightarrow> bytes list \<Rightarrow> bytes" where
  "signed_digest h k0 ds = sha256_spec (take (section_offset k0) h @ concat (take k0 ds))"

definition hash_status :: "env \<Rightarrow> bytes \<Rightarrow> nat \<Rightarrow> bytes list \<Rightarrow> 'a tftf_scheme \<Rightarrow> bool" where
  "hash_status E h k0 ds s \<longleftrightarrow>
     (case crypto_state s of
        CRYPTO_STATE_INIT \<Rightarrow> True
      | CRYPTO_STATE_HASHING \<Rightarrow>
          first_unsigned h k0 \<and> length ds \<le> k0 \<and> hash_fed (take (section_offset k0) h @ concat ds) s
      | CRYPTO_STATE_HASHED \<Rightarrow>
          first_unsigned h k0 \<and> k0 \<le> length ds \<and> crypto_ready s \<and> tftf_hash s = signed_digest h k0 ds
      | CRYPTO_STATE_VERIFIED \<Rightarrow>
          first_unsigned h k0 \<and> k0 \<le> length ds \<and> digest_verified E (io s) (signed_digest h k0 ds))"

lemma signed_digest_snoc: "k0 \<le> length ds \<Longrightarrow> signed_digest h k0 (ds @ [b]) = signed_digest h k0 ds"
  by (simp add: signed_digest_def)

text \<open>Closing the hash at the first unsigned section.\<close>

lemma close_hash:
  assumes "(if \<not> is_section_hashed (section_at h (length ds)) \<and> crypto_state s = CRYPTO_STATE_HASHING then
      bind hash_final (\<lambda>digest. modify (\<lambda>s. s\<lparr>tftf_hash := digest, crypto_state := CRYPTO_STATE_HASHED\<rparr>))
    else skip) s = Ret () t"
    and "hash_status E h k0 ds s"
  shows "hash_status E h k0 ds t \<and> tftf_header t = tftf_header s \<and> ram t = ram s \<and> io t = io s \<and>
    contain_signature t = contain_signature s \<and>
    (crypto_state t = CRYPTO_STATE_HASHING \<longrightarrow> is_section_hashed (section_at h (length ds)))"
proof (cases "\<not> is_section_hashed (section_at h (length ds)) \<and> crypto_state s = CRYPTO_STATE_HASHING")
  case True
  then have st: "first_unsigned h k0" "length ds \<le> k0" "hash_fed (take (section_offset k0) h @ concat ds) s"
    using assms(2) by (auto simp: hash_status_def)
  have k0: "length ds = k0" using st(1,2) True by (auto simp: first_unsigned_def le_less)
  obtain sh where sh: "hash_final s = Ret (sha256_spec (take (section_offset k0) h @ concat ds)) (s\<lparr>shctx := sh\<rparr>)"
    "crypto_ready (s\<lparr>shctx := sh\<rparr>)"
    using hash_final_run [OF st(3)] by blast
  then have t: "t = s\<lparr>shctx := sh, tftf_hash := signed_digest h k0 ds, crypto_state := CRYPTO_STATE_HASHED\<rparr>"
    using assms(1) True k0 by (simp add: modify_def signed_digest_def)
  then show ?thesis
    using st(1) k0 sh(2) by (simp add: hash_status_def crypto_ready_def)
next
  case False
  then show ?thesis using assms by (auto simp: skip_def return_def)
qed

text \<open>The data of each section has the length its descriptor says; signatures have their own.\<close>

definition data_lengths_ok :: "bytes \<Rightarrow> bytes list \<Rightarrow> bool" where
  "data_lengths_ok h ds \<longleftrightarrow>
     (\<forall>i < length ds. section_type (section_at h i) \<noteq> TFTF_SECTION_SIGNATURE \<longrightarrow>
        length (ds ! i) = unat (section_length (section_at h i)))"

text \<open>
  The state of the section loop: \<open>ds\<close> is the data of the sections done so far, RAM (which was \<open>m0\<close>
  before) holds exactly that, and the hash is where it should be.
\<close>

definition sections_done ::
    "env \<Rightarrow> bytes \<Rightarrow> nat \<Rightarrow> (u32 \<Rightarrow> u8) \<Rightarrow> bytes list \<Rightarrow> 'a tftf_scheme \<Rightarrow> bool" where
  "sections_done E h k0 m0 ds s \<longleftrightarrow>
     data_lengths_ok h ds \<and> ram s = stored_sections h ds m0 \<and> hash_status E h k0 ds s"

lemma data_lengths_snoc:
  "data_lengths_ok h ds \<Longrightarrow>
   (section_type (section_at h (length ds)) \<noteq> TFTF_SECTION_SIGNATURE \<Longrightarrow>
     length b = unat (section_length (section_at h (length ds)))) \<Longrightarrow> data_lengths_ok h (ds @ [b])"
  by (auto simp: data_lengths_ok_def nth_append less_Suc_eq)

lemma not_hashed_signature: "section_type sec = TFTF_SECTION_SIGNATURE \<Longrightarrow> \<not> is_section_hashed sec"
  by (simp add: is_section_hashed_def)

section \<open>Starting the hash\<close>

lemma known_type_hashed:
  assumes "known_tftf_type ty" "ty \<noteq> TFTF_SECTION_END" "ty \<noteq> TFTF_SECTION_SIGNATURE" "ty \<noteq> TFTF_SECTION_CERTIFICATE"
  shows "ty AND 0x80 = 0"
proof -
  have "unat ty \<le> 5" using assms by (auto simp: known_tftf_type_def word_le_nat_alt)
  then have "unat ty \<in> {0, 1, 2, 3, 4, 5}" by auto
  then have "ty \<in> {0, 1, 2, 3, 4, 5}" by (auto simp: word_unat_eq_iff)
  then show ?thesis by auto
qed

text \<open>The table of sections, the memory and the counters of the header are as before.\<close>

definition types_frame :: "'a tftf_scheme \<Rightarrow> 'a tftf_scheme \<Rightarrow> bool" where
  "types_frame s t \<longleftrightarrow> tftf_header t = tftf_header s \<and> ram t = ram s \<and> (\<exists>ev. io t = ev @ io s)"

interpretation types_frame: state_rel types_frame
  by unfold_locales (auto simp: types_frame_def)

lemma start_hashing_run:
  assumes "start_hashing h k s = Ret () t"
  shows "types_frame s t \<and> contain_signature t = contain_signature s"
    and "crypto_state s = CRYPTO_STATE_INIT \<Longrightarrow> crypto_ready s \<Longrightarrow>
      crypto_state t = CRYPTO_STATE_HASHING \<and> hash_fed (take (section_offset k) h) t"
    and "crypto_state s \<noteq> CRYPTO_STATE_INIT \<Longrightarrow> t = s"
proof -
  show "types_frame s t \<and> contain_signature t = contain_signature s"
    using assms
    by (auto simp: start_hashing_def hash_start_def hash_update_def prog_defs types_frame_def split: if_splits)
  show "t = s" if "crypto_state s \<noteq> CRYPTO_STATE_INIT"
    using assms that by (simp add: start_hashing_def prog_defs)
  assume init: "crypto_state s = CRYPTO_STATE_INIT" and ready: "crypto_ready s"
  let ?s1 = "s\<lparr>shctx := shs256_init (shctx s), crypto_state := CRYPTO_STATE_HASHING\<rparr>"
  have "hash_fed [] ?s1" using hash_start_run(2) [OF ready] by (simp add: hash_fed_def crypto_ready_def)
  from hash_update_run [OF this, of "take (section_offset k) h"] hash_start_run(1) [OF ready] assms init
  show "crypto_state t = CRYPTO_STATE_HASHING \<and> hash_fed (take (section_offset k) h) t"
    by (auto simp: start_hashing_def gets_def modify_def)
qed

lemma types_step:
  assumes "process_section_types E h k s = Ret 0 t"
  obtains (at_end) "section_type (section_at h k) = TFTF_SECTION_END" "t = s"
  | (unsigned) s1 u where "\<not> is_section_hashed (section_at h k)" "\<not> is_section_out_of_range h k"
      "s1 = s \<or> s1 = s\<lparr>contain_signature := True\<rparr>"
      "start_hashing h k s1 = Ret () u" "process_section_types E h (Suc k) u = Ret 0 t"
  | (signed) "section_type (section_at h k) \<notin> {TFTF_SECTION_END, TFTF_SECTION_SIGNATURE, TFTF_SECTION_CERTIFICATE}"
      "\<not> is_section_out_of_range h k"
      "crypto_state s \<noteq> CRYPTO_STATE_HASHING" "process_section_types E h (Suc k) s = Ret 0 t"
proof -
  let ?ty = "section_type (section_at h k)"
  have r: "\<not> is_section_out_of_range h k"
    using assms by (subst (asm) process_section_types.simps) (auto simp: report_run)
  consider "?ty = TFTF_SECTION_END" | "?ty = TFTF_SECTION_SIGNATURE" | "?ty = TFTF_SECTION_CERTIFICATE"
    | "?ty \<notin> {TFTF_SECTION_END, TFTF_SECTION_SIGNATURE, TFTF_SECTION_CERTIFICATE}" by blast
  then show ?thesis
  proof cases
    case 1
    with assms r show ?thesis
      by (subst (asm) process_section_types.simps) (auto simp: return_def intro: at_end)
  next
    case 2
    with assms r obtain u where "start_hashing h k (s\<lparr>contain_signature := True\<rparr>) = Ret () u"
      "process_section_types E h (Suc k) u = Ret 0 t"
      by (subst (asm) process_section_types.simps) (auto simp: modify_def elim!: bind_eq_RetE)
    with 2 r show ?thesis by (intro unsigned) (auto simp: is_section_hashed_def)
  next
    case 3
    with assms r obtain u where "start_hashing h k s = Ret () u" "process_section_types E h (Suc k) u = Ret 0 t"
      by (subst (asm) process_section_types.simps) (auto elim!: bind_eq_RetE)
    with 3 r show ?thesis by (intro unsigned) (auto simp: is_section_hashed_def)
  next
    case 4
    with assms r have "crypto_state s \<noteq> CRYPTO_STATE_HASHING \<and> process_section_types E h (Suc k) s = Ret 0 t"
      by (subst (asm) process_section_types.simps) (auto simp: Let_def gets_def report_run split: if_splits)
    with 4 r show ?thesis by (intro signed) auto
  qed
qed

lemma section_measure: "\<not> is_section_out_of_range h k \<Longrightarrow> unat (tftf_header_size h) - Suc k < unat (tftf_header_size h) - k"
  by (auto simp: is_section_out_of_range_def section_offset_def)

text \<open>Once hashing has started, the rest of the table changes nothing but the signature flag.\<close>

lemma types_run_hashing:
  assumes "process_section_types E h k s = Ret 0 t" "crypto_state s = CRYPTO_STATE_HASHING"
  shows "types_frame s t \<and> crypto_state t = CRYPTO_STATE_HASHING \<and> (\<forall>d. hash_fed d s \<longrightarrow> hash_fed d t)"
  using assms
proof (induction "unat (tftf_header_size h) - k" arbitrary: k s rule: less_induct)
  case less
  from less.prems(1) show ?case
  proof (cases rule: types_step)
    case at_end
    with less.prems show ?thesis by (simp add: types_frame.refl)
  next
    case (unsigned s1 u)
    then have "u = s1" "crypto_state s1 = CRYPTO_STATE_HASHING"
      using start_hashing_run(3) [OF unsigned(4)] less.prems(2) by auto
    with less.hyps [OF section_measure [OF unsigned(2)] unsigned(5)] unsigned(3) show ?thesis
      by (auto simp: types_frame_def hash_fed_def crypto_ready_def)
  qed (use less.prems in simp)
qed

text \<open>
  Before that: either no unsigned section is met, or hashing starts at the first one with the header
  in front of it.
\<close>

lemma types_run_init:
  assumes "process_section_types E h k s = Ret 0 t" "crypto_state s = CRYPTO_STATE_INIT" "crypto_ready s"
    and "tftf_table_ok E h n" "k \<le> n" "\<forall>i < k. is_section_hashed (section_at h i)"
  shows "types_frame s t \<and>
    (crypto_state t = CRYPTO_STATE_INIT \<and> contain_signature t = contain_signature s \<or>
     crypto_state t = CRYPTO_STATE_HASHING \<and> (\<exists>k0. first_unsigned h k0 \<and> hash_fed (take (section_offset k0) h) t))"
  using assms(1,2,3,5,6)
proof (induction "unat (tftf_header_size h) - k" arbitrary: k s rule: less_induct)
  case less
  from less.prems(1) show ?case
  proof (cases rule: types_step)
    case at_end
    with less.prems show ?thesis by (simp add: types_frame.refl)
  next
    case (unsigned s1 u)
    have "crypto_state s1 = CRYPTO_STATE_INIT" "crypto_ready s1" "types_frame s s1"
      using unsigned(3) less.prems(2,3) by (auto simp: crypto_ready_def types_frame_def)
    with start_hashing_run [OF unsigned(4)] have
      u: "crypto_state u = CRYPTO_STATE_HASHING" "hash_fed (take (section_offset k) h) u" "types_frame s u"
      by (auto intro: types_frame.trans)
    have "first_unsigned h k" using unsigned(1) less.prems(5) by (simp add: first_unsigned_def)
    with types_run_hashing [OF unsigned(5) u(1)] u(2,3) show ?thesis by (auto intro: types_frame.trans)
  next
    case signed
    have "k < n" using assms(4) less.prems(4) signed(1) by (auto simp: tftf_table_ok_def le_less)
    then have "is_section_hashed (section_at h k)"
      using assms(4) signed(1) known_type_hashed by (auto simp: tftf_table_ok_def is_section_hashed_def)
    with less.prems(5) have "\<forall>i < Suc k. is_section_hashed (section_at h i)" by (simp add: less_Suc_eq)
    with less.hyps [OF section_measure [OF signed(2)] signed(4) less.prems(2,3)] \<open>k < n\<close> show ?thesis by simp
  qed
qed

section \<open>The loader's contract, for this client\<close>

locale tftf_loader = loader "ops_load ops" keeps
  for ops :: "'a tftf_scheme data_load_ops" and keeps :: "'a tftf_scheme \<Rightarrow> 'a tftf_scheme \<Rightarrow> bool" +
  assumes keeps_frame: "keeps s t \<Longrightarrow> tftf_frame s t"
begin

text \<open>From \<open>s\<close> to \<open>t\<close> the bytes \<open>bs\<close> have been loaded, and hashed if \<open>h\<close>.\<close>

definition loaded :: "bool \<Rightarrow> 'a tftf_scheme \<Rightarrow> bytes \<Rightarrow> 'a tftf_scheme \<Rightarrow> bool" where
  "loaded h s bs t \<longleftrightarrow>
     tftf_frame s t \<and> (\<forall>d. hash_fed d s \<longrightarrow> hash_fed (if h then d @ bs else d) t) \<and>
     (\<not> h \<longrightarrow> crypto_ready s \<longrightarrow> crypto_ready t)"

lemma loaded_refl: "loaded h s [] s"
  by (simp add: loaded_def tftf_frame.refl)

lemma loaded_trans: "loaded h s a t \<Longrightarrow> loaded h t b u \<Longrightarrow> loaded h s (a @ b) u"
  unfolding loaded_def by (auto intro: tftf_frame_trans split: if_splits)

lemma load_loaded:
  assumes "ops_load ops dst n h s = Ret (0, bs) t"
  shows "loaded h s bs t \<and> length bs = unat n"
  using load_exact [OF assms] keeps_frame [OF load_keeps [OF assms]] load_hashes [OF _ assms]
    load_ready [of s dst n "(0, bs)" t] assms
  by (auto simp: loaded_def)

lemma discard_loaded:
  "discard_section ops len h s = Ret 0 t \<Longrightarrow> \<exists>bs. loaded h s bs t \<and> length bs = unat len"
proof (induction "unat len" arbitrary: len s rule: less_induct)
  case less
  show ?case
  proof (cases "len = 0")
    case True
    with less.prems show ?thesis
      using loaded_refl by (subst (asm) discard_section.simps) (auto simp: return_def)
  next
    case False
    let ?blk = "if len > TEMP_BUFFER_SIZE then TEMP_BUFFER_SIZE else len"
    from less.prems False obtain bs u where
      u: "ops_load ops To_temp ?blk h s = Ret (0, bs) u" "discard_section ops (len - ?blk) h u = Ret 0 t"
      by (subst (asm) discard_section.simps)
        (auto simp: Let_def return_def assert_or_fault_def skip_def stop_with_def elim!: bind_eq_RetE split: if_splits)
    have blk: "unat len = unat ?blk + unat (len - ?blk)" "0 < unat ?blk"
      using False by (auto simp: unat_sub word_less_nat_alt word_le_nat_alt unat_gt_0)
    then have "unat (len - ?blk) < unat len" by linarith
    from less.hyps [OF this u(2)] obtain bs' where bs': "loaded h u bs' t" "length bs' = unat (len - ?blk)"
      by blast
    have "loaded h s (bs @ bs') t" using load_loaded [OF u(1)] bs'(1) loaded_trans by blast
    moreover have "length (bs @ bs') = unat len"
      using load_loaded [OF u(1)] bs'(2) blk(1) by (simp only: length_append)
    ultimately show ?thesis by blast
  qed
qed

lemma status_after_load:
  assumes "hash_status E h k0 ds s" "loaded (crypto_state s = CRYPTO_STATE_HASHING) s b t"
    and "crypto_state s = CRYPTO_STATE_HASHING \<longrightarrow> is_section_hashed (section_at h (length ds))"
  shows "hash_status E h k0 (ds @ [b]) t"
proof -
  have cs: "crypto_state t = crypto_state s" "tftf_hash t = tftf_hash s" "\<exists>ev. io t = ev @ io s"
    using assms(2) by (auto simp: loaded_def tftf_frame_def)
  show ?thesis
  proof (cases "crypto_state s")
    case CRYPTO_STATE_HASHING
    then have st: "first_unsigned h k0" "length ds \<le> k0" "hash_fed (take (section_offset k0) h @ concat ds) s"
      "is_section_hashed (section_at h (length ds))"
      using assms(1,3) by (auto simp: hash_status_def)
    then have "length ds \<noteq> k0" by (auto simp: first_unsigned_def)
    with st CRYPTO_STATE_HASHING cs assms(2) show ?thesis
      by (auto simp: hash_status_def loaded_def)
  qed (use assms(1,2) cs digest_verified_mono in
      \<open>auto simp: hash_status_def loaded_def signed_digest_snoc\<close>)
qed

text \<open>One section, of either kind, after the hash has been closed if it had to be.\<close>

lemma signature_step:
  assumes "bind (ops_load ops To_signature 360 False) (\<lambda>(rc, bs).
       bind (gets tftf_sig) (\<lambda>buf.
       bind (assert_or_fault (fits buf 0 bs)) (\<lambda>_.
       bind (modify (\<lambda>s. s\<lparr>tftf_sig := put_bytes buf 0 bs\<rparr>)) (\<lambda>_.
       if rc \<noteq> 0 then bind (set_last_error E BRE_TFTF_LOAD_SIGNATURE) (\<lambda>_. return (-1))
       else
         bind get_state (\<lambda>s.
         if crypto_state s = CRYPTO_STATE_HASHED then
           bind (verify_signature E (tftf_hash s) (signature_of (tftf_sig s))) (\<lambda>v.
           bind (if v = 0 then modify (\<lambda>s. s\<lparr>crypto_state := CRYPTO_STATE_VERIFIED\<rparr>) else skip) (\<lambda>_.
           return 0))
         else return 0))))) s = Ret (0 :: int) t"
    and st: "hash_status E h k0 ds s" "crypto_state s \<noteq> CRYPTO_STATE_HASHING"
  shows "\<exists>b. hash_status E h k0 (ds @ [b]) t \<and> tftf_header t = tftf_header s \<and> ram t = ram s \<and>
    contain_signature t = contain_signature s"
proof -
  from assms(1) obtain bs u where u: "ops_load ops To_signature 360 False s = Ret (0, bs) u" and
    rest: "(let s = u\<lparr>tftf_sig := put_bytes (tftf_sig u) 0 bs\<rparr> in
       if crypto_state s = CRYPTO_STATE_HASHED then
           bind (verify_signature E (tftf_hash s) (signature_of (tftf_sig s))) (\<lambda>v.
           bind (if v = 0 then modify (\<lambda>s. s\<lparr>crypto_state := CRYPTO_STATE_VERIFIED\<rparr>) else skip) (\<lambda>_.
           return 0))
         else return 0) (u\<lparr>tftf_sig := put_bytes (tftf_sig u) 0 bs\<rparr>) = Ret (0 :: int) t"
    by (auto simp: gets_def modify_def get_state_def assert_or_fault_def skip_def stop_with_def return_def
        report_run Let_def elim!: bind_eq_RetE split: if_splits)
  let ?u = "u\<lparr>tftf_sig := put_bytes (tftf_sig u) 0 bs\<rparr>"
  have l: "loaded (crypto_state s = CRYPTO_STATE_HASHING) s bs u" using load_loaded [OF u] st(2) by simp
  then have f: "tftf_header u = tftf_header s" "ram u = ram s" "contain_signature u = contain_signature s"
    "crypto_state u = crypto_state s"
    by (auto simp: loaded_def tftf_frame_def)
  have "hash_status E h k0 (ds @ [bs]) u" using status_after_load [OF st(1) l] st(2) by simp
  then have su: "hash_status E h k0 (ds @ [bs]) ?u"
    by (auto simp: hash_status_def crypto_ready_def hash_fed_def split: crypto_processing_state.splits)
  show ?thesis
  proof (cases "crypto_state u = CRYPTO_STATE_HASHED")
    case False
    with rest have "t = ?u" by (simp add: Let_def return_def)
    with su f show ?thesis by auto
  next
    case True
    with rest obtain v w where w: "verify_signature E (tftf_hash u) (signature_of (tftf_sig ?u)) ?u = Ret v w"
      "t = (if v = 0 then w\<lparr>crypto_state := CRYPTO_STATE_VERIFIED\<rparr> else w)"
      by (auto simp: Let_def modify_def skip_def return_def elim!: bind_eq_RetE split: if_splits)
    have q: "tftf_quiet ?u w" by (rule verify_signature_frame [OF w(1)])
    from True su have d: "first_unsigned h k0" "k0 \<le> length (ds @ [bs])" "crypto_ready ?u"
      "tftf_hash u = signed_digest h k0 (ds @ [bs])"
      by (auto simp: hash_status_def)
    have "hash_status E h k0 (ds @ [bs]) t"
    proof (cases "v = 0")
      case True
      with verify_signature_verified [of E "tftf_hash u"] w d show ?thesis by (auto simp: hash_status_def)
    next
      case v: False
      with w q d True show ?thesis by (auto simp: hash_status_def tftf_quiet_def tftf_frame_def)
    qed
    with w(2) q f show ?thesis by (auto simp: tftf_quiet_def tftf_frame_def split: if_splits)
  qed
qed

lemma data_step:
  assumes "bind (gets (\<lambda>s. crypto_state s = CRYPTO_STATE_HASHING)) (\<lambda>hash_loaded_data.
       if section_load_address sec = DATA_ADDRESS_TO_BE_IGNORED then
         bind (discard_section ops (section_length sec) hash_loaded_data) (\<lambda>rc.
         if rc \<noteq> 0 then bind (set_last_error E BRE_TFTF_LOAD_DATA) (\<lambda>_. return (-1)) else return 0)
       else
         bind (ops_load ops (To_ram (section_load_address sec)) (section_length sec) hash_loaded_data) (\<lambda>(rc, bs).
         bind (modify (\<lambda>s. s\<lparr>ram := store_ram (section_load_address sec) bs (ram s)\<rparr>)) (\<lambda>_.
         if rc \<noteq> 0 then bind (set_last_error E BRE_TFTF_LOAD_DATA) (\<lambda>_. return (-1)) else return 0))) s
       = Ret (0 :: int) t"
  shows "\<exists>b u. loaded (crypto_state s = CRYPTO_STATE_HASHING) s b u \<and> length b = unat (section_length sec) \<and>
    t = (if section_load_address sec = DATA_ADDRESS_TO_BE_IGNORED then u
         else u\<lparr>ram := store_ram (section_load_address sec) b (ram u)\<rparr>)"
proof (cases "section_load_address sec = DATA_ADDRESS_TO_BE_IGNORED")
  case True
  with assms have "discard_section ops (section_length sec) (crypto_state s = CRYPTO_STATE_HASHING) s = Ret 0 t"
    by (auto simp: gets_def return_def report_run elim!: bind_eq_RetE split: if_splits)
  from discard_loaded [OF this] True show ?thesis by auto
next
  case False
  with assms obtain b u where u:
    "ops_load ops (To_ram (section_load_address sec)) (section_length sec) (crypto_state s = CRYPTO_STATE_HASHING) s = Ret (0, b) u"
    "t = u\<lparr>ram := store_ram (section_load_address sec) b (ram u)\<rparr>"
    by (auto simp: gets_def modify_def return_def report_run elim!: bind_eq_RetE split: if_splits)
  with load_loaded [OF u(1)] False show ?thesis by (intro exI [of _ b] exI [of _ u]) simp
qed

lemma section_step:
  assumes "process_tftf_section E ops (section_at h (length ds)) s = Ret 0 t" "sections_done E h k0 m0 ds s"
  shows "\<exists>b. sections_done E h k0 m0 (ds @ [b]) t \<and> tftf_header t = tftf_header s \<and>
    contain_signature t = contain_signature s"
proof -
  let ?sec = "section_at h (length ds)"
  from assms(1) obtain s1 where
    s1: "(if \<not> is_section_hashed ?sec \<and> crypto_state s = CRYPTO_STATE_HASHING then
      bind hash_final (\<lambda>digest. modify (\<lambda>s. s\<lparr>tftf_hash := digest, crypto_state := CRYPTO_STATE_HASHED\<rparr>))
    else skip) s = Ret () s1"
    by (auto simp: process_tftf_section_def gets_def elim!: bind_eq_RetE)
  have st: "hash_status E h k0 ds s" "data_lengths_ok h ds" "ram s = stored_sections h ds m0"
    using assms(2) by (auto simp: sections_done_def)
  note c = close_hash [OF s1 st(1)]
  show ?thesis
  proof (cases "section_type ?sec = TFTF_SECTION_SIGNATURE")
    case True
    have n: "crypto_state s1 \<noteq> CRYPTO_STATE_HASHING" using c not_hashed_signature [OF True] by blast
    from assms(1) True s1 c n st show ?thesis
      using signature_step [of E s1 t h k0 ds] not_hashed_signature [OF True]
      by (auto simp: process_tftf_section_def gets_def sections_done_def stored_sections_snoc store_section_def
          intro: data_lengths_snoc)
  next
    case False
    from assms(1) False s1 obtain b u where
      u: "loaded (crypto_state s1 = CRYPTO_STATE_HASHING) s1 b u" "length b = unat (section_length ?sec)"
        "t = (if section_load_address ?sec = DATA_ADDRESS_TO_BE_IGNORED then u
          else u\<lparr>ram := store_ram (section_load_address ?sec) b (ram u)\<rparr>)"
      using data_step [of ?sec E s1 t] by (auto simp: process_tftf_section_def gets_def)
    have "hash_status E h k0 (ds @ [b]) u" using status_after_load [OF _ u(1)] c by blast
    then have "hash_status E h k0 (ds @ [b]) t"
      unfolding u(3) by (auto simp: hash_status_def crypto_ready_def hash_fed_def split: crypto_processing_state.splits)
    moreover have "ram u = ram s1" "tftf_header u = tftf_header s1" "contain_signature u = contain_signature s1"
      using u(1) by (auto simp: loaded_def tftf_frame_def)
    ultimately show ?thesis
      using u(2,3) c st False
      by (intro exI [of _ b]) (auto simp: sections_done_def stored_sections_snoc store_section_def intro: data_lengths_snoc)
  qed
qed

lemma sections_run:
  assumes "process_sections E ops h k s = Ret 0 t" "sections_done E h k0 m0 ds s" "length ds = k"
  shows "\<exists>ds'. sections_done E h k0 m0 ds' t \<and> tftf_header t = tftf_header s \<and>
    contain_signature t = contain_signature s \<and>
    (is_section_out_of_range h (length ds') \<or> section_type (section_at h (length ds')) = TFTF_SECTION_END)"
  using assms
proof (induction "unat (tftf_header_size h) - k" arbitrary: k s ds rule: less_induct)
  case less
  show ?case
  proof (cases "is_section_out_of_range h k \<or> section_type (section_at h k) = TFTF_SECTION_END")
    case True
    with less.prems show ?thesis
      by (subst (asm) process_sections.simps) (auto simp: return_def stop_with_def split: if_splits)
  next
    case False
    with less.prems(1) obtain u where
      u: "process_tftf_section E ops (section_at h k) s = Ret 0 u" "process_sections E ops h (Suc k) u = Ret 0 t"
      by (subst (asm) process_sections.simps)
        (auto simp: return_def stop_with_def elim!: bind_eq_RetE split: if_splits)
    from section_step [OF u(1) [folded less.prems(3)] less.prems(2)] obtain b where
      b: "sections_done E h k0 m0 (ds @ [b]) u" "tftf_header u = tftf_header s"
        "contain_signature u = contain_signature s" by blast
    have "unat (tftf_header_size h) - Suc k < unat (tftf_header_size h) - k"
      using False by (auto simp: is_section_out_of_range_def section_offset_def)
    from less.hyps [OF this u(2) b(1)] less.prems(3) b(2,3) show ?thesis by auto
  qed
qed

text \<open>The header: what is known when \<^verbatim>\<open>load_tftf_header\<close> reports success.\<close>

lemma load_part_run:
  assumes "load_header_part ops off n s = Ret rc t"
  shows "\<exists>bs. fits (tftf_header s) off bs \<and> tftf_header t = put_bytes (tftf_header s) off bs \<and>
    crypto_state t = crypto_state s \<and> contain_signature t = contain_signature s \<and> ram t = ram s \<and>
    (crypto_ready s \<longrightarrow> crypto_ready t)"
proof -
  from assms obtain bs u where u: "ops_load ops (To_header off) n False s = Ret (rc, bs) u" "fits (tftf_header u) off bs"
    "t = u\<lparr>tftf_header := put_bytes (tftf_header u) off bs\<rparr>"
    by (auto simp: load_header_part_def gets_def modify_def return_def assert_or_fault_def skip_def stop_with_def
        elim!: bind_eq_RetE split: if_splits)
  have f: "tftf_frame s u" by (rule keeps_frame [OF load_keeps [OF u(1)]])
  have "crypto_ready s \<longrightarrow> crypto_ready u" using load_ready [OF _ u(1)] by blast
  with f u(2,3) show ?thesis
    by (auto simp: tftf_frame_def crypto_ready_def)
qed

lemma header_parts:
  assumes "load_tftf_header E ops s = Ret 0 t"
  shows "(\<exists>u e. set_last_error E e u = Ret () t \<and> ram u = ram s \<and> crypto_state u = CRYPTO_STATE_INIT \<and>
      \<not> contain_signature u) \<or>
    (\<exists>u. check_tftf_header E u = Ret 0 t \<and> ram u = ram s \<and> crypto_state u = CRYPTO_STATE_INIT \<and>
      \<not> contain_signature u \<and> (crypto_ready s \<longrightarrow> crypto_ready u) \<and>
      tftf_header_size (tftf_header u) \<le> MAX_TFTF_HEADER_SIZE_SUPPORTED \<and> length (tftf_header u) = length (tftf_header s))"
proof -
  let ?s0 = "s\<lparr>crypto_state := CRYPTO_STATE_INIT, contain_signature := False\<rparr>"
  from assms obtain s1 where s1: "load_header_part ops 0 TFTF_HEADER_SIZE_MIN ?s0 = Ret 0 s1"
    by (auto simp: load_tftf_header_def modify_def report_run elim!: bind_eq_RetE split: if_splits)
  let ?h = "tftf_header s1"
  from load_part_run [OF s1] have f1: "crypto_state s1 = CRYPTO_STATE_INIT" "\<not> contain_signature s1"
    "ram s1 = ram s" "crypto_ready s \<longrightarrow> crypto_ready s1" "length ?h = length (tftf_header s)"
    by (auto simp: fits_def crypto_ready_def)
  show ?thesis
  proof (cases "memcmp ?h tftf_sentinel TFTF_SENTINEL_SIZE \<noteq> 0 \<or>
      tftf_header_size ?h < TFTF_HEADER_SIZE_MIN \<or> tftf_header_size ?h > MAX_TFTF_HEADER_SIZE_SUPPORTED")
    case True
    with assms s1 have "\<exists>e. set_last_error E e s1 = Ret () t"
      by (auto simp: load_tftf_header_def modify_def gets_def report_run split: if_splits)
    with f1 show ?thesis by blast
  next
    case False
    let ?part = "if tftf_header_size ?h \<noteq> TFTF_HEADER_SIZE_MIN
      then load_header_part ops 512 (tftf_header_size ?h - TFTF_HEADER_SIZE_MIN) else return 0"
    let ?rest = "\<lambda>rc. if rc \<noteq> 0 then bind (set_last_error E BRE_TFTF_LOAD_HEADER) (\<lambda>_. return (-1))
      else check_tftf_header E"
    have "bind ?part ?rest s1 = Ret 0 t"
      using assms s1 False by (simp add: load_tftf_header_def modify_def gets_def)
    then obtain rc s2 where s2: "?part s1 = Ret rc s2" "?rest rc s2 = Ret 0 t" by (rule bind_eq_RetE)
    from s2(2) have t: "rc = 0" "check_tftf_header E s2 = Ret 0 t" by (auto simp: report_run split: if_splits)
    have "s2 = s1 \<or> (\<exists>bs. fits ?h 512 bs \<and> tftf_header s2 = put_bytes ?h 512 bs \<and>
        crypto_state s2 = crypto_state s1 \<and> contain_signature s2 = contain_signature s1 \<and> ram s2 = ram s1 \<and>
        (crypto_ready s1 \<longrightarrow> crypto_ready s2))"
      using s2(1) load_part_run [of 512] by (auto simp: return_def split: if_splits)
    then have "crypto_state s2 = crypto_state s1" "contain_signature s2 = contain_signature s1" "ram s2 = ram s1"
      "crypto_ready s1 \<longrightarrow> crypto_ready s2" "tftf_header_size (tftf_header s2) = tftf_header_size ?h"
      "length (tftf_header s2) = length ?h"
      by (auto simp: tftf_header_size_def get_u32_put_bytes_below fits_def)
    with t(2) f1 False show ?thesis by (intro disjI2 exI [of _ s2]) auto
  qed
qed

end

section \<open>Lemmas on the checked header\<close>

lemma check_header_run:
  assumes "check_tftf_header E s = Ret 0 t" "crypto_state s = CRYPTO_STATE_INIT" "crypto_ready s"
  shows "types_frame s t \<and> (\<exists>n. tftf_table_ok E (tftf_header s) n) \<and>
    (crypto_state t = CRYPTO_STATE_INIT \<and> contain_signature t = contain_signature s \<or>
     crypto_state t = CRYPTO_STATE_HASHING \<and> (\<exists>k0. hash_status E (tftf_header s) k0 [] t))"
proof -
  let ?s1 = "s\<lparr>tftf_header_end := unat (tftf_header_size (tftf_header s))\<rparr>" and ?h = "tftf_header s"
  from assms(1) obtain s2 s3 s4 x y where
    s2: "valid_tftf_header E ?h ?s1 = Ret True s2" and
    s3: "chip_unipro_attr_read E DME_DDBL1_MANUFACTURERID 0 False s2 = Ret x s3" and
    s4: "chip_unipro_attr_read E DME_DDBL1_PRODUCTID 0 False s3 = Ret y s4" and
    t: "process_section_types E ?h 0 s4 = Ret 0 t"
    by (auto simp: check_tftf_header_def modify_def gets_def return_def report_run elim!: bind_eq_RetE split: if_splits)
  from s2 have ok: "tftf_header_error E ?h = None" "s2 = ?s1"
    by (auto simp: valid_tftf_header_def return_def report_run split: option.splits)
  then obtain n where n: "tftf_table_ok E ?h n" by (auto simp: tftf_table_iff)
  have "tftf_quiet s2 s3" "tftf_quiet s3 s4"
    using only_io_quiet [OF unipro_only_io(1) s3] only_io_quiet [OF unipro_only_io(1) s4] by simp_all
  then have q: "tftf_quiet s2 s4" by (rule tftf_quiet_trans)
  then have s4: "crypto_state s4 = CRYPTO_STATE_INIT" "crypto_ready s4" "types_frame s s4"
      "contain_signature s4 = contain_signature s"
    using assms(2,3) unfolding ok(2) by (auto simp: tftf_quiet_def tftf_frame_def types_frame_def crypto_ready_def)
  from types_run_init [OF t s4(1,2) n] s4(3,4) n show ?thesis
    by (auto simp: hash_status_def intro: types_frame.trans)
qed

section \<open>The image\<close>

text \<open>
  A load that succeeds: RAM holds the sections' data, stored in order, and nothing else has changed
  in it; a secure result means that the digest of the signed part was verified; a result that is not
  secure means that the image carries no signature, and untrusted images are allowed.
\<close>

definition image_loaded :: "env \<Rightarrow> (u32 \<Rightarrow> u8) \<Rightarrow> bool \<Rightarrow> 'a tftf_scheme \<Rightarrow> bool" where
  "image_loaded E m0 secure t \<longleftrightarrow>
     (let h = tftf_header t
      in \<exists>ds. data_lengths_ok h ds \<and> ram t = stored_sections h ds m0 \<and>
           (is_section_out_of_range h (length ds) \<or> section_type (section_at h (length ds)) = TFTF_SECTION_END) \<and>
           (if secure then \<exists>k0 n. tftf_table_ok E h n \<and> first_unsigned h k0 \<and> k0 \<le> length ds \<and>
              digest_verified E (io t) (signed_digest h k0 ds)
            else \<not> contain_signature t \<and>
              (\<exists>h. dev E h (ISAA_BASE + TSB_ISAA_SCR) AND TSB_ISAA_TRUSTED_ONLY = 0)))"

context tftf_loader
begin

text \<open>What holds after the header, whichever way it was accepted.\<close>

lemma header_run:
  assumes "load_tftf_header E ops s = Ret 0 t" "crypto_ready s"
  shows "\<exists>k0. sections_done E (tftf_header t) k0 (ram s) [] t \<and>
    (crypto_state t = CRYPTO_STATE_INIT \<and> \<not> contain_signature t \<or>
     crypto_state t = CRYPTO_STATE_HASHING \<and> (\<exists>n. tftf_table_ok E (tftf_header t) n))"
  using header_parts [OF assms(1)]
proof (elim disjE exE conjE)
  fix u e
  assume u: "set_last_error E e u = Ret () t" "ram u = ram s" "crypto_state u = CRYPTO_STATE_INIT" "\<not> contain_signature u"
  have "tftf_quiet u t" by (rule set_last_error_quiet [OF u(1)])
  with u show ?thesis
    by (auto simp: tftf_quiet_def tftf_frame_def sections_done_def data_lengths_ok_def hash_status_def)
next
  fix u
  assume u: "check_tftf_header E u = Ret 0 t" "ram u = ram s" "crypto_state u = CRYPTO_STATE_INIT"
    "\<not> contain_signature u" "crypto_ready s \<longrightarrow> crypto_ready u"
  from check_header_run [OF u(1,3)] u(5) assms(2) have
    c: "types_frame u t" "\<exists>n. tftf_table_ok E (tftf_header u) n"
      "crypto_state t = CRYPTO_STATE_INIT \<and> contain_signature t = contain_signature u \<or>
       crypto_state t = CRYPTO_STATE_HASHING \<and> (\<exists>k0. hash_status E (tftf_header u) k0 [] t)" by auto
  then have "tftf_header t = tftf_header u" "ram t = ram s" using u(2) by (auto simp: types_frame_def)
  with c u(4) show ?thesis
    by (auto simp: sections_done_def data_lengths_ok_def hash_status_def)
qed

text \<open>An image whose hashing has not been started is never verified.\<close>

lemma init_stays:
  assumes "process_sections E ops h 0 s = Ret 0 t" "crypto_state s = CRYPTO_STATE_INIT"
  shows "crypto_state t = CRYPTO_STATE_INIT"
proof -
  obtain k0 where k0: "\<not> first_unsigned h k0"
  proof (cases "first_unsigned h 0")
    case True
    then have "\<not> first_unsigned h 1" by (auto simp: first_unsigned_def)
    with that show ?thesis .
  qed (rule that)
  have "sections_done E h k0 (ram s) [] s"
    using assms(2) by (simp add: sections_done_def data_lengths_ok_def hash_status_def)
  from sections_run [OF assms(1) this] obtain ds' where "hash_status E h k0 ds' t"
    by (auto simp: sections_done_def)
  with k0 show ?thesis by (cases "crypto_state t") (auto simp: hash_status_def)
qed

lemma image_run:
  assumes "load_tftf_image E ops s = Ret (0, secure) t" "crypto_ready s"
  shows "image_loaded E (ram s) secure t"
proof -
  from assms(1) obtain t1 t2 t3 where
    t1: "load_tftf_header E ops s = Ret 0 t1" and
    t2: "process_sections E ops (tftf_header t1) 0 t1 = Ret 0 t2" and
    t3: "t3 = t2\<lparr>build_timestamp := tftf_build_timestamp (tftf_header t1),
           firmware_package_name := tftf_package_name (tftf_header t1)\<rparr>" and
    rest: "secure = (crypto_state t2 = CRYPTO_STATE_VERIFIED)"
      "contain_signature t2 \<and> secure \<and> t = t3 \<or>
       \<not> contain_signature t2 \<and> chip_is_untrusted_image_allowed E t3 = Ret True t"
    by (auto simp: load_tftf_image_def gets_def modify_def return_def report_run
        elim!: bind_eq_RetE split: if_splits)
  from header_run [OF t1 assms(2)] obtain k0 where
    k0: "sections_done E (tftf_header t1) k0 (ram s) [] t1"
      "crypto_state t1 = CRYPTO_STATE_INIT \<or> (\<exists>n. tftf_table_ok E (tftf_header t1) n)" by blast
  from sections_run [OF t2 k0(1)] obtain ds where
    ds: "sections_done E (tftf_header t1) k0 (ram s) ds t2" "tftf_header t2 = tftf_header t1"
      "is_section_out_of_range (tftf_header t1) (length ds) \<or>
       section_type (section_at (tftf_header t1) (length ds)) = TFTF_SECTION_END" by auto
  have t: "tftf_header t = tftf_header t1" "ram t = ram t2" "contain_signature t = contain_signature t2"
      "\<exists>ev. io t = ev @ io t2"
    using rest(2) t3 ds(2) only_io_quiet [OF chip_only_io(12), of E t3 True t]
    by (auto simp: tftf_quiet_def tftf_frame_def)
  show ?thesis
  proof (cases secure)
    case True
    with rest(1) have v: "crypto_state t2 = CRYPTO_STATE_VERIFIED" by simp
    then have "crypto_state t1 \<noteq> CRYPTO_STATE_INIT" using init_stays [OF t2] by auto
    with k0(2) obtain n where n: "tftf_table_ok E (tftf_header t1) n" by blast
    from ds(1) v have st: "data_lengths_ok (tftf_header t1) ds" "ram t2 = stored_sections (tftf_header t1) ds (ram s)"
      "first_unsigned (tftf_header t1) k0" "k0 \<le> length ds"
      "digest_verified E (io t2) (signed_digest (tftf_header t1) k0 ds)"
      by (auto simp: sections_done_def hash_status_def)
    from t(4) digest_verified_mono [OF st(5)] have
      dv: "digest_verified E (io t) (signed_digest (tftf_header t1) k0 ds)" by auto
    show ?thesis
      unfolding image_loaded_def Let_def t(1,2)
      using True n st dv ds(3) by (intro exI [of _ ds]) auto
  next
    case False
    with rest(2) have u: "\<not> contain_signature t2" "chip_is_untrusted_image_allowed E t3 = Ret True t" by auto
    then have "\<exists>h. dev E h (ISAA_BASE + TSB_ISAA_SCR) AND TSB_ISAA_TRUSTED_ONLY = 0"
      by (auto simp: chip_is_untrusted_image_allowed_def isaa_read_def getreg32_def Let_def return_def
          elim!: bind_eq_RetE)
    with False u ds t show ?thesis
      by (auto simp: image_loaded_def Let_def sections_done_def intro!: exI [of _ ds])
  qed
qed

end

section \<open>SPI flash as the source\<close>

interpretation spi_tftf: tftf_loader "spi_ops E" spi_effect for E
proof unfold_locales
  show "spi_effect s s" for s :: "'a tftf_scheme" by (rule spi.keeps_refl)
  show "spi_effect s t \<Longrightarrow> spi_effect t u \<Longrightarrow> spi_effect s u" for s t u :: "'a tftf_scheme" by (rule spi.keeps_trans)
  show "ops_load (spi_ops E) dst n h s = Ret r t \<Longrightarrow> spi_effect s t" for dst n h r and s t :: "'a tftf_scheme"
    unfolding spi_ops_def data_load_ops.simps by (rule spi.load_keeps)
  show "ops_load (spi_ops E) dst n h s = Ret (0, bs) t \<Longrightarrow> length bs = unat n" for dst n h bs and s t :: "'a tftf_scheme"
    unfolding spi_ops_def data_load_ops.simps by (rule spi.load_exact)
  show "hash_fed d s \<Longrightarrow> ops_load (spi_ops E) dst n h s = Ret (0, bs) t \<Longrightarrow> hash_fed (if h then d @ bs else d) t"
    for d dst n h bs and s t :: "'a tftf_scheme"
    unfolding spi_ops_def data_load_ops.simps by (rule spi.load_hashes)
  show "crypto_ready s \<Longrightarrow> ops_load (spi_ops E) dst n False s = Ret r t \<Longrightarrow> crypto_ready t" for dst n r and s t :: "'a tftf_scheme"
    unfolding spi_ops_def data_load_ops.simps by (rule spi.load_ready)
  show "spi_effect s t \<Longrightarrow> tftf_frame s t" for s t :: "'a tftf_scheme"
    by (auto simp: spi_effect_def tftf_frame_def)
qed

definition reset_tftf :: tftf where
  "reset_tftf = ffff.extend (reset_ffff\<lparr>sha256_init_func := Some Shs256_init, sha256_process_func := Some Shs256_process,
      sha256_hash_func := Some Shs256_hash, rsa2048_verify_func := Some Rsa_verify\<rparr>)
     \<lparr>tftf_header = replicate 4096 0, tftf_header_end = 0, crypto_state = CRYPTO_STATE_INIT,
      tftf_hash = replicate 32 0, tftf_sig = replicate 360 0, contain_signature = False, ara_vid = 0, ara_pid = 0\<rparr>"

lemma reset_tftf_ready: "crypto_ready reset_tftf"
  by (simp add: crypto_ready_def reset_tftf_def ffff.defs reset_ffff_def spi.defs reset_spi_def crypto.defs reset_crypto_def)

text \<open>UniPro attribute accesses complete at once, report success and read 0.\<close>

definition unipro_answers :: "env \<Rightarrow> bool" where
  "unipro_answers E \<longleftrightarrow>
     (\<forall>h. dev E h (AIO_UNIPRO_BASE + A2D_ATTRACS_INT_BEF) = 1 \<and> dev E h (AIO_UNIPRO_BASE + A2D_ATTRACS_STS_00) = 0 \<and>
        dev E h (AIO_UNIPRO_BASE + A2D_ATTRACS_DATA_STS_00) = 0)"

lemma attr_read_answers:
  assumes "unipro_answers E"
  shows "\<exists>ev. chip_unipro_attr_read E attr sel peer s = Ret (0, 0) (s\<lparr>io := ev @ io s\<rparr>)"
proof -
  have "poll_reg E (AIO_UNIPRO_BASE + A2D_ATTRACS_INT_BEF) (\<lambda>v. v \<noteq> 0) u =
      Ret () (u\<lparr>io := RdReg (AIO_UNIPRO_BASE + A2D_ATTRACS_INT_BEF) 1 # io u\<rparr>)" for u :: "'a machine_scheme"
    unfolding poll_reg_def using assms
    by (intro loopM_Inr) (simp add: getreg32_def unipro_answers_def return_def)
  then have "\<exists>t. chip_unipro_attr_read E attr sel peer s = Ret (0, 0) t"
    using assms
    by (simp add: chip_unipro_attr_read_def unipro_attr_access_def tsb_unipro_write_def tsb_unipro_read_def
        getreg32_def putreg32_def Let_def unipro_answers_def return_def skip_def)
  with only_io_RetD [OF attr_read_only_io] show ?thesis by blast
qed

lemma set_last_error_answers:
  assumes "unipro_answers E" "boot_stage E = 1"
  shows "\<exists>ev e. set_last_error E err s = Ret () (s\<lparr>io := ev @ io s, fw_errno := e\<rparr>)"
proof -
  from attr_read_answers [OF assms(1), of DME_ARA_INIT_STATUS 0 False s] obtain ev where
    "chip_unipro_attr_read E DME_ARA_INIT_STATUS 0 False s = Ret (0, 0) (s\<lparr>io := ev @ io s\<rparr>)" by blast
  then show ?thesis
    using assms(2) by (auto simp: set_last_error_def error_field_def chip_get_boot_status_def return_def modify_def)
qed

text \<open>An environment with a flash and such a UniPro block with empty transmit queues; trusted-only mode is off.\<close>

definition tftf_env :: "(u32 \<Rightarrow> u8) \<Rightarrow> env" where
  "tftf_env img = (flash_env img)\<lparr>dev := (\<lambda>h a.
     if a = AIO_UNIPRO_BASE + A2D_ATTRACS_INT_BEF then 1
     else if a = AIO_UNIPRO_BASE + CPB_TXQUEUEEMPTY_0 then -1
     else dev (flash_env img) h a)\<rparr>"

lemma tftf_env_ok: "flash_on_spi (tftf_env img) img" "unipro_answers (tftf_env img)" "boot_stage (tftf_env img) = 1"
proof -
  show "flash_on_spi (tftf_env img) img"
    using flash_env_ok [of img] by (simp add: flash_on_spi_def tftf_env_def AIO_UNIPRO_BASE_def SPI_BASE_def)
  show "unipro_answers (tftf_env img)"
    by (simp add: unipro_answers_def tftf_env_def flash_env_def es3_env_def AIO_UNIPRO_BASE_def SPI_BASE_def)
  show "boot_stage (tftf_env img) = 1"
    by (simp add: tftf_env_def flash_env_def es3_env_def)
qed

lemma header_from_flash:
  assumes "flash_on_spi E img" "length (tftf_header s) = 4096"
  shows "\<exists>u. spi_moves s u \<and> load_header_part (spi_ops E) 0 TFTF_HEADER_SIZE_MIN s =
    Ret 0 (u\<lparr>tftf_header := put_bytes (tftf_header s) 0 (flash_bytes img (current_addr s) 512)\<rparr>)"
proof -
  from flash_load [OF assms(1), of 512 s False] obtain u where u: "spi_moves s u"
    "data_load_spi_load E 512 False s = Ret (0, flash_bytes img (current_addr s) 512) u"
    by (auto simp: skip_def return_def drop_bit_eq_div)
  have "tftf_header u = tftf_header s" using u(1) by (auto simp: spi_moves_def)
  with u assms(2) show ?thesis
    by (auto simp: load_header_part_def spi_ops_def gets_def fits_def assert_or_fault_def skip_def return_def modify_def)
qed

text \<open>A 512-byte header with one code section of eight bytes at the start of the loading area.\<close>

definition image_byte :: "nat \<Rightarrow> u8" where
  "image_byte i =
     (if i < 4 then tftf_sentinel ! i
      else if i = 5 then 2 else if i = 112 then TFTF_SECTION_RAW_CODE
      else if i = 120 \<or> i = 128 then 8 else if i = 79 \<or> i = 127 then 0x10
      else if i = 132 then TFTF_SECTION_END else 0)"

definition image_header :: bytes where
  "image_header = map image_byte [0..<512] @ replicate 3584 0"

definition image_flash :: "u32 \<Rightarrow> u8" where
  "image_flash a = image_byte (unat a)"

lemma image_nth: "i < 512 \<Longrightarrow> image_header ! i = image_byte i"
  by (simp add: image_header_def nth_append)

lemma image_length: "length image_header = 4096"
  by (simp add: image_header_def)

lemma image_fields:
  "tftf_header_size image_header = 512" "start_location image_header = 0x10000000"
  "tftf_unipro_mid image_header = 0" "tftf_unipro_pid image_header = 0"
  "tftf_ara_vid image_header = 0" "tftf_ara_pid image_header = 0"
  by (simp_all add: tftf_header_size_def start_location_def tftf_unipro_mid_def tftf_unipro_pid_def tftf_ara_vid_def
      tftf_ara_pid_def get_u32_def image_nth image_byte_def)

lemma image_sections:
  "section_at image_header 0 = \<lparr>section_type = TFTF_SECTION_RAW_CODE, section_class = 0, section_id = 0,
     section_length = 8, section_load_address = 0x10000000, section_expanded_length = 8\<rparr>"
  "section_type (section_at image_header (Suc 0)) = TFTF_SECTION_END"
  by (simp_all add: section_at_def section_offset_def get_u32_def image_nth image_byte_def)

lemma image_range: "\<not> is_section_out_of_range image_header 0" "\<not> is_section_out_of_range image_header (Suc 0)"
  by (simp_all add: is_section_out_of_range_def section_offset_def image_fields)

lemma image_table: "tftf_table_ok (tftf_env img) image_header 1"
  by (simp add: tftf_table_ok_def image_range image_sections known_tftf_type_def section_placed_def
      chip_validate_data_load_location_def load_limit_def tftf_env_def flash_env_def es3_env_def
      apart_from_next_def section_has_start_def section_end_def image_fields)

lemma image_flash_bytes: "flash_bytes image_flash 0 512 = map image_byte [0..<512]"
proof (rule nth_equalityI)
  fix i
  assume "i < length (flash_bytes image_flash 0 512)"
  then have i: "i < 512" by simp
  have m: "(0x00FFFFFF :: u32) = mask 24" by (simp add: mask_eq_exp_minus_1)
  have "unat (take_bit 24 (word_of_nat i :: u32)) = i"
    using i by (simp add: unsigned_take_bit_eq unat_of_nat take_bit_nat_eq_self)
  then have "unat ((word_of_nat i :: u32) AND 0x00FFFFFF) = i" by (simp only: m take_bit_eq_mask)
  with i show "flash_bytes image_flash 0 512 ! i = map image_byte [0..<512] ! i"
    by (simp add: flash_bytes_def image_flash_def)
qed simp

lemma image_sentinel: "memcmp image_header tftf_sentinel TFTF_SENTINEL_SIZE = 0"
proof -
  have "take 4 image_header = map image_byte [0..<4]"
    by (simp add: image_header_def take_map del: upt_conv_Cons)
  also have "\<dots> = tftf_sentinel" by (simp add: upt_conv_Cons image_byte_def tftf_sentinel_def)
  finally show ?thesis by (simp add: memcmp_0_iff image_header_def tftf_sentinel_def)
qed

lemma untrusted_allowed: "\<exists>ev. chip_is_untrusted_image_allowed (tftf_env img) s = Ret True (s\<lparr>io := ev # io s\<rparr>)"
  by (simp add: chip_is_untrusted_image_allowed_def isaa_read_def getreg32_def Let_def tftf_env_def flash_env_def
      es3_env_def ISAA_BASE_def SPI_BASE_def AIO_UNIPRO_BASE_def return_def) (rule exI, rule refl)

lemma image_header_run:
  assumes "tftf_header s = image_header" "crypto_state s = CRYPTO_STATE_INIT"
  shows "\<exists>t. check_tftf_header (tftf_env img) s = Ret 0 t \<and> tftf_header t = image_header \<and>
    contain_signature t = contain_signature s \<and> crypto_state t = CRYPTO_STATE_INIT"
proof -
  let ?E = "tftf_env img" and ?s = "s\<lparr>tftf_header_end := 512\<rparr>"
  have "tftf_header_error ?E image_header = None" using image_table by (auto simp: tftf_table_iff)
  then have v: "valid_tftf_header ?E image_header ?s = Ret True ?s" by (simp add: valid_tftf_header_def return_def)
  obtain ev1 where r1: "chip_unipro_attr_read ?E DME_DDBL1_MANUFACTURERID 0 False ?s = Ret (0, 0) (?s\<lparr>io := ev1 @ io ?s\<rparr>)"
    using attr_read_answers [OF tftf_env_ok(2)] by blast
  obtain ev2 where r2: "chip_unipro_attr_read ?E DME_DDBL1_PRODUCTID 0 False (?s\<lparr>io := ev1 @ io ?s\<rparr>) =
      Ret (0, 0) (?s\<lparr>io := ev2 @ ev1 @ io ?s\<rparr>)"
    using attr_read_answers [OF tftf_env_ok(2) [of img], of DME_DDBL1_PRODUCTID 0 False "?s\<lparr>io := ev1 @ io ?s\<rparr>"] by auto
  have p: "process_section_types ?E image_header 0 u = Ret 0 u" if "crypto_state u = CRYPTO_STATE_INIT"
    for u :: "'a tftf_scheme"
    using that by (simp add: process_section_types.simps image_range image_sections gets_def return_def)
  show ?thesis
    using assms v r1 r2 by (simp add: check_tftf_header_def modify_def gets_def image_fields ids_match_def p)
qed

lemma image_sections_run:
  fixes s :: "'a tftf_scheme"
  assumes "crypto_state s = CRYPTO_STATE_INIT"
  shows "\<exists>t. process_sections (tftf_env img) (spi_ops (tftf_env img)) image_header 0 s = Ret 0 t \<and>
    contain_signature t = contain_signature s \<and> crypto_state t = CRYPTO_STATE_INIT \<and> tftf_header t = tftf_header s"
proof -
  let ?E = "tftf_env img" and ?sec = "section_at image_header 0"
  from flash_load [OF tftf_env_ok(1) [of img], of 8 s False] obtain u bs where
    u: "spi_moves s u" "data_load_spi_load ?E 8 False s = Ret (0, bs) u"
    by (auto simp: skip_def return_def drop_bit_eq_div)
  have f: "crypto_state u = crypto_state s" "contain_signature u = contain_signature s" "tftf_header u = tftf_header s"
    using u(1) by (auto simp: spi_moves_def)
  let ?t = "u\<lparr>ram := store_ram 0x10000000 bs (ram u)\<rparr>"
  have "process_tftf_section ?E (spi_ops ?E) ?sec s = Ret 0 ?t"
    using u(2) assms by (simp add: process_tftf_section_def image_sections gets_def is_section_hashed_def skip_def
        return_def spi_ops_def modify_def)
  moreover have "process_sections ?E (spi_ops ?E) image_header (Suc 0) ?t = Ret 0 ?t"
    by (subst process_sections.simps)
      (simp add: image_range image_sections image_length section_offset_def return_def)
  ultimately show ?thesis
    using f assms by (subst process_sections.simps)
      (simp add: image_range image_sections image_length section_offset_def)
qed

lemma unsigned_image_run:
  assumes "load_tftf_header (tftf_env img) (spi_ops (tftf_env img)) s = Ret 0 t"
    "process_sections (tftf_env img) (spi_ops (tftf_env img)) (tftf_header t) 0 t = Ret 0 u"
    "crypto_state u = CRYPTO_STATE_INIT" "\<not> contain_signature u"
  shows "\<exists>v. load_tftf_image (tftf_env img) (spi_ops (tftf_env img)) s = Ret (0, False) v \<and> tftf_header v = tftf_header u"
  using assms untrusted_allowed [of img "u\<lparr>build_timestamp := tftf_build_timestamp (tftf_header t),
      firmware_package_name := tftf_package_name (tftf_header t)\<rparr>"]
  by (auto simp: load_tftf_image_def gets_def modify_def return_def)

lemma image_load_run:
  fixes s :: "'a tftf_scheme"
  assumes "flash_bytes img (current_addr s) 512 = map image_byte [0..<512]" "tftf_header s = replicate 4096 0"
  shows "\<exists>t. load_tftf_image (tftf_env img) (spi_ops (tftf_env img)) s = Ret (0, False) t \<and>
    tftf_header t = image_header"
proof -
  let ?E = "tftf_env img"
  let ?s = "s\<lparr>crypto_state := CRYPTO_STATE_INIT, contain_signature := False\<rparr>"
  have put: "put_bytes (replicate 4096 0) 0 (map image_byte [0..<512]) = image_header"
    by (simp add: put_bytes_def image_header_def)
  from header_from_flash [OF tftf_env_ok(1) [of img], of ?s] assms put obtain u where
    u: "spi_moves ?s u" "load_header_part (spi_ops ?E) 0 TFTF_HEADER_SIZE_MIN ?s = Ret 0 (u\<lparr>tftf_header := image_header\<rparr>)"
    by auto
  let ?u = "u\<lparr>tftf_header := image_header\<rparr>"
  have f: "crypto_state ?u = CRYPTO_STATE_INIT" "\<not> contain_signature ?u" "tftf_header ?u = image_header"
    using u(1) by (auto simp: spi_moves_def)
  from image_header_run [OF f(3,1), of img] f(2) obtain t where
    t: "check_tftf_header ?E ?u = Ret 0 t" "tftf_header t = image_header" "\<not> contain_signature t"
      "crypto_state t = CRYPTO_STATE_INIT" by auto
  have "load_tftf_header ?E (spi_ops ?E) s = Ret 0 t"
    using u(2) t(1) by (simp add: load_tftf_header_def modify_def gets_def image_sentinel image_fields return_def)
  moreover from image_sections_run [OF t(4), of img] t(3) obtain v where
    "process_sections ?E (spi_ops ?E) image_header 0 t = Ret 0 v" "crypto_state v = CRYPTO_STATE_INIT"
      "\<not> contain_signature v" "tftf_header v = tftf_header t" by auto
  ultimately show ?thesis using t(2) by (auto dest: unsigned_image_run)
qed

lemma image_load_reset:
  "\<exists>t. load_tftf_image (tftf_env image_flash) (spi_ops (tftf_env image_flash)) reset_tftf = Ret (0, False) t"
  using image_load_run [of image_flash reset_tftf] image_flash_bytes
  by (auto simp: reset_tftf_def ffff.defs reset_ffff_def spi.defs reset_spi_def crypto.defs)

text \<open>
  A header with two signed sections, a signature section that is not loaded to RAM, and a certificate
  section with the load address of the first section.
\<close>

definition hole_byte :: "nat \<Rightarrow> u8" where
  "hole_byte i =
     (if i < 4 then tftf_sentinel ! i
      else if i = 5 then 2 else if i = 79 then 0x10
      else if i = 112 then TFTF_SECTION_RAW_CODE else if i = 120 \<or> i = 128 then 16 else if i = 127 then 0x10
      else if i = 132 then TFTF_SECTION_RAW_DATA else if i = 140 \<or> i = 148 then 16 else if i = 144 \<or> i = 147 then 0x10
      else if i = 152 then TFTF_SECTION_SIGNATURE else if i = 160 \<or> i = 168 then 0x68
      else if i = 161 \<or> i = 169 then 1 else if 164 \<le> i \<and> i < 168 then 0xFF
      else if i = 172 then TFTF_SECTION_CERTIFICATE else if i = 180 \<or> i = 188 then 16 else if i = 187 then 0x10
      else if i = 192 then TFTF_SECTION_END else 0)"

definition hole_header :: bytes where
  "hole_header = map hole_byte [0..<512] @ replicate 3584 0"

lemma hole_nth: "i < 512 \<Longrightarrow> hole_header ! i = hole_byte i"
  by (simp add: hole_header_def nth_append)

lemma hole_fields: "tftf_header_size hole_header = 512" "start_location hole_header = 0x10000000"
  by (simp_all add: tftf_header_size_def start_location_def get_u32_def hole_nth hole_byte_def)

lemma hole_sections:
  "section_at hole_header 0 = \<lparr>section_type = TFTF_SECTION_RAW_CODE, section_class = 0, section_id = 0,
     section_length = 16, section_load_address = 0x10000000, section_expanded_length = 16\<rparr>"
  "section_at hole_header 1 = \<lparr>section_type = TFTF_SECTION_RAW_DATA, section_class = 0, section_id = 0,
     section_length = 16, section_load_address = 0x10000010, section_expanded_length = 16\<rparr>"
  "section_at hole_header 2 = \<lparr>section_type = TFTF_SECTION_SIGNATURE, section_class = 0, section_id = 0,
     section_length = 360, section_load_address = DATA_ADDRESS_TO_BE_IGNORED, section_expanded_length = 360\<rparr>"
  "section_at hole_header 3 = \<lparr>section_type = TFTF_SECTION_CERTIFICATE, section_class = 0, section_id = 0,
     section_length = 16, section_load_address = 0x10000000, section_expanded_length = 16\<rparr>"
  "section_type (section_at hole_header 4) = TFTF_SECTION_END"
  by (simp_all add: section_at_def section_offset_def get_u32_def hole_nth hole_byte_def)

lemma hole_table: "tftf_table_ok (tftf_env img) hole_header 4"
proof -
  have all4: "(\<forall>k < 4. P k) \<longleftrightarrow> P 0 \<and> P 1 \<and> P 2 \<and> P 3" for P :: "nat \<Rightarrow> bool"
    by (auto simp: less_Suc_eq numeral_eq_Suc)
  have "apart_from_next hole_header 4 k" if "k < 4" for k
    unfolding apart_from_next_def
  proof (intro allI impI)
    fix j
    assume j: "j < 4" "k < j \<and> (\<forall>i. k \<le> i \<and> i \<le> j \<longrightarrow>
      section_load_address (section_at hole_header i) \<noteq> DATA_ADDRESS_TO_BE_IGNORED)"
    have "\<not> (k \<le> 2 \<and> 2 \<le> j)" using j(2) hole_sections(3) by auto
    then have "k = 0 \<and> j = 1" using j by auto
    then show "sections_apart (section_at hole_header k) (section_at hole_header j)"
      by (simp add: hole_sections [simplified] sections_apart_def section_end_def)
  qed
  then show ?thesis
    by (simp add: tftf_table_ok_def is_section_out_of_range_def section_offset_def hole_fields hole_sections all4
        known_tftf_type_def section_placed_def chip_validate_data_load_location_def load_limit_def tftf_env_def
        flash_env_def es3_env_def section_has_start_def section_end_def hole_sections [simplified])
      (rule exI [of _ 0], simp add: hole_sections)
qed

lemma hole_unsigned: "first_unsigned hole_header 2"
proof -
  have "(\<forall>i < 2. P i) \<longleftrightarrow> P 0 \<and> P 1" for P :: "nat \<Rightarrow> bool" by (auto simp: less_2_cases_iff)
  then show ?thesis
    by (simp add: first_unsigned_def is_section_hashed_def hole_sections hole_sections [simplified])
qed

section \<open>Properties\<close>



text \<open>
  C9: \<^verbatim>\<open>valid_tftf_header\<close> accepts a header exactly when its section table is terminated inside the
  header, every section before the end marker is of a known type and is either to be ignored or
  placed where the chip accepts it, no section overlaps one behind it (up to the first ignored one),
  and a start location other than 0 lies in a code section. Otherwise an error is reported.
\<close>

theorem valid_tftf_header_exact:
  "valid_tftf_header E h s =
     (if \<exists>n. tftf_table_ok E h n then Ret True s
      else bind (set_last_error E (the (tftf_header_error E h))) (\<lambda>_. return False) s)"
  using tftf_table_iff [of E h] by (auto simp: valid_tftf_header_def return_def split: option.splits)

text \<open>
  When the trusted-only bit of the security controller is set, no unsigned image is ever
  accepted, whatever the flash holds.
\<close>

theorem trusted_only_enforced:
  assumes "\<forall>h. dev E h (ISAA_BASE + TSB_ISAA_SCR) AND TSB_ISAA_TRUSTED_ONLY \<noteq> 0" "crypto_ready s"
  shows "load_tftf_image E (spi_ops E) s \<noteq> Ret (0, False) t"
proof
  assume "load_tftf_image E (spi_ops E) s = Ret (0, False) t"
  from spi_tftf.image_run [OF this assms(2)] assms(1) show False by (auto simp: image_loaded_def Let_def)
qed

theorem trusted_only_enforced_witness:
  "load_tftf_image (es3_env (\<lambda>_ _. 0xFFFFFFFF)) (spi_ops (es3_env (\<lambda>_ _. 0xFFFFFFFF))) reset_tftf \<noteq>
     Ret (0, False) reset_tftf"
  using trusted_only_enforced [of "es3_env (\<lambda>_ _. 0xFFFFFFFF)" reset_tftf] reset_tftf_ready
  by (simp add: es3_env_def)





text \<open>
  A header whose sentinel is wrong, or whose size is out of range, is reported but not refused:
  \<^verbatim>\<open>load_tftf_header\<close> returns \<^verbatim>\<open>false\<close>, which its caller takes for success, with no check made.
\<close>

theorem bad_header_not_refused:
  assumes "load_header_part ops 0 TFTF_HEADER_SIZE_MIN
      (s\<lparr>crypto_state := CRYPTO_STATE_INIT, contain_signature := False\<rparr>) = Ret 0 u"
    and "memcmp (tftf_header u) tftf_sentinel TFTF_SENTINEL_SIZE \<noteq> 0"
    and "set_last_error E BRE_TFTF_SENTINEL u = Ret () t"
  shows "load_tftf_header E ops s = Ret 0 t"
  using assms by (simp add: load_tftf_header_def modify_def gets_def return_def)

theorem bad_header_not_refused_witness:
  "\<exists>t. load_tftf_image (tftf_env (\<lambda>_. 0)) (spi_ops (tftf_env (\<lambda>_. 0))) reset_tftf = Ret (0, False) t"
proof -
  let ?E = "tftf_env (\<lambda>_. 0)" and ?s = "reset_tftf\<lparr>crypto_state := CRYPTO_STATE_INIT, contain_signature := False\<rparr>"
  have h: "tftf_header ?s = replicate 4096 0" by (simp add: reset_tftf_def ffff.defs)
  have put: "put_bytes (replicate 4096 0) 0 (flash_bytes (\<lambda>_. 0) (current_addr ?s) 512) = replicate 4096 0"
    by (simp add: put_bytes_def flash_bytes_def map_replicate_const flip: replicate_add)
  from header_from_flash [OF tftf_env_ok(1) [of "\<lambda>_. 0"], of ?s] h put obtain u where
    u: "spi_moves ?s u" "load_header_part (spi_ops ?E) 0 TFTF_HEADER_SIZE_MIN ?s = Ret 0 (u\<lparr>tftf_header := replicate 4096 0\<rparr>)"
    by auto
  let ?u = "u\<lparr>tftf_header := replicate 4096 0\<rparr>"
  from set_last_error_answers [OF tftf_env_ok(2,3), of "\<lambda>_. 0" BRE_TFTF_SENTINEL ?u] obtain t where
    t: "set_last_error ?E BRE_TFTF_SENTINEL ?u = Ret () t" "tftf_header t = replicate 4096 0"
      "crypto_state t = crypto_state u" "contain_signature t = contain_signature u" by auto
  have "memcmp (tftf_header ?u) tftf_sentinel TFTF_SENTINEL_SIZE \<noteq> 0"
  proof -
    have "hd (replicate 4 0) \<noteq> hd tftf_sentinel" by (simp add: tftf_sentinel_def)
    then have "replicate 4 0 \<noteq> tftf_sentinel" by metis
    then show ?thesis by (simp add: memcmp_0_iff tftf_sentinel_def)
  qed
  from bad_header_not_refused [OF u(2) this t(1)] have l: "load_tftf_header ?E (spi_ops ?E) reset_tftf = Ret 0 t" .
  have "process_sections ?E (spi_ops ?E) (tftf_header t) 0 t = Ret 0 t"
    unfolding t(2) by (subst process_sections.simps)
      (simp add: is_section_out_of_range_def tftf_header_size_def get_u32_def section_offset_def return_def)
  moreover have "crypto_state t = CRYPTO_STATE_INIT" "\<not> contain_signature t"
    using u(1) t(3,4) by (auto simp: spi_moves_def)
  ultimately show ?thesis using unsigned_image_run [OF l] by blast
qed

end
