(* ===== verification/Efuse.thy ===== *)
theory Efuse
  imports Tftf
begin

text \<open>
  The e-fuses (\<^verbatim>\<open>chips/es3tsb/src/es3_efuse.c\<close>, \<^verbatim>\<open>common/src/epuid.c\<close>): counting set bits by adding
  neighbouring fields in parallel, the check of the Hamming weight, the endpoint identifier derived
  from the internal master secret, and the start-up check that publishes them. The parallel count is
  proved equal to the number of set bits.
\<close>

section \<open>Counting set bits\<close>

abbreviation (input) "MASK8_1S \<equiv> 0x55 :: u8"
abbreviation (input) "MASK8_2S \<equiv> 0x33 :: u8"
abbreviation (input) "MASK8_4S \<equiv> 0x0f :: u8"
abbreviation (input) "MASK32_1S \<equiv> 0x55555555 :: u32"
abbreviation (input) "MASK32_2S \<equiv> 0x33333333 :: u32"
abbreviation (input) "MASK32_4S \<equiv> 0x0f0f0f0f :: u32"
abbreviation (input) "MASK32_8S \<equiv> 0x00ff00ff :: u32"
abbreviation (input) "MASK32_16S \<equiv> 0x0000ffff :: u32"

text \<open>One step: the fields of \<open>k\<close> bits that the mask selects plus their upper neighbours.\<close>

definition add_fields :: "nat \<Rightarrow> 'a::len word \<Rightarrow> 'a word \<Rightarrow> 'a word" where
  "add_fields k msk x = (x AND msk) + (drop_bit k x AND msk)"

definition count_ones32 :: "u32 \<Rightarrow> u32" where
  "count_ones32 x =
     (let x = add_fields 1 MASK32_1S x;
          x = add_fields 2 MASK32_2S x;
          x = add_fields 4 MASK32_4S x;
          x = add_fields 8 MASK32_8S x
      in (x + drop_bit 16 x) AND MASK32_16S)"

definition count_ones8 :: "u8 \<Rightarrow> u8" where
  "count_ones8 x =
     (let x = x - (drop_bit 1 x AND MASK8_1S);
          x = add_fields 2 MASK8_2S x
      in (x + drop_bit 4 x) AND MASK8_4S)"

text \<open>Words of four bytes as far as possible, then single bytes.\<close>

fun count_ones :: "bytes \<Rightarrow> nat" where
  "count_ones (a # b # c # d # buf) = unat (count_ones32 (get_u32 [a, b, c, d] 0)) + count_ones buf"
| "count_ones (x # buf) = unat (count_ones8 x) + count_ones buf"
| "count_ones [] = 0"

text \<open>\<^verbatim>\<open>valid_hamming_weight\<close> returns its verdict and \<^verbatim>\<open>*all_zero\<close>.\<close>

definition valid_hamming_weight :: "bytes \<Rightarrow> bool \<times> bool" where
  "valid_hamming_weight buf =
     (let count = count_ones buf in (count = 0 \<or> count = length buf * 8 div 2, count = 0))"

section \<open>The count is the number of set bits\<close>

text \<open>The sum of the lowest \<open>n\<close> fields of \<open>k\<close> bits.\<close>

primrec field_sum :: "nat \<Rightarrow> nat \<Rightarrow> nat \<Rightarrow> nat" where
  "field_sum k 0 y = 0"
| "field_sum k (Suc n) y = y mod 2 ^ k + field_sum k n (y div 2 ^ k)"

text \<open>\<open>n\<close> pairs of a field of ones and a field of zeros.\<close>

primrec field_mask :: "nat \<Rightarrow> nat \<Rightarrow> nat" where
  "field_mask k 0 = 0"
| "field_mask k (Suc n) = (2 ^ k - 1) + 2 ^ (2 * k) * field_mask k n"

definition paired_sum :: "nat \<Rightarrow> nat \<Rightarrow> nat \<Rightarrow> nat" where
  "paired_sum k n y = (y AND field_mask k n) + (y div 2 ^ k AND field_mask k n)"

lemma and_fields:
  fixes m :: nat
  assumes "c < 2 ^ p"
  shows "m AND (c + 2 ^ p * d) = (m mod 2 ^ p AND c) + 2 ^ p * (m div 2 ^ p AND d)"
proof -
  let ?x = "m AND (c + 2 ^ p * d)"
  have "take_bit p ?x = m mod 2 ^ p AND c" "drop_bit p ?x = m div 2 ^ p AND d"
    using assms by (simp_all add: take_bit_and drop_bit_and) (simp_all add: take_bit_eq_mod drop_bit_eq_div)
  then show ?thesis using bits_ident [of p ?x] by (simp add: push_bit_eq_mult mult.commute)
qed

lemma and_field_mask:
  "y AND field_mask k (Suc n) = y mod 2 ^ k + 2 ^ (2 * k) * (y div 2 ^ (2 * k) AND field_mask k n)"
proof -
  have c: "(2 ^ k - 1 :: nat) < 2 ^ (2 * k)"
    by (rule less_le_trans [of _ "2 ^ k"]) simp_all
  have "y mod 2 ^ (2 * k) AND (2 ^ k - 1) = y mod 2 ^ (2 * k) AND mask k" by (simp add: mask_eq_exp_minus_1)
  also have "\<dots> = take_bit k (y mod 2 ^ (2 * k))" by (simp only: take_bit_eq_mask)
  also have "\<dots> = take_bit k y" by (simp flip: take_bit_eq_mod [of "2 * k"])
  finally have low: "y mod 2 ^ (2 * k) AND (2 ^ k - 1) = y mod 2 ^ k" by (simp only: take_bit_eq_mod)
  show ?thesis unfolding field_mask.simps and_fields [OF c] low ..
qed

lemma fields_swap: "(y div 2 ^ k div 2 ^ (2 * k) :: nat) = y div 2 ^ (2 * k) div 2 ^ k"
  by (simp add: div_mult2_eq [symmetric] mult.commute)

lemma paired_sum_Suc:
  "paired_sum k (Suc n) y = y mod 2 ^ k + y div 2 ^ k mod 2 ^ k + 2 ^ (2 * k) * paired_sum k n (y div 2 ^ (2 * k))"
  unfolding paired_sum_def and_field_mask fields_swap by (simp add: distrib_left)

lemma pair_fits:
  assumes "0 < k"
  shows "y mod 2 ^ k + z mod 2 ^ k < (2 ^ (2 * k) :: nat)"
proof -
  have "y mod 2 ^ k < (2 ^ k :: nat)" "z mod 2 ^ k < (2 ^ k :: nat)" by simp_all
  then have "y mod 2 ^ k + z mod 2 ^ k < 2 ^ Suc k" unfolding power_Suc by linarith
  also have "\<dots> \<le> (2 ^ (2 * k) :: nat)" using assms by (intro power_increasing) auto
  finally show ?thesis .
qed

lemma paired_sum_bound: "0 < k \<Longrightarrow> paired_sum k n y < 2 ^ (2 * k * n)"
proof (induction n arbitrary: y)
  case (Suc n)
  let ?r = "paired_sum k n (y div 2 ^ (2 * k))" and ?d = "y mod 2 ^ k + y div 2 ^ k mod 2 ^ k"
  have "paired_sum k (Suc n) y < 2 ^ (2 * k) * Suc ?r"
    using pair_fits [OF Suc.prems, of y "y div 2 ^ k"] by (simp add: paired_sum_Suc)
  also have "\<dots> \<le> 2 ^ (2 * k) * 2 ^ (2 * k * n)" using Suc.IH [OF Suc.prems] by (intro mult_left_mono Suc_leI) auto
  finally show ?case by (simp add: power_add [symmetric] algebra_simps)
qed (simp add: paired_sum_def)

lemma paired_sum_fields: "0 < k \<Longrightarrow> field_sum (2 * k) n (paired_sum k n y) = field_sum k (2 * n) y"
proof (induction n arbitrary: y)
  case (Suc n)
  have f: "y mod 2 ^ k + y div 2 ^ k mod 2 ^ k < 2 ^ (2 * k)" by (rule pair_fits [OF Suc.prems])
  have "y div 2 ^ k div 2 ^ k = y div 2 ^ (2 * k)"
    by (simp add: div_mult2_eq [symmetric] power_add [symmetric] mult_2)
  with f Suc show ?case by (simp add: paired_sum_Suc)
qed simp

lemma unat_add_fields:
  fixes x msk :: "'a::len word"
  assumes "0 < k" "2 * k * n = LENGTH('a)" "unat msk = field_mask k n"
  shows "unat (add_fields k msk x) = paired_sum k n (unat x)"
proof -
  have "unat (x AND msk) + unat (drop_bit k x AND msk) = paired_sum k n (unat x)"
    by (simp add: paired_sum_def unsigned_and_eq unat_drop_bit_word assms(3))
  moreover have "paired_sum k n (unat x) < 2 ^ LENGTH('a)"
    using paired_sum_bound [OF assms(1), of n "unat x"] assms(2) by simp
  ultimately show ?thesis by (simp add: add_fields_def unat_plus_if')
qed

lemma add_fields_sum:
  fixes x msk :: "'a::len word"
  assumes "0 < k" "2 * k * n = LENGTH('a)" "unat msk = field_mask k n"
  shows "field_sum (2 * k) n (unat (add_fields k msk x)) = field_sum k (2 * n) (unat x)"
  by (simp add: unat_add_fields [OF assms] paired_sum_fields assms(1))

lemma field_sum_bound: "field_sum 1 n y \<le> n"
proof (induction n arbitrary: y)
  case (Suc n)
  have "y mod 2 \<le> 1" by auto
  with Suc [of "y div 2"] show ?case by simp
qed simp

lemma field_mask_numeral: "field_mask k (numeral n) = (2 ^ k - 1) + 2 ^ (2 * k) * field_mask k (pred_numeral n)"
  by (simp add: numeral_eq_Suc)

lemma masks_fields:
  "unat MASK32_1S = field_mask 1 16" "unat MASK32_2S = field_mask 2 8" "unat MASK32_4S = field_mask 4 4"
  "unat MASK32_8S = field_mask 8 2"
  by (simp_all add: field_mask_numeral)

lemma low_half_sum:
  fixes w :: "'a::len word"
  assumes "p \<le> LENGTH('a)"
  shows "unat (take_bit p (w + drop_bit p w)) = (unat w + unat w div 2 ^ p) mod 2 ^ p"
proof -
  have "unat (w + drop_bit p w) = (unat w + unat w div 2 ^ p) mod 2 ^ LENGTH('a)"
    by (simp only: unat_word_ariths unat_drop_bit_word)
  moreover have "(2 ^ p :: nat) dvd 2 ^ LENGTH('a)" using assms by (rule le_imp_power_dvd)
  moreover have "unat (take_bit p (w + drop_bit p w)) = take_bit p (unat (w + drop_bit p w))"
    by (simp only: unsigned_take_bit_eq)
  ultimately show ?thesis by (simp only: take_bit_eq_mod [of p "_ :: nat"] mod_mod_cancel)
qed

lemma unat_count_ones32: "unat (count_ones32 x) = field_sum 1 32 (unat x)"
proof -
  let ?a = "add_fields 1 MASK32_1S x"
  let ?b = "add_fields 2 MASK32_2S ?a"
  let ?c = "add_fields 4 MASK32_4S ?b"
  let ?d = "add_fields 8 MASK32_8S ?c"
  have "field_sum 16 2 (unat ?d) = field_sum 8 4 (unat ?c)"
    using add_fields_sum [of 8 2 MASK32_8S ?c] masks_fields(4) by simp
  also have "\<dots> = field_sum 4 8 (unat ?b)"
    using add_fields_sum [of 4 4 MASK32_4S ?b] masks_fields(3) by simp
  also have "\<dots> = field_sum 2 16 (unat ?a)"
    using add_fields_sum [of 2 8 MASK32_2S ?a] masks_fields(2) by simp
  also have "\<dots> = field_sum 1 32 (unat x)"
    using add_fields_sum [of 1 16 MASK32_1S x] masks_fields(1) by simp
  finally have s: "unat ?d mod 2 ^ 16 + unat ?d div 2 ^ 16 mod 2 ^ 16 = field_sum 1 32 (unat x)"
    by (simp add: numeral_2_eq_2)
  have d: "unat ?d div 2 ^ 16 mod 2 ^ 16 = unat ?d div 2 ^ 16"
    using unsigned_less [where ?'a = nat, of ?d] by (simp add: less_mult_imp_div_less)
  have "unat (?d + drop_bit 16 ?d AND MASK32_16S) = unat (take_bit 16 (?d + drop_bit 16 ?d))"
    by (simp add: take_bit_eq_mask mask_eq_exp_minus_1)
  also have "\<dots> = (unat ?d + unat ?d div 2 ^ 16) mod 2 ^ 16" by (rule low_half_sum) simp
  also have "\<dots> = field_sum 1 32 (unat x) mod 2 ^ 16"
    unfolding s [symmetric] d by (simp only: mod_add_left_eq)
  also have "\<dots> = field_sum 1 32 (unat x)"
    using field_sum_bound [of 32 "unat x"] by simp
  finally show ?thesis by (simp add: count_ones32_def Let_def)
qed

text \<open>Reference: the number of set bits of the bytes.\<close>

definition bit_weight :: "bytes \<Rightarrow> nat" where
  "bit_weight bs = (\<Sum>b\<leftarrow>bs. \<Sum>i<8. of_bool (bit b i))"

lemma field_sum_bits: "field_sum 1 n y = (\<Sum>i<n. of_bool (bit y i))"
proof (induction n arbitrary: y)
  case (Suc n)
  have "y mod 2 = of_bool (bit y 0)" by (simp add: bit_0 odd_iff_mod_2_eq_one)
  with Suc [of "y div 2"] show ?case
    by (simp add: sum.lessThan_Suc_shift bit_Suc del: sum.lessThan_Suc)
qed simp

lemma field_sum_append:
  "a < 2 ^ m \<Longrightarrow> field_sum 1 (m + n) (a + 2 ^ m * b) = field_sum 1 m a + field_sum 1 n b"
proof (induction m arbitrary: a)
  case (Suc m)
  have "(a + 2 ^ Suc m * b) mod 2 = a mod 2" by (simp add: mult.assoc)
  moreover have "(a + 2 ^ Suc m * b) div 2 = a div 2 + 2 ^ m * b" by simp
  moreover have "a div 2 < 2 ^ m" using Suc.prems by simp
  ultimately show ?case using Suc.IH [of "a div 2"] by simp
qed simp

lemma byte_weight: "(\<Sum>i<8. of_bool (bit (b :: u8) i)) = field_sum 1 8 (unat b)"
  unfolding field_sum_bits by (rule sum.cong) (auto simp: bit_unsigned_iff bit_imp_le_length)

lemma fields_recombine: "y < 2 ^ (2 * k * n) \<Longrightarrow> (y AND field_mask k n) + 2 ^ k * (y div 2 ^ k AND field_mask k n) = y"
proof (induction n arbitrary: y)
  case (Suc n)
  let ?r = "y div 2 ^ (2 * k)"
  have "?r < 2 ^ (2 * k * n)"
    using Suc.prems by (simp add: less_mult_imp_div_less power_add [symmetric] algebra_simps)
  note ih = Suc.IH [OF this]
  have "y mod 2 ^ k + 2 ^ k * (y div 2 ^ k mod 2 ^ k) = y mod (2 ^ k * 2 ^ k)"
    by (simp add: mod_mult2_eq)
  then have "y mod 2 ^ k + 2 ^ k * (y div 2 ^ k mod 2 ^ k) = y mod 2 ^ (2 * k)"
    by (simp add: power_add mult_2)
  then have "y mod 2 ^ k + 2 ^ k * (y div 2 ^ k mod 2 ^ k) + 2 ^ (2 * k) * ?r = y" by simp
  then have "y mod 2 ^ k + 2 ^ k * (y div 2 ^ k mod 2 ^ k) +
      2 ^ (2 * k) * ((?r AND field_mask k n) + 2 ^ k * (?r div 2 ^ k AND field_mask k n)) = y" unfolding ih .
  then show ?case unfolding and_field_mask fields_swap by (simp add: algebra_simps)
qed simp

lemma unat_count_ones8: "unat (count_ones8 x) = field_sum 1 8 (unat x)"
proof -
  let ?a = "add_fields 1 MASK8_1S x"
  let ?b = "add_fields 2 MASK8_2S ?a"
  have m: "unat MASK8_1S = field_mask 1 4" "unat MASK8_2S = field_mask 2 2" by (simp_all add: field_mask_numeral)
  have "unat (x AND MASK8_1S) + 2 * unat (drop_bit 1 x AND MASK8_1S) = unat x"
    using fields_recombine [of "unat x" 1 4] unsigned_less [where ?'a = nat, of x]
    by (simp add: unsigned_and_eq unat_drop_bit_word m(1) [simplified])
  then have "word_of_nat (unat (x AND MASK8_1S) + 2 * unat (drop_bit 1 x AND MASK8_1S)) = x" by simp
  then have "x = (x AND MASK8_1S) + 2 * (drop_bit 1 x AND MASK8_1S)" by simp
  then have a: "x - (drop_bit 1 x AND MASK8_1S) = ?a" unfolding add_fields_def by (simp add: algebra_simps)
  have "field_sum 4 2 (unat ?b) = field_sum 2 4 (unat ?a)"
    using add_fields_sum [of 2 2 MASK8_2S ?a] m(2) by simp
  also have "\<dots> = field_sum 1 8 (unat x)" using add_fields_sum [of 1 4 MASK8_1S x] m(1) by simp
  finally have s: "unat ?b mod 2 ^ 4 + unat ?b div 2 ^ 4 mod 2 ^ 4 = field_sum 1 8 (unat x)"
    by (simp add: numeral_2_eq_2)
  have d: "unat ?b div 2 ^ 4 mod 2 ^ 4 = unat ?b div 2 ^ 4"
    using unsigned_less [where ?'a = nat, of ?b] by (simp add: less_mult_imp_div_less)
  have "unat (?b + drop_bit 4 ?b AND MASK8_4S) = unat (take_bit 4 (?b + drop_bit 4 ?b))"
    by (simp add: take_bit_eq_mask mask_eq_exp_minus_1)
  also have "\<dots> = (unat ?b + unat ?b div 2 ^ 4) mod 2 ^ 4" by (rule low_half_sum) simp
  also have "\<dots> = field_sum 1 8 (unat x) mod 2 ^ 4" unfolding s [symmetric] d by (simp only: mod_add_left_eq)
  also have "\<dots> = field_sum 1 8 (unat x)" using field_sum_bound [of 8 "unat x"] by simp
  finally show ?thesis unfolding count_ones8_def Let_def a .
qed

lemma word_weight: "field_sum 1 32 (unat (get_u32 [a, b, c, d] 0)) = bit_weight [a, b, c, d]"
proof -
  have lt: "unat x < 2 ^ 8" for x :: u8 using unsigned_less [where ?'a = nat, of x] by simp
  define y2 where "y2 = unat c + 2 ^ 8 * unat d"
  define y1 where "y1 = unat b + 2 ^ 8 * y2"
  define n where "n = unat a + 2 ^ 8 * y1"
  have "y2 < 2 ^ 16" "y1 < 2 ^ 24" "n < 2 ^ 32"
    using lt [of a] lt [of b] lt [of c] lt [of d] unfolding n_def y1_def y2_def by simp_all
  then have "unat (get_u32 [a, b, c, d] 0) = n"
    by (simp add: get_u32_def n_def y1_def y2_def unat_of_nat take_bit_nat_eq_self
        del: of_nat_add of_nat_mult distrib_left_numeral)
  moreover have "field_sum 1 (8 + (8 + (8 + 8))) n = bit_weight [a, b, c, d]"
    unfolding n_def y1_def y2_def field_sum_append [OF lt] by (simp add: bit_weight_def byte_weight)
  ultimately show ?thesis by simp
qed

lemma count_ones_weight: "count_ones bs = bit_weight bs"
proof (induction bs rule: count_ones.induct)
  case (1 a b c d buf)
  then show ?case using word_weight [of a b c d] by (simp add: unat_count_ones32 bit_weight_def)
qed (simp_all add: unat_count_ones8 bit_weight_def byte_weight)

section \<open>The endpoint identifier\<close>

text \<open>Hashing a sequence of buffers.\<close>

definition sha256_parts :: "bytes list \<Rightarrow> ('a crypto_scheme, bytes) prog" where
  "sha256_parts bufs = bind hash_start (\<lambda>_. bind (seqM (map hash_update bufs)) (\<lambda>_. hash_final))"

definition sha256_concat :: "bytes \<Rightarrow> u8 \<Rightarrow> u8 \<Rightarrow> ('a crypto_scheme, bytes) prog" where
  "sha256_concat inp val_to_concat num_to_concat =
     sha256_parts (take 32 inp # replicate (unat num_to_concat) [val_to_concat])"

definition ims_word :: "bytes \<Rightarrow> u32 \<Rightarrow> nat \<Rightarrow> bytes" where
  "ims_word ims pad i = u32_bytes (get_u32 ims (4 * i) XOR pad)"

definition calculate_epuid :: "bytes \<Rightarrow> ('a crypto_scheme, bytes) prog" where
  "calculate_epuid ims =
     bind (sha256_parts (map (ims_word ims 0x3d3d3d3d) [0..<4])) (\<lambda>y1.
     bind (sha256_concat y1 0x01 32) (\<lambda>z0.
     bind (sha256_parts [take 32 z0]) (\<lambda>t.
     return (take 8 t))))"

text \<open>The variant of the ES3 boot ROM hashes only the first byte of every word.\<close>

definition calculate_es3_epuid :: "bytes \<Rightarrow> ('a crypto_scheme, bytes) prog" where
  "calculate_es3_epuid ims =
     bind (sha256_parts (map (\<lambda>i. take 1 (ims_word ims 0x3d3d3d3d i)) [0..<4])) (\<lambda>y1.
     bind (sha256_parts (take 32 y1 # replicate 8 (take 1 (u32_bytes 0x01010101)))) (\<lambda>z0.
     bind (sha256_parts [take 32 z0]) (\<lambda>ep_uid.
     return (take 8 ep_uid))))"

section \<open>Start-up\<close>

abbreviation (input) "TSB_ECCERROR_ECC_ERROR \<equiv> 1 :: u32"
abbreviation (input) "IMS_MEANINGFUL_LENGTH \<equiv> 32 :: nat"

text \<open>The two halves of the identifier are written to their attributes.\<close>

definition publish_endpoint_id :: "env \<Rightarrow> bytes \<Rightarrow> ('a errs_scheme, int) prog" where
  "publish_endpoint_id E endpoint_id =
     bind (chip_unipro_attr_write E DME_ARA_ENDPOINTID_L (get_u32 endpoint_id 0) 0 False) (\<lambda>urc.
     if urc \<noteq> 0 then bind (set_last_error E BRE_EFUSE_ENDPOINT_ID_WRITE) (\<lambda>_. return (-1))
     else
       bind (chip_unipro_attr_write E DME_ARA_ENDPOINTID_H (get_u32 endpoint_id 4) 0 False) (\<lambda>urc.
       if urc \<noteq> 0 then bind (set_last_error E BRE_EFUSE_ENDPOINT_ID_WRITE) (\<lambda>_. return (-1))
       else return 0))"

text \<open>
  The part that concerns the internal master secret; \<open>stack\<close> is what the uninitialised local buffer
  for it holds.
\<close>

definition efuse_publish_ims :: "env \<Rightarrow> bytes \<Rightarrow> ('a crypto_scheme, int) prog" where
  "efuse_publish_ims E stack =
     bind (tsb_get_ims E stack IMS_MEANINGFUL_LENGTH) (\<lambda>ims_value.
     let (ok, all_zero) = valid_hamming_weight (take IMS_MEANINGFUL_LENGTH ims_value)
     in if \<not> ok then bind (set_last_error E BRE_EFUSE_BAD_IMS) (\<lambda>_. return (-1))
        else if all_zero then return 0
        else bind (calculate_es3_epuid ims_value) (publish_endpoint_id E))"

definition efuse_init :: "env \<Rightarrow> bytes \<Rightarrow> ('a tftf_scheme, int) prog" where
  "efuse_init E stack =
     bind (tsb_get_eccerror E) (\<lambda>register_val.
     if register_val AND TSB_ECCERROR_ECC_ERROR \<noteq> 0
     then bind (set_last_error E BRE_EFUSE_ECC) (\<lambda>_. return (-1))
     else
       bind (tsb_get_ara_vid E) (\<lambda>vid.
       bind (modify (\<lambda>s. s\<lparr>ara_vid := vid\<rparr>)) (\<lambda>_.
       if \<not> fst (valid_hamming_weight (u32_bytes vid))
       then bind (set_last_error E BRE_EFUSE_BAD_ARA_VID) (\<lambda>_. return (-1))
       else
         bind (tsb_get_ara_pid E) (\<lambda>pid.
         bind (modify (\<lambda>s. s\<lparr>ara_pid := pid\<rparr>)) (\<lambda>_.
         if \<not> fst (valid_hamming_weight (u32_bytes pid))
         then bind (set_last_error E BRE_EFUSE_BAD_ARA_PID) (\<lambda>_. return (-1))
         else efuse_publish_ims E stack)))))"

definition efuse_rig_for_untrusted :: "('a machine_scheme, unit) prog" where
  "efuse_rig_for_untrusted = bind tsb_disable_ims_access (\<lambda>_. tsb_disable_cms_access)"

section \<open>What the hashes compute\<close>

lemma sha256_parts_run:
  assumes "crypto_ready s"
  shows "\<exists>t. sha256_parts bufs s = Ret (sha256_spec (concat bufs)) t \<and> crypto_ready t"
  unfolding sha256_parts_def by (rule rom_hash.digest_of_parts [OF assms])

lemma concat_singles: "concat (replicate n [v]) = replicate n v"
  by (induction n) simp_all

lemma sha256_concat_run:
  assumes "crypto_ready s"
  shows "\<exists>t. sha256_concat inp v n s = Ret (sha256_spec (take 32 inp @ replicate (unat n) v)) t \<and> crypto_ready t"
  using sha256_parts_run [OF assms, of "take 32 inp # replicate (unat n) [v]"]
  by (simp add: sha256_concat_def concat_singles)

text \<open>The words of the secret, exclusive-or'ed with a repeated byte, are the bytes so changed.\<close>

lemma u32_bytes_xor: "u32_bytes (x XOR y) = map2 (XOR) (u32_bytes x) (u32_bytes y)"
proof -
  have "ucast (drop_bit n (x XOR y)) = (ucast (drop_bit n x) XOR ucast (drop_bit n y) :: u8)" for n
    by (simp add: drop_bit_xor unsigned_xor_eq)
  from this [of 0] this [of 8] this [of 16] this [of 24] show ?thesis by (simp add: u32_bytes_def)
qed

lemma u32_bytes_at:
  assumes "j + 4 \<le> length bs"
  shows "u32_bytes (get_u32 bs j) = take 4 (drop j bs)"
proof -
  have "get_u32 bs j = get_u32 [bs ! j, bs ! Suc j, bs ! (j + 2), bs ! (j + 3)] 0" by (simp add: get_u32_def)
  moreover have "take 4 (drop j bs) = [bs ! j, bs ! Suc j, bs ! (j + 2), bs ! (j + 3)]"
    using assms by (intro nth_equalityI) (auto simp: less_Suc_eq numeral_eq_Suc)
  ultimately show ?thesis by (simp add: u32_bytes_get_u32)
qed

lemma ims_word_pad:
  assumes pad: "u32_bytes pad = replicate 4 c" and l: "4 * i + 4 \<le> length ims"
  shows "ims_word ims pad i = map (\<lambda>b. b XOR c) (take 4 (drop (4 * i) ims))"
proof -
  have m: "map2 (XOR) xs (replicate n c) = map (\<lambda>b. b XOR c) xs" if "length xs = n" for xs :: bytes and n c
    using that by (induction xs arbitrary: n) auto
  have "length (take 4 (drop (4 * i) ims)) = 4" using l by simp
  then show ?thesis
    unfolding ims_word_def u32_bytes_xor u32_bytes_at [OF l] pad by (rule m)
qed

lemma ims_word_bytes:
  assumes "4 * i + 4 \<le> length ims"
  shows "ims_word ims 0x3d3d3d3d i = map (\<lambda>b. b XOR 0x3d) (take 4 (drop (4 * i) ims))"
proof -
  have "replicate 4 c = [c, c, c, c]" for c :: u8 by (simp add: numeral_eq_Suc)
  then have "u32_bytes 0x3d3d3d3d = replicate 4 0x3d" by (simp add: u32_bytes_def)
  then show ?thesis using assms by (rule ims_word_pad)
qed

lemma take_16: "take 16 xs = take 4 (drop 0 xs) @ take 4 (drop 4 xs) @ take 4 (drop 8 xs) @ take 4 (drop 12 xs)"
proof -
  have "take (4 + (4 + (4 + 4))) xs = take 4 xs @ take 4 (drop 4 xs) @ take 4 (drop 8 xs) @ take 4 (drop 12 xs)"
    by (simp only: take_add drop_drop) simp
  then show ?thesis by simp
qed

lemma ims_words_bytes:
  assumes "16 \<le> length ims"
  shows "concat (map (ims_word ims 0x3d3d3d3d) [0..<4]) = map (\<lambda>b. b XOR 0x3d) (take 16 ims)"
proof -
  have "concat (map (ims_word ims 0x3d3d3d3d) [0..<4]) =
      concat (map (\<lambda>i. map (\<lambda>b. b XOR 0x3d) (take 4 (drop (4 * i) ims))) [0..<4])"
    using assms by (intro arg_cong [where f = concat] map_cong refl ims_word_bytes) auto
  then show ?thesis unfolding take_16 by (simp add: upt_conv_Cons)
qed

lemma ims_first_bytes:
  assumes "16 \<le> length ims"
  shows "concat (map (\<lambda>i. take 1 (ims_word ims 0x3d3d3d3d i)) [0..<4]) =
    map (\<lambda>i. ims ! i XOR 0x3d) [0, 4, 8, 12]"
proof -
  have "take 1 (ims_word ims 0x3d3d3d3d i) = [ims ! (4 * i) XOR 0x3d]" if "i < 4" for i
    using assms that by (subst ims_word_bytes) (auto simp: take_map take_Suc hd_drop_conv_nth)
  then have "concat (map (\<lambda>i. take 1 (ims_word ims 0x3d3d3d3d i)) [0..<4]) =
      concat (map (\<lambda>i. [ims ! (4 * i) XOR 0x3d]) [0..<4])"
    by (intro arg_cong [where f = concat] map_cong refl) auto
  then show ?thesis by (simp add: upt_conv_Cons)
qed

text \<open>The identifiers as functions of the secret.\<close>

definition epuid_spec :: "bytes \<Rightarrow> bytes" where
  "epuid_spec ims =
     (let y1 = sha256_spec (map (\<lambda>b. b XOR 0x3d) (take 16 ims));
          z0 = sha256_spec (y1 @ replicate 32 1)
      in take 8 (sha256_spec z0))"

definition es3_epuid_spec :: "bytes \<Rightarrow> bytes" where
  "es3_epuid_spec ims =
     (let y1 = sha256_spec (map (\<lambda>i. ims ! i XOR 0x3d) [0, 4, 8, 12]);
          z0 = sha256_spec (y1 @ replicate 8 1)
      in take 8 (sha256_spec z0))"

lemma length_sha256_spec [simp]: "length (sha256_spec msg) = 32"
proof -
  have "length (hash_blocks H_init (sha_pad msg)) = 8" by (rule length_hash_blocks) (simp add: H_init_def)
  then have "length (concat (map (\<lambda>w. bytes_be 4 (unat w)) (hash_blocks H_init (sha_pad msg)))) = 4 * 8"
    by (simp add: length_concat sum_list_triv comp_def bytes_be_def)
  then show ?thesis by (simp add: sha256_spec_def)
qed

lemma epuid_run:
  assumes "crypto_ready s" "16 \<le> length ims"
  shows "\<exists>t. calculate_epuid ims s = Ret (epuid_spec ims) t \<and> crypto_ready t"
proof -
  obtain s1 where s1: "sha256_parts (map (ims_word ims 0x3d3d3d3d) [0..<4]) s =
      Ret (sha256_spec (map (\<lambda>b. b XOR 0x3d) (take 16 ims))) s1" "crypto_ready s1"
    using sha256_parts_run [OF assms(1)] unfolding ims_words_bytes [OF assms(2), symmetric] by blast
  let ?y1 = "sha256_spec (map (\<lambda>b. b XOR 0x3d) (take 16 ims))"
  obtain s2 where s2: "sha256_concat ?y1 0x01 32 s1 = Ret (sha256_spec (?y1 @ replicate 32 1)) s2" "crypto_ready s2"
    using sha256_concat_run [OF s1(2), of ?y1 1 32] by auto
  obtain s3 where "sha256_parts [sha256_spec (?y1 @ replicate 32 1)] s2 =
      Ret (sha256_spec (sha256_spec (?y1 @ replicate 32 1))) s3" "crypto_ready s3"
    using sha256_parts_run [OF s2(2), of "[sha256_spec (?y1 @ replicate 32 1)]"] by auto
  with s1 s2 show ?thesis by (simp add: calculate_epuid_def epuid_spec_def Let_def return_def)
qed

lemma es3_epuid_run:
  assumes "crypto_ready s" "16 \<le> length ims"
  shows "\<exists>t. calculate_es3_epuid ims s = Ret (es3_epuid_spec ims) t \<and> crypto_ready t"
proof -
  let ?y1 = "sha256_spec (map (\<lambda>i. ims ! i XOR 0x3d) [0, 4, 8, 12])"
  let ?z0 = "sha256_spec (?y1 @ replicate 8 1)"
  obtain s1 where s1: "sha256_parts (map (\<lambda>i. take 1 (ims_word ims 0x3d3d3d3d i)) [0..<4]) s = Ret ?y1 s1"
      "crypto_ready s1"
    using sha256_parts_run [OF assms(1)] unfolding ims_first_bytes [OF assms(2), symmetric] by blast
  have "take 1 (u32_bytes 0x01010101) = [1]" by (simp add: u32_bytes_def)
  then obtain s2 where s2: "sha256_parts (take 32 ?y1 # replicate 8 (take 1 (u32_bytes 0x01010101))) s1 = Ret ?z0 s2"
      "crypto_ready s2"
    using sha256_parts_run [OF s1(2), of "take 32 ?y1 # replicate 8 [1]"] by (auto simp: concat_singles)
  obtain s3 where "sha256_parts [take 32 ?z0] s2 = Ret (sha256_spec ?z0) s3" "crypto_ready s3"
    using sha256_parts_run [OF s2(2), of "[take 32 ?z0]"] by auto
  with s1 s2 show ?thesis by (simp add: calculate_es3_epuid_def es3_epuid_spec_def Let_def return_def)
qed

section \<open>Frames\<close>

text \<open>The identity and the memory stay as they are.\<close>

definition id_frame :: "'a tftf_scheme \<Rightarrow> 'a tftf_scheme \<Rightarrow> bool" where
  "id_frame s t \<longleftrightarrow> ara_vid t = ara_vid s \<and> ara_pid t = ara_pid s \<and> ram t = ram s"

interpretation id_frame: state_rel id_frame
  by unfold_locales (auto simp: id_frame_def)

text \<open>Hashing stays possible.\<close>

definition keeps_ready :: "'a crypto_scheme \<Rightarrow> 'a crypto_scheme \<Rightarrow> bool" where
  "keeps_ready s t \<longleftrightarrow> (crypto_ready s \<longrightarrow> crypto_ready t)"

interpretation keeps_ready: state_rel keeps_ready
  by unfold_locales (auto simp: keeps_ready_def)

lemma only_errs_frames:
  "preserves only_errs m \<Longrightarrow> preserves id_frame (m :: ('a tftf_scheme, 'b) prog)"
  "preserves only_errs n \<Longrightarrow> preserves keeps_ready (n :: ('c crypto_scheme, 'd) prog)"
proof -
  have "only_errs s t \<Longrightarrow> id_frame s t" for s t :: "'a tftf_scheme"
    by (auto simp: only_errs_def id_frame_def)
  then show "preserves only_errs m \<Longrightarrow> preserves id_frame m" by (auto simp: preserves_def)
  have "only_errs s t \<Longrightarrow> keeps_ready s t" for s t :: "'c crypto_scheme"
    by (auto simp: only_errs_def keeps_ready_def crypto_ready_def)
  then show "preserves only_errs n \<Longrightarrow> preserves keeps_ready n" by (auto simp: preserves_def)
qed

lemma only_io_frames:
  "preserves only_io m \<Longrightarrow> preserves id_frame (m :: ('a tftf_scheme, 'b) prog)"
  "preserves only_io n \<Longrightarrow> preserves keeps_ready (n :: ('c crypto_scheme, 'd) prog)"
  by (rule only_errs_frames, erule only_io_pres_errs)+

lemmas id_frame_intros = chip_only_io [THEN only_io_frames(1)] unipro_only_io [THEN only_io_frames(1)]
  set_last_error_only_errs [THEN only_errs_frames(1)]

lemmas ready_intros = chip_only_io [THEN only_io_frames(2)] unipro_only_io [THEN only_io_frames(2)]
  set_last_error_only_errs [THEN only_errs_frames(2)] advertise_only_errs [THEN only_errs_frames(2)]
  halt_only_errs [THEN only_errs_frames(2)]

lemma hash_id_frame: "preserves id_frame hash_start" "preserves id_frame (hash_update x)" "preserves id_frame hash_final"
  by (auto simp: preserves_def hash_start_def hash_update_def hash_final_def prog_defs id_frame_def
      split: option.splits)

lemma hashes_id_frame: "preserves id_frame (seqM (map hash_update xs))"
  by (induction xs) (auto intro!: id_frame.pres_intros hash_id_frame)

lemma parts_id_frame: "preserves id_frame (sha256_parts bufs)"
  unfolding sha256_parts_def by (intro id_frame.pres_intros hash_id_frame hashes_id_frame)

lemma parts_ready: "preserves keeps_ready (sha256_parts bufs)"
proof (rule preservesI, unfold keeps_ready_def, intro impI)
  fix s :: "'a crypto_scheme"
  assume "crypto_ready s"
  from sha256_parts_run [OF this, of bufs] show "crypto_ready (outcome_state (sha256_parts bufs s))" by auto
qed

lemma epuid_frames:
  "preserves id_frame (calculate_es3_epuid ims)" "preserves keeps_ready (calculate_es3_epuid ims)"
  unfolding calculate_es3_epuid_def
  by (intro id_frame.pres_intros keeps_ready.pres_intros parts_id_frame parts_ready)+

lemma publish_only_errs: "preserves only_errs (publish_endpoint_id E x)"
  unfolding publish_endpoint_id_def
  by (intro only_errs.pres_intros only_io_pres_errs attr_write_only_io set_last_error_only_errs)

lemma publish_ims_frames:
  "preserves id_frame (efuse_publish_ims E stack)" "preserves keeps_ready (efuse_publish_ims E stack)"
  unfolding efuse_publish_ims_def
  by (intro id_frame.pres_intros keeps_ready.pres_intros id_frame_intros ready_intros epuid_frames
      publish_only_errs [THEN only_errs_frames(1)] publish_only_errs [THEN only_errs_frames(2)])+

lemma efuse_init_ready: "preserves keeps_ready (efuse_init E stack)"
  unfolding efuse_init_def
  by (intro keeps_ready.pres_intros keeps_ready.pres_modify ready_intros publish_ims_frames) (simp_all add: keeps_ready_def crypto_ready_def)

section \<open>Properties\<close>

text \<open>
  C20: The parallel count of set bits, in words of four bytes and then in single bytes, is the number
  of set bits of the buffer.
\<close>

theorem count_ones_correct: "count_ones bs = bit_weight bs"
  by (rule count_ones_weight)

text \<open>
  C21: When \<^verbatim>\<open>efuse_init\<close> succeeds the ECC error bit was clear, the cached Ara vendor and product
  identifiers are either unset or have as many ones as zeros, and memory is untouched.
\<close>

theorem efuse_init_checks:
  assumes "efuse_init E stack s = Ret 0 t"
  shows "dev E (io s) (SYSCTL_BASE + TSB_SCM_ECCERROR) AND TSB_ECCERROR_ECC_ERROR = 0 \<and>
    bit_weight (u32_bytes (ara_vid t)) \<in> {0, 16} \<and> bit_weight (u32_bytes (ara_pid t)) \<in> {0, 16} \<and> ram t = ram s"
proof -
  from assms obtain v s1 vid s2 pid s3 where
    e: "tsb_get_eccerror E s = Ret v s1" "v AND TSB_ECCERROR_ECC_ERROR = 0" and
    vid: "tsb_get_ara_vid E s1 = Ret vid s2" "fst (valid_hamming_weight (u32_bytes vid))" and
    pid: "tsb_get_ara_pid E (s2\<lparr>ara_vid := vid\<rparr>) = Ret pid s3" "fst (valid_hamming_weight (u32_bytes pid))" and
    t: "efuse_publish_ims E stack (s3\<lparr>ara_pid := pid\<rparr>) = Ret 0 t"
    by (auto simp: efuse_init_def modify_def report_run elim!: bind_eq_RetE split: if_splits)
  have "id_frame s s1" "id_frame s1 s2" "id_frame (s2\<lparr>ara_vid := vid\<rparr>) s3" "id_frame (s3\<lparr>ara_pid := pid\<rparr>) t"
    using preserves_RetD [OF id_frame_intros(5) e(1)] preserves_RetD [OF id_frame_intros(6) vid(1)]
      preserves_RetD [OF id_frame_intros(7) pid(1)] preserves_RetD [OF publish_ims_frames(1) t] by auto
  then have "ara_vid t = vid" "ara_pid t = pid" "ram t = ram s" by (auto simp: id_frame_def)
  moreover have "v = dev E (io s) (SYSCTL_BASE + TSB_SCM_ECCERROR)"
    using e(1) by (simp add: tsb_get_eccerror_def scm_read_def getreg32_def Let_def)
  ultimately show ?thesis
    using e(2) vid(2) pid(2) by (auto simp: valid_hamming_weight_def Let_def count_ones_weight)
qed

theorem efuse_init_checks_witness:
  "\<exists>t. efuse_init (es3_env (\<lambda>_ _. 0)) (replicate 35 0xAA) reset_tftf = Ret 0 t \<and> ram t = ram reset_tftf"
proof -
  let ?E = "es3_env (\<lambda>_ _. 0)"
  have c: "\<not> cfgdata_valid ?E" by (simp add: cfgdata_valid_def es3_env_def)
  have z: "fst (valid_hamming_weight (u32_bytes 0))"
    by (simp add: valid_hamming_weight_def u32_bytes_def count_ones32_def add_fields_def get_u32_def)
  have "\<exists>t. isaa_read_n ?E a (4 * n) u = Ret (replicate (4 * n) 0) t" for a n and u :: tftf
  proof (induction n arbitrary: a u)
    case (Suc n)
    obtain u' where u': "isaa_read ?E a u = Ret 0 u'"
      by (simp add: isaa_read_def getreg32_def Let_def es3_env_def)
    obtain t where "isaa_read_n ?E (a + 4) (4 * n) u' = Ret (replicate (4 * n) 0) t" using Suc by blast
    moreover have "u32_bytes 0 = replicate 4 0" by (simp add: u32_bytes_def numeral_eq_Suc)
    ultimately show ?case using u' by (subst isaa_read_n.simps) (simp add: return_def replicate_add)
  qed (simp add: isaa_read_n.simps return_def)
  from this [of _ 8] have r: "\<exists>t. isaa_read_n ?E a 32 u = Ret (replicate 32 0) t" for a and u :: tftf by simp
  have "bit_weight (replicate n 0) = 0" for n by (induction n) (auto simp: bit_weight_def bot_fun_def)
  then have "valid_hamming_weight (replicate 32 0) = (True, True)"
    by (simp add: valid_hamming_weight_def count_ones_weight)
  then have "\<exists>t. efuse_publish_ims ?E (replicate 35 0xAA) s = Ret 0 t" for s :: tftf
    using c r [of TSB_ISAA_IMS0 s] by (auto simp: efuse_publish_ims_def tsb_get_ims_def put_bytes_def return_def)
  then have "\<exists>t. efuse_init ?E (replicate 35 0xAA) reset_tftf = Ret 0 t"
    using c z by (simp add: efuse_init_def tsb_get_eccerror_def tsb_get_ara_vid_def tsb_get_ara_pid_def scm_read_def
        getreg32_def Let_def es3_env_def modify_def)
  with efuse_init_checks show ?thesis by blast
qed

text \<open>
  C22: \<^verbatim>\<open>calculate_epuid\<close> runs to the end and gives the endpoint identifier the key derivation
  documents: the first eight bytes of three nested SHA-256 digests over the first 16 bytes of the
  master secret.
\<close>

theorem epuid_correct:
  assumes "crypto_ready s" "16 \<le> length ims"
  shows "\<exists>t. calculate_epuid ims s = Ret (epuid_spec ims) t"
  using epuid_run [OF assms] by blast

theorem epuid_correct_witness:
  "\<exists>t. calculate_epuid (replicate 35 0x11) reset_tftf = Ret (epuid_spec (replicate 35 0x11)) t"
  by (rule epuid_correct [OF reset_tftf_ready]) simp

text \<open>
  The identifier the ES3 boot ROM publishes depends on four bytes of the master secret only: two
  secrets that agree on bytes 0, 4, 8 and 12 get the same identifier.
\<close>

theorem es3_epuid_four_bytes:
  assumes "crypto_ready s" "16 \<le> length ims" "16 \<le> length ims'" "\<forall>i \<in> {0, 4, 8, 12}. ims ! i = ims' ! i"
  shows "\<exists>t t'. calculate_es3_epuid ims s = Ret (es3_epuid_spec ims) t \<and>
    calculate_es3_epuid ims' s = Ret (es3_epuid_spec ims) t'"
proof -
  have "es3_epuid_spec ims' = es3_epuid_spec ims" using assms(4) by (simp add: es3_epuid_spec_def)
  with es3_epuid_run [OF assms(1,2)] es3_epuid_run [OF assms(1,3)] show ?thesis by auto
qed

theorem es3_epuid_four_bytes_witness:
  "\<exists>t t'. calculate_es3_epuid (replicate 16 0) reset_tftf = Ret (es3_epuid_spec (replicate 16 0)) t \<and>
    calculate_es3_epuid ((replicate 16 0)[5 := 0x77]) reset_tftf = Ret (es3_epuid_spec (replicate 16 0)) t'"
  by (rule es3_epuid_four_bytes [OF reset_tftf_ready]) simp_all

end
