(* ===== verification/Greybus.thy ===== *)
theory Greybus
  imports Efuse
begin

text \<open>
  Greybus operations (\<^verbatim>\<open>common/src/gbcore.c\<close>, \<^verbatim>\<open>common/include/greybus.h\<close>): messages, the control
  protocol, the table of handlers per CPort, and the polling loop. Handlers are reached through
  function pointers; the functions whose addresses the tables hold are the constructors of a
  datatype, and the calls go through an argument \<open>call\<close>, so that the loop is defined before the
  handlers of the boot protocol.
\<close>

section \<open>Messages\<close>

abbreviation (input) "GREYBUS_MAJOR_VERSION \<equiv> 0 :: u8"
abbreviation (input) "GREYBUS_MINOR_VERSION \<equiv> 1 :: u8"
abbreviation (input) "GB_TYPE_RESPONSE \<equiv> 0x80 :: u8"
abbreviation (input) "GB_CTRL_OP_VERSION \<equiv> 1 :: u16"
abbreviation (input) "GB_CTRL_OP_PROBE_AP \<equiv> 2 :: u16"
abbreviation (input) "GB_CTRL_OP_GET_MANIFEST_SIZE \<equiv> 3 :: u16"
abbreviation (input) "GB_CTRL_OP_GET_MANIFEST \<equiv> 4 :: u16"
abbreviation (input) "GB_CTRL_OP_CONNECTED \<equiv> 5 :: u16"
abbreviation (input) "GB_CTRL_OP_DISCONNECTED \<equiv> 6 :: u16"
abbreviation (input) "GB_OP_SUCCESS \<equiv> 0 :: u8"
abbreviation (input) "GB_OP_INVALID \<equiv> 6 :: u8"
abbreviation (input) "GB_MAX_PAYLOAD_SIZE \<equiv> 0x7F0 :: u32"
abbreviation (input) "CONTROL_CPORT \<equiv> 0 :: u32"
abbreviation (input) "HANDLER_TABLE_END \<equiv> 0xFFFF :: u16"

record gb_operation_header =
  op_size :: u16
  op_id :: u16
  op_type :: u8
  op_status :: u8
  op_padding :: u16

text \<open>The header at the start of a buffer, and the bytes of a header.\<close>

definition op_header_of :: "bytes \<Rightarrow> gb_operation_header" where
  "op_header_of buf = \<lparr>op_size = get_u16 buf 0, op_id = get_u16 buf 2, op_type = buf ! 4, op_status = buf ! 5,
     op_padding = get_u16 buf 6\<rparr>"

definition op_header_bytes :: "gb_operation_header \<Rightarrow> bytes" where
  "op_header_bytes h = u16_bytes (op_size h) @ u16_bytes (op_id h) @ [op_type h, op_status h] @ u16_bytes (op_padding h)"

text \<open>The message \<^verbatim>\<open>greybus_send_message\<close> builds; its size field has 16 bits.\<close>

definition gb_message :: "u16 \<Rightarrow> u8 \<Rightarrow> u8 \<Rightarrow> bytes \<Rightarrow> bytes" where
  "gb_message mid ty status payload =
     op_header_bytes \<lparr>op_size = word_of_nat (8 + length payload), op_id = mid, op_type = ty, op_status = status,
       op_padding = 0\<rparr> @ payload"

definition greybus_send_message ::
    "env \<Rightarrow> u32 \<Rightarrow> u16 \<Rightarrow> u8 \<Rightarrow> u8 \<Rightarrow> bytes \<Rightarrow> u16 \<Rightarrow> ('a machine_scheme, int) prog" where
  "greybus_send_message E cport mid ty status payload_data payload_size =
     chip_unipro_send E cport (gb_message mid ty status (take (unat payload_size) payload_data))"

definition greybus_send_request :: "env \<Rightarrow> u32 \<Rightarrow> u16 \<Rightarrow> u8 \<Rightarrow> bytes \<Rightarrow> ('a machine_scheme, int) prog" where
  "greybus_send_request E cport mid ty payload =
     greybus_send_message E cport mid ty 0 payload (word_of_nat (length payload))"

definition greybus_op_response ::
    "env \<Rightarrow> u32 \<Rightarrow> gb_operation_header \<Rightarrow> u8 \<Rightarrow> bytes \<Rightarrow> ('a machine_scheme, int) prog" where
  "greybus_op_response E cport op status payload =
     greybus_send_message E cport (op_id op) (op_type op OR GB_TYPE_RESPONSE) status payload
       (word_of_nat (length payload))"

section \<open>The control protocol\<close>

text \<open>The functions that handler tables point to; those of the bridged SPI are linked into the second stage only.\<close>

datatype gb_spi_handler = Gb_spi_get_version | Gb_spi_type_master_config | Gb_spi_type_device_config | Gb_spi_transfer

datatype greybus_op_handler_func =
  Gbctrl_get_version | Gbctrl_probe_ap | Gbctrl_get_manifest_size | Gbctrl_get_manifest | Gbctrl_connected
| Gbctrl_disconnected
| Gbboot_get_version | Firmware_size_response_handler | Get_firmware_response_handler
| Ready_to_boot_response_handler | Gbboot_ap_ready | Gbboot_get_vid_pid
| Spi_gb gb_spi_handler

type_synonym greybus_op_handler = "u16 \<times> greybus_op_handler_func option"

record gbcore = tftf +
  handler_table :: "u32 \<Rightarrow> greybus_op_handler list option"
  manifest_fetched :: bool

definition gbctrl_get_version :: "env \<Rightarrow> u32 \<Rightarrow> bytes \<Rightarrow> ('a gbcore_scheme, int) prog" where
  "gbctrl_get_version E cportid buf =
     greybus_op_response E cportid (op_header_of buf) GB_OP_SUCCESS [GREYBUS_MAJOR_VERSION, GREYBUS_MINOR_VERSION]"

definition gbctrl_probe_ap :: "env \<Rightarrow> u32 \<Rightarrow> bytes \<Rightarrow> ('a gbcore_scheme, int) prog" where
  "gbctrl_probe_ap E cportid buf =
     greybus_op_response E cportid (op_header_of buf) GB_OP_SUCCESS (u16_bytes 0)"

definition gbctrl_get_manifest_size :: "env \<Rightarrow> u32 \<Rightarrow> bytes \<Rightarrow> ('a gbcore_scheme, int) prog" where
  "gbctrl_get_manifest_size E cportid buf =
     greybus_op_response E cportid (op_header_of buf) GB_OP_SUCCESS (u16_bytes (word_of_nat (length (manifest E))))"

definition manifest_fetched_by_ap :: "('a gbcore_scheme, bool) prog" where
  "manifest_fetched_by_ap = gets manifest_fetched"

definition gbctrl_get_manifest :: "env \<Rightarrow> u32 \<Rightarrow> bytes \<Rightarrow> ('a gbcore_scheme, int) prog" where
  "gbctrl_get_manifest E cportid buf =
     bind (greybus_op_response E cportid (op_header_of buf) GB_OP_SUCCESS (manifest E)) (\<lambda>rc.
     if rc \<noteq> 0 then return rc
     else bind (modify (\<lambda>s. s\<lparr>manifest_fetched := True\<rparr>)) (\<lambda>_. return 0))"

definition gbctrl_connected :: "env \<Rightarrow> u32 \<Rightarrow> bytes \<Rightarrow> ('a gbcore_scheme, int) prog" where
  "gbctrl_connected E cportid buf =
     (let op = op_header_of buf
      in if op_size op \<noteq> 8 + 2 then
           bind (greybus_op_response E cportid op GB_OP_INVALID []) (\<lambda>_. return (-1))
         else
           bind (assert_or_fault (10 \<le> length buf)) (\<lambda>_.
           bind (chip_unipro_init_cport E (ucast (get_u16 buf 8))) (\<lambda>_.
           greybus_op_response E cportid op GB_OP_SUCCESS [])))"

definition gbctrl_disconnected :: "env \<Rightarrow> u32 \<Rightarrow> bytes \<Rightarrow> ('a gbcore_scheme, int) prog" where
  "gbctrl_disconnected E cportid buf =
     (let op = op_header_of buf
      in if op_size op \<noteq> 8 + 2 then
           bind (greybus_op_response E cportid op GB_OP_INVALID []) (\<lambda>_. return (-1))
         else greybus_op_response E cportid op GB_OP_SUCCESS [])"

definition control_cport_handlers :: "greybus_op_handler list" where
  "control_cport_handlers =
     [(GB_CTRL_OP_VERSION, Some Gbctrl_get_version),
      (GB_CTRL_OP_PROBE_AP, Some Gbctrl_probe_ap),
      (GB_CTRL_OP_GET_MANIFEST_SIZE, Some Gbctrl_get_manifest_size),
      (GB_CTRL_OP_GET_MANIFEST, Some Gbctrl_get_manifest),
      (GB_CTRL_OP_CONNECTED, Some Gbctrl_connected),
      (GB_CTRL_OP_DISCONNECTED, Some Gbctrl_disconnected),
      (HANDLER_TABLE_END, None)]"

section \<open>Dispatch\<close>

text \<open>
  The search through a table up to its end marker; reading behind a table without one would be
  undefined behaviour, here the outcome \<open>None\<close>.
\<close>

fun find_handler :: "greybus_op_handler list \<Rightarrow> u8 \<Rightarrow> greybus_op_handler_func option option" where
  "find_handler [] ty = None"
| "find_handler ((t, h) # rows) ty =
     (if t = HANDLER_TABLE_END then Some None
      else if t = ucast ty then Some h
      else find_handler rows ty)"

type_synonym 's handler_call = "greybus_op_handler_func \<Rightarrow> u32 \<Rightarrow> bytes \<Rightarrow> ('s, int) prog"

definition common_cport_handler ::
    "'a gbcore_scheme handler_call \<Rightarrow> u32 \<Rightarrow> bytes \<Rightarrow> nat \<Rightarrow> ('a gbcore_scheme, int) prog" where
  "common_cport_handler call cportid data len =
     (if len < 8 then return (-1)
      else
        bind (assert_or_fault (8 \<le> length data)) (\<lambda>_.
        bind (gets (\<lambda>s. handler_table s cportid)) (\<lambda>tab.
        case tab of
          None \<Rightarrow> return (-1)
        | Some rows \<Rightarrow>
            (case find_handler rows (op_type (op_header_of data)) of
               None \<Rightarrow> stop_with Fault
             | Some None \<Rightarrow> return (-1)
             | Some (Some handler) \<Rightarrow> call handler cportid data))))"

definition greybus_register_handlers :: "u32 \<Rightarrow> greybus_op_handler list \<Rightarrow> ('a gbcore_scheme, unit) prog" where
  "greybus_register_handlers cportid handlers =
     modify (\<lambda>s. s\<lparr>handler_table := (handler_table s)(cportid := Some handlers)\<rparr>)"

definition greybus_init :: "env \<Rightarrow> ('a gbcore_scheme, int) prog" where
  "greybus_init E =
     bind (modify (\<lambda>s. s\<lparr>handler_table := (\<lambda>i. if i < cport_max E then None else handler_table s i)\<rparr>)) (\<lambda>_.
     bind (chip_unipro_init_cport E CONTROL_CPORT) (\<lambda>rc.
     bind (greybus_register_handlers CONTROL_CPORT control_cport_handlers) (\<lambda>_.
     return rc)))"

text \<open>One pass over the CPorts; \<open>Some r\<close> leaves the loop with \<open>r\<close>.\<close>

primrec poll_cports :: "env \<Rightarrow> 'a gbcore_scheme handler_call \<Rightarrow> u32 list \<Rightarrow> ('a gbcore_scheme, int option) prog" where
  "poll_cports E call [] = return None"
| "poll_cports E call (c # cs) =
     bind (gets (\<lambda>s. handler_table s c)) (\<lambda>tab.
     if tab = None then poll_cports E call cs
     else
       bind (chip_unipro_receive E c (Some (common_cport_handler call)) False) (\<lambda>rc.
       if rc < 0 then return (Some (-1))
       else if rc > 0 then return (Some 0)
       else poll_cports E call cs))"

definition greybus_loop :: "env \<Rightarrow> 'a gbcore_scheme handler_call \<Rightarrow> ('a gbcore_scheme, int) prog" where
  "greybus_loop E call =
     loopM (\<lambda>_.
       bind (is_mailbox_irq_pending E) (\<lambda>pending.
       bind (if pending then bind (chip_unipro_recv_cport E) (\<lambda>_. skip) else skip) (\<lambda>_.
       bind (poll_cports E call (map word_of_nat [0..<unat (cport_max E)])) (\<lambda>r.
       return (case r of None \<Rightarrow> Inl () | Some rc \<Rightarrow> Inr rc))))) ()"

section \<open>What the loop may change\<close>

text \<open>
  The contract between the loop and the handlers: if register accesses and every handler keep to a
  relation, so does the whole loop.
\<close>

locale handler_frame = state_rel R
  for R :: "'a gbcore_scheme \<Rightarrow> 'a gbcore_scheme \<Rightarrow> bool" +
  fixes call :: "'a gbcore_scheme handler_call"
  assumes io_in: "only_io s t \<Longrightarrow> R s t"
    and call_in: "preserves R (call handler cportid buf)"
begin

lemma io_pres: "preserves only_io m \<Longrightarrow> preserves R m"
  by (auto simp: preserves_def io_in)

lemma handler_pres: "preserves R (common_cport_handler call cportid buf len)"
  unfolding common_cport_handler_def by (intro pres_intros call_in)

lemma receive_pres: "preserves R (chip_unipro_receive E c (Some (common_cport_handler call)) blocking)"
proof -
  have r: "preserves R (tsb_unipro_read E a)" "preserves R (tsb_unipro_write a v)" for a v
    by (rule io_pres, rule unipro_reg_only_io)+
  have x: "preserves R (tsb_unipro_restart_rx cp)" for cp by (rule io_pres, rule restart_rx_only_io)
  show ?thesis unfolding chip_unipro_receive_def option.case(2) by (intro pres_intros r x handler_pres)
qed

lemma poll_pres: "preserves R (poll_cports E call cs)"
  by (induction cs) (auto intro!: pres_intros receive_pres)

lemma loop_pres: "preserves R (greybus_loop E call)"
proof -
  have m: "preserves R (is_mailbox_irq_pending E)"
    unfolding is_mailbox_irq_pending_def by (intro pres_intros io_pres [OF attr_read_only_io])
  have c: "preserves R (chip_unipro_recv_cport E)" by (rule io_pres, rule recv_cport_only_io)
  show ?thesis unfolding greybus_loop_def by (intro pres_intros m c poll_pres)
qed

end

section \<open>Frames of the control handlers\<close>

lemma send_message_only_io: "preserves only_io (greybus_send_message E c i ty st p n)"
  unfolding greybus_send_message_def by (rule send_only_io)

lemma greybus_only_io:
  "preserves only_io (greybus_send_request E c i ty p)" "preserves only_io (greybus_op_response E c op st p)"
  unfolding greybus_send_request_def greybus_op_response_def by (rule send_message_only_io)+

text \<open>Nothing has changed but the history and the manifest flag.\<close>

definition ctrl_effect :: "'a gbcore_scheme \<Rightarrow> 'a gbcore_scheme \<Rightarrow> bool" where
  "ctrl_effect s t \<longleftrightarrow> (\<exists>ev b. t = s\<lparr>io := ev @ io s, manifest_fetched := b\<rparr>)"

interpretation ctrl_effect: state_rel ctrl_effect
proof
  show "ctrl_effect s s" for s :: "'a gbcore_scheme"
    unfolding ctrl_effect_def by (rule exI [of _ "[]"], rule exI [of _ "manifest_fetched s"]) simp
  show "ctrl_effect s u" if st: "ctrl_effect s t" and tu: "ctrl_effect t u" for s t u :: "'a gbcore_scheme"
  proof -
    from st obtain ev b where t: "t = s\<lparr>io := ev @ io s, manifest_fetched := b\<rparr>" by (auto simp: ctrl_effect_def)
    from tu obtain ev' b' where u: "u = t\<lparr>io := ev' @ io t, manifest_fetched := b'\<rparr>" by (auto simp: ctrl_effect_def)
    show ?thesis unfolding ctrl_effect_def by (rule exI [of _ "ev' @ ev"], rule exI [of _ b']) (simp add: t u)
  qed
qed

lemma only_io_ctrl: "preserves only_io m \<Longrightarrow> preserves ctrl_effect (m :: ('a gbcore_scheme, 'b) prog)"
proof (rule preservesI)
  fix s :: "'a gbcore_scheme"
  assume "preserves only_io m"
  from preservesD [OF this, of s] obtain ev where "outcome_state (m s) = s\<lparr>io := ev @ io s\<rparr>" by (auto simp: only_io_def)
  then show "ctrl_effect s (outcome_state (m s))"
    unfolding ctrl_effect_def by (intro exI [of _ ev] exI [of _ "manifest_fetched s"]) simp
qed

lemma ctrl_handlers_effect:
  "preserves ctrl_effect (gbctrl_get_version E c buf)" "preserves ctrl_effect (gbctrl_probe_ap E c buf)"
  "preserves ctrl_effect (gbctrl_get_manifest_size E c buf)" "preserves ctrl_effect (gbctrl_get_manifest E c buf)"
  "preserves ctrl_effect (gbctrl_connected E c buf)" "preserves ctrl_effect (gbctrl_disconnected E c buf)"
proof -
  have f: "preserves ctrl_effect (modify (\<lambda>s. s\<lparr>manifest_fetched := True\<rparr>))"
    by (rule ctrl_effect.pres_modify, unfold ctrl_effect_def, rule exI [of _ "[]"], rule exI [of _ True]) simp
  show "preserves ctrl_effect (gbctrl_get_version E c buf)" "preserves ctrl_effect (gbctrl_probe_ap E c buf)"
    "preserves ctrl_effect (gbctrl_get_manifest_size E c buf)" "preserves ctrl_effect (gbctrl_get_manifest E c buf)"
    "preserves ctrl_effect (gbctrl_connected E c buf)" "preserves ctrl_effect (gbctrl_disconnected E c buf)"
    unfolding gbctrl_get_version_def gbctrl_probe_ap_def gbctrl_get_manifest_size_def gbctrl_get_manifest_def
      gbctrl_connected_def gbctrl_disconnected_def
    by (intro ctrl_effect.pres_intros f greybus_only_io [THEN only_io_ctrl] init_cport_only_io [THEN only_io_ctrl])+
qed

lemma unat_ucast_8_16: "unat (ucast (x :: u8) :: u16) = unat x"
proof -
  have "unat x < 2 ^ 16" using unsigned_less [where ?'a = nat, of x] by simp
  then show ?thesis by (simp add: unsigned_ucast_eq take_bit_nat_eq_self)
qed

lemma find_control_handler:
  "find_handler control_cport_handlers ty =
     Some (if 1 \<le> ty \<and> ty \<le> 6 then Some ([Gbctrl_get_version, Gbctrl_probe_ap, Gbctrl_get_manifest_size,
       Gbctrl_get_manifest, Gbctrl_connected, Gbctrl_disconnected] ! (unat ty - 1)) else None)"
proof -
  have u: "n = ucast ty \<longleftrightarrow> unat n = unat ty" for n :: u16
    by (simp add: word_unat_eq_iff unat_ucast_8_16)
  show ?thesis
  proof (cases "1 \<le> ty \<and> ty \<le> 6")
    case True
    then have "unat ty \<in> {1, 2, 3, 4, 5, 6}" by (auto simp: word_le_nat_alt)
    with True show ?thesis by (auto simp: control_cport_handlers_def u)
  next
    case False
    then have "\<not> (1 \<le> unat ty \<and> unat ty \<le> 6)" by (simp add: word_le_nat_alt)
    with False show ?thesis by (auto simp: control_cport_handlers_def u)
  qed
qed

lemma greybus_header_parse:
  assumes "8 + length payload < 2 ^ 16"
  shows "op_header_of (gb_message mid ty status payload) =
      \<lparr>op_size = word_of_nat (8 + length payload), op_id = mid, op_type = ty, op_status = status, op_padding = 0\<rparr> \<and>
    unat (op_size (op_header_of (gb_message mid ty status payload))) = length (gb_message mid ty status payload) \<and>
    drop 8 (gb_message mid ty status payload) = payload"
proof -
  let ?sz = "word_of_nat (8 + length payload) :: u16"
  let ?m = "gb_message mid ty status payload"
  have m: "?m = u16_bytes ?sz @ u16_bytes mid @ [ty, status] @ u16_bytes 0 @ payload"
    by (simp add: gb_message_def op_header_bytes_def)
  have "get_u16 ?m 0 = ?sz" "get_u16 ?m 2 = mid" "get_u16 ?m 6 = 0"
    using get_u16_u16_bytes [of "[]" ?sz] get_u16_u16_bytes [of "u16_bytes ?sz" mid]
      get_u16_u16_bytes [of "u16_bytes ?sz @ u16_bytes mid @ [ty, status]" 0 payload] by (simp_all add: m)
  moreover have "?m ! 4 = ty" "?m ! 5 = status" by (simp_all add: m nth_append)
  moreover have "unat ?sz = 8 + length payload"
    using assms by (simp only: unat_of_nat) (simp add: take_bit_nat_eq_self)
  ultimately show ?thesis by (simp add: op_header_of_def) (simp add: m)
qed

section \<open>Properties\<close>



text \<open>
  C19: The control CPort answers exactly the operations 1 to 6; any other operation type, like a
  message received with fewer bytes than a header has, makes the handler fail without any effect.
\<close>

theorem control_operations_exact:
  assumes "handler_table s CONTROL_CPORT = Some control_cport_handlers" "8 \<le> length buf"
  shows "common_cport_handler call CONTROL_CPORT buf len s =
    (case op_type (op_header_of buf) of ty \<Rightarrow>
       if 8 \<le> len \<and> 1 \<le> ty \<and> ty \<le> 6
       then call ([Gbctrl_get_version, Gbctrl_probe_ap, Gbctrl_get_manifest_size, Gbctrl_get_manifest,
              Gbctrl_connected, Gbctrl_disconnected] ! (unat ty - 1)) CONTROL_CPORT buf s
       else Ret (-1) s)"
proof -
  let ?ty = "op_type (op_header_of buf)"
  have f: "find_handler control_cport_handlers ?ty =
      Some (if 1 \<le> ?ty \<and> ?ty \<le> 6 then Some ([Gbctrl_get_version, Gbctrl_probe_ap, Gbctrl_get_manifest_size,
        Gbctrl_get_manifest, Gbctrl_connected, Gbctrl_disconnected] ! (unat ?ty - 1)) else None)"
    by (rule find_control_handler)
  show ?thesis
    using assms by (auto simp: common_cport_handler_def assert_or_fault_def skip_def return_def gets_def f)
qed

definition reset_gbcore :: gbcore where
  "reset_gbcore = tftf.extend reset_tftf \<lparr>handler_table = \<lambda>_. None, manifest_fetched = False\<rparr>"

theorem control_operations_exact_witness:
  "common_cport_handler (\<lambda>h _ _. return (if h = Gbctrl_get_manifest then 1 else 0)) CONTROL_CPORT
     (gb_message 3 4 0 []) 8
     (reset_gbcore\<lparr>handler_table := (\<lambda>_. None)(CONTROL_CPORT := Some control_cport_handlers)\<rparr>) =
   Ret 1 (reset_gbcore\<lparr>handler_table := (\<lambda>_. None)(CONTROL_CPORT := Some control_cport_handlers)\<rparr>)"
proof -
  let ?s = "reset_gbcore\<lparr>handler_table := (\<lambda>_. None)(CONTROL_CPORT := Some control_cport_handlers)\<rparr>"
  have "length (gb_message 3 4 0 []) = 8" "op_type (op_header_of (gb_message 3 4 0 [])) = 4"
    by (simp_all add: gb_message_def op_header_bytes_def op_header_of_def nth_append)
  with control_operations_exact [of ?s "gb_message 3 4 0 []"
      "\<lambda>h _ _. return (if h = Gbctrl_get_manifest then 1 else 0)" 8] show ?thesis
    by (simp add: return_def)
qed

end
