(* ===== verification/Gbboot.thy ===== *)
theory Gbboot
  imports Greybus
begin

text \<open>
  Boot over UniPro (\<^verbatim>\<open>common/src/gbboot.c\<close>, \<^verbatim>\<open>common/include/gbboot.h\<close>): the handlers of the boot
  protocol and the loader that fetches an image block by block. A response of the other side is
  stored through the pointer \<^verbatim>\<open>fw_get_firmware_buff.buffer\<close>, which outlives the load that set it. While
  a load is in progress the contents of its destination are the field \<open>load_buf\<close>, which the load
  returns to its caller; a store at any other time goes to the object the pointer was left at. The
  loader is proved to satisfy the contract of \<^verbatim>\<open>data_loading.h\<close>, so everything proved of the image
  loader holds for images received over UniPro too.
\<close>

section \<open>State\<close>

abbreviation (input) "GB_BOOT_OP_INVALID \<equiv> 0 :: u8"
abbreviation (input) "GB_BOOT_OP_PROTOCOL_VERSION \<equiv> 1 :: u8"
abbreviation (input) "GB_BOOT_OP_FIRMWARE_SIZE \<equiv> 2 :: u8"
abbreviation (input) "GB_BOOT_OP_GET_FIRMWARE \<equiv> 3 :: u8"
abbreviation (input) "GB_BOOT_OP_READY_TO_BOOT \<equiv> 4 :: u8"
abbreviation (input) "GB_BOOT_OP_AP_READY \<equiv> 5 :: u8"
abbreviation (input) "GB_BOOT_OP_GET_VID_PID \<equiv> 6 :: u8"
abbreviation (input) "GB_BOOT_BOOT_STATUS_INVALID \<equiv> 0 :: u8"
abbreviation (input) "GB_BOOT_BOOT_STATUS_INSECURE \<equiv> 1 :: u8"
abbreviation (input) "GB_BOOT_BOOT_STATUS_SECURE \<equiv> 2 :: u8"
abbreviation (input) "GB_BOOT_ERR_INVALID \<equiv> -1 :: int"
abbreviation (input) "GB_FIRMWARE_VERSION_MAJOR \<equiv> 0 :: u8"
abbreviation (input) "GB_FIRMWARE_VERSION_MINOR \<equiv> 1 :: u8"
abbreviation (input) "BRE_BOU_GBBOOT_FW_TOO_LARGE \<equiv> 0x89 :: u32"
abbreviation (input) "ENODEV \<equiv> 19 :: int"
abbreviation (input) "WORKRAM_SIZE \<equiv> 0x30000 :: u32"
abbreviation (input) "GBBOOT_CPORT \<equiv> 1 :: u32"

record gbboot = gbcore +
  responded_op :: u8
  firmware_size_response :: u32
  fw_buff_where :: load_dest
  fw_buff_off :: nat
  fw_buff_size :: u32
  load_active :: bool
  load_buf :: bytes
  temp_buf :: bytes
  gb_offset :: u32
  firmware_size :: u32

section \<open>Handlers\<close>

definition gbboot_get_version :: "env \<Rightarrow> u32 \<Rightarrow> bytes \<Rightarrow> ('a gbboot_scheme, int) prog" where
  "gbboot_get_version E cportid buf =
     greybus_op_response E cportid (op_header_of buf) GB_OP_SUCCESS
       [GB_FIRMWARE_VERSION_MAJOR, GB_FIRMWARE_VERSION_MINOR]"

definition gbboot_get_vid_pid :: "env \<Rightarrow> u32 \<Rightarrow> bytes \<Rightarrow> ('a gbboot_scheme, int) prog" where
  "gbboot_get_vid_pid E cportid buf =
     bind (gets (\<lambda>s. u32_bytes (ara_vid s) @ u32_bytes (ara_pid s))) (\<lambda>response.
     greybus_op_response E cportid (op_header_of buf) GB_OP_SUCCESS response)"

definition gbboot_ap_ready :: "env \<Rightarrow> u32 \<Rightarrow> bytes \<Rightarrow> ('a gbboot_scheme, int) prog" where
  "gbboot_ap_ready E cportid buf =
     bind (greybus_op_response E cportid (op_header_of buf) GB_OP_SUCCESS []) (\<lambda>rc.
     return (if rc \<noteq> 0 then rc else 1))"

text \<open>The payload length a response claims to have, in 32 bits.\<close>

definition response_len :: "bytes \<Rightarrow> u32" where
  "response_len buf = ucast (op_size (op_header_of buf)) - 8"

definition gbboot_firmware_size_response :: "bytes \<Rightarrow> ('a gbboot_scheme, int) prog" where
  "gbboot_firmware_size_response buf =
     (let op = op_header_of buf
      in if op_status op \<noteq> 0 then return (- int (unat (op_status op)))
         else if response_len buf < 4 then return GB_BOOT_ERR_INVALID
         else
           bind (assert_or_fault (12 \<le> length buf)) (\<lambda>_.
           bind (modify (\<lambda>s. s\<lparr>firmware_size_response := get_u32 buf 8\<rparr>)) (\<lambda>_.
           return 1)))"

text \<open>A store through the buffer pointer when no load is in progress.\<close>

definition stale_store :: "bytes \<Rightarrow> ('a gbboot_scheme, unit) prog" where
  "stale_store bs =
     bind get_state (\<lambda>s.
     let off = fw_buff_off s
     in case fw_buff_where s of
          To_ram a \<Rightarrow> modify (\<lambda>s. s\<lparr>ram := store_ram (a + word_of_nat off) bs (ram s)\<rparr>)
        | To_header o' \<Rightarrow>
            bind (assert_or_fault (fits (tftf_header s) (o' + off) bs)) (\<lambda>_.
            modify (\<lambda>s. s\<lparr>tftf_header := put_bytes (tftf_header s) (o' + off) bs\<rparr>))
        | To_signature \<Rightarrow>
            bind (assert_or_fault (fits (tftf_sig s) off bs)) (\<lambda>_.
            modify (\<lambda>s. s\<lparr>tftf_sig := put_bytes (tftf_sig s) off bs\<rparr>))
        | To_temp \<Rightarrow> assert_or_fault (bs = []))"

definition store_firmware :: "bytes \<Rightarrow> ('a gbboot_scheme, unit) prog" where
  "store_firmware bs =
     bind get_state (\<lambda>s.
     if load_active s then
       bind (assert_or_fault (fits (load_buf s) (fw_buff_off s) bs)) (\<lambda>_.
       modify (\<lambda>s. s\<lparr>load_buf := put_bytes (load_buf s) (fw_buff_off s) bs\<rparr>))
     else stale_store bs)"

definition gbboot_get_firmware_response :: "bytes \<Rightarrow> ('a gbboot_scheme, int) prog" where
  "gbboot_get_firmware_response buf =
     (let op = op_header_of buf
      in if op_status op \<noteq> 0 then return (- int (unat (op_status op)))
         else
           bind (gets fw_buff_size) (\<lambda>size.
           if ucast (op_size op) - 8 \<noteq> response_len buf \<or> response_len buf \<noteq> size then return GB_BOOT_ERR_INVALID
           else
             bind (assert_or_fault (8 + unat size \<le> length buf)) (\<lambda>_.
             bind (store_firmware (slice 8 (unat size) buf)) (\<lambda>_.
             return 1))))"

definition gbboot_ready_to_boot_response :: "bytes \<Rightarrow> ('a gbboot_scheme, int) prog" where
  "gbboot_ready_to_boot_response buf =
     (let op = op_header_of buf
      in return (if op_status op \<noteq> 0 then - int (unat (op_status op)) else 1))"

text \<open>The three response handlers note which operation was answered.\<close>

definition note_response :: "bytes \<Rightarrow> ('a gbboot_scheme, int) prog \<Rightarrow> ('a gbboot_scheme, int) prog" where
  "note_response buf m =
     bind (modify (\<lambda>s. s\<lparr>responded_op := op_type (op_header_of buf)\<rparr>)) (\<lambda>_. m)"

definition firmware_size_response_handler :: "bytes \<Rightarrow> ('a gbboot_scheme, int) prog" where
  "firmware_size_response_handler buf = note_response buf (gbboot_firmware_size_response buf)"

definition get_firmware_response_handler :: "bytes \<Rightarrow> ('a gbboot_scheme, int) prog" where
  "get_firmware_response_handler buf = note_response buf (gbboot_get_firmware_response buf)"

definition ready_to_boot_response_handler :: "bytes \<Rightarrow> ('a gbboot_scheme, int) prog" where
  "ready_to_boot_response_handler buf = note_response buf (gbboot_ready_to_boot_response buf)"

definition gbboot_cport_handlers :: "greybus_op_handler list" where
  "gbboot_cport_handlers =
     [(ucast GB_BOOT_OP_PROTOCOL_VERSION, Some Gbboot_get_version),
      (ucast (GB_BOOT_OP_FIRMWARE_SIZE OR GB_TYPE_RESPONSE), Some Firmware_size_response_handler),
      (ucast (GB_BOOT_OP_GET_FIRMWARE OR GB_TYPE_RESPONSE), Some Get_firmware_response_handler),
      (ucast (GB_BOOT_OP_READY_TO_BOOT OR GB_TYPE_RESPONSE), Some Ready_to_boot_response_handler),
      (ucast GB_BOOT_OP_AP_READY, Some Gbboot_ap_ready),
      (ucast GB_BOOT_OP_GET_VID_PID, Some Gbboot_get_vid_pid),
      (HANDLER_TABLE_END, None)]"

text \<open>Calls through the handler pointers.\<close>

fun gbboot_call :: "env \<Rightarrow> 'a gbboot_scheme handler_call" where
  "gbboot_call E Gbctrl_get_version c buf = gbctrl_get_version E c buf"
| "gbboot_call E Gbctrl_probe_ap c buf = gbctrl_probe_ap E c buf"
| "gbboot_call E Gbctrl_get_manifest_size c buf = gbctrl_get_manifest_size E c buf"
| "gbboot_call E Gbctrl_get_manifest c buf = gbctrl_get_manifest E c buf"
| "gbboot_call E Gbctrl_connected c buf = gbctrl_connected E c buf"
| "gbboot_call E Gbctrl_disconnected c buf = gbctrl_disconnected E c buf"
| "gbboot_call E Gbboot_get_version c buf = gbboot_get_version E c buf"
| "gbboot_call E Firmware_size_response_handler c buf = firmware_size_response_handler buf"
| "gbboot_call E Get_firmware_response_handler c buf = get_firmware_response_handler buf"
| "gbboot_call E Ready_to_boot_response_handler c buf = ready_to_boot_response_handler buf"
| "gbboot_call E Gbboot_ap_ready c buf = gbboot_ap_ready E c buf"
| "gbboot_call E Gbboot_get_vid_pid c buf = gbboot_get_vid_pid E c buf"
| "gbboot_call E (Spi_gb _) c buf = stop_with Fault"

definition gbboot_loop :: "env \<Rightarrow> ('a gbboot_scheme, int) prog" where
  "gbboot_loop E = greybus_loop E (gbboot_call E)"

section \<open>Requests\<close>

text \<open>\<^verbatim>\<open>*size\<close> is the file's own variable \<^verbatim>\<open>firmware_size\<close> in the only call.\<close>

definition gbboot_firmware_size :: "env \<Rightarrow> u8 \<Rightarrow> ('a gbboot_scheme, int) prog" where
  "gbboot_firmware_size E stage =
     bind (greybus_send_request E GBBOOT_CPORT 1 GB_BOOT_OP_FIRMWARE_SIZE [stage]) (\<lambda>rc.
     if rc \<noteq> 0 then return rc
     else
       bind (gbboot_loop E) (\<lambda>rc.
       if rc \<noteq> 0 then return rc
       else bind (modify (\<lambda>s. s\<lparr>firmware_size := firmware_size_response s\<rparr>)) (\<lambda>_. return 0)))"

text \<open>
  \<open>pos\<close> is where in the destination the block goes; the \<open>prev_len\<close> bytes before it are hashed while
  the answer is awaited.
\<close>

definition gbboot_get_firmware ::
    "env \<Rightarrow> u32 \<Rightarrow> u32 \<Rightarrow> load_dest \<Rightarrow> nat \<Rightarrow> nat \<Rightarrow> ('a gbboot_scheme, int) prog" where
  "gbboot_get_firmware E off sz dst pos prev_len =
     bind (greybus_send_request E GBBOOT_CPORT 1 GB_BOOT_OP_GET_FIRMWARE (u32_bytes off @ u32_bytes sz)) (\<lambda>rc.
     if rc \<noteq> 0 then return rc
     else
       bind (gets load_buf) (\<lambda>b.
       bind (if prev_len > 0 then hash_update (slice (pos - prev_len) prev_len b) else skip) (\<lambda>_.
       bind (modify (\<lambda>s. s\<lparr>fw_buff_where := dst, fw_buff_off := pos, fw_buff_size := sz\<rparr>)) (\<lambda>_.
       bind (gbboot_loop E) (\<lambda>rc.
       if rc \<noteq> 0 then return rc
       else
         bind (gets responded_op) (\<lambda>r.
         return (if r \<noteq> GB_BOOT_OP_GET_FIRMWARE OR GB_TYPE_RESPONSE then - ENODEV else 0)))))))"

definition gbboot_ready_to_boot :: "env \<Rightarrow> u8 \<Rightarrow> ('a gbboot_scheme, int) prog" where
  "gbboot_ready_to_boot E status =
     bind (greybus_send_request E GBBOOT_CPORT 1 GB_BOOT_OP_READY_TO_BOOT [status]) (\<lambda>rc.
     if rc \<noteq> 0 then return rc else gbboot_loop E)"

section \<open>The loader\<close>

definition data_load_greybus_init :: "env \<Rightarrow> ('a gbboot_scheme, int) prog" where
  "data_load_greybus_init E =
     bind (modify (\<lambda>s. s\<lparr>gb_offset := 0\<rparr>)) (\<lambda>_.
     bind (greybus_register_handlers GBBOOT_CPORT gbboot_cport_handlers) (\<lambda>_.
     bind (gbboot_loop E) (\<lambda>rc.
     if rc \<noteq> 0 then bind (set_last_error E BRE_BOU_GBBOOT_CPORT) (\<lambda>_. return rc)
     else
       bind (gbboot_firmware_size E (word_of_nat (boot_stage E + 1))) (\<lambda>rc.
       if rc \<noteq> 0 then bind (set_last_error E BRE_BOU_GBBOOT_FW_SIZE) (\<lambda>_. return rc)
       else
         bind (gets firmware_size) (\<lambda>sz.
         if sz > WORKRAM_SIZE then bind (set_last_error E BRE_BOU_GBBOOT_FW_TOO_LARGE) (\<lambda>_. return (- EINVAL))
         else return 0)))))"

text \<open>What a destination holds when a load to it starts.\<close>

definition dest_contents :: "load_dest \<Rightarrow> nat \<Rightarrow> 'a gbboot_scheme \<Rightarrow> bytes" where
  "dest_contents dst n s =
     (case dst of
        To_ram a \<Rightarrow> map (\<lambda>i. ram s (a + word_of_nat i)) [0..<n]
      | To_header off \<Rightarrow> slice off n (tftf_header s)
      | To_signature \<Rightarrow> take n (tftf_sig s)
      | To_temp \<Rightarrow> take n (temp_buf s))"

text \<open>
  The loop of \<^verbatim>\<open>data_load_greybus_load\<close> from position \<open>pos\<close> of the destination on, with \<open>len\<close> bytes to go,
  and the hashing of the last block behind it.
\<close>

function load_blocks :: "env \<Rightarrow> load_dest \<Rightarrow> u32 \<Rightarrow> bool \<Rightarrow> nat \<Rightarrow> nat \<Rightarrow> ('a gbboot_scheme, int) prog" where
  "load_blocks E dst len hash pos prev_len =
     (if len = 0 then
        bind (gets load_buf) (\<lambda>b.
        bind (if hash then hash_update (slice (pos - prev_len) prev_len b) else skip) (\<lambda>_.
        return 0))
      else
        (let blk_len = (if len > GB_MAX_PAYLOAD_SIZE then GB_MAX_PAYLOAD_SIZE else len)
         in bind (gets gb_offset) (\<lambda>off.
            bind (gbboot_get_firmware E off blk_len dst pos prev_len) (\<lambda>rc.
            if rc \<noteq> 0 then bind (set_last_error E BRE_BOU_GBBOOT_GET_FW) (\<lambda>_. return rc)
            else
              bind (modify (\<lambda>s. s\<lparr>gb_offset := gb_offset s + blk_len\<rparr>)) (\<lambda>_.
              load_blocks E dst (len - blk_len) hash (pos + unat blk_len) (if hash then unat blk_len else prev_len))))))"
  by pat_completeness auto
termination
  by (relation "measure (\<lambda>(_, _, len, _, _, _). unat len)")
    (auto simp: word_less_nat_alt unat_sub_if' unat_gt_0)

declare load_blocks.simps [simp del]

definition data_load_greybus_load :: "env \<Rightarrow> load_dest \<Rightarrow> u32 \<Rightarrow> bool \<Rightarrow> ('a gbboot_scheme, int \<times> bytes) prog" where
  "data_load_greybus_load E dst len hash =
     bind get_state (\<lambda>s.
     if gb_offset s + len > firmware_size s then return (GB_BOOT_ERR_INVALID, [])
     else
       bind (assert_or_fault (length (dest_contents dst (unat len) s) = unat len)) (\<lambda>_.
       bind (modify (\<lambda>s. s\<lparr>load_active := True, load_buf := dest_contents dst (unat len) s\<rparr>)) (\<lambda>_.
       bind (load_blocks E dst len hash 0 0) (\<lambda>rc.
       bind (gets load_buf) (\<lambda>b.
       bind (modify (\<lambda>s. s\<lparr>load_active := False, temp_buf := (if dst = To_temp then put_bytes (temp_buf s) 0 b else temp_buf s)\<rparr>)) (\<lambda>_.
       return (rc, b)))))))"

definition data_load_greybus_finish :: "env \<Rightarrow> bool \<Rightarrow> bool \<Rightarrow> ('a gbboot_scheme, int) prog" where
  "data_load_greybus_finish E valid is_secure_image =
     (let status = (if valid \<and> is_secure_image then GB_BOOT_BOOT_STATUS_SECURE
                    else if valid then GB_BOOT_BOOT_STATUS_INSECURE else GB_BOOT_BOOT_STATUS_INVALID)
      in bind (gbboot_ready_to_boot E status) (\<lambda>rc.
         bind (if rc \<noteq> 0 then set_last_error E BRE_BOU_GBBOOT_READY else skip) (\<lambda>_.
         bind (modify (\<lambda>s. s\<lparr>firmware_size := -1, gb_offset := -1\<rparr>)) (\<lambda>_.
         return rc))))"

definition greybus_ops :: "env \<Rightarrow> 'a gbboot_scheme data_load_ops" where
  "greybus_ops E = \<lparr>ops_init = data_load_greybus_init E, ops_read = None,
     ops_load = data_load_greybus_load E, ops_finish = data_load_greybus_finish E\<rparr>"

section \<open>What happens while a load is in progress\<close>

text \<open>
  From \<open>s\<close>, with a load in progress, to \<open>t\<close>: everything the image loader relies on, the hash and the
  loader's own bookkeeping is as before, and the destination before the current block is as before.
\<close>

definition block_rel :: "'a gbboot_scheme \<Rightarrow> 'a gbboot_scheme \<Rightarrow> bool" where
  "block_rel s t \<longleftrightarrow>
     (load_active s \<longrightarrow>
        load_active t \<and> tftf_quiet s t \<and> fw_buff_off t = fw_buff_off s \<and> fw_buff_where t = fw_buff_where s \<and>
        fw_buff_size t = fw_buff_size s \<and> gb_offset t = gb_offset s \<and> firmware_size t = firmware_size s \<and>
        length (load_buf t) = length (load_buf s) \<and>
        take (fw_buff_off s) (load_buf t) = take (fw_buff_off s) (load_buf s))"

interpretation block_rel: state_rel block_rel
  by unfold_locales (auto simp: block_rel_def tftf_quiet_def tftf_frame_def)

lemma only_errs_block: "only_errs s t \<Longrightarrow> block_rel s t"
  using only_errs_quiet [of s t] by (auto simp: block_rel_def only_errs_def)

lemma only_io_block: "only_io s t \<Longrightarrow> block_rel s (t :: 'a gbboot_scheme)"
  by (rule only_errs_block) (rule only_io_only_errs)

lemma ctrl_effect_block: "ctrl_effect s t \<Longrightarrow> block_rel s (t :: 'a gbboot_scheme)"
  by (auto simp: ctrl_effect_def block_rel_def tftf_quiet_def tftf_frame_def crypto_ready_def)

lemma block_modifies:
  "preserves block_rel (modify (\<lambda>s. s\<lparr>responded_op := r\<rparr>))"
  "preserves block_rel (modify (\<lambda>s. s\<lparr>firmware_size_response := x\<rparr>))"
  by (rule block_rel.pres_modify, simp add: block_rel_def tftf_quiet_def tftf_frame_def crypto_ready_def)+

lemma store_firmware_block: "preserves block_rel (store_firmware bs)"
proof (rule preservesI)
  fix s :: "'a gbboot_scheme"
  show "block_rel s (outcome_state (store_firmware bs s))"
    by (auto simp: store_firmware_def block_rel_def get_state_def assert_or_fault_def skip_def return_def stop_with_def
        modify_def tftf_quiet_def tftf_frame_def crypto_ready_def fits_def take_put_bytes_below)
qed

lemma pres_mono: "preserves Q m \<Longrightarrow> (\<And>s t. Q s t \<Longrightarrow> R s t) \<Longrightarrow> preserves R m"
  by (auto simp: preserves_def)

lemma gbboot_call_block: "preserves block_rel (gbboot_call E handler c buf)"
proof -
  have io: "preserves block_rel m" if "preserves only_io m" for m :: "('a gbboot_scheme, 'b) prog"
    using that only_io_block by (rule pres_mono)
  have ctrl: "preserves block_rel m" if "preserves ctrl_effect m" for m :: "('a gbboot_scheme, 'b) prog"
    using that ctrl_effect_block by (rule pres_mono)
  note r = block_rel.pres_intros io [OF greybus_only_io(2)] block_modifies store_firmware_block
  show ?thesis
    by (cases handler)
      (auto intro!: ctrl_handlers_effect [THEN ctrl] r
        simp: gbboot_get_version_def gbboot_get_vid_pid_def gbboot_ap_ready_def firmware_size_response_handler_def
          get_firmware_response_handler_def ready_to_boot_response_handler_def note_response_def
          gbboot_firmware_size_response_def gbboot_get_firmware_response_def gbboot_ready_to_boot_response_def)
qed

interpretation gbboot_frame: handler_frame block_rel "gbboot_call E" for E
  by unfold_locales (rule only_io_block, assumption, rule gbboot_call_block)

text \<open>The part of the relation that does not depend on the current block.\<close>

definition blocks_rel :: "nat \<Rightarrow> 'a gbboot_scheme \<Rightarrow> 'a gbboot_scheme \<Rightarrow> bool" where
  "blocks_rel pos s t \<longleftrightarrow>
     load_active t \<and> tftf_frame s t \<and> length (load_buf t) = length (load_buf s) \<and>
     take pos (load_buf t) = take pos (load_buf s)"

lemma blocks_rel_trans:
  assumes "blocks_rel pos s t" "blocks_rel pos' t u" "pos \<le> pos'"
  shows "blocks_rel pos s u"
proof -
  have "take pos (load_buf u) = take pos (take pos' (load_buf u))" using assms(3) by (simp add: min_absorb1)
  also have "\<dots> = take pos (take pos' (load_buf t))" using assms(2) by (simp add: blocks_rel_def)
  also have "\<dots> = take pos (load_buf s)" using assms(1,3) by (simp add: blocks_rel_def min_absorb1)
  finally show ?thesis using assms by (auto simp: blocks_rel_def intro: tftf_frame_trans)
qed

lemma only_errs_blocks: "only_errs s t \<Longrightarrow> load_active s \<Longrightarrow> blocks_rel pos s t"
  using only_errs_quiet [of s t] by (auto simp: blocks_rel_def only_errs_def tftf_quiet_def)

lemma slice_take: "off + n \<le> p \<Longrightarrow> slice off n xs = slice off n (take p xs)"
  by (simp add: slice_def drop_take)

lemma slice_take_eq:
  assumes "take p xs = take p ys" "off + n \<le> p"
  shows "slice off n xs = slice off n ys"
  using slice_take [OF assms(2), of xs] slice_take [OF assms(2), of ys] assms(1) by simp

lemma slice_append_drop:
  assumes "n \<le> p"
  shows "slice (p - n) n xs @ drop p xs = drop (p - n) xs"
proof -
  have "drop p xs = drop n (drop (p - n) xs)" using assms by simp
  then show ?thesis by (simp only: slice_def append_take_drop_id)
qed

lemma slice_0 [simp]: "slice off 0 xs = []"
  by (simp add: slice_def)

text \<open>One request: the bytes before the block are hashed if asked for, and stay as they are.\<close>

lemma get_firmware_run:
  assumes "gbboot_get_firmware E off sz dst pos prev_len s = Ret rc t" "load_active s"
  shows "blocks_rel pos s t" "gb_offset t = gb_offset s" "firmware_size t = firmware_size s"
    "hash_fed d s \<Longrightarrow> rc = 0 \<Longrightarrow> hash_fed (d @ slice (pos - prev_len) prev_len (load_buf s)) t"
    "prev_len = 0 \<Longrightarrow> crypto_ready s \<Longrightarrow> crypto_ready t"
proof -
  let ?req = "greybus_send_request E GBBOOT_CPORT 1 GB_BOOT_OP_GET_FIRMWARE (u32_bytes off @ u32_bytes sz)"
  let ?prev = "slice (pos - prev_len) prev_len (load_buf s)"
  obtain rc1 s1 where s1: "?req s = Ret rc1 s1"
    using assms(1) by (auto simp: gbboot_get_firmware_def elim!: bind_eq_RetE)
  obtain ev where ev: "s1 = s\<lparr>io := ev @ io s\<rparr>" using only_io_RetD [OF greybus_only_io(1) s1] by blast
  have f1: "hash_fed e s1 = hash_fed e s" "crypto_ready s1 = crypto_ready s" for e
    by (simp_all add: ev hash_fed_def crypto_ready_def)
  have frame: "blocks_rel pos s t \<and> gb_offset t = gb_offset s \<and> firmware_size t = firmware_size s \<and>
      (hash_fed d s \<and> rc = 0 \<longrightarrow> hash_fed (d @ ?prev) t) \<and> (prev_len = 0 \<and> crypto_ready s \<longrightarrow> crypto_ready t)"
  proof (cases "rc1 = 0")
    case False
    with assms s1 have "t = s1" "rc \<noteq> 0" by (auto simp: gbboot_get_firmware_def return_def)
    with assms(2) ev f1 show ?thesis by (auto simp: blocks_rel_def tftf_frame_def)
  next
    case True
    let ?hash = "if prev_len > 0 then hash_update ?prev else skip"
    have lb: "load_buf s1 = load_buf s" by (simp add: ev)
    from assms(1) s1 True lb obtain s2 rc3 s3 where
      s2: "?hash s1 = Ret () s2" and
      s3: "gbboot_loop E (s2\<lparr>fw_buff_where := dst, fw_buff_off := pos, fw_buff_size := sz\<rparr>) = Ret rc3 s3" and
      t: "t = s3"
      by (auto simp: gbboot_get_firmware_def gets_def modify_def return_def elim!: bind_eq_RetE split: if_splits)
    have "\<exists>sh. s2 = s1\<lparr>shctx := sh\<rparr>"
    proof (cases "prev_len > 0")
      case True
      with s2 hash_update_effect show ?thesis by auto
    next
      case False
      with s2 have "s2 = s1\<lparr>shctx := shctx s1\<rparr>" by (simp add: skip_def return_def)
      then show ?thesis ..
    qed
    then obtain sh where sh: "s2 = s1\<lparr>shctx := sh\<rparr>" ..
    have fed: "hash_fed d s1 \<longrightarrow> hash_fed (d @ ?prev) s2"
      using s2 hash_update_run [of d s1 ?prev] by (auto simp: skip_def return_def split: if_splits)
    have ready: "prev_len = 0 \<and> crypto_ready s1 \<longrightarrow> crypto_ready s2" using s2 by (auto simp: skip_def return_def)
    let ?s2 = "s2\<lparr>fw_buff_where := dst, fw_buff_off := pos, fw_buff_size := sz\<rparr>"
    have "block_rel ?s2 s3"
      using s3 gbboot_frame.loop_pres unfolding gbboot_loop_def by (rule preserves_RetD [rotated])
    then have b: "load_active s3" "tftf_quiet ?s2 s3" "gb_offset s3 = gb_offset s" "firmware_size s3 = firmware_size s"
      "length (load_buf s3) = length (load_buf s)" "take pos (load_buf s3) = take pos (load_buf s)"
      using assms(2) by (auto simp: block_rel_def sh ev)
    have "hash_fed e s3 = hash_fed e s2" "crypto_ready s3 = crypto_ready s2" for e
      using b(2) by (auto simp: tftf_quiet_def hash_fed_def crypto_ready_def)
    moreover have "tftf_frame s s3" using b(2) by (auto simp: tftf_quiet_def tftf_frame_def sh ev)
    ultimately show ?thesis using b fed ready f1 t by (auto simp: blocks_rel_def)
  qed
  then show "blocks_rel pos s t" "gb_offset t = gb_offset s" "firmware_size t = firmware_size s"
    "hash_fed d s \<Longrightarrow> rc = 0 \<Longrightarrow> hash_fed (d @ ?prev) t" "prev_len = 0 \<Longrightarrow> crypto_ready s \<Longrightarrow> crypto_ready t"
    by blast+
qed

lemma load_blocks_run:
  assumes "load_blocks E dst len h pos prev_len s = Ret rc t" "load_active s"
    and "pos + unat len = length (load_buf s)" "prev_len \<le> pos" "\<not> h \<longrightarrow> prev_len = 0"
  shows "blocks_rel pos s t \<and>
    (hash_fed d s \<and> rc = 0 \<longrightarrow> hash_fed (if h then d @ drop (pos - prev_len) (load_buf t) else d) t) \<and>
    (\<not> h \<and> crypto_ready s \<longrightarrow> crypto_ready t) \<and> (rc = 0 \<longrightarrow> gb_offset t = gb_offset s + len)"
  using assms
proof (induction "unat len" arbitrary: len pos prev_len s d rule: less_induct)
  case less
  show ?case
  proof (cases "len = 0")
    case True
    let ?prev = "slice (pos - prev_len) prev_len (load_buf s)"
    from less.prems(1) True have "rc = 0" and h: "(if h then hash_update ?prev else skip) s = Ret () t"
      by (auto simp: load_blocks.simps gets_def return_def elim!: bind_eq_RetE split: if_splits)
    have prev: "?prev = drop (pos - prev_len) (load_buf s)" using less.prems(3,4) True by (simp add: slice_def)
    show ?thesis
    proof (cases h)
      case True
      with h have u: "hash_update ?prev s = Ret () t" by simp
      from hash_update_effect [OF this] obtain sh where "t = s\<lparr>shctx := sh\<rparr>" by blast
      with less.prems(2) have "blocks_rel pos s t" "load_buf t = load_buf s" "gb_offset t = gb_offset s"
        by (auto simp: blocks_rel_def tftf_frame_def)
      moreover have "hash_fed (d @ ?prev) t" if "hash_fed d s" using hash_update_run [OF that, of ?prev] u by simp
      ultimately show ?thesis using prev True \<open>len = 0\<close> by auto
    next
      case False
      with h have "t = s" by (simp add: skip_def return_def)
      with less.prems(2) False \<open>len = 0\<close> show ?thesis by (auto simp: blocks_rel_def tftf_frame.refl)
    qed
  next
    case False
    let ?blk = "if len > GB_MAX_PAYLOAD_SIZE then GB_MAX_PAYLOAD_SIZE else len"
    have blk: "unat len = unat ?blk + unat (len - ?blk)" "0 < unat ?blk" "?blk \<noteq> 0"
      using False by (auto simp: unat_sub word_less_nat_alt word_le_nat_alt unat_gt_0)
    let ?rest = "\<lambda>r. if r \<noteq> 0 then bind (set_last_error E BRE_BOU_GBBOOT_GET_FW) (\<lambda>_. return r)
      else bind (modify (\<lambda>s. s\<lparr>gb_offset := gb_offset s + ?blk\<rparr>)) (\<lambda>_.
        load_blocks E dst (len - ?blk) h (pos + unat ?blk) (if h then unat ?blk else prev_len))"
    have "bind (gbboot_get_firmware E (gb_offset s) ?blk dst pos prev_len) ?rest s = Ret rc t"
      using less.prems(1) False by (subst (asm) load_blocks.simps) (simp add: gets_def Let_def)
    then obtain r u where u: "gbboot_get_firmware E (gb_offset s) ?blk dst pos prev_len s = Ret r u" "?rest r u = Ret rc t"
      by (rule bind_eq_RetE)
    note g = get_firmware_run [OF u(1) less.prems(2)]
    have au: "load_active u" "length (load_buf u) = length (load_buf s)" using g(1) by (auto simp: blocks_rel_def)
    show ?thesis
    proof (cases "r = 0")
      case False
      with u(2) have "only_errs u t" "rc = r"
        by (auto simp: return_def elim!: bind_eq_RetE dest: preserves_RetD [OF set_last_error_only_errs])
      then have "blocks_rel pos s t" "\<not> h \<and> crypto_ready s \<longrightarrow> crypto_ready t"
        using blocks_rel_trans [OF g(1) only_errs_blocks] au(1) g(5) less.prems(5) only_errs_quiet [of u t]
        by (auto simp: tftf_quiet_def)
      with False \<open>rc = r\<close> show ?thesis by auto
    next
      case True
      let ?u = "u\<lparr>gb_offset := gb_offset u + ?blk\<rparr>" and ?prev' = "if h then unat ?blk else prev_len"
      from u(2) True have t: "load_blocks E dst (len - ?blk) h (pos + unat ?blk) ?prev' ?u = Ret rc t"
        by (simp add: modify_def)
      have su: "blocks_rel pos s ?u" using g(1) by (auto simp: blocks_rel_def tftf_frame_def)
      let ?d = "d @ slice (pos - prev_len) prev_len (load_buf s)"
      have "unat (len - ?blk) < unat len" using blk by linarith
      from less.hyps [OF this t, of ?d] au less.prems(3,5) blk(1) have
        ih: "blocks_rel (pos + unat ?blk) ?u t"
          "hash_fed ?d ?u \<and> rc = 0 \<longrightarrow> hash_fed (if h then ?d @ drop (pos + unat ?blk - ?prev') (load_buf t) else ?d) t"
          "\<not> h \<and> crypto_ready ?u \<longrightarrow> crypto_ready t" "rc = 0 \<longrightarrow> gb_offset t = gb_offset ?u + (len - ?blk)"
        by auto
      have st: "blocks_rel pos s t" by (rule blocks_rel_trans [OF su ih(1)]) simp
      then have "slice (pos - prev_len) prev_len (load_buf s) = slice (pos - prev_len) prev_len (load_buf t)"
        using less.prems(4) by (intro slice_take_eq [of pos]) (auto simp: blocks_rel_def)
      then have cat: "slice (pos - prev_len) prev_len (load_buf s) @ drop pos (load_buf t) = drop (pos - prev_len) (load_buf t)"
        using less.prems(4) by (simp add: slice_append_drop)
      have fu: "hash_fed e ?u = hash_fed e u" "crypto_ready ?u = crypto_ready u" for e
        by (simp_all add: hash_fed_def crypto_ready_def)
      have "hash_fed (if h then d @ drop (pos - prev_len) (load_buf t) else d) t" if "hash_fed d s" "rc = 0"
        using ih(2) g(4) [OF that(1) True] that(2) less.prems(5) fu cat by (cases h) auto
      moreover have "crypto_ready t" if "\<not> h" "crypto_ready s"
        using ih(3) g(5) that less.prems(5) fu by auto
      moreover have "gb_offset t = gb_offset s + len" if "rc = 0" using ih(4) that g(2) by simp
      ultimately show ?thesis using st by blast
    qed
  qed
qed

text \<open>A whole load.\<close>

lemma greybus_load_run:
  assumes "data_load_greybus_load E dst n h s = Ret (rc, bs) t"
  shows "tftf_frame s t" "rc = 0 \<Longrightarrow> length bs = unat n"
    "hash_fed d s \<Longrightarrow> rc = 0 \<Longrightarrow> hash_fed (if h then d @ bs else d) t"
    "\<not> h \<Longrightarrow> crypto_ready s \<Longrightarrow> crypto_ready t"
    "rc = 0 \<Longrightarrow> gb_offset t = gb_offset s + n \<and> \<not> load_active t"
proof -
  have "tftf_frame s t \<and> (rc = 0 \<longrightarrow> length bs = unat n) \<and>
    (hash_fed d s \<and> rc = 0 \<longrightarrow> hash_fed (if h then d @ bs else d) t) \<and>
    (\<not> h \<and> crypto_ready s \<longrightarrow> crypto_ready t) \<and> (rc = 0 \<longrightarrow> gb_offset t = gb_offset s + n \<and> \<not> load_active t)"
  proof (cases "gb_offset s + n > firmware_size s")
    case True
    with assms have "t = s" "rc \<noteq> 0" by (auto simp: data_load_greybus_load_def get_state_def return_def)
    then show ?thesis by (simp add: tftf_frame.refl)
  next
    case False
    let ?c = "dest_contents dst (unat n) s"
    let ?s = "s\<lparr>load_active := True, load_buf := ?c\<rparr>"
    from assms False obtain u where c: "length ?c = unat n" and u: "load_blocks E dst n h 0 0 ?s = Ret rc u"
      and t: "bs = load_buf u" "t = u\<lparr>load_active := False,
        temp_buf := (if dst = To_temp then put_bytes (temp_buf u) 0 (load_buf u) else temp_buf u)\<rparr>"
      by (auto simp: data_load_greybus_load_def get_state_def gets_def modify_def return_def assert_or_fault_def
          skip_def stop_with_def elim!: bind_eq_RetE split: if_splits)
    from load_blocks_run [OF u, of d] c have
      b: "blocks_rel 0 ?s u" "hash_fed d ?s \<and> rc = 0 \<longrightarrow> hash_fed (if h then d @ load_buf u else d) u"
        "\<not> h \<and> crypto_ready ?s \<longrightarrow> crypto_ready u" "rc = 0 \<longrightarrow> gb_offset u = gb_offset ?s + n" by auto
    have f: "hash_fed d ?s = hash_fed d s" "crypto_ready ?s = crypto_ready s"
      "hash_fed e t = hash_fed e u" "crypto_ready t = crypto_ready u" for e
      by (simp_all add: t(2) hash_fed_def crypto_ready_def)
    have "tftf_frame s t" using b(1) by (auto simp: blocks_rel_def tftf_frame_def t(2))
    moreover have "length bs = unat n" using b(1) c t(1) by (simp add: blocks_rel_def)
    moreover have "gb_offset t = gb_offset u" "\<not> load_active t" by (simp_all add: t(2))
    ultimately show ?thesis using b(2-4) unfolding f t(1) by simp
  qed
  then show "tftf_frame s t" "rc = 0 \<Longrightarrow> length bs = unat n"
    "hash_fed d s \<Longrightarrow> rc = 0 \<Longrightarrow> hash_fed (if h then d @ bs else d) t"
    "\<not> h \<Longrightarrow> crypto_ready s \<Longrightarrow> crypto_ready t"
    "rc = 0 \<Longrightarrow> gb_offset t = gb_offset s + n \<and> \<not> load_active t" by blast+
qed

interpretation greybus_tftf: tftf_loader "greybus_ops E" tftf_frame for E
proof unfold_locales
  note ops = greybus_ops_def data_load_ops.simps
  show "tftf_frame s s" for s :: "'a gbboot_scheme" by (rule tftf_frame.refl)
  show "tftf_frame s t \<Longrightarrow> tftf_frame t u \<Longrightarrow> tftf_frame s u" for s t u :: "'a gbboot_scheme"
    by (rule tftf_frame_trans)
  show "ops_load (greybus_ops E) dst n h s = Ret r t \<Longrightarrow> tftf_frame s t" for dst n h r and s t :: "'a gbboot_scheme"
    unfolding ops by (cases r) (simp add: greybus_load_run(1))
  show "ops_load (greybus_ops E) dst n h s = Ret (0, bs) t \<Longrightarrow> length bs = unat n" for dst n h bs and s t :: "'a gbboot_scheme"
    unfolding ops by (rule greybus_load_run(2)) simp_all
  show "hash_fed d s \<Longrightarrow> ops_load (greybus_ops E) dst n h s = Ret (0, bs) t \<Longrightarrow> hash_fed (if h then d @ bs else d) t"
    for d dst n h bs and s t :: "'a gbboot_scheme"
    unfolding ops by (rule greybus_load_run(3)) simp_all
  show "crypto_ready s \<Longrightarrow> ops_load (greybus_ops E) dst n False s = Ret r t \<Longrightarrow> crypto_ready t"
    for dst n r and s t :: "'a gbboot_scheme"
    unfolding ops by (cases r) (simp add: greybus_load_run(4))
qed (assumption)

section \<open>A scripted application processor\<close>

text \<open>An application processor that always has the message \<open>msg\<close> waiting on the boot CPort.\<close>

definition ap_env :: "bytes \<Rightarrow> env" where
  "ap_env msg = (es3_env (\<lambda>_ a.
     if a = AIO_UNIPRO_BASE + A2D_ATTRACS_INT_BEF then 1
     else if a = AIO_UNIPRO_BASE + AHM_RX_EOM_INT_BEF_0 then 4
     else if a = AIO_UNIPRO_BASE + (CPB_RX_TRANSFERRED_DATA_SIZE_00 + 4) then word_of_nat (length msg)
     else 0))\<lparr>rx_buf := \<lambda>_ _. msg\<rparr>"

lemma ap_env_ok: "unipro_answers (ap_env msg)" "boot_stage (ap_env msg) = 1" "cport_max (ap_env msg) = 2"
  by (simp_all add: unipro_answers_def ap_env_def es3_env_def AIO_UNIPRO_BASE_def)

lemma ap_regs:
  "dev (ap_env msg) h (AIO_UNIPRO_BASE + AHM_RX_EOM_INT_BEF_0) = 4"
  "dev (ap_env msg) h (AIO_UNIPRO_BASE + AHM_RX_EOT_INT_BEF_0) = 0"
  "dev (ap_env msg) h (AIO_UNIPRO_BASE + (CPB_RX_TRANSFERRED_DATA_SIZE_00 + 4)) = word_of_nat (length msg)"
  "dev (ap_env msg) h (ISAA_BASE + TSB_ISAA_SCR) = 0"
  by (simp_all add: ap_env_def es3_env_def AIO_UNIPRO_BASE_def ISAA_BASE_def)

lemma ap_receive:
  fixes s :: "'a gbboot_scheme"
  assumes "length msg < 2 ^ 32"
    and "\<And>ev. \<exists>u. common_cport_handler call GBBOOT_CPORT msg (length msg) (s\<lparr>io := ev @ io s\<rparr>) = Ret 1 u \<and> P u"
    and "\<And>u ev. P u \<Longrightarrow> P (u\<lparr>io := ev @ io u\<rparr>)"
  shows "\<exists>t. chip_unipro_receive (ap_env msg) GBBOOT_CPORT (Some (common_cport_handler call)) False s = Ret 1 t \<and> P t"
proof -
  let ?E = "ap_env msg"
  have c: "cport_handle ?E GBBOOT_CPORT = Some 1" by (simp add: cport_handle_def ap_env_ok word_le_nat_alt)
  let ?ev = "[WrReg (AIO_UNIPRO_BASE + AHM_RX_EOM_INT_BEF_0) 4,
     RdReg (AIO_UNIPRO_BASE + (CPB_RX_TRANSFERRED_DATA_SIZE_00 + 4)) (word_of_nat (length msg)),
     RdReg (AIO_UNIPRO_BASE + AHM_RX_EOT_INT_BEF_0) 0, RdReg (AIO_UNIPRO_BASE + AHM_RX_EOM_INT_BEF_0) 4]"
  from assms(2) [of ?ev] obtain u where
    u: "common_cport_handler call GBBOOT_CPORT msg (length msg) (s\<lparr>io := ?ev @ io s\<rparr>) = Ret 1 u" "P u" by blast
  have "\<exists>x t. tsb_unipro_restart_rx 1 u = Ret x t"
    by (simp add: tsb_unipro_restart_rx_def tsb_unipro_write_def putreg32_def)
  then obtain ev where r: "tsb_unipro_restart_rx 1 u = Ret () (u\<lparr>io := ev @ io u\<rparr>)"
    using only_io_RetD [OF restart_rx_only_io] by fastforce
  have n: "unat (word_of_nat (length msg) :: u32) = length msg"
    using assms(1) by (simp add: unat_of_nat take_bit_nat_eq_self)
  have rx: "rx_buf ?E h k = msg" for h k by (simp add: ap_env_def)
  have sh: "push_bit (2 * unat GBBOOT_CPORT) (1 :: u32) = 4" "push_bit (2 * unat GBBOOT_CPORT) (2 :: u32) = 8"
    "push_bit (unat GBBOOT_CPORT) (1 :: u32) = 2" "push_bit 2 GBBOOT_CPORT = 4" by simp_all
  have "chip_unipro_receive ?E GBBOOT_CPORT (Some (common_cport_handler call)) False s = Ret 1 (u\<lparr>io := ev @ io u\<rparr>)"
    unfolding chip_unipro_receive_def c option.case Let_def sh
    using u(1) r ap_regs(3) [simplified, of msg]
    apply (simp add: assert_or_fault_def skip_def return_def)
    apply (rule loopM_Inr)
    apply (simp add: tsb_unipro_read_def tsb_unipro_write_def getreg32_def putreg32_def ap_regs Let_def n rx gets_def return_def)
    done
  with assms(3) [OF u(2)] show ?thesis by blast
qed

text \<open>The loop takes that message and leaves.\<close>

lemma ap_loop:
  fixes s :: "'a gbboot_scheme"
  assumes "length msg < 2 ^ 32" "handler_table s CONTROL_CPORT = None" "handler_table s GBBOOT_CPORT \<noteq> None"
    and "\<And>ev. \<exists>u. common_cport_handler (gbboot_call (ap_env msg)) GBBOOT_CPORT msg (length msg) (s\<lparr>io := ev @ io s\<rparr>) =
      Ret 1 u \<and> P u"
    and "\<And>u ev. P u \<Longrightarrow> P (u\<lparr>io := ev @ io u\<rparr>)"
  shows "\<exists>t. gbboot_loop (ap_env msg) s = Ret 0 t \<and> P t"
proof -
  let ?E = "ap_env msg"
  obtain ev where ev: "chip_unipro_attr_read ?E ARA_INTERRUPTSTATUS 0 False s = Ret (0, 0) (s\<lparr>io := ev @ io s\<rparr>)"
    using attr_read_answers [OF ap_env_ok(1)] by blast
  let ?s = "s\<lparr>io := ev @ io s\<rparr>"
  have "\<exists>u. common_cport_handler (gbboot_call ?E) GBBOOT_CPORT msg (length msg) (?s\<lparr>io := ev' @ io ?s\<rparr>) = Ret 1 u \<and> P u" for ev'
    using assms(4) [of "ev' @ ev"] by simp
  from ap_receive [OF assms(1) this assms(5)] obtain t where
    t: "chip_unipro_receive ?E GBBOOT_CPORT (Some (common_cport_handler (gbboot_call ?E))) False ?s = Ret 1 t" "P t" by blast
  have cs: "map word_of_nat [0..<unat (cport_max ?E)] = [CONTROL_CPORT, GBBOOT_CPORT]"
    by (simp add: ap_env_ok upt_conv_Cons)
  have "poll_cports ?E (gbboot_call ?E) [CONTROL_CPORT, GBBOOT_CPORT] ?s = Ret (Some 0) t"
    using t assms(2,3) by (simp add: gets_def return_def)
  moreover have "is_mailbox_irq_pending ?E s = Ret False ?s"
    using ev by (simp add: is_mailbox_irq_pending_def return_def)
  ultimately have "gbboot_loop ?E s = Ret 0 t"
    unfolding gbboot_loop_def greybus_loop_def cs
    apply (intro loopM_Inr)
    apply (subst bind_Ret, assumption)
    apply (simp only: if_False)
    apply (subst bind_Ret [of skip], simp add: skip_def return_def)
    apply (subst bind_Ret, assumption)
    apply (simp add: return_def)
    done
  with t(2) show ?thesis by blast
qed

lemma ap_send:
  fixes s :: "'a gbboot_scheme"
  assumes "length payload \<le> 8"
  shows "\<exists>ev. greybus_send_message (ap_env msg) GBBOOT_CPORT i ty st payload n s = Ret 0 (s\<lparr>io := ev @ io s\<rparr>)"
proof -
  let ?b = "gb_message i ty st (take (unat n) payload)"
  have len: "length ?b \<le> 16" using assms by (simp add: gb_message_def op_header_bytes_def)
  have c: "cport_handle (ap_env msg) GBBOOT_CPORT = Some 1" by (simp add: cport_handle_def ap_env_ok word_le_nat_alt)
  have "\<exists>x u. seqM (map (\<lambda>i. putreg8 (f i) (g i)) xs) s = Ret x u" for f g and xs :: "nat list"
    by (induction xs arbitrary: s) (simp_all add: putreg8_def skip_def return_def)
  from this [of "\<lambda>i. ?b ! i" "\<lambda>i. cport_tx_buf 1 + word_of_nat i" "[0..<length ?b]"] obtain x u where
    "seqM (map (\<lambda>i. putreg8 (?b ! i) (cport_tx_buf 1 + word_of_nat i)) [0..<length ?b]) s = Ret x u" by auto
  then have "\<exists>t. greybus_send_message (ap_env msg) GBBOOT_CPORT i ty st payload n s = Ret 0 t"
    using len c by (simp add: greybus_send_message_def chip_unipro_send_def ap_env_ok putreg8_def return_def word_le_nat_alt)
  with only_io_RetD [OF send_message_only_io] show ?thesis by blast
qed

text \<open>The boot CPort's handlers are in place, the control CPort's are not.\<close>

definition boot_cport_only :: "'a gbcore_scheme \<Rightarrow> bool" where
  "boot_cport_only s \<longleftrightarrow>
     handler_table s CONTROL_CPORT = None \<and> handler_table s GBBOOT_CPORT = Some gbboot_cport_handlers"

lemma boot_handler:
  assumes "handler_table s GBBOOT_CPORT = Some gbboot_cport_handlers"
  shows "common_cport_handler call GBBOOT_CPORT (gb_message i 0x83 st p) (8 + length p) s =
      call Get_firmware_response_handler GBBOOT_CPORT (gb_message i 0x83 st p) s"
    "common_cport_handler call GBBOOT_CPORT (gb_message i 5 st p) (8 + length p) s =
      call Gbboot_ap_ready GBBOOT_CPORT (gb_message i 5 st p) s"
proof -
  have ty: "op_type (op_header_of (gb_message i t st p)) = t" "length (gb_message i t st p) = 8 + length p" for t
    by (simp_all add: op_header_of_def gb_message_def op_header_bytes_def nth_append)
  have "find_handler gbboot_cport_handlers 0x83 = Some (Some Get_firmware_response_handler)"
    "find_handler gbboot_cport_handlers 5 = Some (Some Gbboot_ap_ready)"
    by (simp_all add: gbboot_cport_handlers_def)
  with assms ty show "common_cport_handler call GBBOOT_CPORT (gb_message i 0x83 st p) (8 + length p) s =
      call Get_firmware_response_handler GBBOOT_CPORT (gb_message i 0x83 st p) s"
    "common_cport_handler call GBBOOT_CPORT (gb_message i 5 st p) (8 + length p) s =
      call Gbboot_ap_ready GBBOOT_CPORT (gb_message i 5 st p) s"
    by (simp_all add: common_cport_handler_def assert_or_fault_def skip_def return_def gets_def)
qed

lemma firmware_response_run:
  assumes "length p \<le> 0x7F0" "fw_buff_size s = word_of_nat (length p)"
  shows "get_firmware_response_handler (gb_message i 0x83 0 p) s =
    bind (store_firmware p) (\<lambda>_. return 1) (s\<lparr>responded_op := 0x83\<rparr>)"
proof -
  let ?m = "gb_message i 0x83 0 p"
  have h: "op_header_of ?m = \<lparr>op_size = word_of_nat (8 + length p), op_id = i, op_type = 0x83, op_status = 0, op_padding = 0\<rparr>"
    "drop 8 ?m = p" "length ?m = 8 + length p"
    using greybus_header_parse [of p i "0x83" 0] assms(1) by (simp_all add: gb_message_def op_header_bytes_def)
  have "ucast (word_of_nat (8 + length p) :: u16) = (word_of_nat (8 + length p) :: u32)"
    using assms(1) by (simp add: word_unat_eq_iff unsigned_ucast_eq unat_of_nat take_bit_nat_eq_self del: of_nat_add)
  then have r: "response_len ?m = word_of_nat (length p)" "ucast (op_size (op_header_of ?m)) - 8 = (word_of_nat (length p) :: u32)"
    by (simp_all add: response_len_def h)
  have u: "unat (word_of_nat (length p) :: u32) = length p"
    using assms(1) by (simp add: unat_of_nat take_bit_nat_eq_self)
  show ?thesis
    using assms(2) r h
    by (simp add: get_firmware_response_handler_def note_response_def gbboot_get_firmware_response_def modify_def
        gets_def assert_or_fault_def skip_def return_def u slice_def)
qed

text \<open>A request that is answered by a firmware response with payload \<open>p\<close>, or by another notice of readiness.\<close>

lemma loop_firmware_response:
  fixes s :: "'a gbboot_scheme"
  assumes "boot_cport_only s" "length p \<le> 0x7F0" "fw_buff_size s = word_of_nat (length p)"
    and "\<And>ev. \<exists>u. store_firmware p (s\<lparr>io := ev @ io s, responded_op := 0x83\<rparr>) = Ret () u \<and> P u"
    and "\<And>u ev. P u \<Longrightarrow> P (u\<lparr>io := ev @ io u\<rparr>)"
  shows "\<exists>t. gbboot_loop (ap_env (gb_message 1 0x83 0 p)) s = Ret 0 t \<and> P t"
proof (rule ap_loop)
  let ?m = "gb_message 1 0x83 0 p"
  have len: "length ?m = 8 + length p" by (simp add: gb_message_def op_header_bytes_def)
  show "length ?m < 2 ^ 32" using assms(2) len by simp
  show "handler_table s CONTROL_CPORT = None" "handler_table s GBBOOT_CPORT \<noteq> None"
    using assms(1) by (simp_all add: boot_cport_only_def)
  show "\<exists>u. common_cport_handler (gbboot_call (ap_env ?m)) GBBOOT_CPORT ?m (length ?m) (s\<lparr>io := ev @ io s\<rparr>) = Ret 1 u \<and> P u"
    for ev
  proof -
    from assms(4) [of ev] obtain u where u: "store_firmware p (s\<lparr>io := ev @ io s, responded_op := 0x83\<rparr>) = Ret () u" "P u"
      by blast
    have "common_cport_handler (gbboot_call (ap_env ?m)) GBBOOT_CPORT ?m (8 + length p) (s\<lparr>io := ev @ io s\<rparr>) = Ret 1 u"
      using assms(1-3) u(1) by (simp add: boot_handler boot_cport_only_def firmware_response_run return_def)
    with u(2) len show ?thesis by auto
  qed
qed (rule assms(5))

lemma loop_ap_ready:
  fixes s :: "'a gbboot_scheme"
  assumes "boot_cport_only s"
  shows "\<exists>ev. gbboot_loop (ap_env (gb_message 1 5 0 [])) s = Ret 0 (s\<lparr>io := ev @ io s\<rparr>)"
proof -
  let ?m = "gb_message 1 5 0 []"
  have len: "length ?m = 8" by (simp add: gb_message_def op_header_bytes_def)
  have "\<exists>t. gbboot_loop (ap_env ?m) s = Ret 0 t \<and> (\<exists>ev. t = s\<lparr>io := ev @ io s\<rparr>)"
  proof (rule ap_loop)
    show "length ?m < 2 ^ 32" using len by simp
    show "handler_table s CONTROL_CPORT = None" "handler_table s GBBOOT_CPORT \<noteq> None"
      using assms by (simp_all add: boot_cport_only_def)
    show "\<exists>u. common_cport_handler (gbboot_call (ap_env ?m)) GBBOOT_CPORT ?m (length ?m) (s\<lparr>io := ev @ io s\<rparr>) = Ret 1 u \<and>
        (\<exists>ev. u = s\<lparr>io := ev @ io s\<rparr>)" for ev
    proof -
      let ?op = "op_header_of ?m"
      from ap_send [of "[]" ?m "op_id ?op" "op_type ?op OR GB_TYPE_RESPONSE" GB_OP_SUCCESS 0 "s\<lparr>io := ev @ io s\<rparr>"]
      obtain ev' where "greybus_op_response (ap_env ?m) GBBOOT_CPORT ?op GB_OP_SUCCESS [] (s\<lparr>io := ev @ io s\<rparr>) =
          Ret 0 (s\<lparr>io := (ev' @ ev) @ io s\<rparr>)"
        by (auto simp: greybus_op_response_def)
      then have "common_cport_handler (gbboot_call (ap_env ?m)) GBBOOT_CPORT ?m 8 (s\<lparr>io := ev @ io s\<rparr>) =
          Ret 1 (s\<lparr>io := (ev' @ ev) @ io s\<rparr>)"
        using assms boot_handler(2) [of "s\<lparr>io := ev @ io s\<rparr>" "gbboot_call (ap_env ?m)" 1 0 "[]"]
        by (simp add: boot_cport_only_def gbboot_ap_ready_def return_def)
      with len show ?thesis by (auto intro!: exI [of _ "ev' @ ev"])
    qed
    show "\<exists>ev'. u\<lparr>io := ev @ io u\<rparr> = s\<lparr>io := ev' @ io s\<rparr>" if "\<exists>ev. u = s\<lparr>io := ev @ io s\<rparr>" for u ev
      using that by (metis append.assoc machine.surjective machine.update_convs(1))
  qed
  then show ?thesis by blast
qed

section \<open>Properties\<close>


definition reset_gbboot :: gbboot where
  "reset_gbboot = gbcore.extend (reset_gbcore\<lparr>handler_table := (\<lambda>_. None)(GBBOOT_CPORT := Some gbboot_cport_handlers)\<rparr>)
     \<lparr>responded_op = GB_BOOT_OP_INVALID, firmware_size_response = 0, fw_buff_where = To_temp, fw_buff_off = 0,
      fw_buff_size = 0, load_active = False, load_buf = [], temp_buf = replicate 2048 0, gb_offset = 0,
      firmware_size = 0x1000\<rparr>"

lemma reset_gbboot_boot: "boot_cport_only reset_gbboot"
  by (simp add: boot_cport_only_def reset_gbboot_def gbcore.defs)

lemma reset_gbboot_fields:
  "crypto_ready reset_gbboot" "tftf_header reset_gbboot = replicate 4096 0" "gb_offset reset_gbboot = 0"
  "firmware_size reset_gbboot = 0x1000" "\<not> load_active reset_gbboot"
  using reset_tftf_ready
  by (simp_all add: reset_gbboot_def gbcore.defs reset_gbcore_def tftf.defs crypto_ready_def)
    (simp add: reset_tftf_def ffff.defs)

text \<open>An all-zero header received over UniPro.\<close>

lemma blank_header_received:
  assumes "s = reset_gbboot\<lparr>crypto_state := CRYPTO_STATE_INIT, contain_signature := False\<rparr>"
  shows "\<exists>u. load_header_part (greybus_ops (ap_env (gb_message 1 0x83 0 (replicate 512 0)))) 0 TFTF_HEADER_SIZE_MIN s = Ret 0 u \<and>
    tftf_header u = replicate 4096 0 \<and> crypto_state u = CRYPTO_STATE_INIT \<and> \<not> contain_signature u"
proof -
  let ?p = "replicate 512 0 :: bytes" and ?z = "replicate 4096 0 :: bytes"
  let ?E = "ap_env (gb_message 1 0x83 0 ?p)"
  let ?P = "\<lambda>u :: gbboot. responded_op u = 0x83 \<and> load_buf u = ?p \<and> tftf_header u = ?z \<and>
    crypto_state u = CRYPTO_STATE_INIT \<and> \<not> contain_signature u"
  let ?s = "s\<lparr>load_active := True, load_buf := ?p\<rparr>"
  from ap_send [of "u32_bytes 0 @ u32_bytes 512" _ 1 GB_BOOT_OP_GET_FIRMWARE 0 8 ?s] obtain ev where
    ev: "greybus_send_request ?E GBBOOT_CPORT 1 GB_BOOT_OP_GET_FIRMWARE (u32_bytes 0 @ u32_bytes 512) ?s =
      Ret 0 (?s\<lparr>io := ev @ io s\<rparr>)" unfolding greybus_send_request_def by auto
  let ?u = "?s\<lparr>io := ev @ io s, fw_buff_where := To_header 0, fw_buff_off := 0, fw_buff_size := 512\<rparr>"
  have put: "put_bytes ?p 0 ?p = ?p" "put_bytes ?z 0 ?p = ?z" by (simp_all add: put_bytes_def flip: replicate_add)
  have "boot_cport_only ?u" using reset_gbboot_boot assms by (simp add: boot_cport_only_def)
  moreover have "\<exists>w. store_firmware ?p (?u\<lparr>io := ev' @ io ?u, responded_op := 0x83\<rparr>) = Ret () w \<and> ?P w" for ev'
    using put(1) assms reset_gbboot_fields(2)
    by (simp add: store_firmware_def get_state_def assert_or_fault_def fits_def skip_def return_def modify_def)
  ultimately obtain w where w: "gbboot_loop ?E ?u = Ret 0 w" "?P w"
    using loop_firmware_response [of ?u ?p ?P] by auto
  have "gbboot_get_firmware ?E 0 512 (To_header 0) 0 0 ?s = Ret 0 w"
    using ev w by (simp add: gbboot_get_firmware_def gets_def skip_def return_def modify_def)
  then have "load_blocks ?E (To_header 0) 512 False 0 0 ?s = Ret 0 (w\<lparr>gb_offset := gb_offset w + 512\<rparr>)"
    using assms reset_gbboot_fields(3) by (subst load_blocks.simps)
      (simp add: gets_def modify_def load_blocks.simps skip_def return_def word_less_nat_alt)
  moreover have "dest_contents (To_header 0) 512 s = ?p" "\<not> gb_offset s + 512 > firmware_size s"
    using assms reset_gbboot_fields by (simp_all add: dest_contents_def slice_def word_less_nat_alt)
  ultimately have "data_load_greybus_load ?E (To_header 0) 512 False s =
      Ret (0, ?p) (w\<lparr>gb_offset := gb_offset w + 512, load_active := False\<rparr>)"
    using w(2) by (simp add: data_load_greybus_load_def get_state_def assert_or_fault_def skip_def return_def
        modify_def gets_def)
  then show ?thesis
    using w(2) put(2) by (simp add: load_header_part_def greybus_ops_def gets_def assert_or_fault_def fits_def skip_def
        return_def modify_def)
qed

lemma blank_image_run:
  fixes s :: "'a tftf_scheme"
  assumes "load_header_part ops 0 TFTF_HEADER_SIZE_MIN (s\<lparr>crypto_state := CRYPTO_STATE_INIT, contain_signature := False\<rparr>) = Ret 0 u"
    and "tftf_header u = replicate 4096 0" "crypto_state u = CRYPTO_STATE_INIT" "\<not> contain_signature u"
    and "unipro_answers E" "boot_stage E = 1" "\<And>h. dev E h (ISAA_BASE + TSB_ISAA_SCR) = 0"
  shows "\<exists>t. load_tftf_image E ops s = Ret (0, False) t"
proof -
  from set_last_error_answers [OF assms(5,6), of BRE_TFTF_SENTINEL u] obtain t where
    t: "set_last_error E BRE_TFTF_SENTINEL u = Ret () t" "tftf_header t = replicate 4096 0"
      "crypto_state t = CRYPTO_STATE_INIT" "\<not> contain_signature t" using assms(2-4) by auto
  have "hd (replicate 4 0) \<noteq> hd tftf_sentinel" by (simp add: tftf_sentinel_def)
  then have "replicate 4 0 \<noteq> tftf_sentinel" by metis
  then have "memcmp (tftf_header u) tftf_sentinel TFTF_SENTINEL_SIZE \<noteq> 0"
    using assms(2) by (simp add: memcmp_0_iff tftf_sentinel_def)
  then have l: "load_tftf_header E ops s = Ret 0 t"
    using assms(1) t(1) by (simp add: load_tftf_header_def modify_def gets_def return_def)
  have p: "process_sections E ops (tftf_header t) 0 t = Ret 0 t"
    unfolding t(2) by (subst process_sections.simps)
      (simp add: is_section_out_of_range_def tftf_header_size_def get_u32_def section_offset_def return_def)
  show ?thesis
    using l p t(3,4) assms(7)
    by (simp add: load_tftf_image_def gets_def modify_def return_def chip_is_untrusted_image_allowed_def
        isaa_read_def getreg32_def Let_def)
qed




text \<open>
  A notice that the application processor is ready, in place of the answer to a firmware request,
  ends the wait for that answer; as the check of which operation was answered still sees the answer
  to an earlier request, the block counts as received although nothing was stored.
\<close>

theorem ready_notice_counts_as_data:
  fixes s :: "'a gbboot_scheme"
  assumes "boot_cport_only s" "responded_op s = GB_BOOT_OP_GET_FIRMWARE OR GB_TYPE_RESPONSE"
    and "gb_offset s + n \<le> firmware_size s" "0 < n" "n \<le> GB_MAX_PAYLOAD_SIZE"
  shows "\<exists>t. data_load_greybus_load (ap_env (gb_message 1 5 0 [])) (To_ram a) n False s =
    Ret (0, map (\<lambda>i. ram s (a + word_of_nat i)) [0..<unat n]) t"
proof -
  let ?E = "ap_env (gb_message 1 5 0 [])" and ?old = "map (\<lambda>i. ram s (a + word_of_nat i)) [0..<unat n]"
  let ?s = "s\<lparr>load_active := True, load_buf := ?old\<rparr>"
  from ap_send [of "u32_bytes (gb_offset s) @ u32_bytes n" _ 1 GB_BOOT_OP_GET_FIRMWARE 0 8 ?s] obtain ev where
    ev: "greybus_send_request ?E GBBOOT_CPORT 1 GB_BOOT_OP_GET_FIRMWARE (u32_bytes (gb_offset s) @ u32_bytes n) ?s =
      Ret 0 (?s\<lparr>io := ev @ io s\<rparr>)" unfolding greybus_send_request_def by auto
  let ?u = "?s\<lparr>io := ev @ io s, fw_buff_where := To_ram a, fw_buff_off := 0, fw_buff_size := n\<rparr>"
  have "boot_cport_only ?u" using assms(1) by (simp add: boot_cport_only_def)
  from loop_ap_ready [OF this] obtain ev' where "gbboot_loop ?E ?u = Ret 0 (?u\<lparr>io := ev' @ io ?u\<rparr>)" by blast
  with ev assms(2) have "gbboot_get_firmware ?E (gb_offset s) n (To_ram a) 0 0 ?s = Ret 0 (?u\<lparr>io := ev' @ io ?u\<rparr>)"
    by (simp add: gbboot_get_firmware_def gets_def skip_def return_def modify_def)
  moreover have "n \<noteq> 0" "\<not> n > GB_MAX_PAYLOAD_SIZE" using assms(4,5) by auto
  ultimately have "\<exists>t. load_blocks ?E (To_ram a) n False 0 0 ?s = Ret 0 t \<and> load_buf t = ?old"
    by (subst load_blocks.simps) (simp add: gets_def modify_def load_blocks.simps skip_def return_def)
  moreover have "dest_contents (To_ram a) (unat n) s = ?old" by (simp add: dest_contents_def)
  ultimately show ?thesis
    using assms(3) by (auto simp: data_load_greybus_load_def get_state_def assert_or_fault_def skip_def return_def
        modify_def gets_def)
qed

theorem ready_notice_counts_as_data_witness:
  "\<exists>t. data_load_greybus_load (ap_env (gb_message 1 5 0 [])) (To_ram 0x10000000) 2 False
     (reset_gbboot\<lparr>responded_op := 0x83\<rparr>) = Ret (0, [0, 0]) t"
proof -
  let ?s = "reset_gbboot\<lparr>responded_op := 0x83\<rparr>"
  have "boot_cport_only ?s" using reset_gbboot_boot by (simp add: boot_cport_only_def)
  moreover have "gb_offset ?s + 2 \<le> firmware_size ?s" "ram ?s = (\<lambda>_. 0)"
    by (simp_all add: reset_gbboot_def gbcore.defs reset_gbcore_def tftf.defs reset_tftf_def ffff.defs reset_ffff_def
        spi.defs reset_spi_def crypto.defs reset_crypto_def word_le_nat_alt)
  ultimately show ?thesis
    using ready_notice_counts_as_data [of ?s 2 "0x10000000"] by (simp add: word_le_nat_alt upt_conv_Cons)
qed

end
