(* ===== verification/Calm.thy ===== *)
theory Calm
  imports Gbboot
begin

text \<open>
  Everything the boot ROM does short of \<^verbatim>\<open>jump_to_image\<close>: an operation is \<open>calm\<close> when it never
  jumps and, wherever it returns, has left the hash functions and the table they are shared in usable. Every operation the boot sequence
  is composed of is shown to be calm, bottom-up and by the structure of its definition; so a jump can only come
  from the one call at the end of a boot path.
\<close>

section \<open>Calm programs\<close>

text \<open>
  What a calm operation may do to the state: it keeps the hash functions usable, and it leaves the four
  entries of the shared function table alone that the next stage will use.
\<close>

definition calm_rel :: "'a crypto_scheme \<Rightarrow> 'a crypto_scheme \<Rightarrow> bool" where
  "calm_rel s t \<longleftrightarrow>
     (crypto_ready s \<longrightarrow> crypto_ready t) \<and> (\<forall>i<4. shared_functions t i = shared_functions s i)"

interpretation calm_rel: state_rel calm_rel
  by unfold_locales (auto simp: calm_rel_def)

definition calm :: "('a crypto_scheme, 'b) prog \<Rightarrow> bool" where
  "calm m \<longleftrightarrow> (\<forall>s. case m s of Ret _ t \<Rightarrow> calm_rel s t | Stop k t \<Rightarrow> \<forall>a. k \<noteq> Jumped a)"

named_theorems calm_intros \<open>operations that are calm\<close>

lemma calm_relD: "calm m \<Longrightarrow> m s = Ret r t \<Longrightarrow> calm_rel s t"
  unfolding calm_def by (drule spec [of _ s]) simp

lemma calm_RetD: "calm m \<Longrightarrow> m s = Ret r t \<Longrightarrow> crypto_ready s \<Longrightarrow> crypto_ready t"
  by (drule (1) calm_relD) (simp add: calm_rel_def)

lemma calm_StopD: "calm m \<Longrightarrow> m s \<noteq> Stop (Jumped a) t"
  unfolding calm_def by (drule spec [of _ s]) auto

lemma calm_basic [calm_intros]:
  "calm (return x)" "calm (gets f)" "calm get_state" "calm skip" "calm (assert_or_fault b)"
  "calm (stop_with Fault)" "calm (stop_with Hung)" "calm (stop_with (Halted v))"
  by (simp_all add: calm_def prog_defs calm_rel.refl)

lemma calm_bind [calm_intros]:
  assumes "calm m" "\<And>x. calm (f x)"
  shows "calm (bind m f)"
  unfolding calm_def
proof
  fix s
  show "case bind m f s of Ret _ t \<Rightarrow> calm_rel s t | Stop k t \<Rightarrow> \<forall>a. k \<noteq> Jumped a"
  proof (cases "m s")
    case (Ret x u)
    then have "calm_rel s u" using calm_relD [OF assms(1)] by blast
    with Ret show ?thesis using calm_StopD [OF assms(2)]
      by (cases "f x u") (auto intro: calm_rel.trans dest: calm_relD [OF assms(2)])
  next
    case (Stop k u)
    with calm_StopD [OF assms(1)] show ?thesis by auto
  qed
qed

lemma calm_if [calm_intros]: "(b \<Longrightarrow> calm m) \<Longrightarrow> (\<not> b \<Longrightarrow> calm n) \<Longrightarrow> calm (if b then m else n)"
  by simp

lemma calm_let [calm_intros]: "(\<And>x. calm (f x)) \<Longrightarrow> calm (let x = a in f x)"
  by simp

lemma calm_prod [calm_intros]: "(\<And>x y. calm (f x y)) \<Longrightarrow> calm (case p of (x, y) \<Rightarrow> f x y)"
  by (cases p) simp

lemma calm_option [calm_intros]:
  "calm m \<Longrightarrow> (\<And>x. calm (f x)) \<Longrightarrow> calm (case p of None \<Rightarrow> m | Some x \<Rightarrow> f x)"
  by (cases p) simp_all

lemma calm_loopM [calm_intros]:
  assumes "\<And>a :: 'a. calm (body a)"
  shows "calm (loopM body (a :: 'a) :: ('b crypto_scheme, 'c) prog)"
proof -
  have "wp (loopM body a) (\<lambda>_ t. calm_rel s t) (\<lambda>k _. \<forall>a. k \<noteq> Jumped a) s" for s :: "'b crypto_scheme"
  proof (rule wp_loopM [where I = "\<lambda>_ t. calm_rel s t"])
    fix b and t :: "'b crypto_scheme"
    assume "calm_rel s t"
    then show "wp (body b) (\<lambda>r s'. case r of Inl a' \<Rightarrow> calm_rel s s' | Inr b \<Rightarrow> calm_rel s s') (\<lambda>k _. \<forall>a. k \<noteq> Jumped a) t"
      using assms [of b] unfolding calm_def wp_def
      by (auto split: outcome.splits sum.splits dest: spec [of _ t] intro: calm_rel.trans)
  qed (simp_all add: calm_rel.refl)
  then show ?thesis by (simp add: calm_def wp_def)
qed

lemma calm_seqM: "(\<And>m. m \<in> set ms \<Longrightarrow> calm m) \<Longrightarrow> calm (seqM ms)"
  by (induction ms) (auto intro: calm_intros)

lemma calm_modify: "(\<And>s. calm_rel s (f s)) \<Longrightarrow> calm (modify f)"
  by (simp add: calm_def modify_def)

text \<open>The assignments of the components; none touches the function pointers or the hash schedule.\<close>

lemma calm_assign [calm_intros]:
  "calm (modify (\<lambda>s. s\<lparr>fw_errno := e1 s\<rparr>))" "calm (modify (\<lambda>s. s\<lparr>boot_status_offline := b\<rparr>))"
  "calm (modify (\<lambda>s. s\<lparr>ram := e2 s\<rparr>))"
  by (intro calm_modify; simp add: calm_rel_def crypto_ready_def)+
section \<open>Registers, UniPro, error reporting\<close>

lemma calm_regs [calm_intros]:
  "calm (getreg32 E a)" "calm (putreg32 v a)" "calm (putreg8 b a)"
  by (simp_all add: calm_def getreg32_def putreg32_def putreg8_def Let_def calm_rel_def crypto_ready_def)

lemma calm_machine [calm_intros]:
  "calm (poll_reg E a ok)" "calm (scm_read E a)" "calm (scm_write a v)" "calm (isaa_read E a)" "calm (isaa_write a v)"
  "calm (tsb_unipro_read E a)" "calm (tsb_unipro_write a v)"
  unfolding poll_reg_def scm_read_def scm_write_def isaa_read_def isaa_write_def tsb_unipro_read_def tsb_unipro_write_def
  by (intro calm_intros)+

lemma calm_isaa_read_n [calm_intros]: "calm (isaa_read_n E offset sz)"
proof (induction E offset sz rule: isaa_read_n.induct)
  case (1 E offset sz)
  then show ?case by (subst isaa_read_n.simps) (auto intro!: calm_intros)
qed

lemma calm_chip [calm_intros]:
  "calm (tsb_clk_enable c)" "calm (tsb_clk_disable c)" "calm tsb_clk_init" "calm (tsb_get_bootselector E)"
  "calm (tsb_get_eccerror E)" "calm (tsb_get_ara_vid E)" "calm (tsb_get_ara_pid E)" "calm (tsb_get_ims E buf n)"
  "calm tsb_disable_ims_access" "calm tsb_disable_cms_access" "calm (chip_is_key_revoked E k)"
  "calm (chip_is_untrusted_image_allowed E)" "calm chip_init" "calm (chip_clear_image_loading_ram E)"
  unfolding tsb_clk_enable_def tsb_clk_disable_def tsb_clk_init_def tsb_get_bootselector_def
    tsb_get_eccerror_def tsb_get_ara_vid_def tsb_get_ara_pid_def tsb_get_ims_def tsb_disable_ims_access_def
    tsb_disable_cms_access_def chip_is_key_revoked_def chip_is_untrusted_image_allowed_def chip_init_def
    chip_clear_image_loading_ram_def
  by (intro calm_intros)+

lemma calm_attr [calm_intros]:
  "calm (chip_unipro_attr_read E attr sel peer)" "calm (chip_unipro_attr_write E attr v sel peer)"
  unfolding chip_unipro_attr_read_def chip_unipro_attr_write_def unipro_attr_access_def by (intro calm_intros)+

lemma calm_clear_attrs [calm_intros]: "calm (clear_attrs E as c)"
  by (induction as) (auto intro!: calm_intros)

lemma calm_reset_cports [calm_intros]: "calm (reset_cports E n i)"
  by (induction n arbitrary: i) (auto simp: tsb_unipro_reset_cport_def intro!: calm_intros)

lemma calm_restart_rx [calm_intros]: "calm (tsb_unipro_restart_rx c)"
  unfolding tsb_unipro_restart_rx_def by (intro calm_intros)

lemma calm_unipro [calm_intros]:
  "calm (chip_unipro_init E)" "calm (chip_unipro_init_cport E c)" "calm (chip_reset_before_jump E)"
  "calm (chip_wait_for_link_up E)" "calm (is_mailbox_irq_pending E)" "calm (read_mailbox E)" "calm (ack_mailbox E w)"
  "calm (write_mailbox E v)"
  unfolding chip_unipro_init_def chip_unipro_init_cport_def tsb_unipro_init_cport_def chip_reset_before_jump_def
    tsb_reset_before_jump_def tsb_reset_all_cports_def chip_wait_for_link_up_def is_mailbox_irq_pending_def
    read_mailbox_def ack_mailbox_def write_mailbox_def
  by (intro calm_intros)+

lemma calm_send [calm_intros]: "calm (chip_unipro_send E c buf)"
  unfolding chip_unipro_send_def by (intro calm_intros calm_seqM) (auto intro: calm_intros)

lemma calm_ready [calm_intros]: "calm (advertise_ready E)" "calm (chip_unipro_recv_cport E)"
  unfolding advertise_ready_def tsb_reset_before_ready_def tsb_disable_all_e2efc_def chip_unipro_recv_cport_def
  by (intro calm_intros)+

lemma calm_receive: "(\<And>c buf n. calm (h c buf n)) \<Longrightarrow> calm (chip_unipro_receive E c (Some h) blocking)"
  unfolding chip_unipro_receive_def option.case by (intro calm_intros)

lemma calm_merge [calm_intros]: "calm (merge_errno_with_boot_status b)"
  unfolding merge_errno_with_boot_status_def get_last_error_def by (intro calm_intros)

lemma calm_halt_with: "(\<And>b. calm (adv b)) \<Longrightarrow> calm (halt_with adv b)"
  unfolding halt_with_def by (intro calm_intros)

lemma calm_advertise [calm_intros]: "calm (chip_advertise_boot_status E b)"
  unfolding chip_advertise_boot_status_def advertise_with_def by (intro calm_intros calm_halt_with)

lemma calm_errors [calm_intros]:
  "calm (halt_and_catch_fire E b)" "calm (chip_advertise_boot_type E)" "calm (init_last_error E)"
  unfolding halt_and_catch_fire_def chip_advertise_boot_type_def init_last_error_def
  by (intro calm_intros calm_halt_with)+

lemma calm_set_last_error [calm_intros]: "calm (set_last_error E err)"
  unfolding set_last_error_def error_field_def chip_get_boot_status_def by (intro calm_intros)

section \<open>Hashing, signatures, flash\<close>

lemma updates_length: "i \<le> j \<Longrightarrow> length (for_loop i j (\<lambda>k w. w[k := g k w]) ws) = length ws"
  by (rule for_loop_inv [where P = "\<lambda>_ w. length w = length ws"]) simp_all

lemma transform_words: "length (sh_w (shs_transform sh)) = length (sh_w sh)"
proof -
  have "length (shs_expand ws) = length ws" for ws unfolding shs_expand_def by (rule updates_length) simp
  then show ?thesis by (simp add: shs_transform_def Let_def split: prod.split)
qed

lemma process_words: "length (sh_w (shs256_process sh b)) = length (sh_w sh)"
  by (simp add: shs256_process_def Let_def transform_words)

lemma feed_words: "length (sh_w (fold (\<lambda>b sh. shs256_process sh b) bs sh)) = length (sh_w sh)"
  by (induction bs arbitrary: sh) (simp_all add: process_words)

lemma init_words: "length (sh_w (shs256_init sh)) = length (sh_w sh)"
  unfolding shs256_init_def by (simp add: updates_length [where g = "\<lambda>_ _. 0"])

lemma hash_words: "shs256_hash sh = Some (d, sh') \<Longrightarrow> length (sh_w sh') = length (sh_w sh)"
proof -
  assume "shs256_hash sh = Some (d, sh')"
  then obtain sh1 where sh1: "pad_zeros (shs256_process sh 0x80) = Some sh1"
    and sh': "length (sh_w sh') = length (sh_w sh1)"
    by (auto simp: shs256_hash_def Let_def init_words transform_words split: option.splits)
  from sh1 have "length (sh_w sh1) = length (sh_w (shs256_process sh 0x80))"
    unfolding pad_zeros_def by (rule while_option_rule [rotated]) (simp_all add: process_words)
  with sh' show ?thesis by (simp add: process_words)
qed

lemma calm_hash [calm_intros]: "calm hash_start" "calm (hash_update bs)" "calm hash_final"
proof -
  show "calm hash_start" "calm (hash_update bs)" unfolding hash_start_def hash_update_def
    by (intro calm_intros calm_modify; simp add: calm_rel_def crypto_ready_def init_words feed_words)+
  show "calm hash_final"
    unfolding calm_def hash_final_def
    by (auto simp: prog_defs calm_rel_def crypto_ready_def hash_words split: option.splits outcome.splits)
qed
lemma calm_find_keys [calm_intros]: "calm (find_rom_key E sg k keys)" "calm (find_cfg_key E sg k n)"
proof -
  show "calm (find_rom_key E sg k keys)" by (induction keys arbitrary: k) (auto intro!: calm_intros)
  show "calm (find_cfg_key E sg k n)" by (induction n arbitrary: k) (auto intro!: calm_intros)
qed

lemma calm_verify [calm_intros]: "calm (verify_signature E digest sg)"
  unfolding verify_signature_def find_public_key_def
  by (intro calm_intros calm_modify) (simp add: calm_rel_def crypto_ready_def)

lemma calm_spi_assign [calm_intros]:
  "calm (modify (\<lambda>s. s\<lparr>current_addr := f s\<rparr>))" "calm (modify (\<lambda>s. s\<lparr>spi_clk_usage_count := g s\<rparr>))"
  by (intro calm_modify; simp add: calm_rel_def crypto_ready_def)+

lemma calm_spi [calm_intros]:
  "calm data_load_spi_init" "calm (data_load_spi_load E n h)" "calm (data_load_spi_read E a n)"
  "calm (data_load_spi_finish v sec)"
  unfolding data_load_spi_init_def data_load_spi_read_def data_load_spi_load_def data_load_spi_finish_def spi_start_def
    spi_receive_def spi_frame_def spi_trailing_def
  by (intro calm_intros)+

lemma calm_ffff_assign [calm_intros]:
  "calm (modify (set_header_buf w b))" "calm (modify (\<lambda>s. s\<lparr>cur_header := c\<rparr>))" "calm (modify (\<lambda>s. s\<lparr>cur_element := e\<rparr>))"
  by (intro calm_modify; (cases w)?; simp add: calm_rel_def crypto_ready_def)+

lemma calm_ffff_header:
  assumes "\<And>a n. calm (rd a n)"
  shows "calm (load_ffff_header E rd w addr)"
  unfolding load_ffff_header_def read_header_part_def validate_ffff_header_def
  by (intro calm_intros assms)

lemma calm_search: "(\<And>a n. calm (rd a n)) \<Longrightarrow> calm (search_second_header E rd addrs)"
  by (induction addrs) (auto intro!: calm_intros calm_ffff_header split: prod.split)

lemma calm_locate [calm_intros]: "calm (locate_ffff_element_on_storage E (spi_ops E) ty)"
  unfolding locate_ffff_element_on_storage_def locate_ffff_table_def locate_element_def spi_ops_def data_load_ops.simps
    option.case
  by (intro calm_intros calm_ffff_header calm_search)

section \<open>Images\<close>

lemma calm_tftf_assign [calm_intros]:
  "calm (modify (\<lambda>s. s\<lparr>tftf_header := f s\<rparr>))" "calm (modify (\<lambda>s. s\<lparr>tftf_header_end := g s\<rparr>))"
  "calm (modify (\<lambda>s. s\<lparr>crypto_state := c\<rparr>))" "calm (modify (\<lambda>s. s\<lparr>contain_signature := b\<rparr>))"
  "calm (modify (\<lambda>s. s\<lparr>tftf_sig := sg\<rparr>))" "calm (modify (\<lambda>s. s\<lparr>tftf_hash := d, crypto_state := c\<rparr>))"
  "calm (modify (\<lambda>s. s\<lparr>crypto_state := c, contain_signature := b\<rparr>))"
  "calm (modify (\<lambda>s. s\<lparr>build_timestamp := ts, firmware_package_name := nm\<rparr>))"
  "calm (modify (\<lambda>s. s\<lparr>ara_vid := x\<rparr>))" "calm (modify (\<lambda>s. s\<lparr>ara_pid := x\<rparr>))"
  by (intro calm_modify; simp add: calm_rel_def crypto_ready_def)+

lemma calm_start_hashing [calm_intros]: "calm (start_hashing h k)"
  unfolding start_hashing_def by (intro calm_intros)

lemma calm_section_types [calm_intros]: "calm (process_section_types E h k)"
proof (induction E h k rule: process_section_types.induct)
  case (1 E h k)
  show ?case
    by (subst process_section_types.simps, unfold Let_def) (intro calm_intros; (rule 1)?; simp)
qed

text \<open>The operations on images, for a loader whose load operation is calm.\<close>

definition calm_loader :: "'a crypto_scheme data_load_ops \<Rightarrow> bool" where
  "calm_loader ops \<longleftrightarrow> (\<forall>d n h. calm (ops_load ops d n h))"

lemma calm_load [calm_intros]: "calm_loader ops \<Longrightarrow> calm (ops_load ops d n h)"
  by (simp add: calm_loader_def)

lemma calm_discard [calm_intros]: "calm_loader ops \<Longrightarrow> calm (discard_section ops len hash)"
proof (induction ops len hash rule: discard_section.induct)
  case (1 ops len hash)
  show ?case
    by (subst discard_section.simps, unfold Let_def) (intro calm_intros 1; (rule 1)?; simp)
qed

lemma calm_section [calm_intros]: "calm_loader ops \<Longrightarrow> calm (process_tftf_section E ops sec)"
  unfolding process_tftf_section_def by (intro calm_intros)

lemma calm_sections [calm_intros]: "calm_loader ops \<Longrightarrow> calm (process_sections E ops h k)"
proof (induction E ops h k rule: process_sections.induct)
  case (1 E ops h k)
  show ?case
    by (subst process_sections.simps) (intro calm_intros 1(2); rule 1(1) [OF _ _ _ _ 1(2)]; simp)
qed

lemma calm_load_image: "calm_loader ops \<Longrightarrow> calm (load_tftf_image E ops)"
  unfolding load_tftf_image_def load_tftf_header_def load_header_part_def check_tftf_header_def valid_tftf_header_def
  by (intro calm_intros)
lemma calm_load_spi [calm_intros]: "calm (load_tftf_image E (spi_ops E))"
  by (rule calm_load_image) (simp add: calm_loader_def spi_ops_def calm_intros)

section \<open>Start-up\<close>

lemma calm_sha256_parts [calm_intros]: "calm (sha256_parts bufs)"
  unfolding sha256_parts_def by (intro calm_intros calm_seqM) (auto intro: calm_intros)

lemma calm_efuse [calm_intros]: "calm (efuse_init E stack)" "calm efuse_rig_for_untrusted"
  unfolding efuse_init_def efuse_publish_ims_def publish_endpoint_id_def calculate_es3_epuid_def
    efuse_rig_for_untrusted_def
  by (intro calm_intros)+

lemma calm_set_shared [calm_intros]: "4 \<le> i \<Longrightarrow> calm (set_shared_function i f)"
  unfolding set_shared_function_def by (intro calm_intros calm_modify) (simp add: calm_rel_def crypto_ready_def)

section \<open>Greybus\<close>

lemma calm_greybus_assign [calm_intros]:
  "calm (modify (\<lambda>s. s\<lparr>handler_table := f s\<rparr>))" "calm (modify (\<lambda>s. s\<lparr>manifest_fetched := b\<rparr>))"
  "calm (modify (\<lambda>s. s\<lparr>firmware_size_response := x\<rparr>))" "calm (modify (\<lambda>s. s\<lparr>load_buf := g s\<rparr>))"
  "calm (modify (\<lambda>s. s\<lparr>responded_op := y\<rparr>))" "calm (modify (\<lambda>s. s\<lparr>firmware_size := k s\<rparr>))"
  "calm (modify (\<lambda>s. s\<lparr>fw_buff_where := dst, fw_buff_off := pos, fw_buff_size := sz\<rparr>))"
  "calm (modify (\<lambda>s. s\<lparr>gb_offset := l s\<rparr>))" "calm (modify (\<lambda>s. s\<lparr>firmware_size := u, gb_offset := v\<rparr>))"
  "calm (modify (\<lambda>s. s\<lparr>load_active := c, load_buf := m s\<rparr>))" "calm (modify (\<lambda>s. s\<lparr>load_active := c, temp_buf := n s\<rparr>))"
  "calm (modify (\<lambda>s. s\<lparr>tftf_sig := h s\<rparr>))"
  by (intro calm_modify; simp add: calm_rel_def crypto_ready_def)+

lemma calm_messages [calm_intros]:
  "calm (greybus_send_request E c i ty p)" "calm (greybus_op_response E c op st p)"
  unfolding greybus_send_request_def greybus_op_response_def greybus_send_message_def by (intro calm_intros)+

lemma calm_load_dest [calm_intros]:
  "(\<And>a. calm (f a)) \<Longrightarrow> (\<And>n. calm (g n)) \<Longrightarrow> calm m \<Longrightarrow> calm n \<Longrightarrow>
    calm (case d of To_ram a \<Rightarrow> f a | To_header k \<Rightarrow> g k | To_signature \<Rightarrow> m | To_temp \<Rightarrow> n)"
  by (cases d) simp_all

lemma calm_store_firmware [calm_intros]: "calm (store_firmware bs)"
  unfolding store_firmware_def stale_store_def by (intro calm_intros)

lemma calm_call [calm_intros]: "calm (gbboot_call E handler c buf)"
  by (cases handler)
    (simp_all add: gbctrl_get_version_def gbctrl_probe_ap_def gbctrl_get_manifest_size_def gbctrl_get_manifest_def
      gbctrl_connected_def gbctrl_disconnected_def gbboot_get_version_def gbboot_get_vid_pid_def gbboot_ap_ready_def
      firmware_size_response_handler_def get_firmware_response_handler_def ready_to_boot_response_handler_def
      note_response_def gbboot_firmware_size_response_def gbboot_get_firmware_response_def
      gbboot_ready_to_boot_response_def Let_def calm_intros)

lemma calm_handler [calm_intros]: "calm (common_cport_handler (gbboot_call E) c buf n)"
  unfolding common_cport_handler_def by (intro calm_intros)

lemma calm_poll [calm_intros]: "calm (poll_cports E (gbboot_call E) cs)"
  by (induction cs) (auto intro!: calm_intros calm_receive)

lemma calm_gbboot_loop [calm_intros]: "calm (gbboot_loop E)"
  unfolding gbboot_loop_def greybus_loop_def by (intro calm_intros)

lemma calm_greybus_ops [calm_intros]:
  "calm (greybus_init E)" "calm (data_load_greybus_init E)" "calm (data_load_greybus_finish E valid secure)"
  unfolding greybus_init_def greybus_register_handlers_def data_load_greybus_init_def gbboot_firmware_size_def
    data_load_greybus_finish_def gbboot_ready_to_boot_def
  by (intro calm_intros)+

lemma calm_load_blocks [calm_intros]: "calm (load_blocks E dst len hash pos prev_len)"
proof (induction E dst len hash pos prev_len rule: load_blocks.induct)
  case (1 E dst len hash pos prev_len)
  show ?case
    by (subst load_blocks.simps, unfold Let_def gbboot_get_firmware_def) (intro calm_intros; (rule 1)?; simp)
qed

lemma calm_greybus_load [calm_intros]: "calm (data_load_greybus_load E d n h)"
  unfolding data_load_greybus_load_def by (intro calm_intros)

lemma calm_load_greybus [calm_intros]: "calm (load_tftf_image E (greybus_ops E))"
  by (rule calm_load_image) (simp add: calm_loader_def greybus_ops_def calm_intros)

end
