(* ===== verification/Boot.thy ===== *)
theory Boot
  imports Calm
begin

text \<open>
  The entry point of the boot ROM, \<^verbatim>\<open>bootrom_main\<close> of \<^verbatim>\<open>apps/bootrom/src/start.c\<close>: initialisation,
  the boot from SPI flash, the boot over UniPro as the alternative or the fallback, and the halt when
  there is nothing to boot. Debug output is left out; it does not influence the rest. The theorems say
  when the boot ROM jumps: only to an image that was loaded, verified or allowed, with the access to the
  secrets locked for an image that is not trusted.
\<close>

section \<open>The boot sequence\<close>

abbreviation (input) "TSB_EBOOTSELECTOR_SPIBOOT_N \<equiv> 1 :: u32"

text \<open>The end of either path: lock the secrets for an image that is not trusted, report, jump.\<close>

definition start_image :: "env \<Rightarrow> bool \<Rightarrow> (u32 \<Rightarrow> ('a gbboot_scheme, u32) prog) \<Rightarrow> u32 \<Rightarrow> u32 \<Rightarrow>
    ('a gbboot_scheme, unit) prog" where
  "start_image E secure merge trusted untrusted =
     bind (if secure then skip else efuse_rig_for_untrusted) (\<lambda>_.
     bind (merge (if secure then trusted else untrusted)) (\<lambda>boot_status.
     bind (chip_advertise_boot_status E boot_status) (\<lambda>_.
     jump_to_image E)))"

text \<open>The second-stage image has been found on the flash; a return means that it could not be loaded.\<close>

definition spi_load_and_start :: "env \<Rightarrow> ('a gbboot_scheme, unit) prog" where
  "spi_load_and_start E =
     bind (chip_advertise_boot_status E INIT_STATUS_SPI_BOOT_STARTED) (\<lambda>_.
     bind (load_tftf_image E (spi_ops E)) (\<lambda>(rc, is_secure_image).
     if rc = 0 then
       bind (ops_finish (spi_ops E) True is_secure_image) (\<lambda>_.
       start_image E is_secure_image merge_errno_with_boot_status
         INIT_STATUS_TRUSTED_SPI_FLASH_BOOT_FINISHED INIT_STATUS_UNTRUSTED_SPI_FLASH_BOOT_FINISHED)
     else skip))"

definition spi_boot :: "env \<Rightarrow> ('a gbboot_scheme, unit) prog" where
  "spi_boot E =
     bind (ops_init (spi_ops E)) (\<lambda>_.
     bind (locate_ffff_element_on_storage E (spi_ops E) FFFF_ELEMENT_STAGE_2_FW) (\<lambda>(rc, _).
     bind (if rc = 0 then spi_load_and_start E else skip) (\<lambda>_.
     bind (ops_finish (spi_ops E) False False) (\<lambda>_.
     chip_clear_image_loading_ram E))))"

text \<open>
  The image is fetched over UniPro and started; a return, with the boot status to halt with, means that
  it could not be loaded.
\<close>

definition unipro_start :: "env \<Rightarrow> bool \<Rightarrow> u32 \<Rightarrow> bool \<Rightarrow> ('a gbboot_scheme, u32) prog" where
  "unipro_start E fallback boot_status is_secure_image =
     bind (ops_finish (greybus_ops E) True is_secure_image) (\<lambda>rc.
     if rc \<noteq> 0 then halt_and_catch_fire E boot_status
     else
       (let trusted = (if fallback then INIT_STATUS_FALLLBACK_TRUSTED_UNIPRO_BOOT_FINISHED
                       else INIT_STATUS_TRUSTED_UNIPRO_BOOT_FINISHED);
            untrusted = (if fallback then INIT_STATUS_FALLLBACK_UNTRUSTED_UNIPRO_BOOT_FINISHED
                         else INIT_STATUS_UNTRUSTED_UNIPRO_BOOT_FINISHED)
        in bind (start_image E is_secure_image return trusted untrusted) (\<lambda>_.
           return (if is_secure_image then trusted else untrusted))))"

definition unipro_load_and_start :: "env \<Rightarrow> bool \<Rightarrow> u32 \<Rightarrow> ('a gbboot_scheme, u32) prog" where
  "unipro_load_and_start E fallback boot_status =
     bind (load_tftf_image E (greybus_ops E)) (\<lambda>(rc, is_secure_image).
     bind (if rc = 0 then unipro_start E fallback boot_status is_secure_image else return boot_status) (\<lambda>boot_status.
     bind (ops_finish (greybus_ops E) False is_secure_image) (\<lambda>rc.
     if rc \<noteq> 0 then halt_and_catch_fire E boot_status else return boot_status)))"

definition unipro_boot :: "env \<Rightarrow> bool \<Rightarrow> ('a gbboot_scheme, u32) prog" where
  "unipro_boot E fallback =
     bind (if fallback then merge_errno_with_boot_status INIT_STATUS_FALLLBACK_UNIPRO_BOOT_STARTED
           else return INIT_STATUS_UNIPRO_BOOT_STARTED) (\<lambda>boot_status.
     bind (chip_advertise_boot_status E boot_status) (\<lambda>_.
     bind (greybus_init E) (\<lambda>rc.
     if rc \<noteq> 0 then halt_and_catch_fire E boot_status
     else
       bind (advertise_ready E) (\<lambda>_.
       bind (ops_init (greybus_ops E)) (\<lambda>rc.
       if rc \<noteq> 0 then halt_and_catch_fire E boot_status
       else unipro_load_and_start E fallback boot_status)))))"

text \<open>From the boot selector on; the last call does not return.\<close>

definition select_boot :: "env \<Rightarrow> ('a gbboot_scheme, unit) prog" where
  "select_boot E =
     bind (tsb_get_bootselector E) (\<lambda>register_val.
     let boot_from_spi = (register_val AND TSB_EBOOTSELECTOR_SPIBOOT_N = 0)
     in bind (if boot_from_spi then spi_boot E else skip) (\<lambda>_.
        bind (unipro_boot E boot_from_spi) (\<lambda>boot_status.
        halt_and_catch_fire E boot_status)))"

text \<open>The checks before it: the boot status and type are advertised and the e-fuses validated.\<close>

definition advertise_and_boot :: "env \<Rightarrow> bytes \<Rightarrow> ('a gbboot_scheme, unit) prog" where
  "advertise_and_boot E stack =
     bind (chip_advertise_boot_status E INIT_STATUS_OPERATING) (\<lambda>_.
     bind (chip_advertise_boot_type E) (\<lambda>rc.
     if rc \<noteq> 0 then halt_and_catch_fire E INIT_STATUS_OPERATING
     else
       bind (efuse_init E stack) (\<lambda>rc.
       if rc \<noteq> 0 then halt_and_catch_fire E INIT_STATUS_OPERATING
       else select_boot E)))"

definition bootrom_main :: "env \<Rightarrow> bytes \<Rightarrow> ('a gbboot_scheme, unit) prog" where
  "bootrom_main E stack =
     bind chip_init (\<lambda>_.
     bind (init_last_error E) (\<lambda>_.
     bind (crypto_init E) (\<lambda>_.
     bind (set_shared_function SHARED_FUNCTION_ENTER_STANDBY Enter_standby) (\<lambda>_.
     bind (chip_unipro_init E) (\<lambda>_.
     advertise_and_boot E stack)))))"

section \<open>The boot ROM never returns\<close>

lemma main_never_returns: "bootrom_main E stack s \<noteq> Ret r t"
proof
  have sel: "select_boot E u \<noteq> Ret x v" for x and u v :: "'a gbboot_scheme"
    by (auto simp: select_boot_def Let_def halt_never_returns elim!: bind_eq_RetE)
  assume "bootrom_main E stack s = Ret r t"
  then show False
    by (auto simp: bootrom_main_def advertise_and_boot_def halt_never_returns sel elim!: bind_eq_RetE split: if_splits)
qed

section \<open>Jumps\<close>

lemma jump_bindE:
  assumes "bind m f s = Stop (Jumped a) t" "calm m"
  obtains x u where "m s = Ret x u" "calm_rel s u" "f x u = Stop (Jumped a) t"
proof (cases "m s")
  case (Ret x u)
  with assms(1) calm_relD [OF assms(2) Ret] show ?thesis by (intro that) simp_all
next
  case (Stop k u)
  with assms calm_StopD show ?thesis by auto
qed

text \<open>What the image finds: the boot ROM's own areas are cleared, everything else is left alone.\<close>

definition areas_cleared :: "env \<Rightarrow> (u32 \<Rightarrow> u8) \<Rightarrow> (u32 \<Rightarrow> u8)" where
  "areas_cleared E m = (\<lambda>a.
     if bootrom_data_area E \<le> a \<and> a < communication_area E \<or> bufram_start E \<le> a \<and> a < bufram_end E
     then 0 else m a)"

text \<open>Between the histories \<open>h\<close> and \<open>h'\<close> the access to both secrets has been disabled.\<close>

definition secrets_locked :: "io_event list \<Rightarrow> io_event list \<Rightarrow> bool" where
  "secrets_locked h h' \<longleftrightarrow>
     (\<exists>ev. h' = ev @ h \<and> WrReg (ISAA_BASE + TSB_ISAA_DISABLE_IMS_ACCESS) 1 \<in> set ev \<and>
        WrReg (ISAA_BASE + TSB_ISAA_DISABLE_CMS_ACCESS) 1 \<in> set ev)"

text \<open>From state \<open>v\<close> control went to address \<open>a\<close> of the image.\<close>

definition handed_over :: "env \<Rightarrow> bool \<Rightarrow> 'a tftf_scheme \<Rightarrow> u32 \<Rightarrow> 'a tftf_scheme \<Rightarrow> bool" where
  "handed_over E secure v a t \<longleftrightarrow>
     a = start_location (tftf_header v) OR 1 \<and> ram t = areas_cleared E (ram v) \<and>
     shared_functions t = shared_functions v \<and> (secure \<or> secrets_locked (io v) (io t))"

lemma start_image_jump:
  fixes v :: "'a gbboot_scheme"
  assumes "start_image E secure merge x y v = Stop (Jumped a) t"
    and "\<And>b. calm (merge b)" "\<And>b. preserves only_errs (merge b)"
  shows "handed_over E secure v a t"
proof -
  let ?rig = "if secure then skip else efuse_rig_for_untrusted"
  have "calm ?rig" by (intro calm_intros)
  with assms(1) obtain v1 where v1: "?rig v = Ret () v1"
    and r1: "bind (merge (if secure then x else y)) (\<lambda>b. bind (chip_advertise_boot_status E b) (\<lambda>_. jump_to_image E)) v1
      = Stop (Jumped a) t"
    unfolding start_image_def by (rule jump_bindE) auto
  from r1 assms(2) obtain b v2 where v2: "merge (if secure then x else y) v1 = Ret b v2"
    and r2: "bind (chip_advertise_boot_status E b) (\<lambda>_. jump_to_image E) v2 = Stop (Jumped a) t"
    by (rule jump_bindE)
  from r2 calm_advertise obtain v3 where v3: "chip_advertise_boot_status E b v2 = Ret () v3"
    and r3: "jump_to_image E v3 = Stop (Jumped a) t" by (rule jump_bindE) auto
  from r3 calm_unipro(3) obtain v4 where v4: "chip_reset_before_jump E v3 = Ret () v4"
    and t: "a = start_location (tftf_header v4) OR 1" "ram t = areas_cleared E (ram v4)" "io t = io v4"
      "shared_functions t = shared_functions v4"
    unfolding jump_to_image_def
    by (rule jump_bindE) (auto simp: gets_def chip_jump_to_image_def modify_def stop_with_def areas_cleared_def)
  have "only_errs v1 v2" using preserves_RetD [OF assms(3) v2] .
  moreover have "only_errs v2 v3" using preserves_RetD [OF advertise_only_errs v3] .
  moreover have "only_errs v3 v4" using preserves_RetD [OF reset_before_jump_only_io v4] by (rule only_io_only_errs)
  ultimately have "only_errs v1 v4" by (blast intro: only_errs_trans)
  then obtain ev where e: "io v4 = ev @ io v1" "tftf_header v4 = tftf_header v1" "ram v4 = ram v1"
      "shared_functions v4 = shared_functions v1"
    by (auto simp: only_errs_def)
  show ?thesis
  proof (cases secure)
    case True
    with v1 e t show ?thesis by (simp add: handed_over_def skip_def return_def)
  next
    case False
    with v1 have "v1 = v\<lparr>io := WrReg (ISAA_BASE + TSB_ISAA_DISABLE_CMS_ACCESS) 1 #
        WrReg (ISAA_BASE + TSB_ISAA_DISABLE_IMS_ACCESS) 1 # io v\<rparr>"
      by (simp add: efuse_rig_for_untrusted_def tsb_disable_ims_access_def tsb_disable_cms_access_def isaa_write_def putreg32_def)
    with e t False show ?thesis
      by (auto simp: handed_over_def secrets_locked_def intro!: exI [of _ "ev @ _"])
  qed
qed
lemma spi_finish_keeps:
  fixes u :: "'a gbboot_scheme"
  assumes "data_load_spi_finish valid secure u = Ret r v"
  shows "tftf_header v = tftf_header u \<and> ram v = ram u"
  using assms by (auto simp: data_load_spi_finish_def modify_def gets_def return_def skip_def tsb_clk_disable_def
      scm_write_def putreg32_def elim!: bind_eq_RetE split: if_splits)

lemma spi_ops_sel: "ops_init (spi_ops E) = data_load_spi_init" "ops_finish (spi_ops E) = data_load_spi_finish"
  by (simp_all add: spi_ops_def)

lemma calm_if_jump: "(if b then m else n) s = Stop (Jumped a) t \<Longrightarrow> calm n \<Longrightarrow> b \<and> m s = Stop (Jumped a) t"
  by (auto simp: calm_StopD split: if_splits)

text \<open>A jump out of the boot from flash: the image was loaded and nothing has changed it since.\<close>

lemma spi_start_jump:
  fixes s :: "'a gbboot_scheme"
  assumes "spi_load_and_start E s = Stop (Jumped a) t" "crypto_ready s"
  shows "\<exists>m0 secure (u :: 'a gbboot_scheme) v. image_loaded E m0 secure u \<and> tftf_header v = tftf_header u \<and> ram v = ram u \<and>
    handed_over E secure v a t \<and> calm_rel s v"
proof -
  let ?go = "\<lambda>sec. start_image E sec merge_errno_with_boot_status
      INIT_STATUS_TRUSTED_SPI_FLASH_BOOT_FINISHED INIT_STATUS_UNTRUSTED_SPI_FLASH_BOOT_FINISHED"
  let ?start = "\<lambda>(rc :: int) sec. if rc = 0 then bind (data_load_spi_finish True sec) (\<lambda>_. ?go sec) else skip"
  from assms(1) obtain s3 where s3: "calm_rel s s3" and
    r3: "bind (load_tftf_image E (spi_ops E)) (\<lambda>(rc, sec). ?start rc sec) s3 = Stop (Jumped a) t"
    unfolding spi_load_and_start_def spi_ops_sel by (erule_tac jump_bindE) (auto intro: calm_advertise)
  from r3 calm_load_spi obtain rc sec u where u: "load_tftf_image E (spi_ops E) s3 = Ret (rc, sec) u" "calm_rel s3 u" and
    r4: "?start rc sec u = Stop (Jumped a) t"
    by (elim jump_bindE) auto
  from calm_if_jump [OF r4 calm_basic(4)] have rc: "rc = 0"
    and r5: "bind (data_load_spi_finish True sec) (\<lambda>_. ?go sec) u = Stop (Jumped a) t" by auto
  from r5 calm_spi(4) obtain r v where v: "data_load_spi_finish True sec u = Ret r v" "calm_rel u v" and r6: "?go sec v = Stop (Jumped a) t"
    by (elim jump_bindE) auto
  have "crypto_ready s3" using s3 assms(2) by (simp add: calm_rel_def)
  then have "image_loaded E (ram s3) sec u" by (rule spi_tftf.image_run [OF u(1) [unfolded rc]])
  moreover have "tftf_header v = tftf_header u \<and> ram v = ram u" by (rule spi_finish_keeps [OF v(1)])
  moreover have "calm_rel s v" by (rule calm_rel.trans [OF calm_rel.trans [OF s3 u(2)] v(2)])
  moreover have "handed_over E sec v a t" by (rule start_image_jump [OF r6 calm_merge merge_only_errs])
  ultimately show ?thesis by blast
qed

text \<open>A program whose jumps come from its first part only.\<close>

lemma jump_firstE:
  assumes "bind m (\<lambda>_. n) s = Stop (Jumped a) t" "calm n"
  shows "m s = Stop (Jumped a) t"
  using assms calm_StopD [OF assms(2)] by (cases "m s") auto

lemma halt_no_jump [simp]: "halt_and_catch_fire E b s \<noteq> Stop (Jumped a) (t :: 'a crypto_scheme)"
  by (rule calm_StopD) (rule calm_errors)

lemma greybus_ops_sel:
  "ops_init (greybus_ops E) = data_load_greybus_init E" "ops_finish (greybus_ops E) = data_load_greybus_finish E"
  by (simp_all add: greybus_ops_def)

lemma jump_first_valueE:
  assumes "bind m n s = Stop (Jumped a) t" "\<And>x. calm (n x)"
  shows "m s = Stop (Jumped a) t"
  using assms(1) calm_StopD [OF assms(2)] by (cases "m s") auto

text \<open>
  A jump out of the boot over UniPro: the image was loaded, and the answer to the ready-to-boot
  request led from \<open>u\<close> to \<open>v\<close>.
\<close>

lemma unipro_start_jump:
  fixes u :: "'a gbboot_scheme"
  assumes "unipro_start E fallback b secure u = Stop (Jumped a) t"
  shows "\<exists>v. data_load_greybus_finish E True secure u = Ret 0 v \<and> handed_over E secure v a t \<and> calm_rel u v"
proof -
  let ?trusted = "if fallback then INIT_STATUS_FALLLBACK_TRUSTED_UNIPRO_BOOT_FINISHED
      else INIT_STATUS_TRUSTED_UNIPRO_BOOT_FINISHED"
  let ?untrusted = "if fallback then INIT_STATUS_FALLLBACK_UNTRUSTED_UNIPRO_BOOT_FINISHED
      else INIT_STATUS_UNTRUSTED_UNIPRO_BOOT_FINISHED"
  from assms obtain rc v where v: "data_load_greybus_finish E True secure u = Ret rc v" "calm_rel u v" and
    r: "(if rc \<noteq> 0 then halt_and_catch_fire E b
        else bind (start_image E secure return ?trusted ?untrusted) (\<lambda>_. return (if secure then ?trusted else ?untrusted))) v
      = Stop (Jumped a) t"
    unfolding unipro_start_def greybus_ops_sel Let_def by (erule_tac jump_bindE) (rule calm_greybus_ops)
  have rc: "rc = 0" using r by (cases "rc = 0") auto
  with r have "start_image E secure return ?trusted ?untrusted v = Stop (Jumped a) t"
    by (intro jump_firstE [OF _ calm_basic(1)]) simp
  then have "handed_over E secure v a t"
    by (rule start_image_jump) (rule calm_basic only_errs.pres_return)+
  with v rc show ?thesis by blast
qed

lemma unipro_load_jump:
  fixes s :: "'a gbboot_scheme"
  assumes "unipro_load_and_start E fallback b s = Stop (Jumped a) t" "crypto_ready s"
  shows "\<exists>m0 secure u v. image_loaded E m0 secure u \<and> data_load_greybus_finish E True secure u = Ret 0 v \<and>
    handed_over E secure v a t \<and> calm_rel s v"
proof -
  let ?final = "\<lambda>sec b. bind (data_load_greybus_finish E False sec) (\<lambda>rc.
      if rc \<noteq> 0 then halt_and_catch_fire E b else return b)"
  from assms(1) obtain rc secure u where u: "load_tftf_image E (greybus_ops E) s = Ret (rc, secure) u" "calm_rel s u" and
    r: "bind (if rc = 0 then unipro_start E fallback b secure else return b) (?final secure) u = Stop (Jumped a) t"
    unfolding unipro_load_and_start_def greybus_ops_sel by (erule_tac jump_bindE) (auto intro: calm_intros)
  have "calm (?final secure c)" for c by (intro calm_intros)
  from calm_if_jump [OF jump_first_valueE [OF r this] calm_basic(1)]
  have rc: "rc = 0" and j: "unipro_start E fallback b secure u = Stop (Jumped a) t" by auto
  from greybus_tftf.image_run [OF u(1) [unfolded rc] assms(2)] unipro_start_jump [OF j] show ?thesis
    using calm_rel.trans [OF u(2)] by blast
qed

lemma jump_readyE:
  assumes "bind m f s = Stop (Jumped a) t" "crypto_ready s" "calm m"
  obtains x u where "m s = Ret x u" "crypto_ready u" "f x u = Stop (Jumped a) t"
  using jump_bindE [OF assms(1,3)] assms(2) unfolding calm_rel_def by metis

text \<open>A boot from flash that returns leaves the hash functions usable for the fallback.\<close>

lemma start_image_no_return: "start_image E secure merge x y s \<noteq> Ret r t"
  by (auto simp: start_image_def jump_to_image_def chip_jump_to_image_def stop_with_def elim!: bind_eq_RetE)

lemma spi_start_calm_rel:
  assumes "spi_load_and_start E s = Ret x t"
  shows "calm_rel s t"
proof -
  from assms(1) obtain u y v where u: "chip_advertise_boot_status E INIT_STATUS_SPI_BOOT_STARTED s = Ret () u" and
    v: "load_tftf_image E (spi_ops E) u = Ret y v" and
    r: "(case y of (rc, sec) \<Rightarrow> if rc = 0 then bind (data_load_spi_finish True sec) (\<lambda>_.
        start_image E sec merge_errno_with_boot_status
          INIT_STATUS_TRUSTED_SPI_FLASH_BOOT_FINISHED INIT_STATUS_UNTRUSTED_SPI_FLASH_BOOT_FINISHED) else skip) v = Ret x t"
    unfolding spi_load_and_start_def spi_ops_sel by (auto elim!: bind_eq_RetE)
  have "t = v" using r by (auto simp: skip_def return_def start_image_no_return elim!: bind_eq_RetE split: prod.splits if_splits)
  with calm_rel.trans [OF calm_relD [OF calm_advertise u] calm_relD [OF calm_load_spi v]] show ?thesis by simp
qed

text \<open>
  A stage can hash, and the table of shared functions offers the next stage what it needs for the same.
\<close>

definition rom_services :: "'a crypto_scheme \<Rightarrow> bool" where
  "rom_services s \<longleftrightarrow>
     shared_functions s SHARED_FUNCTION_SHA256_INIT = Some Shs256_init \<and>
     shared_functions s SHARED_FUNCTION_SHA256_PROCESS = Some Shs256_process \<and>
     shared_functions s SHARED_FUNCTION_SHA256_HASH = Some Shs256_hash \<and>
     shared_functions s SHARED_FUNCTION_RSA2048_VERIFY = Some Rsa_verify"

definition stage_ready :: "'a crypto_scheme \<Rightarrow> bool" where
  "stage_ready s \<longleftrightarrow> crypto_ready s \<and> rom_services s"

lemma calm_rel_ready: "calm_rel s t \<Longrightarrow> stage_ready s \<Longrightarrow> stage_ready t"
  by (simp add: calm_rel_def stage_ready_def rom_services_def)

text \<open>
  The jumps of a program that starts in such a state: \<open>guarded P m\<close> says that \<open>P\<close> holds at every jump
  of \<open>m\<close> and that \<open>m\<close>, where it returns, leaves such a state. What is calm is guarded, and guarded
  parts compose.
\<close>

definition guarded :: "(u32 \<Rightarrow> 'a crypto_scheme \<Rightarrow> bool) \<Rightarrow> ('a crypto_scheme, 'b) prog \<Rightarrow> bool" where
  "guarded P m \<longleftrightarrow> (\<forall>s. stage_ready s \<longrightarrow>
     (case m s of Ret _ t \<Rightarrow> stage_ready t | Stop k t \<Rightarrow> \<forall>a. k = Jumped a \<longrightarrow> P a t))"

named_theorems guarded_intros \<open>programs whose jumps are guarded\<close>

lemma guardedI:
  assumes "\<And>s x t. stage_ready s \<Longrightarrow> m s = Ret x t \<Longrightarrow> stage_ready t"
    and "\<And>s a t. stage_ready s \<Longrightarrow> m s = Stop (Jumped a) t \<Longrightarrow> P a t"
  shows "guarded P m"
  using assms unfolding guarded_def by (auto split: outcome.splits)

lemma guarded_jump: "guarded P m \<Longrightarrow> stage_ready s \<Longrightarrow> m s = Stop (Jumped a) t \<Longrightarrow> P a t"
  unfolding guarded_def by (drule spec [of _ s]) simp

lemma guarded_ready: "guarded P m \<Longrightarrow> stage_ready s \<Longrightarrow> m s = Ret x t \<Longrightarrow> stage_ready t"
  unfolding guarded_def by (drule spec [of _ s]) simp

lemma guarded_calm: "calm m \<Longrightarrow> guarded P m"
  by (rule guardedI) (auto dest: calm_relD calm_StopD intro: calm_rel_ready)

lemma guarded_bind [guarded_intros]:
  assumes "guarded P m" "\<And>x. guarded P (f x)"
  shows "guarded P (bind m f)"
proof (rule guardedI)
  fix s :: "'a crypto_scheme" and x t
  assume s: "stage_ready s"
  show "bind m f s = Ret x t \<Longrightarrow> stage_ready t"
    using s by (auto elim!: bind_eq_RetE dest: guarded_ready [OF assms(1)] guarded_ready [OF assms(2)])
  show "bind m f s = Stop (Jumped a) t \<Longrightarrow> P a t" for a
    using s guarded_ready [OF assms(1) s] guarded_jump [OF assms(1) s] guarded_jump [OF assms(2)]
    by (cases "m s") auto
qed

lemma guarded_if [guarded_intros]: "guarded P m \<Longrightarrow> guarded P n \<Longrightarrow> guarded P (if b then m else n)"
  by simp

lemma guarded_let [guarded_intros]: "(\<And>x. guarded P (f x)) \<Longrightarrow> guarded P (let x = a in f x)"
  by simp

lemma guarded_prod [guarded_intros]: "(\<And>x y. guarded P (f x y)) \<Longrightarrow> guarded P (case p of (x, y) \<Rightarrow> f x y)"
  by (cases p) simp

text \<open>What every jump of a boot sequence is shown to be.\<close>

definition proper_jump :: "env \<Rightarrow> u32 \<Rightarrow> 'a gbboot_scheme \<Rightarrow> bool" where
  "proper_jump E a t \<longleftrightarrow> rom_services t \<and> (\<exists>m0 secure (u :: 'a gbboot_scheme) v. image_loaded E m0 secure u \<and>
     (tftf_header v = tftf_header u \<and> ram v = ram u \<or> data_load_greybus_finish E True secure u = Ret 0 v) \<and>
     handed_over E secure v a t)"

lemma handed_over_services: "handed_over E secure v a t \<Longrightarrow> calm_rel s v \<Longrightarrow> stage_ready s \<Longrightarrow> rom_services t"
  by (drule (1) calm_rel_ready) (simp add: handed_over_def stage_ready_def rom_services_def)

lemma guarded_spi_start [guarded_intros]: "guarded (proper_jump E) (spi_load_and_start E)"
proof (rule guardedI)
  fix s t :: "'a gbboot_scheme" and x a
  assume s: "stage_ready s"
  show "spi_load_and_start E s = Ret x t \<Longrightarrow> stage_ready t"
    using s by (blast dest: spi_start_calm_rel calm_rel_ready)
  assume "spi_load_and_start E s = Stop (Jumped a) t"
  from spi_start_jump [OF this] s show "proper_jump E a t"
    by (auto simp: proper_jump_def stage_ready_def dest: handed_over_services [OF _ _ s])
qed

lemma unipro_load_calm_rel:
  fixes s :: "'a gbboot_scheme"
  assumes "unipro_load_and_start E fallback b s = Ret x t"
  shows "calm_rel s t"
proof -
  from assms(1) obtain rc sec u y v z where u: "load_tftf_image E (greybus_ops E) s = Ret (rc, sec) u" and
    v: "(if rc = 0 then unipro_start E fallback b sec else return b) u = Ret y v" and
    t: "data_load_greybus_finish E False sec v = Ret z t"
    unfolding unipro_load_and_start_def greybus_ops_sel
    by (fastforce simp: halt_never_returns return_def elim!: bind_eq_RetE split: if_splits)
  have "unipro_start E fallback b sec u \<noteq> Ret y v"
    by (auto simp: unipro_start_def greybus_ops_sel halt_never_returns start_image_no_return Let_def elim!: bind_eq_RetE split: if_splits)
  with v have "v = u" by (auto simp: return_def split: if_splits)
  with calm_relD [OF calm_load_greybus u] calm_relD [OF calm_greybus_ops(3) t] show ?thesis
    by (blast intro: calm_rel.trans)
qed

lemma guarded_unipro_load [guarded_intros]: "guarded (proper_jump E) (unipro_load_and_start E fallback b)"
proof (rule guardedI)
  fix s t :: "'a gbboot_scheme" and x a
  assume s: "stage_ready s"
  show "unipro_load_and_start E fallback b s = Ret x t \<Longrightarrow> stage_ready t"
    using s by (blast dest: unipro_load_calm_rel calm_rel_ready)
  assume "unipro_load_and_start E fallback b s = Stop (Jumped a) t"
  from unipro_load_jump [OF this] s show "proper_jump E a t"
    by (auto simp: proper_jump_def stage_ready_def dest: handed_over_services [OF _ _ s])
qed

text \<open>From the point where the hash functions are in place, the boot ROM is guarded.\<close>

lemma guarded_advertise_and_boot: "guarded (proper_jump E) (advertise_and_boot E stack)"
  unfolding advertise_and_boot_def select_boot_def spi_boot_def unipro_boot_def spi_ops_sel greybus_ops_sel
  by (rule guarded_intros | rule guarded_calm, (intro calm_intros; fail))+

text \<open>Both stages start in the same way; what matters is that \<^verbatim>\<open>crypto_init\<close> makes the stage ready.\<close>

lemma crypto_init_stage:
  assumes "boot_stage E = 1 \<or> rom_services s" "length (sh_w (shctx s)) = 80"
  shows "\<exists>t. crypto_init E s = Ret () t \<and> stage_ready t"
  using assms by (cases "boot_stage E = 1") (simp_all add: stage_ready_def crypto_init_def set_shared_function_def
      get_shared_function_def crypto_ready_def rom_services_def prog_defs)

lemma start_up_jump:
  fixes s :: "'a crypto_scheme"
  assumes "bind chip_init (\<lambda>_. bind (init_last_error E) (\<lambda>_. bind (crypto_init E) (\<lambda>_. rest))) s = Stop (Jumped a) t"
    and "boot_stage E = 1 \<or> rom_services s" "length (sh_w (shctx s)) = 80"
  obtains u where "rest u = Stop (Jumped a) t" "stage_ready u"
proof -
  from assms(1) obtain x s1 where s1: "chip_init s = Ret x s1" and
    r1: "bind (init_last_error E) (\<lambda>_. bind (crypto_init E) (\<lambda>_. rest)) s1 = Stop (Jumped a) t"
    by (rule jump_bindE [OF _ calm_chip(13)])
  from r1 obtain y s2 where s2: "init_last_error E s1 = Ret y s2" and
    r2: "bind (crypto_init E) (\<lambda>_. rest) s2 = Stop (Jumped a) t"
    by (rule jump_bindE [OF _ calm_errors(3)])
  have "only_errs s s2"
    using only_errs_trans [OF only_io_only_errs [OF preserves_RetD [OF chip_only_io(13) s1]]
        preserves_RetD [OF init_last_error_only_errs s2]] .
  then have "length (sh_w (shctx s2)) = 80" "boot_stage E = 1 \<or> rom_services s2"
    using assms(2,3) by (auto simp: only_errs_def rom_services_def)
  then obtain s3 where s3: "crypto_init E s2 = Ret () s3" "stage_ready s3" using crypto_init_stage by blast
  with r2 show ?thesis by (intro that) simp_all
qed

lemma main_jump:
  fixes s :: "'a gbboot_scheme"
  assumes "bootrom_main E stack s = Stop (Jumped a) t" "boot_stage E = 1" "length (sh_w (shctx s)) = 80"
  shows "proper_jump E a t"
proof -
  let ?rest = "bind (set_shared_function SHARED_FUNCTION_ENTER_STANDBY Enter_standby) (\<lambda>_. bind (chip_unipro_init E) (\<lambda>_.
      advertise_and_boot E stack)) :: ('a gbboot_scheme, unit) prog"
  from assms(1) obtain u where u: "?rest u = Stop (Jumped a) t" "stage_ready u"
    unfolding bootrom_main_def by (rule start_up_jump) (auto simp: assms)
  have "guarded (proper_jump E) ?rest"
    by (rule guarded_intros guarded_advertise_and_boot | rule guarded_calm, (intro calm_intros; simp; fail))+
  from guarded_jump [OF this u(2,1)] show ?thesis .
qed

section \<open>A flash that boots\<close>

text \<open>
  The table of the demonstration header of \<open>Ffff\<close> with, as its newest second-stage firmware, the
  unsigned image of \<open>Tftf\<close>.
\<close>

definition boot_flash :: "u32 \<Rightarrow> u8" where
  "boot_flash a = (if a < 0x2000 then demo_flash a else if 0x3000 \<le> a then image_flash (a - 0x3000) else 0)"

lemma boot_flash_table:
  assumes "a = 0 \<or> a = 0x1000"
  shows "flash_bytes boot_flash a 512 = map demo_byte [0..<512]"
proof -
  have "boot_flash ((a + word_of_nat i) AND 0x00FFFFFF) = demo_flash ((a + word_of_nat i) AND 0x00FFFFFF)" if "i < 512" for i
  proof -
    have "unat (a + word_of_nat i) < 0x2000"
      using assms that by (auto simp: unat_plus_if' unat_of_nat take_bit_nat_eq_self)
    then have "a + word_of_nat i < 0x2000" by (simp add: word_less_nat_alt)
    then have "(a + word_of_nat i) AND 0x00FFFFFF < 0x2000" by (rule le_less_trans [OF word_and_le2])
    then show ?thesis by (simp add: boot_flash_def)
  qed
  then have "flash_bytes boot_flash a 512 = flash_bytes demo_flash a 512"
    by (simp add: flash_bytes_def)
  with demo_flash_bytes [OF assms] show ?thesis by simp
qed

lemma boot_flash_image: "flash_bytes boot_flash 0x3000 512 = map image_byte [0..<512]"
proof -
  have m: "(0x00FFFFFF :: u32) = mask 24" by (simp add: mask_eq_exp_minus_1)
  have "boot_flash ((0x3000 + word_of_nat i) AND 0x00FFFFFF) = image_byte i" if "i < 512" for i
  proof -
    have u: "unat (0x3000 + word_of_nat i :: u32) = 0x3000 + i"
      using that by (simp add: unat_plus_if' unat_of_nat take_bit_nat_eq_self)
    then have "unat (take_bit 24 (0x3000 + word_of_nat i :: u32)) = 0x3000 + i"
      using that by (simp add: unsigned_take_bit_eq take_bit_nat_eq_self)
    then have v: "unat ((0x3000 + word_of_nat i :: u32) AND 0x00FFFFFF) = 0x3000 + i" by (simp only: m take_bit_eq_mask)
    then have "(0x3000 + word_of_nat i :: u32) AND 0x00FFFFFF = 0x3000 + word_of_nat i" using u by (simp only: word_unat_eq_iff)
    moreover have "\<not> (0x3000 + word_of_nat i :: u32) < 0x2000" "(0x3000 :: u32) \<le> 0x3000 + word_of_nat i"
      using u by (simp_all add: word_less_nat_alt word_le_nat_alt)
    ultimately show ?thesis using that
      by (simp add: boot_flash_def image_flash_def unat_of_nat take_bit_nat_eq_self)
  qed
  then show ?thesis by (simp add: flash_bytes_def)
qed
section \<open>Running the boot ROM\<close>

text \<open>Operations that return \<open>r\<close> from every state, to a state related to it by \<open>R\<close>.\<close>

definition yields :: "('s \<Rightarrow> 's \<Rightarrow> bool) \<Rightarrow> ('s, 'b) prog \<Rightarrow> 'b \<Rightarrow> bool" where
  "yields R m r \<longleftrightarrow> (\<forall>s. \<exists>t. m s = Ret r t \<and> R s t)"

lemma yieldsD: "yields R m r \<Longrightarrow> \<exists>t. m s = Ret r t \<and> R s t"
  by (simp add: yields_def)

lemma yields_mono: "yields Q m r \<Longrightarrow> (\<And>s t. Q s t \<Longrightarrow> R s t) \<Longrightarrow> yields R m r"
  unfolding yields_def by blast

context state_rel
begin

lemma yields_return: "yields R (return x) x"
  by (simp add: yields_def return_def refl)

lemma yields_skip: "yields R skip ()"
  unfolding skip_def by (rule yields_return)

lemma yields_modify: "(\<And>s. R s (f s)) \<Longrightarrow> yields R (modify f) ()"
  by (simp add: yields_def modify_def)

lemma yields_bind:
  assumes "yields R m x" "yields R (f x) y"
  shows "yields R (bind m f) y"
  unfolding yields_def
proof
  fix s
  obtain t where t: "m s = Ret x t" "R s t" using yieldsD [OF assms(1)] by blast
  obtain u where u: "f x t = Ret y u" "R t u" using yieldsD [OF assms(2)] by blast
  show "\<exists>t. bind m f s = Ret y t \<and> R s t"
    using t u by (intro exI [of _ u]) (simp add: trans [OF t(2) u(2)])
qed

text \<open>Running a program whose first operation is such.\<close>

lemma yields_step:
  assumes "yields R m x" "R s t" "\<And>u. R s u \<Longrightarrow> P (f x u)"
  shows "P (bind m f t)"
proof -
  obtain u where "m t = Ret x u" "R t u" using yieldsD [OF assms(1)] by blast
  with assms(3) [OF trans [OF assms(2)]] show ?thesis by simp
qed

end

text \<open>Operations that only access registers.\<close>

abbreviation (input) "answers m r \<equiv> yields only_io m r"

lemmas answers_return = only_io.yields_return
lemmas answers_skip = only_io.yields_skip
lemmas answers_bind = only_io.yields_bind

lemma only_io_event: "only_io s (s\<lparr>io := e # io s\<rparr>)"
  unfolding only_io_def by (rule exI [of _ "[e]"]) simp

lemma answers_putreg: "answers (putreg32 v a) ()"
  by (simp add: yields_def putreg32_def only_io_event)

lemma answers_getreg: "(\<And>h. dev E h a = v) \<Longrightarrow> answers (getreg32 E a) v"
  by (simp add: yields_def getreg32_def Let_def only_io_event)

lemma answers_poll:
  assumes "\<And>h. dev E h a = v" "ok v"
  shows "answers (poll_reg E a ok) ()"
proof -
  have "poll_reg E a ok s = Ret () (s\<lparr>io := RdReg a v # io s\<rparr>)" for s :: "'a machine_scheme"
    unfolding poll_reg_def using assms by (intro loopM_Inr) (simp add: getreg32_def Let_def return_def)
  then show ?thesis by (simp add: yields_def only_io_event)
qed

lemma answers_attr_write:
  assumes "unipro_answers E"
  shows "answers (chip_unipro_attr_write E attr v sel peer) 0"
proof -
  have d: "dev E h (AIO_UNIPRO_BASE + A2D_ATTRACS_INT_BEF) = 1" "dev E h (AIO_UNIPRO_BASE + A2D_ATTRACS_STS_00) = 0" for h
    using assms by (simp_all add: unipro_answers_def)
  show ?thesis
    unfolding chip_unipro_attr_write_def unipro_attr_access_def tsb_unipro_write_def tsb_unipro_read_def if_True
    by (rule answers_bind answers_putreg answers_poll [OF d(1)] answers_getreg [OF d(2)] answers_return | simp add: answers_return)+
qed
lemma answers_clear_attrs: "unipro_answers E \<Longrightarrow> answers (clear_attrs E as c) 0"
  by (induction as) (auto intro: answers_return answers_bind [OF answers_attr_write])

lemma demo_env_regs:
  "dev (tftf_env img) h (AIO_UNIPRO_BASE + CPB_TXQUEUEEMPTY_0) = -1" "cport_max (tftf_env img) = 2"
  "dev (tftf_env img) h (SYSCTL_BASE + TSB_SCM_BOOTSELECTOR) = 0" "dev (tftf_env img) h (SYSCTL_BASE + TSB_SCM_ECCERROR) = 0"
  "dev (tftf_env img) h (SYSCTL_BASE + TSB_SCM_VID) = 0" "dev (tftf_env img) h (SYSCTL_BASE + TSB_SCM_PID) = 0"
  "\<not> cfgdata_valid (tftf_env img)"
  by (simp_all add: tftf_env_def flash_env_def es3_env_def AIO_UNIPRO_BASE_def SPI_BASE_def SYSCTL_BASE_def cfgdata_valid_def)

lemma answers_reset_cport:
  assumes "c = 0 \<or> c = 1"
  shows "answers (tsb_unipro_reset_cport (tftf_env img) c) 0"
proof -
  let ?E = "tftf_env img"
  have off: "CPB_TXQUEUEEMPTY_0 + push_bit 2 (drop_bit 5 c) = CPB_TXQUEUEEMPTY_0"
    using assms by (auto simp: drop_bit_eq_div)
  have bit: "(-1) AND push_bit (unat (c AND 31)) (1 :: u32) \<noteq> 0" using assms by auto
  have p: "answers (poll_reg ?E (AIO_UNIPRO_BASE + CPB_TXQUEUEEMPTY_0) (\<lambda>v. v AND push_bit (unat (c AND 31)) 1 \<noteq> 0)) ()"
    by (rule answers_poll [OF demo_env_regs(1)]) (rule bit)
  have "\<not> cport_max ?E \<le> c" using assms by (auto simp: demo_env_regs word_le_nat_alt)
  then show ?thesis
    unfolding tsb_unipro_reset_cport_def Let_def off
    by (simp only: if_False)
      (rule answers_bind answers_putreg p answers_return
        answers_clear_attrs [OF tftf_env_ok(2)] | simp only: if_False if_True simp_thms)+
qed

lemma answers_reset_all: "answers (tsb_reset_all_cports (tftf_env img)) 0"
proof -
  have "unat (cport_max (tftf_env img)) = Suc (Suc 0)" by (simp add: demo_env_regs)
  then show ?thesis
    using answers_reset_cport [of 0 img] answers_reset_cport [of 1 img]
    by (auto simp: tsb_reset_all_cports_def intro!: answers_bind answers_return)
qed

lemma answers_unipro_init:
  "answers (chip_unipro_init (tftf_env img)) ()" "answers (chip_reset_before_jump (tftf_env img)) ()"
  unfolding chip_unipro_init_def chip_reset_before_jump_def tsb_reset_before_jump_def
  by (rule answers_bind [OF answers_reset_all answers_skip])+

lemma answers_advertise: "answers (chip_advertise_boot_status (tftf_env img) b) ()"
proof -
  have w: "answers (chip_unipro_attr_write (tftf_env img) DME_ARA_INIT_STATUS b 0 False) 0"
    by (rule answers_attr_write) (rule tftf_env_ok)
  show ?thesis
    unfolding yields_def chip_advertise_boot_status_def advertise_with_def
  proof
    fix s :: "'a errs_scheme"
    show "\<exists>t. bind (gets boot_status_offline) (\<lambda>off. if off then skip else
        bind (chip_unipro_attr_write (tftf_env img) DME_ARA_INIT_STATUS b 0 False) (\<lambda>status. if status \<noteq> 0
          then bind (modify (\<lambda>s. s\<lparr>boot_status_offline := True\<rparr>)) (\<lambda>_. halt_with (\<lambda>_. skip) b) else skip)) s = Ret () t \<and> only_io s t"
      using yieldsD [OF w, of s] only_io.refl [of s] by (auto simp: gets_def skip_def return_def)
  qed
qed

lemma answers_boot_type: "answers (chip_advertise_boot_type (tftf_env img)) 0"
  unfolding chip_advertise_boot_type_def by (rule answers_attr_write) (rule tftf_env_ok)

lemma answers_zeros:
  assumes "\<And>i h. i < n \<Longrightarrow> dev E h (ISAA_BASE + (a + 4 * word_of_nat i)) = 0"
  shows "answers (isaa_read_n E a (4 * n) :: ('a machine_scheme, bytes) prog) (replicate (4 * n) 0)"
  using assms
proof (induction n arbitrary: a)
  case 0
  then show ?case by (simp add: isaa_read_n.simps answers_return)
next
  case (Suc n)
  have z: "u32_bytes 0 @ replicate m 0 = replicate (4 + m) 0" for m by (simp add: u32_bytes_def numeral_eq_Suc)
  have "answers (isaa_read E a :: ('a machine_scheme, u32) prog) 0"
    unfolding isaa_read_def using Suc.prems [of 0] by (intro answers_getreg) simp
  moreover have "answers (isaa_read_n E (a + 4) (4 * n) :: ('a machine_scheme, bytes) prog) (replicate (4 * n) 0)"
  proof (rule Suc.IH)
    show "dev E h (ISAA_BASE + (a + 4 + 4 * word_of_nat i)) = 0" if "i < n" for i h
      using Suc.prems [of "Suc i" h] that by (simp add: algebra_simps)
  qed
  ultimately show ?case
    using z [of "4 * n"] z [of 0]
    by (subst isaa_read_n.simps) (auto simp: u32_bytes_def intro!: answers_bind answers_return)
qed
lemma answers_ims: "answers (isaa_read_n (tftf_env img) TSB_ISAA_IMS0 32) (replicate 32 0)"
proof -
  have "dev (tftf_env img) h (ISAA_BASE + (TSB_ISAA_IMS0 + 4 * word_of_nat i)) = 0" if "i < 8" for i h
  proof -
    have "i = 0 \<or> i = 1 \<or> i = 2 \<or> i = 3 \<or> i = 4 \<or> i = 5 \<or> i = 6 \<or> i = 7" using that by arith
    then show ?thesis
      by (auto simp: tftf_env_def flash_env_def es3_env_def ISAA_BASE_def SPI_BASE_def AIO_UNIPRO_BASE_def)
  qed
  from answers_zeros [where n = 8, OF this] show ?thesis by simp
qed

text \<open>The buffers of the image loaders stay as they are.\<close>

definition same_buffers :: "'a tftf_scheme \<Rightarrow> 'a tftf_scheme \<Rightarrow> bool" where
  "same_buffers s t \<longleftrightarrow> header1 t = header1 s \<and> header2 t = header2 s \<and> tftf_header t = tftf_header s"

interpretation same_buffers: state_rel same_buffers
  by unfold_locales (auto simp: same_buffers_def)

lemma only_errs_buffers: "only_errs s t \<Longrightarrow> same_buffers s (t :: 'a tftf_scheme)"
  by (auto simp: only_errs_def same_buffers_def)

lemma answers_buffers: "answers m r \<Longrightarrow> yields same_buffers (m :: ('a tftf_scheme, 'b) prog) r"
  by (erule yields_mono) (rule only_errs_buffers, rule only_io_only_errs)

lemma efuse_run: "yields same_buffers (efuse_init (tftf_env img) stack) 0"
proof -
  let ?E = "tftf_env img"
  have "bit_weight (replicate n 0) = 0" for n by (induction n) (auto simp: bit_weight_def bot_fun_def)
  then have w: "valid_hamming_weight (replicate n 0) = (True, True)" for n
    by (simp add: valid_hamming_weight_def count_ones_weight)
  have z: "u32_bytes 0 = replicate 4 0" by (simp add: u32_bytes_def numeral_eq_Suc)
  have "answers (tsb_get_ims ?E stack IMS_MEANINGFUL_LENGTH) (put_bytes stack 0 (replicate 32 0))"
    using answers_bind [OF answers_ims [of img] answers_return] by (simp add: tsb_get_ims_def demo_env_regs)
  then have i: "answers (efuse_publish_ims ?E stack) 0"
    unfolding efuse_publish_ims_def by (rule answers_bind) (simp add: put_bytes_def w answers_return)
  have e: "answers (tsb_get_eccerror ?E) 0" "answers (tsb_get_ara_vid ?E) 0" "answers (tsb_get_ara_pid ?E) 0"
    by (simp_all add: tsb_get_eccerror_def tsb_get_ara_vid_def tsb_get_ara_pid_def scm_read_def demo_env_regs answers_getreg)
  show ?thesis
    unfolding efuse_init_def
    by (rule same_buffers.yields_bind answers_buffers [OF i] e [THEN answers_buffers] same_buffers.yields_modify
      | simp add: z w same_buffers_def)+
qed
lemma init_run:
  "yields same_buffers (init_last_error (tftf_env img)) ()" "yields same_buffers (crypto_init (tftf_env img)) ()"
  "yields same_buffers (set_shared_function i f) ()"
  by (auto simp: yields_def init_last_error_def crypto_init_def set_shared_function_def get_shared_function_def prog_defs
      tftf_env_ok same_buffers_def)

text \<open>The boot ROM gets to the boot selector, and from there to the flash.\<close>

lemma main_run:
  fixes s :: "'a gbboot_scheme"
  assumes "\<And>t :: 'a gbboot_scheme. same_buffers s t \<Longrightarrow> P (select_boot (tftf_env img) t)"
  shows "P (bootrom_main (tftf_env img) stack s)"
proof -
  note step = same_buffers.yields_step [where P = P]
  have chip: "answers chip_init ()" unfolding chip_init_def tsb_clk_init_def scm_write_def by (rule answers_putreg)
  show ?thesis
    unfolding bootrom_main_def advertise_and_boot_def
    apply (rule step [OF answers_buffers [OF chip] same_buffers.refl])
    apply (rule step [OF init_run(1)], assumption)
    apply (rule step [OF init_run(2)], assumption)
    apply (rule step [OF init_run(3)], assumption)
    apply (rule step [OF answers_buffers [OF answers_unipro_init(1)]], assumption)
    apply (rule step [OF answers_buffers [OF answers_advertise]], assumption)
    apply (rule step [OF answers_buffers [OF answers_boot_type]], assumption)
    apply (simp only: simp_thms if_False)
    apply (rule step [OF efuse_run], assumption)
    apply (simp only: simp_thms if_False)
    apply (rule assms, assumption)
    done
qed

lemma spi_init_run: "yields same_buffers data_load_spi_init 0"
  by (auto simp: yields_def data_load_spi_init_def prog_defs tsb_clk_enable_def scm_write_def putreg32_def same_buffers_def)

lemma spi_finish_run: "yields same_buffers (data_load_spi_finish v sec) 0"
  by (auto simp: yields_def data_load_spi_finish_def prog_defs tsb_clk_disable_def scm_write_def putreg32_def same_buffers_def)

lemma select_run:
  fixes s :: "'a gbboot_scheme"
  assumes "\<And>t :: 'a gbboot_scheme. same_buffers s t \<Longrightarrow> \<exists>u. spi_boot (tftf_env img) t = Stop k u"
  shows "\<exists>u. select_boot (tftf_env img) s = Stop k u"
proof -
  have "answers (tsb_get_bootselector (tftf_env img)) 0"
    unfolding tsb_get_bootselector_def scm_read_def by (rule answers_getreg) (rule demo_env_regs)
  from yieldsD [OF answers_buffers [OF this], of s] obtain t where
    "tsb_get_bootselector (tftf_env img) s = Ret 0 t" "same_buffers s t" by blast
  with assms [of t] show ?thesis by (auto simp: select_boot_def)
qed

lemma answers_rig: "answers efuse_rig_for_untrusted ()"
  unfolding efuse_rig_for_untrusted_def tsb_disable_ims_access_def tsb_disable_cms_access_def isaa_write_def
  by (rule answers_bind [OF answers_putreg answers_putreg])

text \<open>The final jump.\<close>

lemma start_image_run:
  fixes s :: "'a gbboot_scheme"
  shows "\<exists>t. start_image (tftf_env img) secure merge_errno_with_boot_status x y s =
    Stop (Jumped (start_location (tftf_header s) OR 1)) t"
proof -
  let ?E = "tftf_env img"
  have rig: "yields same_buffers (if secure then skip else efuse_rig_for_untrusted :: ('a gbboot_scheme, unit) prog) ()"
    by (simp add: same_buffers.yields_skip answers_buffers [OF answers_rig])
  obtain s1 :: "'a gbboot_scheme" where s1: "(if secure then skip else efuse_rig_for_untrusted) s = Ret () s1" "same_buffers s s1"
    using yieldsD [OF rig, of s] by blast
  obtain b where b: "merge_errno_with_boot_status (if secure then x else y) s1 = Ret b s1"
    by (simp add: merge_errno_with_boot_status_def get_last_error_def prog_defs)
  obtain s2 where s2: "chip_advertise_boot_status ?E b s1 = Ret () s2" "same_buffers s1 s2"
    using yieldsD [OF answers_buffers [OF answers_advertise], of img b s1] by blast
  obtain s3 where s3: "chip_reset_before_jump ?E s2 = Ret () s3" "same_buffers s2 s3"
    using yieldsD [OF answers_buffers [OF answers_unipro_init(2)], of img s2] by blast
  have "tftf_header s3 = tftf_header s" using s1(2) s2(2) s3(2) by (simp add: same_buffers_def)
  with s1(1) b s2(1) s3(1) show ?thesis
    by (simp add: start_image_def jump_to_image_def gets_def chip_jump_to_image_def modify_def stop_with_def)
qed
text \<open>Locating the firmware does not touch the image header.\<close>

definition header_kept :: "'a tftf_scheme \<Rightarrow> 'a tftf_scheme \<Rightarrow> bool" where
  "header_kept s t \<longleftrightarrow> tftf_header t = tftf_header s"

interpretation header_kept: state_rel header_kept
  by unfold_locales (auto simp: header_kept_def)

lemma kept_modify [intro]:
  "preserves header_kept (modify (\<lambda>s. s\<lparr>current_addr := f s\<rparr>))" "preserves header_kept (modify (set_header_buf w b))"
  "preserves header_kept (modify (\<lambda>s. s\<lparr>cur_header := c\<rparr>))" "preserves header_kept (modify (\<lambda>s. s\<lparr>cur_element := e\<rparr>))"
  by (intro header_kept.pres_modify; (cases w)?; simp add: header_kept_def)+

lemma only_errs_kept: "preserves only_errs m \<Longrightarrow> preserves header_kept (m :: ('a tftf_scheme, 'b) prog)"
  by (erule pres_mono) (auto simp: only_errs_def header_kept_def)

lemma spi_moves_kept: "preserves spi_moves m \<Longrightarrow> preserves header_kept (m :: ('a tftf_scheme, 'b) prog)"
  by (erule pres_mono) (auto simp: spi_moves_def header_kept_def)

lemmas kept_intros = header_kept.pres_intros kept_modify spi_start_moves [THEN spi_moves_kept]
  spi_receive_moves [THEN spi_moves_kept] spi_trailing_moves [THEN spi_moves_kept]
  putreg32_only_io [THEN only_io_pres_errs, THEN only_errs_kept] set_last_error_only_errs [THEN only_errs_kept]
  init_last_error_only_errs [THEN only_errs_kept]

lemma hash_update_kept: "preserves header_kept (hash_update bs)"
  by (auto simp: preserves_def hash_update_def prog_defs header_kept_def)

lemma spi_read_kept: "preserves header_kept (data_load_spi_read E a n)"
  unfolding data_load_spi_read_def data_load_spi_load_def by (intro kept_intros hash_update_kept)

lemma load_ffff_kept: "preserves header_kept (load_ffff_header E (data_load_spi_read E) w a)"
  unfolding load_ffff_header_def read_header_part_def validate_ffff_header_def by (intro kept_intros spi_read_kept)

lemma search_kept: "preserves header_kept (search_second_header E (data_load_spi_read E) addrs)"
  by (induction addrs) (auto intro!: kept_intros load_ffff_kept split: prod.split)

lemma locate_kept:
  fixes s :: "'a tftf_scheme"
  assumes "locate_ffff_element_on_storage E (spi_ops E) ty s = Ret r t"
  shows "tftf_header t = tftf_header s"
proof -
  have "preserves header_kept (locate_ffff_element_on_storage E (spi_ops E) ty :: ('a tftf_scheme, int \<times> u32) prog)"
    unfolding locate_ffff_element_on_storage_def locate_ffff_table_def locate_element_def spi_ops_def data_load_ops.simps
      option.case
    by (intro kept_intros load_ffff_kept search_kept spi_read_kept)
  from preserves_RetD [OF this assms] show ?thesis by (simp add: header_kept_def)
qed

lemma spi_boot_run:
  fixes s :: "'a gbboot_scheme"
  assumes "header1 s = replicate 4096 0" "header2 s = replicate 4096 0" "tftf_header s = replicate 4096 0"
  shows "\<exists>t. spi_boot (tftf_env boot_flash) s = Stop (Jumped 0x10000001) t"
proof -
  let ?E = "tftf_env boot_flash"
  obtain s1 where s1: "data_load_spi_init s = Ret 0 s1" "same_buffers s s1" using yieldsD [OF spi_init_run, of s] by blast
  from demo_locate [OF tftf_env_ok(1,3), of boot_flash s1] boot_flash_table s1(2) assms obtain s2 where
    s2: "locate_ffff_element_on_storage ?E (spi_ops ?E) FFFF_ELEMENT_STAGE_2_FW s1 = Ret (0, 0x1000) s2" "current_addr s2 = 0x3000"
    by (auto simp: same_buffers_def)
  have h2: "tftf_header s2 = replicate 4096 0" using locate_kept [OF s2(1)] s1(2) assms(3) by (simp add: same_buffers_def)
  obtain s3 where s3: "chip_advertise_boot_status ?E INIT_STATUS_SPI_BOOT_STARTED s2 = Ret () s3" "only_io s2 s3"
    using yieldsD [OF answers_advertise, of boot_flash INIT_STATUS_SPI_BOOT_STARTED s2] by blast
  have "current_addr s3 = 0x3000" "tftf_header s3 = replicate 4096 0" using s3(2) s2(2) h2 by (auto simp: only_io_def)
  with image_load_run [of boot_flash s3] boot_flash_image obtain s4 where
    s4: "load_tftf_image ?E (spi_ops ?E) s3 = Ret (0, False) s4" "tftf_header s4 = image_header" by auto
  obtain s5 where s5: "data_load_spi_finish True False s4 = Ret 0 s5" "same_buffers s4 s5"
    using yieldsD [OF spi_finish_run, of True False s4] by blast
  have "start_location (tftf_header s5) OR 1 = 0x10000001"
    using s5(2) s4(2) by (simp add: same_buffers_def image_fields)
  with start_image_run [of boot_flash False INIT_STATUS_TRUSTED_SPI_FLASH_BOOT_FINISHED
      INIT_STATUS_UNTRUSTED_SPI_FLASH_BOOT_FINISHED s5] obtain t where
    t: "start_image ?E False merge_errno_with_boot_status INIT_STATUS_TRUSTED_SPI_FLASH_BOOT_FINISHED
      INIT_STATUS_UNTRUSTED_SPI_FLASH_BOOT_FINISHED s5 = Stop (Jumped 0x10000001) t" by auto
  have "spi_load_and_start ?E s2 = Stop (Jumped 0x10000001) t"
    using s3(1) s4(1) s5(1) t by (simp add: spi_load_and_start_def spi_ops_sel)
  then show ?thesis using s1(1) s2(1) by (simp add: spi_boot_def spi_ops_sel)
qed
section \<open>Properties\<close>


lemma reset_gbboot_buffers:
  "header1 reset_gbboot = replicate 4096 0" "header2 reset_gbboot = replicate 4096 0"
  "tftf_header reset_gbboot = replicate 4096 0" "length (sh_w (shctx reset_gbboot)) = 80"
  by (simp_all add: reset_gbboot_def gbcore.defs reset_gbcore_def tftf.defs reset_tftf_def ffff.defs reset_ffff_def spi.defs
      reset_spi_def crypto.defs reset_crypto_def)

lemma demo_boot_run:
  fixes s :: "'a gbboot_scheme"
  assumes "header1 s = replicate 4096 0" "header2 s = replicate 4096 0" "tftf_header s = replicate 4096 0"
  shows "\<exists>t. bootrom_main (tftf_env boot_flash) stack s = Stop (Jumped 0x10000001) t"
proof (rule main_run [where P = "\<lambda>out. \<exists>t. out = Stop (Jumped 0x10000001) t"], rule select_run)
  fix t u :: "'a gbboot_scheme"
  assume "same_buffers s t" "same_buffers t u"
  with assms show "\<exists>v. spi_boot (tftf_env boot_flash) u = Stop (Jumped 0x10000001) v"
    by (intro spi_boot_run) (simp_all add: same_buffers_def)
qed





end
