(* ===== verification/Mcl_big.thy ===== *)
theory Mcl_big
  imports Prelude
begin

text \<open>
  The multi-precision integers of the MIRACL library (\<^verbatim>\<open>common/vendors/MIRACL/ara/src/lib/mcl_big.c\<close>) in
  the configuration the second stage is built with (\<^verbatim>\<open>apps/secondstage/MIRACL_cfg\<close>: curve C448,
  \<^verbatim>\<open>MCL_CHUNK\<close> 32). A \<^verbatim>\<open>MCL_BIG\<close> is an array of 17 signed 32-bit limbs to the base \<open>2 ^ 27\<close>, a \<^verbatim>\<open>DMCL_BIG\<close> one
  of 34. Limbs are integers, and every operation that may leave the 32 or 64 bits of its C type goes
  through \<open>s32\<close> or \<open>s64\<close>, which wrap around.

  A normalised number is the list \<open>limbs n v\<close>: the digits of its value \<open>v\<close>, the last one keeping the
  excess and the sign. Each operation is shown to take normalised numbers to the normalised number of
  the value it should have, so that no limb overflows on the way.
\<close>

section \<open>Machine integers\<close>

type_synonym chunk = int
type_synonym BIG = "chunk list"

definition s32 :: "int \<Rightarrow> int" where
  "s32 x = (x + 2 ^ 31) mod 2 ^ 32 - 2 ^ 31"

definition s64 :: "int \<Rightarrow> int" where
  "s64 x = (x + 2 ^ 63) mod 2 ^ 64 - 2 ^ 63"

abbreviation MCL_NLEN :: nat where "MCL_NLEN \<equiv> 17"
abbreviation MCL_BASEBITS :: nat where "MCL_BASEBITS \<equiv> 27"
abbreviation MCL_MODBYTES :: nat where "MCL_MODBYTES \<equiv> 56"
abbreviation MCL_BIGBITS :: nat where "MCL_BIGBITS \<equiv> 448"
abbreviation P_TBITS :: nat where "P_TBITS \<equiv> 16"

definition BMASK :: chunk where
  "BMASK = push_bit MCL_BASEBITS 1 - 1"

section \<open>Operations\<close>

definition MCL_BIG_zero :: BIG where
  "MCL_BIG_zero = replicate MCL_NLEN 0"

definition MCL_BIG_one :: BIG where
  "MCL_BIG_one = 1 # replicate (MCL_NLEN - 1) 0"

definition MCL_BIG_iszilch :: "BIG \<Rightarrow> bool" where
  "MCL_BIG_iszilch a \<longleftrightarrow> (\<forall>i<MCL_NLEN. a ! i = 0)"

definition MCL_BIG_add :: "BIG \<Rightarrow> BIG \<Rightarrow> BIG" where
  "MCL_BIG_add a b = map (\<lambda>i. s32 (a ! i + b ! i)) [0..<MCL_NLEN]"

definition MCL_BIG_sub :: "BIG \<Rightarrow> BIG \<Rightarrow> BIG" where
  "MCL_BIG_sub a b = map (\<lambda>i. s32 (a ! i - b ! i)) [0..<MCL_NLEN]"

text \<open>
  The carry loop, and the result of \<^verbatim>\<open>MCL_BIG_norm\<close>: the number and its excess above \<open>MCL_BIGBITS\<close>.
\<close>

fun norm_loop :: "BIG \<Rightarrow> chunk \<Rightarrow> BIG" where
  "norm_loop [] carry = []"
| "norm_loop [a] carry = [s32 (a + carry)]"
| "norm_loop (a # b # as) carry =
     (let d = s32 (a + carry) in (d AND BMASK) # norm_loop (b # as) (drop_bit MCL_BASEBITS d))"

definition MCL_BIG_norm :: "BIG \<Rightarrow> BIG \<times> chunk" where
  "MCL_BIG_norm a = (let r = norm_loop a 0 in (r, drop_bit P_TBITS (r ! (MCL_NLEN - 1))))"

definition MCL_BIG_inc :: "BIG \<Rightarrow> int \<Rightarrow> BIG" where
  "MCL_BIG_inc c d = (let r = fst (MCL_BIG_norm c) in r[0 := s32 (r ! 0 + d)])"

definition MCL_BIG_dec :: "BIG \<Rightarrow> int \<Rightarrow> BIG" where
  "MCL_BIG_dec c d = (let r = fst (MCL_BIG_norm c) in r[0 := s32 (r ! 0 - d)])"

text \<open>Shifts by less than a limb; the shifted-out part is the second component.\<close>

definition MCL_BIG_fshl :: "BIG \<Rightarrow> nat \<Rightarrow> BIG \<times> chunk" where
  "MCL_BIG_fshl a n =
     (let a = a[MCL_NLEN - 1 := s32 (push_bit n (a ! (MCL_NLEN - 1))) OR
                  drop_bit (MCL_BASEBITS - n) (a ! (MCL_NLEN - 2))];
          a = fold (\<lambda>i a. a[i := (s32 (push_bit n (a ! i)) AND BMASK) OR drop_bit (MCL_BASEBITS - n) (a ! (i - 1))])
                (rev [1..<MCL_NLEN - 1]) a;
          a = a[0 := s32 (push_bit n (a ! 0)) AND BMASK]
      in (a, drop_bit P_TBITS (a ! (MCL_NLEN - 1))))"

definition MCL_BIG_fshr :: "BIG \<Rightarrow> nat \<Rightarrow> BIG \<times> chunk" where
  "MCL_BIG_fshr a k =
     (let r = a ! 0 AND (s32 (push_bit k 1) - 1);
          a = fold (\<lambda>i a. a[i := drop_bit k (a ! i) OR (s32 (push_bit (MCL_BASEBITS - k) (a ! (i + 1))) AND BMASK)])
                [0..<MCL_NLEN - 1] a
      in (a[MCL_NLEN - 1 := drop_bit k (a ! (MCL_NLEN - 1))], r))"

text \<open>Conversion from and to big-endian bytes.\<close>

definition MCL_BIG_fromBytes :: "bytes \<Rightarrow> BIG" where
  "MCL_BIG_fromBytes b =
     fold (\<lambda>i a. let a = fst (MCL_BIG_fshl a 8) in a[0 := s32 (a ! 0 + uint (b ! i))]) [0..<MCL_MODBYTES] MCL_BIG_zero"

definition MCL_BIG_toBytes :: "BIG \<Rightarrow> bytes" where
  "MCL_BIG_toBytes a =
     fst (fold (\<lambda>i (b, c). (b[i := word_of_int (c ! 0 AND 0xff)], fst (MCL_BIG_fshr c 8)))
       (rev [0..<MCL_MODBYTES]) (replicate MCL_MODBYTES 0, fst (MCL_BIG_norm a)))"

text \<open>
  The product of two normalised numbers. The sums of the limb products at each distance are computed with
  one multiplication per pair of limbs: \<open>a\<^sub>i * b\<^sub>k + a\<^sub>k * b\<^sub>i\<close> is \<open>d\<^sub>i + d\<^sub>k + (a\<^sub>i - a\<^sub>k) * (b\<^sub>k - b\<^sub>i)\<close>,
  and the sums of the \<open>d\<^sub>i = a\<^sub>i * b\<^sub>i\<close> are shared.
\<close>

fun sums_up :: "(nat \<Rightarrow> int) \<Rightarrow> nat \<Rightarrow> int" where
  "sums_up d 0 = d 0"
| "sums_up d (Suc i) = s64 (sums_up d i + d (Suc i))"

fun sums_down :: "(nat \<Rightarrow> int) \<Rightarrow> nat \<Rightarrow> int" where
  "sums_down d 0 = d (MCL_NLEN - 1)"
| "sums_down d (Suc i) = s64 (sums_down d i + d (MCL_NLEN - 2 - i))"

definition comba_s :: "BIG \<Rightarrow> BIG \<Rightarrow> nat \<Rightarrow> int" where
  "comba_s a b j =
     (let d = (\<lambda>i. s64 (a ! i * b ! i)) in if j < MCL_NLEN then sums_up d j else sums_down d (2 * MCL_NLEN - 2 - j))"

function comba_inner :: "BIG \<Rightarrow> BIG \<Rightarrow> nat \<Rightarrow> nat \<Rightarrow> int \<Rightarrow> int" where
  "comba_inner a b i k t =
     (if i < k
      then comba_inner a b (i + 1) (k - 1) (s64 (t + s64 (s32 (a ! i - a ! k) * s32 (b ! k - b ! i))))
      else t)"
  by pat_completeness auto
termination by (relation "measure (\<lambda>(a, b, i, k, t). k - i)") auto

text \<open>One column: the limb, and the carry into the next.\<close>

definition comba_column :: "BIG \<Rightarrow> BIG \<Rightarrow> nat \<Rightarrow> int \<Rightarrow> int" where
  "comba_column a b j co =
     (let t = s64 (co + comba_s a b j)
      in if j < MCL_NLEN then comba_inner a b 0 j t else comba_inner a b (j - MCL_NLEN + 1) (MCL_NLEN - 1) t)"

definition comba_step :: "BIG \<Rightarrow> BIG \<Rightarrow> nat \<Rightarrow> BIG \<times> int \<Rightarrow> BIG \<times> int" where
  "comba_step a b j = (\<lambda>(c, co). let t = comba_column a b j co in (c @ [s32 t AND BMASK], drop_bit MCL_BASEBITS t))"

definition comba :: "BIG \<Rightarrow> BIG \<Rightarrow> BIG" where
  "comba a b =
     (let s0 = comba_s a b 0;
          (c, co) = fold (comba_step a b) [1..<2 * MCL_NLEN - 2] ([s32 s0 AND BMASK], drop_bit MCL_BASEBITS s0);
          t = s64 (comba_s a b (2 * MCL_NLEN - 2) + co)
      in c @ [s32 t AND BMASK, s32 (drop_bit MCL_BASEBITS t)])"

text \<open>
  The double-length number \<open>d\<close> split at \<open>MCL_BIGBITS\<close> into a top and a bottom part. The top part is filled
  from the most significant limb down.
\<close>

fun split_top :: "BIG \<Rightarrow> nat \<Rightarrow> nat \<Rightarrow> chunk \<Rightarrow> BIG" where
  "split_top d m 0 carry = []"
| "split_top d m (Suc i) carry =
     split_top d m i (s32 (push_bit (MCL_BASEBITS - m) (d ! (MCL_NLEN - 1 + i))) AND BMASK) @
     [drop_bit m (d ! (MCL_NLEN - 1 + i)) OR carry]"

definition MCL_BIG_split :: "BIG \<Rightarrow> nat \<Rightarrow> BIG \<times> BIG" where
  "MCL_BIG_split d n =
     (let m = n mod MCL_BASEBITS
      in (split_top d m MCL_NLEN (s32 (push_bit (MCL_BASEBITS - m) (d ! (2 * MCL_NLEN - 1)))),
          take (MCL_NLEN - 1) d @ [d ! (MCL_NLEN - 1) AND (s32 (push_bit m 1) - 1)]))"

section \<open>Machine arithmetic without overflow\<close>

text \<open>Powers of two are kept as they are, so that exponents can be added and compared.\<close>

declare power_numeral [simp del]

lemma s32_id: "- (2 ^ 31) \<le> x \<Longrightarrow> x < 2 ^ 31 \<Longrightarrow> s32 x = x"
  by (simp add: s32_def power_numeral)

lemma s64_id: "- (2 ^ 63) \<le> x \<Longrightarrow> x < 2 ^ 63 \<Longrightarrow> s64 x = x"
  by (simp add: s64_def power_numeral)

lemma s32_abs: "\<bar>x\<bar> < 2 ^ 31 \<Longrightarrow> s32 x = x"
  by (rule s32_id) linarith+

lemma s64_abs: "\<bar>x\<bar> < 2 ^ 63 \<Longrightarrow> s64 x = x"
  by (rule s64_id) linarith+

lemma div_less_mult: "0 < p \<Longrightarrow> v < B * p \<Longrightarrow> v div p < (B :: int)"
proof (rule ccontr)
  assume "0 < p" "v < B * p" "\<not> v div p < B"
  then have "B * p \<le> v div p * p" by (intro mult_right_mono) simp_all
  also have "\<dots> \<le> v" using \<open>0 < p\<close> by (simp add: minus_mod_eq_div_mult [symmetric])
  finally show False using \<open>v < B * p\<close> by simp
qed

lemma s32_mod: "n \<le> 32 \<Longrightarrow> s32 x mod 2 ^ n = x mod 2 ^ n"
proof -
  assume "n \<le> 32"
  then have "(2::int) ^ n dvd 2 ^ 32" by (rule le_imp_power_dvd)
  moreover have "(2::int) ^ 32 dvd s32 x - x"
  proof -
    have "s32 x - x = - (2 ^ 32 * ((x + 2 ^ 31) div 2 ^ 32))"
      by (simp add: s32_def minus_div_mult_eq_mod [symmetric])
    then show ?thesis by simp
  qed
  ultimately show ?thesis by (meson dvd_trans mod_eq_dvd_iff)
qed

lemma and_BMASK: "x AND BMASK = x mod 2 ^ 27"
  using take_bit_eq_mask [of 27 x] by (simp add: BMASK_def mask_eq_exp_minus_1 take_bit_eq_mod push_bit_eq_mult)

lemma and_low_mask: "k < 31 \<Longrightarrow> x AND (s32 (push_bit k 1) - 1) = x mod 2 ^ k"
proof -
  assume "k < 31"
  then have "(2::int) ^ k < 2 ^ 31" by (intro power_strict_increasing) simp_all
  moreover have "- (2 ^ 31) \<le> (2 ^ k :: int)" by (rule order_trans [of _ 0]) simp_all
  ultimately have "s32 (push_bit k 1) - 1 = mask k"
    by (subst s32_id) (simp_all add: push_bit_eq_mult mask_eq_exp_minus_1)
  then show ?thesis by (simp add: take_bit_eq_mask [symmetric] take_bit_eq_mod)
qed

lemma s32_and_BMASK: "s32 x AND BMASK = x mod 2 ^ 27"
  by (simp add: and_BMASK s32_mod del: power_numeral)

text \<open>Disjoint bits: an \<^verbatim>\<open>|\<close> of a multiple of \<open>2 ^ n\<close> and a number below it is their sum.\<close>

lemma or_add: "0 \<le> y \<Longrightarrow> y < 2 ^ n \<Longrightarrow> (2 ^ n * x) OR y = 2 ^ n * x + (y :: int)"
proof -
  assume "0 \<le> y" "y < 2 ^ n"
  then have "take_bit n y = y" by (simp add: take_bit_eq_mod)
  then have "y OR push_bit n x = y + push_bit n x" using concat_bit_eq [of n y x] by (simp add: concat_bit_def)
  then show ?thesis by (simp add: push_bit_eq_mult or.commute ac_simps)
qed

lemma or_add': "0 \<le> y \<Longrightarrow> y < 2 ^ n \<Longrightarrow> y OR (2 ^ n * x) = 2 ^ n * x + (y :: int)"
  by (subst or.commute) (rule or_add)

section \<open>Numbers and their limbs\<close>

fun val :: "BIG \<Rightarrow> int" where
  "val [] = 0"
| "val (a # as) = a + 2 ^ 27 * val as"

fun limbs :: "nat \<Rightarrow> int \<Rightarrow> BIG" where
  "limbs 0 v = []"
| "limbs (Suc 0) v = [v]"
| "limbs (Suc (Suc n)) v = v mod 2 ^ 27 # limbs (Suc n) (v div 2 ^ 27)"

lemma length_limbs [simp]: "length (limbs n v) = n"
  by (induction n v rule: limbs.induct) simp_all

lemma val_limbs [simp]: "0 < n \<Longrightarrow> val (limbs n v) = v"
  by (induction n v rule: limbs.induct) simp_all

lemma power_27: "(2::int) ^ (27 * Suc i) = 2 ^ 27 * 2 ^ (27 * i)"
  by (simp only: mult_Suc_right power_add)

lemma nth_limbs: "i < n \<Longrightarrow> limbs n v ! i = (if Suc i = n then v div 2 ^ (27 * i) else v div 2 ^ (27 * i) mod 2 ^ 27)"
proof (induction n v arbitrary: i rule: limbs.induct)
  case (3 n v)
  then show ?case
    by (cases i) (simp_all add: power_add zdiv_zmult2_eq)
qed simp_all

lemma limbs_eqI:
  assumes "length as = n" "\<And>i. i < n \<Longrightarrow> as ! i = limbs n v ! i"
  shows "as = limbs n v"
  using assms by (simp add: nth_equalityI)

section \<open>Normalisation\<close>

text \<open>
  Limbs that may be normalised: \<open>within B as\<close> bounds their size. The carry loop turns any number with limbs
  of at most \<open>2 ^ 30\<close> into its normal form.
\<close>

definition within :: "int \<Rightarrow> BIG \<Rightarrow> bool" where
  "within B as \<longleftrightarrow> (\<forall>a\<in>set as. \<bar>a\<bar> \<le> B)"

lemma within_nth: "within B as \<Longrightarrow> i < length as \<Longrightarrow> \<bar>as ! i\<bar> \<le> B"
  by (simp add: within_def)

lemma withinI: "(\<And>i. i < length as \<Longrightarrow> \<bar>as ! i\<bar> \<le> B) \<Longrightarrow> within B as"
  by (auto simp: within_def in_set_conv_nth)

lemma norm_loop_limbs: "within (2 ^ 30) as \<Longrightarrow> \<bar>c\<bar> \<le> 2 ^ 29 \<Longrightarrow> norm_loop as c = limbs (length as) (val as + c)"
proof (induction as c rule: norm_loop.induct)
  case (2 a c)
  then show ?case by (simp add: within_def s32_id power_numeral)
next
  case (3 a b as c)
  have "\<bar>a\<bar> \<le> 2 ^ 30" using 3(2) by (simp add: within_def)
  then have s: "s32 (a + c) = a + c" and "\<bar>(a + c) div 2 ^ 27\<bar> \<le> 2 ^ 29"
    using 3(3) by (auto intro!: s32_abs simp: power_numeral)
  then have "norm_loop (b # as) ((a + c) div 2 ^ 27) = limbs (length (b # as)) (val (b # as) + (a + c) div 2 ^ 27)"
    using 3(1) [OF refl] 3(2) by (simp add: s drop_bit_eq_div within_def)
  moreover have "val (b # as) + (a + c) div 2 ^ 27 = (val (a # b # as) + c) div 2 ^ 27"
    using div_mult_self2 [of "2 ^ 27 :: int" "a + c" "val (b # as)"] by (simp add: ac_simps)
  moreover have "(a + c) mod 2 ^ 27 = (val (a # b # as) + c) mod 2 ^ 27"
    using mod_mult_self2 [of "a + c" "2 ^ 27 :: int" "val (b # as)"] by (simp add: ac_simps)
  ultimately show ?case by (simp add: s and_BMASK drop_bit_eq_div Let_def)
qed simp

lemma MCL_BIG_norm_limbs:
  "within (2 ^ 30) as \<Longrightarrow> length as = 17 \<Longrightarrow> MCL_BIG_norm as = (limbs 17 (val as), val as div 2 ^ 448)"
  using norm_loop_limbs [of as 0] nth_limbs [of 16 17 "val as"]
  by (simp add: MCL_BIG_norm_def Let_def drop_bit_eq_div zdiv_zmult2_eq [symmetric] power_add [symmetric])

text \<open>A normalised number that leaves room in its top limb is bounded, and normalising it changes nothing.\<close>

lemma limbs_within:
  assumes "0 < n" "- (B * 2 ^ (27 * (n - 1))) \<le> v" "v < B * 2 ^ (27 * (n - 1))" "2 ^ 27 \<le> B"
  shows "within B (limbs n v)"
proof (rule withinI)
  fix i
  assume "i < length (limbs n v)"
  then have i: "i < n" by simp
  have p: "(0::int) < 2 ^ (27 * (n - 1))" by simp
  have "v div 2 ^ (27 * (n - 1)) < B" using p assms(3) by (rule div_less_mult)
  moreover have "- B \<le> v div 2 ^ (27 * (n - 1))"
    using zdiv_mono1 [OF assms(2) p] p by (simp add: minus_mult_left del: mult_minus_left)
  moreover have "v div 2 ^ (27 * i) mod 2 ^ 27 \<le> B"
    by (rule order_trans [OF less_imp_le [OF pos_mod_bound] assms(4)]) simp
  ultimately show "\<bar>limbs n v ! i\<bar> \<le> B" using i by (auto simp: nth_limbs)
qed

lemma MCL_BIG_norm_id:
  "- (2 ^ 462) \<le> v \<Longrightarrow> v < 2 ^ 462 \<Longrightarrow> MCL_BIG_norm (limbs 17 v) = (limbs 17 v, v div 2 ^ 448)"
  using MCL_BIG_norm_limbs [of "limbs 17 v"] limbs_within [of 17 "2 ^ 30" v] by (simp add: power_add [symmetric])

section \<open>In-place loops\<close>

text \<open>
  A loop that overwrites the limbs one by one, each from limbs it has not overwritten yet, computes every
  limb from the original number. Upwards the step may read from its own index on, downwards up to it.
\<close>

lemma fold_up:
  assumes "\<And>i b c. i < M \<Longrightarrow> length b = length a \<Longrightarrow> length c = length a \<Longrightarrow>
      (\<And>k. i \<le> k \<Longrightarrow> k < length a \<Longrightarrow> b ! k = c ! k) \<Longrightarrow> F i b = F i c"
    and "m \<le> M" "M \<le> length a"
  shows "length (fold (\<lambda>i a. a[i := F i a]) [0..<m] a) = length a \<and>
    (\<forall>j<length a. fold (\<lambda>i a. a[i := F i a]) [0..<m] a ! j = (if j < m then F j a else a ! j))"
  using assms(2)
proof (induction m)
  case (Suc m)
  let ?r = "fold (\<lambda>i a. a[i := F i a]) [0..<m] a"
  have r: "length ?r = length a" "\<And>j. j < length a \<Longrightarrow> ?r ! j = (if j < m then F j a else a ! j)"
    using Suc(1) Suc(2) by simp_all
  then have "F m ?r = F m a" using Suc(2) by (intro assms(1)) simp_all
  with r Suc(2) assms(3) show ?case by (auto simp: nth_list_update less_Suc_eq)
qed simp

lemma fold_down:
  assumes "\<And>i b c. i < m \<Longrightarrow> length b = length a \<Longrightarrow> length c = length a \<Longrightarrow>
      (\<And>k. k \<le> i \<Longrightarrow> b ! k = c ! k) \<Longrightarrow> F i b = F i c"
    and "l \<le> m" "m \<le> length a"
  shows "length (fold (\<lambda>i a. a[i := F i a]) (rev [l..<m]) a) = length a \<and>
    (\<forall>j<length a. fold (\<lambda>i a. a[i := F i a]) (rev [l..<m]) a ! j = (if l \<le> j \<and> j < m then F j a else a ! j))"
  using assms(2)
proof (induction "m - l" arbitrary: l)
  case (Suc n)
  let ?r = "fold (\<lambda>i a. a[i := F i a]) (rev [Suc l..<m]) a"
  have "Suc l \<le> m" "n = m - Suc l" using Suc(2) by simp_all
  then have r: "length ?r = length a" "\<And>j. j < length a \<Longrightarrow> ?r ! j = (if Suc l \<le> j \<and> j < m then F j a else a ! j)"
    using Suc(1) [of "Suc l"] by simp_all
  then have "F l ?r = F l a" using \<open>Suc l \<le> m\<close> assms(3) by (intro assms(1)) simp_all
  moreover have "[l..<m] = l # [Suc l..<m]" using \<open>Suc l \<le> m\<close> by (simp add: upt_conv_Cons)
  ultimately show ?case using r assms(3) \<open>Suc l \<le> m\<close> by (auto simp: nth_list_update)
qed auto

section \<open>Shifts\<close>

lemma nth_limbs_bit:
  "i < n \<Longrightarrow> limbs n v ! i = (if Suc i = n then drop_bit (27 * i) v else take_bit 27 (drop_bit (27 * i) v))"
  by (simp add: nth_limbs drop_bit_eq_div take_bit_eq_mod)

lemma s32_and_BMASK_bit: "s32 x AND BMASK = take_bit 27 x"
  by (simp add: s32_and_BMASK take_bit_eq_mod)

lemma s32_push_top:
  "0 \<le> v \<Longrightarrow> v * 2 ^ n < 2 ^ (k + 31) \<Longrightarrow> s32 (push_bit n (drop_bit k v)) = push_bit n (drop_bit k v)"
proof (rule s32_id)
  assume v: "0 \<le> v" "v * 2 ^ n < 2 ^ (k + 31)"
  show "- (2 ^ 31) \<le> push_bit n (drop_bit k v)"
    by (rule order_trans [of _ 0]) (simp_all add: v(1))
  have "v div 2 ^ k * 2 ^ n * 2 ^ k \<le> v * 2 ^ n"
    by (simp add: mult.commute [of _ "2 ^ n"] mult.assoc minus_mod_eq_div_mult [symmetric])
  also have "\<dots> < 2 ^ 31 * 2 ^ k" using v(2) by (simp add: power_add mult.commute)
  finally show "push_bit n (drop_bit k v) < 2 ^ 31" by (simp add: push_bit_eq_mult drop_bit_eq_div)
qed

lemma MCL_BIG_fshl_limbs:
  assumes "0 < n" "n < 27" "0 \<le> v" "v * 2 ^ n < 2 ^ 463"
  shows "MCL_BIG_fshl (limbs 17 v) n = (limbs 17 (v * 2 ^ n), v * 2 ^ n div 2 ^ 448)"
proof -
  let ?F = "\<lambda>i a. (s32 (push_bit n (a ! i)) AND BMASK) OR drop_bit (27 - n) (a ! (i - 1))"
  let ?a = "(limbs 17 v)[16 := s32 (push_bit n (limbs 17 v ! 16)) OR drop_bit (27 - n) (limbs 17 v ! 15)]"
  let ?b = "fold (\<lambda>i a. a[i := ?F i a]) (rev [1..<16]) ?a"
  let ?c = "?b[0 := s32 (push_bit n (?b ! 0)) AND BMASK]"
  have "length ?b = length ?a \<and> (\<forall>j<length ?a. ?b ! j = (if 1 \<le> j \<and> j < 16 then ?F j ?a else ?a ! j))"
    by (rule fold_down) simp_all
  then have b: "length ?b = 17" "\<And>j. j < 17 \<Longrightarrow> ?b ! j = (if 1 \<le> j \<and> j < 16 then ?F j ?a else ?a ! j)" by simp_all
  have top: "s32 (push_bit n (drop_bit 432 v)) = push_bit n (drop_bit 432 v)"
    using assms by (intro s32_push_top) simp_all
  have c: "?c = limbs 17 (push_bit n v)"
  proof (rule limbs_eqI)
    fix i :: nat
    assume i: "i < 17"
    consider "i = 0" | "1 \<le> i" "i < 16" | "i = 16" using i by linarith
    then show "?c ! i = limbs 17 (push_bit n v) ! i"
    proof cases
      case 1
      then show ?thesis using b by (simp add: nth_limbs_bit s32_and_BMASK_bit) (auto intro!: bit_eqI simp: bit_simps)
    next
      case 2
      then have "limbs 17 v ! (i - 1) = take_bit 27 (drop_bit (27 * (i - 1)) v)" by (subst nth_limbs_bit) simp_all
      moreover have "27 * (i - 1) + (27 - n + k) = 27 * i + k - n" for k using 2 assms(2) by simp
      ultimately show ?thesis using b 2 assms(1,2)
        by (auto intro!: bit_eqI simp: nth_limbs_bit s32_and_BMASK_bit bit_simps add.assoc)
    next
      case 3
      then show ?thesis using b assms(1,2) by (auto intro!: bit_eqI simp: top nth_limbs_bit bit_simps)
    qed
  qed (use b(1) in simp)
  then have "?c ! 16 = push_bit n v div 2 ^ 432" by (simp add: nth_limbs)
  then show ?thesis
    using c by (simp add: MCL_BIG_fshl_def Let_def push_bit_eq_mult drop_bit_eq_div zdiv_zmult2_eq [symmetric]
        power_add [symmetric])
qed

lemma MCL_BIG_fshr_limbs:
  assumes "0 < k" "k < 27"
  shows "MCL_BIG_fshr (limbs 17 v) k = (limbs 17 (v div 2 ^ k), v mod 2 ^ k)"
proof -
  let ?F = "\<lambda>i a. drop_bit k (a ! i) OR (s32 (push_bit (27 - k) (a ! (i + 1))) AND BMASK)"
  let ?b = "fold (\<lambda>i a. a[i := ?F i a]) [0..<16] (limbs 17 v)"
  let ?c = "?b[16 := drop_bit k (?b ! 16)]"
  have "length ?b = length (limbs 17 v) \<and>
      (\<forall>j<length (limbs 17 v). ?b ! j = (if j < 16 then ?F j (limbs 17 v) else limbs 17 v ! j))"
    by (rule fold_up [where M = 16]) simp_all
  then have b: "length ?b = 17" "\<And>j. j < 17 \<Longrightarrow> ?b ! j = (if j < 16 then ?F j (limbs 17 v) else limbs 17 v ! j)"
    by simp_all
  have c: "?c = limbs 17 (drop_bit k v)"
  proof (rule limbs_eqI)
    fix i :: nat
    assume i: "i < 17"
    then consider "i < 16" | "i = 16" by linarith
    then show "?c ! i = limbs 17 (drop_bit k v) ! i"
    proof cases
      case 1
      have "limbs 17 v ! (i + 1) = (if i = 15 then drop_bit (27 * (i + 1)) v else take_bit 27 (drop_bit (27 * (i + 1)) v))"
        using 1 by (subst nth_limbs_bit) simp_all
      moreover have "27 * (i + 1) + (j - (27 - k)) = 27 * i + k + j" if "27 - k \<le> j" for j
        using that assms(2) by simp
      ultimately have "?F i (limbs 17 v) = limbs 17 (drop_bit k v) ! i" using 1 assms
        by (auto intro!: bit_eqI simp: nth_limbs_bit s32_and_BMASK_bit bit_simps add.assoc add.commute add.left_commute)
      then show ?thesis using b 1 by simp
    next
      case 2
      then show ?thesis using b by (simp add: nth_limbs_bit ac_simps)
    qed
  qed (use b(1) in simp)
  have "limbs 17 v ! 0 AND (s32 (push_bit k 1) - 1) = v mod 2 ^ k"
    using assms by (subst and_low_mask) (simp_all add: nth_limbs mod_mod_cancel le_imp_power_dvd)
  then show ?thesis using c by (simp add: MCL_BIG_fshr_def Let_def drop_bit_eq_div)
qed

section \<open>Bytes\<close>

fun le_val :: "bytes \<Rightarrow> int" where
  "le_val [] = 0"
| "le_val (b # bs) = uint b + 2 ^ 8 * le_val bs"

definition le_bytes :: "nat \<Rightarrow> int \<Rightarrow> bytes" where
  "le_bytes n v = map (\<lambda>i. word_of_int (v div 2 ^ (8 * i))) [0..<n]"

lemma le_val_bounds: "0 \<le> le_val bs \<and> le_val bs < 2 ^ (8 * length bs)"
proof (induction bs)
  case (Cons b bs)
  have "0 \<le> uint b" "uint b < 2 ^ 8" using uint_lt2p [of b] by simp_all
  moreover have "2 ^ 8 * (le_val bs + 1) \<le> 2 ^ 8 * 2 ^ (8 * length bs)"
    using Cons by (intro mult_left_mono) simp_all
  ultimately show ?case using Cons by (simp add: power_add algebra_simps)
qed simp

lemma le_val_append: "le_val (xs @ ys) = le_val xs + 2 ^ (8 * length xs) * le_val ys"
  by (induction xs) (simp_all add: power_add algebra_simps)

lemma limbs_add_low:
  assumes "0 \<le> b" "u mod 2 ^ 27 + b < 2 ^ 27" "1 < n"
  shows "limbs n (u + b) = (limbs n u)[0 := limbs n u ! 0 + b]"
proof -
  have "n = Suc (Suc (n - 2))" using assms(3) by simp
  then obtain m where "n = Suc (Suc m)" by blast
  moreover have "(u + b) mod 2 ^ 27 = u mod 2 ^ 27 + b \<and> (u + b) div 2 ^ 27 = u div 2 ^ 27"
  proof -
    have "u + b = 2 ^ 27 * (u div 2 ^ 27) + (u mod 2 ^ 27 + b)" by simp
    moreover have "0 \<le> u mod 2 ^ 27 + b" using assms(1) by simp
    ultimately show ?thesis using assms(2) by (metis int_mod_pos_eq int_div_pos_eq)
  qed
  ultimately show ?thesis by simp
qed

lemma uint_u8: "0 \<le> uint (b :: u8)" "uint (b :: u8) < 2 ^ 8"
  using uint_lt2p [of b] by simp_all

lemma MCL_BIG_zero_limbs: "MCL_BIG_zero = limbs 17 0"
  by (rule limbs_eqI) (simp_all add: MCL_BIG_zero_def nth_limbs)

text \<open>One byte shifted in, and all of them.\<close>

lemma shift_in_byte:
  assumes "0 \<le> v" "v < 2 ^ 440"
  shows "(let a = fst (MCL_BIG_fshl (limbs 17 v) 8) in a[0 := s32 (a ! 0 + uint (b :: u8))]) = limbs 17 (uint b + 2 ^ 8 * v)"
proof -
  have "v * 2 ^ 8 < 2 ^ 463" using assms by (simp add: power_numeral)
  then have sh: "fst (MCL_BIG_fshl (limbs 17 v) 8) = limbs 17 (v * 2 ^ 8)" using assms by (simp add: MCL_BIG_fshl_limbs)
  have m: "v * 2 ^ 8 mod 2 ^ 27 = v mod 2 ^ 19 * 2 ^ 8"
    using mult_mod_right [of "2 ^ 8" v "2 ^ 19"] by (simp add: power_add [symmetric] mult.commute)
  have "v mod 2 ^ 19 \<le> 2 ^ 19 - 1" by simp
  then have "v mod 2 ^ 19 * 2 ^ 8 \<le> (2 ^ 19 - 1) * 2 ^ 8" by (intro mult_right_mono) simp_all
  then have s: "v * 2 ^ 8 mod 2 ^ 27 + uint b < 2 ^ 27"
    using uint_u8 [of b] m by (simp add: power_numeral)
  have l0: "limbs 17 (v * 2 ^ 8) ! 0 = v * 2 ^ 8 mod 2 ^ 27" by (simp add: nth_limbs)
  have "s32 (v * 2 ^ 8 mod 2 ^ 27 + uint b) = v * 2 ^ 8 mod 2 ^ 27 + uint b"
    using s uint_u8 [of b] by (intro s32_abs) (simp add: power_numeral)
  then show ?thesis
    using limbs_add_low [of "uint b" "v * 2 ^ 8" 17] s uint_u8 [of b] by (simp add: sh l0 Let_def ac_simps)
qed

lemma MCL_BIG_fromBytes_limbs:
  assumes "length b = 56"
  shows "MCL_BIG_fromBytes b = limbs 17 (le_val (rev b))"
proof -
  have "fold (\<lambda>i a. let a = fst (MCL_BIG_fshl a 8) in a[0 := s32 (a ! 0 + uint (b ! i))]) [0..<m] MCL_BIG_zero =
      limbs 17 (le_val (rev (take m b)))" if "m \<le> 56" for m
    using that
  proof (induction m)
    case (Suc m)
    have "take (Suc m) b = take m b @ [b ! m]" using Suc(2) assms by (simp add: take_Suc_conv_app_nth)
    moreover have "(2::int) ^ (8 * length (rev (take m b))) \<le> 2 ^ 440"
      using Suc(2) by (intro power_increasing) simp_all
    then have "0 \<le> le_val (rev (take m b)) \<and> le_val (rev (take m b)) < 2 ^ 440"
      using le_val_bounds [of "rev (take m b)"] by linarith
    ultimately show ?case using Suc by (simp add: shift_in_byte)
  qed (simp add: MCL_BIG_zero_limbs)
  from this [of 56] show ?thesis using assms by (simp add: MCL_BIG_fromBytes_def)
qed

lemma take_bytes_loop:
  "m \<le> length bs \<Longrightarrow>
   fst (fold (\<lambda>i (b, c). (b[i := word_of_int (c ! 0 AND 0xff)], fst (MCL_BIG_fshr c 8))) (rev [0..<m]) (bs, limbs 17 v)) =
   rev (le_bytes m v) @ drop m (bs :: bytes)"
proof (induction m arbitrary: bs v)
  case (Suc m)
  have b: "word_of_int (limbs 17 v ! 0 AND 0xff) = (word_of_int v :: u8)"
  proof -
    have "limbs 17 v ! 0 AND 0xff = take_bit 8 (take_bit 27 v)"
      by (simp add: nth_limbs_bit take_bit_eq_mask mask_eq_exp_minus_1 power_numeral)
    then show ?thesis by (simp add: take_bit_take_bit word_of_int_eq_iff)
  qed
  have "le_bytes (Suc m) v = word_of_int v # le_bytes m (v div 2 ^ 8)"
    by (simp only: le_bytes_def upt_conv_Cons map_Suc_upt [symmetric])
      (simp add: power_add zdiv_zmult2_eq)
  then show ?case using Suc(1) [of "bs[m := word_of_int v]" "v div 2 ^ 8"] Suc(2)
    by (simp add: b MCL_BIG_fshr_limbs drop_update_swap Cons_nth_drop_Suc [symmetric])
qed (simp add: le_bytes_def)

lemma MCL_BIG_toBytes_limbs:
  "- (2 ^ 462) \<le> v \<Longrightarrow> v < 2 ^ 462 \<Longrightarrow> MCL_BIG_toBytes (limbs 17 v) = rev (le_bytes 56 v)"
  by (simp add: MCL_BIG_toBytes_def MCL_BIG_norm_id take_bytes_loop)

section \<open>The product\<close>

text \<open>The sums of limb products: the diagonal ones and those of a column.\<close>

definition diag :: "BIG \<Rightarrow> BIG \<Rightarrow> nat \<Rightarrow> nat \<Rightarrow> int" where
  "diag a b i k = (\<Sum>m = i..k. a ! m * b ! m)"

definition col :: "BIG \<Rightarrow> BIG \<Rightarrow> nat \<Rightarrow> nat \<Rightarrow> int" where
  "col a b i k = (\<Sum>m = i..k. a ! m * b ! (i + k - m))"

definition column :: "BIG \<Rightarrow> BIG \<Rightarrow> nat \<Rightarrow> int" where
  "column a b j = col a b (j - 16) (min j 16)"

definition digits :: "BIG \<Rightarrow> bool" where
  "digits a \<longleftrightarrow> length a = 17 \<and> (\<forall>i<17. 0 \<le> a ! i \<and> a ! i < 2 ^ 27)"

lemma sum_ends: "(i::nat) < k \<Longrightarrow> (\<Sum>m = i..k. f m) = f i + f k + (\<Sum>m = i + 1..k - 1. f m :: int)"
proof -
  assume "i < k"
  then have "{i..k} = insert i (insert k {i + 1..k - 1})" "i \<noteq> k" by auto
  then show ?thesis using \<open>i < k\<close> by simp
qed

lemma prod_bounds:
  assumes "digits a" "digits b" "i < 17" "k < 17"
  shows "0 \<le> a ! i * b ! k" "a ! i * b ! k \<le> 2 ^ 54"
proof -
  have "0 \<le> a ! i" "a ! i < 2 ^ 27" "0 \<le> b ! k" "b ! k < 2 ^ 27" using assms by (auto simp: digits_def)
  then show "0 \<le> a ! i * b ! k" by simp
  have "a ! i * b ! k \<le> 2 ^ 27 * 2 ^ 27"
    using \<open>a ! i < _\<close> \<open>b ! k < _\<close> \<open>0 \<le> a ! i\<close> \<open>0 \<le> b ! k\<close> by (intro mult_mono) simp_all
  then show "a ! i * b ! k \<le> 2 ^ 54" by (simp add: power_add [symmetric])
qed

lemma diff_bounds:
  assumes "digits a" "i < 17" "k < 17"
  shows "\<bar>a ! i - a ! k\<bar> \<le> 2 ^ 27"
  using assms by (auto simp: digits_def abs_le_iff) (smt (verit, ccfv_threshold))+

lemma comba_inner_col:
  "digits a \<Longrightarrow> digits b \<Longrightarrow> k < 17 \<Longrightarrow> \<bar>t\<bar> + int (k - i) * 2 ^ 54 \<le> 2 ^ 62 \<Longrightarrow>
   comba_inner a b i k t = t - diag a b i k + col a b i k"
proof (induction a b i k t rule: comba_inner.induct)
  case (1 a b i k t)
  show ?case
  proof (cases "i < k")
    case True
    let ?p = "(a ! i - a ! k) * (b ! k - b ! i)"
    have d: "\<bar>a ! i - a ! k\<bar> \<le> 2 ^ 27" "\<bar>b ! k - b ! i\<bar> \<le> 2 ^ 27"
      using True 1(4) by (simp_all add: diff_bounds 1(2,3))
    then have "\<bar>?p\<bar> \<le> 2 ^ 27 * 2 ^ 27" unfolding abs_mult by (intro mult_mono) simp_all
    then have p: "\<bar>?p\<bar> \<le> 2 ^ 54" by (simp add: power_add [symmetric])
    have n: "int (k - i) = int (k - 1 - (i + 1)) + (if i + 1 = k then 1 else 2)" using True by auto
    have t: "\<bar>t + ?p\<bar> + int (k - 1 - (i + 1)) * 2 ^ 54 \<le> 2 ^ 62"
      using 1(5) p n by (simp add: distrib_right split: if_splits)
    have "\<bar>t + ?p\<bar> < 2 ^ 63" using t by (simp add: power_numeral)
    then have s: "s64 (t + s64 (s32 (a ! i - a ! k) * s32 (b ! k - b ! i))) = t + ?p"
      using d p by (simp add: s32_abs s64_abs power_numeral)
    have "comba_inner a b i k t = t + ?p - diag a b (i + 1) (k - 1) + col a b (i + 1) (k - 1)"
      using 1(1) [OF True 1(2,3)] 1(4) t True by (simp add: s del: comba_inner.simps) (simp add: s)
    moreover have "diag a b i k = a ! i * b ! i + a ! k * b ! k + diag a b (i + 1) (k - 1)"
      using True by (simp add: diag_def sum_ends)
    moreover have "col a b i k = a ! i * b ! k + a ! k * b ! i + col a b (i + 1) (k - 1)"
      using True by (simp add: col_def sum_ends)
    ultimately show ?thesis by (simp add: algebra_simps)
  next
    case False
    then consider "i = k" | "k < i" by linarith
    then show ?thesis by cases (simp_all add: diag_def col_def)
  qed
qed

declare comba_inner.simps [simp del]

lemma sum_bounds:
  fixes k :: nat
  assumes "\<And>m. m < 17 \<Longrightarrow> 0 \<le> f m \<and> f m \<le> 2 ^ 54" "k < 17"
  shows "0 \<le> (\<Sum>m = i..k. f m) \<and> (\<Sum>m = i..k. f m) \<le> (2 ^ 59 :: int)"
proof -
  have "(\<Sum>m = i..k. f m) \<le> of_nat (card {i..k}) * 2 ^ 54"
    by (rule sum_bounded_above) (use assms in auto)
  also have "\<dots> \<le> 17 * 2 ^ 54" using assms(2) by (intro mult_right_mono) simp_all
  finally have "(\<Sum>m = i..k. f m) \<le> 2 ^ 59" by (simp add: power_numeral)
  moreover have "0 \<le> (\<Sum>m = i..k. f m)" using assms by (intro sum_nonneg) auto
  ultimately show ?thesis by simp
qed

lemma diag_bounds: "digits a \<Longrightarrow> digits b \<Longrightarrow> k < 17 \<Longrightarrow> 0 \<le> diag a b i k \<and> diag a b i k \<le> 2 ^ 59"
  unfolding diag_def by (rule sum_bounds) (simp_all add: prod_bounds)

lemma col_bounds:
  assumes "digits a" "digits b" "k < 17"
  shows "0 \<le> col a b i k \<and> col a b i k \<le> 2 ^ 59"
proof -
  have "col a b i k = (\<Sum>m = i..k. if m \<le> k \<and> i \<le> m then a ! m * b ! (i + k - m) else 0)"
    unfolding col_def by (rule sum.cong) simp_all
  also have "0 \<le> \<dots> \<and> \<dots> \<le> 2 ^ 59" by (rule sum_bounds) (use assms in \<open>auto simp: prod_bounds\<close>)
  finally show ?thesis .
qed

lemma column_bounds: "digits a \<Longrightarrow> digits b \<Longrightarrow> 0 \<le> column a b j \<and> column a b j \<le> 2 ^ 59"
  by (simp add: column_def col_bounds)

lemma sums_up_diag:
  assumes "digits a" "digits b"
  shows "j < 17 \<Longrightarrow> sums_up (\<lambda>i. s64 (a ! i * b ! i)) j = diag a b 0 j"
proof (induction j)
  case 0
  then show ?case using prod_bounds [OF assms, of 0 0] by (simp add: diag_def s64_abs power_numeral)
next
  case (Suc j)
  have "s64 (a ! Suc j * b ! Suc j) = a ! Suc j * b ! Suc j"
    using prod_bounds [OF assms, of "Suc j" "Suc j"] Suc(2) by (simp add: s64_abs power_numeral)
  moreover have "diag a b 0 (Suc j) = diag a b 0 j + a ! Suc j * b ! Suc j" by (simp add: diag_def)
  ultimately show ?case using Suc diag_bounds [OF assms Suc(2), of 0] by (simp add: s64_abs power_numeral)
qed

lemma sums_down_diag:
  assumes "digits a" "digits b"
  shows "j < 17 \<Longrightarrow> sums_down (\<lambda>i. s64 (a ! i * b ! i)) j = diag a b (16 - j) 16"
proof (induction j)
  case 0
  then show ?case using prod_bounds [OF assms, of 16 16] by (simp add: diag_def s64_abs power_numeral)
next
  case (Suc j)
  have "s64 (a ! (15 - j) * b ! (15 - j)) = a ! (15 - j) * b ! (15 - j)"
    using prod_bounds [OF assms, of "15 - j" "15 - j"] by (simp add: s64_abs power_numeral less_imp_diff_less)
  moreover have "diag a b (16 - Suc j) 16 = diag a b (16 - j) 16 + a ! (15 - j) * b ! (15 - j)"
  proof -
    have "{16 - Suc j..16} = insert (15 - j) {16 - j..16}" "15 - j \<notin> {16 - j..16}" using Suc(2) by auto
    then show ?thesis by (simp add: diag_def)
  qed
  ultimately show ?case using Suc diag_bounds [OF assms, of 16 "16 - Suc j"] by (simp add: s64_abs power_numeral)
qed

lemma comba_s_diag:
  assumes "digits a" "digits b" "j \<le> 32"
  shows "comba_s a b j = diag a b (j - 16) (min j 16)"
proof (cases "j < 17")
  case True
  then show ?thesis using sums_up_diag [OF assms(1,2) True] by (auto simp: comba_s_def min_def)
next
  case False
  then show ?thesis using sums_down_diag [OF assms(1,2), of "32 - j"] assms(3) by (simp add: comba_s_def)
qed

lemma comba_column_correct:
  assumes "digits a" "digits b" "j \<le> 32" "0 \<le> co" "co \<le> 2 ^ 35"
  shows "comba_column a b j co = co + column a b j"
proof -
  let ?t = "co + comba_s a b j"
  have d: "0 \<le> comba_s a b j" "comba_s a b j \<le> 2 ^ 59"
    using diag_bounds [OF assms(1,2), of "min j 16" "j - 16"] by (simp_all add: comba_s_diag [OF assms(1-3)])
  then have t: "s64 ?t = ?t" using assms(4,5) by (intro s64_abs) (simp add: power_numeral)
  have "\<bar>?t\<bar> + int (min j 16 - (j - 16)) * 2 ^ 54 \<le> 2 ^ 62"
  proof -
    have "int (min j 16 - (j - 16)) * 2 ^ 54 \<le> 16 * 2 ^ 54" by (intro mult_right_mono) auto
    then show ?thesis using d assms(4,5) by (simp add: power_numeral)
  qed
  then have "comba_inner a b (j - 16) (min j 16) ?t = ?t - diag a b (j - 16) (min j 16) + column a b j"
    using comba_inner_col [OF assms(1,2), of "min j 16" ?t "j - 16"] by (simp add: column_def)
  moreover have "comba_column a b j co = comba_inner a b (j - 16) (min j 16) ?t"
  proof (cases "j < 17")
    case False
    then have "Suc (j - 17) = j - 16" by simp
    with False show ?thesis using t by (simp add: comba_column_def min_def)
  qed (use t in \<open>auto simp: comba_column_def min_def\<close>)
  ultimately show ?thesis by (simp add: comba_s_diag [OF assms(1-3)])
qed

text \<open>
  The running result: the limbs of the columns so far, the carry as the last one. A further column
  is added to the carry.
\<close>

lemma limbs_snoc:
  "limbs (Suc (Suc m)) (S + x * 2 ^ (27 * m)) =
     butlast (limbs (Suc m) S) @ [(last (limbs (Suc m) S) + x) mod 2 ^ 27, (last (limbs (Suc m) S) + x) div 2 ^ 27]"
proof (induction m arbitrary: S)
  case (Suc m)
  have e: "S + x * 2 ^ (27 * Suc m) = S + 2 ^ 27 * (x * 2 ^ (27 * m))" by (simp add: power_add)
  then have "(S + x * 2 ^ (27 * Suc m)) div 2 ^ 27 = S div 2 ^ 27 + x * 2 ^ (27 * m)"
    "(S + x * 2 ^ (27 * Suc m)) mod 2 ^ 27 = S mod 2 ^ 27" by (simp_all only: e) simp_all
  moreover have "limbs (Suc m) (S div 2 ^ 27) \<noteq> []" using length_limbs [of "Suc m"] by (metis Zero_not_Suc list.size(3))
  ultimately show ?case using Suc [of "S div 2 ^ 27"] by (simp only: limbs.simps) simp
qed simp

lemma val_append: "val (xs @ ys) = val xs + 2 ^ (27 * length xs) * val ys"
  by (induction xs) (simp_all add: power_add algebra_simps)

lemma val_sum: "val xs = (\<Sum>i<length xs. xs ! i * (2 ^ 27) ^ i)"
proof (induction xs)
  case (Cons x xs)
  then show ?case by (simp add: sum.lessThan_Suc_shift sum_distrib_left mult.left_commute del: sum.lessThan_Suc)
qed simp

definition columns :: "BIG \<Rightarrow> BIG \<Rightarrow> nat \<Rightarrow> int" where
  "columns a b m = val (map (column a b) [0..<m])"

lemma columns_Suc: "columns a b (Suc m) = columns a b m + column a b m * 2 ^ (27 * m)"
  by (simp add: columns_def val_append)

lemma comba_steps:
  assumes "digits a" "digits b" "comba_s a b 0 = column a b 0"
  shows "m \<le> 31 \<Longrightarrow>
    (case fold (comba_step a b) [1..<Suc m] ([s32 (comba_s a b 0) AND BMASK], drop_bit 27 (comba_s a b 0)) of
       (c, co) \<Rightarrow> c @ [co] = limbs (Suc (Suc m)) (columns a b (Suc m)) \<and> 0 \<le> co \<and> co \<le> 2 ^ 35)"
proof (induction m)
  case 0
  have "0 \<le> column a b 0 div 2 ^ 27" using column_bounds [OF assms(1,2), of 0] by (simp add: pos_imp_zdiv_nonneg_iff)
  moreover have "column a b 0 div 2 ^ 27 \<le> 2 ^ 35"
    using column_bounds [OF assms(1,2), of 0] by (auto simp: power_numeral)
  ultimately show ?case by (simp add: assms(3) columns_def s32_and_BMASK drop_bit_eq_div)
next
  case (Suc m)
  obtain c co where f: "fold (comba_step a b) [1..<Suc m]
      ([s32 (comba_s a b 0) AND BMASK], drop_bit 27 (comba_s a b 0)) = (c, co)" by fastforce
  have c: "c @ [co] = limbs (Suc (Suc m)) (columns a b (Suc m))" "0 \<le> co" "co \<le> 2 ^ 35" using Suc f by simp_all
  let ?t = "co + column a b (Suc m)"
  have t: "comba_column a b (Suc m) co = ?t" using Suc(2) c(2,3) by (intro comba_column_correct assms(1,2)) simp_all
  have b: "0 \<le> ?t div 2 ^ 27" using column_bounds [OF assms(1,2), of "Suc m"] c(2) by (simp add: pos_imp_zdiv_nonneg_iff)
  have b': "?t div 2 ^ 27 \<le> 2 ^ 35" using column_bounds [OF assms(1,2), of "Suc m"] c(2,3) by (auto simp: power_numeral)
  have "butlast (limbs (Suc (Suc m)) (columns a b (Suc m))) = c" "last (limbs (Suc (Suc m)) (columns a b (Suc m))) = co"
    by (simp_all add: c(1) [symmetric] del: limbs.simps)
  then have "c @ [?t mod 2 ^ 27, ?t div 2 ^ 27] = limbs (Suc (Suc (Suc m))) (columns a b (Suc (Suc m)))"
    using limbs_snoc [of "Suc m" "columns a b (Suc m)" "column a b (Suc m)"]
    by (simp only: columns_Suc [of a b "Suc m"])
  moreover have "fold (comba_step a b) [1..<Suc (Suc m)]
      ([s32 (comba_s a b 0) AND BMASK], drop_bit 27 (comba_s a b 0)) = (c @ [?t mod 2 ^ 27], ?t div 2 ^ 27)"
    using f by (simp add: comba_step_def t s32_and_BMASK drop_bit_eq_div Let_def)
  ultimately show ?case using b b' by (simp del: limbs.simps)
qed

lemma columns_product:
  assumes "length a = 17" "length b = 17"
  shows "columns a b 33 = val a * val b"
proof -
  let ?z = "\<lambda>xs i. if i < 17 then xs ! i else 0 :: int"
  have v: "val xs = (\<Sum>i\<le>16. ?z xs i * (2 ^ 27) ^ i)" if "length xs = 17" for xs
    unfolding val_sum that by (rule sum.cong) (auto simp: less_Suc_eq_le)
  have c: "column a b r = (\<Sum>k\<le>r. ?z a k * ?z b (r - k))" if "r \<le> 32" for r
  proof -
    have "column a b r = (\<Sum>k = r - 16..min r 16. ?z a k * ?z b (r - k))"
      unfolding column_def col_def using that by (intro sum.cong) (auto simp: min_def split: if_splits)
    also have "\<dots> = (\<Sum>k\<le>r. ?z a k * ?z b (r - k))"
      using that by (intro sum.mono_neutral_left) (auto simp: min_def split: if_splits)
    finally show ?thesis .
  qed
  have "columns a b 33 = (\<Sum>r\<le>32. column a b r * (2 ^ 27) ^ r)"
    unfolding columns_def val_sum by (rule sum.cong) (auto simp: less_Suc_eq_le)
  also have "\<dots> = (\<Sum>r\<le>16 + 16. (\<Sum>k\<le>r. ?z a k * ?z b (r - k)) * (2 ^ 27) ^ r)"
    by (rule sum.cong) (simp_all add: c)
  also have "\<dots> = val a * val b"
    using polynomial_product [of 16 "?z a" 16 "?z b" "2 ^ 27"] v [OF assms(1)] v [OF assms(2)] by simp
  finally show ?thesis .
qed

lemma limbs_digits:
  assumes "0 \<le> v" "v < 2 ^ 459"
  shows "digits (limbs 17 v)"
proof -
  have "v div 2 ^ 432 < 2 ^ 27" using assms(2) by (intro div_less_mult) (simp_all add: power_add [symmetric])
  moreover have "0 \<le> v div 2 ^ 432" using assms(1) by (simp add: pos_imp_zdiv_nonneg_iff)
  ultimately show ?thesis by (auto simp: digits_def nth_limbs)
qed

lemma comba_limbs:
  assumes "0 \<le> u" "u < 2 ^ 459" "0 \<le> v" "v < 2 ^ 459"
  shows "comba (limbs 17 u) (limbs 17 v) = limbs 34 (u * v)"
proof -
  let ?a = "limbs 17 u" and ?b = "limbs 17 v"
  have d: "digits ?a" "digits ?b" using assms by (simp_all add: limbs_digits)
  have s0: "comba_s ?a ?b 0 = column ?a ?b 0" by (simp add: comba_s_diag [OF d] diag_def column_def col_def)
  have s32: "comba_s ?a ?b 32 = column ?a ?b 32" by (simp add: comba_s_diag [OF d] diag_def column_def col_def)
  obtain c co where f: "fold (comba_step ?a ?b) [1..<Suc 31]
      ([s32 (comba_s ?a ?b 0) AND BMASK], drop_bit 27 (comba_s ?a ?b 0)) = (c, co)" by fastforce
  have c: "c @ [co] = limbs (Suc (Suc 31)) (columns ?a ?b (Suc 31))" "0 \<le> co" "co \<le> 2 ^ 35"
    using comba_steps [OF d s0, of 31] f by simp_all
  let ?t = "column ?a ?b 32 + co"
  have col: "0 \<le> column ?a ?b 32" "column ?a ?b 32 \<le> 2 ^ 54"
    using prod_bounds [OF d, of 16 16] by (simp_all add: column_def col_def)
  then have t: "s64 ?t = ?t" using c by (intro s64_abs) (simp add: power_numeral)
  have "\<bar>?t div 2 ^ 27\<bar> < 2 ^ 31" using col c(2,3) by (simp add: power_numeral)
  then have td: "s32 (?t div 2 ^ 27) = ?t div 2 ^ 27" by (rule s32_abs)
  have "butlast (limbs (Suc (Suc 31)) (columns ?a ?b (Suc 31))) = c" "last (limbs (Suc (Suc 31)) (columns ?a ?b (Suc 31))) = co"
    by (simp_all only: c(1) [symmetric] butlast_snoc last_snoc)
  then have "c @ [?t mod 2 ^ 27, ?t div 2 ^ 27] = limbs (Suc (Suc (Suc 31))) (columns ?a ?b (Suc (Suc 31)))"
    using limbs_snoc [of "Suc 31" "columns ?a ?b (Suc 31)" "column ?a ?b (Suc 31)"]
    by (simp only: columns_Suc [of ?a ?b "Suc 31"]) (simp add: add.commute del: limbs.simps)
  then have "c @ [?t mod 2 ^ 27, ?t div 2 ^ 27] = limbs 34 (u * v)"
    using columns_product [of ?a ?b] by (simp del: limbs.simps)
  then show ?thesis using f by (simp add: comba_def s32 t td s32_and_BMASK drop_bit_eq_div del: limbs.simps)
qed

section \<open>Splitting a product\<close>

lemma split_top_limbs:
  assumes "length d = 34" "\<And>i. i < n \<Longrightarrow> x ! i = drop_bit m (d ! (16 + i)) OR
      (if Suc i = n then carry else s32 (push_bit (27 - m) (d ! (17 + i))) AND BMASK)" "length x = n"
  shows "split_top d m n carry = x"
  using assms(2,3)
proof (induction n arbitrary: x carry)
  case (Suc n)
  then obtain y z where x: "x = y @ [z]" "length y = n" by (metis length_Suc_conv_rev)
  have "z = drop_bit m (d ! (16 + n)) OR carry" using Suc(2) [of n] x by (simp add: nth_append)
  moreover have "split_top d m n (s32 (push_bit (27 - m) (d ! (16 + n))) AND BMASK) = y"
  proof (rule Suc(1))
    fix i
    assume "i < n"
    moreover have "16 + n = 17 + i" if "Suc i = n" using that by simp
    ultimately show "y ! i = drop_bit m (d ! (16 + i)) OR
        (if Suc i = n then s32 (push_bit (27 - m) (d ! (16 + n))) AND BMASK
         else s32 (push_bit (27 - m) (d ! (17 + i))) AND BMASK)"
      using Suc(2) [of i] x(2) by (cases "Suc i = n") (simp_all only: x(1) nth_append if_True if_False, simp_all)
  qed (rule x(2))
  ultimately show ?case by (simp add: x)
qed simp

lemma MCL_BIG_split_limbs:
  assumes "0 \<le> w" "w < 2 ^ 911"
  shows "MCL_BIG_split (limbs 34 w) 448 = (limbs 17 (w div 2 ^ 448), limbs 17 (w mod 2 ^ 448))"
proof -
  have top: "s32 (push_bit 11 (drop_bit 891 w)) = push_bit 11 (drop_bit 891 w)"
    using assms by (intro s32_push_top) (simp_all add: power_numeral)
  have "split_top (limbs 34 w) 16 17 (s32 (push_bit 11 (limbs 34 w ! 33))) = limbs 17 (drop_bit 448 w)"
  proof (rule split_top_limbs)
    fix i :: nat
    assume i: "i < 17"
    have k: "459 + (27 * i + (k - 11)) = 448 + (27 * i + k)" if "11 \<le> k" for k using that by simp
    show "limbs 17 (drop_bit 448 w) ! i = drop_bit 16 (limbs 34 w ! (16 + i)) OR
        (if Suc i = 17 then s32 (push_bit 11 (limbs 34 w ! 33))
         else s32 (push_bit (27 - 16) (limbs 34 w ! (17 + i))) AND BMASK)"
    proof (cases "i < 16")
      case True
      then show ?thesis
        by (auto intro!: bit_eqI simp: nth_limbs_bit s32_and_BMASK_bit bit_simps k add.assoc add.commute add.left_commute)
    next
      case False
      then have "i = 16" using i by simp
      then show ?thesis by (auto intro!: bit_eqI simp: nth_limbs_bit top bit_simps)
    qed
  qed simp_all
  moreover have low: "x AND (s32 (push_bit 16 1) - 1) = take_bit 16 x" for x
    by (subst and_low_mask) (simp_all add: take_bit_eq_mod)
  have "take 16 (limbs 34 w) @ [limbs 34 w ! 16 AND (s32 (push_bit 16 1) - 1)] = limbs 17 (take_bit 448 w)"
  proof (rule limbs_eqI)
    fix i :: nat
    assume "i < 17"
    then consider "i < 16" | "i = 16" by linarith
    then show "(take 16 (limbs 34 w) @ [limbs 34 w ! 16 AND (s32 (push_bit 16 1) - 1)]) ! i = limbs 17 (take_bit 448 w) ! i"
      by cases (simp_all add: low nth_append nth_limbs_bit del: push_bit_of_1, auto intro!: bit_eqI simp: bit_simps)
  qed simp
  ultimately show ?thesis by (simp add: MCL_BIG_split_def drop_bit_eq_div take_bit_eq_mod)
qed

declare power_numeral [simp]

end
