(* ===== verification/Mcl_ff.thy ===== *)
theory Mcl_ff
  imports Mcl_big
begin

text \<open>
  The large integers built from several \<^verbatim>\<open>MCL_BIG\<close>s (\<^verbatim>\<open>common/vendors/MIRACL/ara/src/lib/mcl_ff.c\<close>): arrays of
  rows, each worth 448 bits. The multiplication works in place: it is called with pieces of the same
  arrays as operands, result and workspace, so the arrays live in a store that maps an array and a row to
  the limbs there, and every function takes the arrays and offsets the source passes.

  \<open>rows n v\<close> is the normal form of the value \<open>v\<close>. The Karatsuba recursion is shown to leave the normal form
  of the product in the result rows and to change nothing but the result and the workspace.
\<close>

unbundle bit_operations_syntax
declare power_numeral [simp del]

section \<open>Operations\<close>

text \<open>The arrays a caller passes, and the workspace \<^verbatim>\<open>t\<close> that \<^verbatim>\<open>MCL_FF_mul\<close> declares.\<close>

datatype arr = Arr nat | Work

type_synonym store = "arr \<times> nat \<Rightarrow> BIG"

definition FF_radd :: "arr \<Rightarrow> nat \<Rightarrow> arr \<Rightarrow> nat \<Rightarrow> arr \<Rightarrow> nat \<Rightarrow> nat \<Rightarrow> store \<Rightarrow> store" where
  "FF_radd z zp x xp y yp n =
     fold (\<lambda>i s. s((z, zp + i) := MCL_BIG_add (s (x, xp + i)) (s (y, yp + i)))) [0..<n]"

definition FF_rinc :: "arr \<Rightarrow> nat \<Rightarrow> arr \<Rightarrow> nat \<Rightarrow> nat \<Rightarrow> store \<Rightarrow> store" where
  "FF_rinc z zp y yp n = fold (\<lambda>i s. s((z, zp + i) := MCL_BIG_add (s (z, zp + i)) (s (y, yp + i)))) [0..<n]"

definition FF_rdec :: "arr \<Rightarrow> nat \<Rightarrow> arr \<Rightarrow> nat \<Rightarrow> nat \<Rightarrow> store \<Rightarrow> store" where
  "FF_rdec z zp y yp n = fold (\<lambda>i s. s((z, zp + i) := MCL_BIG_sub (s (z, zp + i)) (s (y, yp + i)))) [0..<n]"

text \<open>
  \<^verbatim>\<open>FF_rnorm\<close>: the excess of each row is removed from its top limb and added to the next row. \<open>trunc\<close> is the
  source's negative \<open>n\<close>.
\<close>

definition rnorm_step :: "arr \<Rightarrow> nat \<Rightarrow> nat \<Rightarrow> store \<Rightarrow> store" where
  "rnorm_step z zp i s =
     (let (r, carry) = MCL_BIG_norm (s (z, zp + i));
          r = r[MCL_NLEN - 1 := r ! (MCL_NLEN - 1) XOR s32 (push_bit P_TBITS carry)];
          s = s((z, zp + i) := r);
          q = s (z, zp + i + 1)
      in s((z, zp + i + 1) := q[0 := s32 (q ! 0 + carry)]))"

definition FF_rnorm :: "bool \<Rightarrow> arr \<Rightarrow> nat \<Rightarrow> nat \<Rightarrow> store \<Rightarrow> store" where
  "FF_rnorm trunc z zp n s =
     (let s = fold (rnorm_step z zp) [0..<n - 1] s;
          (r, carry) = MCL_BIG_norm (s (z, zp + n - 1))
      in s((z, zp + n - 1) :=
           (if trunc then r[MCL_NLEN - 1 := r ! (MCL_NLEN - 1) XOR s32 (push_bit P_TBITS carry)] else r)))"

definition MCL_FF_norm :: "arr \<Rightarrow> nat \<Rightarrow> store \<Rightarrow> store" where
  "MCL_FF_norm z n = FF_rnorm False z 0 n"

definition MCL_FF_inc :: "arr \<Rightarrow> int \<Rightarrow> nat \<Rightarrow> store \<Rightarrow> store" where
  "MCL_FF_inc x m n s = MCL_FF_norm x n (s((x, 0) := MCL_BIG_inc (s (x, 0)) m))"

definition MCL_FF_dec :: "arr \<Rightarrow> int \<Rightarrow> nat \<Rightarrow> store \<Rightarrow> store" where
  "MCL_FF_dec x m n s = MCL_FF_norm x n (s((x, 0) := MCL_BIG_dec (s (x, 0)) m))"

text \<open>\<open>w\<close> is the \<^verbatim>\<open>val\<close> buffer of the octet, most significant row first.\<close>

definition MCL_FF_fromOctet :: "arr \<Rightarrow> bytes \<Rightarrow> nat \<Rightarrow> store \<Rightarrow> store" where
  "MCL_FF_fromOctet x w n =
     fold (\<lambda>i s. s((x, i) := MCL_BIG_fromBytes (take MCL_MODBYTES (drop ((n - i - 1) * MCL_MODBYTES) w)))) [0..<n]"

definition MCL_FF_toOctet :: "arr \<Rightarrow> nat \<Rightarrow> store \<Rightarrow> bytes" where
  "MCL_FF_toOctet x n s =
     fold (\<lambda>i w. take ((n - i - 1) * MCL_MODBYTES) w @ MCL_BIG_toBytes (s (x, i)) @ drop ((n - i) * MCL_MODBYTES) w)
       [0..<n] (replicate (n * MCL_MODBYTES) 0)"

text \<open>
  \<^verbatim>\<open>MCL_BIG_mul\<close> normalises its operands where they are and writes a double-length number, which fills two
  rows; \<^verbatim>\<open>MCL_BIG_split\<close> reads it back from there.
\<close>

definition MCL_BIG_mul :: "arr \<times> nat \<Rightarrow> arr \<times> nat \<Rightarrow> arr \<times> nat \<Rightarrow> store \<Rightarrow> store" where
  "MCL_BIG_mul c a b s =
     (let s = s(a := fst (MCL_BIG_norm (s a)));
          s = s(b := fst (MCL_BIG_norm (s b)));
          d = comba (s a) (s b)
      in s(c := take MCL_NLEN d, (fst c, snd c + 1) := drop MCL_NLEN d))"

function FF_karmul ::
    "arr \<Rightarrow> nat \<Rightarrow> arr \<Rightarrow> nat \<Rightarrow> arr \<Rightarrow> nat \<Rightarrow> arr \<Rightarrow> nat \<Rightarrow> nat \<Rightarrow> store \<Rightarrow> store" where
  "FF_karmul z zp x xp y yp t tp n s =
     (if n \<le> 1 then
        (let s = MCL_BIG_mul (t, tp) (x, xp) (y, yp) s;
             (top, bot) = MCL_BIG_split (s (t, tp) @ s (t, tp + 1)) MCL_BIGBITS
         in s((z, zp) := bot, (z, zp + 1) := top))
      else
        (let nd2 = n div 2;
             s = FF_radd z zp x xp x (xp + nd2) nd2 s;
             s = FF_rnorm False z zp nd2 s;
             s = FF_radd z (zp + nd2) y yp y (yp + nd2) nd2 s;
             s = FF_rnorm False z (zp + nd2) nd2 s;
             s = FF_karmul t tp z zp z (zp + nd2) t (tp + n) nd2 s;
             s = FF_karmul z zp x xp y yp t (tp + n) nd2 s;
             s = FF_karmul z (zp + n) x (xp + nd2) y (yp + nd2) t (tp + n) nd2 s;
             s = FF_rdec t tp z zp n s;
             s = FF_rdec t tp z (zp + n) n s;
             s = FF_rinc z (zp + nd2) t tp n s
         in FF_rnorm False z zp (2 * n) s))"
  by pat_completeness auto
termination by (relation "measure (\<lambda>(z, zp, x, xp, y, yp, t, tp, n, s). n)") auto

declare FF_karmul.simps [simp del]

definition MCL_FF_mul :: "arr \<Rightarrow> arr \<Rightarrow> arr \<Rightarrow> nat \<Rightarrow> store \<Rightarrow> store" where
  "MCL_FF_mul z x y n = FF_karmul z 0 x 0 y 0 Work 0 n"

section \<open>Values and normal forms\<close>

text \<open>The value of \<open>n\<close> rows, the rows of the normal form of a value, and the rows an operation may touch.\<close>

definition fv :: "store \<Rightarrow> arr \<Rightarrow> nat \<Rightarrow> nat \<Rightarrow> int" where
  "fv s z zp n = (\<Sum>i<n. val (s (z, zp + i)) * 2 ^ (448 * i))"

definition row :: "nat \<Rightarrow> int \<Rightarrow> nat \<Rightarrow> BIG" where
  "row n w i = limbs 17 (if Suc i = n then w div 2 ^ (448 * i) else w div 2 ^ (448 * i) mod 2 ^ 448)"

definition holds :: "store \<Rightarrow> arr \<Rightarrow> nat \<Rightarrow> nat \<Rightarrow> int \<Rightarrow> bool" where
  "holds s z zp n w \<longleftrightarrow> (\<forall>i<n. s (z, zp + i) = row n w i)"

definition region :: "arr \<Rightarrow> nat \<Rightarrow> nat \<Rightarrow> (arr \<times> nat) set" where
  "region z zp n = {(z, i) | i. zp \<le> i \<and> i < zp + n}"

definition same_but :: "(arr \<times> nat) set \<Rightarrow> store \<Rightarrow> store \<Rightarrow> bool" where
  "same_but R s s' \<longleftrightarrow> (\<forall>l. l \<notin> R \<longrightarrow> s' l = s l)"

definition bounded :: "int \<Rightarrow> store \<Rightarrow> arr \<Rightarrow> nat \<Rightarrow> nat \<Rightarrow> bool" where
  "bounded B s z zp n \<longleftrightarrow> (\<forall>i<n. length (s (z, zp + i)) = 17 \<and> within B (s (z, zp + i)))"

lemma length_row [simp]: "length (row n w i) = 17"
  by (simp add: row_def)

lemma region_iff: "(a, i) \<in> region z zp n \<longleftrightarrow> a = z \<and> zp \<le> i \<and> i < zp + n"
  by (auto simp: region_def)

lemma region_in [simp]: "i < n \<Longrightarrow> (z, zp + i) \<in> region z zp n"
  by (simp add: region_iff)

lemma same_butD: "same_but R s s' \<Longrightarrow> l \<notin> R \<Longrightarrow> s' l = s l"
  unfolding same_but_def by blast

lemma same_but_refl: "same_but R s s"
  by (simp add: same_but_def)

lemma same_but_trans: "same_but R s s' \<Longrightarrow> same_but R' s' s'' \<Longrightarrow> R \<union> R' \<subseteq> Q \<Longrightarrow> same_but Q s s''"
  unfolding same_but_def by (metis Un_iff subset_iff)

lemma same_but_mono: "same_but R s s' \<Longrightarrow> R \<subseteq> Q \<Longrightarrow> same_but Q s s'"
  unfolding same_but_def by blast

lemma fv_add: "fv s z zp (m + n) = fv s z zp m + 2 ^ (448 * m) * fv s z (zp + m) n"
  by (induction n) (simp_all add: fv_def algebra_simps power_add)

lemma fv_cong: "(\<And>i. i < n \<Longrightarrow> s (z, zp + i) = s' (z', zp' + i)) \<Longrightarrow> fv s z zp n = fv s' z' zp' n"
  by (simp add: fv_def)

lemma holds_cong: "(\<And>i. i < n \<Longrightarrow> s' (z, zp + i) = s (z, zp + i)) \<Longrightarrow> holds s z zp n w \<Longrightarrow> holds s' z zp n w"
  by (simp add: holds_def)

lemma power_mult_Suc: "(2::int) ^ (448 * Suc i) = 2 ^ 448 * 2 ^ (448 * i)"
  by (simp only: mult_Suc_right power_add)

lemma digit_sum: "(\<Sum>i<n. w div 2 ^ (448 * i) mod 2 ^ 448 * 2 ^ (448 * i)) = w mod (2 :: int) ^ (448 * n)"
proof (induction n)
  case (Suc n)
  have "w mod (2 ^ (448 * n) * 2 ^ 448) = 2 ^ (448 * n) * (w div 2 ^ (448 * n) mod 2 ^ 448) + w mod 2 ^ (448 * n)"
    by (rule zmod_zmult2_eq) simp
  then show ?case using Suc by (simp only: power_mult_Suc) (simp add: mult.commute)
qed simp

lemma holds_fv:
  assumes "holds s z zp n w" "0 < n"
  shows "fv s z zp n = w"
proof -
  obtain m where n: "n = Suc m" using assms(2) gr0_implies_Suc by blast
  have "val (s (z, zp + i)) = w div 2 ^ (448 * i) mod 2 ^ 448" if "i < m" for i
    using assms(1) that by (simp add: holds_def row_def n)
  then have "fv s z zp m = (\<Sum>i<m. w div 2 ^ (448 * i) mod 2 ^ 448 * 2 ^ (448 * i))" by (simp add: fv_def)
  moreover have "val (s (z, zp + m)) = w div 2 ^ (448 * m)" using assms(1) by (simp add: holds_def row_def n)
  moreover have "fv s z zp n = fv s z zp m + val (s (z, zp + m)) * 2 ^ (448 * m)" by (simp add: n fv_def)
  ultimately show ?thesis by (simp add: digit_sum mod_div_mult_eq)
qed

lemma holds_split:
  assumes "holds s z zp (m + n) w" "0 < n"
  shows "holds s z zp m (w mod 2 ^ (448 * m))" "holds s z (zp + m) n (w div 2 ^ (448 * m))"
proof -
  have "row (m + n) w i = row m (w mod 2 ^ (448 * m)) i" if "i < m" for i
  proof -
    have m: "448 * m = 448 * i + 448 * (m - i)" using that by simp
    have "w mod 2 ^ (448 * m) div 2 ^ (448 * i) = w div 2 ^ (448 * i) mod 2 ^ (448 * (m - i))"
      by (simp only: m power_add zmod_zmult2_eq zero_le_power zero_le_numeral) simp
    moreover have "448 * (m - i) = 448 * (m - i - 1) + 448" using that by simp
    then have "(2::int) ^ 448 dvd 2 ^ (448 * (m - i))" by (metis dvd_triv_right power_add)
    ultimately show ?thesis using that assms(2) by (auto simp: row_def mod_mod_cancel)
  qed
  then show "holds s z zp m (w mod 2 ^ (448 * m))" using assms(1) by (simp add: holds_def)
  have "row (m + n) w (m + i) = row n (w div 2 ^ (448 * m)) i" for i
    by (simp add: row_def power_add distrib_left zdiv_zmult2_eq)
  then show "holds s z (zp + m) n (w div 2 ^ (448 * m))" using assms(1) by (simp add: holds_def add.assoc)
qed

section \<open>Normalisation\<close>

lemma val_bound: "within B as \<Longrightarrow> \<bar>val as\<bar> * (2 ^ 27 - 1) \<le> B * (2 ^ (27 * length as) - 1)"
proof (induction as)
  case (Cons a as)
  have a: "\<bar>a\<bar> \<le> B" "within B as" using Cons(2) by (simp_all add: within_def)
  have "\<bar>val (a # as)\<bar> \<le> \<bar>a\<bar> + 2 ^ 27 * \<bar>val as\<bar>"
    using abs_triangle_ineq [of a "2 ^ 27 * val as"] by (simp add: abs_mult)
  then have "\<bar>val (a # as)\<bar> * (2 ^ 27 - 1) \<le> (\<bar>a\<bar> + 2 ^ 27 * \<bar>val as\<bar>) * (2 ^ 27 - 1)"
    by (rule mult_right_mono) (simp add: power_numeral)
  also have "\<dots> = \<bar>a\<bar> * (2 ^ 27 - 1) + 2 ^ 27 * (\<bar>val as\<bar> * (2 ^ 27 - 1))" by (simp add: algebra_simps)
  also have "\<dots> \<le> B * (2 ^ 27 - 1) + 2 ^ 27 * (B * (2 ^ (27 * length as) - 1))"
    using a Cons(1) by (intro add_mono mult_right_mono mult_left_mono) (simp_all add: power_numeral)
  also have "\<dots> = B * (2 ^ (27 * length (a # as)) - 1)" by (simp add: algebra_simps power_add)
  finally show ?case .
qed simp

lemma val_bound_17:
  assumes "within (2 ^ 30) as" "length as = 17"
  shows "\<bar>val as\<bar> < 2 ^ 463"
  using val_bound [OF assms(1)] assms(2) by (simp add: power_numeral)

lemma div_bound: "\<bar>v\<bar> < 2 ^ 463 \<Longrightarrow> - (2 ^ 15) \<le> v div 2 ^ 448 \<and> v div 2 ^ 448 < (2 ^ 15 :: int)"
proof -
  assume v: "\<bar>v\<bar> < 2 ^ 463"
  have "v div 2 ^ 448 < 2 ^ 15" using v by (intro div_less_mult) (simp_all add: power_add [symmetric])
  moreover have "- (2 ^ 463) div 2 ^ 448 \<le> v div (2 ^ 448 :: int)" using v by (intro zdiv_mono1) simp_all
  ultimately show ?thesis by (simp add: power_numeral)
qed

lemma remove_excess:
  assumes "\<bar>v\<bar> < 2 ^ 463"
  shows "(limbs 17 v)[16 := limbs 17 v ! 16 XOR s32 (push_bit 16 (v div 2 ^ 448))] = limbs 17 (v mod 2 ^ 448)"
proof -
  have "s32 (push_bit 16 (v div 2 ^ 448)) = push_bit 16 (drop_bit 448 v)"
    using div_bound [OF assms] by (subst s32_id) (simp_all add: push_bit_eq_mult drop_bit_eq_div power_numeral)
  moreover have "drop_bit 432 v XOR push_bit 16 (drop_bit 448 v) = drop_bit 432 (take_bit 448 v)"
    by (auto intro!: bit_eqI simp: bit_simps)
  ultimately have t: "limbs 17 v ! 16 XOR s32 (push_bit 16 (v div 2 ^ 448)) = limbs 17 (take_bit 448 v) ! 16"
    by (simp add: nth_limbs_bit)
  show ?thesis unfolding t
  proof (subst take_bit_eq_mod [symmetric], rule limbs_eqI)
    fix i :: nat
    assume "i < 17"
    then consider "i = 16" | "i < 16" by linarith
    then show "(limbs 17 v)[16 := limbs 17 (take_bit 448 v) ! 16] ! i = limbs 17 (take_bit 448 v) ! i"
      by cases (auto intro!: bit_eqI simp: nth_limbs_bit bit_simps)
  qed simp
qed

lemma rnorm_step_upd:
  assumes "length (s (z, zp + i)) = 17" "within (2 ^ 30) (s (z, zp + i))" "\<bar>s (z, zp + i + 1) ! 0\<bar> \<le> 2 ^ 29"
  shows "rnorm_step z zp i s =
    s((z, zp + i) := limbs 17 (val (s (z, zp + i)) mod 2 ^ 448),
      (z, zp + i + 1) := (s (z, zp + i + 1))[0 := s (z, zp + i + 1) ! 0 + val (s (z, zp + i)) div 2 ^ 448])"
proof -
  have b: "\<bar>val (s (z, zp + i))\<bar> < 2 ^ 463" using assms by (intro val_bound_17)
  have "s32 (s (z, zp + i + 1) ! 0 + val (s (z, zp + i)) div 2 ^ 448) = s (z, zp + i + 1) ! 0 + val (s (z, zp + i)) div 2 ^ 448"
    using div_bound [OF b] assms(3) by (intro s32_abs) (auto simp: power_numeral)
  then show ?thesis using assms(1,2)
    by (simp add: rnorm_step_def MCL_BIG_norm_limbs remove_excess [OF b] Let_def)
qed

lemma val_update0: "as \<noteq> [] \<Longrightarrow> val (as[0 := as ! 0 + c]) = val as + c"
  by (cases as) simp_all

lemma div_add_multiple:
  assumes "i < j"
  shows "(u + x * 2 ^ (448 * j)) div 2 ^ (448 * i) mod 2 ^ 448 = u div 2 ^ (448 * i) mod (2 ^ 448 :: int)"
proof -
  have "448 * j = 448 * i + (448 + 448 * (j - i - 1))" using assms by simp
  then have "u + x * 2 ^ (448 * j) = u + (x * 2 ^ (448 * (j - i - 1)) * 2 ^ 448) * 2 ^ (448 * i)"
    by (simp only: power_add) simp
  then have "(u + x * 2 ^ (448 * j)) div 2 ^ (448 * i) = u div 2 ^ (448 * i) + x * 2 ^ (448 * (j - i - 1)) * 2 ^ 448"
    by (simp only:) simp
  then show ?thesis by (simp only:) simp
qed

definition rnorm_inv :: "store \<Rightarrow> arr \<Rightarrow> nat \<Rightarrow> nat \<Rightarrow> store \<Rightarrow> bool" where
  "rnorm_inv s z zp j s' \<longleftrightarrow>
     (\<forall>i<j. s' (z, zp + i) = limbs 17 (fv s z zp j div 2 ^ (448 * i) mod 2 ^ 448)) \<and>
     s' (z, zp + j) = (s (z, zp + j))[0 := s (z, zp + j) ! 0 + fv s z zp j div 2 ^ (448 * j)] \<and>
     same_but (region z zp (Suc j)) s s' \<and> \<bar>fv s z zp j div 2 ^ (448 * j)\<bar> \<le> 2 ^ 15"

lemma rnorm_current:
  assumes "bounded (2 ^ 29) s z zp n" "j < n" "rnorm_inv s z zp j s'"
  shows "length (s' (z, zp + j)) = 17" "within (2 ^ 30) (s' (z, zp + j))"
    "val (s' (z, zp + j)) = fv s z zp (Suc j) div 2 ^ (448 * j)"
proof -
  let ?r = "s (z, zp + j)" and ?c = "fv s z zp j div 2 ^ (448 * j)"
  have r: "length ?r = 17" "within (2 ^ 29) ?r" using assms(1,2) by (simp_all add: bounded_def)
  have s': "s' (z, zp + j) = ?r[0 := ?r ! 0 + ?c]" "\<bar>?c\<bar> \<le> 2 ^ 15" using assms(3) by (simp_all add: rnorm_inv_def)
  show "length (s' (z, zp + j)) = 17" using r s' by simp
  show "within (2 ^ 30) (s' (z, zp + j))"
  proof (rule withinI)
    fix i
    assume "i < length (s' (z, zp + j))"
    then have "i < length ?r" by (simp add: s'(1))
    then have "\<bar>?r ! i\<bar> \<le> 2 ^ 29" by (rule within_nth [OF r(2)])
    then show "\<bar>s' (z, zp + j) ! i\<bar> \<le> 2 ^ 30"
      using s' \<open>i < length ?r\<close> by (cases "i = 0") (simp_all add: power_numeral)
  qed
  have "fv s z zp (Suc j) = fv s z zp j + val ?r * 2 ^ (448 * j)" by (simp add: fv_def)
  then have "fv s z zp (Suc j) div 2 ^ (448 * j) = val ?r + ?c" by simp
  moreover have "?r \<noteq> []" using r(1) by auto
  ultimately show "val (s' (z, zp + j)) = fv s z zp (Suc j) div 2 ^ (448 * j)" by (simp add: s'(1) val_update0)
qed

lemma rnorm_loop:
  assumes "bounded (2 ^ 29) s z zp n"
  shows "j < n \<Longrightarrow> rnorm_inv s z zp j (fold (rnorm_step z zp) [0..<j] s)"
proof (induction j)
  case 0
  then show ?case by (simp add: rnorm_inv_def fv_def same_but_refl)
next
  case (Suc j)
  let ?s = "fold (rnorm_step z zp) [0..<j] s" and ?q = "s (z, zp + Suc j)" and ?v = "fv s z zp (Suc j)"
  have inv: "rnorm_inv s z zp j ?s" using Suc by simp
  note r = rnorm_current [OF assms _ inv]
  have q: "?s (z, zp + j + 1) = ?q" using inv by (auto simp: rnorm_inv_def region_iff dest!: same_butD)
  have "\<bar>?q ! 0\<bar> \<le> 2 ^ 29" using assms Suc(2) by (auto simp: bounded_def intro!: within_nth)
  then have step: "rnorm_step z zp j ?s = ?s((z, zp + j) := limbs 17 (?v div 2 ^ (448 * j) mod 2 ^ 448),
      (z, zp + j + 1) := ?q[0 := ?q ! 0 + ?v div 2 ^ (448 * j) div 2 ^ 448])"
    using rnorm_step_upd [of ?s z zp j] r Suc(2) q by simp
  have d: "?v div 2 ^ (448 * j) div 2 ^ 448 = ?v div 2 ^ (448 * Suc j)"
    by (simp add: zdiv_zmult2_eq [symmetric] power_add mult.commute)
  have "\<bar>?v div 2 ^ (448 * j)\<bar> < 2 ^ 463" using val_bound_17 [of "?s (z, zp + j)"] r Suc(2) by simp
  then have c: "\<bar>?v div 2 ^ (448 * Suc j)\<bar> \<le> 2 ^ 15" using div_bound [of "?v div 2 ^ (448 * j)"] by (simp add: d abs_le_iff)
  have v: "?v = fv s z zp j + val (s (z, zp + j)) * 2 ^ (448 * j)" by (simp add: fv_def)
  show ?case unfolding rnorm_inv_def
  proof (intro conjI allI impI)
    fix i
    assume "i < Suc j"
    then consider "i = j" | "i < j" by linarith
    then show "fold (rnorm_step z zp) [0..<Suc j] s (z, zp + i) = limbs 17 (?v div 2 ^ (448 * i) mod 2 ^ 448)"
    proof cases
      case 2
      then have "?s (z, zp + i) = limbs 17 (?v div 2 ^ (448 * i) mod 2 ^ 448)"
        using inv by (simp add: rnorm_inv_def v div_add_multiple)
      then show ?thesis using 2 by (simp add: step)
    qed (simp add: step)
  next
    show "same_but (region z zp (Suc (Suc j))) s (fold (rnorm_step z zp) [0..<Suc j] s)"
      using inv by (auto simp: step rnorm_inv_def same_but_def region_iff)
  qed (use c d in \<open>simp_all add: step\<close>)
qed

lemma FF_rnorm_holds:
  assumes "bounded (2 ^ 29) s z zp n" "0 < n"
  shows "holds (FF_rnorm False z zp n s) z zp n (fv s z zp n)"
    and "same_but (region z zp n) s (FF_rnorm False z zp n s)"
proof -
  obtain j where n: "n = Suc j" using assms(2) gr0_implies_Suc by blast
  let ?s = "fold (rnorm_step z zp) [0..<j] s"
  have inv: "rnorm_inv s z zp j ?s" using rnorm_loop [OF assms(1), of j] n by simp
  note r = rnorm_current [OF assms(1) _ inv]
  have f: "FF_rnorm False z zp n s = ?s((z, zp + j) := limbs 17 (fv s z zp n div 2 ^ (448 * j)))"
    using r n by (simp add: FF_rnorm_def MCL_BIG_norm_limbs)
  have v: "fv s z zp n = fv s z zp j + val (s (z, zp + j)) * 2 ^ (448 * j)" by (simp add: n fv_def)
  show "holds (FF_rnorm False z zp n s) z zp n (fv s z zp n)" unfolding holds_def
  proof (intro allI impI)
    fix i
    assume "i < n"
    then consider "i = j" | "i < j" using n by linarith
    then show "FF_rnorm False z zp n s (z, zp + i) = row n (fv s z zp n) i"
    proof cases
      case 2
      then have "?s (z, zp + i) = limbs 17 (fv s z zp n div 2 ^ (448 * i) mod 2 ^ 448)"
        using inv by (simp add: rnorm_inv_def v div_add_multiple)
      then show ?thesis using 2 f by (simp add: row_def n)
    qed (use f in \<open>simp add: row_def n\<close>)
  qed
  show "same_but (region z zp n) s (FF_rnorm False z zp n s)"
    using inv unfolding f by (auto simp: rnorm_inv_def same_but_def region_iff n)
qed

section \<open>Addition and subtraction of rows\<close>

lemma BIG_add_val:
  assumes "length a = 17" "length b = 17" "within A a" "within B b" "A + B < 2 ^ 31"
  shows "length (MCL_BIG_add a b) = 17" "within (A + B) (MCL_BIG_add a b)" "val (MCL_BIG_add a b) = val a + val b"
proof -
  have s: "\<bar>a ! i + b ! i\<bar> \<le> A + B" "s32 (a ! i + b ! i) = a ! i + b ! i" if "i < 17" for i
    using within_nth [OF assms(3), of i] within_nth [OF assms(4), of i] that assms by (simp, intro s32_abs, simp)
  show l: "length (MCL_BIG_add a b) = 17" by (simp add: MCL_BIG_add_def)
  show "within (A + B) (MCL_BIG_add a b)" by (rule withinI) (simp add: MCL_BIG_add_def s)
  show "val (MCL_BIG_add a b) = val a + val b"
    unfolding val_sum l assms(1,2) by (simp add: MCL_BIG_add_def s sum.distrib [symmetric] distrib_right)
qed

lemma BIG_sub_val:
  assumes "length a = 17" "length b = 17" "within A a" "within B b" "A + B < 2 ^ 31"
  shows "length (MCL_BIG_sub a b) = 17" "within (A + B) (MCL_BIG_sub a b)" "val (MCL_BIG_sub a b) = val a - val b"
proof -
  have s: "\<bar>a ! i - b ! i\<bar> \<le> A + B" "s32 (a ! i - b ! i) = a ! i - b ! i" if "i < 17" for i
    using within_nth [OF assms(3), of i] within_nth [OF assms(4), of i] that assms by (simp, intro s32_abs, simp)
  show l: "length (MCL_BIG_sub a b) = 17" by (simp add: MCL_BIG_sub_def)
  show "within (A + B) (MCL_BIG_sub a b)" by (rule withinI) (simp add: MCL_BIG_sub_def s)
  show "val (MCL_BIG_sub a b) = val a - val b"
    unfolding val_sum l assms(1,2) by (simp add: MCL_BIG_sub_def s sum_subtractf [symmetric] left_diff_distrib)
qed

text \<open>A loop over the rows that reads, of the rows it writes, only the current one.\<close>

lemma fold_rows:
  assumes "\<And>i s s'. i < n \<Longrightarrow> (\<And>l. (\<forall>j<n. j \<noteq> i \<longrightarrow> l \<noteq> (z, zp + j)) \<Longrightarrow> s l = s' l) \<Longrightarrow> f i s = f i s'"
  shows "m \<le> n \<Longrightarrow> same_but (region z zp m) s (fold (\<lambda>i s. s((z, zp + i) := f i s)) [0..<m] s) \<and>
    (\<forall>i<m. fold (\<lambda>i s. s((z, zp + i) := f i s)) [0..<m] s (z, zp + i) = f i s)"
proof (induction m)
  case (Suc m)
  define s' where "s' = fold (\<lambda>i s. s((z, zp + i) := f i s)) [0..<m] s"
  have ih: "same_but (region z zp m) s s'" "\<forall>i<m. s' (z, zp + i) = f i s"
    using Suc(1) [OF Suc_leD [OF Suc(2)]] unfolding s'_def by blast+
  have "f m s' = f m s"
  proof (rule assms)
    fix l
    assume "\<forall>j<n. j \<noteq> m \<longrightarrow> l \<noteq> (z, zp + j)"
    then have "l \<notin> region z zp m" using Suc(2) by (auto simp: region_def) (metis le_add_diff_inverse less_irrefl
        nat_add_left_cancel_less order_less_trans less_eq_Suc_le)
    then show "s' l = s l" by (rule same_butD [OF ih(1)])
  qed (use Suc(2) in simp)
  then have e: "fold (\<lambda>i s. s((z, zp + i) := f i s)) [0..<Suc m] s = s'((z, zp + m) := f m s)" by (simp add: s'_def)
  show ?case unfolding e using ih by (auto simp: same_but_def region_iff less_Suc_eq)
qed (simp add: same_but_refl)

definition disjoint :: "arr \<Rightarrow> nat \<Rightarrow> nat \<Rightarrow> arr \<Rightarrow> nat \<Rightarrow> nat \<Rightarrow> bool" where
  "disjoint z zp m x xp n \<longleftrightarrow> z = x \<longrightarrow> zp + m \<le> xp \<or> xp + n \<le> zp"

lemma disjoint_sym: "disjoint z zp m x xp n \<Longrightarrow> disjoint x xp n z zp m"
  by (auto simp: disjoint_def)

lemma disjoint_sub:
  "disjoint z zp m x xp n \<Longrightarrow> zp \<le> zp' \<and> zp' + m' \<le> zp + m \<and> xp \<le> xp' \<and> xp' + n' \<le> xp + n \<Longrightarrow>
   disjoint z zp' m' x xp' n'"
  by (auto simp: disjoint_def)

lemma disjoint_same: "zp + m \<le> xp \<or> xp + n \<le> zp \<Longrightarrow> disjoint z zp m z xp n"
  by (simp add: disjoint_def)

lemma row_op:
  assumes x: "x = z \<and> xp = zp \<or> disjoint z zp n x xp n" and y: "disjoint z zp n y yp n"
    and op: "\<And>a b. length a = 17 \<Longrightarrow> length b = 17 \<Longrightarrow> within A a \<Longrightarrow> within B b \<Longrightarrow>
      length (op a b) = 17 \<and> within C (op a b) \<and> val (op a b) = val a + c * val b"
    and b: "bounded A s x xp n" "bounded B s y yp n"
    and s': "s' = fold (\<lambda>i s. s((z, zp + i) := op (s (x, xp + i)) (s (y, yp + i)))) [0..<n] s"
  shows "same_but (region z zp n) s s'" "bounded C s' z zp n" "fv s' z zp n = fv s x xp n + c * fv s y yp n"
proof -
  have "(\<forall>j<n. j \<noteq> i \<longrightarrow> (x, xp + i) \<noteq> (z, zp + j)) \<and> (\<forall>j<n. j \<noteq> i \<longrightarrow> (y, yp + i) \<noteq> (z, zp + j))" if "i < n" for i
    using x y that by (auto simp: disjoint_def)
  then have "same_but (region z zp n) s s' \<and> (\<forall>i<n. s' (z, zp + i) = op (s (x, xp + i)) (s (y, yp + i)))"
    unfolding s' by (intro fold_rows [where n = n]) (metis, simp)
  then have s: "same_but (region z zp n) s s'" "\<And>i. i < n \<Longrightarrow> s' (z, zp + i) = op (s (x, xp + i)) (s (y, yp + i))"
    by auto
  show "same_but (region z zp n) s s'" by (rule s(1))
  have o: "length (s' (z, zp + i)) = 17 \<and> within C (s' (z, zp + i)) \<and>
      val (s' (z, zp + i)) = val (s (x, xp + i)) + c * val (s (y, yp + i))" if "i < n" for i
    using b that unfolding bounded_def s(2) [OF that] by (intro op) simp_all
  then show "bounded C s' z zp n" by (simp add: bounded_def)
  show "fv s' z zp n = fv s x xp n + c * fv s y yp n"
    using o by (simp add: fv_def sum_distrib_left sum.distrib [symmetric] distrib_right mult.assoc)
qed

lemma FF_radd_fv:
  assumes "disjoint z zp n x xp n" "disjoint z zp n y yp n" "bounded A s x xp n" "bounded B s y yp n" "A + B < 2 ^ 31"
  shows "same_but (region z zp n) s (FF_radd z zp x xp y yp n s)" "bounded (A + B) (FF_radd z zp x xp y yp n s) z zp n"
    "fv (FF_radd z zp x xp y yp n s) z zp n = fv s x xp n + fv s y yp n"
  using row_op [where op = MCL_BIG_add and c = 1, OF disjI2 [OF assms(1)] assms(2) _ assms(3,4), of "A + B"]
    BIG_add_val [OF _ _ _ _ assms(5)]
  by (auto simp: FF_radd_def)

lemma FF_rinc_fv:
  assumes "disjoint z zp n y yp n" "bounded A s z zp n" "bounded B s y yp n" "A + B < 2 ^ 31"
  shows "same_but (region z zp n) s (FF_rinc z zp y yp n s)" "bounded (A + B) (FF_rinc z zp y yp n s) z zp n"
    "fv (FF_rinc z zp y yp n s) z zp n = fv s z zp n + fv s y yp n"
  using row_op [where op = MCL_BIG_add and c = 1, OF disjI1 [OF conjI [OF refl refl]] assms(1) _ assms(2,3), of "A + B"]
    BIG_add_val [OF _ _ _ _ assms(4)]
  by (auto simp: FF_rinc_def)

lemma FF_rdec_fv:
  assumes "disjoint z zp n y yp n" "bounded A s z zp n" "bounded B s y yp n" "A + B < 2 ^ 31"
  shows "same_but (region z zp n) s (FF_rdec z zp y yp n s)" "bounded (A + B) (FF_rdec z zp y yp n s) z zp n"
    "fv (FF_rdec z zp y yp n s) z zp n = fv s z zp n - fv s y yp n"
  using row_op [where op = MCL_BIG_sub and c = "- 1", OF disjI1 [OF conjI [OF refl refl]] assms(1) _ assms(2,3), of "A + B"]
    BIG_sub_val [OF _ _ _ _ assms(4)]
  by (auto simp: FF_rdec_def)

section \<open>Multiplication\<close>

text \<open>Rows outside of what a step changes.\<close>

lemma same_rows:
  "same_but (region z zp m) s s' \<Longrightarrow> disjoint z zp m x xp n \<Longrightarrow> i < n \<Longrightarrow> s' (x, xp + i) = s (x, xp + i)"
  by (rule same_butD) (auto simp: region_iff disjoint_def)

lemma same_rows2:
  "same_but (region z zp m \<union> region t tp k) s s' \<Longrightarrow> disjoint z zp m x xp n \<Longrightarrow> disjoint t tp k x xp n \<Longrightarrow>
   i < n \<Longrightarrow> s' (x, xp + i) = s (x, xp + i)"
  by (rule same_butD) (auto simp: region_iff disjoint_def)

lemma holds_keep: "same_but (region z zp m) s s' \<Longrightarrow> disjoint z zp m x xp n \<Longrightarrow> holds s x xp n w \<Longrightarrow> holds s' x xp n w"
  by (rule holds_cong) (rule same_rows)

lemma holds_keep2:
  "same_but (region z zp m \<union> region t tp k) s s' \<Longrightarrow> disjoint z zp m x xp n \<Longrightarrow> disjoint t tp k x xp n \<Longrightarrow>
   holds s x xp n w \<Longrightarrow> holds s' x xp n w"
  by (rule holds_cong) (rule same_rows2)

lemma bounded_keep:
  assumes "same_but (region z zp m) s s'" "disjoint z zp m x xp n" "bounded B s x xp n"
  shows "bounded B s' x xp n"
  using assms(3) same_rows [OF assms(1,2)] by (simp add: bounded_def)

lemma fv_keep: "same_but (region z zp m) s s' \<Longrightarrow> disjoint z zp m x xp n \<Longrightarrow> fv s' x xp n = fv s x xp n"
  by (rule fv_cong) (rule same_rows)

lemma bounded_mono: "bounded A s z zp n \<Longrightarrow> A \<le> B \<Longrightarrow> bounded B s z zp n"
  by (fastforce simp: bounded_def within_def)

lemma bounded_split: "bounded B s z zp (m + n) \<longleftrightarrow> bounded B s z zp m \<and> bounded B s z (zp + m) n"
  by (auto simp: bounded_def add.assoc) (metis add_diff_inverse nat_add_left_cancel_less)+

lemma holds_bounded:
  assumes "holds s z zp n w" "0 \<le> w" "w < 2 ^ (448 * n + 11)"
  shows "bounded (2 ^ 27) s z zp n"
  unfolding bounded_def
proof (intro allI impI conjI)
  fix i
  assume i: "i < n"
  then have r: "s (z, zp + i) = row n w i" using assms(1) by (simp add: holds_def)
  then show "length (s (z, zp + i)) = 17" by simp
  have "0 \<le> w div 2 ^ (448 * i)" using assms(2) by (simp add: pos_imp_zdiv_nonneg_iff)
  moreover have "w div 2 ^ (448 * i) < 2 ^ 459" if "Suc i = n"
    using assms(3) that by (intro div_less_mult) (auto simp: power_add [symmetric] add.commute)
  moreover have "w div 2 ^ (448 * i) mod 2 ^ 448 < 2 ^ 459"
    by (rule less_trans [OF pos_mod_bound]) (simp_all add: power_strict_increasing)
  ultimately show "within (2 ^ 27) (s (z, zp + i))"
    unfolding r row_def by (intro limbs_within) (auto simp: power_add [symmetric] intro: order_trans [of _ 0])
qed

text \<open>The halves of an operand, and the rows of their sum.\<close>

lemma halves_bounds:
  fixes u :: int
  assumes "0 \<le> u" "u < 2 ^ (448 * (m + m) + e)"
  shows "0 \<le> u mod 2 ^ (448 * m)" "u mod 2 ^ (448 * m) < 2 ^ (448 * m)" "0 \<le> u div 2 ^ (448 * m)"
    "u div 2 ^ (448 * m) < 2 ^ (448 * m + e)"
proof -
  have "448 * (m + m) + e = (448 * m + e) + 448 * m" by simp
  then have "u < 2 ^ (448 * m + e) * 2 ^ (448 * m)" using assms(2) by (simp only: power_add)
  then show "u div 2 ^ (448 * m) < 2 ^ (448 * m + e)" by (intro div_less_mult) simp_all
qed (use assms(1) in \<open>simp_all add: pos_imp_zdiv_nonneg_iff\<close>)

lemma half_sum:
  assumes "holds s x xp (m + m) u" "0 \<le> u" "u < 2 ^ (448 * (m + m) + e)" "e \<le> 5" "0 < m" "disjoint z zp m x xp (m + m)"
  defines "s' \<equiv> FF_rnorm False z zp m (FF_radd z zp x xp x (xp + m) m s)"
  shows "holds s' z zp m (u mod 2 ^ (448 * m) + u div 2 ^ (448 * m))" "same_but (region z zp m) s s'"
proof -
  let ?a = "FF_radd z zp x xp x (xp + m) m s"
  note h = holds_split [OF assms(1,5)] and b = halves_bounds [OF assms(2,3)]
  have "(2::int) ^ (448 * m) \<le> 2 ^ (448 * m + 11)" "(2::int) ^ (448 * m + e) \<le> 2 ^ (448 * m + 11)"
    using assms(4) by (intro power_increasing; simp)+
  then have bd: "bounded (2 ^ 27) s x xp m" "bounded (2 ^ 27) s x (xp + m) m"
    using holds_bounded [OF h(1)] holds_bounded [OF h(2)] b by linarith+
  have d: "disjoint z zp m x xp m" "disjoint z zp m x (xp + m) m" using assms(6) by (auto simp: disjoint_def)
  note a = FF_radd_fv [OF d bd]
  have "bounded (2 ^ 29) ?a z zp m" using a(2) by (rule bounded_mono) (simp_all add: power_numeral)
  note r = FF_rnorm_holds [OF this assms(5)]
  show "holds s' z zp m (u mod 2 ^ (448 * m) + u div 2 ^ (448 * m))"
    using r(1) a(3) holds_fv [OF h(1) assms(5)] holds_fv [OF h(2) assms(5)] by (simp add: s'_def power_numeral)
  show "same_but (region z zp m) s s'"
    unfolding s'_def using a(1) r(2) by (rule same_but_trans) (simp_all add: power_numeral)
qed

text \<open>
  The last part of the recursion: with \<open>A\<close> and \<open>C\<close> in the result rows and \<open>B\<close> in the workspace,
  \<open>B - A - C\<close> is added to the middle of the result.
\<close>

lemma combine:
  assumes "holds s t tp n B" "holds s z zp n A" "holds s z (zp + n) n C" "n = m + m" "0 < m"
    and "bounded (2 ^ 27) s t tp n" "bounded (2 ^ 27) s z zp n" "bounded (2 ^ 27) s z (zp + n) n"
    and "disjoint z zp (2 * n) t tp n"
  defines "s' \<equiv> FF_rnorm False z zp (2 * n) (FF_rinc z (zp + m) t tp n
      (FF_rdec t tp z (zp + n) n (FF_rdec t tp z zp n s)))"
  shows "holds s' z zp (2 * n) (A + 2 ^ (448 * m) * (B - A - C) + 2 ^ (448 * n) * C)"
    "same_but (region z zp (2 * n) \<union> region t tp n) s s'"
proof -
  have n: "0 < n" "2 * n = m + (n + m)" "0 < 2 * n" using assms(4,5) by simp_all
  have d: "disjoint t tp n z zp n" "disjoint t tp n z (zp + n) n" "disjoint t tp n z zp (2 * n)"
    "disjoint z (zp + m) n t tp n" "disjoint z (zp + m) n z zp m" "disjoint z (zp + m) n z (zp + m + n) m"
    using assms(4,9) by (auto simp: disjoint_def)
  let ?a = "FF_rdec t tp z zp n s"
  let ?b = "FF_rdec t tp z (zp + n) n ?a"
  let ?c = "FF_rinc z (zp + m) t tp n ?b"
  note a = FF_rdec_fv [OF d(1) assms(6,7)]
  note b = FF_rdec_fv [OF d(2) a(2) bounded_keep [OF a(1) d(2) assms(8)]]
  have ab: "same_but (region t tp n) s ?b" using a(1) b(1) by (auto simp: power_numeral intro: same_but_trans)
  have zb: "bounded (2 ^ 27) ?b z zp (2 * n)"
    using assms(7,8) bounded_keep [OF ab d(3)] by (simp add: mult_2 bounded_split)
  then have zm: "bounded (2 ^ 27) ?b z zp m" "bounded (2 ^ 27) ?b z (zp + m) n" "bounded (2 ^ 27) ?b z (zp + m + n) m"
    unfolding n(2) bounded_split by simp_all
  note c = FF_rinc_fv [OF d(4) zm(2) b(2)]
  have "bounded (2 ^ 29) ?c z zp m" "bounded (2 ^ 29) ?c z (zp + m) n" "bounded (2 ^ 29) ?c z (zp + m + n) m"
    using bounded_keep [OF c(1) d(5) zm(1)] c(2) bounded_keep [OF c(1) d(6) zm(3)]
    by (auto simp: power_numeral elim!: bounded_mono)
  then have bc: "bounded (2 ^ 29) ?c z zp (2 * n)" unfolding n(2) bounded_split by simp
  note r = FF_rnorm_holds [OF bc n(3)]
  have zv: "fv ?b z zp (2 * n) = A + 2 ^ (448 * n) * C"
    using fv_keep [OF ab d(3)] holds_fv [OF assms(2) n(1)] holds_fv [OF assms(3) n(1)] by (simp add: mult_2 fv_add)
  have tv: "fv ?b t tp n = B - A - C"
    using a(3) b(3) fv_keep [OF a(1) d(2)] holds_fv [OF assms(1) n(1)] holds_fv [OF assms(2) n(1)]
      holds_fv [OF assms(3) n(1)] by (simp add: power_numeral)
  have "fv ?c z zp (2 * n) = fv ?b z zp (2 * n) + 2 ^ (448 * m) * fv ?b t tp n"
    using c(3) fv_keep [OF c(1) d(5)] fv_keep [OF c(1) d(6)]
    unfolding n(2) fv_add by (simp add: power_numeral algebra_simps)
  then have "fv ?c z zp (2 * n) = A + 2 ^ (448 * m) * (B - A - C) + 2 ^ (448 * n) * C" unfolding zv tv by simp
  then show "holds s' z zp (2 * n) (A + 2 ^ (448 * m) * (B - A - C) + 2 ^ (448 * n) * C)"
    using r(1) unfolding s'_def by simp
  have "region z (zp + m) n \<subseteq> region z zp (2 * n)" using assms(4) by (auto simp: region_def)
  moreover have "same_but (region z (zp + m) n) ?b ?c" using c(1) by (simp add: power_numeral)
  ultimately have "same_but (region z zp (2 * n) \<union> region t tp n) s ?c"
    using ab by (blast intro: same_but_trans)
  then show "same_but (region z zp (2 * n) \<union> region t tp n) s s'"
    using r(2) unfolding s'_def by (blast intro: same_but_trans)
qed

lemma holds_1: "holds s z zp 1 w \<longleftrightarrow> s (z, zp) = limbs 17 w"
  by (simp add: holds_def row_def)

lemma karmul_leaf:
  assumes "holds s x xp 1 u" "holds s y yp 1 v" "0 \<le> u" "u < 2 ^ 453" "0 \<le> v" "v < 2 ^ 453"
    and "disjoint z zp 2 t tp 2" "disjoint t tp 2 x xp 1" "disjoint t tp 2 y yp 1"
  shows "holds (FF_karmul z zp x xp y yp t tp 1 s) z zp 2 (u * v)"
    "same_but (region z zp 2 \<union> region t tp 2) s (FF_karmul z zp x xp y yp t tp 1 s)"
proof -
  have xy: "s (x, xp) = limbs 17 u" "s (y, yp) = limbs 17 v" using assms(1,2) by (simp_all only: holds_1)
  have p: "(2::int) ^ 453 < 2 ^ 459" "(2::int) ^ 453 < 2 ^ 462" by (intro power_strict_increasing; simp)+
  then have "u < 2 ^ 462" "v < 2 ^ 462" using assms(4,6) by linarith+
  then have "MCL_BIG_norm (limbs 17 u) = (limbs 17 u, u div 2 ^ 448)" "MCL_BIG_norm (limbs 17 v) = (limbs 17 v, v div 2 ^ 448)"
    using assms(3,5) by (auto intro!: MCL_BIG_norm_id intro: order_trans [of _ 0])
  then have n: "s((x, xp) := fst (MCL_BIG_norm (s (x, xp)))) = s" "s((y, yp) := fst (MCL_BIG_norm (s (y, yp)))) = s"
    using xy by (auto simp: fun_eq_iff)
  have c: "comba (limbs 17 u) (limbs 17 v) = limbs 34 (u * v)" using assms(3-6) p by (intro comba_limbs) linarith+
  have "u * v < 2 ^ 453 * 2 ^ 453" using assms(3-6) by (intro mult_strict_mono) simp_all
  also have "\<dots> < 2 ^ 911" by (simp add: power_add [symmetric] power_strict_increasing)
  finally have sp: "MCL_BIG_split (limbs 34 (u * v)) 448 = (limbs 17 (u * v div 2 ^ 448), limbs 17 (u * v mod 2 ^ 448))"
    using assms(3,5) by (intro MCL_BIG_split_limbs) simp_all
  let ?s = "s((t, tp) := take 17 (limbs 34 (u * v)), (t, tp + 1) := drop 17 (limbs 34 (u * v)))"
  have m: "MCL_BIG_mul (t, tp) (x, xp) (y, yp) s = ?s"
    by (simp only: MCL_BIG_mul_def Let_def n fst_conv snd_conv, simp only: xy c)
  have k: "FF_karmul z zp x xp y yp t tp 1 s =
      ?s((z, zp) := limbs 17 (u * v mod 2 ^ 448), (z, zp + 1) := limbs 17 (u * v div 2 ^ 448))"
    by (subst FF_karmul.simps) (simp add: m sp)
  show "holds (FF_karmul z zp x xp y yp t tp 1 s) z zp 2 (u * v)"
    unfolding k by (auto simp: holds_def row_def less_2_cases_iff)
  show "same_but (region z zp 2 \<union> region t tp 2) s (FF_karmul z zp x xp y yp t tp 1 s)"
    unfolding k by (auto simp: same_but_def region_iff)
qed

lemma karatsuba:
  fixes u v M :: int
  shows "u mod M * (v mod M) + M * ((u mod M + u div M) * (v mod M + v div M) - u mod M * (v mod M) - u div M * (v div M)) +
    M * M * (u div M * (v div M)) = u * v"
proof -
  have "u * v = (M * (u div M) + u mod M) * (M * (v div M) + v mod M)" by simp
  then show ?thesis by (simp only: algebra_simps)
qed

lemma two_sum_bounds:
  fixes a b :: int
  assumes "0 \<le> a" "a < 2 ^ p" "0 \<le> b" "b < 2 ^ (p + e)"
  shows "0 \<le> a + b" "a + b < 2 ^ (p + Suc e)" "a < 2 ^ (p + e)"
proof -
  have "(2::int) ^ p \<le> 2 ^ (p + e)" by (rule power_increasing) simp_all
  then show "a < 2 ^ (p + e)" using assms(2) by linarith
  then show "a + b < 2 ^ (p + Suc e)" using assms(4) by simp
qed (use assms in simp)

lemma prod_bound:
  fixes a b :: int
  assumes "0 \<le> a" "a < 2 ^ (448 * m + f)" "0 \<le> b" "b < 2 ^ (448 * m + f)"
  shows "0 \<le> a * b" "2 * f \<le> 11 \<Longrightarrow> a * b < 2 ^ (448 * (m + m) + 11)"
proof -
  have "a * b < 2 ^ (448 * m + f) * 2 ^ (448 * m + f)" using assms by (intro mult_strict_mono) simp_all
  also have "\<dots> = 2 ^ (448 * (m + m) + 2 * f)" by (simp add: power_add [symmetric] algebra_simps)
  finally show "a * b < 2 ^ (448 * (m + m) + 11)" if "2 * f \<le> 11"
    using that power_increasing [of "448 * (m + m) + 2 * f" "448 * (m + m) + 11" "2 :: int"] by linarith
qed (use assms in simp)

lemma FF_karmul_holds:
  assumes "holds s x xp n u" "holds s y yp n v" "0 \<le> u" "u < 2 ^ (448 * n + e)" "0 \<le> v" "v < 2 ^ (448 * n + e)"
    and "n = 2 ^ k" "e + k \<le> 5"
    and "disjoint z zp (2 * n) t tp (2 * n)" "disjoint z zp (2 * n) x xp n" "disjoint z zp (2 * n) y yp n"
    and "disjoint t tp (2 * n) x xp n" "disjoint t tp (2 * n) y yp n"
  shows "holds (FF_karmul z zp x xp y yp t tp n s) z zp (2 * n) (u * v) \<and>
    same_but (region z zp (2 * n) \<union> region t tp (2 * n)) s (FF_karmul z zp x xp y yp t tp n s)"
  using assms
proof (induction k arbitrary: n e s z zp x xp y yp t tp u v)
  case 0
  then have "(2::int) ^ (448 + e) \<le> 2 ^ 453" by (intro power_increasing) simp_all
  moreover have "u < 2 ^ (448 + e)" "v < 2 ^ (448 + e)" using 0 by simp_all
  ultimately have "u < 2 ^ 453" "v < 2 ^ 453" by linarith+
  then show ?case using karmul_leaf [of s x xp u y yp v z zp t tp] 0 by simp
next
  case (Suc k)
  define m where "m = (2::nat) ^ k"
  have "0 < m" "n = m + m" using Suc.prems(7) by (simp_all add: m_def)
  then have n: "n = m + m" "n div 2 = m" "0 < m" "\<not> n \<le> 1" "2 * m = n" by simp_all
  let ?M = "(2::int) ^ (448 * m)"
  let ?ul = "u mod ?M" and ?uh = "u div ?M" and ?vl = "v mod ?M" and ?vh = "v div ?M"
  note hu = Suc.prems(1) [unfolded n(1)] and hv = Suc.prems(2) [unfolded n(1)]
  note bu = halves_bounds [OF Suc.prems(3) Suc.prems(4) [unfolded n(1)]]
    and bv = halves_bounds [OF Suc.prems(5) Suc.prems(6) [unfolded n(1)]]
  define s1 where "s1 = FF_rnorm False z zp m (FF_radd z zp x xp x (xp + m) m s)"
  define s2 where "s2 = FF_rnorm False z (zp + m) m (FF_radd z (zp + m) y yp y (yp + m) m s1)"
  define s3 where "s3 = FF_karmul t tp z zp z (zp + m) t (tp + n) m s2"
  define s4 where "s4 = FF_karmul z zp x xp y yp t (tp + n) m s3"
  define s5 where "s5 = FF_karmul z (zp + n) x (xp + m) y (yp + m) t (tp + n) m s4"
  note dis = Suc.prems(9-13) [THEN disjoint_sub] Suc.prems(9) [THEN disjoint_sym, THEN disjoint_sub] disjoint_same
  have d: "disjoint z zp m x xp (m + m)" "disjoint z zp m y yp (m + m)" "disjoint z (zp + m) m x xp (m + m)"
    "disjoint z (zp + m) m y yp (m + m)" "disjoint z (zp + m) m z zp m"
    by (rule dis; simp add: n(1))+
  have d1: "disjoint t tp (2 * m) t (tp + n) (2 * m)" "disjoint t tp (2 * m) z zp m" "disjoint t tp (2 * m) z (zp + m) m"
    "disjoint t (tp + n) (2 * m) z zp m" "disjoint t (tp + n) (2 * m) z (zp + m) m"
    "disjoint t tp (2 * m) x xp n" "disjoint t tp (2 * m) y yp n"
    "disjoint t (tp + n) (2 * m) x xp n" "disjoint t (tp + n) (2 * m) y yp n"
    by (rule dis; simp add: n(1))+
  have d2: "disjoint z zp (2 * m) t (tp + n) (2 * m)" "disjoint z zp (2 * m) x xp m" "disjoint z zp (2 * m) y yp m"
    "disjoint t (tp + n) (2 * m) x xp m" "disjoint t (tp + n) (2 * m) y yp m" "disjoint z zp (2 * m) x (xp + m) m"
    "disjoint z zp (2 * m) y (yp + m) m" "disjoint t (tp + n) (2 * m) x (xp + m) m" "disjoint t (tp + n) (2 * m) y (yp + m) m"
    "disjoint z zp (2 * m) t tp n" "disjoint t (tp + n) (2 * m) t tp n" "disjoint z zp (2 * m) x xp n" "disjoint z zp (2 * m) y yp n"
    by (rule dis; simp add: n(1))+
  have d3: "disjoint z (zp + n) (2 * m) t (tp + n) (2 * m)" "disjoint z (zp + n) (2 * m) x (xp + m) m"
    "disjoint z (zp + n) (2 * m) y (yp + m) m" "disjoint z (zp + n) (2 * m) t tp n" "disjoint z (zp + n) (2 * m) z zp n"
    "disjoint t (tp + n) (2 * m) z zp n" "disjoint z zp (2 * n) t tp n"
    by (rule dis; simp add: n(1))+
  have e: "e \<le> 5" "Suc e + k \<le> 5" "e + k \<le> 5" using Suc.prems(8) by simp_all
  note h1 = half_sum [OF hu Suc.prems(3) Suc.prems(4) [unfolded n(1)] e(1) n(3) d(1), folded s1_def]
  note h2 = half_sum [OF holds_keep [OF h1(2) d(2) hv] Suc.prems(5) Suc.prems(6) [unfolded n(1)] e(1) n(3) d(4), folded s2_def]
  note h3 = Suc.IH [OF holds_keep [OF h2(2) d(5) h1(1)] h2(1) two_sum_bounds(1) [OF bu] two_sum_bounds(2) [OF bu]
      two_sum_bounds(1) [OF bv] two_sum_bounds(2) [OF bv] m_def e(2) d1(1-5), folded s3_def]
  note k3 = conjunct2 [OF h3]
  have xy: "holds s3 x xp n u" "holds s3 y yp n v"
    using hu hv n(1) holds_keep2 [OF k3 d1(6,8)] holds_keep2 [OF k3 d1(7,9)] holds_keep [OF h2(2) d(3)]
      holds_keep [OF h2(2) d(4)] holds_keep [OF h1(2) d(1)] holds_keep [OF h1(2) d(2)] by simp_all
  note x3 = holds_split [OF xy(1) [unfolded n(1)] n(3)] and y3 = holds_split [OF xy(2) [unfolded n(1)] n(3)]
  note h4 = Suc.IH [OF x3(1) y3(1) bu(1) two_sum_bounds(3) [OF bu] bv(1) two_sum_bounds(3) [OF bv] m_def e(3) d2(1-5),
      folded s4_def]
  note k4 = conjunct2 [OF h4]
  note h5 = Suc.IH [OF holds_keep2 [OF k4 d2(6,8) x3(2)] holds_keep2 [OF k4 d2(7,9) y3(2)] bu(3,4) bv(3,4) m_def e(3)
      d3(1-3) d2(8,9), folded s5_def]
  note k5 = conjunct2 [OF h5]
  have r: "holds s5 t tp n ((?ul + ?uh) * (?vl + ?vh))" "holds s5 z zp n (?ul * ?vl)" "holds s5 z (zp + n) n (?uh * ?vh)"
    using h3 h4 h5 n(5) holds_keep2 [OF k5 d3(4) d2(11)] holds_keep2 [OF k4 d2(10,11)] holds_keep2 [OF k5 d3(5,6)] by simp_all
  have "e \<le> 4" using Suc.prems(8) by simp
  then have b: "bounded (2 ^ 27) s5 t tp n" "bounded (2 ^ 27) s5 z zp n" "bounded (2 ^ 27) s5 z (zp + n) n"
    using holds_bounded [OF r(1)] holds_bounded [OF r(2)] holds_bounded [OF r(3)]
      prod_bound [OF two_sum_bounds(1,2) [OF bu] two_sum_bounds(1,2) [OF bv]] prod_bound [OF bu(1) two_sum_bounds(3) [OF bu] bv(1)
      two_sum_bounds(3) [OF bv]] prod_bound [OF bu(3,4) bv(3,4)] n(1) by simp_all
  note c = combine [OF r n(1,3) b d3(7)]
  have K: "FF_karmul z zp x xp y yp t tp n s = FF_rnorm False z zp (2 * n) (FF_rinc z (zp + m) t tp n
      (FF_rdec t tp z (zp + n) n (FF_rdec t tp z zp n s5)))"
    using n(4) by (subst FF_karmul.simps) (simp add: n(2) Let_def s1_def s2_def s3_def s4_def s5_def)
  have M2: "(2::int) ^ (448 * n) = ?M * ?M" unfolding n(1) by (simp only: distrib_left power_add)
  have "holds (FF_karmul z zp x xp y yp t tp n s) z zp (2 * n) (u * v)"
    using c(1) unfolding K M2 karatsuba .
  moreover have "same_but (region z zp (2 * n) \<union> region t tp (2 * n)) s (FF_karmul z zp x xp y yp t tp n s)"
  proof -
    let ?Q = "region z zp (2 * n) \<union> region t tp (2 * n)"
    have "same_but ?Q s s1" "same_but ?Q s1 s2" "same_but ?Q s2 s3" "same_but ?Q s3 s4" "same_but ?Q s4 s5"
      "same_but ?Q s5 (FF_karmul z zp x xp y yp t tp n s)" unfolding K
      by (rule same_but_mono [OF h1(2)] same_but_mono [OF h2(2)] same_but_mono [OF k3] same_but_mono [OF k4]
          same_but_mono [OF k5] same_but_mono [OF c(2)]; force simp: region_def n(1))+
    then show ?thesis unfolding same_but_def by metis
  qed
  ultimately show ?case ..
qed

lemma MCL_FF_mul_holds:
  assumes "holds s x 0 n u" "holds s y 0 n v" "0 \<le> u" "u < 2 ^ (448 * n + e)" "0 \<le> v" "v < 2 ^ (448 * n + e)"
    and "n = 2 ^ k" "e + k \<le> 5" "z \<noteq> x" "z \<noteq> y" "Work \<notin> {x, y, z}"
  shows "holds (MCL_FF_mul z x y n s) z 0 (2 * n) (u * v) \<and>
    same_but (region z 0 (2 * n) \<union> region Work 0 (2 * n)) s (MCL_FF_mul z x y n s)"
  unfolding MCL_FF_mul_def
  by (rule FF_karmul_holds [OF assms(1-8)]) (use assms(9-) in \<open>auto simp: disjoint_def\<close>)

section \<open>Increment and conversions\<close>

lemma MCL_FF_inc_holds:
  assumes "holds s x 0 n w" "0 < n" "0 \<le> w" "w < 2 ^ (448 * n + 11)" "0 \<le> d" "d < 2 ^ 28"
  shows "holds (MCL_FF_inc x d n s) x 0 n (w + d) \<and> same_but (region x 0 n) s (MCL_FF_inc x d n s)"
proof -
  have b: "bounded (2 ^ 27) s x 0 n" by (rule holds_bounded [OF assms(1,3,4)])
  let ?r = "s (x, 0)"
  have r: "length ?r = 17" "within (2 ^ 27) ?r" using b assms(2) by (auto simp: bounded_def)
  then have r0: "\<bar>?r ! 0\<bar> \<le> 2 ^ 27" by (intro within_nth) simp_all
  have v: "\<bar>val ?r\<bar> < 2 ^ 462" using val_bound [OF r(2)] r(1) by (simp add: power_numeral)
  have "?r = limbs 17 (val ?r)" using assms(1,2) by (auto simp: holds_def row_def)
  then have "fst (MCL_BIG_norm ?r) = ?r" using v MCL_BIG_norm_id [of "val ?r"] by auto
  then have i: "MCL_BIG_inc ?r d = ?r[0 := ?r ! 0 + d]"
    using r0 assms(5,6) by (simp add: MCL_BIG_inc_def s32_abs power_numeral Let_def)
  let ?s = "s((x, 0) := ?r[0 := ?r ! 0 + d])"
  have "within (2 ^ 29) (?r[0 := ?r ! 0 + d])"
  proof (rule withinI)
    fix i
    assume "i < length (?r[0 := ?r ! 0 + d])"
    then show "\<bar>?r[0 := ?r ! 0 + d] ! i\<bar> \<le> 2 ^ 29"
      using within_nth [OF r(2), of i] r0 assms(5,6) by (cases "i = 0") (auto simp: power_numeral)
  qed
  moreover have "bounded (2 ^ 29) s x 0 n" using b by (rule bounded_mono) (simp add: power_numeral)
  ultimately have "bounded (2 ^ 29) ?s x 0 n" using r(1) by (simp add: bounded_def)
  note n = FF_rnorm_holds [OF this assms(2)]
  have "fv ?s x 0 n = fv s x 0 n + d"
  proof -
    obtain m where "n = Suc m" using assms(2) gr0_implies_Suc by blast
    moreover have "?r \<noteq> []" using r(1) by auto
    ultimately show ?thesis by (simp add: fv_def sum.lessThan_Suc_shift val_update0 del: sum.lessThan_Suc)
  qed
  then have "fv ?s x 0 n = w + d" using holds_fv [OF assms(1,2)] by simp
  moreover have "same_but (region x 0 n) s ?s" using assms(2) by (auto simp: same_but_def region_iff)
  ultimately show ?thesis
    using n same_but_trans [of "region x 0 n" s ?s "region x 0 n"] by (simp add: MCL_FF_inc_def MCL_FF_norm_def i)
qed

lemma le_val_split:
  assumes "j \<le> length bs"
  shows "le_val bs = le_val (take j bs) + le_val (drop j bs) * 2 ^ (8 * j)" "0 \<le> le_val (take j bs)"
    "le_val (take j bs) < 2 ^ (8 * j)"
  using le_val_append [of "take j bs" "drop j bs"] le_val_bounds [of "take j bs"] assms
  by (simp_all add: min.absorb2 mult.commute)

lemma le_val_short: "length bs \<le> j \<Longrightarrow> le_val bs < 2 ^ (8 * j)"
proof -
  assume "length bs \<le> j"
  then have "(2::int) ^ (8 * length bs) \<le> 2 ^ (8 * j)" by (intro power_increasing) simp_all
  then show ?thesis using le_val_bounds [of bs] by linarith
qed

lemma le_val_drop: "le_val (drop j bs) = le_val bs div 2 ^ (8 * j)"
proof (cases "j \<le> length bs")
  case True
  then show ?thesis using le_val_split [OF True] by simp
next
  case False
  then show ?thesis using le_val_short [of bs j] le_val_bounds [of bs] by (simp add: div_pos_pos_trivial)
qed

lemma le_val_take: "le_val (take j bs) = le_val bs mod 2 ^ (8 * j)"
proof (cases "j \<le> length bs")
  case True
  then show ?thesis using le_val_split [OF True] by simp
next
  case False
  then show ?thesis using le_val_short [of bs j] le_val_bounds [of bs] by simp
qed

lemma MCL_FF_fromOctet_holds:
  assumes "length w = n * 56" "0 < n"
  shows "holds (MCL_FF_fromOctet x w n s) x 0 n (le_val (rev w))" "same_but (region x 0 n) s (MCL_FF_fromOctet x w n s)"
proof -
  let ?f = "\<lambda>i (s :: store). MCL_BIG_fromBytes (take 56 (drop ((n - i - 1) * 56) w))"
  have r: "same_but (region x 0 n) s (MCL_FF_fromOctet x w n s) \<and>
      (\<forall>i<n. MCL_FF_fromOctet x w n s (x, 0 + i) = ?f i s)"
    using fold_rows [of n x 0 ?f n s] by (simp add: MCL_FF_fromOctet_def)
  then show "same_but (region x 0 n) s (MCL_FF_fromOctet x w n s)" by blast
  show "holds (MCL_FF_fromOctet x w n s) x 0 n (le_val (rev w))" unfolding holds_def
  proof (intro allI impI)
    fix i
    assume i: "i < n"
    have l: "(n - i - 1) * 56 + 56 = (n - i) * 56" "(n - i) * 56 + 56 * i = n * 56" "(n - i) * 56 \<le> n * 56"
      using i by (simp_all add: diff_mult_distrib)
    let ?p = "take 56 (drop ((n - i - 1) * 56) w)"
    have "(n - i) * 56 - (n - i - 1) * 56 = 56" "n * 56 - (n - i) * 56 = 56 * i"
      "n * 56 - (56 * i + (n - Suc i) * 56) = 56" using l by simp_all
    then have "rev ?p = take 56 (drop (56 * i) (rev w))"
      using l assms(1) by (simp add: rev_take rev_drop drop_take add.commute)
    then have "le_val (rev ?p) = le_val (rev w) div 2 ^ (448 * i) mod 2 ^ 448"
      by (simp add: le_val_take le_val_drop)
    moreover have "le_val (rev w) div 2 ^ (448 * i) < 2 ^ 448" if "Suc i = n"
      using le_val_bounds [of "rev w"] assms(1) that by (intro div_less_mult) (auto simp: power_add [symmetric])
    moreover have "0 \<le> le_val (rev w) div 2 ^ (448 * i)"
      using le_val_bounds [of "rev w"] by (simp add: pos_imp_zdiv_nonneg_iff)
    ultimately have "le_val (rev ?p) = (if Suc i = n then le_val (rev w) div 2 ^ (448 * i)
        else le_val (rev w) div 2 ^ (448 * i) mod 2 ^ 448)" by simp
    moreover have "length ?p = 56" using l assms(1) by simp
    ultimately show "MCL_FF_fromOctet x w n s (x, 0 + i) = row n (le_val (rev w)) i"
      using r i by (simp add: row_def MCL_BIG_fromBytes_limbs)
  qed
qed

lemma le_bytes_append: "le_bytes (m + n) w = le_bytes m w @ le_bytes n (w div 2 ^ (8 * m))"
  by (induction n) (simp_all add: le_bytes_def power_add distrib_left zdiv_zmult2_eq)

lemma le_bytes_mod: "8 * n \<le> k \<Longrightarrow> le_bytes n (w mod 2 ^ k) = le_bytes n w"
proof -
  assume k: "8 * n \<le> k"
  have "(word_of_int (w mod 2 ^ k div 2 ^ (8 * i)) :: u8) = word_of_int (w div 2 ^ (8 * i))" if "i < n" for i
  proof -
    have "take_bit 8 (drop_bit (8 * i) (take_bit k w)) = take_bit 8 (drop_bit (8 * i) w)"
      using that k by (auto intro!: bit_eqI simp: bit_simps)
    then show ?thesis by (simp add: word_of_int_eq_iff take_bit_eq_mod drop_bit_eq_div)
  qed
  then show ?thesis by (simp add: le_bytes_def)
qed

lemma length_le_bytes [simp]: "length (le_bytes n w) = n"
  by (simp add: le_bytes_def)

lemma row_toBytes:
  assumes "0 \<le> w" "w < 2 ^ (448 * n + 11)" "i < n"
  shows "MCL_BIG_toBytes (row n w i) = rev (le_bytes 56 (w div 2 ^ (448 * i)))"
proof -
  let ?v = "if Suc i = n then w div 2 ^ (448 * i) else w div 2 ^ (448 * i) mod 2 ^ 448"
  have "0 \<le> w div 2 ^ (448 * i)" using assms(1) by (simp add: pos_imp_zdiv_nonneg_iff)
  moreover have "w div 2 ^ (448 * i) < 2 ^ 459" if "Suc i = n"
    using assms(2) that by (intro div_less_mult) (auto simp: power_add [symmetric] add.commute)
  moreover have "w div 2 ^ (448 * i) mod 2 ^ 448 < 2 ^ 459"
    by (rule less_trans [OF pos_mod_bound]) (simp_all add: power_strict_increasing)
  ultimately have "0 \<le> ?v" "?v < 2 ^ 459" by auto
  moreover have "(2::int) ^ 459 < 2 ^ 462" by (rule power_strict_increasing) simp_all
  ultimately have "?v < 2 ^ 462" by linarith
  moreover have "- (2 ^ 462) \<le> ?v" by (rule order_trans [OF _ \<open>0 \<le> ?v\<close>]) simp
  ultimately have "MCL_BIG_toBytes (limbs 17 ?v) = rev (le_bytes 56 ?v)" by (intro MCL_BIG_toBytes_limbs)
  then show ?thesis by (simp add: row_def le_bytes_mod)
qed

lemma MCL_FF_toOctet_bytes:
  assumes "holds s x 0 n w" "0 \<le> w" "w < 2 ^ (448 * n + 11)"
  shows "MCL_FF_toOctet x n s = rev (le_bytes (n * 56) w)"
proof -
  let ?f = "\<lambda>i bs. take ((n - i - 1) * 56) bs @ MCL_BIG_toBytes (s (x, i)) @ drop ((n - i) * 56) bs"
  have "fold ?f [0..<m] (replicate (n * 56) 0) = replicate ((n - m) * 56) 0 @ rev (le_bytes (m * 56) w)" if "m \<le> n" for m
    using that
  proof (induction m)
    case (Suc m)
    have "MCL_BIG_toBytes (s (x, m)) = rev (le_bytes 56 (w div 2 ^ (448 * m)))"
      using assms Suc(2) row_toBytes [OF assms(2,3), of m] by (simp add: holds_def)
    moreover have "le_bytes (Suc m * 56) w = le_bytes (m * 56) w @ le_bytes 56 (w div 2 ^ (448 * m))"
      using le_bytes_append [of "m * 56" 56 w] by (simp add: add.commute mult.commute)
    moreover have "(n - m - 1) * 56 \<le> (n - m) * 56" by simp
    ultimately show ?case using Suc by (simp add: min_def)
  qed (simp add: le_bytes_def)
  from this [of n] show ?thesis by (simp add: MCL_FF_toOctet_def)
qed

declare power_numeral [simp]

section \<open>Properties\<close>

text \<open>
  C28: \<^verbatim>\<open>MCL_FF_mul\<close> multiplies: when the operands are normalised numbers of \<open>n\<close> rows, a power of two, then
  the Karatsuba recursion over the shared arrays leaves the normal form of the exact product in the
  \<open>2 * n\<close> rows of the result. No limb overflows on the way, the operands keep their value although they
  are normalised in place, and no other array changes but the workspace.
\<close>

theorem MCL_FF_mul_product:
  assumes "holds s x 0 n u" "holds s y 0 n v" "0 \<le> u" "u < 2 ^ (448 * n + e)" "0 \<le> v" "v < 2 ^ (448 * n + e)"
    and "n = 2 ^ k" "e + k \<le> 5" "z \<noteq> x" "z \<noteq> y" "Work \<notin> {x, y, z}"
  shows "holds (MCL_FF_mul z x y n s) z 0 (2 * n) (u * v) \<and>
    holds (MCL_FF_mul z x y n s) x 0 n u \<and> holds (MCL_FF_mul z x y n s) y 0 n v \<and>
    (\<forall>a. a \<noteq> z \<and> a \<noteq> Work \<longrightarrow> (\<forall>i. MCL_FF_mul z x y n s (a, i) = s (a, i)))"
proof -
  note h = MCL_FF_mul_holds [OF assms]
  have f: "MCL_FF_mul z x y n s (a, i) = s (a, i)" if "a \<noteq> z" "a \<noteq> Work" for a i
    using h that by (intro same_butD [OF conjunct2 [OF h]]) (auto simp: region_iff)
  have "x \<noteq> Work" "y \<noteq> Work" using assms(11) by auto
  then show ?thesis using h f assms(1,2,9,10) by (auto simp: holds_def)
qed

theorem MCL_FF_mul_product_witness:
  "let s = (\<lambda>(a, i). row 4 (if a = Arr 0 then 2 ^ 1000 + 1 else 3) i)
   in holds (MCL_FF_mul (Arr 2) (Arr 0) (Arr 1) 4 s) (Arr 2) 0 8 ((2 ^ 1000 + 1) * 3)"
proof -
  let ?s = "\<lambda>(a, i). row 4 (if a = Arr 0 then 2 ^ 1000 + 1 else 3) i"
  have h: "holds ?s (Arr 0) 0 4 (2 ^ 1000 + 1)" "holds ?s (Arr 1) 0 4 3" by (simp_all add: holds_def)
  have "holds (MCL_FF_mul (Arr 2) (Arr 0) (Arr 1) 4 ?s) (Arr 2) 0 (2 * 4) ((2 ^ 1000 + 1) * 3)"
    by (rule conjunct1 [OF MCL_FF_mul_product [OF h, where e = 0 and k = 2]]) simp_all
  then show ?thesis unfolding Let_def by (simp only: mult_2 numeral_plus_numeral add_num_simps)
qed

end
