(* ===== verification/Keys.thy ===== *)
theory Keys
  imports Boot Mcl_ff
begin

text \<open>
  The key derivation of the second stage (\<^verbatim>\<open>common/src/secret_keys.c\<close>). All keys of an endpoint come
  from its internal master secret through a tree of SHA-256 digests, each of a digest followed by a
  repeated byte. The modulus of the RSA pair is the product of two numbers so derived, computed with the
  arithmetic of \<open>Mcl_ff\<close> in arrays on the stack; what the stack held before is the parameter \<open>stack\<close>.
\<close>

unbundle bit_operations_syntax

section \<open>State\<close>

text \<open>\<^verbatim>\<open>secret_keys_comm_area\<close> of the communication area.\<close>

record keys = gbboot +
  epsk :: bytes
  essk :: bytes
  ergs :: bytes
  errk_n :: bytes

section \<open>Derivation\<close>

definition calculate_y2 :: "bytes \<Rightarrow> ('a crypto_scheme, bytes) prog" where
  "calculate_y2 ims = sha256_parts (map (ims_word ims 0x5a5a5a5a) [0..<8])"

definition calculate_epsk :: "bytes \<Rightarrow> ('a crypto_scheme, bytes) prog" where
  "calculate_epsk y2 =
     bind (sha256_concat y2 0x01 32) (\<lambda>z1.
     bind (sha256_concat z1 0x01 32) (\<lambda>e.
     bind (sha256_concat z1 0x02 32) (\<lambda>t.
     return (e @ take 24 t))))"

definition calculate_essk :: "bytes \<Rightarrow> ('a crypto_scheme, bytes) prog" where
  "calculate_essk y2 = bind (sha256_concat y2 0x02 32) (\<lambda>z2. sha256_concat z2 0x01 32)"

definition calculate_epck :: "bytes \<Rightarrow> ('a crypto_scheme, bytes) prog" where
  "calculate_epck y2 = bind (sha256_concat y2 0x04 32) (\<lambda>z4. sha256_concat z4 0x01 32)"

definition calculate_ergs :: "bytes \<Rightarrow> ('a crypto_scheme, bytes) prog" where
  "calculate_ergs y2 = bind (sha256_concat y2 0x05 32) (\<lambda>z5. sha256_concat z5 0x01 32)"

text \<open>The seed of one of the two factors: four digests, with the two lowest bits set.\<close>

definition errk_seed :: "bytes \<Rightarrow> u8 \<Rightarrow> ('a crypto_scheme, bytes) prog" where
  "errk_seed z3 k =
     bind (sha256_concat z3 k 32) (\<lambda>a.
     bind (sha256_concat z3 (k + 1) 32) (\<lambda>b.
     bind (sha256_concat z3 (k + 2) 32) (\<lambda>c.
     bind (sha256_concat z3 (k + 3) 32) (\<lambda>d.
     let p = a @ b @ c @ d in return (p[0 := p ! 0 OR 3])))))"

text \<open>The octets of MIRACL are big-endian and end at the end of their buffer, the keys are little-endian.\<close>

definition bytes_to_MCL_FF :: "bytes \<Rightarrow> nat \<Rightarrow> arr \<Rightarrow> nat \<Rightarrow> store \<Rightarrow> store" where
  "bytes_to_MCL_FF buf len ff n =
     (let local_buf = fold (\<lambda>i b. b[MCL_MODBYTES * n - 1 - i := buf ! i]) [0..<len] (replicate (MCL_MODBYTES * n) 0)
      in MCL_FF_fromOctet ff local_buf n)"

definition MCL_FF_to_bytes :: "arr \<Rightarrow> nat \<Rightarrow> nat \<Rightarrow> store \<Rightarrow> bytes" where
  "MCL_FF_to_bytes ff n len s =
     (let local_buf = MCL_FF_toOctet ff n s in map (\<lambda>i. local_buf ! (MCL_MODBYTES * n - 1 - i)) [0..<len])"

text \<open>
  The last three bytes of the secret select an alias of the pair. They are read as a word, whose fourth
  byte lies behind the buffer and is masked out.
\<close>

definition alias_ims :: "bytes \<Rightarrow> u32" where
  "alias_ims ims = word_of_nat (unat (ims ! 32) + 256 * (unat (ims ! 33) + 256 * unat (ims ! 34)))"

text \<open>The arrays \<^verbatim>\<open>priv.p\<close>, \<^verbatim>\<open>priv.q\<close> and \<^verbatim>\<open>pub.n\<close>; \<^verbatim>\<open>MCL_FFLEN1\<close> is 8.\<close>

abbreviation priv_p :: arr where "priv_p \<equiv> Arr 0"
abbreviation priv_q :: arr where "priv_q \<equiv> Arr 1"
abbreviation pub_n :: arr where "pub_n \<equiv> Arr 2"

definition errk_modulus :: "store \<Rightarrow> bytes \<Rightarrow> bytes \<Rightarrow> u32 \<Rightarrow> bytes" where
  "errk_modulus stack errk_p errk_q alias =
     (let s = bytes_to_MCL_FF errk_p 128 priv_p 4 stack;
          s = bytes_to_MCL_FF errk_q 128 priv_q 4 s;
          s = MCL_FF_inc priv_p (s32 (uint (push_bit 2 (drop_bit 12 alias)))) 4 s;
          s = MCL_FF_inc priv_q (s32 (uint (push_bit 2 (alias AND 0xFFF)))) 4 s;
          s = MCL_FF_mul pub_n priv_p priv_q 4 s
      in MCL_FF_to_bytes pub_n 8 256 s)"

definition calculate_errk :: "store \<Rightarrow> bytes \<Rightarrow> bytes \<Rightarrow> ('a crypto_scheme, bytes) prog" where
  "calculate_errk stack y2 ims =
     bind (sha256_concat y2 0x03 32) (\<lambda>z3.
     bind (errk_seed z3 0x01) (\<lambda>errk_p.
     bind (errk_seed z3 0x05) (\<lambda>errk_q.
     return (errk_modulus stack errk_p errk_q (alias_ims ims)))))"

definition key_generation :: "store \<Rightarrow> bytes \<Rightarrow> ('a keys_scheme, unit) prog" where
  "key_generation stack ims =
     bind (calculate_y2 ims) (\<lambda>y2.
     bind (calculate_epsk y2) (\<lambda>k. bind (modify (\<lambda>s. s\<lparr>epsk := k\<rparr>)) (\<lambda>_.
     bind (calculate_ergs y2) (\<lambda>k. bind (modify (\<lambda>s. s\<lparr>ergs := k\<rparr>)) (\<lambda>_.
     bind (calculate_essk y2) (\<lambda>k. bind (modify (\<lambda>s. s\<lparr>essk := k\<rparr>)) (\<lambda>_.
     bind (calculate_epck y2) (\<lambda>_.
     bind (calculate_errk stack y2 ims) (\<lambda>k. modify (\<lambda>s. s\<lparr>errk_n := k\<rparr>))))))))))"

section \<open>What the keys are\<close>

text \<open>One step of the tree, and the keys as the comments of the source give them.\<close>

definition derive :: "bytes \<Rightarrow> u8 \<Rightarrow> bytes" where
  "derive x k = sha256_spec (x @ replicate 32 k)"

definition y2_spec :: "bytes \<Rightarrow> bytes" where
  "y2_spec ims = sha256_spec (map (\<lambda>b. b XOR 0x5a) (take 32 ims))"

definition seed_spec :: "bytes \<Rightarrow> u8 \<Rightarrow> bytes" where
  "seed_spec z3 k =
     (let p = derive z3 k @ derive z3 (k + 1) @ derive z3 (k + 2) @ derive z3 (k + 3) in p[0 := p ! 0 OR 3])"

text \<open>Programs that return \<open>r\<close>, change nothing but the hash context, and leave hashing possible.\<close>

definition only_hash :: "'a crypto_scheme \<Rightarrow> 'a crypto_scheme \<Rightarrow> bool" where
  "only_hash s t \<longleftrightarrow> (\<exists>sh. t = s\<lparr>shctx := sh\<rparr>)"

interpretation only_hash: state_rel only_hash
proof unfold_locales
  fix s t u :: "'a crypto_scheme"
  have "s = s\<lparr>shctx := shctx s\<rparr>" by simp
  then show "only_hash s s" unfolding only_hash_def by blast
  show "only_hash s t \<Longrightarrow> only_hash t u \<Longrightarrow> only_hash s u" by (auto simp: only_hash_def)
qed

lemma only_hash_shctx: "only_hash s (s\<lparr>shctx := sh\<rparr>)" "only_hash s s"
  using only_hash.refl by (auto simp: only_hash_def)

lemma hash_only: "preserves only_hash hash_start" "preserves only_hash (hash_update x)" "preserves only_hash hash_final"
  by (auto simp: preserves_def hash_start_def hash_update_def hash_final_def prog_defs only_hash_shctx
      split: option.splits)

lemma parts_only_hash: "preserves only_hash (sha256_parts bufs)"
proof -
  have "preserves only_hash (seqM (map hash_update bufs))"
    by (induction bufs) (auto intro!: only_hash.pres_intros hash_only)
  then show ?thesis unfolding sha256_parts_def by (intro only_hash.pres_intros hash_only)
qed

definition gives :: "('a crypto_scheme, 'b) prog \<Rightarrow> 'b \<Rightarrow> bool" where
  "gives m r \<longleftrightarrow> (\<forall>s. crypto_ready s \<longrightarrow> (\<exists>t. m s = Ret r t \<and> crypto_ready t \<and> only_hash s t))"

lemma givesD: "gives m r \<Longrightarrow> crypto_ready s \<Longrightarrow> \<exists>t. m s = Ret r t \<and> crypto_ready t \<and> only_hash s t"
  by (simp add: gives_def)

lemma gives_return: "gives (return x) x"
  by (simp add: gives_def return_def only_hash.refl)

lemma gives_bind:
  assumes "gives m x" "gives (f x) y"
  shows "gives (bind m f) y"
  unfolding gives_def
proof (intro allI impI)
  fix s :: "'a crypto_scheme"
  assume "crypto_ready s"
  with assms(1) obtain t where t: "m s = Ret x t" "crypto_ready t" "only_hash s t" by (blast dest: givesD)
  with assms(2) obtain u where "f x t = Ret y u" "crypto_ready u" "only_hash t u" by (blast dest: givesD)
  with t show "\<exists>t. bind m f s = Ret y t \<and> crypto_ready t \<and> only_hash s t"
    using only_hash.trans [of s t u] by simp
qed

lemma gives_parts: "gives (sha256_parts bufs) (sha256_spec (concat bufs))"
  using sha256_parts_run [where bufs = bufs] parts_only_hash [of bufs]
  by (fastforce simp: gives_def dest: preserves_RetD)

lemma length_derive [simp]: "length (derive x k) = 32"
  by (simp add: derive_def)

lemma gives_concat: "length x = 32 \<Longrightarrow> gives (sha256_concat x k 32) (derive x k)"
  using gives_parts [of "take 32 x # replicate 32 [k]"] by (simp add: sha256_concat_def derive_def concat_singles)

lemma concat_words: "concat (map (\<lambda>i. take 4 (drop (4 * i) xs)) [0..<n]) = take (4 * n) xs"
proof (induction n)
  case (Suc n)
  then show ?case using take_add [of "4 * n" 4 xs] by (simp add: add.commute)
qed simp

lemma concat_map_words: "concat (map (\<lambda>i. map f (take 4 (drop (4 * i) xs))) [0..<n]) = map f (take (4 * n) xs)"
  by (simp add: concat_words [symmetric] map_concat comp_def)

lemma ims_word_5a:
  assumes "4 * i + 4 \<le> length ims"
  shows "ims_word ims 0x5a5a5a5a i = map (\<lambda>b. b XOR 0x5a) (take 4 (drop (4 * i) ims))"
proof -
  have "replicate 4 c = [c, c, c, c]" for c :: u8 by (simp add: numeral_eq_Suc)
  then have "u32_bytes 0x5a5a5a5a = replicate 4 0x5a" by (simp add: u32_bytes_def)
  then show ?thesis using assms by (rule ims_word_pad)
qed

lemma gives_y2: "32 \<le> length ims \<Longrightarrow> gives (calculate_y2 ims) (y2_spec ims)"
proof -
  assume "32 \<le> length ims"
  then have e: "map (ims_word ims 0x5a5a5a5a) [0..<8] =
      map (\<lambda>i. map (\<lambda>b. b XOR 0x5a) (take 4 (drop (4 * i) ims))) [0..<8]"
    by (intro map_cong refl ims_word_5a) auto
  have "concat (map (ims_word ims 0x5a5a5a5a) [0..<8]) = map (\<lambda>b. b XOR 0x5a) (take 32 ims)"
    unfolding e using concat_map_words [of "\<lambda>b. b XOR 0x5a" ims 8] by simp
  then show ?thesis
    using gives_parts [of "map (ims_word ims 0x5a5a5a5a) [0..<8]"] by (simp add: calculate_y2_def y2_spec_def)
qed

lemma gives_keys:
  assumes "length y2 = 32"
  shows "gives (calculate_epsk y2) (derive (derive y2 1) 1 @ take 24 (derive (derive y2 1) 2))"
    and "gives (calculate_essk y2) (derive (derive y2 2) 1)"
    and "gives (calculate_epck y2) (derive (derive y2 4) 1)"
    and "gives (calculate_ergs y2) (derive (derive y2 5) 1)"
  unfolding calculate_epsk_def calculate_essk_def calculate_epck_def calculate_ergs_def
  using assms by (auto intro!: gives_bind gives_concat gives_return)

lemma gives_seed: "length z3 = 32 \<Longrightarrow> gives (errk_seed z3 k) (seed_spec z3 k)"
  unfolding errk_seed_def seed_spec_def Let_def 
  by ((rule gives_bind, erule gives_concat)+, rule gives_return)

lemma length_seed [simp]: "length (seed_spec z3 k) = 128"
  by (simp add: seed_spec_def Let_def)

section \<open>The modulus\<close>

lemma local_buf_rev:
  fixes buf :: bytes
  assumes "length buf \<le> N"
  shows "rev (fold (\<lambda>i b. b[N - 1 - i := buf ! i]) [0..<length buf] (replicate N 0)) = buf @ replicate (N - length buf) 0"
proof -
  let ?f = "\<lambda>m. fold (\<lambda>i b. b[N - 1 - i := buf ! i]) [0..<m] (replicate N 0)"
  have f: "length (?f m) = N \<and> (\<forall>j<N. ?f m ! (N - 1 - j) = (if j < m then buf ! j else 0))" if "m \<le> N" for m
    using that
  proof (induction m)
    case (Suc m)
    then have "N - 1 - j = N - 1 - m \<longleftrightarrow> j = m" if "j < N" for j using that by auto
    with Suc show ?case by (auto simp: nth_list_update less_Suc_eq)
  qed auto
  note f = f [OF assms]
  show ?thesis
  proof (rule nth_equalityI)
    fix j
    assume "j < length (rev (?f (length buf)))"
    then have "j < N" using f by simp
    then show "rev (?f (length buf)) ! j = (buf @ replicate (N - length buf) 0) ! j"
      using f by (simp add: rev_nth nth_append)
  qed (use f assms in simp)
qed

lemma le_val_zeros: "le_val (replicate n 0) = 0"
  by (induction n) simp_all

lemma bytes_to_MCL_FF_holds:
  assumes "length buf = len" "len \<le> 56 * n" "0 < n"
  shows "holds (bytes_to_MCL_FF buf len ff n s) ff 0 n (le_val buf)"
    "same_but (region ff 0 n) s (bytes_to_MCL_FF buf len ff n s)"
proof -
  let ?b = "fold (\<lambda>i b. b[56 * n - 1 - i := buf ! i]) [0..<len] (replicate (56 * n) 0)"
  have r: "rev ?b = buf @ replicate (56 * n - len) 0" using local_buf_rev [of buf "56 * n"] assms by simp
  have "length (rev ?b) = n * 56" unfolding r using assms by simp
  then have l: "length ?b = n * 56" by simp
  have "le_val (rev ?b) = le_val buf" unfolding r by (simp add: le_val_append le_val_zeros)
  then show "holds (bytes_to_MCL_FF buf len ff n s) ff 0 n (le_val buf)"
    using MCL_FF_fromOctet_holds(1) [OF l assms(3), of ff s] by (simp add: bytes_to_MCL_FF_def)
  show "same_but (region ff 0 n) s (bytes_to_MCL_FF buf len ff n s)"
    using MCL_FF_fromOctet_holds(2) [OF l assms(3), of ff s] by (simp add: bytes_to_MCL_FF_def)
qed

lemma MCL_FF_to_bytes_eq:
  assumes "holds s ff 0 n w" "0 \<le> w" "w < 2 ^ (448 * n + 11)" "len \<le> 56 * n"
  shows "MCL_FF_to_bytes ff n len s = le_bytes len w"
proof (rule nth_equalityI)
  have o: "MCL_FF_toOctet ff n s = rev (le_bytes (n * 56) w)" by (rule MCL_FF_toOctet_bytes [OF assms(1-3)])
  fix i
  assume "i < length (MCL_FF_to_bytes ff n len s)"
  then have i: "i < len" by (simp add: MCL_FF_to_bytes_def)
  then have "rev (le_bytes (n * 56) w) ! (56 * n - 1 - i) = le_bytes (n * 56) w ! i"
    using assms(4) by (subst rev_nth) simp_all
  also have "\<dots> = le_bytes len w ! i" using i assms(4) by (simp add: le_bytes_def)
  finally show "MCL_FF_to_bytes ff n len s ! i = le_bytes len w ! i" using i by (simp add: MCL_FF_to_bytes_def o)
qed (simp add: MCL_FF_to_bytes_def)

text \<open>The two factors, and the modulus as a number.\<close>

definition errk_spec :: "bytes \<Rightarrow> bytes \<Rightarrow> bytes" where
  "errk_spec y2 ims =
     (let z3 = derive y2 3; a = uint (alias_ims ims);
          p = le_val (seed_spec z3 1) + 4 * (a div 4096);
          q = le_val (seed_spec z3 5) + 4 * (a mod 4096)
      in le_bytes 256 (p * q))"

lemma unat_word_of_nat: "n < 2 ^ 32 \<Longrightarrow> unat (word_of_nat n :: u32) = n"
  by (simp add: unsigned_of_nat take_bit_nat_eq_self_iff)

lemma alias_bound: "uint (alias_ims ims) < 2 ^ 24"
proof -
  have b: "unat (ims ! i) \<le> 255" for i using unsigned_less [of "ims ! i", where ?'a = nat] by simp
  let ?n = "unat (ims ! 32) + 256 * (unat (ims ! 33) + 256 * unat (ims ! 34))"
  have n: "?n < 2 ^ 24" using b [of 32] b [of 33] b [of 34] by simp
  then have "unat (alias_ims ims) = ?n" unfolding alias_ims_def by (intro unat_word_of_nat) simp
  then have "int (unat (alias_ims ims)) < int (2 ^ 24)" using n by (simp only: of_nat_less_iff)
  then show ?thesis by simp
qed

lemma uint_push_2: "uint a < 2 ^ 24 \<Longrightarrow> uint (push_bit 2 (a :: u32)) = 4 * uint a"
  by (subst unsigned_push_bit_eq) (simp add: take_bit_eq_mod push_bit_eq_mult)

lemma alias_high: "uint a < 2 ^ 24 \<Longrightarrow> s32 (uint (push_bit 2 (drop_bit 12 a))) = 4 * (uint (a :: u32) div 4096)"
proof -
  assume a: "uint a < 2 ^ 24"
  have "uint (drop_bit 12 a) = uint a div 4096"
    using a by (subst unsigned_drop_bit_eq) (simp add: take_bit_eq_mod drop_bit_eq_div)
  moreover have "0 \<le> uint a div 4096" "uint a div 4096 < 4096" using a by (simp_all add: pos_imp_zdiv_nonneg_iff)
  ultimately show ?thesis using uint_push_2 [of "drop_bit 12 a"] by (simp add: s32_id)
qed

lemma alias_low: "s32 (uint (push_bit 2 (a AND 0xFFF))) = 4 * (uint (a :: u32) mod 4096)"
proof -
  have "uint (a AND 0xFFF) = uint a AND mask 12" by (simp add: unsigned_and_eq mask_eq_exp_minus_1)
  then have "uint (a AND 0xFFF) = uint a mod 4096" by (simp add: take_bit_eq_mask [symmetric] take_bit_eq_mod)
  then show ?thesis using uint_push_2 [of "a AND 0xFFF"] by (simp add: s32_id)
qed

lemma errk_modulus_correct:
  assumes "length p = 128" "length q = 128" "uint a < 2 ^ 24"
  shows "errk_modulus stack p q a = le_bytes 256 ((le_val p + 4 * (uint a div 4096)) * (le_val q + 4 * (uint a mod 4096)))"
proof -
  define s1 where "s1 = bytes_to_MCL_FF p 128 priv_p 4 stack"
  define s2 where "s2 = bytes_to_MCL_FF q 128 priv_q 4 s1"
  define s3 where "s3 = MCL_FF_inc priv_p (4 * (uint a div 4096)) 4 s2"
  define s4 where "s4 = MCL_FF_inc priv_q (4 * (uint a mod 4096)) 4 s3"
  define s5 where "s5 = MCL_FF_mul pub_n priv_p priv_q 4 s4"
  have b: "0 \<le> le_val p" "le_val p < 2 ^ 1024" "0 \<le> le_val q" "le_val q < 2 ^ 1024"
    using le_val_bounds [of p] le_val_bounds [of q] assms by simp_all
  have a: "0 \<le> uint a div 4096" "uint a div 4096 < 4096" "0 \<le> uint a mod 4096" "uint a mod 4096 < 4096"
    using assms(3) by (simp_all add: pos_imp_zdiv_nonneg_iff)
  have h1: "holds s1 priv_p 0 4 (le_val p)" unfolding s1_def by (rule bytes_to_MCL_FF_holds) (simp_all add: assms)
  have h2: "holds s2 priv_q 0 4 (le_val q)" "same_but (region priv_q 0 4) s1 s2"
    unfolding s2_def by (rule bytes_to_MCL_FF_holds; simp add: assms)+
  have h2': "holds s2 priv_p 0 4 (le_val p)" by (rule holds_keep [OF h2(2) _ h1]) (simp add: disjoint_def)
  have "holds s3 priv_p 0 4 (le_val p + 4 * (uint a div 4096)) \<and> same_but (region priv_p 0 4) s2 s3"
    unfolding s3_def using b a by (intro MCL_FF_inc_holds [OF h2']) auto
  then have h3: "holds s3 priv_p 0 4 (le_val p + 4 * (uint a div 4096))" "same_but (region priv_p 0 4) s2 s3" by auto
  have h3': "holds s3 priv_q 0 4 (le_val q)" by (rule holds_keep [OF h3(2) _ h2(1)]) (simp add: disjoint_def)
  have "holds s4 priv_q 0 4 (le_val q + 4 * (uint a mod 4096)) \<and> same_but (region priv_q 0 4) s3 s4"
    unfolding s4_def using b a by (intro MCL_FF_inc_holds [OF h3']) auto
  then have h4: "holds s4 priv_q 0 4 (le_val q + 4 * (uint a mod 4096))" "same_but (region priv_q 0 4) s3 s4" by auto
  have h4': "holds s4 priv_p 0 4 (le_val p + 4 * (uint a div 4096))"
    by (rule holds_keep [OF h4(2) _ h3(1)]) (simp add: disjoint_def)
  let ?u = "le_val p + 4 * (uint a div 4096)" and ?v = "le_val q + 4 * (uint a mod 4096)"
  have u: "0 \<le> ?u" "?u < 2 ^ 1025" "0 \<le> ?v" "?v < 2 ^ 1025" using a b by simp_all
  have "holds s5 pub_n 0 (2 * 4) (?u * ?v) \<and>
      same_but (region pub_n 0 (2 * 4) \<union> region Work 0 (2 * 4)) s4 s5"
    unfolding s5_def using u by (intro MCL_FF_mul_holds [where e = 0 and k = 2, OF h4' h4(1)]) simp_all
  moreover have "?u * ?v < 2 ^ 1025 * 2 ^ 1025" using u by (intro mult_strict_mono) simp_all
  ultimately have "MCL_FF_to_bytes pub_n 8 256 s5 = le_bytes 256 (?u * ?v)"
    using u by (intro MCL_FF_to_bytes_eq) simp_all
  then show ?thesis
    using alias_high [OF assms(3)] alias_low [of a]
    by (simp only: errk_modulus_def Let_def s1_def s2_def s3_def s4_def s5_def)
qed

lemma gives_errk: "length y2 = 32 \<Longrightarrow> gives (calculate_errk stack y2 ims) (errk_spec y2 ims)"
proof -
  assume y: "length y2 = 32"
  let ?z = "derive y2 3"
  have "errk_modulus stack (seed_spec ?z 1) (seed_spec ?z 5) (alias_ims ims) = errk_spec y2 ims"
    using errk_modulus_correct [OF _ _ alias_bound] by (simp add: errk_spec_def Let_def)
  then have "gives (return (errk_modulus stack (seed_spec ?z 1) (seed_spec ?z 5) (alias_ims ims))) (errk_spec y2 ims)"
    using gives_return by metis
  then show ?thesis unfolding calculate_errk_def
    by (intro gives_bind [OF gives_concat [OF y]] gives_bind [OF gives_seed]) simp_all
qed

text \<open>A key computed and stored: the step of \<^verbatim>\<open>key_generation\<close>.\<close>

lemma gives_step:
  assumes "gives m k" "crypto_ready s"
  obtains t where "m s = Ret k t" "crypto_ready t" "only_hash s t"
  using givesD [OF assms] by blast

lemma only_hash_keys:
  "only_hash (s :: 'a keys_scheme) t \<Longrightarrow>
     epsk t = epsk s \<and> essk t = essk s \<and> ergs t = ergs s \<and> errk_n t = errk_n s \<and> ram t = ram s"
  by (auto simp: only_hash_def)

lemma crypto_ready_keys:
  assumes "crypto_ready s"
  shows "crypto_ready (s\<lparr>epsk := k\<rparr>)" "crypto_ready (s\<lparr>essk := k\<rparr>)" "crypto_ready (s\<lparr>ergs := k\<rparr>)"
    "crypto_ready (s\<lparr>errk_n := k\<rparr>)"
  using assms by (simp_all add: crypto_ready_def)

lemma key_generation_run:
  fixes s :: "'a keys_scheme"
  assumes "crypto_ready s" "32 \<le> length ims"
  shows "\<exists>t. key_generation stack ims s = Ret () t \<and> crypto_ready t \<and> ram t = ram s \<and>
    (let y2 = y2_spec ims; z1 = derive y2 1
     in epsk t = derive z1 1 @ take 24 (derive z1 2) \<and> ergs t = derive (derive y2 5) 1 \<and>
        essk t = derive (derive y2 2) 1 \<and> errk_n t = errk_spec y2 ims)"
proof -
  let ?y2 = "y2_spec ims"
  have y: "length ?y2 = 32" by (simp add: y2_spec_def)
  note k = gives_keys [OF y]
  obtain s1 where 1: "calculate_y2 ims s = Ret ?y2 s1" "crypto_ready s1" "only_hash s s1"
    by (rule gives_step [OF gives_y2 [OF assms(2)] assms(1)])
  obtain s2 where 2: "calculate_epsk ?y2 s1 = Ret (derive (derive ?y2 1) 1 @ take 24 (derive (derive ?y2 1) 2)) s2"
    "crypto_ready s2" "only_hash s1 s2" by (rule gives_step [OF k(1) 1(2)])
  let ?s2 = "s2\<lparr>epsk := derive (derive ?y2 1) 1 @ take 24 (derive (derive ?y2 1) 2)\<rparr>"
  obtain s3 where 3: "calculate_ergs ?y2 ?s2 = Ret (derive (derive ?y2 5) 1) s3" "crypto_ready s3" "only_hash ?s2 s3"
    by (rule gives_step [OF k(4) crypto_ready_keys(1) [OF 2(2)]])
  let ?s3 = "s3\<lparr>ergs := derive (derive ?y2 5) 1\<rparr>"
  obtain s4 where 4: "calculate_essk ?y2 ?s3 = Ret (derive (derive ?y2 2) 1) s4" "crypto_ready s4" "only_hash ?s3 s4"
    by (rule gives_step [OF k(2) crypto_ready_keys(3) [OF 3(2)]])
  let ?s4 = "s4\<lparr>essk := derive (derive ?y2 2) 1\<rparr>"
  obtain s5 where 5: "calculate_epck ?y2 ?s4 = Ret (derive (derive ?y2 4) 1) s5" "crypto_ready s5" "only_hash ?s4 s5"
    by (rule gives_step [OF k(3) crypto_ready_keys(2) [OF 4(2)]])
  obtain s6 where 6: "calculate_errk stack ?y2 ims s5 = Ret (errk_spec ?y2 ims) s6" "crypto_ready s6" "only_hash s5 s6"
    by (rule gives_step [OF gives_errk [OF y] 5(2)])
  note h = only_hash_keys [OF 1(3)] only_hash_keys [OF 2(3)] only_hash_keys [OF 3(3)] only_hash_keys [OF 4(3)]
    only_hash_keys [OF 5(3)] only_hash_keys [OF 6(3)]
  have "key_generation stack ims s = Ret () (s6\<lparr>errk_n := errk_spec ?y2 ims\<rparr>)"
    by (simp add: key_generation_def modify_def 1(1) 2(1) 3(1) 4(1) 5(1) 6(1))
  then show ?thesis using h crypto_ready_keys(4) [OF 6(2)] by (simp add: Let_def)
qed

section \<open>Properties\<close>

text \<open>The state after reset, with an empty communication area.\<close>

definition reset_keys :: keys where
  "reset_keys = gbboot.extend reset_gbboot \<lparr>epsk = [], essk = [], ergs = [], errk_n = []\<rparr>"

lemma reset_keys_ready: "crypto_ready reset_keys"
  by (simp add: reset_keys_def gbboot.defs crypto_ready_def reset_gbboot_def gbcore.defs reset_gbcore_def tftf.defs reset_tftf_def
      ffff.defs reset_ffff_def spi.defs reset_spi_def crypto.defs reset_crypto_def)

text \<open>
  C29: \<^verbatim>\<open>key_generation\<close> runs to its end and leaves the keys of the tree in the communication area: the
  signing keys and the seed of the random generator are chained digests of the master secret, and the
  modulus is exactly the product of the two derived numbers with the alias added to them, whatever was on the stack
  before. Nothing else in memory changes.
\<close>

theorem key_generation_correct:
  fixes s :: "'a keys_scheme"
  assumes "crypto_ready s" "length ims = 35"
  shows "\<exists>t. key_generation stack ims s = Ret () t \<and> ram t = ram s \<and>
    (let y2 = y2_spec ims; z1 = derive y2 1
     in epsk t = derive z1 1 @ take 24 (derive z1 2) \<and> ergs t = derive (derive y2 5) 1 \<and>
        essk t = derive (derive y2 2) 1 \<and> errk_n t = errk_spec y2 ims)"
  using key_generation_run [OF assms(1), of ims stack] assms(2) by (auto simp: Let_def)

theorem key_generation_correct_witness:
  "let ims = replicate 35 0x11
   in \<exists>t. key_generation (\<lambda>_. []) ims reset_keys = Ret () t \<and> errk_n t = errk_spec (y2_spec ims) ims"
  using key_generation_correct [OF reset_keys_ready, of "replicate 35 0x11" "\<lambda>_. []"] by (auto simp: Let_def)



end
