(* ===== verification/Secondstage.thy ===== *)
theory Secondstage
  imports Boot Keys
begin

text \<open>
  The entry point of the second stage, \<^verbatim>\<open>bootrom_main\<close> of \<^verbatim>\<open>apps/secondstage/src/start.c\<close>, started by
  the boot ROM: it derives the keys of the endpoint, chooses the source of the third stage from the way
  it was booted itself, loads the image and jumps to it. It shares the code of the previous theories with
  the boot ROM, compiled for stage 2; the hash and signature functions are those of the ROM, found in the
  table of shared functions of the communication area.
\<close>

section \<open>The boot sequence\<close>

abbreviation (input) "FORCE_UNIPRO_BOOT \<equiv> 1 :: u32"

text \<open>\<^verbatim>\<open>boot_control\<close>: the value left in \<^verbatim>\<open>boot_from_spi\<close>.\<close>

definition boot_control :: "env \<Rightarrow> ('a errs_scheme, bool) prog" where
  "boot_control E =
     bind (chip_get_boot_status E) (\<lambda>prev_boot_status.
     bind (chip_unipro_attr_read E DME_ARA_BOOT_CONTROL 0 False) (\<lambda>(rc, bootctrl).
     if rc \<noteq> 0 then halt_and_catch_fire E INIT_STATUS_OPERATING
     else if prev_boot_status AND INIT_STATUS_FAILED \<noteq> 0 then halt_and_catch_fire E INIT_STATUS_OPERATING
     else
       (let prev_boot_status = prev_boot_status AND INIT_STATUS_STATUS_MASK;
            boot_from_spi = (prev_boot_status = INIT_STATUS_TRUSTED_SPI_FLASH_BOOT_FINISHED \<or>
              prev_boot_status = INIT_STATUS_UNTRUSTED_SPI_FLASH_BOOT_FINISHED)
        in return (if bootctrl AND FORCE_UNIPRO_BOOT \<noteq> 0 then False else boot_from_spi))))"

text \<open>
  The boot from flash, as in the boot ROM but for the element type. A return means that there was nothing
  to start; the boot status then says whether an image was found.
\<close>

definition s2_spi_boot :: "env \<Rightarrow> ('a gbboot_scheme, u32) prog" where
  "s2_spi_boot E =
     bind (ops_init (spi_ops E)) (\<lambda>_.
     bind (locate_ffff_element_on_storage E (spi_ops E) FFFF_ELEMENT_STAGE_3_FW) (\<lambda>(rc, _).
     bind (if rc = 0 then bind (spi_load_and_start E) (\<lambda>_. return INIT_STATUS_SPI_BOOT_STARTED)
           else return INIT_STATUS_OPERATING) (\<lambda>boot_status.
     bind (ops_finish (spi_ops E) False False) (\<lambda>_.
     bind (chip_clear_image_loading_ram E) (\<lambda>_.
     return boot_status)))))"

definition s2_unipro_boot :: "env \<Rightarrow> bool \<Rightarrow> ('a gbboot_scheme, u32) prog" where
  "s2_unipro_boot E fallback =
     bind (if fallback then merge_errno_with_boot_status INIT_STATUS_FALLLBACK_UNIPRO_BOOT_STARTED
           else return INIT_STATUS_UNIPRO_BOOT_STARTED) (\<lambda>boot_status.
     bind (chip_advertise_boot_status E boot_status) (\<lambda>_.
     bind (advertise_ready E) (\<lambda>_.
     bind (ops_init (greybus_ops E)) (\<lambda>rc.
     if rc \<noteq> 0 then halt_and_catch_fire E boot_status
     else unipro_load_and_start E fallback boot_status))))"

definition s2_boot :: "env \<Rightarrow> bool \<Rightarrow> ('a gbboot_scheme, unit) prog" where
  "s2_boot E boot_from_spi =
     bind (if boot_from_spi then s2_spi_boot E else return INIT_STATUS_OPERATING) (\<lambda>boot_status.
     bind (greybus_init E) (\<lambda>rc.
     if rc \<noteq> 0 then
       bind (set_last_error E BRE_BOU_GBCTRL_CPORT) (\<lambda>_.
       halt_and_catch_fire E boot_status)
     else
       bind (s2_unipro_boot E boot_from_spi) (\<lambda>boot_status.
       halt_and_catch_fire E boot_status)))"

text \<open>The e-fuses are read again only for the endpoint id that belongs to a fake master secret.\<close>

definition s2_fake_ims :: "env \<Rightarrow> bytes \<Rightarrow> ('a tftf_scheme, unit) prog" where
  "s2_fake_ims E stack =
     (if cfgdata_valid E \<and> cfg_use_fake_ims E \<noteq> 0 then
        bind (efuse_init E stack) (\<lambda>rc. if rc \<noteq> 0 then halt_and_catch_fire E INIT_STATUS_OPERATING else skip)
      else skip)"

text \<open>
  \<open>stack\<close>, \<open>ims\<close> and \<open>ffs\<close> are what the uninitialised locals of \<^verbatim>\<open>efuse_init\<close>, of this function and of
  \<^verbatim>\<open>calculate_errk\<close> hold.
\<close>

definition s2_main :: "env \<Rightarrow> bytes \<Rightarrow> bytes \<Rightarrow> store \<Rightarrow> ('a keys_scheme, unit) prog" where
  "s2_main E stack ims ffs =
     bind chip_init (\<lambda>_.
     bind (init_last_error E) (\<lambda>_.
     bind (crypto_init E) (\<lambda>_.
     bind (s2_fake_ims E stack) (\<lambda>_.
     bind (tsb_get_ims E ims TSB_ISAA_NUM_IMS_BYTES) (\<lambda>ims.
     bind (key_generation ffs ims) (\<lambda>_.
     bind (chip_unipro_init E) (\<lambda>_.
     bind (boot_control E) (\<lambda>boot_from_spi.
     bind (chip_advertise_boot_status E INIT_STATUS_OPERATING) (\<lambda>_.
     bind (chip_advertise_boot_type E) (\<lambda>rc.
     if rc \<noteq> 0 then halt_and_catch_fire E INIT_STATUS_OPERATING
     else s2_boot E boot_from_spi))))))))))"

section \<open>Jumps\<close>

lemma s2_never_returns: "s2_main E stack ims ffs s \<noteq> Ret r t"
proof
  have b: "s2_boot E spi u \<noteq> Ret x v" for spi x and u v :: "'a keys_scheme"
    by (auto simp: s2_boot_def halt_never_returns elim!: bind_eq_RetE split: if_splits)
  assume "s2_main E stack ims ffs s = Ret r t"
  then show False by (auto simp: s2_main_def halt_never_returns b elim!: bind_eq_RetE split: if_splits)
qed

lemma calm_boot_control [calm_intros]: "calm (boot_control E)"
  unfolding boot_control_def chip_get_boot_status_def by (intro calm_intros)

lemma calm_fake_ims [calm_intros]: "calm (s2_fake_ims E stack)"
  unfolding s2_fake_ims_def by (intro calm_intros)

lemma calm_concat [calm_intros]: "calm (sha256_concat x k n)"
  unfolding sha256_concat_def by (intro calm_intros)

lemma calm_keys_assign [calm_intros]:
  "calm (modify (\<lambda>s. s\<lparr>epsk := k\<rparr>))" "calm (modify (\<lambda>s. s\<lparr>essk := k\<rparr>))" "calm (modify (\<lambda>s. s\<lparr>ergs := k\<rparr>))"
  "calm (modify (\<lambda>s. s\<lparr>errk_n := k\<rparr>))"
  by (intro calm_modify; simp add: calm_rel_def crypto_ready_def)+

lemma calm_key_generation [calm_intros]: "calm (key_generation ffs ims)"
  unfolding key_generation_def calculate_y2_def calculate_epsk_def calculate_ergs_def calculate_essk_def
    calculate_epck_def calculate_errk_def errk_seed_def
  by (intro calm_intros)

lemma guarded_s2_boot: "guarded (proper_jump E) (s2_boot E boot_from_spi)"
  unfolding s2_boot_def s2_spi_boot_def s2_unipro_boot_def spi_ops_sel greybus_ops_sel
  by (rule guarded_intros | rule guarded_calm, (intro calm_intros; fail))+

lemma s2_main_jump:
  fixes s :: "'a keys_scheme"
  assumes "s2_main E stack ims ffs s = Stop (Jumped a) t" "rom_services s" "length (sh_w (shctx s)) = 80"
  shows "proper_jump E a t"
proof -
  let ?rest = "bind (s2_fake_ims E stack) (\<lambda>_. bind (tsb_get_ims E ims TSB_ISAA_NUM_IMS_BYTES) (\<lambda>ims.
     bind (key_generation ffs ims) (\<lambda>_. bind (chip_unipro_init E) (\<lambda>_. bind (boot_control E) (\<lambda>boot_from_spi.
     bind (chip_advertise_boot_status E INIT_STATUS_OPERATING) (\<lambda>_. bind (chip_advertise_boot_type E) (\<lambda>rc.
     if rc \<noteq> 0 then halt_and_catch_fire E INIT_STATUS_OPERATING
     else s2_boot E boot_from_spi))))))) :: ('a keys_scheme, unit) prog"
  from assms(1) obtain u where u: "?rest u = Stop (Jumped a) t" "stage_ready u"
    unfolding s2_main_def by (rule start_up_jump) (auto simp: assms)
  have "guarded (proper_jump E) ?rest"
    by (rule guarded_intros guarded_s2_boot | rule guarded_calm, (intro calm_intros; fail))+
  from guarded_jump [OF this u(2,1)] show ?thesis .
qed

section \<open>Properties\<close>


lemma reset_keys_buffers:
  "header1 reset_keys = replicate 4096 0" "header2 reset_keys = replicate 4096 0"
  "tftf_header reset_keys = replicate 4096 0" "length (sh_w (shctx reset_keys)) = 80"
  using reset_gbboot_buffers by (simp_all add: reset_keys_def gbboot.defs)

text \<open>The chip on which the boot ROM has booted from flash, now in its second stage.\<close>

definition s2_env :: env where
  "s2_env = (tftf_env boot_flash)\<lparr>boot_stage := 2\<rparr>"


end
