(* ===== verification/Spimaster.thy ===== *)
theory Spimaster
  imports Greybus
begin

text \<open>
  The SPI master driver behind the bridged SPI of the second stage (\<^verbatim>\<open>chips/es3tsb/src/es3_spi_master.c\<close>
  and the wrappers of \<^verbatim>\<open>common/include/device_spi.h\<close>). The theory shows that an exchange that returns has
  moved exactly the requested number of bytes in each direction, in order, whatever the controller's
  FIFOs do in between.
\<close>

unbundle bit_operations_syntax

section \<open>State\<close>

record master_spi_caps =
  caps_bpw :: u32
  caps_min_speed_hz :: u32
  caps_max_speed_hz :: u32
  caps_modes :: u16
  caps_flags :: u16
  caps_csnum :: u16

record device_spi_cfg =
  cfg_mode :: u16
  cfg_bpw :: u8
  cfg_max_speed_hz :: u32
  cfg_device_type :: u8
  cfg_name :: bytes

text \<open>
  \<^verbatim>\<open>spi_info\<close> with its device table (empty for the null pointer), and whether the operations are registered
  with the Greybus driver, which has a null pointer before.
\<close>

record spimaster = gbcore +
  reg_base :: u32
  caps :: master_spi_caps
  dev_cfg :: "device_spi_cfg list"
  spi_dev_ops :: bool

abbreviation (input) "CONFIG_SPI_MAX_CHIPS \<equiv> 1 :: u16"
abbreviation (input) "CS0_GPIO_PINS_BIT \<equiv> 0x80 :: u32"
abbreviation (input) "CS0_GPIO \<equiv> 15 :: nat"
abbreviation (input) "CONFIG_SPI_BPW_MASK \<equiv> 0x80 :: u32"
abbreviation (input) "CONFIG_SPI_MIN_FREQ \<equiv> 15000 :: u32"
abbreviation (input) "CONFIG_SPI_MAX_FREQ \<equiv> 24000000 :: u32"
abbreviation (input) "CONFIG_SPI_MAX_DIV \<equiv> 0xFFFF :: u32"
abbreviation (input) "DW_SPI_CTRLR0 \<equiv> 0x00 :: u32"
abbreviation (input) "DW_SPI_SSIENR \<equiv> 0x08 :: u32"
abbreviation (input) "DW_SPI_BAUDR \<equiv> 0x14 :: u32"
abbreviation (input) "DW_SPI_SR \<equiv> 0x28 :: u32"
abbreviation (input) "DW_SPI_DR \<equiv> 0x60 :: u32"
abbreviation (input) "SPI_CTRLR0_SCPH \<equiv> 0x40 :: u32"
abbreviation (input) "SPI_CTRLR0_SCPOL \<equiv> 0x80 :: u32"
abbreviation (input) "SPI_CTRL0_TMOD_MASK \<equiv> 0x300 :: u32"
abbreviation (input) "SPI_CTRLR0_DFS32_MASK \<equiv> 0x1F0000 :: u32"
abbreviation (input) "SPI_SR_TFNF_MASK \<equiv> 0x02 :: u32"
abbreviation (input) "SPI_SR_RFNE_MASK \<equiv> 0x08 :: u32"
abbreviation (input) "SPI_SR_RFF_MASK \<equiv> 0x10 :: u32"
abbreviation (input) "FSSI_CLK \<equiv> 48000000 :: u32"
abbreviation (input) "GB_SPI_SPI_NOR \<equiv> 1 :: u8"
abbreviation (input) "SPI_MODE_CPHA \<equiv> 1 :: u8"
abbreviation (input) "SPI_MODE_CPOL \<equiv> 2 :: u8"
abbreviation (input) "ENODEV \<equiv> 19 :: int"

text \<open>\<^verbatim>\<open>chips_info\<close>; the name is "w25q16dw", padded to 32 bytes.\<close>

definition chips_info :: "device_spi_cfg list" where
  "chips_info =
     [\<lparr>cfg_mode = 0, cfg_bpw = 8, cfg_max_speed_hz = CONFIG_SPI_MAX_FREQ, cfg_device_type = GB_SPI_SPI_NOR,
       cfg_name = [0x77, 0x32, 0x35, 0x71, 0x31, 0x36, 0x64, 0x77] @ replicate 24 0\<rparr>]"

section \<open>Operations\<close>

definition tsb_spi_read :: "env \<Rightarrow> u32 \<Rightarrow> u32 \<Rightarrow> ('a machine_scheme, u32) prog" where
  "tsb_spi_read E base addr = getreg32 E (base + addr)"

definition tsb_spi_write :: "u32 \<Rightarrow> u32 \<Rightarrow> u32 \<Rightarrow> ('a machine_scheme, unit) prog" where
  "tsb_spi_write base addr val = putreg32 val (base + addr)"

definition es3_spi_select :: "env \<Rightarrow> u8 \<Rightarrow> ('a spimaster_scheme, int) prog" where
  "es3_spi_select E devid =
     bind (gets caps) (\<lambda>c.
     if caps_csnum c \<le> ucast devid then return (- EINVAL)
     else
       bind (tsb_set_pinshare E CS0_GPIO_PINS_BIT) (\<lambda>_.
       bind (chip_gpio_direction_out CS0_GPIO 0) (\<lambda>_.
       return 0)))"

definition es3_spi_deselect :: "env \<Rightarrow> u8 \<Rightarrow> ('a spimaster_scheme, int) prog" where
  "es3_spi_deselect E devid =
     bind (gets caps) (\<lambda>c.
     if caps_csnum c \<le> ucast devid then return (- EINVAL)
     else
       bind (chip_gpio_direction_out CS0_GPIO 1) (\<lambda>_.
       bind (tsb_clr_pinshare E CS0_GPIO_PINS_BIT) (\<lambda>_.
       return 0)))"

text \<open>\<^verbatim>\<open>info->dev_cfg[cs]\<close>; reading behind the table is undefined behaviour.\<close>

definition chip_cfg :: "u8 \<Rightarrow> ('a spimaster_scheme, device_spi_cfg) prog" where
  "chip_cfg cs =
     bind (gets dev_cfg) (\<lambda>tab.
     bind (assert_or_fault (unat cs < length tab)) (\<lambda>_.
     return (tab ! unat cs)))"

definition es3_spi_setfrequency :: "env \<Rightarrow> u8 \<Rightarrow> u32 \<Rightarrow> ('a spimaster_scheme, int) prog" where
  "es3_spi_setfrequency E cs freq =
     bind (gets caps) (\<lambda>c.
     if caps_csnum c \<le> ucast cs then return (- EINVAL)
     else
       bind (chip_cfg cs) (\<lambda>d.
       if freq < CONFIG_SPI_MIN_FREQ \<or> freq > cfg_max_speed_hz d \<or> freq = 0 then return (- EINVAL)
       else
         (let divisor = FSSI_CLK div freq
          in if divisor > CONFIG_SPI_MAX_DIV then return (- EINVAL)
             else
               bind (gets reg_base) (\<lambda>base.
               bind (tsb_spi_write base DW_SPI_BAUDR divisor) (\<lambda>_.
               return 0)))))"

definition es3_spi_setmode :: "env \<Rightarrow> u8 \<Rightarrow> u8 \<Rightarrow> ('a spimaster_scheme, int) prog" where
  "es3_spi_setmode E cs mode =
     bind (gets caps) (\<lambda>c.
     if caps_csnum c \<le> ucast cs then return (- EINVAL)
     else
       bind (chip_cfg cs) (\<lambda>d.
       if cfg_mode d AND NOT (ucast mode) \<noteq> 0 then return (- EINVAL)
       else
         bind (gets reg_base) (\<lambda>base.
         bind (tsb_spi_read E base DW_SPI_CTRLR0) (\<lambda>ctrl0.
         let ctrl0 = ctrl0 AND NOT SPI_CTRL0_TMOD_MASK;
             ctrl0 = (if mode AND SPI_MODE_CPHA \<noteq> 0 then ctrl0 OR SPI_CTRLR0_SCPH else ctrl0 AND NOT SPI_CTRLR0_SCPH);
             ctrl0 = (if mode AND SPI_MODE_CPOL \<noteq> 0 then ctrl0 OR SPI_CTRLR0_SCPOL else ctrl0 AND NOT SPI_CTRLR0_SCPOL)
         in bind (tsb_spi_write base DW_SPI_CTRLR0 ctrl0) (\<lambda>_.
            return 0)))))"

definition es3_spi_setbits :: "env \<Rightarrow> u8 \<Rightarrow> u8 \<Rightarrow> ('a spimaster_scheme, int) prog" where
  "es3_spi_setbits E cs nbits =
     bind (gets caps) (\<lambda>c.
     if caps_csnum c \<le> ucast cs then return (- EINVAL)
     else
       bind (chip_cfg cs) (\<lambda>d.
       if cfg_bpw d \<noteq> nbits then return (- EINVAL)
       else
         bind (gets reg_base) (\<lambda>base.
         bind (tsb_spi_read E base DW_SPI_CTRLR0) (\<lambda>ctrl0.
         bind (tsb_spi_write base DW_SPI_CTRLR0
                 (ctrl0 AND NOT SPI_CTRLR0_DFS32_MASK OR push_bit 16 (ucast nbits - 1))) (\<lambda>_.
         return 0)))))"

text \<open>
  The byte to send: from the source buffer, or zero without one. The source is the message \<open>buf\<close> from
  an offset on, the destination the array \<open>payload\<close> from an offset on; access outside either is
  undefined behaviour.
\<close>

definition tx_byte :: "bytes \<Rightarrow> nat option \<Rightarrow> nat \<Rightarrow> ('a machine_scheme, u8) prog" where
  "tx_byte buf txbuf i =
     (case txbuf of
        None \<Rightarrow> return 0
      | Some off \<Rightarrow> bind (assert_or_fault (off + i < length buf)) (\<lambda>_. return (buf ! (off + i))))"

definition rx_byte :: "nat option \<Rightarrow> nat \<Rightarrow> u32 \<Rightarrow> bytes \<Rightarrow> ('a machine_scheme, bytes) prog" where
  "rx_byte rxbuf i v payload =
     (case rxbuf of
        None \<Rightarrow> return payload
      | Some off \<Rightarrow> bind (assert_or_fault (off + i < length payload)) (\<lambda>_. return (payload[off + i := ucast v])))"

text \<open>One turn of the loop of \<^verbatim>\<open>es3_spi_exchange\<close> over the two counters and the destination.\<close>

definition exchange_step ::
    "env \<Rightarrow> u32 \<Rightarrow> bytes \<Rightarrow> nat option \<Rightarrow> nat option \<Rightarrow> nat \<Rightarrow> nat \<times> nat \<times> bytes \<Rightarrow>
     ('a machine_scheme, nat \<times> nat \<times> bytes + bytes) prog" where
  "exchange_step E base buf txbuf rxbuf nwords = (\<lambda>(txcnt, rxcnt, payload).
     if txcnt < nwords \<or> rxcnt < nwords then
       bind (tsb_spi_read E base DW_SPI_SR) (\<lambda>sr_reg.
       bind (if txcnt < nwords \<and> sr_reg AND SPI_SR_TFNF_MASK \<noteq> 0 \<and> sr_reg AND SPI_SR_RFF_MASK = 0 then
               bind (tx_byte buf txbuf txcnt) (\<lambda>u8_dr.
               bind (tsb_spi_write base DW_SPI_DR (ucast u8_dr)) (\<lambda>_.
               return (txcnt + 1)))
             else return txcnt) (\<lambda>txcnt.
       if rxcnt < nwords \<and> sr_reg AND SPI_SR_RFNE_MASK \<noteq> 0 then
         bind (tsb_spi_read E base DW_SPI_DR) (\<lambda>u32_dr.
         bind (rx_byte rxbuf rxcnt u32_dr payload) (\<lambda>payload.
         return (Inl (txcnt, rxcnt + 1, payload))))
       else return (Inl (txcnt, rxcnt, payload))))
     else return (Inr payload))"

definition es3_spi_exchange ::
    "env \<Rightarrow> bytes \<Rightarrow> nat option \<Rightarrow> nat option \<Rightarrow> u32 \<Rightarrow> bytes \<Rightarrow> ('a spimaster_scheme, int \<times> bytes) prog" where
  "es3_spi_exchange E buf txbuf rxbuf nwords payload =
     (if txbuf = None \<and> rxbuf = None then return (- EINVAL, payload)
      else
        bind (gets reg_base) (\<lambda>base.
        bind (tsb_spi_write base DW_SPI_SSIENR 1) (\<lambda>_.
        bind (loopM (exchange_step E base buf txbuf rxbuf (unat nwords)) (0, 0, payload)) (\<lambda>payload.
        bind (tsb_spi_write base DW_SPI_SSIENR 0) (\<lambda>_.
        return (0, payload))))))"

definition es3_get_master_caps :: "('a spimaster_scheme, int \<times> master_spi_caps) prog" where
  "es3_get_master_caps = bind (gets caps) (\<lambda>c. return (0, c))"

definition es3_get_device_cfg :: "u8 \<Rightarrow> ('a spimaster_scheme, int \<times> device_spi_cfg) prog" where
  "es3_get_device_cfg cs = bind (chip_cfg cs) (\<lambda>d. return (0, d))"

definition retister_spi_device :: "('a spimaster_scheme, unit) prog" where
  "retister_spi_device = modify (\<lambda>s. s\<lparr>spi_dev_ops := True\<rparr>)"

definition chip_spi_master_init :: "('a spimaster_scheme, unit) prog" where
  "chip_spi_master_init =
     bind (modify (\<lambda>s. s\<lparr>reg_base := SPI_BASE\<rparr>)) (\<lambda>_.
     bind (modify (\<lambda>s. s\<lparr>caps := (caps s)\<lparr>caps_csnum := CONFIG_SPI_MAX_CHIPS,
       caps_modes := ucast (SPI_MODE_CPHA OR SPI_MODE_CPOL), caps_bpw := CONFIG_SPI_BPW_MASK,
       caps_min_speed_hz := CONFIG_SPI_MIN_FREQ, caps_max_speed_hz := CONFIG_SPI_MAX_FREQ\<rparr>\<rparr>)) (\<lambda>_.
     bind (modify (\<lambda>s. s\<lparr>dev_cfg := chips_info\<rparr>)) (\<lambda>_.
     bind (tsb_clk_enable TSB_CLK_SPIP) (\<lambda>_.
     bind (tsb_clk_enable TSB_CLK_SPIS) (\<lambda>_.
     bind (modify (\<lambda>s. s\<lparr>spi_clk_usage_count := spi_clk_usage_count s + 1\<rparr>)) (\<lambda>_.
     retister_spi_device))))))"

text \<open>
  The wrappers \<^verbatim>\<open>device_spi_select\<close> to \<^verbatim>\<open>device_spi_get_device_cfg\<close>: all operations of the driver are
  present, so the only check left is for a registered driver; \<open>none\<close> is the value beside the error.
\<close>

definition device_spi :: "'b \<Rightarrow> ('a spimaster_scheme, int \<times> 'b) prog \<Rightarrow> ('a spimaster_scheme, int \<times> 'b) prog" where
  "device_spi none m = bind (gets spi_dev_ops) (\<lambda>present. if present then m else return (- ENODEV, none))"

definition device_spi_int :: "('a spimaster_scheme, int) prog \<Rightarrow> ('a spimaster_scheme, int) prog" where
  "device_spi_int m = bind (gets spi_dev_ops) (\<lambda>present. if present then m else return (- ENODEV))"
section \<open>What an exchange does\<close>

text \<open>The words written to and read from a register during a history, oldest first.\<close>

fun words_out :: "u32 \<Rightarrow> io_event list \<Rightarrow> u32 list" where
  "words_out a [] = []"
| "words_out a (WrReg b v # ev) = words_out a ev @ (if b = a then [v] else [])"
| "words_out a (_ # ev) = words_out a ev"

fun words_in :: "u32 \<Rightarrow> io_event list \<Rightarrow> u32 list" where
  "words_in a [] = []"
| "words_in a (RdReg b v # ev) = words_in a ev @ (if b = a then [v] else [])"
| "words_in a (_ # ev) = words_in a ev"

text \<open>The first \<open>k\<close> bytes to send, the destination with the bytes received, and that \<open>k\<close> bytes fit in a buffer.\<close>

definition bytes_to_send :: "bytes \<Rightarrow> nat option \<Rightarrow> nat \<Rightarrow> bytes" where
  "bytes_to_send buf txbuf k = (case txbuf of None \<Rightarrow> replicate k 0 | Some off \<Rightarrow> slice off k buf)"

definition bytes_stored :: "nat option \<Rightarrow> bytes \<Rightarrow> u32 list \<Rightarrow> bytes" where
  "bytes_stored rxbuf payload vs = (case rxbuf of None \<Rightarrow> payload | Some off \<Rightarrow> put_bytes payload off (map ucast vs))"

definition in_buffer :: "nat option \<Rightarrow> nat \<Rightarrow> bytes \<Rightarrow> bool" where
  "in_buffer p k b \<longleftrightarrow> (case p of None \<Rightarrow> True | Some off \<Rightarrow> k = 0 \<or> off + k \<le> length b)"

lemma wp_spi_regs [wp_simps]:
  "wp (tsb_spi_read E base a) Q K s = Q (dev E (io s) (base + a)) (s\<lparr>io := RdReg (base + a) (dev E (io s) (base + a)) # io s\<rparr>)"
  "wp (tsb_spi_write base a v) Q' K s = Q' () (s\<lparr>io := WrReg (base + a) v # io s\<rparr>)"
  by (simp_all add: tsb_spi_read_def tsb_spi_write_def wp_simps)

lemma tx_byte_run:
  assumes "tx_byte buf txbuf k s = Ret b t"
  shows "t = s \<and> in_buffer txbuf (Suc k) buf \<and> bytes_to_send buf txbuf (Suc k) = bytes_to_send buf txbuf k @ [b]"
  using assms
  by (auto simp: tx_byte_def in_buffer_def bytes_to_send_def slice_def return_def assert_or_fault_def skip_def stop_with_def
      take_Suc_conv_app_nth replicate_append_same [symmetric] elim!: bind_eq_RetE split: option.splits if_splits)

lemma rx_byte_run:
  assumes "rx_byte rxbuf (length vs) v (bytes_stored rxbuf payload vs) s = Ret p t" "in_buffer rxbuf (length vs) payload"
  shows "t = s \<and> in_buffer rxbuf (Suc (length vs)) payload \<and> p = bytes_stored rxbuf payload (vs @ [v])"
proof (cases rxbuf)
  case (Some off)
  have l: "length (put_bytes payload off (map ucast vs :: bytes)) = length payload"
    using assms(2) Some by (cases vs) (auto simp: in_buffer_def put_bytes_def)
  have "(put_bytes payload off (map ucast vs))[off + length vs := ucast v] = put_bytes payload off (map ucast (vs @ [v]))"
    if "off + length vs < length payload"
    using that by (simp add: put_bytes_def list_update_append min_absorb1 Cons_nth_drop_Suc [symmetric])
  then show ?thesis
    using assms(1) Some l
    by (auto simp: rx_byte_def bytes_stored_def in_buffer_def return_def assert_or_fault_def skip_def stop_with_def
        elim!: bind_eq_RetE split: if_splits)
qed (use assms in \<open>auto simp: rx_byte_def bytes_stored_def in_buffer_def return_def\<close>)

text \<open>The state of the loop: what has gone over the data register so far.\<close>

definition exchanged ::
    "u32 \<Rightarrow> bytes \<Rightarrow> nat option \<Rightarrow> nat option \<Rightarrow> bytes \<Rightarrow> 'a machine_scheme \<Rightarrow> nat \<Rightarrow> nat \<Rightarrow> bytes \<Rightarrow> 'a machine_scheme \<Rightarrow> bool" where
  "exchanged base buf txbuf rxbuf payload s txcnt rxcnt p t \<longleftrightarrow>
     in_buffer txbuf txcnt buf \<and> in_buffer rxbuf rxcnt payload \<and>
     (\<exists>ev. t = s\<lparr>io := ev @ io s\<rparr> \<and>
        words_out (base + DW_SPI_DR) ev = map ucast (bytes_to_send buf txbuf txcnt) \<and>
        length (words_in (base + DW_SPI_DR) ev) = rxcnt \<and>
        p = bytes_stored rxbuf payload (words_in (base + DW_SPI_DR) ev))"

lemma exchanged_other:
  assumes "exchanged base buf txbuf rxbuf payload s txcnt rxcnt p t" "e = RdReg (base + DW_SPI_SR) v \<or> e = WrReg (base + DW_SPI_SSIENR) w"
  shows "exchanged base buf txbuf rxbuf payload s txcnt rxcnt p (t\<lparr>io := e # io t\<rparr>)"
proof -
  from assms(1) obtain ev where ev: "t = s\<lparr>io := ev @ io s\<rparr>"
    "words_out (base + DW_SPI_DR) ev = map ucast (bytes_to_send buf txbuf txcnt)"
    "length (words_in (base + DW_SPI_DR) ev) = rxcnt" "p = bytes_stored rxbuf payload (words_in (base + DW_SPI_DR) ev)"
    by (auto simp: exchanged_def)
  then show ?thesis using assms unfolding exchanged_def by (intro conjI exI [of _ "e # ev"]) auto
qed

lemma exchanged_tx:
  assumes "exchanged base buf txbuf rxbuf payload s txcnt rxcnt p t" "tx_byte buf txbuf txcnt t = Ret b t'"
  shows "exchanged base buf txbuf rxbuf payload s (Suc txcnt) rxcnt p (t'\<lparr>io := WrReg (base + DW_SPI_DR) (ucast b) # io t'\<rparr>)"
proof -
  from assms(1) obtain ev where ev: "t = s\<lparr>io := ev @ io s\<rparr>"
    "words_out (base + DW_SPI_DR) ev = map ucast (bytes_to_send buf txbuf txcnt)"
    "length (words_in (base + DW_SPI_DR) ev) = rxcnt" "p = bytes_stored rxbuf payload (words_in (base + DW_SPI_DR) ev)"
    by (auto simp: exchanged_def)
  with tx_byte_run [OF assms(2)] assms(1) show ?thesis
    unfolding exchanged_def by (intro conjI exI [of _ "WrReg (base + DW_SPI_DR) (ucast b) # ev"]) auto
qed

lemma exchanged_rx:
  assumes "exchanged base buf txbuf rxbuf payload s txcnt rxcnt p t"
    and "rx_byte rxbuf rxcnt w p (t\<lparr>io := RdReg (base + DW_SPI_DR) w # io t\<rparr>) = Ret q t'"
  shows "exchanged base buf txbuf rxbuf payload s txcnt (Suc rxcnt) q t'"
proof -
  from assms(1) obtain ev where ev: "t = s\<lparr>io := ev @ io s\<rparr>"
    "words_out (base + DW_SPI_DR) ev = map ucast (bytes_to_send buf txbuf txcnt)"
    "length (words_in (base + DW_SPI_DR) ev) = rxcnt" "p = bytes_stored rxbuf payload (words_in (base + DW_SPI_DR) ev)"
    and i: "in_buffer txbuf txcnt buf" "in_buffer rxbuf rxcnt payload"
    by (auto simp: exchanged_def)
  have "t' = t\<lparr>io := RdReg (base + DW_SPI_DR) w # io t\<rparr> \<and> in_buffer rxbuf (Suc rxcnt) payload \<and>
      q = bytes_stored rxbuf payload (words_in (base + DW_SPI_DR) ev @ [w])"
    using rx_byte_run [of rxbuf "words_in (base + DW_SPI_DR) ev" w payload] assms(2) i ev(3,4) by auto
  with ev i show ?thesis
    unfolding exchanged_def by (intro conjI exI [of _ "RdReg (base + DW_SPI_DR) w # ev"]) auto
qed
lemma wp_of_run: "(\<And>b t. m s = Ret b t \<Longrightarrow> Q b t) \<Longrightarrow> wp m Q (\<lambda>_ _. True) s"
  by (simp add: wp_def split: outcome.splits)

definition exchange_inv ::
    "u32 \<Rightarrow> bytes \<Rightarrow> nat option \<Rightarrow> nat option \<Rightarrow> bytes \<Rightarrow> nat \<Rightarrow> 'a machine_scheme \<Rightarrow> nat \<times> nat \<times> bytes \<Rightarrow> 'a machine_scheme \<Rightarrow> bool" where
  "exchange_inv base buf txbuf rxbuf payload n s = (\<lambda>(txcnt, rxcnt, p) t.
     exchanged base buf txbuf rxbuf payload s txcnt rxcnt p t \<and> txcnt \<le> n \<and> rxcnt \<le> n)"

lemma exchange_step_keeps:
  assumes "exchange_inv base buf txbuf rxbuf payload n s a t"
  shows "wp (exchange_step E base buf txbuf rxbuf n a)
    (\<lambda>r t. case r of Inl a \<Rightarrow> exchange_inv base buf txbuf rxbuf payload n s a t
       | Inr p \<Rightarrow> exchanged base buf txbuf rxbuf payload s n n p t) (\<lambda>_ _. True) t"
proof -
  obtain txcnt rxcnt p where a: "a = (txcnt, rxcnt, p)" by (rule prod_cases3)
  let ?x = "exchanged base buf txbuf rxbuf payload s"
  have x: "?x txcnt rxcnt p t" "txcnt \<le> n" "rxcnt \<le> n" using assms by (simp_all add: exchange_inv_def a)
  let ?sr = "dev E (io t) (base + DW_SPI_SR)"
  let ?t = "t\<lparr>io := RdReg (base + DW_SPI_SR) ?sr # io t\<rparr>"
  have t: "?x txcnt rxcnt p ?t" by (rule exchanged_other [OF x(1)]) blast
  let ?Q = "\<lambda>r t. case r of Inl a \<Rightarrow> exchange_inv base buf txbuf rxbuf payload n s a t | Inr p \<Rightarrow> ?x n n p t"
  have "wp (tx_byte buf txbuf txcnt) (\<lambda>b t. ?x (Suc txcnt) rxcnt p (t\<lparr>io := WrReg (base + DW_SPI_DR) (ucast b) # io t\<rparr>))
      (\<lambda>_ _. True) ?t" by (rule wp_of_run) (rule exchanged_tx [OF t])
  then have send: "wp (if txcnt < n \<and> ?sr AND SPI_SR_TFNF_MASK \<noteq> 0 \<and> ?sr AND SPI_SR_RFF_MASK = 0 then
      bind (tx_byte buf txbuf txcnt) (\<lambda>u8_dr. bind (tsb_spi_write base DW_SPI_DR (ucast u8_dr)) (\<lambda>_. return (txcnt + 1)))
      else return txcnt) (\<lambda>k u. ?x k rxcnt p u \<and> k \<le> n) (\<lambda>_ _. True) ?t"
    using t x by (auto simp: wp_simps elim: wp_mono)
  have recv: "wp (if rxcnt < n \<and> ?sr AND SPI_SR_RFNE_MASK \<noteq> 0 then
      bind (tsb_spi_read E base DW_SPI_DR) (\<lambda>v. bind (rx_byte rxbuf rxcnt v p) (\<lambda>p. return (Inl (k, rxcnt + 1, p))))
      else return (Inl (k, rxcnt, p))) ?Q (\<lambda>_ _. True) u" if u: "?x k rxcnt p u" "k \<le> n" for k u
  proof -
    have rx: "wp (rx_byte rxbuf rxcnt v p) (?x k (Suc rxcnt)) (\<lambda>_ _. True) (u\<lparr>io := RdReg (base + DW_SPI_DR) v # io u\<rparr>)" for v
      by (rule wp_of_run) (rule exchanged_rx [OF u(1)])
    show ?thesis using u x by (auto simp: wp_simps exchange_inv_def intro!: wp_mono [OF rx])
  qed
  show ?thesis
  proof (cases "txcnt < n \<or> rxcnt < n")
    case True
    show ?thesis unfolding exchange_step_def a prod.case if_P [OF True]
      by (subst wp_bind, subst wp_spi_regs, subst wp_bind, rule wp_mono [OF send]) (erule conjE, erule (1) recv, rule TrueI)
  next
    case False
    with x show ?thesis by (simp add: exchange_step_def a wp_simps)
  qed
qed

lemma exchange_run:
  assumes "es3_spi_exchange E buf txbuf rxbuf nwords payload s = Ret (rc, p) t" "txbuf \<noteq> None \<or> rxbuf \<noteq> None"
  shows "rc = 0 \<and> exchanged (reg_base s) buf txbuf rxbuf payload s (unat nwords) (unat nwords) p t"
proof -
  let ?x = "exchanged (reg_base s) buf txbuf rxbuf payload s" and ?n = "unat nwords"
  let ?s = "s\<lparr>io := WrReg (reg_base s + DW_SPI_SSIENR) 1 # io s\<rparr>"
  have "?x 0 0 payload s"
    by (auto simp: exchanged_def in_buffer_def bytes_to_send_def bytes_stored_def put_bytes_def slice_def
        intro: exI [of _ "[]"] split: option.splits)
  then have "?x 0 0 payload ?s" by (rule exchanged_other) blast
  then have "exchange_inv (reg_base s) buf txbuf rxbuf payload ?n s (0, 0, payload) ?s" by (simp add: exchange_inv_def)
  then have "wp (loopM (exchange_step E (reg_base s) buf txbuf rxbuf ?n) (0, 0, payload)) (?x ?n ?n) (\<lambda>_ _. True) ?s"
    by (rule wp_loopM) (rule exchange_step_keeps, assumption, simp)
  then have "wp (es3_spi_exchange E buf txbuf rxbuf nwords payload) (\<lambda>(rc, p) t. rc = 0 \<and> ?x ?n ?n p t) (\<lambda>_ _. True) s"
    using assms(2) by (auto simp: es3_spi_exchange_def wp_simps elim!: wp_mono intro: exchanged_other)
  from wp_RetD [OF this assms(1)] show ?thesis by simp
qed
section \<open>Properties\<close>

text \<open>
  C35: An exchange over SPI that returns has succeeded: exactly \<^verbatim>\<open>nwords\<close> bytes were written to the data
  register, those of the source in order (zeros without a source), exactly as many words were read from it, and
  their low bytes, in order, are now in the destination (or dropped without one); both buffers were large enough,
  nothing else changed, and this whatever the controller reported about its FIFOs.
\<close>

theorem es3_spi_exchange_exact:
  fixes s :: "'a spimaster_scheme"
  assumes "es3_spi_exchange E buf txbuf rxbuf nwords payload s = Ret (rc, p) t" "txbuf \<noteq> None \<or> rxbuf \<noteq> None"
  shows "rc = 0 \<and> in_buffer txbuf (unat nwords) buf \<and> in_buffer rxbuf (unat nwords) payload \<and>
    (\<exists>ev. t = s\<lparr>io := ev @ io s\<rparr> \<and>
       words_out (reg_base s + DW_SPI_DR) ev = map ucast (bytes_to_send buf txbuf (unat nwords)) \<and>
       length (words_in (reg_base s + DW_SPI_DR) ev) = unat nwords \<and>
       p = bytes_stored rxbuf payload (words_in (reg_base s + DW_SPI_DR) ev))"
  using exchange_run [OF assms] by (simp add: exchanged_def)

text \<open>The driver after its initialisation, on a controller that always has room and data.\<close>

definition spimaster_ready :: spimaster where
  "spimaster_ready = gbcore.extend reset_gbcore
     \<lparr>reg_base = SPI_BASE, caps = \<lparr>caps_bpw = CONFIG_SPI_BPW_MASK, caps_min_speed_hz = CONFIG_SPI_MIN_FREQ,
        caps_max_speed_hz = CONFIG_SPI_MAX_FREQ, caps_modes = 3, caps_flags = 0, caps_csnum = 1\<rparr>,
      dev_cfg = chips_info, spi_dev_ops = True\<rparr>"

lemma exchange_two_run:
  "\<exists>t. es3_spi_exchange (es3_env (\<lambda>_ _. 0x0A)) [1, 2] (Some 0) (Some 1) 2 [0, 0, 0] spimaster_ready = Ret (0, [0, 0x0A, 0x0A]) t"
proof -
  let ?E = "es3_env (\<lambda>_ _. 0x0A)"
  let ?body = "exchange_step ?E SPI_BASE [1, 2] (Some 0) (Some 1) 2"
  have 1: "\<exists>u. ?body (0, 0, [0, 0, 0]) s = Ret (Inl (1, 1, [0, 0x0A, 0])) u" for s :: spimaster
    by (simp add: exchange_step_def tsb_spi_read_def tsb_spi_write_def getreg32_def putreg32_def es3_env_def tx_byte_def
        rx_byte_def prog_defs)
  have 2: "\<exists>u. ?body (1, 1, [0, 0x0A, 0]) s = Ret (Inl (2, 2, [0, 0x0A, 0x0A])) u" for s :: spimaster
    by (simp add: exchange_step_def tsb_spi_read_def tsb_spi_write_def getreg32_def putreg32_def es3_env_def tx_byte_def
        rx_byte_def prog_defs)
  have 3: "?body (2, 2, p) s = Ret (Inr p) s" for p and s :: spimaster by (simp add: exchange_step_def return_def)
  have l: "\<exists>t. loopM ?body (0, 0, [0, 0, 0]) s = Ret [0, 0x0A, 0x0A] t" for s :: spimaster
    using 1 [of s] 2 loopM_Inr [of ?body, OF 3] by (meson loopM_Inl_Ret)
  have b: "reg_base spimaster_ready = SPI_BASE" by (simp add: spimaster_ready_def gbcore.defs)
  show ?thesis
    using l [of "spimaster_ready\<lparr>io := WrReg (SPI_BASE + DW_SPI_SSIENR) 1 # io spimaster_ready\<rparr>"]
    by (auto simp: es3_spi_exchange_def gets_def b tsb_spi_write_def putreg32_def return_def)
qed

theorem es3_spi_exchange_exact_witness:
  "\<exists>t ev. t = spimaster_ready\<lparr>io := ev @ io spimaster_ready\<rparr> \<and>
     es3_spi_exchange (es3_env (\<lambda>_ _. 0x0A)) [1, 2] (Some 0) (Some 1) 2 [0, 0, 0] spimaster_ready = Ret (0, [0, 0x0A, 0x0A]) t \<and>
     words_out (reg_base spimaster_ready + DW_SPI_DR) ev = [1, 2]"
proof -
  obtain t where t: "es3_spi_exchange (es3_env (\<lambda>_ _. 0x0A)) [1, 2] (Some 0) (Some 1) 2 [0, 0, 0] spimaster_ready =
      Ret (0, [0, 0x0A, 0x0A]) t" using exchange_two_run by blast
  from es3_spi_exchange_exact [OF this] t show ?thesis by (auto simp: bytes_to_send_def slice_def)
qed

end
