(* ===== verification/Spigb.thy ===== *)
theory Spigb
  imports Spimaster
begin

text \<open>
  The bridged SPI over Greybus of the second stage (\<^verbatim>\<open>common/src/spi-gb.c\<close>): the application processor
  asks for the capabilities of the SPI master and the device on it, and sends sequences of transfers that
  are carried out by the driver of \<open>Spimaster\<close>. The bytes of the answer that no transfer has written come
  from the stack; what it held is the parameter \<open>stack\<close>. The delays between transfers have no effect that
  the model could see.
\<close>

unbundle bit_operations_syntax

section \<open>Messages\<close>

abbreviation (input) "GB_SPI_VERSION_MAJOR \<equiv> 0 :: u8"
abbreviation (input) "GB_SPI_VERSION_MINOR \<equiv> 1 :: u8"
abbreviation (input) "GB_OP_UNKNOWN_ERROR \<equiv> 0xFE :: u8"
abbreviation (input) "SPI_XFER_READ \<equiv> 1 :: u8"
abbreviation (input) "SPI_XFER_WRITE \<equiv> 2 :: u8"
abbreviation (input) "GB_SPI_CPORT \<equiv> 2 :: u32"

text \<open>
  \<^verbatim>\<open>gb_operation_request_size\<close>, in the unsigned type its result is compared in: a header that claims less than
  its own size wraps around.
\<close>

definition gb_operation_request_size :: "gb_operation_header \<Rightarrow> u32" where
  "gb_operation_request_size h = ucast (op_size h) - 8"

record gb_spi_transfer_desc =
  xfer_speed_hz :: u32
  xfer_len :: u32
  xfer_delay_usecs :: u16
  xfer_cs_change :: u8
  xfer_bits_per_word :: u8
  xfer_rdwr :: u8

text \<open>The packed descriptors behind the request \<^verbatim>\<open>chip_select\<close>, \<^verbatim>\<open>mode\<close>, \<^verbatim>\<open>count\<close> at offset 8 of the message.\<close>

definition desc_at :: "bytes \<Rightarrow> nat \<Rightarrow> gb_spi_transfer_desc" where
  "desc_at buf i =
     (let o1 = 12 + 13 * i
      in \<lparr>xfer_speed_hz = get_u32 buf o1, xfer_len = get_u32 buf (o1 + 4), xfer_delay_usecs = get_u16 buf (o1 + 8),
          xfer_cs_change = buf ! (o1 + 10), xfer_bits_per_word = buf ! (o1 + 11), xfer_rdwr = buf ! (o1 + 12)\<rparr>)"

section \<open>Handlers\<close>

definition gb_spi_get_version :: "env \<Rightarrow> u32 \<Rightarrow> bytes \<Rightarrow> ('a spimaster_scheme, int) prog" where
  "gb_spi_get_version E cportid buf =
     greybus_op_response E cportid (op_header_of buf) GB_OP_SUCCESS [GB_SPI_VERSION_MAJOR, GB_SPI_VERSION_MINOR]"

text \<open>An answer with an error status, and the handler's return value for it.\<close>

definition gb_spi_refuse :: "env \<Rightarrow> u32 \<Rightarrow> bytes \<Rightarrow> u8 \<Rightarrow> ('a spimaster_scheme, int) prog" where
  "gb_spi_refuse E cportid buf status =
     bind (greybus_op_response E cportid (op_header_of buf) status []) (\<lambda>_. return (-1))"

definition gb_spi_type_master_config :: "env \<Rightarrow> u32 \<Rightarrow> bytes \<Rightarrow> ('a spimaster_scheme, int) prog" where
  "gb_spi_type_master_config E cportid buf =
     bind (gets caps) (\<lambda>none.
     bind (device_spi none es3_get_master_caps) (\<lambda>(rc, c).
     if rc \<noteq> 0 then gb_spi_refuse E cportid buf GB_OP_UNKNOWN_ERROR
     else
       greybus_op_response E cportid (op_header_of buf) GB_OP_SUCCESS
         (u32_bytes (caps_bpw c) @ u32_bytes (caps_min_speed_hz c) @ u32_bytes (caps_max_speed_hz c) @
          u16_bytes (caps_modes c) @ u16_bytes (caps_flags c) @ [ucast (caps_csnum c)])))"

definition gb_spi_type_device_config :: "env \<Rightarrow> u32 \<Rightarrow> bytes \<Rightarrow> ('a spimaster_scheme, int) prog" where
  "gb_spi_type_device_config E cportid buf =
     (if gb_operation_request_size (op_header_of buf) < 1 then gb_spi_refuse E cportid buf GB_OP_INVALID
      else
        bind (assert_or_fault (9 \<le> length buf)) (\<lambda>_.
        bind (gets spi_dev_ops) (\<lambda>present.
        if \<not> present then gb_spi_refuse E cportid buf GB_OP_UNKNOWN_ERROR
        else
          bind (es3_get_device_cfg (buf ! 8)) (\<lambda>(rc, d).
          if rc \<noteq> 0 then gb_spi_refuse E cportid buf GB_OP_UNKNOWN_ERROR
          else
            greybus_op_response E cportid (op_header_of buf) GB_OP_SUCCESS
              (u16_bytes (cfg_mode d) @ [cfg_bpw d] @ u32_bytes (cfg_max_speed_hz d) @ [cfg_device_type d] @
               cfg_name d)))))"

text \<open>The settings of a transfer and the chip-select pin; the first error stops it.\<close>

definition spi_setup :: "env \<Rightarrow> u8 \<Rightarrow> gb_spi_transfer_desc \<Rightarrow> bool \<Rightarrow> ('a spimaster_scheme, int) prog" where
  "spi_setup E cs d selected =
     bind (device_spi_int (es3_spi_setbits E cs (xfer_bits_per_word d))) (\<lambda>ret.
     if ret \<noteq> 0 then return ret
     else
       bind (device_spi_int (es3_spi_setfrequency E cs (xfer_speed_hz d))) (\<lambda>ret.
       if ret \<noteq> 0 then return ret
       else if selected then return 0 else device_spi_int (es3_spi_select E cs)))"

abbreviation (input) "xfer_writes d \<equiv> xfer_rdwr d AND SPI_XFER_WRITE \<noteq> 0"
abbreviation (input) "xfer_reads d \<equiv> xfer_rdwr d AND SPI_XFER_READ \<noteq> 0"

text \<open>
  One turn of the loop, with \<^verbatim>\<open>write_data\<close> at \<open>wr\<close> in the message and \<^verbatim>\<open>read_buf\<close> at \<open>rd\<close> in the
  answer: whether it ends in \<^verbatim>\<open>goto spi_err\<close>, where the error code is no longer looked at, the flag
  \<^verbatim>\<open>selected\<close> and the answer.
\<close>

definition spi_transfer_one ::
    "env \<Rightarrow> u8 \<Rightarrow> bytes \<Rightarrow> gb_spi_transfer_desc \<Rightarrow> bool \<Rightarrow> nat \<Rightarrow> nat \<Rightarrow> bytes \<Rightarrow>
     ('a spimaster_scheme, bool \<times> bool \<times> bytes) prog" where
  "spi_transfer_one E cs buf d selected wr rd payload =
     bind (spi_setup E cs d selected) (\<lambda>ret.
     if ret \<noteq> 0 then return (True, selected, payload)
     else
       bind (device_spi payload (es3_spi_exchange E buf (if xfer_writes d then Some wr else None)
               (if xfer_reads d then Some rd else None) (xfer_len d) payload)) (\<lambda>(ret, payload).
       if ret \<noteq> 0 then return (True, True, payload)
       else
         bind (if xfer_cs_change d \<noteq> 0 then device_spi_int (es3_spi_deselect E cs) else return 0) (\<lambda>ret.
         return (ret \<noteq> 0, ret \<noteq> 0 \<or> xfer_cs_change d = 0, payload))))"

primrec spi_transfers ::
    "env \<Rightarrow> u8 \<Rightarrow> bytes \<Rightarrow> gb_spi_transfer_desc list \<Rightarrow> bool \<Rightarrow> nat \<Rightarrow> nat \<Rightarrow> bytes \<Rightarrow>
     ('a spimaster_scheme, bool \<times> bytes) prog" where
  "spi_transfers E cs buf [] selected wr rd payload = return (selected, payload)"
| "spi_transfers E cs buf (d # ds) selected wr rd payload =
     bind (spi_transfer_one E cs buf d selected wr rd payload) (\<lambda>(failed, selected, payload).
     if failed then return (selected, payload)
     else
       spi_transfers E cs buf ds selected (if xfer_writes d then wr + unat (xfer_len d) else wr)
         (if xfer_reads d then rd + unat (xfer_len d) else rd) payload)"

text \<open>The size of the answer, a sum in 32 bits.\<close>

definition read_size :: "gb_spi_transfer_desc list \<Rightarrow> u32" where
  "read_size ds = foldl (\<lambda>sz d. if xfer_reads d then sz + xfer_len d else sz) 0 ds"

text \<open>From the label \<^verbatim>\<open>spi_err\<close> on: release the chip and answer.\<close>

definition spi_err :: "env \<Rightarrow> u32 \<Rightarrow> bytes \<Rightarrow> bool \<Rightarrow> bytes \<Rightarrow> ('a spimaster_scheme, int) prog" where
  "spi_err E cportid buf selected payload =
     bind (if selected then device_spi_int (es3_spi_deselect E (buf ! 8)) else return 0) (\<lambda>ret.
     if ret \<noteq> 0 then gb_spi_refuse E cportid buf GB_OP_UNKNOWN_ERROR
     else greybus_op_response E cportid (op_header_of buf) GB_OP_SUCCESS payload)"

definition gb_spi_transfer :: "env \<Rightarrow> (nat \<Rightarrow> u8) \<Rightarrow> u32 \<Rightarrow> bytes \<Rightarrow> ('a spimaster_scheme, int) prog" where
  "gb_spi_transfer E stack cportid buf =
     (let op = op_header_of buf; request_size = gb_operation_request_size op
      in if request_size < 4 then gb_spi_refuse E cportid buf GB_OP_INVALID
         else
           bind (assert_or_fault (12 \<le> length buf)) (\<lambda>_.
           let cs = buf ! 8; mode = buf ! 9; op_count = unat (get_u16 buf 10)
           in if request_size < 4 + 13 * word_of_nat op_count then gb_spi_refuse E cportid buf GB_OP_INVALID
              else
                bind (assert_or_fault (12 + 13 * op_count \<le> length buf)) (\<lambda>_.
                let ds = map (desc_at buf) [0..<op_count];
                    payload = map stack [0..<unat (read_size ds)]
                in bind (device_spi_int (es3_spi_setmode E cs mode)) (\<lambda>ret.
                   bind (if ret \<noteq> 0 then return (False, payload)
                         else spi_transfers E cs buf ds False (12 + 13 * op_count) 0 payload) (\<lambda>(selected, payload).
                   spi_err E cportid buf selected payload)))))"

definition spi_gb_cport_handlers :: "greybus_op_handler list" where
  "spi_gb_cport_handlers =
     [(1, Some (Spi_gb Gb_spi_get_version)),
      (2, Some (Spi_gb Gb_spi_type_master_config)),
      (3, Some (Spi_gb Gb_spi_type_device_config)),
      (4, Some (Spi_gb Gb_spi_transfer)),
      (HANDLER_TABLE_END, None)]"

definition spi_gb_init :: "('a spimaster_scheme, unit) prog" where
  "spi_gb_init = greybus_register_handlers GB_SPI_CPORT spi_gb_cport_handlers"

text \<open>Calls through the handler pointers; the handlers of the firmware download are never in these tables.\<close>

primrec spi_call :: "env \<Rightarrow> (nat \<Rightarrow> u8) \<Rightarrow> gb_spi_handler \<Rightarrow> u32 \<Rightarrow> bytes \<Rightarrow> ('a spimaster_scheme, int) prog" where
  "spi_call E stack Gb_spi_get_version c buf = gb_spi_get_version E c buf"
| "spi_call E stack Gb_spi_type_master_config c buf = gb_spi_type_master_config E c buf"
| "spi_call E stack Gb_spi_type_device_config c buf = gb_spi_type_device_config E c buf"
| "spi_call E stack Gb_spi_transfer c buf = gb_spi_transfer E stack c buf"

definition spi_gb_call :: "env \<Rightarrow> (nat \<Rightarrow> u8) \<Rightarrow> 'a spimaster_scheme handler_call" where
  "spi_gb_call E stack h c buf = (case h of Spi_gb f \<Rightarrow> spi_call E stack f c buf | _ \<Rightarrow> stop_with Fault)"
section \<open>What a transfer reads\<close>

text \<open>From \<open>s\<close> to \<open>t\<close> only registers were accessed, and \<open>vs\<close> are the words read from the data register.\<close>

definition dr_reads :: "'a machine_scheme \<Rightarrow> 'a machine_scheme \<Rightarrow> u32 list \<Rightarrow> bool" where
  "dr_reads s t vs \<longleftrightarrow> (\<exists>ev. t = s\<lparr>io := ev @ io s\<rparr> \<and> words_in (SPI_BASE + DW_SPI_DR) ev = vs)"

lemma words_in_append: "words_in a (ev' @ ev) = words_in a ev @ words_in a ev'"
  by (induction a ev' rule: words_in.induct) simp_all

lemma dr_reads_refl: "dr_reads s s []"
  unfolding dr_reads_def by (intro exI [of _ "[]"]) simp

lemma dr_reads_trans:
  assumes "dr_reads s t vs" "dr_reads t u ws"
  shows "dr_reads s u (vs @ ws)"
proof -
  from assms obtain ev ev' where "t = s\<lparr>io := ev @ io s\<rparr>" "words_in (SPI_BASE + DW_SPI_DR) ev = vs"
    "u = t\<lparr>io := ev' @ io t\<rparr>" "words_in (SPI_BASE + DW_SPI_DR) ev' = ws" by (auto simp: dr_reads_def)
  then show ?thesis unfolding dr_reads_def by (intro exI [of _ "ev' @ ev"]) (simp add: words_in_append)
qed

text \<open>Operations that never read the data register.\<close>

definition no_dr :: "'a machine_scheme \<Rightarrow> 'a machine_scheme \<Rightarrow> bool" where
  "no_dr s t \<longleftrightarrow> dr_reads s t []"

interpretation no_dr: state_rel no_dr
  by unfold_locales (use dr_reads_refl dr_reads_trans in \<open>fastforce simp: no_dr_def\<close>)+

lemma no_dr_regs:
  "a \<noteq> SPI_BASE + DW_SPI_DR \<Longrightarrow> preserves no_dr (getreg32 E a)" "preserves no_dr (putreg32 v b)"
  by (auto simp: preserves_def getreg32_def putreg32_def Let_def no_dr_def dr_reads_def
      intro: exI [of _ "[RdReg a w]" for w] exI [of _ "[WrReg b v]"])

lemma no_dr_ops:
  "preserves no_dr (tsb_set_pinshare E bits)" "preserves no_dr (tsb_clr_pinshare E bits)"
  "preserves no_dr (chip_gpio_direction_out g v)"
  unfolding tsb_set_pinshare_def tsb_clr_pinshare_def chip_gpio_direction_out_def chip_gpio_set_value_def
    scm_read_def scm_write_def
  by (intro no_dr.pres_intros no_dr_regs; simp add: SYSCTL_BASE_def SPI_BASE_def)+
lemma dr_reads_events:
  "words_in (SPI_BASE + DW_SPI_DR) [e] = [] \<Longrightarrow> dr_reads s (s\<lparr>io := e # io s\<rparr>) []"
  "words_in (SPI_BASE + DW_SPI_DR) [e', e] = [] \<Longrightarrow> dr_reads s (s\<lparr>io := e' # e # io s\<rparr>) []"
  unfolding dr_reads_def by (intro exI [of _ "[e]"] exI [of _ "[e', e]"]; simp)+

lemma no_drD: "preserves no_dr m \<Longrightarrow> m s = Ret r t \<Longrightarrow> dr_reads s t []"
  using preserves_RetD [of no_dr m s r t] by (simp add: no_dr_def)

lemma select_reads:
  "es3_spi_select E cs s = Ret r t \<Longrightarrow> dr_reads s t []" "es3_spi_deselect E cs s = Ret r t \<Longrightarrow> dr_reads s t []"
proof -
  have p: "preserves no_dr (es3_spi_select E cs)" "preserves no_dr (es3_spi_deselect E cs)"
    unfolding es3_spi_select_def es3_spi_deselect_def by (intro no_dr.pres_intros no_dr_ops)+
  show "es3_spi_select E cs s = Ret r t \<Longrightarrow> dr_reads s t []" by (rule no_drD [OF p(1)])
  show "es3_spi_deselect E cs s = Ret r t \<Longrightarrow> dr_reads s t []" by (rule no_drD [OF p(2)])
qed

lemma setup_reads:
  assumes "reg_base s = SPI_BASE"
  shows "es3_spi_setbits E cs n s = Ret r t \<Longrightarrow> dr_reads s t []"
    and "es3_spi_setfrequency E cs f s = Ret r t \<Longrightarrow> dr_reads s t []"
    and "es3_spi_setmode E cs mode s = Ret r t \<Longrightarrow> dr_reads s t []"
  unfolding es3_spi_setbits_def es3_spi_setfrequency_def es3_spi_setmode_def chip_cfg_def tsb_spi_read_def tsb_spi_write_def
  using assms
  by (auto simp: prog_defs getreg32_def putreg32_def Let_def dr_reads_refl SPI_BASE_def split: if_splits
      intro!: dr_reads_events)

lemma device_reads:
  assumes "device_spi_int m s = Ret r t" "\<And>r. m s = Ret r t \<Longrightarrow> dr_reads s t []"
  shows "dr_reads s t []"
  using assms dr_reads_refl by (auto simp: device_spi_int_def gets_def return_def split: if_splits)

lemma dr_reads_base: "dr_reads s t vs \<Longrightarrow> reg_base t = reg_base (s :: 'a spimaster_scheme)"
  by (auto simp: dr_reads_def)

lemma exchange_reads:
  fixes s :: "'a spimaster_scheme"
  assumes "device_spi payload (es3_spi_exchange E buf txbuf (Some rd) n payload) s = Ret (ret, p) t"
    and "reg_base s = SPI_BASE" "rd \<le> length payload"
  shows "\<exists>vs. dr_reads s t vs \<and> rd + length vs \<le> length payload \<and> p = put_bytes payload rd (map ucast vs) \<and>
    (ret = 0 \<longrightarrow> length vs = unat n)"
proof (cases "spi_dev_ops s")
  case True
  with assms(1) have "es3_spi_exchange E buf txbuf (Some rd) n payload s = Ret (ret, p) t"
    by (simp add: device_spi_def gets_def)
  from exchange_run [OF this] show ?thesis
    using assms(2,3) by (fastforce simp: exchanged_def dr_reads_def in_buffer_def bytes_stored_def)
next
  case False
  with assms show ?thesis
    by (intro exI [of _ "[]"]) (auto simp: device_spi_def gets_def return_def dr_reads_refl put_bytes_def)
qed

lemma put_bytes_put_bytes:
  "off + length xs + length ys \<le> length b \<Longrightarrow> put_bytes (put_bytes b off xs) (off + length xs) ys = put_bytes b off (xs @ ys)"
  by (simp add: put_bytes_def ac_simps)

lemma reads_then: "dr_reads s t [] \<Longrightarrow> dr_reads t u vs \<Longrightarrow> dr_reads s u vs"
  using dr_reads_trans [of s t "[]" u vs] by simp

lemma spi_setup_reads:
  fixes s :: "'a spimaster_scheme"
  assumes "spi_setup E cs d selected s = Ret r t" "reg_base s = SPI_BASE"
  shows "dr_reads s t []"
proof -
  from assms(1) obtain ret u where u: "device_spi_int (es3_spi_setbits E cs (xfer_bits_per_word d)) s = Ret ret u" and
    r: "(if ret \<noteq> 0 then return ret else bind (device_spi_int (es3_spi_setfrequency E cs (xfer_speed_hz d))) (\<lambda>ret.
       if ret \<noteq> 0 then return ret else if selected then return 0 else device_spi_int (es3_spi_select E cs))) u = Ret r t"
    unfolding spi_setup_def by (rule bind_eq_RetE)
  have su: "dr_reads s u []" by (rule device_reads [OF u]) (rule setup_reads(1) [OF assms(2)])
  then have b: "reg_base u = SPI_BASE" using assms(2) by (simp add: dr_reads_base)
  have f: "dr_reads u v []" if "device_spi_int (es3_spi_setfrequency E cs (xfer_speed_hz d)) u = Ret q v" for q v
    by (rule device_reads [OF that]) (rule setup_reads(2) [OF b])
  have g: "dr_reads v w []" if "device_spi_int (es3_spi_select E cs) v = Ret q w" for q v w
    by (rule device_reads [OF that]) (rule select_reads(1))
  have "dr_reads u t []"
    using r by (auto simp: return_def dr_reads_refl elim!: bind_eq_RetE split: if_splits dest!: f g intro: reads_then)
  with su show ?thesis by (rule reads_then)
qed

lemma spi_transfer_one_reads:
  fixes s :: "'a spimaster_scheme"
  assumes "spi_transfer_one E cs buf d selected wr rd payload s = Ret (failed, sel', p) t"
    and "reg_base s = SPI_BASE" "xfer_reads d" "rd \<le> length payload"
  shows "\<exists>vs. dr_reads s t vs \<and> rd + length vs \<le> length payload \<and> p = put_bytes payload rd (map ucast vs) \<and>
    (\<not> failed \<longrightarrow> length vs = unat (xfer_len d))"
proof -
  let ?x = "device_spi payload (es3_spi_exchange E buf (if xfer_writes d then Some wr else None) (Some rd) (xfer_len d) payload)"
  let ?fin = "\<lambda>(ret, payload). if ret \<noteq> 0 then return (True, True, payload)
      else bind (if xfer_cs_change d \<noteq> 0 then device_spi_int (es3_spi_deselect E cs) else return 0) (\<lambda>ret.
        return (ret \<noteq> 0, ret \<noteq> 0 \<or> xfer_cs_change d = 0, payload))"
  from assms(1,3) obtain ret u where u: "spi_setup E cs d selected s = Ret ret u" and
    r: "(if ret \<noteq> 0 then return (True, selected, payload) else bind ?x ?fin) u = Ret (failed, sel', p) t"
    unfolding spi_transfer_one_def if_P [OF assms(3)] by (elim bind_eq_RetE)
  have su: "dr_reads s u []" by (rule spi_setup_reads [OF u assms(2)])
  show ?thesis
  proof (cases "ret = 0")
    case True
    with r obtain ret' q v where v: "?x u = Ret (ret', q) v" and f: "?fin (ret', q) v = Ret (failed, sel', p) t"
      by (auto elim!: bind_eq_RetE)
    have "reg_base u = SPI_BASE" using su assms(2) by (simp add: dr_reads_base)
    from exchange_reads [OF v this assms(4)] obtain vs where vs: "dr_reads u v vs" "rd + length vs \<le> length payload"
      "q = put_bytes payload rd (map ucast vs)" "ret' = 0 \<longrightarrow> length vs = unat (xfer_len d)" by blast
    have g: "dr_reads v w []" if "device_spi_int (es3_spi_deselect E cs) v = Ret x w" for x w
      by (rule device_reads [OF that]) (rule select_reads(2))
    have "p = q \<and> dr_reads v t [] \<and> (\<not> failed \<longrightarrow> ret' = 0)"
      using f by (auto simp: return_def dr_reads_refl elim!: bind_eq_RetE split: if_splits dest!: g)
    with vs su dr_reads_trans [OF vs(1), of t "[]"] reads_then [OF su] show ?thesis by (intro exI [of _ vs]) auto
  next
    case False
    with r su assms(4) show ?thesis by (intro exI [of _ "[]"]) (auto simp: return_def put_bytes_def)
  qed
qed

lemma spi_transfers_read:
  fixes s :: "'a spimaster_scheme"
  assumes "spi_transfers E cs buf ds sel wr rd payload s = Ret (sel', p) t"
    and "reg_base s = SPI_BASE" "\<forall>d \<in> set ds. xfer_reads d" "rd \<le> length payload"
  shows "\<exists>vs. dr_reads s t vs \<and> rd + length vs \<le> length payload \<and> p = put_bytes payload rd (map ucast vs)"
  using assms
proof (induction ds arbitrary: sel wr rd payload s)
  case Nil
  then show ?case by (intro exI [of _ "[]"]) (auto simp: return_def dr_reads_refl put_bytes_def)
next
  case (Cons d ds)
  from Cons.prems(1) obtain failed sel1 q u where u: "spi_transfer_one E cs buf d sel wr rd payload s = Ret (failed, sel1, q) u" and
    r: "(if failed then return (sel1, q) else spi_transfers E cs buf ds sel1 (if xfer_writes d then wr + unat (xfer_len d) else wr)
         (if xfer_reads d then rd + unat (xfer_len d) else rd) q) u = Ret (sel', p) t"
    by (auto elim!: bind_eq_RetE)
  from spi_transfer_one_reads [OF u Cons.prems(2) _ Cons.prems(4)] Cons.prems(3) obtain vs where vs: "dr_reads s u vs"
    "rd + length vs \<le> length payload" "q = put_bytes payload rd (map ucast vs)" "\<not> failed \<longrightarrow> length vs = unat (xfer_len d)"
    by auto
  show ?case
  proof (cases failed)
    case True
    with r vs show ?thesis by (intro exI [of _ vs]) (auto simp: return_def)
  next
    case False
    have q: "length q = length payload" using vs(2,3) by simp
    from False r Cons.prems(3) have "spi_transfers E cs buf ds sel1 (if xfer_writes d then wr + unat (xfer_len d) else wr)
        (rd + length vs) q u = Ret (sel', p) t" using vs(4) by simp
    moreover have "reg_base u = SPI_BASE" using vs(1) Cons.prems(2) by (simp add: dr_reads_base)
    ultimately obtain ws where ws: "dr_reads u t ws" "rd + length vs + length ws \<le> length q"
      "p = put_bytes q (rd + length vs) (map ucast ws)" using Cons.IH Cons.prems(3) vs(2) q by fastforce
    have "p = put_bytes payload rd (map ucast (vs @ ws))"
      using put_bytes_put_bytes [of rd "map ucast vs" "map ucast ws" payload] ws vs q by simp
    then show ?thesis using dr_reads_trans [OF vs(1) ws(1)] ws(2) q by (intro exI [of _ "vs @ ws"]) auto
  qed
qed
section \<open>Properties\<close>

lemma setmode_reads:
  fixes s :: "'a spimaster_scheme"
  assumes "reg_base s = SPI_BASE" "device_spi_int (es3_spi_setmode E cs mode) s = Ret r t"
  shows "dr_reads s t []"
  by (rule device_reads [OF assms(2)]) (rule setup_reads(3) [OF assms(1)])

text \<open>The descriptors of a request, and the bytes the answer starts out with.\<close>

definition request_descs :: "bytes \<Rightarrow> gb_spi_transfer_desc list" where
  "request_descs buf = map (desc_at buf) [0..<unat (get_u16 buf 10)]"

definition blank_answer :: "(nat \<Rightarrow> u8) \<Rightarrow> bytes \<Rightarrow> bytes" where
  "blank_answer stack buf = map stack [0..<unat (read_size (request_descs buf))]"

text \<open>The request was answered in state \<open>t\<close>: refused, or with the words \<open>vs\<close> read since \<open>s\<close>.\<close>

definition spi_answered ::
    "env \<Rightarrow> (nat \<Rightarrow> u8) \<Rightarrow> u32 \<Rightarrow> bytes \<Rightarrow> 'a spimaster_scheme \<Rightarrow> 'a spimaster_scheme \<Rightarrow> bool" where
  "spi_answered E stack c buf s t \<longleftrightarrow>
     (\<exists>u vs status payload r. dr_reads s u vs \<and> greybus_op_response E c (op_header_of buf) status payload u = Ret r t \<and>
        (status \<noteq> GB_OP_SUCCESS \<or>
         length vs \<le> length (blank_answer stack buf) \<and> payload = put_bytes (blank_answer stack buf) 0 (map ucast vs)))"

lemma refuse_answered:
  assumes "gb_spi_refuse E c buf status u = Ret rc t" "dr_reads s u vs" "status \<noteq> GB_OP_SUCCESS"
  shows "spi_answered E stack c buf s t"
proof -
  from assms(1) obtain r where "greybus_op_response E c (op_header_of buf) status [] u = Ret r t"
    unfolding gb_spi_refuse_def by (elim bind_eq_RetE) (auto simp: return_def)
  with assms(2,3) show ?thesis unfolding spi_answered_def by blast
qed

lemma spi_err_answered:
  assumes "spi_err E c buf sel p u = Ret rc t"
    and "dr_reads s u vs" "length vs \<le> length (blank_answer stack buf)" "p = put_bytes (blank_answer stack buf) 0 (map ucast vs)"
  shows "spi_answered E stack c buf s t"
proof -
  from assms(1) obtain ret v where v: "(if sel then device_spi_int (es3_spi_deselect E (buf ! 8)) else return 0) u = Ret ret v" and
    w: "(if ret \<noteq> 0 then gb_spi_refuse E c buf GB_OP_UNKNOWN_ERROR
      else greybus_op_response E c (op_header_of buf) GB_OP_SUCCESS p) v = Ret rc t"
    unfolding spi_err_def by (rule bind_eq_RetE)
  have "dr_reads u v []"
    using v by (auto simp: return_def dr_reads_refl split: if_splits intro: device_reads select_reads)
  from dr_reads_trans [OF assms(2) this] have sv: "dr_reads s v vs" by simp
  show ?thesis
  proof (cases "ret = 0")
    case True
    with w have "greybus_op_response E c (op_header_of buf) GB_OP_SUCCESS p v = Ret rc t" by simp
    with sv assms(3,4) show ?thesis unfolding spi_answered_def by blast
  next
    case False
    with w refuse_answered [OF _ sv] show ?thesis by simp
  qed
qed

lemma transfer_answered:
  fixes s :: "'a spimaster_scheme"
  assumes "gb_spi_transfer E stack c buf s = Ret rc t" "reg_base s = SPI_BASE" "\<forall>d \<in> set (request_descs buf). xfer_reads d"
  shows "spi_answered E stack c buf s t"
proof -
  let ?ds = "request_descs buf" and ?p = "blank_answer stack buf" and ?cs = "buf ! 8"
  let ?run = "\<lambda>ret. if ret \<noteq> 0 then return (False, ?p)
      else spi_transfers E ?cs buf ?ds False (12 + 13 * unat (get_u16 buf 10)) 0 ?p"
  have "gb_spi_refuse E c buf GB_OP_INVALID s = Ret rc t \<or>
      bind (device_spi_int (es3_spi_setmode E ?cs (buf ! 9))) (\<lambda>ret. bind (?run ret) (\<lambda>(sel, p). spi_err E c buf sel p)) s = Ret rc t"
    using assms(1)
    unfolding gb_spi_transfer_def Let_def request_descs_def [symmetric] blank_answer_def [symmetric] assert_or_fault_def skip_def
    by (simp split: if_split_asm) (simp_all add: stop_with_def)
  then consider "gb_spi_refuse E c buf GB_OP_INVALID s = Ret rc t" |
    ret u sel p v where "device_spi_int (es3_spi_setmode E ?cs (buf ! 9)) s = Ret ret u" "?run ret u = Ret (sel, p) v"
      "spi_err E c buf sel p v = Ret rc t" by (fastforce elim!: bind_eq_RetE)
  then show ?thesis
  proof cases
    case 1
    then show ?thesis by (rule refuse_answered [OF _ dr_reads_refl]) simp
  next
    case 2
    have su: "dr_reads s u []" by (rule setmode_reads [OF assms(2) 2(1)])
    have "\<exists>vs. dr_reads u v vs \<and> length vs \<le> length ?p \<and> p = put_bytes ?p 0 (map ucast vs)"
    proof (cases "ret = 0")
      case True
      with 2(2) su assms(2,3) show ?thesis
        using spi_transfers_read [of E ?cs buf ?ds False _ 0 ?p u sel p v] by (simp add: dr_reads_base)
    qed (use 2(2) in \<open>auto simp: return_def put_bytes_def intro!: exI [of _ "[]"] dr_reads_refl\<close>)
    then show ?thesis using spi_err_answered [OF 2(3)] reads_then [OF su] by blast
  qed
qed

text \<open>
  C36: When every transfer of a request reads, the answer that the bridged SPI sends with a success status
  holds exactly the bytes that came in over SPI, in order, followed by what the stack held if the transfers
  were cut short; every other outcome is an answer with an error status.
\<close>

theorem spi_answer_is_what_came_in:
  fixes s :: "'a spimaster_scheme"
  assumes "gb_spi_transfer E stack c buf s = Ret rc t" "reg_base s = SPI_BASE"
    and "\<forall>d \<in> set (request_descs buf). xfer_rdwr d AND SPI_XFER_READ \<noteq> 0"
  shows "\<exists>u vs status payload r. dr_reads s u vs \<and> greybus_op_response E c (op_header_of buf) status payload u = Ret r t \<and>
    (status \<noteq> GB_OP_SUCCESS \<or>
     length vs \<le> length (blank_answer stack buf) \<and> payload = put_bytes (blank_answer stack buf) 0 (map ucast vs))"
  using transfer_answered [OF assms] unfolding spi_answered_def .

text \<open>
  A transfer for a chip that does not exist is answered with success: the error of the driver is dropped, and
  the answer carries as many bytes as the request wanted to read, all of them left over from the stack.
\<close>

theorem failed_transfer_reports_success:
  fixes s :: "'a spimaster_scheme"
  defines "n \<equiv> \<lambda>buf :: bytes. 12 + 13 * unat (get_u16 buf 10)"
  assumes "spi_dev_ops s" "caps_csnum (caps s) \<le> ucast (buf ! 8)"
    and "n buf \<le> unat (op_size (op_header_of buf))" "n buf \<le> length buf"
  shows "gb_spi_transfer E stack c buf s =
    greybus_op_response E c (op_header_of buf) GB_OP_SUCCESS (blank_answer stack buf) s"
proof -
  let ?k = "unat (get_u16 buf 10)" and ?sz = "gb_operation_request_size (op_header_of buf)"
  have sz: "unat ?sz = unat (op_size (op_header_of buf)) - 8"
    using assms(4) unsigned_less [of "op_size (op_header_of buf)", where ?'a = nat]
    unfolding n_def gb_operation_request_size_def by (simp add: unat_sub_if' unsigned_ucast_eq take_bit_nat_eq_self)
  have k: "?k < 2 ^ 16" using unsigned_less [of "get_u16 buf 10", where ?'a = nat] by simp
  then have "unat (4 + 13 * word_of_nat ?k :: u32) = 4 + 13 * ?k"
    by (simp add: unat_word_ariths unsigned_ucast_eq take_bit_nat_eq_self)
  then have "\<not> ?sz < 4" "\<not> ?sz < 4 + 13 * word_of_nat ?k"
    using sz assms(4) unfolding n_def by (auto simp: word_less_nat_alt)
  then show ?thesis
    using assms(2,3,5) unfolding n_def
    by (simp add: gb_spi_transfer_def Let_def request_descs_def blank_answer_def device_spi_int_def es3_spi_setmode_def
        spi_err_def bind_def gets_def return_def assert_or_fault_def skip_def)
qed
text \<open>A request for one transfer that reads four bytes from chip \<open>cs\<close>, at 12 MHz and 8 bits per word.\<close>

definition demo_request :: "u8 \<Rightarrow> bytes" where
  "demo_request cs =
     u16_bytes 25 @ u16_bytes 7 @ [4, 0, 0, 0] @ [cs, 0] @ u16_bytes 1 @
     u32_bytes 12000000 @ u32_bytes 4 @ u16_bytes 0 @ [0, 8, 1]"

lemma demo_request_fields:
  "length (demo_request cs) = 25" "demo_request cs ! 8 = cs" "get_u16 (demo_request cs) 10 = 1"
  "op_size (op_header_of (demo_request cs)) = 25" "xfer_rdwr (desc_at (demo_request cs) 0) = 1"
  "xfer_len (desc_at (demo_request cs) 0) = 4" "xfer_speed_hz (desc_at (demo_request cs) 0) = 12000000"
  "xfer_bits_per_word (desc_at (demo_request cs) 0) = 8" "xfer_cs_change (desc_at (demo_request cs) 0) = 0"
  by (simp_all add: demo_request_def u16_bytes_def u32_bytes_def get_u16_def get_u32_def op_header_of_def desc_at_def)

lemma demo_ready: "spi_dev_ops spimaster_ready" "caps_csnum (caps spimaster_ready) = 1" "reg_base spimaster_ready = SPI_BASE"
  by (simp_all add: spimaster_ready_def gbcore.defs)

lemma demo_descs: "request_descs (demo_request cs) = [desc_at (demo_request cs) 0]"
  by (simp add: request_descs_def demo_request_fields)

theorem failed_transfer_reports_success_witness:
  "gb_spi_transfer (es3_env (\<lambda>_ _. 0)) (\<lambda>i. 0xAA) 2 (demo_request 1) spimaster_ready =
   greybus_op_response (es3_env (\<lambda>_ _. 0)) 2 (op_header_of (demo_request 1)) GB_OP_SUCCESS [0xAA, 0xAA, 0xAA, 0xAA] spimaster_ready"
proof -
  have "blank_answer (\<lambda>i. 0xAA) (demo_request 1) = [0xAA, 0xAA, 0xAA, 0xAA]"
    by (simp add: blank_answer_def demo_descs read_size_def demo_request_fields upt_rec)
  with failed_transfer_reports_success [of spimaster_ready "demo_request 1" "es3_env (\<lambda>_ _. 0)" "\<lambda>i. 0xAA" 2]
  show ?thesis by (simp add: demo_ready demo_request_fields)
qed
text \<open>The same request for the chip that exists, on a controller that always has room and data.\<close>

abbreviation (input) "demo_body base buf \<equiv> exchange_step (es3_env (\<lambda>_ _. 0x0A)) base buf None (Some 0) 4"

lemma demo_step:
  "i < 4 \<Longrightarrow> length p = 4 \<Longrightarrow> \<exists>u. demo_body base buf (i, i, p) (s :: spimaster) = Ret (Inl (Suc i, Suc i, p[i := 0x0A])) u"
  by (simp add: exchange_step_def tsb_spi_read_def tsb_spi_write_def getreg32_def putreg32_def es3_env_def tx_byte_def
      rx_byte_def prog_defs)

lemma demo_loop:
  "i + k = 4 \<Longrightarrow> length p = 4 \<Longrightarrow> \<exists>q t. loopM (demo_body base buf) (i, i, p) (s :: spimaster) = Ret q t"
proof (induction k arbitrary: i p s)
  case 0
  then have "demo_body base buf (i, i, p) s = Ret (Inr p) s" by (simp add: exchange_step_def return_def)
  from loopM_Inr [where body = "demo_body base buf", OF this] show ?case by blast
next
  case (Suc k)
  then obtain u where u: "demo_body base buf (i, i, p) s = Ret (Inl (Suc i, Suc i, p[i := 0x0A])) u"
    using demo_step [of i p base buf s] by auto
  from Suc obtain q t where "loopM (demo_body base buf) (Suc i, Suc i, p[i := 0x0A]) u = Ret q t" by fastforce
  from loopM_Inl_Ret [where body = "demo_body base buf", OF u this] show ?case by blast
qed

lemma demo_exchange:
  fixes s :: spimaster
  assumes "spi_dev_ops s" "length payload = 4"
  shows "\<exists>q t. device_spi payload (es3_spi_exchange (es3_env (\<lambda>_ _. 0x0A)) buf None (Some 0) 4 payload) s = Ret (0, q) t \<and>
    spi_dev_ops t \<and> caps t = caps s"
proof -
  let ?s = "s\<lparr>io := WrReg (reg_base s + DW_SPI_SSIENR) 1 # io s\<rparr>"
  obtain q t where l: "loopM (exchange_step (es3_env (\<lambda>_ _. 0x0A)) (reg_base s) buf None (Some 0) 4) (0, 0, payload) ?s = Ret q t"
    using demo_loop [of 0 4 payload "reg_base s" buf ?s] assms(2) by auto
  then obtain u where u: "device_spi payload (es3_spi_exchange (es3_env (\<lambda>_ _. 0x0A)) buf None (Some 0) 4 payload) s = Ret (0, q) u"
    using assms(1) by (simp add: device_spi_def es3_spi_exchange_def gets_def tsb_spi_write_def putreg32_def return_def)
  then have "es3_spi_exchange (es3_env (\<lambda>_ _. 0x0A)) buf None (Some 0) 4 payload s = Ret (0, q) u"
    using assms(1) by (simp add: device_spi_def gets_def)
  from exchange_run [OF this] obtain ev where "u = s\<lparr>io := ev @ io s\<rparr>" by (auto simp: exchanged_def)
  with u assms(1) show ?thesis by auto
qed

lemma demo_setup:
  fixes s :: spimaster
  assumes "spi_dev_ops s" "caps_csnum (caps s) = 1" "dev_cfg s = chips_info"
  shows "\<exists>u. spi_setup E 0 (desc_at (demo_request 0) 0) False s = Ret 0 u \<and> spi_dev_ops u \<and> caps u = caps s"
  using assms
  by (simp add: spi_setup_def device_spi_int_def es3_spi_setbits_def es3_spi_setfrequency_def es3_spi_select_def chip_cfg_def
      chips_info_def demo_request_fields tsb_spi_read_def tsb_spi_write_def tsb_set_pinshare_def chip_gpio_direction_out_def
      chip_gpio_set_value_def scm_read_def scm_write_def getreg32_def putreg32_def prog_defs Let_def)

lemma demo_one:
  fixes s :: spimaster
  assumes "spi_dev_ops s" "caps_csnum (caps s) = 1" "dev_cfg s = chips_info" "length p = 4"
  shows "\<exists>q t. spi_transfer_one (es3_env (\<lambda>_ _. 0x0A)) 0 (demo_request 0) (desc_at (demo_request 0) 0) False wr 0 p s =
      Ret (False, True, q) t \<and> spi_dev_ops t \<and> caps t = caps s"
proof -
  let ?E = "es3_env (\<lambda>_ _. 0x0A)" and ?b = "demo_request 0"
  obtain u where u: "spi_setup ?E 0 (desc_at ?b 0) False s = Ret 0 u" "spi_dev_ops u" "caps u = caps s"
    using demo_setup [OF assms(1-3)] by blast
  obtain q t where "device_spi p (es3_spi_exchange ?E ?b None (Some 0) 4 p) u = Ret (0, q) t" "spi_dev_ops t" "caps t = caps u"
    using demo_exchange [OF u(2) assms(4)] by blast
  with u show ?thesis by (simp add: spi_transfer_one_def demo_request_fields return_def)
qed

theorem spi_answer_is_what_came_in_witness:
  "\<exists>rc t u vs status payload r. gb_spi_transfer (es3_env (\<lambda>_ _. 0x0A)) (\<lambda>i. 0xAA) 2 (demo_request 0) spimaster_ready = Ret rc t \<and>
     dr_reads spimaster_ready u vs \<and>
     greybus_op_response (es3_env (\<lambda>_ _. 0x0A)) 2 (op_header_of (demo_request 0)) status payload u = Ret r t"
proof -
  let ?E = "es3_env (\<lambda>_ _. 0x0A)" and ?b = "demo_request 0" and ?p = "[0xAA, 0xAA, 0xAA, 0xAA] :: bytes"
  have p: "map (\<lambda>i. 0xAA) [0..<unat (read_size [desc_at ?b 0])] = ?p" by (simp add: read_size_def demo_request_fields upt_rec)
  have send: "\<exists>r t. greybus_op_response ?E 2 h st q s = Ret r t" for h st q and s :: spimaster
    by (simp add: greybus_op_response_def greybus_send_message_def chip_unipro_send_def es3_env_def return_def)
  obtain s1 where s1: "device_spi_int (es3_spi_setmode ?E 0 0) spimaster_ready = Ret 0 s1" "spi_dev_ops s1"
    "caps s1 = caps spimaster_ready" "dev_cfg s1 = chips_info"
    using demo_ready by (simp add: spimaster_ready_def gbcore.defs chips_info_def device_spi_int_def es3_spi_setmode_def chip_cfg_def tsb_spi_read_def
        tsb_spi_write_def getreg32_def putreg32_def prog_defs Let_def)
  obtain q s2 where s2: "spi_transfer_one ?E 0 ?b (desc_at ?b 0) False 25 0 ?p s1 = Ret (False, True, q) s2" "spi_dev_ops s2"
    "caps s2 = caps s1" using demo_one [OF s1(2) _ s1(4), of ?p 25] s1(3) demo_ready by auto
  obtain s3 where s3: "device_spi_int (es3_spi_deselect ?E 0) s2 = Ret 0 s3"
    using s1(3) s2(2,3) demo_ready
    by (simp add: device_spi_int_def es3_spi_deselect_def tsb_clr_pinshare_def chip_gpio_direction_out_def
        chip_gpio_set_value_def scm_read_def scm_write_def getreg32_def putreg32_def prog_defs Let_def)
  obtain r t where r: "greybus_op_response ?E 2 (op_header_of ?b) GB_OP_SUCCESS q s3 = Ret r t" using send by blast
  have m: "?b ! 9 = 0" by (simp add: demo_request_def u16_bytes_def)
  have "spi_transfers ?E 0 ?b [desc_at ?b 0] False 25 0 ?p s1 = Ret (True, q) s2" using s2(1) by (simp add: return_def)
  with s1(1) s3 r p have "gb_spi_transfer ?E (\<lambda>i. 0xAA) 2 ?b spimaster_ready = Ret r t"
    by (simp add: gb_spi_transfer_def gb_operation_request_size_def demo_request_fields m Let_def
        spi_err_def assert_or_fault_def skip_def del: spi_transfers.simps)
  moreover from spi_answer_is_what_came_in [OF this] have "\<exists>u vs status payload r. dr_reads spimaster_ready u vs \<and>
      greybus_op_response ?E 2 (op_header_of ?b) status payload u = Ret r t"
    using demo_ready(3) by (auto simp: demo_descs demo_request_fields)
  ultimately show ?thesis by blast
qed

end
