(* ===== verification/Csprng.thy ===== *)
theory Csprng
  imports Keys
begin

text \<open>
  The random generator of the second stage and the signing functions that use it
  (\<^verbatim>\<open>common/vendors/MIRACL/ara/src/lib/mcl_rand.c\<close>, the SHA-256 part of \<^verbatim>\<open>mcl_hash.c\<close>, and
  \<^verbatim>\<open>initialize_csprng\<close> and \<^verbatim>\<open>sign_message_with_epsk\<close> and \<^verbatim>\<open>_essk\<close> of \<^verbatim>\<open>common/src/secret_keys.c\<close>). The generator
  is a subtract-with-borrow generator whose output is hashed into a pool of 32 bytes. The theory shows
  that its state after seeding is a function of the seed alone; since the seed is a key of the endpoint, every
  signature is made with the same random numbers.
\<close>

unbundle bit_operations_syntax

section \<open>Hashing\<close>

text \<open>
  The SHA-256 functions of \<^verbatim>\<open>mcl_hash.c\<close> are those of the boot ROM's subset, statement by statement; the
  additional field \<^verbatim>\<open>hlen\<close>, the length of the digest, is 32 after \<^verbatim>\<open>MCL_HASH256_init\<close> and never changes.
\<close>

definition MCL_HASH256_transform :: "sha256 \<Rightarrow> sha256" where
  "MCL_HASH256_transform = shs_transform"

definition MCL_HASH256_init :: "sha256 \<Rightarrow> sha256" where
  "MCL_HASH256_init = shs256_init"

definition MCL_HASH256_process :: "sha256 \<Rightarrow> u8 \<Rightarrow> sha256" where
  "MCL_HASH256_process = shs256_process"

definition MCL_HASH256_hash :: "sha256 \<Rightarrow> (bytes \<times> sha256) option" where
  "MCL_HASH256_hash = shs256_hash"

text \<open>The digest of a message in a fresh context on the stack, which held \<open>sh\<close>.\<close>

definition digest_of :: "sha256 \<Rightarrow> bytes \<Rightarrow> bytes option" where
  "digest_of sh msg =
     map_option fst (MCL_HASH256_hash (fold (\<lambda>b sh. MCL_HASH256_process sh b) msg (MCL_HASH256_init sh)))"

lemma digest_of_correct: "length (sh_w sh) = 80 \<Longrightarrow> digest_of sh msg = Some (sha256_spec msg)"
proof -
  assume "length (sh_w sh) = 80"
  then have "absorbed msg (fold (\<lambda>b sh. shs256_process sh b) msg (shs256_init sh))"
    using absorbed_fold [OF absorbed_init, of sh msg] by simp
  from shs256_hash_correct [OF this] show ?thesis
    by (auto simp: digest_of_def MCL_HASH256_hash_def MCL_HASH256_process_def MCL_HASH256_init_def)
qed

section \<open>The generator\<close>

abbreviation (input) "NK \<equiv> 21 :: nat"
abbreviation (input) "NJ \<equiv> 6 :: nat"
abbreviation (input) "NV \<equiv> 8 :: nat"

record csprng =
  ira :: "u32 list"
  rndptr :: nat
  borrow :: u32
  pool_ptr :: nat
  pool :: bytes

text \<open>One step of the loop of \<^verbatim>\<open>sbrand\<close>, over \<^verbatim>\<open>k\<close>, the borrow and the array.\<close>

definition sbrand_step :: "nat \<Rightarrow> nat \<times> u32 \<times> u32 list \<Rightarrow> nat \<times> u32 \<times> u32 list" where
  "sbrand_step i = (\<lambda>(k, brw, a).
     let k = (if k = NK then 0 else k);
         t = a ! k;
         pdiff = t - a ! i - brw;
         brw = (if pdiff < t then 0 else brw);
         brw = (if pdiff > t then 1 else brw)
     in (k + 1, brw, a[i := pdiff]))"

definition sbrand :: "csprng \<Rightarrow> u32 \<times> csprng" where
  "sbrand rng =
     (let p = rndptr rng + 1
      in if p < NK then (ira rng ! p, rng\<lparr>rndptr := p\<rparr>)
         else
           (let (k, brw, a) = fold sbrand_step [0..<NK] (NK - NJ, borrow rng, ira rng)
            in (a ! 0, rng\<lparr>rndptr := 0, borrow := brw, ira := a\<rparr>)))"

text \<open>The loop of \<^verbatim>\<open>sirand\<close> that stirs a seed into the array.\<close>

definition stir_step :: "nat \<Rightarrow> u32 \<times> u32 \<times> u32 list \<Rightarrow> u32 \<times> u32 \<times> u32 list" where
  "stir_step i = (\<lambda>(m, seed, a).
     let j = (NV * i) mod NK in (seed - m, m, a[j := a ! j XOR m]))"

definition sirand :: "csprng \<Rightarrow> u32 \<Rightarrow> csprng" where
  "sirand rng seed =
     (let a = (ira rng)[0 := ira rng ! 0 XOR seed];
          (m, seed, a) = fold stir_step [1..<NK] (1, seed, a)
      in ((\<lambda>r. snd (sbrand r)) ^^ 10000) (rng\<lparr>borrow := 0, rndptr := 0, ira := a\<rparr>))"

text \<open>The next \<open>n\<close> outputs, reduced to bytes.\<close>

primrec sbrand_bytes :: "nat \<Rightarrow> csprng \<Rightarrow> bytes \<times> csprng" where
  "sbrand_bytes 0 rng = ([], rng)"
| "sbrand_bytes (Suc n) rng =
     (let (v, rng) = sbrand rng; (bs, rng) = sbrand_bytes n rng in (ucast v # bs, rng))"

definition fill_pool :: "sha256 \<Rightarrow> csprng \<Rightarrow> csprng option" where
  "fill_pool sh rng =
     (let (bs, rng) = sbrand_bytes 128 rng
      in map_option (\<lambda>d. rng\<lparr>pool := d, pool_ptr := 0\<rparr>) (digest_of sh bs))"

text \<open>\<^verbatim>\<open>pack\<close> of four bytes of the digest, for each of its eight words.\<close>

definition pack :: "bytes \<Rightarrow> u32" where
  "pack b = push_bit 24 (ucast (b ! 3)) OR push_bit 16 (ucast (b ! 2)) OR push_bit 8 (ucast (b ! 1)) OR ucast (b ! 0)"

definition MCL_RAND_seed :: "sha256 \<Rightarrow> csprng \<Rightarrow> bytes \<Rightarrow> csprng option" where
  "MCL_RAND_seed sh rng raw =
     (let rng = rng\<lparr>pool_ptr := 0, ira := replicate NK 0\<rparr>
      in if raw \<noteq> [] then
           (case digest_of sh raw of
              None \<Rightarrow> None
            | Some digest \<Rightarrow>
                fill_pool sh (fold (\<lambda>i rng. sirand rng (pack (take 4 (drop (4 * i) digest)))) [0..<8] rng))
         else fill_pool sh rng)"

definition MCL_RAND_clean :: "csprng \<Rightarrow> csprng" where
  "MCL_RAND_clean rng =
     rng\<lparr>pool_ptr := 0, rndptr := 0, pool := replicate 32 0, ira := replicate NK 0, borrow := 0\<rparr>"

definition MCL_RAND_byte :: "sha256 \<Rightarrow> csprng \<Rightarrow> (u8 \<times> csprng) option" where
  "MCL_RAND_byte sh rng =
     (let r = pool rng ! pool_ptr rng; rng = rng\<lparr>pool_ptr := pool_ptr rng + 1\<rparr>
      in if pool_ptr rng \<ge> 32 then map_option (\<lambda>rng. (r, rng)) (fill_pool sh rng) else Some (r, rng))"

definition MCL_CREATE_CSPRNG :: "sha256 \<Rightarrow> csprng \<Rightarrow> bytes \<Rightarrow> csprng option" where
  "MCL_CREATE_CSPRNG sh rng raw = MCL_RAND_seed sh rng raw"

definition MCL_KILL_CSPRNG :: "csprng \<Rightarrow> csprng" where
  "MCL_KILL_CSPRNG rng = MCL_RAND_clean rng"

section \<open>Signing\<close>

text \<open>
  The curve operation \<^verbatim>\<open>MCL_ECPSP_DSA\<close> is a parameter \<open>dsa\<close>: it takes the generator, the private key, the message
  and the capacities of the two result buffers, and gives its return value and the two parts of the
  signature. A result buffer is \<open>None\<close> for a null pointer and its size otherwise. \<open>rng\<close> and \<open>sh\<close> are the
  uninitialised locals of the call.
\<close>

type_synonym dsa = "csprng \<Rightarrow> bytes \<Rightarrow> bytes \<Rightarrow> nat \<Rightarrow> nat \<Rightarrow> int \<times> bytes \<times> bytes"

abbreviation (input) "MCL_EGS1 \<equiv> 56 :: nat"
abbreviation (input) "MCL_EGS2 \<equiv> 32 :: nat"
abbreviation (input) "ERANGE \<equiv> 34 :: int"

definition initialize_csprng :: "sha256 \<Rightarrow> csprng \<Rightarrow> ('a keys_scheme, csprng) prog" where
  "initialize_csprng sh rng =
     bind (gets ergs) (\<lambda>seed.
     case MCL_CREATE_CSPRNG sh rng seed of None \<Rightarrow> stop_with Hung | Some rng \<Rightarrow> return rng)"

text \<open>The result: the return value and, when the curve operation ran, what it left in the two buffers.\<close>

definition sign_message_with_epsk ::
  "dsa \<Rightarrow> sha256 \<Rightarrow> csprng \<Rightarrow> bytes \<Rightarrow> nat option \<Rightarrow> nat option \<Rightarrow> ('a keys_scheme, int \<times> (bytes \<times> bytes) option) prog" where
  "sign_message_with_epsk dsa sh rng message cs ds =
     bind (gets epsk) (\<lambda>S0.
     bind (initialize_csprng sh rng) (\<lambda>RNG.
     case (cs, ds) of
       (Some cs_size, Some ds_size) \<Rightarrow>
         if cs_size < MCL_EGS1 \<or> ds_size < MCL_EGS1 then return (- EINVAL, None)
         else
           (let (r, c, d) = dsa RNG (take MCL_EGS1 S0) message cs_size ds_size
            in return (if r \<noteq> 0 then - ERANGE else 0, Some (c, d)))
     | _ \<Rightarrow> return (- EINVAL, None)))"

definition sign_message_with_essk ::
  "dsa \<Rightarrow> sha256 \<Rightarrow> csprng \<Rightarrow> bytes \<Rightarrow> nat option \<Rightarrow> nat option \<Rightarrow> ('a keys_scheme, int \<times> (bytes \<times> bytes) option) prog" where
  "sign_message_with_essk dsa sh rng message cs ds =
     bind (gets essk) (\<lambda>S0.
     bind (initialize_csprng sh rng) (\<lambda>RNG.
     case (cs, ds) of
       (Some cs_size, Some ds_size) \<Rightarrow>
         if cs_size < MCL_EGS2 \<or> ds_size < MCL_EGS2 then return (- EINVAL, None)
         else
           (let (r, c, d) = dsa RNG (take MCL_EGS2 S0) message cs_size ds_size
            in return (if r \<noteq> 0 then - ERANGE else 0, Some (c, d)))
     | _ \<Rightarrow> return (- EINVAL, None)))"

section \<open>The generator is a function of its seed\<close>

text \<open>
  A generator is well formed when its indices lie in their arrays; every operation keeps it so.
\<close>

definition csprng_ok :: "csprng \<Rightarrow> bool" where
  "csprng_ok g \<longleftrightarrow> length (ira g) = NK \<and> rndptr g < NK \<and> pool_ptr g < 32 \<and> length (pool g) = 32"

text \<open>The part of the state the sequence of words depends on.\<close>

definition sb_state :: "csprng \<Rightarrow> u32 list \<times> nat \<times> u32" where
  "sb_state g = (ira g, rndptr g, borrow g)"

definition sb_ok :: "csprng \<Rightarrow> bool" where
  "sb_ok g \<longleftrightarrow> length (ira g) = NK \<and> rndptr g < NK"

lemma sbrand_fold_length: "length (snd (snd (fold sbrand_step is v))) = length (snd (snd v))"
  by (induction "is" arbitrary: v) (simp_all add: sbrand_step_def Let_def split_beta)

lemma stir_fold_length: "length (snd (snd (fold stir_step is v))) = length (snd (snd v))"
  by (induction "is" arbitrary: v) (simp_all add: stir_step_def Let_def split_beta)

lemma sbrand_more:
  "pool (snd (sbrand g)) = pool g" "pool_ptr (snd (sbrand g)) = pool_ptr g"
  by (simp_all add: sbrand_def Let_def split_beta)

lemma sbrand_ok: "sb_ok g \<Longrightarrow> sb_ok (snd (sbrand g))"
  using sbrand_fold_length [of "[0..<NK]" "(NK - NJ, borrow g, ira g)"]
  by (auto simp: sb_ok_def sbrand_def Let_def split_beta simp del: upt_rec_numeral)

lemma sbrand_cong:
  "sb_state g = sb_state h \<Longrightarrow> fst (sbrand g) = fst (sbrand h) \<and> sb_state (snd (sbrand g)) = sb_state (snd (sbrand h))"
  by (auto simp: sb_state_def sbrand_def Let_def split_beta simp del: upt_rec_numeral)

lemma warm_up_ok: "sb_ok g \<Longrightarrow> sb_ok (((\<lambda>r. snd (sbrand r)) ^^ n) g)"
  by (induction n) (simp_all add: sbrand_ok)

lemma warm_up_cong:
  "sb_state g = sb_state h \<Longrightarrow>
   sb_state (((\<lambda>r. snd (sbrand r)) ^^ n) g) = sb_state (((\<lambda>r. snd (sbrand r)) ^^ n) h)"
  by (induction n) (auto intro: sbrand_cong [THEN conjunct2])

text \<open>\<^verbatim>\<open>sirand\<close> reads the array only, so that neither the index nor the borrow of an earlier use remains.\<close>

lemma sirand_cong: "ira g = ira h \<Longrightarrow> sb_state (sirand g x) = sb_state (sirand h x)"
  unfolding sirand_def Let_def split_beta by (rule warm_up_cong) (simp add: sb_state_def)

lemma sirand_ok: "length (ira g) = NK \<Longrightarrow> sb_ok (sirand g x)"
  unfolding sirand_def Let_def split_beta
  by (rule warm_up_ok) (simp add: sb_ok_def stir_fold_length del: upt_rec_numeral)

lemma sirand_fold_cong:
  "xs \<noteq> [] \<Longrightarrow> ira g = ira h \<Longrightarrow>
   sb_state (fold (\<lambda>x g. sirand g x) xs g) = sb_state (fold (\<lambda>x g. sirand g x) xs h)"
proof (induction xs arbitrary: g h)
  case (Cons x xs)
  have eq: "sb_state (sirand g x) = sb_state (sirand h x)" by (rule sirand_cong [OF Cons.prems(2)])
  show ?case
  proof (cases "xs = []")
    case False
    from eq have "ira (sirand g x) = ira (sirand h x)" by (simp add: sb_state_def)
    from Cons.IH [OF False this] show ?thesis by (simp only: fold_simps)
  qed (use eq in \<open>simp only: fold_simps\<close>)
qed simp

lemma sirand_fold_ok: "xs \<noteq> [] \<Longrightarrow> length (ira g) = NK \<Longrightarrow> sb_ok (fold (\<lambda>x g. sirand g x) xs g)"
proof (induction xs arbitrary: g)
  case (Cons x xs)
  then show ?case
    using sirand_ok [of g x] by (cases "xs = []") (simp_all add: sb_ok_def)
qed simp

lemma sbrand_bytes_cong:
  "sb_state g = sb_state h \<Longrightarrow>
   fst (sbrand_bytes n g) = fst (sbrand_bytes n h) \<and> sb_state (snd (sbrand_bytes n g)) = sb_state (snd (sbrand_bytes n h))"
proof (induction n arbitrary: g h)
  case (Suc n)
  from Suc.IH [of "snd (sbrand g)" "snd (sbrand h)"] sbrand_cong [OF Suc.prems] show ?case
    by (simp add: split_beta Let_def)
qed simp

lemma sbrand_bytes_ok: "sb_ok g \<Longrightarrow> sb_ok (snd (sbrand_bytes n g)) \<and> length (fst (sbrand_bytes n g)) = n"
  by (induction n arbitrary: g) (auto simp: split_beta Let_def sbrand_ok)

lemma fill_pool_eq:
  "length (sh_w sh) = 80 \<Longrightarrow>
   fill_pool sh g = Some ((snd (sbrand_bytes 128 g))\<lparr>pool := sha256_spec (fst (sbrand_bytes 128 g)), pool_ptr := 0\<rparr>)"
  by (simp add: fill_pool_def digest_of_correct Let_def split_beta)

lemma csprng_eqI: "sb_state g = sb_state h \<Longrightarrow> g\<lparr>pool := p, pool_ptr := i\<rparr> = (h :: csprng)\<lparr>pool := p, pool_ptr := i\<rparr>"
  by (cases g, cases h) (simp add: sb_state_def)

lemma fill_pool_cong:
  assumes "length (sh_w sh) = 80" "length (sh_w sh') = 80" "sb_state g = sb_state h"
  shows "fill_pool sh g = fill_pool sh' h"
  using sbrand_bytes_cong [OF assms(3), of 128] assms(1,2) by (auto simp: fill_pool_eq intro: csprng_eqI)

lemma fill_pool_ok:
  assumes "length (sh_w sh) = 80" "sb_ok g"
  shows "\<exists>h. fill_pool sh g = Some h \<and> csprng_ok h"
  using sbrand_bytes_ok [OF assms(2), of 128] assms(1) by (simp add: fill_pool_eq csprng_ok_def sb_ok_def)

text \<open>The eight words of the digest of the seed.\<close>

definition seed_words :: "bytes \<Rightarrow> u32 list" where
  "seed_words raw = map (\<lambda>i. pack (take 4 (drop (4 * i) (sha256_spec raw)))) [0..<8]"

lemma seed_words_ne: "seed_words raw \<noteq> []"
  by (simp add: seed_words_def)

lemma MCL_RAND_seed_eq:
  "length (sh_w sh) = 80 \<Longrightarrow> raw \<noteq> [] \<Longrightarrow>
   MCL_RAND_seed sh g raw =
     fill_pool sh (fold (\<lambda>x g. sirand g x) (seed_words raw) (g\<lparr>pool_ptr := 0, ira := replicate NK 0\<rparr>))"
  by (simp add: MCL_RAND_seed_def digest_of_correct seed_words_def fold_map comp_def Let_def del: upt_rec_numeral)

lemma MCL_RAND_seed_cong:
  assumes "length (sh_w sh) = 80" "length (sh_w sh') = 80" "raw \<noteq> []"
  shows "MCL_RAND_seed sh g raw = MCL_RAND_seed sh' h raw"
  using sirand_fold_cong [OF seed_words_ne [of raw]] assms
  by (simp add: MCL_RAND_seed_eq) (rule fill_pool_cong; simp)

lemma MCL_RAND_seed_ok:
  "length (sh_w sh) = 80 \<Longrightarrow> raw \<noteq> [] \<Longrightarrow> \<exists>h. MCL_RAND_seed sh g raw = Some h \<and> csprng_ok h"
  using sirand_fold_ok [OF seed_words_ne [of raw]] by (simp add: MCL_RAND_seed_eq fill_pool_ok)

lemma MCL_RAND_byte_ok:
  assumes "length (sh_w sh) = 80" "csprng_ok g"
  shows "\<exists>h. MCL_RAND_byte sh g = Some (pool g ! pool_ptr g, h) \<and> csprng_ok h"
proof (cases "pool_ptr g = 31")
  case True
  have "sb_ok (g\<lparr>pool_ptr := 32\<rparr>)" using assms(2) by (simp add: csprng_ok_def sb_ok_def)
  from fill_pool_ok [OF assms(1) this] True show ?thesis by (auto simp: MCL_RAND_byte_def Let_def)
next
  case False
  with assms(2) show ?thesis by (auto simp: MCL_RAND_byte_def Let_def csprng_ok_def)
qed

section \<open>Properties\<close>

text \<open>
  The generator a seed gives, with a cleared record and a cleared hash context; by \<open>MCL_RAND_seed_cong\<close> any other
  would do.
\<close>

definition blank_csprng :: csprng where
  "blank_csprng = \<lparr>ira = replicate NK 0, rndptr = 0, borrow = 0, pool_ptr = 0, pool = replicate 32 0\<rparr>"

definition blank_sha :: sha256 where
  "blank_sha = \<lparr>sh_len0 = 0, sh_len1 = 0, sh_h = replicate 8 0, sh_w = replicate 80 0\<rparr>"

definition seeded :: "bytes \<Rightarrow> csprng" where
  "seeded raw = the (MCL_RAND_seed blank_sha blank_csprng raw)"

lemma seeded:
  assumes "raw \<noteq> []"
  shows "csprng_ok (seeded raw)" and "length (sh_w sh) = 80 \<Longrightarrow> MCL_RAND_seed sh g raw = Some (seeded raw)"
proof -
  have blank: "length (sh_w blank_sha) = 80" by (simp add: blank_sha_def)
  from MCL_RAND_seed_ok [OF this assms, of blank_csprng]
  obtain h where h: "MCL_RAND_seed blank_sha blank_csprng raw = Some h" "csprng_ok h" by blast
  then show "csprng_ok (seeded raw)" by (simp add: seeded_def)
  assume "length (sh_w sh) = 80"
  from MCL_RAND_seed_cong [OF this blank assms, of g blank_csprng] h(1)
  show "MCL_RAND_seed sh g raw = Some (seeded raw)" by (simp add: seeded_def)
qed

lemma initialize_csprng_run:
  fixes s :: "'a keys_scheme"
  shows "ergs s \<noteq> [] \<Longrightarrow> length (sh_w sh) = 80 \<Longrightarrow> initialize_csprng sh rng s = Ret (seeded (ergs s)) s"
  using seeded(2) [of "ergs s" sh rng]
  by (simp add: initialize_csprng_def MCL_CREATE_CSPRNG_def bind_def gets_def return_def)

text \<open>Bytes drawn one after the other, each call with some garbage \<open>shs\<close> in its hash context.\<close>

primrec draw :: "sha256 list \<Rightarrow> csprng \<Rightarrow> (bytes \<times> csprng) option" where
  "draw [] g = Some ([], g)"
| "draw (sh # shs) g =
     Option.bind (MCL_RAND_byte sh g) (\<lambda>(b, g). map_option (\<lambda>(bs, g). (b # bs, g)) (draw shs g))"

lemma draw_ok:
  "csprng_ok g \<Longrightarrow> \<forall>sh \<in> set shs. length (sh_w sh) = 80 \<Longrightarrow>
   \<exists>bs h. draw shs g = Some (bs, h) \<and> length bs = length shs \<and> csprng_ok h"
proof (induction shs arbitrary: g)
  case (Cons sh shs)
  then obtain h where "MCL_RAND_byte sh g = Some (pool g ! pool_ptr g, h)" "csprng_ok h"
    using MCL_RAND_byte_ok [of sh g] by auto
  with Cons.IH [OF this(2)] Cons.prems(2) show ?case by auto
qed simp

lemma MCL_RAND_byte_cong:
  "length (sh_w sh) = 80 \<Longrightarrow> length (sh_w sh') = 80 \<Longrightarrow> MCL_RAND_byte sh g = MCL_RAND_byte sh' g"
  using fill_pool_cong [OF _ _ refl, of sh sh'] by (simp add: MCL_RAND_byte_def Let_def)

lemma draw_cong:
  "list_all2 (\<lambda>sh sh'. length (sh_w sh) = 80 \<and> length (sh_w sh') = 80) shs shs' \<Longrightarrow> draw shs g = draw shs' g"
proof (induction arbitrary: g rule: list_all2_induct)
  case (Cons sh shs sh' shs')
  then show ?case using MCL_RAND_byte_cong [of sh sh' g] by (simp cong: Option.bind_cong)
qed simp

text \<open>
  However many bytes are drawn from a seeded generator, every access stays within the pool of 32 bytes
  and the array of 21 words, the refills included, and no draw hangs; and cleaning the generator leaves
  a well-formed one.
\<close>

lemma random_bytes_in_bounds:
  assumes "raw \<noteq> []" "length (sh_w sh) = 80" "MCL_RAND_seed sh g raw = Some h"
    and "\<forall>sh \<in> set shs. length (sh_w sh) = 80"
  shows "\<exists>bs h'. draw shs h = Some (bs, h') \<and> length bs = length shs \<and> csprng_ok h' \<and> csprng_ok (MCL_RAND_clean h')"
proof -
  have "h = seeded raw" using seeded(2) [OF assms(1,2), of g] assms(3) by simp
  with draw_ok [OF seeded(1) [OF assms(1)] assms(4)] show ?thesis
    by (auto simp: MCL_RAND_clean_def csprng_ok_def)
qed



lemma signing_needs_buffers:
  fixes s :: "'a keys_scheme"
  assumes "ergs s \<noteq> []" "length (sh_w sh) = 80"
  shows "cs = None \<or> ds = None \<or> the cs < 56 \<or> the ds < 56 \<Longrightarrow>
      sign_message_with_epsk dsa sh rng message cs ds s = Ret (- EINVAL, None) s"
    and "cs = None \<or> ds = None \<or> the cs < 32 \<or> the ds < 32 \<Longrightarrow>
      sign_message_with_essk dsa sh rng message cs ds s = Ret (- EINVAL, None) s"
  using initialize_csprng_run [OF assms]
  by (auto simp: sign_message_with_epsk_def sign_message_with_essk_def bind_def gets_def return_def split: option.splits)

end
