(* ===== verification/Trace.thy ===== *)
theory Trace
  imports Unipro
begin

text \<open>
  What the other side of the link observes: the sequence of attribute accesses and the messages of a CPort,
  read off the history of register accesses. A program is then described by what it adds to these
  logs when it returns.
\<close>

section \<open>Attribute accesses\<close>

text \<open>The words written to the control and to the data register of the attribute interface, oldest first.\<close>

fun attr_word :: "io_event \<Rightarrow> (bool \<times> u32) option" where
  "attr_word (WrReg a v) =
     (if a = AIO_UNIPRO_BASE + A2D_ATTRACS_CTRL_00 then Some (True, v)
      else if a = AIO_UNIPRO_BASE + A2D_ATTRACS_DATA_CTRL_00 then Some (False, v) else None)"
| "attr_word (RdReg a v) = None"
| "attr_word (WrReg8 a v) = None"

definition attr_log :: "io_event list \<Rightarrow> (bool \<times> u32) list" where
  "attr_log h = rev (List.map_filter attr_word h)"

lemma attr_log_Cons: "attr_log (e # h) = attr_log h @ (case attr_word e of None \<Rightarrow> [] | Some w \<Rightarrow> [w])"
  by (simp add: attr_log_def map_filter_simps split: option.split)

text \<open>An attribute to be written: its id, the value, the selector, and whether it belongs to the peer.\<close>

type_synonym attr_set = "u16 \<times> u32 \<times> u16 \<times> bool"

fun set_words :: "attr_set \<Rightarrow> (bool \<times> u32) list" where
  "set_words (a, v, sel, peer) = [(True, attr_ctrl a sel peer True), (False, v)]"

lemma poll_attr_log: "wp (poll_reg E a ok) (\<lambda>_ t. attr_log (io t) = attr_log (io s)) (\<lambda>_ _. True) s"
  unfolding poll_reg_def
  by (rule wp_loopM [where I = "\<lambda>_ t. attr_log (io t) = attr_log (io s)"])
    (auto simp: wp_simps attr_log_Cons split: sum.split)

lemma attr_access_log:
  assumes "unipro_attr_access E a v sel peer wr s = Ret r t"
  shows "attr_log (io t) = attr_log (io s) @ (True, attr_ctrl a sel peer wr) # (if wr then [(False, v)] else [])"
proof -
  have "wp (unipro_attr_access E a v sel peer wr)
     (\<lambda>_ t. attr_log (io t) = attr_log (io s) @ (True, attr_ctrl a sel peer wr) # (if wr then [(False, v)] else []))
     (\<lambda>_ _. True) s"
    unfolding unipro_attr_access_def tsb_unipro_write_def tsb_unipro_read_def
    by (cases wr) (auto simp: wp_simps attr_log_Cons AIO_UNIPRO_BASE_def intro!: wp_mono [OF poll_attr_log])
  with assms show ?thesis by (simp add: wp_def)
qed

lemma attr_write_log:
  "chip_unipro_attr_write E a v sel peer s = Ret rc t \<Longrightarrow>
   attr_log (io t) = attr_log (io s) @ set_words (a, v, sel, peer)"
  by (auto simp: chip_unipro_attr_write_def return_def dest!: attr_access_log elim!: bind_eq_RetE)

lemma attr_read_log:
  "chip_unipro_attr_read E a sel peer s = Ret r t \<Longrightarrow>
   attr_log (io t) = attr_log (io s) @ [(True, attr_ctrl a sel peer False)]"
  by (auto simp: chip_unipro_attr_read_def dest!: attr_access_log)

section \<open>Messages\<close>

text \<open>
  The messages sent on a CPort, oldest first, and the bytes of the one that is not finished: a byte written
  to the last address of the window ends the message.
\<close>

fun tx_step :: "u16 \<Rightarrow> io_event \<Rightarrow> bytes list \<times> bytes \<Rightarrow> bytes list \<times> bytes" where
  "tx_step c (WrReg8 a v) (sent, cur) =
     (if a = cport_tx_buf c + 0x1FFFF then (sent @ [cur], [])
      else if a - cport_tx_buf c < 0x20000 then (sent, cur @ [v]) else (sent, cur))"
| "tx_step c (WrReg a v) p = p"
| "tx_step c (RdReg a v) p = p"

definition tx_log :: "u16 \<Rightarrow> io_event list \<Rightarrow> bytes list \<times> bytes" where
  "tx_log c h = foldr (tx_step c) h ([], [])"

lemma tx_log_Cons: "tx_log c (e # h) = tx_step c e (tx_log c h)"
  by (simp add: tx_log_def)

lemma window_byte:
  assumes "i < 0x2000"
  shows "tx_step c (WrReg8 (cport_tx_buf c + word_of_nat i) v) (sent, cur) = (sent, cur @ [v])"
proof -
  have "unat (word_of_nat i :: u32) = i" using assms by (simp add: unat_of_nat take_bit_nat_eq_self)
  then have "(word_of_nat i :: u32) \<noteq> 0x1FFFF" "(word_of_nat i :: u32) < 0x20000"
    using assms by (auto simp: word_less_nat_alt)
  then show ?thesis by simp
qed

lemma send_bytes_log:
  "n \<le> length buf \<Longrightarrow> length buf \<le> 0x2000 \<Longrightarrow> tx_log c (io s) = (sent, cur) \<Longrightarrow>
   \<exists>ev. seqM (map (\<lambda>i. putreg8 (buf ! i) (cport_tx_buf c + word_of_nat i)) [length buf - n..<length buf]) s =
       Ret () (s\<lparr>io := ev @ io s\<rparr>) \<and>
     tx_log c (ev @ io s) = (sent, cur @ drop (length buf - n) buf)"
proof (induction n arbitrary: s cur)
  case 0
  then show ?case by (intro exI [of _ "[]"]) (simp add: skip_def return_def)
next
  case (Suc n)
  let ?i = "length buf - Suc n"
  let ?e = "WrReg8 (cport_tx_buf c + word_of_nat ?i) (buf ! ?i)"
  let ?s = "s\<lparr>io := ?e # io s\<rparr>"
  have "?i < 0x2000" using Suc.prems by simp
  from window_byte [OF this, of c "buf ! ?i" sent cur] Suc.prems(3)
  have "tx_log c (io ?s) = (sent, cur @ [buf ! ?i])" by (simp add: tx_log_Cons del: tx_step.simps)
  from Suc.IH [OF _ _ this] Suc.prems obtain ev where
    ev: "seqM (map (\<lambda>i. putreg8 (buf ! i) (cport_tx_buf c + word_of_nat i)) [length buf - n..<length buf]) ?s =
       Ret () (?s\<lparr>io := ev @ io ?s\<rparr>)"
      "tx_log c (ev @ io ?s) = (sent, cur @ [buf ! ?i] @ drop (length buf - n) buf)" by auto
  have up: "[?i..<length buf] = ?i # [length buf - n..<length buf]"
    using Suc.prems by (simp add: upt_conv_Cons Suc_diff_Suc)
  have "drop ?i buf = buf ! ?i # drop (length buf - n) buf"
    using Suc.prems by (simp add: Cons_nth_drop_Suc [symmetric] Suc_diff_Suc)
  moreover have "putreg8 (buf ! ?i) (cport_tx_buf c + word_of_nat ?i) s = Ret () ?s" by (simp add: putreg8_def)
  ultimately show ?case using ev up by (intro exI [of _ "ev @ [?e]"]) simp
qed

lemma send_tx_log:
  assumes "length buf \<le> 0x2000" "c < cport_max E" "cport_handle E c = Some h"
    and "tx_log h (io s) = (sent, [])"
  shows "\<exists>ev. chip_unipro_send E c buf s = Ret 0 (s\<lparr>io := ev @ io s\<rparr>) \<and> tx_log h (ev @ io s) = (sent @ [buf], [])"
proof -
  obtain ev where ev: "seqM (map (\<lambda>i. putreg8 (buf ! i) (cport_tx_buf h + word_of_nat i)) [0..<length buf]) s =
       Ret () (s\<lparr>io := ev @ io s\<rparr>)" "tx_log h (ev @ io s) = (sent, buf)"
    using send_bytes_log [of "length buf" buf h s sent "[]"] assms by auto
  let ?e = "WrReg8 (cport_tx_buf h + 0x1FFFF) 1"
  have "chip_unipro_send E c buf s = Ret 0 (s\<lparr>io := (?e # ev) @ io s\<rparr>)"
    using assms(1-3) ev(1) by (simp add: chip_unipro_send_def putreg8_def return_def not_le)
  with ev(2) show ?thesis by (intro exI [of _ "?e # ev"]) (simp add: tx_log_Cons)
qed

text \<open>A program that sends nothing.\<close>

definition quiet :: "'a machine_scheme \<Rightarrow> 'a machine_scheme \<Rightarrow> bool" where
  "quiet s t \<longleftrightarrow> (\<forall>c. tx_log c (io t) = tx_log c (io s))"

interpretation quiet: state_rel quiet
  by unfold_locales (auto simp: quiet_def)

lemma quiet_registers: "preserves quiet (getreg32 E a)" "preserves quiet (putreg32 v a)"
  by (auto intro!: preservesI simp: quiet_def getreg32_def putreg32_def Let_def tx_log_Cons)

lemma quiet_same_io: "(\<And>s. io (f s) = io s) \<Longrightarrow> preserves quiet (modify f)"
  by (rule quiet.pres_modify) (simp add: quiet_def)

lemmas quiet_intros = quiet_registers quiet.pres_intros

lemma quiet_poll: "preserves quiet (poll_reg E a ok)"
  unfolding poll_reg_def by (intro quiet_intros)

lemma quiet_attr:
  "preserves quiet (chip_unipro_attr_read E a sel peer)" "preserves quiet (chip_unipro_attr_write E a v sel peer)"
  unfolding chip_unipro_attr_read_def chip_unipro_attr_write_def unipro_attr_access_def tsb_unipro_read_def
    tsb_unipro_write_def
  by (intro quiet_intros quiet_poll)+

end
