(* ===== verification/Fakesvc.thy ===== *)
theory Fakesvc
  imports Trace
begin

text \<open>
  The stand-in for the supervisory controller and the switch in the firmware server
  (\<^verbatim>\<open>apps/gbboot_server/src/fake_svc.c\<close>). With two bridges wired to each other there is no switch; its operations
  become writes to the attributes of the local bridge or of its peer. The theory shows that
  connecting two CPorts is a fixed script of attribute writes that stops at the first failure and enables
  the connection last.
\<close>

unbundle bit_operations_syntax

section \<open>Constants and data\<close>

abbreviation (input) "SWITCH_UNIPORT_MAX \<equiv> 14 :: u8"
abbreviation (input) "SWITCH_PORT_ID \<equiv> 14 :: u8"
abbreviation (input) "CPORT_DEFAULT_TOKENVALUE \<equiv> 32 :: u32"
abbreviation (input) "CPORT_DEFAULT_T_PROTOCOLID \<equiv> 0 :: u32"
abbreviation (input) "CPORT_DEFAULT_TSB_MAXSEGMENTCONFIG \<equiv> 0x118 :: u32"
abbreviation (input) "CPORT_FLAGS_E2EFC \<equiv> 1 :: u8"
abbreviation (input) "CPORT_FLAGS_CSD_N \<equiv> 2 :: u8"
abbreviation (input) "CPORT_MODE_APPLICATION \<equiv> 1 :: u32"
abbreviation (input) "UNIPRO_SELINDEX_NULL \<equiv> 0 :: u16"
abbreviation (input) "N_DEVICEID \<equiv> 0x3000 :: u16"
abbreviation (input) "N_DEVICEID_VALID \<equiv> 0x3001 :: u16"
abbreviation (input) "T_PEERDEVICEID \<equiv> 0x4021 :: u16"
abbreviation (input) "T_PEERCPORTID \<equiv> 0x4022 :: u16"
abbreviation (input) "T_TRAFFICCLASS \<equiv> 0x4023 :: u16"
abbreviation (input) "T_PROTOCOLID \<equiv> 0x4024 :: u16"
abbreviation (input) "T_CPORTFLAGS \<equiv> 0x4025 :: u16"
abbreviation (input) "T_TXTOKENVALUE \<equiv> 0x4026 :: u16"
abbreviation (input) "T_RXTOKENVALUE \<equiv> 0x4027 :: u16"
abbreviation (input) "T_CPORTMODE \<equiv> 0x402b :: u16"
abbreviation (input) "TSB_MAXSEGMENTCONFIG \<equiv> 0xd089 :: u16"
abbreviation (input) "ARA_MAIL_RESET \<equiv> 0 :: u32"
abbreviation (input) "DME_POWERMODEIND \<equiv> 0xd040 :: u16"

record unipro_connection =
  port_id0 :: u8
  device_id0 :: u8
  cport_id0 :: u16
  port_id1 :: u8
  device_id1 :: u8
  cport_id1 :: u16
  tc :: u8
  flags :: u8
  state :: u8

text \<open>The check after each call: \<^verbatim>\<open>if (rc) return rc;\<close>.\<close>

definition ok_then :: "('s, int) prog \<Rightarrow> ('s, int) prog \<Rightarrow> ('s, int) prog" where
  "ok_then m k = bind m (\<lambda>rc. if rc \<noteq> 0 then return rc else k)"

section \<open>Operations\<close>

definition svc_wait_for_peer_ready :: "env \<Rightarrow> ('a machine_scheme, int) prog" where
  "svc_wait_for_peer_ready E =
     loopM (\<lambda>_.
       bind (read_mailbox E) (\<lambda>(rc, val).
       if rc \<noteq> 0 then return (Inr (-1))
       else if val \<noteq> ARA_MAIL_RESET then bind (ack_mailbox E (ucast val)) (\<lambda>_. return (Inr 0))
       else return (Inl ()))) ()"

definition switch_dme_set :: "env \<Rightarrow> u8 \<Rightarrow> u16 \<Rightarrow> u16 \<Rightarrow> u32 \<Rightarrow> ('a machine_scheme, int) prog" where
  "switch_dme_set E portid attrid select_index attr_value =
     chip_unipro_attr_write E attrid attr_value select_index False"

definition switch_dme_get :: "env \<Rightarrow> u8 \<Rightarrow> u16 \<Rightarrow> u16 \<Rightarrow> ('a machine_scheme, int \<times> u32) prog" where
  "switch_dme_get E portid attrid select_index = chip_unipro_attr_read E attrid select_index False"

definition switch_dme_peer_set :: "env \<Rightarrow> u8 \<Rightarrow> u16 \<Rightarrow> u16 \<Rightarrow> u32 \<Rightarrow> ('a machine_scheme, int) prog" where
  "switch_dme_peer_set E portid attrid select_index attr_value =
     chip_unipro_attr_write E attrid attr_value select_index True"

text \<open>The function for the peer passes 0 for \<^verbatim>\<open>peer\<close> as well.\<close>

definition switch_dme_peer_get :: "env \<Rightarrow> u8 \<Rightarrow> u16 \<Rightarrow> u16 \<Rightarrow> ('a machine_scheme, int \<times> u32) prog" where
  "switch_dme_peer_get E portid attrid select_index = chip_unipro_attr_read E attrid select_index False"

definition switch_set_port_l4attr :: "env \<Rightarrow> u8 \<Rightarrow> u16 \<Rightarrow> u16 \<Rightarrow> u32 \<Rightarrow> ('a machine_scheme, int) prog" where
  "switch_set_port_l4attr E portid attrid selector val =
     (if portid = SWITCH_PORT_ID then switch_dme_set E portid attrid selector val
      else switch_dme_peer_set E portid attrid selector val)"

definition switch_get_port_l4attr :: "env \<Rightarrow> u8 \<Rightarrow> u16 \<Rightarrow> u16 \<Rightarrow> ('a machine_scheme, int \<times> u32) prog" where
  "switch_get_port_l4attr E portid attrid selector =
     (if portid = SWITCH_PORT_ID then switch_dme_get E portid attrid selector
      else switch_dme_peer_get E portid attrid selector)"

definition switch_set_pair_attr ::
    "env \<Rightarrow> unipro_connection \<Rightarrow> u16 \<Rightarrow> u32 \<Rightarrow> u32 \<Rightarrow> ('a machine_scheme, int) prog" where
  "switch_set_pair_attr E c attrid val0 val1 =
     ok_then (switch_set_port_l4attr E (port_id0 c) attrid (cport_id0 c) val0)
    (ok_then (switch_set_port_l4attr E (port_id1 c) attrid (cport_id1 c) val1)
    (return 0))"

text \<open>The exchange of the buffer sizes, which is needed with flow control or with discarding.\<close>

definition match_buffer_space :: "env \<Rightarrow> unipro_connection \<Rightarrow> ('a machine_scheme, int) prog" where
  "match_buffer_space E c =
     bind (switch_get_port_l4attr E (port_id0 c) T_LOCALBUFFERSPACE (cport_id0 c)) (\<lambda>(rc, cport0_local).
     if rc \<noteq> 0 then return rc
     else
       bind (switch_get_port_l4attr E (port_id1 c) T_LOCALBUFFERSPACE (cport_id1 c)) (\<lambda>(rc, cport1_local).
       if rc \<noteq> 0 then return rc
       else switch_set_pair_attr E c T_LOCALBUFFERSPACE cport0_local cport1_local))"

definition switch_cport_connect :: "env \<Rightarrow> unipro_connection \<Rightarrow> ('a machine_scheme, int) prog" where
  "switch_cport_connect E c =
     (let e2efc_enabled = flags c AND CPORT_FLAGS_E2EFC \<noteq> 0;
          csd_enabled = flags c AND CPORT_FLAGS_CSD_N = 0
      in ok_then (switch_set_pair_attr E c T_CONNECTIONSTATE 0 0)
        (ok_then (switch_set_pair_attr E c T_PEERDEVICEID (ucast (device_id1 c)) (ucast (device_id0 c)))
        (ok_then (switch_set_pair_attr E c T_PEERCPORTID (ucast (cport_id1 c)) (ucast (cport_id0 c)))
        (ok_then (switch_set_pair_attr E c T_TRAFFICCLASS (ucast (tc c)) (ucast (tc c)))
        (ok_then (switch_set_pair_attr E c T_PROTOCOLID CPORT_DEFAULT_T_PROTOCOLID CPORT_DEFAULT_T_PROTOCOLID)
        (ok_then (switch_set_pair_attr E c T_TXTOKENVALUE CPORT_DEFAULT_TOKENVALUE CPORT_DEFAULT_TOKENVALUE)
        (ok_then (switch_set_pair_attr E c T_RXTOKENVALUE CPORT_DEFAULT_TOKENVALUE CPORT_DEFAULT_TOKENVALUE)
        (ok_then (switch_set_pair_attr E c T_CPORTFLAGS (ucast (flags c)) (ucast (flags c)))
        (ok_then (if e2efc_enabled \<or> \<not> e2efc_enabled \<and> csd_enabled then match_buffer_space E c else return 0)
        (ok_then (switch_set_pair_attr E c T_CPORTMODE CPORT_MODE_APPLICATION CPORT_MODE_APPLICATION)
        (ok_then (switch_set_pair_attr E c T_CREDITSTOSEND 0 0)
        (ok_then (switch_set_pair_attr E c TSB_MAXSEGMENTCONFIG CPORT_DEFAULT_TSB_MAXSEGMENTCONFIG
                    CPORT_DEFAULT_TSB_MAXSEGMENTCONFIG)
        (ok_then (switch_set_pair_attr E c T_CONNECTIONSTATE 1 1)
        (return 0))))))))))))))"

definition switch_cport_disconnect :: "env \<Rightarrow> u8 \<Rightarrow> u8 \<Rightarrow> u8 \<Rightarrow> u8 \<Rightarrow> ('a machine_scheme, int) prog" where
  "switch_cport_disconnect E port0 cport0 port1 cport1 =
     bind (switch_dme_peer_set E port0 T_CONNECTIONSTATE (ucast cport0) 0) (\<lambda>rc0.
     bind (switch_dme_peer_set E port1 T_CONNECTIONSTATE (ucast cport1) 0) (\<lambda>rc1.
     return (if rc0 \<noteq> 0 \<or> rc1 \<noteq> 0 then 1 else 0)))"

definition switch_if_dev_id_set :: "env \<Rightarrow> u8 \<Rightarrow> u8 \<Rightarrow> ('a machine_scheme, int) prog" where
  "switch_if_dev_id_set E port_id dev_id =
     (if port_id \<ge> SWITCH_UNIPORT_MAX then return (-1)
      else
        ok_then (switch_dme_peer_set E port_id N_DEVICEID UNIPRO_SELINDEX_NULL (ucast dev_id))
       (ok_then (switch_dme_peer_set E port_id N_DEVICEID_VALID UNIPRO_SELINDEX_NULL 1)
       (return 0)))"

definition switch_set_local_dev_id :: "env \<Rightarrow> u8 \<Rightarrow> u8 \<Rightarrow> ('a machine_scheme, int) prog" where
  "switch_set_local_dev_id E port_id dev_id =
     (if port_id \<ge> SWITCH_UNIPORT_MAX then return (-1)
      else
        ok_then (switch_dme_set E port_id N_DEVICEID UNIPRO_SELINDEX_NULL (ucast dev_id))
       (ok_then (switch_dme_set E port_id N_DEVICEID_VALID UNIPRO_SELINDEX_NULL 1)
       (return 0)))"

text \<open>
  The change of gear: the power mode attributes in the order of the code, with their results ignored, then the wait for
  the indication. Every outcome but a local change ends in an endless loop.
\<close>

definition gear_attrs :: "u32 \<Rightarrow> u32 \<Rightarrow> u32 \<Rightarrow> u32 \<Rightarrow> u32 \<Rightarrow> (u16 \<times> u32) list" where
  "gear_attrs gear termination hsseries num_of_lanes powermode =
     [(0x1568, gear), (0x1569, termination), (0x156a, hsseries), (0x1560, num_of_lanes),
      (0x1583, gear), (0x1584, termination), (0x1580, num_of_lanes),
      (0xd041, 0x1FFF), (0xd042, 0xFFFF), (0xd043, 0x7FFF), (0xd044, 0x1FFF), (0xd045, 0xFFFF), (0xd046, 0x7FFF),
      (0x15b0, 0x1FFF), (0x15b1, 0xFFFF), (0x15b2, 0x7FFF), (0x15b3, 0x1FFF), (0x15b4, 0xFFFF), (0x15b5, 0x7FFF),
      (0x1571, powermode OR push_bit 4 powermode)]"

definition gear_wait :: "env \<Rightarrow> unit \<Rightarrow> ('a machine_scheme, unit + unit) prog" where
  "gear_wait E = (\<lambda>_.
     bind (chip_unipro_attr_read E DME_POWERMODEIND UNIPRO_SELINDEX_NULL False) (\<lambda>(rc, val).
     if val = 2 then return (Inr ())
     else if val = 0 \<or> val = 4 then (if rc = 0 then return (Inl ()) else stop_with Hung)
     else stop_with Hung))"

definition gear_write :: "env \<Rightarrow> u16 \<times> u32 \<Rightarrow> ('a machine_scheme, unit) prog" where
  "gear_write E = (\<lambda>(a, v). bind (chip_unipro_attr_write E a v UNIPRO_SELINDEX_NULL False) (\<lambda>_. skip))"

definition switch_gear_change :: "env \<Rightarrow> u32 \<Rightarrow> u32 \<Rightarrow> u32 \<Rightarrow> u32 \<Rightarrow> u32 \<Rightarrow> ('a machine_scheme, unit) prog" where
  "switch_gear_change E gear termination hsseries num_of_lanes powermode =
     bind (seqM (map (gear_write E) (gear_attrs gear termination hsseries num_of_lanes powermode))) (\<lambda>_.
     loopM (gear_wait E) ())"

section \<open>Scripts of attribute writes\<close>

text \<open>Writing a list of attributes up to the first failure.\<close>

primrec set_attrs :: "env \<Rightarrow> attr_set list \<Rightarrow> ('a machine_scheme, int) prog" where
  "set_attrs E [] = return 0"
| "set_attrs E (w # ws) =
     (case w of (a, v, sel, peer) \<Rightarrow> ok_then (chip_unipro_attr_write E a v sel peer) (set_attrs E ws))"

lemma ok_then_assoc: "ok_then (ok_then m k) l = ok_then m (ok_then k l)"
  by (auto simp: ok_then_def bind_def return_def fun_eq_iff split: outcome.splits)

lemma ok_then_return [simp]: "ok_then m (return 0) = m"
  by (auto simp: ok_then_def bind_def return_def fun_eq_iff split: outcome.splits)

lemma return_ok_then [simp]: "ok_then (return 0) k = k"
  by (simp add: ok_then_def)

lemma set_attrs_append: "set_attrs E (ws @ vs) = ok_then (set_attrs E ws) (set_attrs E vs)"
  by (induction ws) (auto simp: ok_then_assoc)

text \<open>How far a script got: all the way if it succeeded, and up to the failing write if not.\<close>

lemma set_attrs_log:
  "set_attrs E ws s = Ret rc t \<Longrightarrow>
   \<exists>n \<le> length ws. attr_log (io t) = attr_log (io s) @ concat (map set_words (take n ws)) \<and>
     (if rc = 0 then n = length ws else 0 < n)"
proof (induction ws arbitrary: s)
  case Nil
  then show ?case by (simp add: return_def)
next
  case (Cons w ws)
  obtain a v sel peer where w: "w = (a, v, sel, peer)" by (cases w)
  with Cons.prems obtain r u where u: "chip_unipro_attr_write E a v sel peer s = Ret r u"
    and rest: "(if r \<noteq> 0 then return r else set_attrs E ws) u = Ret rc t"
    by (auto simp: ok_then_def elim!: bind_eq_RetE)
  from u have log: "attr_log (io u) = attr_log (io s) @ set_words w" unfolding w by (rule attr_write_log)
  show ?case
  proof (cases "r = 0")
    case True
    with rest Cons.IH [of u] obtain n where "n \<le> length ws" "if rc = 0 then n = length ws else 0 < n"
      "attr_log (io t) = attr_log (io u) @ concat (map set_words (take n ws))" by auto
    with log show ?thesis by (intro exI [of _ "Suc n"]) (auto split: if_splits)
  next
    case False
    with rest log show ?thesis by (intro exI [of _ 1]) (simp add: return_def)
  qed
qed

text \<open>Which attributes a pair is, and the whole connection without the exchange of buffer sizes.\<close>

definition pair_attr :: "unipro_connection \<Rightarrow> u16 \<times> u32 \<times> u32 \<Rightarrow> attr_set list" where
  "pair_attr c = (\<lambda>(a, v0, v1).
     [(a, v0, cport_id0 c, port_id0 c \<noteq> SWITCH_PORT_ID), (a, v1, cport_id1 c, port_id1 c \<noteq> SWITCH_PORT_ID)])"

definition connect_script :: "unipro_connection \<Rightarrow> attr_set list" where
  "connect_script c = concat (map (pair_attr c)
     [(T_CONNECTIONSTATE, 0, 0),
      (T_PEERDEVICEID, ucast (device_id1 c), ucast (device_id0 c)),
      (T_PEERCPORTID, ucast (cport_id1 c), ucast (cport_id0 c)),
      (T_TRAFFICCLASS, ucast (tc c), ucast (tc c)),
      (T_PROTOCOLID, 0, 0), (T_TXTOKENVALUE, 32, 32), (T_RXTOKENVALUE, 32, 32),
      (T_CPORTFLAGS, ucast (flags c), ucast (flags c)),
      (T_CPORTMODE, 1, 1), (T_CREDITSTOSEND, 0, 0), (TSB_MAXSEGMENTCONFIG, 0x118, 0x118),
      (T_CONNECTIONSTATE, 1, 1)])"

lemma pair_is_script: "switch_set_pair_attr E c a v0 v1 = set_attrs E (pair_attr c (a, v0, v1))"
  by (simp add: switch_set_pair_attr_def pair_attr_def switch_set_port_l4attr_def switch_dme_set_def switch_dme_peer_set_def)

lemma connect_is_script:
  assumes "flags c AND CPORT_FLAGS_E2EFC = 0" "flags c AND CPORT_FLAGS_CSD_N \<noteq> 0"
  shows "switch_cport_connect E c = set_attrs E (connect_script c)"
  using assms
  by (simp add: switch_cport_connect_def connect_script_def pair_is_script set_attrs_append del: set_attrs.simps(2))

section \<open>Properties\<close>


text \<open>A bridge that completes every attribute access at once.\<close>

definition willing_env :: env where
  "willing_env = es3_env (\<lambda>h a. if a = AIO_UNIPRO_BASE + A2D_ATTRACS_INT_BEF then 1 else 0)"

lemma willing_poll: "poll_reg willing_env (AIO_UNIPRO_BASE + A2D_ATTRACS_INT_BEF) (\<lambda>v. v \<noteq> 0) s =
  Ret () (s\<lparr>io := RdReg (AIO_UNIPRO_BASE + A2D_ATTRACS_INT_BEF) 1 # io s\<rparr>)"
  unfolding poll_reg_def by (rule loopM_Inr) (simp add: getreg32_def prog_defs willing_env_def es3_env_def)

lemma willing_write: "\<exists>t. chip_unipro_attr_write willing_env a v sel peer s = Ret 0 t"
  by (simp add: chip_unipro_attr_write_def unipro_attr_access_def tsb_unipro_write_def tsb_unipro_read_def putreg32_def
      getreg32_def willing_poll prog_defs)
    (simp add: willing_env_def es3_env_def AIO_UNIPRO_BASE_def return_def)

lemma willing_script: "\<exists>t. set_attrs willing_env ws s = Ret 0 t"
proof (induction ws arbitrary: s)
  case (Cons w ws)
  obtain a v sel peer where w: "w = (a, v, sel, peer)" by (cases w)
  obtain u where "chip_unipro_attr_write willing_env a v sel peer s = Ret 0 u" using willing_write by blast
  with w Cons.IH [of u] show ?case by (simp add: ok_then_def)
qed (simp add: return_def)


text \<open>
  The port number with which the firmware server calls \<^verbatim>\<open>switch_set_local_dev_id\<close> is refused, so that the
  server never gets its device id.
\<close>

lemma local_dev_id_refused: "switch_set_local_dev_id E SWITCH_PORT_ID dev_id s = Ret (-1) s"
  by (simp add: switch_set_local_dev_id_def return_def)

text \<open>
  A change of gear that returns has written all attributes, whether the writes succeeded or not, and has then
  read nothing but the indication.
\<close>

lemma gear_writes_log:
  "seqM (map (gear_write E) ws) s = Ret () t \<Longrightarrow>
   attr_log (io t) = attr_log (io s) @ concat (map (\<lambda>(a, v). set_words (a, v, 0, False)) ws)"
proof (induction ws arbitrary: s)
  case (Cons w ws)
  obtain a v where w: "w = (a, v)" by (cases w)
  from Cons.prems obtain u where u: "gear_write E w s = Ret () u" "seqM (map (gear_write E) ws) u = Ret () t"
    by (auto elim!: bind_eq_RetE)
  have "attr_log (io u) = attr_log (io s) @ set_words (a, v, 0, False)"
    using u(1) by (auto simp: gear_write_def w skip_def return_def elim!: bind_eq_RetE dest!: attr_write_log)
  with Cons.IH [OF u(2)] w show ?case by simp
qed (simp add: skip_def return_def)

lemma gear_wait_log:
  fixes s :: "'a machine_scheme"
  shows "loopM (gear_wait E) () s = Ret () t \<Longrightarrow>
   \<exists>n. attr_log (io t) = attr_log (io s) @ replicate n (True, attr_ctrl DME_POWERMODEIND 0 False False)"
proof -
  let ?I = "\<lambda>t :: 'a machine_scheme. \<exists>n. attr_log (io t) = attr_log (io s) @ replicate n (True, attr_ctrl DME_POWERMODEIND 0 False False)"
  have step: "?I u'" if "?I u" "chip_unipro_attr_read E DME_POWERMODEIND 0 False u = Ret r u'"
    for r and u u' :: "'a machine_scheme"
    using that attr_read_log [OF that(2)] by (metis append.assoc replicate_append_same replicate_Suc)
  have "wp (loopM (gear_wait E) ()) (\<lambda>_. ?I) (\<lambda>_ _. True) s"
  proof (rule wp_loopM [where I = "\<lambda>_. ?I"])
    show "?I s" by (rule exI [of _ 0]) simp
    show "wp (gear_wait E a) (\<lambda>r s'. case r of Inl a' \<Rightarrow> ?I s' | Inr b \<Rightarrow> ?I s') (\<lambda>_ _. True) u"
      if "?I u" for a and u :: "'a machine_scheme"
      unfolding gear_wait_def wp_bind
      by (rule wp_mono [OF wp_trivI [where Q = "\<lambda>_ _. True" and K = "\<lambda>_ _. True"]])
        (use step [OF that] in \<open>auto simp: wp_simps split: prod.splits\<close>)
  qed simp
  then show "loopM (gear_wait E) () s = Ret () t \<Longrightarrow> ?I t" by (rule wp_RetD)
qed

lemma gear_change_log:
  assumes "switch_gear_change E g te hs n p s = Ret () t"
  shows "\<exists>k. attr_log (io t) = attr_log (io s) @ concat (map (\<lambda>(a, v). set_words (a, v, 0, False)) (gear_attrs g te hs n p)) @
     replicate k (True, attr_ctrl DME_POWERMODEIND 0 False False)"
  using assms unfolding switch_gear_change_def
  by (elim bind_eq_RetE) (fastforce dest!: gear_writes_log gear_wait_log)

lemma fakesvc_only_io:
  "preserves only_io (svc_wait_for_peer_ready E)" "preserves only_io (set_attrs E ws)"
  "preserves only_io (switch_if_dev_id_set E p d)" "preserves only_io (switch_set_local_dev_id E p d)"
proof -
  show "preserves only_io (svc_wait_for_peer_ready E)"
    unfolding svc_wait_for_peer_ready_def by (intro io_intros mailbox_only_io)
  show "preserves only_io (set_attrs E ws)"
    by (induction ws) (auto simp: ok_then_def intro!: io_intros attr_write_only_io)
  show "preserves only_io (switch_if_dev_id_set E p d)" "preserves only_io (switch_set_local_dev_id E p d)"
    unfolding switch_if_dev_id_set_def switch_set_local_dev_id_def ok_then_def switch_dme_peer_set_def switch_dme_set_def
    by (intro io_intros attr_write_only_io)+
qed

end
