(* ===== verification/Server.thy ===== *)
theory Server
  imports Greybus Fakesvc
begin

text \<open>
  The firmware server (\<^verbatim>\<open>apps/gbboot_server/src/start.c\<close>), the counterpart of the download of \<open>Gbboot\<close>: a second bridge
  that plays the part of the application processor and serves a firmware image from its own flash. The
  theory shows that the answers to a sequence of requests, as they appear on the link, are the
  consecutive blocks of the element in flash.
\<close>

unbundle bit_operations_syntax

section \<open>State and handlers\<close>

abbreviation (input) "LOCAL_DEV_ID \<equiv> 0xA :: u8"
abbreviation (input) "PEER_DEV_ID \<equiv> 0xB :: u8"
abbreviation (input) "PEER_PORT_ID \<equiv> 1 :: u8"
abbreviation (input) "SERVER_CPORT \<equiv> 1 :: u32"
abbreviation (input) "GB_OP_UNKNOWN_ERROR \<equiv> 0xFE :: u8"
abbreviation (input) "FORCE_UNIPRO_BOOT \<equiv> 1 :: u32"

record server = ffff +
  image_download_finished :: bool
  stage_to_load :: int

definition control_conn :: unipro_connection where
  "control_conn = \<lparr>port_id0 = SWITCH_PORT_ID, device_id0 = LOCAL_DEV_ID, cport_id0 = 0,
     port_id1 = PEER_PORT_ID, device_id1 = PEER_DEV_ID, cport_id1 = 0, tc = 0, flags = 6, state = 0\<rparr>"

definition data_conn :: unipro_connection where
  "data_conn = \<lparr>port_id0 = SWITCH_PORT_ID, device_id0 = LOCAL_DEV_ID, cport_id0 = 1,
     port_id1 = PEER_PORT_ID, device_id1 = PEER_DEV_ID, cport_id1 = 1, tc = 0, flags = 6, state = 0\<rparr>"

text \<open>The handler of the control CPort prints the message.\<close>

definition server_control_cport_handler :: "u32 \<Rightarrow> bytes \<Rightarrow> nat \<Rightarrow> ('a server_scheme, int) prog" where
  "server_control_cport_handler cportid data len =
     bind (assert_or_fault (len \<le> length data)) (\<lambda>_. return 0)"

definition poke_mailbox :: "env \<Rightarrow> u32 \<Rightarrow> bool \<Rightarrow> ('a machine_scheme, int) prog" where
  "poke_mailbox E val peer = chip_unipro_attr_write E ARA_MAILBOX val 0 peer"

definition wait_for_mailbox_ack :: "env \<Rightarrow> u32 \<Rightarrow> bool \<Rightarrow> ('a machine_scheme, int) prog" where
  "wait_for_mailbox_ack E wval peer =
     bind (loopM (\<lambda>_. bind (chip_unipro_attr_read E ARA_MBOX_ACK_ATTR 0 peer) (\<lambda>(rc, val).
             return (if rc = 0 \<and> val \<noteq> wval then Inl () else Inr rc))) ()) (\<lambda>rc.
     if rc \<noteq> 0 then return rc
     else bind (chip_unipro_attr_write E ARA_MBOX_ACK_ATTR 0 0 peer) (\<lambda>_. return 0))"

definition create_connection :: "env \<Rightarrow> unipro_connection \<Rightarrow> ('a machine_scheme, int) prog" where
  "create_connection E c =
     bind (switch_cport_connect E c) (\<lambda>_.
     bind (poke_mailbox E (ucast (cport_id0 c) + 1) False) (\<lambda>_.
     bind (chip_unipro_init_cport E (ucast (cport_id0 c))) (\<lambda>_.
     bind (chip_unipro_recv_cport E) (\<lambda>_.
     bind (wait_for_mailbox_ack E (ucast (cport_id0 c) + 1) False) (\<lambda>_.
     bind (write_mailbox E (ucast (cport_id1 c) + 1)) (\<lambda>_.
     return 0))))))"

text \<open>A request on the control CPort and the wait for its answer.\<close>

definition control_request :: "env \<Rightarrow> u8 \<Rightarrow> bytes \<Rightarrow> ('a server_scheme, unit) prog" where
  "control_request E ty payload =
     bind (greybus_send_request E CONTROL_CPORT 1 ty payload) (\<lambda>_.
     bind (chip_unipro_receive E CONTROL_CPORT (Some server_control_cport_handler) True) (\<lambda>_. skip))"

definition gb_control :: "env \<Rightarrow> ('a server_scheme, int) prog" where
  "gb_control E =
     bind (control_request E 1 [0, 1]) (\<lambda>_.
     bind (control_request E 2 [0, 1]) (\<lambda>_.
     bind (control_request E 3 []) (\<lambda>_.
     bind (control_request E 4 []) (\<lambda>_.
     bind (create_connection E data_conn) (\<lambda>_.
     bind (control_request E 5 (u16_bytes (cport_id1 data_conn))) (\<lambda>_.
     return 0))))))"

text \<open>
  When the element is not found, \<^verbatim>\<open>size\<close> is 0 or still holds what was on the stack; \<open>junk\<close> stands for it. The
  element type is one less than the stage number of the request.
\<close>

definition server_get_firmware_size :: "env \<Rightarrow> u32 \<Rightarrow> u32 \<Rightarrow> bytes \<Rightarrow> ('a server_scheme, int) prog" where
  "server_get_firmware_size E junk cportid buf =
     bind data_load_spi_init (\<lambda>_.
     bind (assert_or_fault (8 < length buf)) (\<lambda>_.
     bind (modify (\<lambda>s. s\<lparr>stage_to_load := uint (buf ! 8) - 1\<rparr>)) (\<lambda>_.
     bind (gets stage_to_load) (\<lambda>stage.
     bind (locate_ffff_element_on_storage E (spi_ops E) (word_of_int stage)) (\<lambda>(rc, len).
     greybus_op_response E cportid (op_header_of buf) (if rc = 0 then GB_OP_SUCCESS else GB_OP_UNKNOWN_ERROR)
       (u32_bytes (if rc = 0 then len else junk)))))))"

text \<open>
  The block is loaded from the current position of the flash; the offset of the request is not used. \<open>junk\<close> is
  what the array held, and the controller must not deliver more than fits.
\<close>

definition server_get_firmware :: "env \<Rightarrow> bytes \<Rightarrow> u32 \<Rightarrow> bytes \<Rightarrow> ('a server_scheme, int) prog" where
  "server_get_firmware E junk cportid buf =
     bind (assert_or_fault (16 \<le> length buf)) (\<lambda>_.
     let size = get_u32 buf 12
     in bind (data_load_spi_load E size False) (\<lambda>(rc, stored).
        bind (assert_or_fault (length stored \<le> unat size)) (\<lambda>_.
        greybus_op_response E cportid (op_header_of buf) (if rc = 0 then GB_OP_SUCCESS else GB_OP_UNKNOWN_ERROR)
          (stored @ take (unat size - length stored) (drop (length stored) junk)))))"

definition server_ready_to_boot :: "env \<Rightarrow> u32 \<Rightarrow> bytes \<Rightarrow> ('a server_scheme, int) prog" where
  "server_ready_to_boot E cportid buf =
     bind (assert_or_fault (8 < length buf)) (\<lambda>_.
     bind (modify (\<lambda>s. s\<lparr>image_download_finished := True\<rparr>)) (\<lambda>_.
     greybus_op_response E cportid (op_header_of buf)
       (if buf ! 8 \<noteq> 0 then GB_OP_SUCCESS else GB_OP_UNKNOWN_ERROR) []))"

definition server_cport_handler ::
    "env \<Rightarrow> u32 \<times> bytes \<Rightarrow> u32 \<Rightarrow> bytes \<Rightarrow> nat \<Rightarrow> ('a server_scheme, int) prog" where
  "server_cport_handler E junk cportid data len =
     bind (assert_or_fault (len \<le> length data)) (\<lambda>_.
     if len < 8 then return (-1)
     else
       (let ty = op_type (op_header_of data)
        in if ty = 2 then server_get_firmware_size E (fst junk) cportid data
           else if ty = 3 then server_get_firmware E (snd junk) cportid data
           else if ty = 4 then server_ready_to_boot E cportid data
           else return 0))"

section \<open>The main program\<close>

definition server_receive :: "env \<Rightarrow> u32 \<times> bytes \<Rightarrow> ('a server_scheme, int) prog" where
  "server_receive E junk = chip_unipro_receive E SERVER_CPORT (Some (server_cport_handler E junk)) True"

definition gbboot_process :: "env \<Rightarrow> u32 \<times> bytes \<Rightarrow> ('a server_scheme, int) prog" where
  "gbboot_process E junk =
     bind (greybus_send_request E SERVER_CPORT 1 1 [0, 1]) (\<lambda>_.
     bind (server_receive E junk) (\<lambda>_.
     bind (greybus_send_request E SERVER_CPORT 1 5 []) (\<lambda>_.
     bind (server_receive E junk) (\<lambda>_.
     bind (modify (\<lambda>s. s\<lparr>image_download_finished := False\<rparr>)) (\<lambda>_.
     bind (loopM (\<lambda>_.
       bind (gets image_download_finished) (\<lambda>fin.
       if fin then return (Inr ()) else bind (server_receive E junk) (\<lambda>_. return (Inl ())))) ()) (\<lambda>_.
     return 0))))))"

definition server_loop :: "env \<Rightarrow> u32 \<times> bytes \<Rightarrow> ('a server_scheme, unit) prog" where
  "server_loop E junk =
     bind (chip_unipro_init E) (\<lambda>_.
     bind (switch_set_local_dev_id E SWITCH_PORT_ID LOCAL_DEV_ID) (\<lambda>_.
     bind tsb_reset_before_ready (\<lambda>_.
     bind (svc_wait_for_peer_ready E) (\<lambda>rc.
     if rc \<noteq> 0 then skip
     else
       bind (switch_if_dev_id_set E PEER_PORT_ID PEER_DEV_ID) (\<lambda>_.
       bind (create_connection E control_conn) (\<lambda>_.
       bind (gb_control E) (\<lambda>_.
       bind (gbboot_process E junk) (\<lambda>_. skip))))))))"

definition server_main :: "env \<Rightarrow> u32 \<times> bytes \<Rightarrow> ('a server_scheme, unit) prog" where
  "server_main E junk =
     bind chip_init (\<lambda>_.
     bind (init_last_error E) (\<lambda>_.
     bind (chip_wait_for_link_up E) (\<lambda>_.
     bind (chip_unipro_attr_write E DME_ARA_BOOT_CONTROL FORCE_UNIPRO_BOOT 0 True) (\<lambda>_.
     loopM (\<lambda>_. bind (server_loop E junk) (\<lambda>_. return (Inl ()))) ()))))"

section \<open>Serving blocks\<close>

lemma quiet_spi_load: "preserves quiet (data_load_spi_load E len False)"
  unfolding data_load_spi_load_def spi_start_def spi_receive_def spi_frame_def spi_trailing_def
  by (simp only: if_False) (intro quiet_intros quiet_same_io; simp)

text \<open>What a response looks like on the link.\<close>

lemma op_response_log:
  assumes "length payload \<le> 0x1FF8" "1 < cport_max E" "tx_log 1 (io s) = (sent, [])"
  shows "\<exists>ev. greybus_op_response E SERVER_CPORT op status payload s = Ret 0 (s\<lparr>io := ev @ io s\<rparr>) \<and>
    tx_log 1 (ev @ io s) = (sent @ [gb_message (op_id op) (op_type op OR GB_TYPE_RESPONSE) status payload], [])"
proof -
  have "cport_handle E SERVER_CPORT = Some 1"
    using assms(2) by (auto simp: cport_handle_def not_le)
  moreover have "unat (word_of_nat (length payload) :: u16) = length payload"
    using assms(1) by (simp add: unat_of_nat take_bit_nat_eq_self)
  moreover have "length (gb_message (op_id op) (op_type op OR GB_TYPE_RESPONSE) status payload) \<le> 0x2000"
    using assms(1) by (simp add: gb_message_def op_header_bytes_def)
  ultimately show ?thesis
    using send_tx_log [of _ SERVER_CPORT E 1 s sent] assms(2,3)
    by (simp add: greybus_op_response_def greybus_send_message_def)
qed

text \<open>Handling the messages of a list of receive buffers one after the other.\<close>

primrec serve :: "env \<Rightarrow> u32 \<times> bytes \<Rightarrow> bytes list \<Rightarrow> ('a server_scheme, unit) prog" where
  "serve E junk [] = skip"
| "serve E junk (buf # bufs) =
     bind (server_cport_handler E junk SERVER_CPORT buf (length buf)) (\<lambda>_. serve E junk bufs)"

text \<open>A request for a block of at least a word that fits the answer, and the size it asks for.\<close>

definition block_size :: "bytes \<Rightarrow> u32" where
  "block_size buf = get_u32 buf 12"

definition block_request :: "bytes \<Rightarrow> bool" where
  "block_request buf \<longleftrightarrow> 16 \<le> length buf \<and> op_type (op_header_of buf) = 3 \<and>
     4 \<le> unat (block_size buf) \<and> unat (block_size buf) \<le> 0x1FF8"

text \<open>The answers to a list of requests, from position \<open>p\<close> of the flash on.\<close>

primrec served :: "(u32 \<Rightarrow> u8) \<Rightarrow> u32 \<Rightarrow> bytes list \<Rightarrow> bytes list" where
  "served img p [] = []"
| "served img p (buf # bufs) =
     gb_message (op_id (op_header_of buf)) 0x83 GB_OP_SUCCESS (flash_bytes img p (unat (block_size buf))) #
     served img (p + block_size buf) bufs"

lemma small_u16: "n < 2 ^ 16 \<Longrightarrow> unat (word_of_nat n :: u16) = n"
  by (simp add: unat_of_nat take_bit_nat_eq_self)

lemma flash_bytes_mod:
  "p AND 0x00FFFFFF = q AND 0x00FFFFFF \<Longrightarrow> flash_bytes img p n = flash_bytes img q n"
  using flash_bytes_wrap [of img p n] flash_bytes_wrap [of img q n] by simp

lemma served_mod:
  "p AND 0x00FFFFFF = q AND 0x00FFFFFF \<Longrightarrow> served img p bufs = served img q bufs"
proof (induction bufs arbitrary: p q)
  case (Cons buf bufs)
  have "(p + block_size buf) AND 0x00FFFFFF = (q + block_size buf) AND 0x00FFFFFF"
    using wrap_24 [of p "block_size buf"] wrap_24 [of q "block_size buf"] Cons.prems by simp
  from Cons.IH [OF this] flash_bytes_mod [OF Cons.prems] show ?case by simp
qed simp

lemma served_payloads:
  "concat (map (drop 8) (served img p bufs)) = flash_bytes img p (\<Sum>buf\<leftarrow>bufs. unat (block_size buf))"
proof (induction bufs arbitrary: p)
  case Nil
  then show ?case by (simp add: flash_bytes_def)
next
  case (Cons buf bufs)
  have "drop 8 (gb_message i ty st pl) = pl" for i ty st pl by (simp add: gb_message_def op_header_bytes_def)
  with Cons.IH [of "p + block_size buf"] show ?case
    by (simp add: flash_bytes_add)
qed

lemma block_served:
  assumes "flash_on_spi E img" "1 < cport_max E" "tx_log 1 (io s) = (sent, [])" "block_request buf"
  shows "\<exists>t. server_cport_handler E junk SERVER_CPORT buf (length buf) s = Ret 0 t \<and>
    current_addr t AND 0x00FFFFFF = (current_addr s + block_size buf) AND 0x00FFFFFF \<and>
    tx_log 1 (io t) = (sent @ [gb_message (op_id (op_header_of buf)) 0x83 GB_OP_SUCCESS
      (flash_bytes img (current_addr s) (unat (block_size buf)))], [])"
proof -
  let ?n = "block_size buf" and ?op = "op_header_of buf"
  let ?bs = "flash_bytes img (current_addr s) (unat ?n)"
  have n: "4 \<le> unat ?n" "unat ?n \<le> 0x1FF8" and buf: "16 \<le> length buf" "op_type ?op = 3"
    using assms(4) by (auto simp: block_request_def)
  have "drop_bit 2 ?n \<le> 0xFFFF" using n(2) unat_split_2 [of ?n] by (simp add: word_le_nat_alt)
  from flash_load_addr [OF assms(1) n(1) this, of s False] obtain u where
    u: "current_addr u AND 0x00FFFFFF = (current_addr s + ?n) AND 0x00FFFFFF"
      "data_load_spi_load E ?n False s = Ret (0, ?bs) u"
    by (auto simp: skip_def return_def)
  have "tx_log 1 (io u) = (sent, [])"
    using preserves_RetD [OF quiet_spi_load u(2)] assms(3) by (simp add: quiet_def)
  from op_response_log [OF _ assms(2) this, of ?bs ?op 0] n(2) obtain ev where
    ev: "greybus_op_response E SERVER_CPORT ?op 0 ?bs u = Ret 0 (u\<lparr>io := ev @ io u\<rparr>)"
      "tx_log 1 (ev @ io u) = (sent @ [gb_message (op_id ?op) (op_type ?op OR GB_TYPE_RESPONSE) 0 ?bs], [])" by auto
  have "server_cport_handler E junk SERVER_CPORT buf (length buf) s = Ret 0 (u\<lparr>io := ev @ io u\<rparr>)"
    using buf u(2) ev(1)
    by (simp add: server_cport_handler_def server_get_firmware_def block_size_def assert_or_fault_def skip_def Let_def)
  with u(1) ev(2) buf(2) show ?thesis by simp
qed

lemma blocks_served:
  "flash_on_spi E img \<Longrightarrow> 1 < cport_max E \<Longrightarrow> \<forall>buf \<in> set bufs. block_request buf \<Longrightarrow>
   tx_log 1 (io s) = (sent, []) \<Longrightarrow>
   \<exists>t. serve E junk bufs s = Ret () t \<and> tx_log 1 (io t) = (sent @ served img (current_addr s) bufs, [])"
proof (induction bufs arbitrary: s sent)
  case Nil
  then show ?case by (simp add: skip_def return_def)
next
  case (Cons buf bufs)
  let ?m = "gb_message (op_id (op_header_of buf)) 0x83 GB_OP_SUCCESS
    (flash_bytes img (current_addr s) (unat (block_size buf)))"
  obtain t where t: "server_cport_handler E junk SERVER_CPORT buf (length buf) s = Ret 0 t"
    "current_addr t AND 0x00FFFFFF = (current_addr s + block_size buf) AND 0x00FFFFFF"
    "tx_log 1 (io t) = (sent @ [?m], [])"
    using block_served [of E img s sent buf junk] Cons.prems by auto
  from Cons.IH [of t "sent @ [?m]"] Cons.prems t(3) obtain v where
    "serve E junk bufs t = Ret () v" "tx_log 1 (io v) = (sent @ [?m] @ served img (current_addr t) bufs, [])" by auto
  with t(1) served_mod [OF t(2), of img bufs] show ?case by simp
qed

section \<open>Properties\<close>

text \<open>
  C26: The server answers any sequence of requests for blocks of at least four bytes with consecutive blocks of
  its flash, one well-formed response per request, starting where the search for the element left the read position;
  what the client receives, put together, is the contents of the flash from there on. The offsets in
  the requests play no part.
\<close>

theorem server_serves_flash:
  fixes s :: "'a server_scheme"
  assumes "flash_on_spi E img" "1 < cport_max E" "\<forall>buf \<in> set bufs. block_request buf"
    and "tx_log 1 (io s) = (sent, [])"
  shows "\<exists>t answers. serve E junk bufs s = Ret () t \<and> tx_log 1 (io t) = (sent @ answers, []) \<and>
    length answers = length bufs \<and>
    (\<forall>i < length bufs. op_id (op_header_of (answers ! i)) = op_id (op_header_of (bufs ! i)) \<and>
       op_type (op_header_of (answers ! i)) = 0x83 \<and> op_status (op_header_of (answers ! i)) = 0 \<and>
       unat (op_size (op_header_of (answers ! i))) = 8 + unat (block_size (bufs ! i))) \<and>
    concat (map (drop 8) answers) = flash_bytes img (current_addr s) (\<Sum>buf\<leftarrow>bufs. unat (block_size buf))"
proof -
  let ?a = "served img (current_addr s) bufs"
  obtain t where t: "serve E junk bufs s = Ret () t" "tx_log 1 (io t) = (sent @ ?a, [])"
    using blocks_served [OF assms] by blast
  have len: "length (served img p bufs) = length bufs" for p by (induction bufs arbitrary: p) auto
  have hdr: "op_header_of (served img p bufs ! i) =
      \<lparr>op_size = word_of_nat (8 + unat (block_size (bufs ! i))), op_id = op_id (op_header_of (bufs ! i)),
       op_type = 0x83, op_status = 0, op_padding = 0\<rparr>" if "i < length bufs" for p i
    using that assms(3)
  proof (induction bufs arbitrary: p i)
    case (Cons buf bufs)
    then show ?case by (cases i) (auto simp: greybus_header_parse block_request_def)
  qed simp
  have sz: "unat (word_of_nat (8 + unat (block_size (bufs ! i))) :: u16) = 8 + unat (block_size (bufs ! i))"
    if "i < length bufs" for i
  proof (rule small_u16)
    show "8 + unat (block_size (bufs ! i)) < 2 ^ 16" using assms(3) nth_mem [OF that] by (auto simp: block_request_def)
  qed
  show ?thesis
    using t len hdr sz served_payloads [of img "current_addr s" bufs]
    by (intro exI [of _ t] exI [of _ ?a]) (simp del: of_nat_add)
qed

definition reset_server :: server where
  "reset_server = ffff.extend reset_ffff \<lparr>image_download_finished = False, stage_to_load = 0\<rparr>"

theorem server_serves_flash_witness:
  "let bufs = [[16, 0, 7, 0, 3, 0, 0, 0, 0, 0, 0, 0, 8, 0, 0, 0], [16, 0, 8, 0, 3, 0, 0, 0, 8, 0, 0, 0, 6, 0, 0, 0]]
   in \<exists>t answers. serve (flash_env ucast) (0, []) bufs reset_server = Ret () t \<and>
        tx_log 1 (io t) = (answers, []) \<and> length answers = 2 \<and>
        concat (map (drop 8) answers) = [0, 1, 2, 3, 4, 5, 6, 7, 8, 9, 10, 11, 12, 13]"
proof -
  let ?bufs = "[[16, 0, 7, 0, 3, 0, 0, 0, 0, 0, 0, 0, 8, 0, 0, 0], [16, 0, 8, 0, 3, 0, 0, 0, 8, 0, 0, 0, 6, 0, 0, 0]] :: bytes list"
  have ok: "\<forall>buf \<in> set ?bufs. block_request buf"
    by (simp add: block_request_def block_size_def op_header_of_def get_u32_def)
  have s: "tx_log 1 (io reset_server) = ([], [])" "current_addr reset_server = 0"
    by (simp_all add: reset_server_def ffff.defs reset_ffff_def spi.defs reset_spi_def crypto.defs reset_crypto_def tx_log_def)
  have "1 < cport_max (flash_env ucast)" by (simp add: flash_env_def es3_env_def)
  from server_serves_flash [OF flash_env_ok this ok s(1), of "(0, [])"] obtain t answers where
    "serve (flash_env ucast) (0, []) ?bufs reset_server = Ret () t" "tx_log 1 (io t) = ([] @ answers, [])"
    "length answers = length ?bufs"
    "concat (map (drop 8) answers) = flash_bytes ucast (current_addr reset_server) (\<Sum>buf\<leftarrow>?bufs. unat (block_size buf))"
    by blast
  moreover have "(\<Sum>buf\<leftarrow>?bufs. unat (block_size buf)) = 14" by (simp add: block_size_def get_u32_def)
  moreover have "flash_bytes ucast 0 14 = [0, 1, 2, 3, 4, 5, 6, 7, 8, 9, 10, 11, 12, 13]"
    by (simp add: flash_bytes_def upt_rec)
  ultimately show ?thesis
    unfolding Let_def s(2) by (intro exI [of _ t] exI [of _ answers]) (simp del: serve.simps)
qed

end
