(* ===== verification/Download.thy ===== *)
theory Download
  imports Gbboot Server
begin

text \<open>
  The two ends of a download put together: the loader of \<open>Gbboot\<close> on one bridge and the firmware server of
  \<open>Server\<close> on the other. The link is described from the loader's side: whenever it has sent a request that is not
  yet answered, the receive buffer of the boot CPort holds what the server sends for it. The theory shows that
  every load then succeeds and stores the contents of the server's flash.
\<close>

unbundle bit_operations_syntax

section \<open>The link\<close>

abbreviation (input) "EOM_REG \<equiv> AIO_UNIPRO_BASE + AHM_RX_EOM_INT_BEF_0"
abbreviation (input) "EOT_REG \<equiv> AIO_UNIPRO_BASE + AHM_RX_EOT_INT_BEF_0"
abbreviation (input) "RX_SIZE_REG \<equiv> AIO_UNIPRO_BASE + (CPB_RX_TRANSFERRED_DATA_SIZE_00 + 4)"

text \<open>How many messages the boot CPort has acknowledged.\<close>

fun taken_word :: "io_event \<Rightarrow> nat" where
  "taken_word (WrReg a v) = (if a = EOM_REG \<and> v = 4 then 1 else 0)"
| "taken_word _ = 0"

definition taken :: "io_event list \<Rightarrow> nat" where
  "taken h = (\<Sum>e\<leftarrow>h. taken_word e)"

lemma taken_Cons [simp]: "taken (e # h) = taken_word e + taken h"
  by (simp add: taken_def)

text \<open>
  The server has been found the element at \<open>p\<close> after the messages \<open>sent\<close>, of which \<open>k\<close> had been answered; from then on every
  request for a block is answered by what \<open>Server\<close> shows the server to send.
\<close>

definition linked :: "env \<Rightarrow> (u32 \<Rightarrow> u8) \<Rightarrow> u32 \<Rightarrow> bytes list \<Rightarrow> nat \<Rightarrow> bool" where
  "linked E img p sent k \<longleftrightarrow> unipro_answers E \<and> cport_max E = 2 \<and>
     (\<forall>h reqs. tx_log 1 h = (sent @ reqs, []) \<longrightarrow>
        dev E h EOM_REG = (if taken h < k + length reqs then 4 else 0) \<and> dev E h EOT_REG = 0 \<and>
        (reqs \<noteq> [] \<longrightarrow>
           dev E h RX_SIZE_REG = word_of_nat (length (last (served img p reqs))) \<and>
           rx_buf E h 1 = last (served img p reqs)))"

text \<open>The loader has made the requests \<open>reqs\<close>, and \<open>n\<close> of them have been answered.\<close>

definition requested :: "bytes list \<Rightarrow> nat \<Rightarrow> bytes list \<Rightarrow> nat \<Rightarrow> 'a machine_scheme \<Rightarrow> bool" where
  "requested sent k reqs n s \<longleftrightarrow> tx_log 1 (io s) = (sent @ reqs, []) \<and> taken (io s) = k + n"

text \<open>Register accesses that neither send nor acknowledge.\<close>

definition idle :: "'a machine_scheme \<Rightarrow> 'a machine_scheme \<Rightarrow> bool" where
  "idle s t \<longleftrightarrow> only_io s t \<and> (\<forall>c. tx_log c (io t) = tx_log c (io s)) \<and> taken (io t) = taken (io s)"

interpretation idle: state_rel idle
  by unfold_locales (auto simp: idle_def intro: only_io.refl only_io.trans)

lemma idle_read: "preserves idle (getreg32 E a)"
  by (auto intro!: preservesI simp: idle_def getreg32_def Let_def tx_log_Cons only_io_cons)

lemma idle_write: "a \<noteq> EOM_REG \<Longrightarrow> preserves idle (putreg32 v a)"
  by (auto intro!: preservesI simp: idle_def putreg32_def tx_log_Cons only_io_cons)

lemma idle_poll: "preserves idle (poll_reg E a ok)"
  unfolding poll_reg_def by (intro idle.pres_intros idle_read)

lemma idle_attr_read: "preserves idle (chip_unipro_attr_read E a sel peer)"
  unfolding chip_unipro_attr_read_def unipro_attr_access_def tsb_unipro_read_def tsb_unipro_write_def
  by (intro idle.pres_intros idle_read idle_poll idle_write) (simp_all add: AIO_UNIPRO_BASE_def)

lemma idle_restart: "preserves idle (tsb_unipro_restart_rx 1)"
  unfolding tsb_unipro_restart_rx_def tsb_unipro_write_def
  by (intro idle.pres_intros idle_write) (simp_all add: AIO_UNIPRO_BASE_def)

lemma idle_requested: "idle s t \<Longrightarrow> requested sent k reqs n t = requested sent k reqs n s"
  by (simp add: idle_def requested_def)

section \<open>Receiving an answer\<close>

text \<open>The registers, after any accesses that leave the request pending.\<close>

lemma linked_regs:
  assumes "linked E img p sent k" "requested sent k reqs n s"
  shows "dev E (io s) EOM_REG = (if n < length reqs then 4 else 0)" "dev E (io s) EOT_REG = 0"
    "reqs \<noteq> [] \<Longrightarrow> dev E (io s) RX_SIZE_REG = word_of_nat (length (last (served img p reqs)))"
    "reqs \<noteq> [] \<Longrightarrow> rx_buf E (io s) 1 = last (served img p reqs)"
  using assms by (auto simp: linked_def requested_def)

lemma poll_control:
  fixes s :: "'a gbboot_scheme"
  assumes "linked E img p sent k" "requested sent k reqs n s"
  shows "\<exists>t. chip_unipro_receive E CONTROL_CPORT h False s = Ret 0 t \<and> idle s t"
proof -
  let ?eom = "dev E (io s) EOM_REG"
  have c: "cport_handle E CONTROL_CPORT = Some 0" using assms(1) by (simp add: linked_def cport_handle_def)
  let ?s1 = "s\<lparr>io := RdReg EOM_REG ?eom # io s\<rparr>"
  let ?s2 = "?s1\<lparr>io := RdReg EOT_REG 0 # io ?s1\<rparr>"
  have eom: "?eom AND 2 = 0" "?eom AND 1 = 0" using linked_regs(1) [OF assms] by auto
  have "requested sent k reqs n ?s1" using assms(2) by (simp add: requested_def tx_log_Cons)
  from linked_regs(2) [OF assms(1) this] have "dev E (io ?s1) EOT_REG = 0" .
  with eom have "chip_unipro_receive E CONTROL_CPORT h False s = Ret 0 ?s2"
    unfolding chip_unipro_receive_def c
    by (simp add: assert_or_fault_def skip_def tsb_unipro_read_def)
      (rule loopM_Inr, simp add: getreg32_def Let_def return_def)
  moreover have "idle s ?s2"
    using only_io.trans [OF only_io_cons only_io_cons, of s "RdReg EOT_REG 0" "RdReg EOM_REG ?eom"]
    by (simp add: idle_def tx_log_Cons)
  ultimately show ?thesis by blast
qed

text \<open>The answer to the last request is handed to the handler, and the request is no longer pending.\<close>

lemma receive_answer:
  fixes s :: "'a gbboot_scheme"
  assumes "linked E img p sent k" "requested sent k (reqs @ [m]) (length reqs) s"
    and "answer = last (served img p (reqs @ [m]))" "length answer < 2 ^ 32"
    and "\<And>ev. h GBBOOT_CPORT answer (length answer) (s\<lparr>io := ev @ io s\<rparr>) = Ret 1 (f (s\<lparr>io := ev @ io s\<rparr>))"
    and "\<And>u. io (f u) = io u"
  shows "\<exists>t ev. chip_unipro_receive E GBBOOT_CPORT (Some h) False s = Ret 1 t \<and> idle (f (s\<lparr>io := ev @ io s\<rparr>)) t \<and>
    requested sent k (reqs @ [m]) (length reqs + 1) t"
proof -
  have c: "cport_handle E GBBOOT_CPORT = Some 1" using assms(1) by (simp add: linked_def cport_handle_def word_le_nat_alt)
  let ?n = "word_of_nat (length answer) :: u32"
  let ?e1 = "[RdReg EOM_REG 4]" and ?e2 = "[RdReg EOT_REG 0, RdReg EOM_REG 4]"
  let ?e3 = "[RdReg RX_SIZE_REG ?n, RdReg EOT_REG 0, RdReg EOM_REG 4]"
  let ?e4 = "[WrReg EOM_REG 4, RdReg RX_SIZE_REG ?n, RdReg EOT_REG 0, RdReg EOM_REG 4]"
  have req: "requested sent k (reqs @ [m]) (length reqs) (s\<lparr>io := ?e1 @ io s\<rparr>)"
    "requested sent k (reqs @ [m]) (length reqs) (s\<lparr>io := ?e2 @ io s\<rparr>)"
    "requested sent k (reqs @ [m]) (length reqs + 1) (s\<lparr>io := ?e4 @ io s\<rparr>)"
    using assms(2) by (simp_all add: requested_def tx_log_Cons)
  have regs: "dev E (io s) EOM_REG = 4" "dev E (?e1 @ io s) EOT_REG = 0" "dev E (?e2 @ io s) RX_SIZE_REG = ?n"
    "rx_buf E (?e4 @ io s) 1 = answer"
    using linked_regs(1) [OF assms(1,2)] linked_regs(2) [OF assms(1) req(1)] linked_regs(3) [OF assms(1) req(2)]
      linked_regs(4) [OF assms(1) req(3)] assms(3) by simp_all
  have n: "unat ?n = length answer" using assms(4) by (simp add: unat_of_nat take_bit_nat_eq_self)
  let ?u = "f (s\<lparr>io := ?e4 @ io s\<rparr>)"
  obtain t where t: "tsb_unipro_restart_rx 1 ?u = Ret () t"
    by (simp add: tsb_unipro_restart_rx_def tsb_unipro_write_def putreg32_def)
  have sh: "push_bit (2 * unat GBBOOT_CPORT) (1 :: u32) = 4" "push_bit (2 * unat GBBOOT_CPORT) (2 :: u32) = 8"
    "push_bit (unat GBBOOT_CPORT) (1 :: u32) = 2" "push_bit 2 GBBOOT_CPORT = 4" by simp_all
  have "chip_unipro_receive E GBBOOT_CPORT (Some h) False s = Ret 1 t"
    unfolding chip_unipro_receive_def c option.case Let_def sh
    using t assms(5) [of ?e4] regs n
    by (simp add: assert_or_fault_def skip_def)
      (rule loopM_Inr, simp add: tsb_unipro_read_def tsb_unipro_write_def getreg32_def putreg32_def gets_def return_def Let_def)
  moreover have i: "idle ?u t" using preserves_RetD [OF idle_restart t] .
  moreover have "requested sent k (reqs @ [m]) (length reqs + 1) ?u"
    using req(3) assms(6) by (simp add: requested_def)
  ultimately show ?thesis using idle_requested [OF i] by blast
qed

section \<open>One block\<close>

text \<open>The request for a block, and what the server makes of it.\<close>

definition block_msg :: "u32 \<Rightarrow> u32 \<Rightarrow> bytes" where
  "block_msg off n = gb_message 1 GB_BOOT_OP_GET_FIRMWARE 0 (u32_bytes off @ u32_bytes n)"

lemma block_msg_request:
  assumes "4 \<le> unat n" "unat n \<le> 0x7F0"
  shows "block_request (block_msg off n)" "block_size (block_msg off n) = n" "op_id (op_header_of (block_msg off n)) = 1"
proof -
  have h: "op_header_of (block_msg off n) =
      \<lparr>op_size = word_of_nat (8 + length (u32_bytes off @ u32_bytes n)), op_id = 1, op_type = 3, op_status = 0, op_padding = 0\<rparr>"
    unfolding block_msg_def using greybus_header_parse [of "u32_bytes off @ u32_bytes n" 1 3 0] by simp
  let ?hd = "op_header_bytes \<lparr>op_size = word_of_nat (8 + length (u32_bytes off @ u32_bytes n)), op_id = 1, op_type = 3,
    op_status = 0, op_padding = 0\<rparr>"
  have m: "block_msg off n = (?hd @ u32_bytes off) @ u32_bytes n @ []" by (simp add: block_msg_def gb_message_def)
  have l: "length (?hd @ u32_bytes off) = 12" by (simp add: op_header_bytes_def)
  show sz: "block_size (block_msg off n) = n"
    unfolding block_size_def m using get_u32_u32_bytes [of "?hd @ u32_bytes off" n "[]"] l by simp
  show "op_id (op_header_of (block_msg off n)) = 1" by (simp add: h)
  have "length (block_msg off n) = 16" by (simp add: m op_header_bytes_def)
  with sz h assms show "block_request (block_msg off n)" by (simp add: block_request_def)
qed

lemma served_last:
  "last (served img p (reqs @ [m])) = gb_message (op_id (op_header_of m)) 0x83 0
     (flash_bytes img (p + (\<Sum>b\<leftarrow>reqs. block_size b)) (unat (block_size m)))"
proof (induction reqs arbitrary: p)
  case (Cons b reqs)
  have "served img q (reqs @ [m]) \<noteq> []" for q by (cases reqs) simp_all
  with Cons.IH [of "p + block_size b"] show ?case by (simp add: add.assoc)
qed simp

text \<open>What a block does to the loader's state.\<close>

definition block_stored :: "bytes \<Rightarrow> 'a gbboot_scheme \<Rightarrow> 'a gbboot_scheme" where
  "block_stored bs u = u\<lparr>responded_op := 0x83, load_buf := put_bytes (load_buf u) (fw_buff_off u) bs\<rparr>"

lemma io_block_stored [simp]: "io (block_stored bs u) = io u"
  by (simp add: block_stored_def)

lemma block_stored_io: "(block_stored bs u)\<lparr>io := h\<rparr> = block_stored bs (u\<lparr>io := h\<rparr>)"
  unfolding block_stored_def by (rule gbboot.equality) simp_all

lemma answer_handled:
  assumes "handler_table u GBBOOT_CPORT = Some gbboot_cport_handlers" "length bs \<le> 0x7F0"
    and "fw_buff_size u = word_of_nat (length bs)" "load_active u" "fits (load_buf u) (fw_buff_off u) bs"
  shows "common_cport_handler (gbboot_call E) GBBOOT_CPORT (gb_message 1 0x83 0 bs) (length (gb_message 1 0x83 0 bs)) u =
    Ret 1 (block_stored bs u)"
proof -
  have "length (gb_message 1 0x83 0 bs) = 8 + length bs" by (simp add: gb_message_def op_header_bytes_def)
  with assms show ?thesis
    by (simp add: boot_handler firmware_response_run store_firmware_def get_state_def assert_or_fault_def skip_def
        return_def modify_def block_stored_def)
qed

lemma skip_control:
  fixes s :: "'a gbboot_scheme"
  assumes "linked E img p sent k" "requested sent k reqs n s"
  shows "\<exists>t. idle s t \<and> (\<forall>cs. poll_cports E call (CONTROL_CPORT # cs) s = poll_cports E call cs t)"
proof (cases "handler_table s CONTROL_CPORT = None")
  case True
  then show ?thesis by (intro exI [of _ s]) (simp add: gets_def idle.refl)
next
  case False
  then show ?thesis
    using poll_control [OF assms, of "Some (common_cport_handler call)"] by (auto simp: gets_def)
qed

lemma loop_answered:
  fixes s :: "'a gbboot_scheme"
  assumes "linked E img p sent k" "requested sent k (reqs @ [m]) (length reqs) s"
    and "op_id (op_header_of m) = 1" "unat (block_size m) \<le> 0x7F0"
    and "bs = flash_bytes img (p + (\<Sum>b\<leftarrow>reqs. block_size b)) (unat (block_size m))"
    and "handler_table s GBBOOT_CPORT = Some gbboot_cport_handlers" "fw_buff_size s = block_size m"
    and "load_active s" "fits (load_buf s) (fw_buff_off s) bs"
  shows "\<exists>t ev. gbboot_loop E s = Ret 0 t \<and> t = block_stored bs (s\<lparr>io := ev @ io s\<rparr>) \<and>
    requested sent k (reqs @ [m]) (length reqs + 1) t"
proof -
  have E: "unipro_answers E" "cport_max E = 2" using assms(1) by (auto simp: linked_def)
  let ?call = "gbboot_call E" and ?answer = "gb_message 1 0x83 0 bs"
  let ?ctrl = "\<lambda>c. chip_unipro_receive E c (Some (common_cport_handler ?call)) False"
  have answer: "?answer = last (served img p (reqs @ [m]))" by (simp add: served_last assms(3,5))
  obtain ev1 where ev1: "chip_unipro_attr_read E ARA_INTERRUPTSTATUS 0 False s = Ret (0, 0) (s\<lparr>io := ev1 @ io s\<rparr>)"
    using attr_read_answers [OF E(1)] by blast
  let ?s1 = "s\<lparr>io := ev1 @ io s\<rparr>"
  have i1: "idle s ?s1" using preserves_RetD [OF idle_attr_read ev1] .
  have r1: "requested sent k (reqs @ [m]) (length reqs) ?s1" using assms(2) idle_requested [OF i1] by simp
  obtain s2 where s2: "idle ?s1 s2" "\<And>cs. poll_cports E ?call (CONTROL_CPORT # cs) ?s1 = poll_cports E ?call cs s2"
    using skip_control [OF assms(1) r1] by blast
  then obtain ev2 where ev2: "s2 = s\<lparr>io := ev2 @ io s\<rparr>"
    using idle.trans [OF i1 s2(1)] by (auto simp: idle_def only_io_def)
  have r2: "requested sent k (reqs @ [m]) (length reqs) s2" using r1 idle_requested [OF s2(1)] by simp
  have len: "length ?answer < 2 ^ 32" "length bs \<le> 0x7F0" using assms(4,5) by (simp_all add: gb_message_def op_header_bytes_def)
  have h: "common_cport_handler ?call GBBOOT_CPORT ?answer (length ?answer) (s2\<lparr>io := ev @ io s2\<rparr>) =
      Ret 1 (block_stored bs (s2\<lparr>io := ev @ io s2\<rparr>))" for ev
    by (rule answer_handled) (use assms(5-9) len(2) in \<open>auto simp: ev2\<close>)
  obtain t ev where t: "?ctrl GBBOOT_CPORT s2 = Ret 1 t" "idle (block_stored bs (s2\<lparr>io := ev @ io s2\<rparr>)) t"
    "requested sent k (reqs @ [m]) (length reqs + 1) t"
    using receive_answer [where h = "common_cport_handler ?call" and f = "block_stored bs",
        OF assms(1) r2 answer len(1) h io_block_stored] by auto
  have cs: "map word_of_nat [0..<unat (cport_max E)] = [CONTROL_CPORT, GBBOOT_CPORT]"
    by (simp add: E(2) upt_conv_Cons)
  have "poll_cports E ?call [CONTROL_CPORT, GBBOOT_CPORT] ?s1 = Ret (Some 0) t"
    unfolding s2(2) using t(1) assms(6) by (simp add: ev2 gets_def return_def)
  then have poll: "bind (poll_cports E ?call [CONTROL_CPORT, GBBOOT_CPORT])
      (\<lambda>r. return (case r of None \<Rightarrow> Inl () | Some rc \<Rightarrow> Inr rc)) ?s1 = Ret (Inr 0) t"
    by (subst bind_Ret, assumption) (simp add: return_def)
  have irq: "is_mailbox_irq_pending E s = Ret False ?s1"
    using ev1 by (simp add: is_mailbox_irq_pending_def return_def)
  have loop: "gbboot_loop E s = Ret 0 t"
    unfolding gbboot_loop_def greybus_loop_def cs
    by (rule loopM_Inr, subst bind_Ret [where m = "is_mailbox_irq_pending E", OF irq], simp only: if_False skip_def bind_return poll)
  from t(2) obtain ev3 where "t = block_stored bs (s\<lparr>io := (ev3 @ ev @ ev2) @ io s\<rparr>)"
    by (auto simp: idle_def only_io_def ev2 block_stored_io)
  with loop t(3) show ?thesis by blast
qed

text \<open>Sending acknowledges nothing.\<close>

definition none_taken :: "'a machine_scheme \<Rightarrow> 'a machine_scheme \<Rightarrow> bool" where
  "none_taken s t \<longleftrightarrow> taken (io t) = taken (io s)"

interpretation none_taken: state_rel none_taken
  by unfold_locales (auto simp: none_taken_def)

lemma seqM_pres:
  fixes ms :: "('a machine_scheme, unit) prog list"
  shows "(\<And>m. m \<in> set ms \<Longrightarrow> preserves none_taken m) \<Longrightarrow> preserves none_taken (seqM ms)"
  by (induction ms) (auto intro: none_taken.pres_bind none_taken.pres_skip)

lemma send_none_taken: "preserves none_taken (chip_unipro_send E c buf)"
proof -
  have "preserves none_taken (putreg8 v a)" for v a
    by (auto intro!: preservesI simp: none_taken_def putreg8_def)
  then show ?thesis
    unfolding chip_unipro_send_def by (intro none_taken.pres_intros seqM_pres) auto
qed

lemma request_sent:
  fixes s :: "'a gbboot_scheme"
  assumes "cport_max E = 2" "requested sent k reqs (length reqs) s"
  shows "\<exists>ev. greybus_send_request E GBBOOT_CPORT 1 GB_BOOT_OP_GET_FIRMWARE (u32_bytes off @ u32_bytes n) s =
      Ret 0 (s\<lparr>io := ev @ io s\<rparr>) \<and>
    requested sent k (reqs @ [block_msg off n]) (length reqs) (s\<lparr>io := ev @ io s\<rparr>)"
proof -
  have l: "length (block_msg off n) \<le> 0x2000" by (simp add: block_msg_def gb_message_def op_header_bytes_def)
  have c: "GBBOOT_CPORT < cport_max E" "cport_handle E GBBOOT_CPORT = Some 1"
    using assms(1) by (simp_all add: cport_handle_def word_less_nat_alt word_le_nat_alt)
  have tx: "tx_log 1 (io s) = (sent @ reqs, [])" using assms(2) by (simp add: requested_def)
  from send_tx_log [OF l c tx] obtain ev where
    ev: "chip_unipro_send E GBBOOT_CPORT (block_msg off n) s = Ret 0 (s\<lparr>io := ev @ io s\<rparr>)"
      "tx_log 1 (ev @ io s) = (sent @ reqs @ [block_msg off n], [])" by auto
  have "taken (ev @ io s) = taken (io s)"
    using preserves_RetD [OF send_none_taken ev(1)] by (simp add: none_taken_def)
  with ev assms(2) show ?thesis
    by (intro exI [of _ ev]) (simp add: greybus_send_request_def greybus_send_message_def block_msg_def requested_def)
qed

text \<open>What a load keeps of the loader's state.\<close>

definition download_frame :: "'a gbboot_scheme \<Rightarrow> 'a gbboot_scheme \<Rightarrow> bool" where
  "download_frame s t \<longleftrightarrow> load_active t = load_active s \<and> handler_table t = handler_table s \<and>
     sha256_process_func t = sha256_process_func s \<and> firmware_size t = firmware_size s \<and>
     tftf_header t = tftf_header s \<and> tftf_sig t = tftf_sig s \<and> ram t = ram s"

lemma hash_or_skip:
  fixes s :: "'a gbboot_scheme"
  assumes "h \<longrightarrow> sha256_process_func s = Some Shs256_process"
  shows "\<exists>sh. (if h then hash_update bs else skip) s = Ret () (s\<lparr>shctx := sh\<rparr>)"
proof (cases "h \<and> bs \<noteq> []")
  case True
  with assms show ?thesis by (auto simp: hash_update_def gets_def assert_or_fault_def skip_def return_def modify_def)
next
  case False
  then show ?thesis by (intro exI [of _ "shctx s"]) (auto simp: hash_update_def skip_def return_def)
qed

lemma block_fetched:
  fixes s :: "'a gbboot_scheme"
  assumes "linked E img p sent k" "requested sent k reqs (length reqs) s" "4 \<le> unat n" "unat n \<le> 0x7F0"
    and "handler_table s GBBOOT_CPORT = Some gbboot_cport_handlers" "load_active s"
    and "pos + unat n \<le> length (load_buf s)" "0 < prev_len \<longrightarrow> sha256_process_func s = Some Shs256_process"
  shows "\<exists>t. gbboot_get_firmware E off n dst pos prev_len s = Ret 0 t \<and> download_frame s t \<and> gb_offset t = gb_offset s \<and>
    requested sent k (reqs @ [block_msg off n]) (length reqs + 1) t \<and>
    load_buf t = put_bytes (load_buf s) pos (flash_bytes img (p + (\<Sum>b\<leftarrow>reqs. block_size b)) (unat n))"
proof -
  let ?m = "block_msg off n" and ?prev = "slice (pos - prev_len) prev_len (load_buf s)"
  let ?bs = "flash_bytes img (p + (\<Sum>b\<leftarrow>reqs. block_size b)) (unat n)"
  note m = block_msg_request [OF assms(3,4), of off]
  have "cport_max E = 2" using assms(1) by (simp add: linked_def)
  from request_sent [OF this assms(2), of off n] obtain ev where
    ev: "greybus_send_request E GBBOOT_CPORT 1 GB_BOOT_OP_GET_FIRMWARE (u32_bytes off @ u32_bytes n) s = Ret 0 (s\<lparr>io := ev @ io s\<rparr>)"
      "requested sent k (reqs @ [?m]) (length reqs) (s\<lparr>io := ev @ io s\<rparr>)" by blast
  from hash_or_skip [of "prev_len > 0" "s\<lparr>io := ev @ io s\<rparr>" ?prev] assms(8) have
    "\<exists>sh. (if prev_len > 0 then hash_update ?prev else skip) (s\<lparr>io := ev @ io s\<rparr>) =
      Ret () (s\<lparr>io := ev @ io s, shctx := sh\<rparr>)" by simp
  then obtain sh where sh: "(if prev_len > 0 then hash_update ?prev else skip) (s\<lparr>io := ev @ io s\<rparr>) =
      Ret () (s\<lparr>io := ev @ io s, shctx := sh\<rparr>)" ..
  let ?s = "s\<lparr>io := ev @ io s, shctx := sh, fw_buff_where := dst, fw_buff_off := pos, fw_buff_size := n\<rparr>"
  have r: "requested sent k (reqs @ [?m]) (length reqs) ?s" using ev(2) by (simp add: requested_def)
  have "fits (load_buf ?s) (fw_buff_off ?s) ?bs" using assms(7) by (simp add: fits_def)
  from loop_answered [OF assms(1) r m(3) _ _ _ _ _ this] assms(4-6) m(2) obtain t ev' where
    t: "gbboot_loop E ?s = Ret 0 t" "t = block_stored ?bs (?s\<lparr>io := ev' @ io ?s\<rparr>)"
      "requested sent k (reqs @ [?m]) (length reqs + 1) t" by auto
  have "gbboot_get_firmware E off n dst pos prev_len s = Ret 0 t"
    using ev(1) sh t(1,2) by (simp add: gbboot_get_firmware_def gets_def modify_def return_def block_stored_def)
  with t(2,3) show ?thesis by (simp add: download_frame_def block_stored_def)
qed

section \<open>A whole load\<close>

text \<open>
  The loader's position is the sum of what it has asked for, and all of it was answered. No block may be
  shorter than a word: such a block the server's flash driver does not read.
\<close>

definition in_step :: "bytes list \<Rightarrow> nat \<Rightarrow> 'a gbboot_scheme \<Rightarrow> bool" where
  "in_step sent k s \<longleftrightarrow>
     (\<exists>reqs. requested sent k reqs (length reqs) s \<and> gb_offset s = (\<Sum>b\<leftarrow>reqs. block_size b)) \<and>
     handler_table s GBBOOT_CPORT = Some gbboot_cport_handlers"

definition whole_blocks :: "u32 \<Rightarrow> bool" where
  "whole_blocks len \<longleftrightarrow> unat len mod 0x7F0 = 0 \<or> 4 \<le> unat len mod 0x7F0"

lemma block_fetched_step:
  fixes s :: "'a gbboot_scheme"
  assumes "linked E img p sent k" "in_step sent k s" "4 \<le> unat n" "unat n \<le> 0x7F0"
    and "load_active s" "pos + unat n \<le> length (load_buf s)" "0 < prev_len \<longrightarrow> sha256_process_func s = Some Shs256_process"
  shows "\<exists>t. gbboot_get_firmware E (gb_offset s) n dst pos prev_len s = Ret 0 t \<and> download_frame s t \<and>
    gb_offset t = gb_offset s \<and> in_step sent k (t\<lparr>gb_offset := gb_offset t + n\<rparr>) \<and>
    load_buf t = put_bytes (load_buf s) pos (flash_bytes img (p + gb_offset s) (unat n))"
proof -
  from assms(2) obtain reqs where r: "requested sent k reqs (length reqs) s" "gb_offset s = (\<Sum>b\<leftarrow>reqs. block_size b)"
    "handler_table s GBBOOT_CPORT = Some gbboot_cport_handlers" by (auto simp: in_step_def)
  from block_fetched [OF assms(1) r(1) assms(3,4) r(3) assms(5-7), of "gb_offset s" dst] obtain t where
    t: "gbboot_get_firmware E (gb_offset s) n dst pos prev_len s = Ret 0 t" "download_frame s t" "gb_offset t = gb_offset s"
      "requested sent k (reqs @ [block_msg (gb_offset s) n]) (length reqs + 1) t"
      "load_buf t = put_bytes (load_buf s) pos (flash_bytes img (p + gb_offset s) (unat n))"
    unfolding r(2) [symmetric] by blast
  have "in_step sent k (t\<lparr>gb_offset := gb_offset t + n\<rparr>)"
    unfolding in_step_def
  proof (intro conjI exI [of _ "reqs @ [block_msg (gb_offset s) n]"])
    show "requested sent k (reqs @ [block_msg (gb_offset s) n]) (length (reqs @ [block_msg (gb_offset s) n]))
      (t\<lparr>gb_offset := gb_offset t + n\<rparr>)" using t(4) by (simp add: requested_def)
    show "gb_offset (t\<lparr>gb_offset := gb_offset t + n\<rparr>) = (\<Sum>b\<leftarrow>reqs @ [block_msg (gb_offset s) n]. block_size b)"
      using r(2) t(3) block_msg_request(2) [OF assms(3,4)] by simp
    show "handler_table (t\<lparr>gb_offset := gb_offset t + n\<rparr>) GBBOOT_CPORT = Some gbboot_cport_handlers"
      using t(2) r(3) by (simp add: download_frame_def)
  qed
  with t show ?thesis by blast
qed

lemma download_frame_trans: "download_frame s t \<Longrightarrow> download_frame t u \<Longrightarrow> download_frame s u"
  by (simp add: download_frame_def)

lemma next_block:
  assumes "len \<noteq> 0" "whole_blocks len"
  shows "let blk = (if len > GB_MAX_PAYLOAD_SIZE then GB_MAX_PAYLOAD_SIZE else len)
    in 4 \<le> unat blk \<and> unat blk \<le> 0x7F0 \<and> unat len = unat blk + unat (len - blk) \<and> whole_blocks (len - blk)"
proof (cases "len > GB_MAX_PAYLOAD_SIZE")
  case True
  then have l: "0x7F0 < unat len" by (simp add: word_less_nat_alt)
  then have "unat (len - 0x7F0) = unat len - 0x7F0" by (simp add: unat_sub word_le_nat_alt)
  with True l assms(2) show ?thesis by (simp add: Let_def whole_blocks_def le_mod_geq)
next
  case False
  then have "unat len \<le> 0x7F0" by (simp add: word_less_nat_alt not_less)
  with assms False show ?thesis
    by (cases "unat len = 0x7F0") (auto simp: Let_def whole_blocks_def unat_eq_0)
qed

lemma put_block:
  assumes "pos + n \<le> length xs" "length bs = n"
  shows "take (pos + n) (put_bytes xs pos bs) = take pos xs @ bs" "length (put_bytes xs pos bs) = length xs"
  using assms by (simp_all add: put_bytes_def min_absorb1)

lemma blocks_fetched:
  fixes s :: "'a gbboot_scheme"
  assumes "linked E img p sent k" "in_step sent k s" "whole_blocks len" "load_active s"
    and "pos + unat len = length (load_buf s)" "h \<longrightarrow> sha256_process_func s = Some Shs256_process" "\<not> h \<longrightarrow> prev_len = 0"
  shows "\<exists>t. load_blocks E dst len h pos prev_len s = Ret 0 t \<and> download_frame s t \<and> in_step sent k t \<and>
    gb_offset t = gb_offset s + len \<and> load_buf t = take pos (load_buf s) @ flash_bytes img (p + gb_offset s) (unat len)"
  using assms(2-)
proof (induction "unat len" arbitrary: len pos prev_len s rule: less_induct)
  case less
  show ?case
  proof (cases "len = 0")
    case True
    let ?prev = "slice (pos - prev_len) prev_len (load_buf s)"
    obtain sh where sh: "(if h then hash_update ?prev else skip) s = Ret () (s\<lparr>shctx := sh\<rparr>)"
      using hash_or_skip [OF less.prems(5)] by blast
    have "load_blocks E dst len h pos prev_len s = Ret 0 (s\<lparr>shctx := sh\<rparr>)"
      using True sh by (subst load_blocks.simps) (simp add: gets_def return_def)
    moreover have "download_frame s (s\<lparr>shctx := sh\<rparr>)" "in_step sent k (s\<lparr>shctx := sh\<rparr>)"
      using less.prems(1) by (simp_all add: download_frame_def in_step_def requested_def)
    ultimately show ?thesis using True less.prems(4) by (simp add: flash_bytes_def)
  next
    case False
    let ?blk = "if len > GB_MAX_PAYLOAD_SIZE then GB_MAX_PAYLOAD_SIZE else len"
    let ?bs = "flash_bytes img (p + gb_offset s) (unat ?blk)" and ?prev = "if h then unat ?blk else prev_len"
    note blk = next_block [OF False less.prems(2), unfolded Let_def]
    have fits: "pos + unat ?blk \<le> length (load_buf s)" using blk less.prems(4) by linarith
    have hp: "0 < prev_len \<longrightarrow> sha256_process_func s = Some Shs256_process" using less.prems(5,6) by auto
    from block_fetched_step [OF assms(1) less.prems(1) _ _ less.prems(3) fits hp, of dst] blk obtain t where
      t: "gbboot_get_firmware E (gb_offset s) ?blk dst pos prev_len s = Ret 0 t" "download_frame s t"
        "gb_offset t = gb_offset s" "in_step sent k (t\<lparr>gb_offset := gb_offset t + ?blk\<rparr>)"
        "load_buf t = put_bytes (load_buf s) pos ?bs" by blast
    let ?t = "t\<lparr>gb_offset := gb_offset t + ?blk\<rparr>"
    have pb: "take (pos + unat ?blk) (load_buf ?t) = take pos (load_buf s) @ ?bs" "length (load_buf ?t) = length (load_buf s)"
      using put_block [OF fits, of ?bs] t(5) by simp_all
    have "unat (len - ?blk) < unat len" using blk by linarith
    moreover have "whole_blocks (len - ?blk)" using blk by blast
    moreover have "load_active ?t" "pos + unat ?blk + unat (len - ?blk) = length (load_buf ?t)"
      "h \<longrightarrow> sha256_process_func ?t = Some Shs256_process" "\<not> h \<longrightarrow> ?prev = 0"
      using t(2) less.prems(3-6) blk pb(2) by (auto simp: download_frame_def)
    ultimately obtain u where u: "load_blocks E dst (len - ?blk) h (pos + unat ?blk) ?prev ?t = Ret 0 u"
      "download_frame ?t u" "in_step sent k u" "gb_offset u = gb_offset ?t + (len - ?blk)"
      "load_buf u = take (pos + unat ?blk) (load_buf ?t) @ flash_bytes img (p + gb_offset ?t) (unat (len - ?blk))"
      using less.hyps [OF _ t(4)] by blast
    have "load_blocks E dst len h pos prev_len s = Ret 0 u"
      using False t(1) u(1) by (subst load_blocks.simps) (simp add: gets_def modify_def Let_def)
    moreover have "download_frame s u" using t(2) u(2) by (auto simp: download_frame_def)
    moreover have "?bs @ flash_bytes img (p + gb_offset ?t) (unat (len - ?blk)) = flash_bytes img (p + gb_offset s) (unat len)"
      using flash_bytes_add [of img "p + gb_offset s" "unat ?blk" "unat (len - ?blk)"] blk t(3) by (simp add: add.assoc)
    ultimately show ?thesis using u(3-5) pb(1) t(3) by (intro exI [of _ u]) simp
  qed
qed

section \<open>Properties\<close>


text \<open>A link to a server that has just found an element at the start of its flash.\<close>

definition link_env :: "(u32 \<Rightarrow> u8) \<Rightarrow> env" where
  "link_env img = (es3_env (\<lambda>h a.
     if a = AIO_UNIPRO_BASE + A2D_ATTRACS_INT_BEF then 1
     else if a = EOM_REG then (if taken h < length (fst (tx_log 1 h)) then 4 else 0)
     else if a = RX_SIZE_REG then word_of_nat (length (last (served img 0 (fst (tx_log 1 h)))))
     else 0))\<lparr>rx_buf := \<lambda>h c. last (served img 0 (fst (tx_log 1 h)))\<rparr>"

lemma link_env_linked: "linked (link_env img) img 0 [] 0"
  by (simp add: linked_def link_env_def es3_env_def unipro_answers_def AIO_UNIPRO_BASE_def)


end
