(* ===== verification/Mcl_aes.thy ===== *)
theory Mcl_aes
  imports Prelude "HOL-Library.Signed_Division"
begin

text \<open>
  The AES block cipher of the MIRACL library (\<^verbatim>\<open>common/vendors/MIRACL/ara/src/lib/mcl_aes.c\<close>), as it is
  written: the tables, the key schedule, the table-driven rounds on four little-endian column words, and the modes
  of operation. The second half is about the tables: the logarithm tables multiply in the field of FIPS 197, the
  forward substitution table is inversion in that field followed by the affine map of the standard, the reverse
  one undoes it, and the two tables of words hold the columns of the mixing matrix and of its inverse. The cipher
  itself is the subject of the theory \<^verbatim>\<open>Aes\<close>.

  A plain \<^verbatim>\<open>char\<close> is unsigned on the target (AAPCS), so the chaining vector is a list of bytes.
\<close>

unbundle bit_operations_syntax

section \<open>Tables\<close>

definition InCo :: "bytes" where
  "InCo = [0xB, 0xD, 0x9, 0xE]"

definition ptab :: "bytes" where
  "ptab = concat [
     [1, 3, 5, 15, 17, 51, 85, 255, 26, 46, 114, 150, 161, 248, 19, 53],
     [95, 225, 56, 72, 216, 115, 149, 164, 247, 2, 6, 10, 30, 34, 102, 170],
     [229, 52, 92, 228, 55, 89, 235, 38, 106, 190, 217, 112, 144, 171, 230, 49],
     [83, 245, 4, 12, 20, 60, 68, 204, 79, 209, 104, 184, 211, 110, 178, 205],
     [76, 212, 103, 169, 224, 59, 77, 215, 98, 166, 241, 8, 24, 40, 120, 136],
     [131, 158, 185, 208, 107, 189, 220, 127, 129, 152, 179, 206, 73, 219, 118, 154],
     [181, 196, 87, 249, 16, 48, 80, 240, 11, 29, 39, 105, 187, 214, 97, 163],
     [254, 25, 43, 125, 135, 146, 173, 236, 47, 113, 147, 174, 233, 32, 96, 160],
     [251, 22, 58, 78, 210, 109, 183, 194, 93, 231, 50, 86, 250, 21, 63, 65],
     [195, 94, 226, 61, 71, 201, 64, 192, 91, 237, 44, 116, 156, 191, 218, 117],
     [159, 186, 213, 100, 172, 239, 42, 126, 130, 157, 188, 223, 122, 142, 137, 128],
     [155, 182, 193, 88, 232, 35, 101, 175, 234, 37, 111, 177, 200, 67, 197, 84],
     [252, 31, 33, 99, 165, 244, 7, 9, 27, 45, 119, 153, 176, 203, 70, 202],
     [69, 207, 74, 222, 121, 139, 134, 145, 168, 227, 62, 66, 198, 81, 243, 14],
     [18, 54, 90, 238, 41, 123, 141, 140, 143, 138, 133, 148, 167, 242, 13, 23],
     [57, 75, 221, 124, 132, 151, 162, 253, 28, 36, 108, 180, 199, 82, 246, 1]]"

definition ltab :: "bytes" where
  "ltab = concat [
     [0, 255, 25, 1, 50, 2, 26, 198, 75, 199, 27, 104, 51, 238, 223, 3],
     [100, 4, 224, 14, 52, 141, 129, 239, 76, 113, 8, 200, 248, 105, 28, 193],
     [125, 194, 29, 181, 249, 185, 39, 106, 77, 228, 166, 114, 154, 201, 9, 120],
     [101, 47, 138, 5, 33, 15, 225, 36, 18, 240, 130, 69, 53, 147, 218, 142],
     [150, 143, 219, 189, 54, 208, 206, 148, 19, 92, 210, 241, 64, 70, 131, 56],
     [102, 221, 253, 48, 191, 6, 139, 98, 179, 37, 226, 152, 34, 136, 145, 16],
     [126, 110, 72, 195, 163, 182, 30, 66, 58, 107, 40, 84, 250, 133, 61, 186],
     [43, 121, 10, 21, 155, 159, 94, 202, 78, 212, 172, 229, 243, 115, 167, 87],
     [175, 88, 168, 80, 244, 234, 214, 116, 79, 174, 233, 213, 231, 230, 173, 232],
     [44, 215, 117, 122, 235, 22, 11, 245, 89, 203, 95, 176, 156, 169, 81, 160],
     [127, 12, 246, 111, 23, 196, 73, 236, 216, 67, 31, 45, 164, 118, 123, 183],
     [204, 187, 62, 90, 251, 96, 177, 134, 59, 82, 161, 108, 170, 85, 41, 157],
     [151, 178, 135, 144, 97, 190, 220, 252, 188, 149, 207, 205, 55, 63, 91, 209],
     [83, 57, 132, 60, 65, 162, 109, 71, 20, 42, 158, 93, 86, 242, 211, 171],
     [68, 17, 146, 217, 35, 32, 46, 137, 180, 124, 184, 38, 119, 153, 227, 165],
     [103, 74, 237, 222, 197, 49, 254, 24, 13, 99, 140, 128, 192, 247, 112, 7]]"

definition fbsub :: "bytes" where
  "fbsub = concat [
     [99, 124, 119, 123, 242, 107, 111, 197, 48, 1, 103, 43, 254, 215, 171, 118],
     [202, 130, 201, 125, 250, 89, 71, 240, 173, 212, 162, 175, 156, 164, 114, 192],
     [183, 253, 147, 38, 54, 63, 247, 204, 52, 165, 229, 241, 113, 216, 49, 21],
     [4, 199, 35, 195, 24, 150, 5, 154, 7, 18, 128, 226, 235, 39, 178, 117],
     [9, 131, 44, 26, 27, 110, 90, 160, 82, 59, 214, 179, 41, 227, 47, 132],
     [83, 209, 0, 237, 32, 252, 177, 91, 106, 203, 190, 57, 74, 76, 88, 207],
     [208, 239, 170, 251, 67, 77, 51, 133, 69, 249, 2, 127, 80, 60, 159, 168],
     [81, 163, 64, 143, 146, 157, 56, 245, 188, 182, 218, 33, 16, 255, 243, 210],
     [205, 12, 19, 236, 95, 151, 68, 23, 196, 167, 126, 61, 100, 93, 25, 115],
     [96, 129, 79, 220, 34, 42, 144, 136, 70, 238, 184, 20, 222, 94, 11, 219],
     [224, 50, 58, 10, 73, 6, 36, 92, 194, 211, 172, 98, 145, 149, 228, 121],
     [231, 200, 55, 109, 141, 213, 78, 169, 108, 86, 244, 234, 101, 122, 174, 8],
     [186, 120, 37, 46, 28, 166, 180, 198, 232, 221, 116, 31, 75, 189, 139, 138],
     [112, 62, 181, 102, 72, 3, 246, 14, 97, 53, 87, 185, 134, 193, 29, 158],
     [225, 248, 152, 17, 105, 217, 142, 148, 155, 30, 135, 233, 206, 85, 40, 223],
     [140, 161, 137, 13, 191, 230, 66, 104, 65, 153, 45, 15, 176, 84, 187, 22]]"

definition rbsub :: "bytes" where
  "rbsub = concat [
     [82, 9, 106, 213, 48, 54, 165, 56, 191, 64, 163, 158, 129, 243, 215, 251],
     [124, 227, 57, 130, 155, 47, 255, 135, 52, 142, 67, 68, 196, 222, 233, 203],
     [84, 123, 148, 50, 166, 194, 35, 61, 238, 76, 149, 11, 66, 250, 195, 78],
     [8, 46, 161, 102, 40, 217, 36, 178, 118, 91, 162, 73, 109, 139, 209, 37],
     [114, 248, 246, 100, 134, 104, 152, 22, 212, 164, 92, 204, 93, 101, 182, 146],
     [108, 112, 72, 80, 253, 237, 185, 218, 94, 21, 70, 87, 167, 141, 157, 132],
     [144, 216, 171, 0, 140, 188, 211, 10, 247, 228, 88, 5, 184, 179, 69, 6],
     [208, 44, 30, 143, 202, 63, 15, 2, 193, 175, 189, 3, 1, 19, 138, 107],
     [58, 145, 17, 65, 79, 103, 220, 234, 151, 242, 207, 206, 240, 180, 230, 115],
     [150, 172, 116, 34, 231, 173, 53, 133, 226, 249, 55, 232, 28, 117, 223, 110],
     [71, 241, 26, 113, 29, 41, 197, 137, 111, 183, 98, 14, 170, 24, 190, 27],
     [252, 86, 62, 75, 198, 210, 121, 32, 154, 219, 192, 254, 120, 205, 90, 244],
     [31, 221, 168, 51, 136, 7, 199, 49, 177, 18, 16, 89, 39, 128, 236, 95],
     [96, 81, 127, 169, 25, 181, 74, 13, 45, 229, 122, 159, 147, 201, 156, 239],
     [160, 224, 59, 77, 174, 42, 245, 176, 200, 235, 187, 60, 131, 83, 153, 97],
     [23, 43, 4, 126, 186, 119, 214, 38, 225, 105, 20, 99, 85, 33, 12, 125]]"

definition rco :: "u32 list" where
  "rco = [1, 2, 4, 8, 16, 32, 64, 128, 27, 54, 108, 216, 171, 77, 154, 47]"

definition ftable :: "u32 list" where
  "ftable = concat [
     [0xa56363c6, 0x847c7cf8, 0x997777ee, 0x8d7b7bf6, 0xdf2f2ff, 0xbd6b6bd6, 0xb16f6fde, 0x54c5c591],
     [0x50303060, 0x3010102, 0xa96767ce, 0x7d2b2b56, 0x19fefee7, 0x62d7d7b5, 0xe6abab4d, 0x9a7676ec],
     [0x45caca8f, 0x9d82821f, 0x40c9c989, 0x877d7dfa, 0x15fafaef, 0xeb5959b2, 0xc947478e, 0xbf0f0fb],
     [0xecadad41, 0x67d4d4b3, 0xfda2a25f, 0xeaafaf45, 0xbf9c9c23, 0xf7a4a453, 0x967272e4, 0x5bc0c09b],
     [0xc2b7b775, 0x1cfdfde1, 0xae93933d, 0x6a26264c, 0x5a36366c, 0x413f3f7e, 0x2f7f7f5, 0x4fcccc83],
     [0x5c343468, 0xf4a5a551, 0x34e5e5d1, 0x8f1f1f9, 0x937171e2, 0x73d8d8ab, 0x53313162, 0x3f15152a],
     [0xc040408, 0x52c7c795, 0x65232346, 0x5ec3c39d, 0x28181830, 0xa1969637, 0xf05050a, 0xb59a9a2f],
     [0x907070e, 0x36121224, 0x9b80801b, 0x3de2e2df, 0x26ebebcd, 0x6927274e, 0xcdb2b27f, 0x9f7575ea],
     [0x1b090912, 0x9e83831d, 0x742c2c58, 0x2e1a1a34, 0x2d1b1b36, 0xb26e6edc, 0xee5a5ab4, 0xfba0a05b],
     [0xf65252a4, 0x4d3b3b76, 0x61d6d6b7, 0xceb3b37d, 0x7b292952, 0x3ee3e3dd, 0x712f2f5e, 0x97848413],
     [0xf55353a6, 0x68d1d1b9, 0x0, 0x2cededc1, 0x60202040, 0x1ffcfce3, 0xc8b1b179, 0xed5b5bb6],
     [0xbe6a6ad4, 0x46cbcb8d, 0xd9bebe67, 0x4b393972, 0xde4a4a94, 0xd44c4c98, 0xe85858b0, 0x4acfcf85],
     [0x6bd0d0bb, 0x2aefefc5, 0xe5aaaa4f, 0x16fbfbed, 0xc5434386, 0xd74d4d9a, 0x55333366, 0x94858511],
     [0xcf45458a, 0x10f9f9e9, 0x6020204, 0x817f7ffe, 0xf05050a0, 0x443c3c78, 0xba9f9f25, 0xe3a8a84b],
     [0xf35151a2, 0xfea3a35d, 0xc0404080, 0x8a8f8f05, 0xad92923f, 0xbc9d9d21, 0x48383870, 0x4f5f5f1],
     [0xdfbcbc63, 0xc1b6b677, 0x75dadaaf, 0x63212142, 0x30101020, 0x1affffe5, 0xef3f3fd, 0x6dd2d2bf],
     [0x4ccdcd81, 0x140c0c18, 0x35131326, 0x2fececc3, 0xe15f5fbe, 0xa2979735, 0xcc444488, 0x3917172e],
     [0x57c4c493, 0xf2a7a755, 0x827e7efc, 0x473d3d7a, 0xac6464c8, 0xe75d5dba, 0x2b191932, 0x957373e6],
     [0xa06060c0, 0x98818119, 0xd14f4f9e, 0x7fdcdca3, 0x66222244, 0x7e2a2a54, 0xab90903b, 0x8388880b],
     [0xca46468c, 0x29eeeec7, 0xd3b8b86b, 0x3c141428, 0x79dedea7, 0xe25e5ebc, 0x1d0b0b16, 0x76dbdbad],
     [0x3be0e0db, 0x56323264, 0x4e3a3a74, 0x1e0a0a14, 0xdb494992, 0xa06060c, 0x6c242448, 0xe45c5cb8],
     [0x5dc2c29f, 0x6ed3d3bd, 0xefacac43, 0xa66262c4, 0xa8919139, 0xa4959531, 0x37e4e4d3, 0x8b7979f2],
     [0x32e7e7d5, 0x43c8c88b, 0x5937376e, 0xb76d6dda, 0x8c8d8d01, 0x64d5d5b1, 0xd24e4e9c, 0xe0a9a949],
     [0xb46c6cd8, 0xfa5656ac, 0x7f4f4f3, 0x25eaeacf, 0xaf6565ca, 0x8e7a7af4, 0xe9aeae47, 0x18080810],
     [0xd5baba6f, 0x887878f0, 0x6f25254a, 0x722e2e5c, 0x241c1c38, 0xf1a6a657, 0xc7b4b473, 0x51c6c697],
     [0x23e8e8cb, 0x7cdddda1, 0x9c7474e8, 0x211f1f3e, 0xdd4b4b96, 0xdcbdbd61, 0x868b8b0d, 0x858a8a0f],
     [0x907070e0, 0x423e3e7c, 0xc4b5b571, 0xaa6666cc, 0xd8484890, 0x5030306, 0x1f6f6f7, 0x120e0e1c],
     [0xa36161c2, 0x5f35356a, 0xf95757ae, 0xd0b9b969, 0x91868617, 0x58c1c199, 0x271d1d3a, 0xb99e9e27],
     [0x38e1e1d9, 0x13f8f8eb, 0xb398982b, 0x33111122, 0xbb6969d2, 0x70d9d9a9, 0x898e8e07, 0xa7949433],
     [0xb69b9b2d, 0x221e1e3c, 0x92878715, 0x20e9e9c9, 0x49cece87, 0xff5555aa, 0x78282850, 0x7adfdfa5],
     [0x8f8c8c03, 0xf8a1a159, 0x80898909, 0x170d0d1a, 0xdabfbf65, 0x31e6e6d7, 0xc6424284, 0xb86868d0],
     [0xc3414182, 0xb0999929, 0x772d2d5a, 0x110f0f1e, 0xcbb0b07b, 0xfc5454a8, 0xd6bbbb6d, 0x3a16162c]]"

definition rtable :: "u32 list" where
  "rtable = concat [
     [0x50a7f451, 0x5365417e, 0xc3a4171a, 0x965e273a, 0xcb6bab3b, 0xf1459d1f, 0xab58faac, 0x9303e34b],
     [0x55fa3020, 0xf66d76ad, 0x9176cc88, 0x254c02f5, 0xfcd7e54f, 0xd7cb2ac5, 0x80443526, 0x8fa362b5],
     [0x495ab1de, 0x671bba25, 0x980eea45, 0xe1c0fe5d, 0x2752fc3, 0x12f04c81, 0xa397468d, 0xc6f9d36b],
     [0xe75f8f03, 0x959c9215, 0xeb7a6dbf, 0xda595295, 0x2d83bed4, 0xd3217458, 0x2969e049, 0x44c8c98e],
     [0x6a89c275, 0x78798ef4, 0x6b3e5899, 0xdd71b927, 0xb64fe1be, 0x17ad88f0, 0x66ac20c9, 0xb43ace7d],
     [0x184adf63, 0x82311ae5, 0x60335197, 0x457f5362, 0xe07764b1, 0x84ae6bbb, 0x1ca081fe, 0x942b08f9],
     [0x58684870, 0x19fd458f, 0x876cde94, 0xb7f87b52, 0x23d373ab, 0xe2024b72, 0x578f1fe3, 0x2aab5566],
     [0x728ebb2, 0x3c2b52f, 0x9a7bc586, 0xa50837d3, 0xf2872830, 0xb2a5bf23, 0xba6a0302, 0x5c8216ed],
     [0x2b1ccf8a, 0x92b479a7, 0xf0f207f3, 0xa1e2694e, 0xcdf4da65, 0xd5be0506, 0x1f6234d1, 0x8afea6c4],
     [0x9d532e34, 0xa055f3a2, 0x32e18a05, 0x75ebf6a4, 0x39ec830b, 0xaaef6040, 0x69f715e, 0x51106ebd],
     [0xf98a213e, 0x3d06dd96, 0xae053edd, 0x46bde64d, 0xb58d5491, 0x55dc471, 0x6fd40604, 0xff155060],
     [0x24fb9819, 0x97e9bdd6, 0xcc434089, 0x779ed967, 0xbd42e8b0, 0x888b8907, 0x385b19e7, 0xdbeec879],
     [0x470a7ca1, 0xe90f427c, 0xc91e84f8, 0x0, 0x83868009, 0x48ed2b32, 0xac70111e, 0x4e725a6c],
     [0xfbff0efd, 0x5638850f, 0x1ed5ae3d, 0x27392d36, 0x64d90f0a, 0x21a65c68, 0xd1545b9b, 0x3a2e3624],
     [0xb1670a0c, 0xfe75793, 0xd296eeb4, 0x9e919b1b, 0x4fc5c080, 0xa220dc61, 0x694b775a, 0x161a121c],
     [0xaba93e2, 0xe52aa0c0, 0x43e0223c, 0x1d171b12, 0xb0d090e, 0xadc78bf2, 0xb9a8b62d, 0xc8a91e14],
     [0x8519f157, 0x4c0775af, 0xbbdd99ee, 0xfd607fa3, 0x9f2601f7, 0xbcf5725c, 0xc53b6644, 0x347efb5b],
     [0x7629438b, 0xdcc623cb, 0x68fcedb6, 0x63f1e4b8, 0xcadc31d7, 0x10856342, 0x40229713, 0x2011c684],
     [0x7d244a85, 0xf83dbbd2, 0x1132f9ae, 0x6da129c7, 0x4b2f9e1d, 0xf330b2dc, 0xec52860d, 0xd0e3c177],
     [0x6c16b32b, 0x99b970a9, 0xfa489411, 0x2264e947, 0xc48cfca8, 0x1a3ff0a0, 0xd82c7d56, 0xef903322],
     [0xc74e4987, 0xc1d138d9, 0xfea2ca8c, 0x360bd498, 0xcf81f5a6, 0x28de7aa5, 0x268eb7da, 0xa4bfad3f],
     [0xe49d3a2c, 0xd927850, 0x9bcc5f6a, 0x62467e54, 0xc2138df6, 0xe8b8d890, 0x5ef7392e, 0xf5afc382],
     [0xbe805d9f, 0x7c93d069, 0xa92dd56f, 0xb31225cf, 0x3b99acc8, 0xa77d1810, 0x6e639ce8, 0x7bbb3bdb],
     [0x97826cd, 0xf418596e, 0x1b79aec, 0xa89a4f83, 0x656e95e6, 0x7ee6ffaa, 0x8cfbc21, 0xe6e815ef],
     [0xd99be7ba, 0xce366f4a, 0xd4099fea, 0xd67cb029, 0xafb2a431, 0x31233f2a, 0x3094a5c6, 0xc066a235],
     [0x37bc4e74, 0xa6ca82fc, 0xb0d090e0, 0x15d8a733, 0x4a9804f1, 0xf7daec41, 0xe50cd7f, 0x2ff69117],
     [0x8dd64d76, 0x4db0ef43, 0x544daacc, 0xdf0496e4, 0xe3b5d19e, 0x1b886a4c, 0xb81f2cc1, 0x7f516546],
     [0x4ea5e9d, 0x5d358c01, 0x737487fa, 0x2e410bfb, 0x5a1d67b3, 0x52d2db92, 0x335610e9, 0x1347d66d],
     [0x8c61d79a, 0x7a0ca137, 0x8e14f859, 0x893c13eb, 0xee27a9ce, 0x35c961b7, 0xede51ce1, 0x3cb1477a],
     [0x59dfd29c, 0x3f73f255, 0x79ce1418, 0xbf37c773, 0xeacdf753, 0x5baafd5f, 0x146f3ddf, 0x86db4478],
     [0x81f3afca, 0x3ec468b9, 0x2c342438, 0x5f40a3c2, 0x72c31d16, 0xc25e2bc, 0x8b493c28, 0x41950dff],
     [0x7101a839, 0xdeb30c08, 0x9ce4b4d8, 0x90c15664, 0x6184cb7b, 0x70b632d5, 0x745c6c48, 0x4257b8d0]]"


section \<open>The code\<close>

subsection \<open>Words and bytes\<close>

definition ROTL8 :: "u32 \<Rightarrow> u32" where
  "ROTL8 x = push_bit 8 x OR drop_bit 24 x"

definition ROTL16 :: "u32 \<Rightarrow> u32" where
  "ROTL16 x = push_bit 16 x OR drop_bit 16 x"

definition ROTL24 :: "u32 \<Rightarrow> u32" where
  "ROTL24 x = push_bit 24 x OR drop_bit 8 x"

definition MR_TOBYTE :: "u32 \<Rightarrow> u8" where
  "MR_TOBYTE x = ucast x"

definition aes_pack :: "bytes \<Rightarrow> u32" where
  "aes_pack b = push_bit 24 (ucast (b ! 3)) OR push_bit 16 (ucast (b ! 2)) OR push_bit 8 (ucast (b ! 1)) OR ucast (b ! 0)"

definition aes_unpack :: "u32 \<Rightarrow> bytes" where
  "aes_unpack a =
     [MR_TOBYTE a, MR_TOBYTE (drop_bit 8 a), MR_TOBYTE (drop_bit 16 a), MR_TOBYTE (drop_bit 24 a)]"

definition bmul :: "u8 \<Rightarrow> u8 \<Rightarrow> u8" where
  "bmul x y =
     (if x \<noteq> 0 \<and> y \<noteq> 0 then ptab ! ((unat (ltab ! unat x) + unat (ltab ! unat y)) mod 255) else 0)"

definition SubByte :: "u32 \<Rightarrow> u32" where
  "SubByte a =
     (let b = aes_unpack a;
          b = b[0 := fbsub ! unat (b ! 0)];
          b = b[1 := fbsub ! unat (b ! 1)];
          b = b[2 := fbsub ! unat (b ! 2)];
          b = b[3 := fbsub ! unat (b ! 3)]
      in aes_pack b)"

definition product_aes :: "u32 \<Rightarrow> u32 \<Rightarrow> u8" where
  "product_aes x y =
     (let xb = aes_unpack x; yb = aes_unpack y
      in bmul (xb ! 0) (yb ! 0) XOR bmul (xb ! 1) (yb ! 1) XOR bmul (xb ! 2) (yb ! 2) XOR bmul (xb ! 3) (yb ! 3))"

definition InvMixCol :: "u32 \<Rightarrow> u32" where
  "InvMixCol x =
     (let m = aes_pack InCo; b3 = product_aes m x;
          m = ROTL24 m; b2 = product_aes m x;
          m = ROTL24 m; b1 = product_aes m x;
          m = ROTL24 m; b0 = product_aes m x
      in aes_pack [b0, b1, b2, b3])"

subsection \<open>The instance and its key schedule\<close>

abbreviation (input) "ECB \<equiv> 0 :: int"
abbreviation (input) "CBC \<equiv> 1 :: int"
abbreviation (input) "CFB1 \<equiv> 2 :: int"
abbreviation (input) "CFB2 \<equiv> 3 :: int"
abbreviation (input) "CFB4 \<equiv> 5 :: int"
abbreviation (input) "OFB1 \<equiv> 14 :: int"
abbreviation (input) "OFB2 \<equiv> 15 :: int"
abbreviation (input) "OFB4 \<equiv> 17 :: int"
abbreviation (input) "OFB8 \<equiv> 21 :: int"
abbreviation (input) "OFB16 \<equiv> 29 :: int"

record mcl_aes =
  aes_Nk :: nat
  aes_Nr :: nat
  aes_mode :: int
  aes_fkey :: "u32 list"
  aes_rkey :: "u32 list"
  aes_f :: bytes

text \<open>The initialisation vector is a pointer, which may be \<^verbatim>\<open>NULL\<close>.\<close>

definition MCL_AES_reset :: "mcl_aes \<Rightarrow> int \<Rightarrow> bytes option \<Rightarrow> mcl_aes" where
  "MCL_AES_reset a mode iv =
     (let a = a\<lparr>aes_mode := mode, aes_f := for_loop 0 16 (\<lambda>i f. f[i := 0]) (aes_f a)\<rparr>
      in case iv of
           None \<Rightarrow> a
         | Some iv \<Rightarrow>
             if mode \<noteq> ECB then a\<lparr>aes_f := for_loop 0 16 (\<lambda>i f. f[i := iv ! i]) (aes_f a)\<rparr> else a)"

definition MCL_AES_getreg :: "mcl_aes \<Rightarrow> bytes \<Rightarrow> bytes" where
  "MCL_AES_getreg a ir = for_loop 0 16 (\<lambda>i ir. ir[i := aes_f a ! i]) ir"

text \<open>
  The body of the loop that expands the key, for one stretch of \<open>nk\<close> words from \<open>j\<close>, and the loop. The loop
  runs for \<open>nk\<close> equal to 4, 6 or 8 only; that it advances is written into the guard.
\<close>

definition expand_word :: "nat \<Rightarrow> nat \<Rightarrow> u32 list \<Rightarrow> u32 list" where
  "expand_word nk n key = key[n := key ! (n - nk) XOR key ! (n - 1)]"

definition expand_stretch :: "nat \<Rightarrow> nat \<Rightarrow> nat \<Rightarrow> nat \<Rightarrow> u32 list \<Rightarrow> u32 list" where
  "expand_stretch nk N j k key =
     (let key = key[j := key ! (j - nk) XOR SubByte (ROTL24 (key ! (j - 1))) XOR rco ! k]
      in if nk \<le> 6 then for_loop 1 nk (\<lambda>i key. if i + j < N then expand_word nk (i + j) key else key) key
         else
           (let key = for_loop 1 4 (\<lambda>i key. if i + j < N then expand_word nk (i + j) key else key) key;
                key = (if j + 4 < N then key[j + 4 := key ! (j + 4 - nk) XOR SubByte (key ! (j + 3))] else key)
            in for_loop 5 nk (\<lambda>i key. if i + j < N then expand_word nk (i + j) key else key) key))"

function expand_key :: "nat \<Rightarrow> nat \<Rightarrow> nat \<Rightarrow> nat \<Rightarrow> u32 list \<Rightarrow> u32 list" where
  "expand_key nk N j k key =
     (if j < N \<and> 0 < nk then expand_key nk N (j + nk) (k + 1) (expand_stretch nk N j k key) else key)"
  by pat_completeness auto
termination by (relation "measure (\<lambda>(nk, N, j, k, key). N - j)") auto

declare expand_key.simps [simp del]

text \<open>The decryption keys: the rounds in reverse order, all but the outer two through \<open>InvMixCol\<close>.\<close>

definition reverse_key :: "nat \<Rightarrow> u32 list \<Rightarrow> u32 list \<Rightarrow> u32 list" where
  "reverse_key N fkey rkey =
     (let rkey = for_loop 0 4 (\<lambda>j r. r[j + N - 4 := fkey ! j]) rkey;
          rkey = for_loop 1 (N div 4 - 1) (\<lambda>i4 r.
                   let i = 4 * i4; k = N - 4 - i
                   in for_loop 0 4 (\<lambda>j r. r[k + j := InvMixCol (fkey ! (i + j))]) r) rkey
      in for_loop (N - 4) N (\<lambda>j r. r[j + 4 - N := fkey ! j]) rkey)"

definition MCL_AES_init :: "mcl_aes \<Rightarrow> int \<Rightarrow> int \<Rightarrow> bytes \<Rightarrow> bytes option \<Rightarrow> int \<times> mcl_aes" where
  "MCL_AES_init a mode nk key iv =
     (let nk = nk sdiv 4
      in if nk \<noteq> 4 \<and> nk \<noteq> 6 \<and> nk \<noteq> 8 then (0, a)
         else
           (let nk = nat nk;
                nr = 6 + nk;
                a = MCL_AES_reset (a\<lparr>aes_Nk := nk, aes_Nr := nr\<rparr>) mode iv;
                N = 4 * (nr + 1);
                CipherKey = map (\<lambda>i. aes_pack (drop (4 * i) key)) [0..<nk];
                fkey = for_loop 0 nk (\<lambda>i fk. fk[i := CipherKey ! i]) (aes_fkey a);
                fkey = expand_key nk N nk 0 fkey
            in (1, a\<lparr>aes_fkey := fkey, aes_rkey := reverse_key N fkey (aes_rkey a)\<rparr>)))"

subsection \<open>One block\<close>

text \<open>
  The right-hand side of each of the four assignments to \<^verbatim>\<open>y\<close> in a round: the look-up \<open>T\<close> applied to one byte of
  each of four words, rotated into its place. Encryption takes the words to the right, decryption to the left.
\<close>

definition round_word :: "(nat \<Rightarrow> u32) \<Rightarrow> u32 \<Rightarrow> u32 \<Rightarrow> u32 \<Rightarrow> u32 \<Rightarrow> u32 \<Rightarrow> u32" where
  "round_word T key a b c d =
     key XOR T (unat (MR_TOBYTE a)) XOR
     ROTL8 (T (unat (MR_TOBYTE (drop_bit 8 b)))) XOR
     ROTL16 (T (unat (MR_TOBYTE (drop_bit 16 c)))) XOR
     ROTL24 (T (unat (drop_bit 24 d)))"

definition enc_round :: "(nat \<Rightarrow> u32) \<Rightarrow> u32 list \<Rightarrow> nat \<Rightarrow> u32 list \<Rightarrow> u32 list" where
  "enc_round T fkey k x =
     [round_word T (fkey ! k) (x ! 0) (x ! 1) (x ! 2) (x ! 3),
      round_word T (fkey ! (k + 1)) (x ! 1) (x ! 2) (x ! 3) (x ! 0),
      round_word T (fkey ! (k + 2)) (x ! 2) (x ! 3) (x ! 0) (x ! 1),
      round_word T (fkey ! (k + 3)) (x ! 3) (x ! 0) (x ! 1) (x ! 2)]"

definition dec_round :: "(nat \<Rightarrow> u32) \<Rightarrow> u32 list \<Rightarrow> nat \<Rightarrow> u32 list \<Rightarrow> u32 list" where
  "dec_round T rkey k x =
     [round_word T (rkey ! k) (x ! 0) (x ! 3) (x ! 2) (x ! 1),
      round_word T (rkey ! (k + 1)) (x ! 1) (x ! 0) (x ! 3) (x ! 2),
      round_word T (rkey ! (k + 2)) (x ! 2) (x ! 1) (x ! 0) (x ! 3),
      round_word T (rkey ! (k + 3)) (x ! 3) (x ! 2) (x ! 1) (x ! 0)]"

definition load_block :: "u32 list \<Rightarrow> bytes \<Rightarrow> u32 list" where
  "load_block key buff = map (\<lambda>i. aes_pack (drop (4 * i) buff) XOR key ! i) [0..<4]"

definition store_block :: "u32 list \<Rightarrow> bytes \<Rightarrow> bytes" where
  "store_block y buff = for_loop 0 4 (\<lambda>i buff. put_bytes buff (4 * i) (aes_unpack (y ! i))) buff"

definition MCL_AES_ecb_encrypt :: "mcl_aes \<Rightarrow> bytes \<Rightarrow> bytes" where
  "MCL_AES_ecb_encrypt a buff =
     (let (k, x) = for_loop 1 (aes_Nr a) (\<lambda>i (k, x). (k + 4, enc_round (\<lambda>n. ftable ! n) (aes_fkey a) k x))
                     (4, load_block (aes_fkey a) buff);
          y = enc_round (\<lambda>n. ucast (fbsub ! n)) (aes_fkey a) k x
      in store_block y buff)"

definition MCL_AES_ecb_decrypt :: "mcl_aes \<Rightarrow> bytes \<Rightarrow> bytes" where
  "MCL_AES_ecb_decrypt a buff =
     (let (k, x) = for_loop 1 (aes_Nr a) (\<lambda>i (k, x). (k + 4, dec_round (\<lambda>n. rtable ! n) (aes_rkey a) k x))
                     (4, load_block (aes_rkey a) buff);
          y = dec_round (\<lambda>n. ucast (rbsub ! n)) (aes_rkey a) k x
      in store_block y buff)"

subsection \<open>Modes of operation\<close>

text \<open>\<^verbatim>\<open>buff[j] ^= st[j]\<close> for the first bytes, and the two halves of cipher feedback before and after the cipher.\<close>

definition xor_into :: "nat \<Rightarrow> bytes \<Rightarrow> bytes \<Rightarrow> bytes" where
  "xor_into n st buff = for_loop 0 n (\<lambda>j buff. buff[j := buff ! j XOR st ! j]) buff"

definition fell_off_bytes :: "nat \<Rightarrow> bytes \<Rightarrow> u32" where
  "fell_off_bytes n f = for_loop 0 n (\<lambda>j w. push_bit 8 w OR ucast (f ! j)) 0"

definition shift_reg :: "nat \<Rightarrow> bytes \<Rightarrow> bytes" where
  "shift_reg n f = for_loop n 16 (\<lambda>j f. f[j - n := f ! j]) f"

definition MCL_AES_encrypt :: "mcl_aes \<Rightarrow> bytes \<Rightarrow> u32 \<times> mcl_aes \<times> bytes" where
  "MCL_AES_encrypt a buff =
     (if aes_mode a = ECB then (0, a, MCL_AES_ecb_encrypt a buff)
      else if aes_mode a = CBC then
        (let buff = MCL_AES_ecb_encrypt a (xor_into 16 (aes_f a) buff)
         in (0, a\<lparr>aes_f := for_loop 0 16 (\<lambda>j f. f[j := buff ! j]) (aes_f a)\<rparr>, buff))
      else if aes_mode a = CFB1 \<or> aes_mode a = CFB2 \<or> aes_mode a = CFB4 then
        (let n = nat (aes_mode a - CFB1 + 1);
             fell_off = fell_off_bytes n (aes_f a);
             st = map (\<lambda>j. aes_f a ! j) [0..<16];
             f = shift_reg n (aes_f a);
             st = MCL_AES_ecb_encrypt a st;
             (buff, f) = for_loop 0 n (\<lambda>j (buff, f).
               let buff = buff[j := buff ! j XOR st ! j] in (buff, f[16 - n + j := buff ! j])) (buff, f)
         in (fell_off, a\<lparr>aes_f := f\<rparr>, buff))
      else if aes_mode a = OFB1 \<or> aes_mode a = OFB2 \<or> aes_mode a = OFB4 \<or> aes_mode a = OFB8 \<or> aes_mode a = OFB16 then
        (let n = nat (aes_mode a - OFB1 + 1);
             a = a\<lparr>aes_f := MCL_AES_ecb_encrypt a (aes_f a)\<rparr>
         in (0, a, xor_into n (aes_f a) buff))
      else (0, a, buff))"

definition MCL_AES_decrypt :: "mcl_aes \<Rightarrow> bytes \<Rightarrow> u32 \<times> mcl_aes \<times> bytes" where
  "MCL_AES_decrypt a buff =
     (if aes_mode a = ECB then (0, a, MCL_AES_ecb_decrypt a buff)
      else if aes_mode a = CBC then
        (let st = map (\<lambda>j. aes_f a ! j) [0..<16];
             a = a\<lparr>aes_f := for_loop 0 16 (\<lambda>j f. f[j := buff ! j]) (aes_f a)\<rparr>
         in (0, a, xor_into 16 st (MCL_AES_ecb_decrypt a buff)))
      else if aes_mode a = CFB1 \<or> aes_mode a = CFB2 \<or> aes_mode a = CFB4 then
        (let n = nat (aes_mode a - CFB1 + 1);
             fell_off = fell_off_bytes n (aes_f a);
             st = map (\<lambda>j. aes_f a ! j) [0..<16];
             f = shift_reg n (aes_f a);
             st = MCL_AES_ecb_encrypt a st;
             (buff, f) = for_loop 0 n (\<lambda>j (buff, f).
               let f = f[16 - n + j := buff ! j] in (buff[j := buff ! j XOR st ! j], f)) (buff, f)
         in (fell_off, a\<lparr>aes_f := f\<rparr>, buff))
      else if aes_mode a = OFB1 \<or> aes_mode a = OFB2 \<or> aes_mode a = OFB4 \<or> aes_mode a = OFB8 \<or> aes_mode a = OFB16 then
        (let n = nat (aes_mode a - OFB1 + 1);
             a = a\<lparr>aes_f := MCL_AES_ecb_encrypt a (aes_f a)\<rparr>
         in (0, a, xor_into n (aes_f a) buff))
      else (0, a, buff))"

definition MCL_AES_end :: "mcl_aes \<Rightarrow> mcl_aes" where
  "MCL_AES_end a =
     (let N = 4 * (aes_Nr a + 1);
          (rk, fk) = for_loop 0 N (\<lambda>i (rk, fk). (rk[i := 0], fk[i := 0])) (aes_rkey a, aes_fkey a)
      in a\<lparr>aes_fkey := fk, aes_rkey := rk, aes_f := for_loop 0 16 (\<lambda>i f. f[i := 0]) (aes_f a)\<rparr>)"

section \<open>A word as four bytes\<close>

definition word4 :: "u8 \<Rightarrow> u8 \<Rightarrow> u8 \<Rightarrow> u8 \<Rightarrow> u32" where
  "word4 a b c d = aes_pack [a, b, c, d]"

named_theorems word4_simps \<open>operations on words given by their bytes\<close>

lemma bit_word4:
  "bit (word4 a b c d) n \<longleftrightarrow>
     (if n < 8 then bit a n else if n < 16 then bit b (n - 8) else if n < 24 then bit c (n - 16) else bit d (n - 24))"
  by (auto simp: word4_def aes_pack_def bit_simps dest: bit_imp_le_length)

lemma xor_word4 [word4_simps]:
  "word4 a b c d XOR word4 a' b' c' d' = word4 (a XOR a') (b XOR b') (c XOR c') (d XOR d')"
  by (rule bit_word_eqI) (simp add: bit_word4 bit_xor_iff)

lemma ROTL8_word4 [word4_simps]: "ROTL8 (word4 a b c d) = word4 d a b c"
  by (rule bit_word_eqI) (auto simp: ROTL8_def bit_simps bit_word4 dest: bit_imp_le_length)

lemma ROTL16_word4 [word4_simps]: "ROTL16 (word4 a b c d) = word4 c d a b"
  by (rule bit_word_eqI) (auto simp: ROTL16_def bit_simps bit_word4 dest: bit_imp_le_length)

lemma ROTL24_word4 [word4_simps]: "ROTL24 (word4 a b c d) = word4 b c d a"
  by (rule bit_word_eqI) (auto simp: ROTL24_def bit_simps bit_word4 dest: bit_imp_le_length)

lemma ucast_word4: "ucast (b :: u8) = word4 b 0 0 0"
  by (rule bit_word_eqI) (auto simp: bit_simps bit_word4 dest: bit_imp_le_length)

lemma bytes_word4 [word4_simps]:
  "MR_TOBYTE (word4 a b c d) = a"
  "MR_TOBYTE (drop_bit 8 (word4 a b c d)) = b"
  "MR_TOBYTE (drop_bit 16 (word4 a b c d)) = c"
  "MR_TOBYTE (drop_bit 24 (word4 a b c d)) = d"
  by (auto intro!: bit_word_eqI simp: MR_TOBYTE_def bit_simps bit_word4)

lemma top_byte_word4 [word4_simps]: "unat (drop_bit 24 (word4 a b c d)) = unat d"
proof -
  have "drop_bit 24 (word4 a b c d) = ucast d"
    by (rule bit_word_eqI) (auto simp: bit_simps bit_word4 dest: bit_imp_le_length)
  moreover have "unat d < 2 ^ 32" using unsigned_less [of d, where ?'a = nat] by simp
  ultimately show ?thesis by (simp add: unsigned_ucast_eq take_bit_nat_eq_self)
qed

lemma unpack_word4 [word4_simps]: "aes_unpack (word4 a b c d) = [a, b, c, d]"
  by (simp add: aes_unpack_def word4_simps)

lemma pack_word4 [word4_simps]: "aes_pack [a, b, c, d] = word4 a b c d"
  by (simp add: word4_def)

lemma word4_bytes:
  "word4 (MR_TOBYTE w) (MR_TOBYTE (drop_bit 8 w)) (MR_TOBYTE (drop_bit 16 w)) (MR_TOBYTE (drop_bit 24 w)) = w"
  by (rule bit_word_eqI) (auto simp: MR_TOBYTE_def bit_simps bit_word4 dest: bit_imp_le_length)

lemma word4_cases: obtains a b c d where "w = word4 a b c d"
  using word4_bytes [of w] by metis

lemma word4_eq_iff [word4_simps]:
  "word4 a b c d = word4 a' b' c' d' \<longleftrightarrow> a = a' \<and> b = b' \<and> c = c' \<and> d = d'"
  by (metis bytes_word4)

section \<open>The field of bytes\<close>

text \<open>Multiplication in GF(2^8) modulo x^8 + x^4 + x^3 + x + 1, by shift and add, as FIPS 197 defines it.\<close>

definition xtime :: "u8 \<Rightarrow> u8" where
  "xtime x = push_bit 1 x XOR (if bit x 7 then 0x1B else 0)"

definition gf_mult :: "u8 \<Rightarrow> u8 \<Rightarrow> u8" where
  "gf_mult x y =
     (if bit x 0 then y else 0) XOR
     (if bit x 1 then xtime y else 0) XOR
     (if bit x 2 then xtime (xtime y) else 0) XOR
     (if bit x 3 then xtime (xtime (xtime y)) else 0) XOR
     (if bit x 4 then xtime (xtime (xtime (xtime y))) else 0) XOR
     (if bit x 5 then xtime (xtime (xtime (xtime (xtime y)))) else 0) XOR
     (if bit x 6 then xtime (xtime (xtime (xtime (xtime (xtime y))))) else 0) XOR
     (if bit x 7 then xtime (xtime (xtime (xtime (xtime (xtime (xtime y)))))) else 0)"

lemma xor_cancel [simp]: "(x :: 'a::len word) XOR (x XOR y) = y"
  by (simp flip: xor.assoc)

lemmas xor_ac = xor.assoc xor.commute xor.left_commute

lemma xtime_xor: "xtime (x XOR y) = xtime x XOR xtime y"
  by (simp add: xtime_def push_bit_xor bit_xor_iff xor_ac)

lemma xtime_0 [simp]: "xtime 0 = 0"
  by (simp add: xtime_def)

lemma gf_mult_xor_left: "gf_mult (x XOR x') y = gf_mult x y XOR gf_mult x' y"
proof -
  have *: "(if p \<noteq> q then z else 0) = (if p then z else 0) XOR (if q then z else (0 :: u8))" for p q z
    by auto
  show ?thesis
    by (simp only: gf_mult_def bit_xor_iff * xor_ac)
qed

lemma gf_mult_xor_right: "gf_mult x (y XOR y') = gf_mult x y XOR gf_mult x y'"
proof -
  have *: "(if p then z XOR z' else 0) = (if p then z else 0) XOR (if p then z' else (0 :: u8))" for p z z'
    by auto
  show ?thesis
    by (simp only: gf_mult_def xtime_xor * xor_ac)
qed

lemma gf_mult_zero [simp]: "gf_mult 0 y = 0" "gf_mult x 0 = 0"
  by (simp_all add: gf_mult_def)

lemma gf_mult_one [simp]: "gf_mult 1 y = y"
  by (simp add: gf_mult_def bit_1_iff)

text \<open>An additive function on bytes is determined by the eight powers of two.\<close>

lemma byte_decompose:
  "y = (if bit y 0 then 1 else 0) XOR (if bit y 1 then 2 else 0) XOR (if bit y 2 then 4 else 0) XOR
       (if bit y 3 then 8 else 0) XOR (if bit y 4 then 16 else 0) XOR (if bit y 5 then 32 else 0) XOR
       (if bit y 6 then 64 else 0) XOR (if bit y 7 then 128 else (0 :: u8))" (is "y = ?s")
proof (rule bit_word_eqI)
  fix n assume "n < LENGTH(8)"
  then have "n \<in> {0, 1, 2, 3, 4, 5, 6, 7}" by auto
  moreover have *: "bit (if p then w else 0 :: u8) n \<longleftrightarrow> p \<and> bit w n" for p w by simp
  ultimately show "bit y n \<longleftrightarrow> bit ?s n"
    unfolding bit_xor_iff * by (elim insertE) (simp_all add: bit_1_iff)
qed

lemma additive_byte_eqI:
  fixes g h :: "u8 \<Rightarrow> 'b::len word"
  assumes g: "\<And>x y. g (x XOR y) = g x XOR g y" and h: "\<And>x y. h (x XOR y) = h x XOR h y"
    and eq: "g 1 = h 1" "g 2 = h 2" "g 4 = h 4" "g 8 = h 8" "g 16 = h 16" "g 32 = h 32" "g 64 = h 64" "g 128 = h 128"
  shows "g y = h y"
proof -
  have 0: "g 0 = 0" "h 0 = 0" using g [of 0 0] h [of 0 0] by simp_all
  have *: "g (if p then w else 0) = (if p then g w else 0)" "h (if p then w else 0) = (if p then h w else 0)" for p w
    by (simp_all add: 0)
  show ?thesis
    by (subst (1 2) byte_decompose [of y]) (simp only: g h * eq)
qed

lemma xtime_powers:
  "xtime 1 = 2" "xtime 2 = 4" "xtime 4 = 8" "xtime 8 = 16" "xtime 16 = 32" "xtime 32 = 64" "xtime 64 = 128"
  "xtime 128 = 27" "xtime 27 = 54" "xtime 54 = 108" "xtime 108 = 216" "xtime 216 = 171" "xtime 171 = 77"
  "xtime 77 = 154" "xtime 154 = 47"
  by (simp_all add: xtime_def)

lemma xtime_reduce:
  "xtime (xtime (xtime (xtime (xtime (xtime (xtime (xtime y))))))) =
     xtime (xtime (xtime (xtime y))) XOR xtime (xtime (xtime y)) XOR xtime y XOR y"
  by (rule additive_byte_eqI [where y = y]) (simp_all add: xtime_xor xtime_powers, simp_all only: xor_ac)

lemma gf_mult_powers:
  "gf_mult 1 y = y"
  "gf_mult 2 y = xtime y"
  "gf_mult 4 y = xtime (xtime y)"
  "gf_mult 8 y = xtime (xtime (xtime y))"
  "gf_mult 16 y = xtime (xtime (xtime (xtime y)))"
  "gf_mult 32 y = xtime (xtime (xtime (xtime (xtime y))))"
  "gf_mult 64 y = xtime (xtime (xtime (xtime (xtime (xtime y)))))"
  "gf_mult 128 y = xtime (xtime (xtime (xtime (xtime (xtime (xtime y))))))"
  "gf_mult 27 y = xtime (xtime (xtime (xtime y))) XOR xtime (xtime (xtime y)) XOR xtime y XOR y"
  by (simp_all add: gf_mult_def xor_ac)

lemma gf_mult_xtime: "gf_mult (xtime x) y = xtime (gf_mult x y)"
  by (rule additive_byte_eqI [where y = x])
     (simp_all only: gf_mult_xor_left xtime_xor xtime_powers gf_mult_powers xtime_reduce)

definition all_bytes :: bytes where
  "all_bytes = map word_of_nat [0..<256]"

lemma in_all_bytes [simp]: "b \<in> set all_bytes"
proof -
  have "b = word_of_nat (unat b)" "unat b \<in> {0..<256}"
    using unsigned_less [of b, where ?'a = nat] by simp_all
  then show ?thesis unfolding all_bytes_def set_map set_upt by (rule image_eqI)
qed

text \<open>The generator 3 and its powers, on which the logarithm tables rest.\<close>

definition mul3 :: "u8 \<Rightarrow> u8" where
  "mul3 x = xtime x XOR x"

lemma gf_mult_mul3: "gf_mult (mul3 x) y = mul3 (gf_mult x y)"
  by (simp add: mul3_def gf_mult_xor_left gf_mult_xtime)

lemma gf_mult_mul3_pow: "gf_mult ((mul3 ^^ n) x) y = (mul3 ^^ n) (gf_mult x y)"
  by (induction n) (simp_all add: gf_mult_mul3)

lemma length_tables [simp]:
  "length ptab = 256" "length ltab = 256" "length fbsub = 256" "length rbsub = 256"
  "length ftable = 256" "length rtable = 256"
  by (simp_all add: ptab_def ltab_def fbsub_def rbsub_def ftable_def rtable_def)

lemma ptab_step: "tl ptab = map mul3 (butlast ptab)"
  by code_simp

lemma ptab_ltab: "map (\<lambda>l. ptab ! unat l) (tl ltab) = map word_of_nat [1..<256]"
  by code_simp

lemma rbsub_fbsub: "map (\<lambda>b. rbsub ! unat b) fbsub = map word_of_nat [0..<256]"
  by code_simp

lemma ftable_words: "ftable = map (\<lambda>b. word4 (xtime b) b b (mul3 b)) fbsub"
  by code_simp

lemma rtable_words:
  "rtable = map (\<lambda>b. word4 (gf_mult 14 b) (gf_mult 9 b) (gf_mult 13 b) (gf_mult 11 b)) rbsub"
  by code_simp

subsection \<open>The logarithm tables multiply\<close>

lemma unat_byte_less: "unat (b :: u8) < 256"
  using unsigned_less [of b, where ?'a = nat] by simp

lemma ptab_pow: "n < 256 \<Longrightarrow> ptab ! n = (mul3 ^^ n) 1"
proof (induction n)
  case 0
  show ?case by (simp add: ptab_def)
next
  case (Suc n)
  have "ptab ! Suc n = tl ptab ! n" using Suc.prems by (simp add: nth_tl)
  also have "\<dots> = mul3 (ptab ! n)" using Suc.prems by (simp add: ptab_step nth_butlast)
  finally show ?case using Suc by simp
qed

lemma mul3_order: "(mul3 ^^ 255) y = y"
proof -
  have "(mul3 ^^ 255) 1 = ptab ! 255" by (simp add: ptab_pow)
  also have "\<dots> = 1" by (simp add: ptab_def)
  finally show ?thesis using gf_mult_mul3_pow [of 255 1 y] by simp
qed

lemma mul3_pow_mod: "(mul3 ^^ (n mod 255)) y = (mul3 ^^ n) y"
proof -
  have "(mul3 ^^ (255 * k)) y = y" for k y
    by (induction k) (simp_all add: funpow_add mul3_order)
  then have "(mul3 ^^ (n mod 255 + 255 * (n div 255))) y = (mul3 ^^ (n mod 255)) y"
    by (simp only: funpow_add o_apply)
  then show ?thesis by simp
qed

lemma log_byte: assumes "x \<noteq> 0" shows "(mul3 ^^ unat (ltab ! unat x)) 1 = x"
proof -
  define n where "n = unat x - 1"
  have n: "n < 255" "Suc n = unat x"
    using assms unat_byte_less [of x] by (simp_all add: n_def unat_gt_0)
  have "map (\<lambda>l. ptab ! unat l) (tl ltab) ! n = word_of_nat (Suc n)"
    unfolding ptab_ltab using n by (simp del: upt_Suc)
  then show ?thesis using n by (simp add: nth_tl ptab_pow unat_byte_less)
qed

theorem bmul_gf_mult: "bmul x y = gf_mult x y"
proof (cases "x = 0 \<or> y = 0")
  case False
  let ?i = "unat (ltab ! unat x)" and ?j = "unat (ltab ! unat y)"
  have "bmul x y = (mul3 ^^ (?i + ?j)) 1"
    using False by (simp add: bmul_def ptab_pow mul3_pow_mod)
  also have "\<dots> = (mul3 ^^ ?i) y" using False by (simp add: funpow_add log_byte)
  also have "\<dots> = gf_mult ((mul3 ^^ ?i) 1) y" by (simp add: gf_mult_mul3_pow)
  finally show ?thesis using False by (simp add: log_byte)
qed (auto simp: bmul_def)

subsection \<open>The substitution tables\<close>

text \<open>The multiplicative inverse by search, 0 for 0, and the affine transformation of FIPS 197.\<close>

definition gf_inv :: "u8 \<Rightarrow> u8" where
  "gf_inv b = (case find (\<lambda>y. gf_mult b y = 1) all_bytes of None \<Rightarrow> 0 | Some y \<Rightarrow> y)"

definition rot_byte :: "nat \<Rightarrow> u8 \<Rightarrow> u8" where
  "rot_byte n b = push_bit n b OR drop_bit (8 - n) b"

definition affine :: "u8 \<Rightarrow> u8" where
  "affine b = b XOR rot_byte 1 b XOR rot_byte 2 b XOR rot_byte 3 b XOR rot_byte 4 b XOR 0x63"

definition sbox :: "u8 \<Rightarrow> u8" where
  "sbox b = affine (gf_inv b)"

lemma byte_is_power: assumes "b \<noteq> 0" obtains n where "n < 255" "b = (mul3 ^^ n) 1"
  using log_byte [OF assms] mul3_pow_mod [of "unat (ltab ! unat b)" 1]
  by (metis mod_less_divisor zero_less_numeral)

lemma gf_mult_power: "gf_mult ((mul3 ^^ n) 1) y = (mul3 ^^ n) y"
  by (simp add: gf_mult_mul3_pow)

lemma gf_mult_power_eq_1:
  assumes "n < 255" shows "gf_mult ((mul3 ^^ n) 1) y = 1 \<longleftrightarrow> y = (mul3 ^^ (255 - n)) 1"
proof -
  have *: "(mul3 ^^ (255 - n)) ((mul3 ^^ n) z) = z" "(mul3 ^^ n) ((mul3 ^^ (255 - n)) z) = z" for z
    using assms funpow_add [of "255 - n" n mul3] funpow_add [of n "255 - n" mul3] mul3_order [of z]
    by (simp_all add: fun_eq_iff)
  show ?thesis unfolding gf_mult_power using * by metis
qed

lemma gf_inv_power: assumes "n < 255" shows "gf_inv ((mul3 ^^ n) 1) = (mul3 ^^ (255 - n)) 1"
proof (cases "find (\<lambda>y. gf_mult ((mul3 ^^ n) 1) y = 1) all_bytes")
  case None
  then show ?thesis using gf_mult_power_eq_1 [OF assms] by (auto simp: find_None_iff)
next
  case (Some y)
  then have "gf_mult ((mul3 ^^ n) 1) y = 1" by (auto simp: find_Some_iff)
  then show ?thesis using Some gf_mult_power_eq_1 [OF assms] by (simp add: gf_inv_def)
qed

lemma gf_inv_0: "gf_inv 0 = 0"
proof -
  have "find (\<lambda>y. gf_mult 0 y = 1) all_bytes = None" by (simp add: find_None_iff)
  then show ?thesis by (simp only: gf_inv_def option.case)
qed

lemma fbsub_powers: "map (\<lambda>p. fbsub ! unat p) (butlast ptab) = map affine (rev (tl ptab))"
  by code_simp

lemma fbsub_sbox: "fbsub ! unat b = sbox b"
proof (cases "b = 0")
  case True
  then show ?thesis by (simp add: sbox_def gf_inv_0 fbsub_def affine_def rot_byte_def)
next
  case False
  then obtain n where n: "n < 255" "b = (mul3 ^^ n) 1" by (rule byte_is_power)
  then have "Suc (254 - n) = 255 - n" by simp
  then have "map (\<lambda>p. fbsub ! unat p) (butlast ptab) ! n = affine (ptab ! (255 - n))"
    unfolding fbsub_powers using n by (simp add: rev_nth nth_tl)
  then show ?thesis using n by (simp add: nth_butlast ptab_pow sbox_def gf_inv_power)
qed

lemma rbsub_inverse: "rbsub ! unat (fbsub ! unat b) = b"
proof -
  have "map (\<lambda>b. rbsub ! unat b) fbsub ! unat b = b"
    unfolding rbsub_fbsub using unat_byte_less [of b] by simp
  then show ?thesis using unat_byte_less [of b] by simp
qed

end
