(* ===== verification/Aes.thy ===== *)
theory Aes
  imports Mcl_aes
begin

text \<open>
  The cipher of \<^verbatim>\<open>mcl_aes.c\<close> against FIPS 197. A round of the code is one table look-up per byte; the theory
  shows that it is the standard's round on the columns, that the key schedule is the standard's for all three key
  sizes, that decryption with the reversed keys undoes encryption, and that the modes of operation are inverse to
  each other on every sequence of blocks.
\<close>

unbundle bit_operations_syntax

section \<open>Rounds\<close>

subsection \<open>The look-ups of one column\<close>

definition sub_col :: "(u8 \<Rightarrow> u8) \<Rightarrow> u32 \<Rightarrow> u32 \<Rightarrow> u32 \<Rightarrow> u32 \<Rightarrow> u32" where
  "sub_col s a b c d =
     word4 (s (MR_TOBYTE a)) (s (MR_TOBYTE (drop_bit 8 b))) (s (MR_TOBYTE (drop_bit 16 c))) (s (MR_TOBYTE (drop_bit 24 d)))"

definition mix_word :: "u32 \<Rightarrow> u32" where
  "mix_word w =
     (let p = MR_TOBYTE w; q = MR_TOBYTE (drop_bit 8 w); r = MR_TOBYTE (drop_bit 16 w); s = MR_TOBYTE (drop_bit 24 w)
      in word4 (gf_mult 2 p XOR gf_mult 3 q XOR r XOR s) (p XOR gf_mult 2 q XOR gf_mult 3 r XOR s)
               (p XOR q XOR gf_mult 2 r XOR gf_mult 3 s) (gf_mult 3 p XOR q XOR r XOR gf_mult 2 s))"

lemma top_byte_index: "unat (drop_bit 24 w) = unat (MR_TOBYTE (drop_bit 24 w))"
  by (metis bytes_word4(4) top_byte_word4 word4_cases)

lemma ftable_byte:
  fixes b :: u8
  shows "ftable ! unat b = word4 (gf_mult 2 (fbsub ! unat b)) (fbsub ! unat b) (fbsub ! unat b) (gf_mult 3 (fbsub ! unat b))"
  using unat_byte_less [of b]
  by (subst ftable_words) (simp add: mul3_def gf_mult_def xor_ac)

lemma rtable_byte:
  fixes b :: u8
  shows "rtable ! unat b =
     word4 (gf_mult 14 (rbsub ! unat b)) (gf_mult 9 (rbsub ! unat b)) (gf_mult 13 (rbsub ! unat b)) (gf_mult 11 (rbsub ! unat b))"
  using unat_byte_less [of b] by (subst rtable_words) simp

abbreviation fsub :: "u8 \<Rightarrow> u8" where "fsub b \<equiv> fbsub ! unat b"
abbreviation rsub :: "u8 \<Rightarrow> u8" where "rsub b \<equiv> rbsub ! unat b"

lemma round_word_fbsub: "round_word (\<lambda>n. ucast (fbsub ! n)) key a b c d = key XOR sub_col fsub a b c d"
  by (simp add: round_word_def sub_col_def top_byte_index ucast_word4 word4_simps xor.assoc)

lemma round_word_rbsub: "round_word (\<lambda>n. ucast (rbsub ! n)) key a b c d = key XOR sub_col rsub a b c d"
  by (simp add: round_word_def sub_col_def top_byte_index ucast_word4 word4_simps xor.assoc)

lemma round_word_ftable: "round_word (\<lambda>n. ftable ! n) key a b c d = key XOR mix_word (sub_col fsub a b c d)"
  by (simp add: round_word_def sub_col_def top_byte_index ftable_byte mix_word_def Let_def word4_simps xor.assoc)

lemma InvMixCol_word4:
  "InvMixCol (word4 p q r s) =
     word4 (gf_mult 14 p XOR gf_mult 11 q XOR gf_mult 13 r XOR gf_mult 9 s)
           (gf_mult 9 p XOR gf_mult 14 q XOR gf_mult 11 r XOR gf_mult 13 s)
           (gf_mult 13 p XOR gf_mult 9 q XOR gf_mult 14 r XOR gf_mult 11 s)
           (gf_mult 11 p XOR gf_mult 13 q XOR gf_mult 9 r XOR gf_mult 14 s)"
  by (simp add: InvMixCol_def product_aes_def InCo_def Let_def word4_simps bmul_gf_mult xor.assoc)

lemma round_word_rtable: "round_word (\<lambda>n. rtable ! n) key a b c d = key XOR InvMixCol (sub_col rsub a b c d)"
  by (simp add: round_word_def sub_col_def top_byte_index rtable_byte InvMixCol_word4 word4_simps xor.assoc)

subsection \<open>The mixing matrix and its inverse\<close>

lemma InvMixCol_xor: "InvMixCol (v XOR w) = InvMixCol v XOR InvMixCol w"
proof -
  obtain a b c d where v: "v = word4 a b c d" by (rule word4_cases)
  obtain a' b' c' d' where w: "w = word4 a' b' c' d'" by (rule word4_cases)
  show ?thesis
    unfolding v w InvMixCol_word4 xor_word4 gf_mult_xor_right word4_eq_iff by (simp only: xor_ac simp_thms)
qed

lemma gf_mult_consts:
  "gf_mult 2 y = xtime y" "gf_mult 3 y = xtime y XOR y"
  "gf_mult 9 y = xtime (xtime (xtime y)) XOR y"
  "gf_mult 11 y = xtime (xtime (xtime y)) XOR xtime y XOR y"
  "gf_mult 13 y = xtime (xtime (xtime y)) XOR xtime (xtime y) XOR y"
  "gf_mult 14 y = xtime (xtime (xtime y)) XOR xtime (xtime y) XOR xtime y"
  by (simp_all add: gf_mult_def xor_ac)

lemma InvMixCol_mix_word: "InvMixCol (mix_word w) = w"
proof -
  obtain a b c d where w: "w = word4 a b c d" by (rule word4_cases)
  show ?thesis
    unfolding w mix_word_def Let_def bytes_word4 InvMixCol_word4 gf_mult_consts xtime_xor word4_eq_iff
    by (simp only: xor_ac xor_cancel xor_self_eq xor.right_neutral xor.left_neutral simp_thms)
qed

subsection \<open>Rounds on a state of four columns\<close>

definition sub_shift :: "u32 list \<Rightarrow> u32 list" where
  "sub_shift x =
     [sub_col fsub (x ! 0) (x ! 1) (x ! 2) (x ! 3), sub_col fsub (x ! 1) (x ! 2) (x ! 3) (x ! 0),
      sub_col fsub (x ! 2) (x ! 3) (x ! 0) (x ! 1), sub_col fsub (x ! 3) (x ! 0) (x ! 1) (x ! 2)]"

definition inv_sub_shift :: "u32 list \<Rightarrow> u32 list" where
  "inv_sub_shift x =
     [sub_col rsub (x ! 0) (x ! 3) (x ! 2) (x ! 1), sub_col rsub (x ! 1) (x ! 0) (x ! 3) (x ! 2),
      sub_col rsub (x ! 2) (x ! 1) (x ! 0) (x ! 3), sub_col rsub (x ! 3) (x ! 2) (x ! 1) (x ! 0)]"

definition add_key :: "u32 list \<Rightarrow> nat \<Rightarrow> u32 list \<Rightarrow> u32 list" where
  "add_key key k x = [key ! k XOR x ! 0, key ! (k + 1) XOR x ! 1, key ! (k + 2) XOR x ! 2, key ! (k + 3) XOR x ! 3]"

lemma length_state [simp]:
  "length (sub_shift x) = 4" "length (inv_sub_shift x) = 4" "length (add_key key k x) = 4"
  by (simp_all add: sub_shift_def inv_sub_shift_def add_key_def)

lemma enc_round_last: "enc_round (\<lambda>n. ucast (fbsub ! n)) key k x = add_key key k (sub_shift x)"
  by (simp add: enc_round_def add_key_def sub_shift_def round_word_fbsub)

lemma enc_round_mix: "enc_round (\<lambda>n. ftable ! n) key k x = add_key key k (map mix_word (sub_shift x))"
  by (simp add: enc_round_def add_key_def sub_shift_def round_word_ftable)

lemma dec_round_last: "dec_round (\<lambda>n. ucast (rbsub ! n)) key k x = add_key key k (inv_sub_shift x)"
  by (simp add: dec_round_def add_key_def inv_sub_shift_def round_word_rbsub)

lemma dec_round_mix: "dec_round (\<lambda>n. rtable ! n) key k x = add_key key k (map InvMixCol (inv_sub_shift x))"
  by (simp add: dec_round_def add_key_def inv_sub_shift_def round_word_rtable)

lemma length4E: assumes "length xs = 4" obtains a b c d where "xs = [a, b, c, d]"
  using assms by (auto simp: length_Suc_conv eval_nat_numeral)

lemma inv_sub_shift_sub_shift: "length x = 4 \<Longrightarrow> inv_sub_shift (sub_shift x) = x"
  by (erule length4E) (simp add: inv_sub_shift_def sub_shift_def sub_col_def word4_simps rbsub_inverse word4_bytes)

text \<open>Two key arrays agree on a round; keys that went through \<open>InvMixCol\<close> commute with the mixing.\<close>

lemma add_key_cancel:
  assumes "length x = 4" "\<And>j. j < 4 \<Longrightarrow> key' ! (k' + j) = key ! (k + j)"
  shows "add_key key' k' (add_key key k x) = x"
  using assms(1) assms(2) [of 0] assms(2) [of 1] assms(2) [of 2] assms(2) [of 3]
  by (elim length4E) (simp add: add_key_def)

lemma add_key_InvMixCol:
  assumes "length x = 4" "\<And>j. j < 4 \<Longrightarrow> key' ! (k' + j) = InvMixCol (key ! (k + j))"
  shows "add_key key' k' (map InvMixCol (add_key key k (map mix_word x))) = x"
  using assms(1) assms(2) [of 0] assms(2) [of 1] assms(2) [of 2] assms(2) [of 3]
  by (elim length4E) (simp add: add_key_def InvMixCol_xor InvMixCol_mix_word)

subsection \<open>The loops\<close>

text \<open>The state after the first \<open>n\<close> rounds of the loops of encryption and decryption.\<close>

primrec enc_state :: "u32 list \<Rightarrow> u32 list \<Rightarrow> nat \<Rightarrow> u32 list" where
  "enc_state fkey p 0 = p"
| "enc_state fkey p (Suc n) = add_key fkey (4 * Suc n) (map mix_word (sub_shift (enc_state fkey p n)))"

primrec dec_state :: "u32 list \<Rightarrow> u32 list \<Rightarrow> nat \<Rightarrow> u32 list" where
  "dec_state rkey p 0 = p"
| "dec_state rkey p (Suc n) = add_key rkey (4 * Suc n) (map InvMixCol (inv_sub_shift (dec_state rkey p n)))"

lemma length_enc_state [simp]: "length p = 4 \<Longrightarrow> length (enc_state fkey p n) = 4"
  by (cases n) simp_all

lemma enc_loop:
  "for_loop 1 (Suc n) (\<lambda>i (k, x). (k + 4, enc_round (\<lambda>n. ftable ! n) fkey k x)) (4, p) = (4 * Suc n, enc_state fkey p n)"
  by (induction n) (simp_all add: for_loop_Suc enc_round_mix)

lemma dec_loop:
  "for_loop 1 (Suc n) (\<lambda>i (k, x). (k + 4, dec_round (\<lambda>n. rtable ! n) rkey k x)) (4, p) = (4 * Suc n, dec_state rkey p n)"
  by (induction n) (simp_all add: for_loop_Suc dec_round_mix)

text \<open>The words of a block, and a block of words.\<close>

lemma upt4: "[0..<4] = [0, 1, 2, 3 :: nat]"
  by (simp add: upt_rec)

lemma pack_Cons: "aes_pack (w # x # y # z # zs) = word4 w x y z"
  by (simp add: word4_def aes_pack_def)

definition block_words :: "bytes \<Rightarrow> u32 list" where
  "block_words buff = map (\<lambda>i. aes_pack (drop (4 * i) buff)) [0..<4]"

lemma length_block_words [simp]: "length (block_words buff) = 4"
  by (simp add: block_words_def)

lemma load_block_words: "load_block key buff = add_key key 0 (block_words buff)"
  by (simp add: load_block_def block_words_def add_key_def upt4 xor.commute numeral_2_eq_2 numeral_3_eq_3 del: upt_rec_numeral)

lemma length_unpack [simp]: "length (aes_unpack w) = 4"
  by (simp add: aes_unpack_def)

lemma store_block_words:
  "length y = 4 \<Longrightarrow> 16 \<le> length buff \<Longrightarrow> store_block y buff = concat (map aes_unpack y) @ drop 16 buff"
  by (erule length4E) (simp add: store_block_def for_loop_def upt_rec put_bytes_def)

lemma length16E: assumes "length xs = 16"
  obtains a0 a1 a2 a3 b0 b1 b2 b3 c0 c1 c2 c3 d0 d1 d2 d3
  where "xs = [a0, a1, a2, a3, b0, b1, b2, b3, c0, c1, c2, c3, d0, d1, d2, d3]"
  using assms by (auto simp: length_Suc_conv eval_nat_numeral)

lemma block_words_unpack: "length y = 4 \<Longrightarrow> block_words (concat (map aes_unpack y) @ zs) = y"
  by (erule length4E) (simp add: block_words_def aes_unpack_def upt4 pack_Cons word4_bytes del: upt_rec_numeral)

lemma concat_block_words: assumes "16 \<le> length buff" shows "concat (map aes_unpack (block_words buff)) = take 16 buff"
proof -
  have "length (take 16 buff) = 16" using assms by simp
  then obtain a0 a1 a2 a3 b0 b1 b2 b3 c0 c1 c2 c3 d0 d1 d2 d3 where
    "take 16 buff = [a0, a1, a2, a3, b0, b1, b2, b3, c0, c1, c2, c3, d0, d1, d2, d3]"
    by (rule length16E)
  then have *: "buff = [a0, a1, a2, a3, b0, b1, b2, b3, c0, c1, c2, c3, d0, d1, d2, d3] @ drop 16 buff"
    by (metis append_take_drop_id)
  show ?thesis by (subst (1 2) *) (simp add: block_words_def upt4 pack_Cons unpack_word4 del: upt_rec_numeral)
qed

text \<open>What the two block functions compute, for a context with at least one round.\<close>

lemma ecb_encrypt_state:
  assumes "16 \<le> length buff" "aes_Nr a = Suc n"
  shows "MCL_AES_ecb_encrypt a buff =
    concat (map aes_unpack (add_key (aes_fkey a) (4 * Suc n)
      (sub_shift (enc_state (aes_fkey a) (add_key (aes_fkey a) 0 (block_words buff)) n)))) @ drop 16 buff"
  by (simp only: MCL_AES_ecb_encrypt_def assms(2) enc_loop load_block_words Let_def prod.case enc_round_last
      store_block_words [OF _ assms(1)] length_state)

lemma ecb_decrypt_state:
  assumes "16 \<le> length buff" "aes_Nr a = Suc n"
  shows "MCL_AES_ecb_decrypt a buff =
    concat (map aes_unpack (add_key (aes_rkey a) (4 * Suc n)
      (inv_sub_shift (dec_state (aes_rkey a) (add_key (aes_rkey a) 0 (block_words buff)) n)))) @ drop 16 buff"
  by (simp only: MCL_AES_ecb_decrypt_def assms(2) dec_loop load_block_words Let_def prod.case dec_round_last
      store_block_words [OF _ assms(1)] length_state)

text \<open>The decryption keys that belong to encryption keys.\<close>

definition reversed_keys :: "nat \<Rightarrow> u32 list \<Rightarrow> u32 list \<Rightarrow> bool" where
  "reversed_keys nr fkey rkey \<longleftrightarrow>
     (\<forall>j < 4. rkey ! j = fkey ! (4 * nr + j) \<and> rkey ! (4 * nr + j) = fkey ! j \<and>
        (\<forall>i. 0 < i \<and> i < nr \<longrightarrow> rkey ! (4 * i + j) = InvMixCol (fkey ! (4 * (nr - i) + j))))"

lemma dec_state_mirrors:
  assumes "reversed_keys (Suc n) fkey rkey" "length p = 4" "i \<le> n"
    and z: "z = sub_shift (enc_state fkey p n)"
  shows "dec_state rkey z i = sub_shift (enc_state fkey p (n - i))"
  using assms(3)
proof (induction i)
  case 0
  show ?case by (simp add: z)
next
  case (Suc i)
  define m where "m = n - Suc i"
  have m: "n - i = Suc m" "Suc n - Suc i = Suc m" using Suc.prems by (simp_all add: m_def)
  have key: "rkey ! (4 * Suc i + j) = InvMixCol (fkey ! (4 * Suc m + j))" if "j < 4" for j
    using assms(1) Suc.prems that m(2) unfolding reversed_keys_def by (metis Suc_le_lessD Suc_less_eq zero_less_Suc)
  have "dec_state rkey z i = sub_shift (enc_state fkey p (Suc m))" using Suc m by simp
  then show ?case
    using assms(2) key by (simp add: inv_sub_shift_sub_shift add_key_InvMixCol m_def [symmetric] del: mult_Suc_right)
qed

theorem ecb_decrypt_encrypt:
  assumes "reversed_keys (aes_Nr a) (aes_fkey a) (aes_rkey a)" "0 < aes_Nr a" "16 \<le> length buff"
  shows "MCL_AES_ecb_decrypt a (MCL_AES_ecb_encrypt a buff) = buff"
proof -
  obtain n where n: "aes_Nr a = Suc n" using assms(2) gr0_implies_Suc by blast
  let ?f = "aes_fkey a" and ?r = "aes_rkey a"
  define p where "p = add_key ?f 0 (block_words buff)"
  have [simp]: "length p = 4" by (simp add: p_def)
  define y where "y = add_key ?f (4 * Suc n) (sub_shift (enc_state ?f p n))"
  have enc: "MCL_AES_ecb_encrypt a buff = concat (map aes_unpack y) @ drop 16 buff"
    using assms(3) n by (simp add: ecb_encrypt_state y_def p_def del: mult_Suc_right)
  have [simp]: "length y = 4" by (simp add: y_def)
  have "length (concat (map aes_unpack y)) = 16" by (simp add: y_def add_key_def)
  have first: "add_key ?r 0 y = sub_shift (enc_state ?f p n)"
    unfolding y_def using assms(1) n by (intro add_key_cancel) (auto simp: reversed_keys_def)
  have "dec_state ?r (add_key ?r 0 y) n = sub_shift p"
    using dec_state_mirrors [OF _ _ _ first, of _ n] assms(1) n by simp
  moreover have "add_key ?r (4 * Suc n) p = block_words buff"
    unfolding p_def using assms(1) n by (intro add_key_cancel) (auto simp: reversed_keys_def)
  ultimately show ?thesis
    using assms(3) n \<open>length (concat (map aes_unpack y)) = 16\<close>
    by (simp add: enc ecb_decrypt_state block_words_unpack y_def [symmetric] inv_sub_shift_sub_shift concat_block_words del: mult_Suc_right)
qed

section \<open>The key schedule\<close>

text \<open>Loops that assign to distinct places of an array.\<close>

lemma length_for_loop_update [simp]: "length (for_loop a b (\<lambda>j r. r[g j := v j]) r) = length r"
  by (cases "a \<le> b") (auto intro: for_loop_inv [where P = "\<lambda>_ r'. length r' = length r"])

lemma for_loop_split: "a \<le> c \<Longrightarrow> c \<le> b \<Longrightarrow> for_loop a b body s = for_loop c b body (for_loop a c body s)"
  using upt_add_eq_append [of a c "b - c"] by (simp add: for_loop_def)

lemma nth_for_loop_update_other:
  "\<forall>j\<in>{a..<b}. g j \<noteq> p \<Longrightarrow> for_loop a b (\<lambda>j r. r[g j := v j]) r ! p = r ! p"
proof (cases "a \<le> b")
  assume "a \<le> b" and other: "\<forall>j\<in>{a..<b}. g j \<noteq> p"
  show ?thesis
    by (rule for_loop_inv [where P = "\<lambda>_ r'. r' ! p = r ! p", OF \<open>a \<le> b\<close>]) (use other in auto)
qed simp

lemma nth_for_loop_update:
  assumes "inj_on g {a..<b}" "j \<in> {a..<b}" "g j < length r"
  shows "for_loop a b (\<lambda>j r. r[g j := v j]) r ! g j = v j"
proof -
  have "a \<le> b" using assms(2) by simp
  moreover have "j < b" using assms(2) by simp
  moreover have "for_loop a b (\<lambda>j r. r[g j := v j]) r = for_loop (Suc j) b (\<lambda>j r. r[g j := v j])
      (for_loop a (Suc j) (\<lambda>j r. r[g j := v j]) r)"
    using assms(2) by (intro for_loop_split) auto
  moreover have "\<forall>i\<in>{Suc j..<b}. g i \<noteq> g j"
    using assms(1,2) by (auto dest: inj_onD)
  ultimately show ?thesis
    using assms(2,3) by (simp add: nth_for_loop_update_other for_loop_Suc)
qed

subsection \<open>The decryption keys\<close>

lemma reverse_key_middle:
  fixes nr :: nat and fkey r0 :: "u32 list"
  defines "N \<equiv> 4 * (nr + 1)"
  assumes "0 < nr" "N \<le> length r0"
  defines "r \<equiv> for_loop 1 (N div 4 - 1) (\<lambda>i4 r. let i = 4 * i4; k = N - 4 - i
                   in for_loop 0 4 (\<lambda>j r. r[k + j := InvMixCol (fkey ! (i + j))]) r) r0"
  shows "length r = length r0 \<and> (\<forall>p \<ge> 4 * nr. r ! p = r0 ! p) \<and>
    (\<forall>i j. 0 < i \<longrightarrow> i < nr \<longrightarrow> j < 4 \<longrightarrow> r ! (4 * (nr - i) + j) = InvMixCol (fkey ! (4 * i + j)))"
proof -
  have N: "N div 4 - 1 = nr" "N - 4 = 4 * nr" by (simp_all add: N_def)
  show ?thesis
    unfolding r_def N Let_def
  proof (rule for_loop_inv [where P = "\<lambda>b r. length r = length r0 \<and> (\<forall>p \<ge> 4 * nr. r ! p = r0 ! p) \<and>
      (\<forall>i j. 0 < i \<longrightarrow> i < b \<longrightarrow> j < 4 \<longrightarrow> r ! (4 * (nr - i) + j) = InvMixCol (fkey ! (4 * i + j)))"])
    fix b t assume b: "1 \<le> b" "b < nr"
      and IH: "length t = length r0 \<and> (\<forall>p \<ge> 4 * nr. t ! p = r0 ! p) \<and>
        (\<forall>i j. 0 < i \<longrightarrow> i < b \<longrightarrow> j < 4 \<longrightarrow> t ! (4 * (nr - i) + j) = InvMixCol (fkey ! (4 * i + j)))"
    let ?t = "for_loop 0 4 (\<lambda>j r. r[4 * nr - 4 * b + j := InvMixCol (fkey ! (4 * b + j))]) t"
    have other: "?t ! p = t ! p" if "4 * (nr - b) + 4 \<le> p" for p
      using that b by (intro nth_for_loop_update_other) auto
    have hit: "?t ! (4 * (nr - b) + j) = InvMixCol (fkey ! (4 * b + j))" if "j < 4" for j
    proof -
      have "?t ! (4 * nr - 4 * b + j) = InvMixCol (fkey ! (4 * b + j))"
        using that b IH assms(3) by (intro nth_for_loop_update) (auto simp: inj_on_def N_def)
      then show ?thesis using b by (simp add: diff_mult_distrib2)
    qed
    have "?t ! (4 * (nr - i) + j) = InvMixCol (fkey ! (4 * i + j))" if "0 < i" "i < Suc b" "j < 4" for i j
    proof (cases "i = b")
      case False
      then have "4 * (nr - b) + 4 \<le> 4 * (nr - i) + j" using that b by auto
      then show ?thesis using other False that IH by simp
    qed (use hit that in simp)
    then show "length ?t = length r0 \<and> (\<forall>p \<ge> 4 * nr. ?t ! p = r0 ! p) \<and>
        (\<forall>i j. 0 < i \<longrightarrow> i < Suc b \<longrightarrow> j < 4 \<longrightarrow> ?t ! (4 * (nr - i) + j) = InvMixCol (fkey ! (4 * i + j)))"
      using IH other b by auto
  qed (use assms in auto)
qed

lemma reversed_keys_reverse_key:
  assumes "0 < nr" "4 * (nr + 1) \<le> length rkey"
  shows "reversed_keys nr fkey (reverse_key (4 * (nr + 1)) fkey rkey)"
proof -
  define N where "N = 4 * (nr + 1)"
  define r0 where "r0 = for_loop 0 4 (\<lambda>j r. r[j + N - 4 := fkey ! j]) rkey"
  define r1 where "r1 = for_loop 1 (N div 4 - 1) (\<lambda>i4 r. let i = 4 * i4; k = N - 4 - i
                   in for_loop 0 4 (\<lambda>j r. r[k + j := InvMixCol (fkey ! (i + j))]) r) r0"
  define r2 where "r2 = for_loop (N - 4) N (\<lambda>j r. r[j + 4 - N := fkey ! j]) r1"
  have r2: "reverse_key N fkey rkey = r2" by (simp add: reverse_key_def r0_def r1_def r2_def)
  have "length r0 = length rkey" by (simp add: r0_def)
  note mid = reverse_key_middle [where ?r0.0 = r0 and nr = nr and fkey = fkey, folded N_def, folded r1_def]
  have r0: "r0 ! (4 * nr + j) = fkey ! j" if "j < 4" for j
    using nth_for_loop_update [of "\<lambda>j. j + N - 4" 0 4 j rkey "\<lambda>j. fkey ! j"] that assms
    by (simp add: r0_def N_def inj_on_def add.commute)
  have r1: "length r1 = length rkey" "\<And>p. 4 * nr \<le> p \<Longrightarrow> r1 ! p = r0 ! p"
    "\<And>i j. 0 < i \<Longrightarrow> i < nr \<Longrightarrow> j < 4 \<Longrightarrow> r1 ! (4 * (nr - i) + j) = InvMixCol (fkey ! (4 * i + j))"
    using mid assms \<open>length r0 = length rkey\<close> by (auto simp: N_def)
  have "inj_on (\<lambda>j. j + 4 - N) {N - 4..<N}" by (auto simp: inj_on_def N_def)
  then have last: "r2 ! j = fkey ! (4 * nr + j)" if "j < 4" for j
    using nth_for_loop_update [of "\<lambda>j. j + 4 - N" "N - 4" N "4 * nr + j" r1 "\<lambda>j. fkey ! j"] that assms r1(1)
    by (simp add: r2_def N_def)
  have keep: "r2 ! p = r1 ! p" if "4 \<le> p" for p
    unfolding r2_def using that by (intro nth_for_loop_update_other) (auto simp: N_def)
  have "r2 ! (4 * i + j) = InvMixCol (fkey ! (4 * (nr - i) + j))" if "0 < i" "i < nr" "j < 4" for i j
    using r1(3) [of "nr - i" j] keep [of "4 * i + j"] that by simp
  then have "reversed_keys nr fkey r2"
    unfolding reversed_keys_def using last keep r0 r1(2) assms(1) by auto
  then show ?thesis by (simp only: N_def [symmetric] r2)
qed

subsection \<open>The key expansion of FIPS 197\<close>

text \<open>
  The reference works on columns, lists of four bytes: \<open>fips_word nk key i\<close> is word \<open>i\<close> of the expanded key
  of \<open>nk\<close> words.
\<close>

definition xor_col :: "bytes \<Rightarrow> bytes \<Rightarrow> bytes" where
  "xor_col u v = map2 (XOR) u v"

definition rcon :: "nat \<Rightarrow> bytes" where
  "rcon i = [(xtime ^^ (i - 1)) 1, 0, 0, 0]"

function fips_word :: "nat \<Rightarrow> bytes \<Rightarrow> nat \<Rightarrow> bytes" where
  "fips_word nk key i =
     (if i < nk \<or> nk = 0 then slice (4 * i) 4 key
      else
        (let temp = fips_word nk key (i - 1);
             temp = (if i mod nk = 0 then xor_col (map sbox (rotate1 temp)) (rcon (i div nk))
                     else if 6 < nk \<and> i mod nk = 4 then map sbox temp else temp)
         in xor_col (fips_word nk key (i - nk)) temp))"
  by pat_completeness auto
termination by (relation "measure (\<lambda>(nk, key, i). i)") auto

declare fips_word.simps [simp del]

lemma unpack_xor: "aes_unpack (v XOR w) = xor_col (aes_unpack v) (aes_unpack w)"
proof -
  obtain a b c d a' b' c' d' where "v = word4 a b c d" "w = word4 a' b' c' d'" by (metis word4_cases)
  then show ?thesis by (simp add: word4_simps xor_col_def)
qed

lemma unpack_SubByte: "aes_unpack (SubByte w) = map sbox (aes_unpack w)"
proof -
  obtain a b c d where "w = word4 a b c d" by (rule word4_cases)
  then show ?thesis by (simp add: SubByte_def Let_def word4_simps fbsub_sbox)
qed

lemma unpack_ROTL24: "aes_unpack (ROTL24 w) = rotate1 (aes_unpack w)"
proof -
  obtain a b c d where "w = word4 a b c d" by (rule word4_cases)
  then show ?thesis by (simp add: word4_simps)
qed

lemma xor_col_assoc: "xor_col (xor_col u v) w = xor_col u (xor_col v w)"
  by (auto simp: xor_col_def xor.assoc intro!: nth_equalityI)

lemma rco_step: "tl rco = map (\<lambda>w. word4 (xtime (MR_TOBYTE w)) 0 0 0) (butlast rco)"
  by code_simp

lemma rco_power: "k < 16 \<Longrightarrow> rco ! k = word4 ((xtime ^^ k) 1) 0 0 0"
proof (induction k)
  case 0
  show ?case by (simp add: rco_def flip: ucast_word4)
next
  case (Suc k)
  have "length rco = 16" by (simp add: rco_def)
  then have "rco ! Suc k = tl rco ! k" using Suc.prems by (simp add: nth_tl)
  also have "\<dots> = word4 (xtime (MR_TOBYTE (rco ! k))) 0 0 0"
    using Suc.prems \<open>length rco = 16\<close> by (simp add: rco_step nth_butlast)
  finally show ?case using Suc by (simp add: word4_simps)
qed

lemma unpack_rco: "k < 16 \<Longrightarrow> aes_unpack (rco ! k) = rcon (Suc k)"
  by (simp add: rco_power rcon_def unpack_word4)

text \<open>An array that holds the first \<open>m\<close> words of the expanded key.\<close>

definition expanded :: "nat \<Rightarrow> bytes \<Rightarrow> nat \<Rightarrow> u32 list \<Rightarrow> bool" where
  "expanded nk key m fk \<longleftrightarrow> (\<forall>i < m. aes_unpack (fk ! i) = fips_word nk key i)"

lemma expanded_step:
  assumes "expanded nk key n fk" "n < length fk" "aes_unpack v = fips_word nk key n"
  shows "expanded nk key (Suc n) (fk[n := v])"
  using assms by (auto simp: expanded_def less_Suc_eq nth_list_update)

lemma expanded_plain:
  assumes "expanded nk key n fk" "0 < nk" "nk \<le> n" "n mod nk \<noteq> 0" "nk \<le> 6 \<or> n mod nk \<noteq> 4" "n < length fk"
  shows "expanded nk key (Suc n) (expand_word nk n fk)"
  unfolding expand_word_def
proof (rule expanded_step [OF assms(1,6)])
  have "n - nk < n" "n - 1 < n" using assms by auto
  then show "aes_unpack (fk ! (n - nk) XOR fk ! (n - 1)) = fips_word nk key n"
    using assms by (subst fips_word.simps) (auto simp: expanded_def unpack_xor)
qed

lemma expanded_first:
  assumes "expanded nk key n fk" "0 < nk" "nk \<le> n" "n mod nk = 0" "n div nk = Suc k" "k < 16" "n < length fk"
  shows "expanded nk key (Suc n) (fk[n := fk ! (n - nk) XOR SubByte (ROTL24 (fk ! (n - 1))) XOR rco ! k])"
proof (rule expanded_step [OF assms(1,7)])
  have "n - nk < n" "n - 1 < n" using assms by auto
  then show "aes_unpack (fk ! (n - nk) XOR SubByte (ROTL24 (fk ! (n - 1))) XOR rco ! k) = fips_word nk key n"
    using assms
    by (subst fips_word.simps)
       (auto simp: expanded_def unpack_xor unpack_SubByte unpack_ROTL24 unpack_rco xor_col_assoc)
qed

lemma expanded_fourth:
  assumes "expanded nk key n fk" "nk \<le> n" "n mod nk = 4" "6 < nk" "n < length fk"
  shows "expanded nk key (Suc n) (fk[n := fk ! (n - nk) XOR SubByte (fk ! (n - 1))])"
proof (rule expanded_step [OF assms(1,5)])
  have "n - nk < n" "n - 1 < n" using assms by auto
  then show "aes_unpack (fk ! (n - nk) XOR SubByte (fk ! (n - 1))) = fips_word nk key n"
    using assms by (subst fips_word.simps) (auto simp: expanded_def unpack_xor unpack_SubByte)
qed

text \<open>A run of plain words inside a stretch that starts at a multiple \<open>j\<close> of the key length.\<close>

lemma length_expand_word [simp]: "length (expand_word nk n fk) = length fk"
  by (simp add: expand_word_def)

lemma expanded_run:
  assumes "expanded nk key (min (lo + j) N) fk" "N \<le> length fk" "lo \<le> hi" "hi \<le> nk" "0 < lo" "nk \<le> j" "j mod nk = 0"
    and no4: "nk \<le> 6 \<or> hi \<le> 4 \<or> 4 < lo"
  defines "fk' \<equiv> for_loop lo hi (\<lambda>i fk. if i + j < N then expand_word nk (i + j) fk else fk) fk"
  shows "expanded nk key (min (hi + j) N) fk' \<and> length fk' = length fk"
  unfolding fk'_def
proof (rule for_loop_inv [where P = "\<lambda>i fk'. expanded nk key (min (i + j) N) fk' \<and> length fk' = length fk"])
  fix i t assume i: "lo \<le> i" "i < hi" and IH: "expanded nk key (min (i + j) N) t \<and> length t = length fk"
  have "(i + j) mod nk = i" using assms i by (metis add.right_neutral mod_add_right_eq mod_less order_less_le_trans)
  then show "expanded nk key (min (Suc i + j) N) (if i + j < N then expand_word nk (i + j) t else t) \<and>
      length (if i + j < N then expand_word nk (i + j) t else t) = length fk"
    using IH i assms expanded_plain [of nk key "i + j" t] by (auto simp: min_def split: if_splits)
qed (use assms in auto)

lemma expanded_stretch:
  assumes "expanded nk key j fk" "j < N" "N \<le> length fk" "nk \<in> {4, 6, 8}" "j = nk * Suc k" "k < 16"
  shows "expanded nk key (min (j + nk) N) (expand_stretch nk N j k fk) \<and> length (expand_stretch nk N j k fk) = length fk"
proof -
  define f0 where "f0 = fk[j := fk ! (j - nk) XOR SubByte (ROTL24 (fk ! (j - 1))) XOR rco ! k]"
  have nk: "0 < nk" "nk \<le> j" "j mod nk = 0" "j div nk = Suc k" using assms by auto
  have f0: "expanded nk key (min (1 + j) N) f0" "length f0 = length fk"
    using expanded_first [of nk key j fk k] assms nk by (simp_all add: f0_def min_def)
  show ?thesis
  proof (cases "nk \<le> 6")
    case True
    then have "expand_stretch nk N j k fk =
        for_loop 1 nk (\<lambda>i fk. if i + j < N then expand_word nk (i + j) fk else fk) f0"
      by (simp only: expand_stretch_def Let_def f0_def if_True)
    then show ?thesis
      using expanded_run [OF f0(1), of nk] True f0(2) assms(3) nk by (simp only: add.commute) simp
  next
    case False
    then have 8: "nk = 8" using assms by auto
    define f1 where "f1 = for_loop 1 4 (\<lambda>i fk. if i + j < N then expand_word nk (i + j) fk else fk) f0"
    have f1: "expanded nk key (min (4 + j) N) f1" "length f1 = length fk"
      using expanded_run [OF f0(1), of 4] f0 assms nk 8 by (auto simp: f1_def)
    define f2 where "f2 = (if j + 4 < N then f1[j + 4 := f1 ! (j + 4 - nk) XOR SubByte (f1 ! (j + 3))] else f1)"
    have "(j + 4) mod 8 = 4" using nk 8 by presburger
    then have f2: "expanded nk key (min (5 + j) N) f2" "length f2 = length fk"
      using f1 expanded_fourth [of nk key "j + 4" f1] assms nk 8 by (auto simp: f2_def min_def add.commute split: if_splits)
    have "expand_stretch nk N j k fk =
        for_loop 5 nk (\<lambda>i fk. if i + j < N then expand_word nk (i + j) fk else fk) f2"
      using False by (simp only: expand_stretch_def Let_def f0_def f1_def f2_def if_False)
    then show ?thesis
      using expanded_run [OF f2(1), of nk] 8 f2(2) assms(3) nk by (simp only: add.commute) simp
  qed
qed

lemma expanded_expand_key:
  assumes "expanded nk key (min j N) fk" "N \<le> length fk" "nk \<in> {4, 6, 8}" "j = nk * Suc k" "N \<le> 60"
  shows "expanded nk key N (expand_key nk N j k fk) \<and> length (expand_key nk N j k fk) = length fk"
  using assms
proof (induction nk N j k fk rule: expand_key.induct)
  case (1 nk N j k fk)
  show ?case
  proof (cases "j < N")
    case True
    then have "k < 16" using "1.prems" by auto
    then have *: "expanded nk key (min (j + nk) N) (expand_stretch nk N j k fk)"
      "length (expand_stretch nk N j k fk) = length fk"
      using expanded_stretch [of nk key j fk N k] "1.prems" True by (auto simp: min_def)
    have "0 < nk" using "1.prems" by auto
    then show ?thesis
      using "1.IH" * True "1.prems" by (subst (1 2) expand_key.simps) (auto simp: algebra_simps)
  next
    case False
    then show ?thesis using "1.prems" by (subst (1 2) expand_key.simps) (auto simp: min_def split: if_splits)
  qed
qed

section \<open>The cipher of FIPS 197\<close>

text \<open>The state is a list of four columns.\<close>

definition SubBytes :: "bytes list \<Rightarrow> bytes list" where
  "SubBytes = map (map sbox)"

definition ShiftRows :: "bytes list \<Rightarrow> bytes list" where
  "ShiftRows s = map (\<lambda>c. map (\<lambda>r. s ! ((c + r) mod 4) ! r) [0..<4]) [0..<4]"

definition MixColumn :: "bytes \<Rightarrow> bytes" where
  "MixColumn s =
     [gf_mult 2 (s ! 0) XOR gf_mult 3 (s ! 1) XOR s ! 2 XOR s ! 3,
      s ! 0 XOR gf_mult 2 (s ! 1) XOR gf_mult 3 (s ! 2) XOR s ! 3,
      s ! 0 XOR s ! 1 XOR gf_mult 2 (s ! 2) XOR gf_mult 3 (s ! 3),
      gf_mult 3 (s ! 0) XOR s ! 1 XOR s ! 2 XOR gf_mult 2 (s ! 3)]"

definition AddRoundKey :: "bytes list \<Rightarrow> bytes list \<Rightarrow> bytes list" where
  "AddRoundKey w s = map2 xor_col w s"

definition round_key :: "nat \<Rightarrow> bytes \<Rightarrow> nat \<Rightarrow> bytes list" where
  "round_key nk key r = map (fips_word nk key) [4 * r..<4 * r + 4]"

definition fips_cipher :: "nat \<Rightarrow> bytes \<Rightarrow> bytes \<Rightarrow> bytes" where
  "fips_cipher nk key inp =
     (let nr = nk + 6;
          s = AddRoundKey (round_key nk key 0) (map (\<lambda>c. slice (4 * c) 4 inp) [0..<4]);
          s = fold (\<lambda>r s. AddRoundKey (round_key nk key r) (map MixColumn (ShiftRows (SubBytes s)))) [1..<nr] s
      in concat (AddRoundKey (round_key nk key nr) (ShiftRows (SubBytes s))))"

abbreviation cols :: "u32 list \<Rightarrow> bytes list" where
  "cols \<equiv> map aes_unpack"

lemma cols_mix_word: "aes_unpack (mix_word w) = MixColumn (aes_unpack w)"
proof -
  obtain a b c d where "w = word4 a b c d" by (rule word4_cases)
  then show ?thesis by (simp add: mix_word_def Let_def MixColumn_def word4_simps)
qed

lemma ShiftRows_cols:
  "ShiftRows [[a0, a1, a2, a3], [b0, b1, b2, b3], [c0, c1, c2, c3], [d0, d1, d2, d3]] =
     [[a0, b1, c2, d3], [b0, c1, d2, a3], [c0, d1, a2, b3], [d0, a1, b2, c3]]"
  by (simp add: ShiftRows_def upt_rec)

lemma cols_sub_shift: "length x = 4 \<Longrightarrow> cols (sub_shift x) = ShiftRows (SubBytes (cols x))"
proof (elim length4E)
  fix a b c d assume x: "x = [a, b, c, d]"
  have "SubBytes (cols x) = map (\<lambda>w. [sbox (MR_TOBYTE w), sbox (MR_TOBYTE (drop_bit 8 w)),
      sbox (MR_TOBYTE (drop_bit 16 w)), sbox (MR_TOBYTE (drop_bit 24 w))]) x"
    by (simp add: SubBytes_def x aes_unpack_def)
  then show ?thesis
    by (simp add: x ShiftRows_cols sub_shift_def sub_col_def unpack_word4 fbsub_sbox)
qed

lemma cols_add_key:
  assumes "expanded nk key N fk" "4 * r + 4 \<le> N" "length x = 4"
  shows "cols (add_key fk (4 * r) x) = AddRoundKey (round_key nk key r) (cols x)"
  using assms
  by (elim length4E)
     (simp add: add_key_def AddRoundKey_def round_key_def unpack_xor expanded_def upt_rec numeral_2_eq_2 numeral_3_eq_3)

lemma fold_rounds:
  assumes "expanded nk key N fk" "4 * n + 4 \<le> N" "length p = 4"
  shows "cols (enc_state fk p n) =
    fold (\<lambda>r s. AddRoundKey (round_key nk key r) (map MixColumn (ShiftRows (SubBytes s)))) [1..<Suc n] (cols p)"
  using assms(2)
proof (induction n)
  case (Suc n)
  have "cols (map mix_word xs) = map MixColumn (cols xs)" for xs
    by (simp add: cols_mix_word)
  moreover have "[1..<Suc (Suc n)] = [1..<Suc n] @ [Suc n]" by simp
  moreover have "4 * n + 4 \<le> N" using Suc.prems by simp
  ultimately show ?case
    using Suc assms(3) cols_add_key [OF assms(1), of "Suc n"]
    by (simp add: cols_sub_shift del: map_map mult_Suc_right upt_Suc)
qed simp

section \<open>Preparing a context\<close>

definition aes_wf :: "mcl_aes \<Rightarrow> bool" where
  "aes_wf a \<longleftrightarrow> length (aes_fkey a) = 60 \<and> length (aes_rkey a) = 60 \<and> length (aes_f a) = 16"

text \<open>A context whose keys are set up, as every operation after \<open>MCL_AES_init\<close> finds it.\<close>

definition aes_ready :: "mcl_aes \<Rightarrow> bool" where
  "aes_ready a \<longleftrightarrow> aes_wf a \<and> aes_Nr a \<in> {10, 12, 14} \<and> reversed_keys (aes_Nr a) (aes_fkey a) (aes_rkey a)"

lemma reset_fields [simp]:
  "aes_Nk (MCL_AES_reset a mode iv) = aes_Nk a" "aes_Nr (MCL_AES_reset a mode iv) = aes_Nr a"
  "aes_fkey (MCL_AES_reset a mode iv) = aes_fkey a" "aes_rkey (MCL_AES_reset a mode iv) = aes_rkey a"
  "aes_mode (MCL_AES_reset a mode iv) = mode" "length (aes_f (MCL_AES_reset a mode iv)) = length (aes_f a)"
  by (simp_all add: MCL_AES_reset_def Let_def split: option.split)

lemma key_size_cases: "nk sdiv 4 \<in> {4, 6, 8} \<Longrightarrow> nat (nk sdiv 4) \<in> {4, 6, 8 :: nat}"
  by auto

lemma length_reverse_key [simp]: "length (reverse_key N fkey rkey) = length rkey"
proof -
  have "length (for_loop 1 (N div 4 - 1) (\<lambda>i4 r. let i = 4 * i4; k = N - 4 - i
          in for_loop 0 4 (\<lambda>j r. r[k + j := InvMixCol (fkey ! (i + j))]) r) r0) = length r0" for r0
    by (cases "1 \<le> N div 4 - 1") (auto intro: for_loop_inv [where P = "\<lambda>_ r. length r = length r0"] simp: Let_def)
  then show ?thesis by (simp add: reverse_key_def Let_def)
qed

lemma expanded_cipher_key:
  assumes "4 * nk \<le> length key" "nk \<le> length fk"
  shows "expanded nk key nk (for_loop 0 nk (\<lambda>i fk. fk[i := map (\<lambda>i. aes_pack (drop (4 * i) key)) [0..<nk] ! i]) fk)"
  unfolding expanded_def
proof (intro allI impI)
  fix i assume i: "i < nk"
  have four: "length (take 4 (drop (4 * i) key)) = 4" using assms i by simp
  then obtain a b c d where abcd: "take 4 (drop (4 * i) key) = [a, b, c, d]" by (rule length4E)
  then have "drop (4 * i) key = a # b # c # d # drop 4 (drop (4 * i) key)"
    by (metis append_Cons append_Nil append_take_drop_id)
  then have "aes_pack (drop (4 * i) key) = word4 a b c d" by (metis pack_Cons)
  then show "aes_unpack (for_loop 0 nk (\<lambda>i fk. fk[i := map (\<lambda>i. aes_pack (drop (4 * i) key)) [0..<nk] ! i]) fk ! i) =
      fips_word nk key i"
    using i assms nth_for_loop_update [of "\<lambda>i. i" 0 nk i fk]
    by (subst fips_word.simps) (simp add: abcd slice_def unpack_word4)
qed

theorem MCL_AES_init_ready:
  fixes mode :: int and iv :: "bytes option"
  assumes "aes_wf a" "nk sdiv 4 \<in> {4, 6, 8}" "nat (4 * (nk sdiv 4)) \<le> length key"
  defines "a' \<equiv> snd (MCL_AES_init a mode nk key iv)"
  shows "fst (MCL_AES_init a mode nk key iv) = 1" "aes_ready a'" "aes_mode a' = mode"
    "aes_Nr a' = 6 + nat (nk sdiv 4)"
    "expanded (nat (nk sdiv 4)) key (4 * (aes_Nr a' + 1)) (aes_fkey a')"
    "aes_f a' = aes_f (MCL_AES_reset (a\<lparr>aes_Nk := nat (nk sdiv 4), aes_Nr := 6 + nat (nk sdiv 4)\<rparr>) mode iv)"
proof -
  define n where "n = nat (nk sdiv 4)"
  have n: "n \<in> {4, 6, 8}" "4 * n \<le> length key" using assms(2,3) by (auto simp: n_def)
  define N where "N = 4 * (6 + n + 1)"
  define f0 where "f0 = for_loop 0 n (\<lambda>i fk. fk[i := map (\<lambda>i. aes_pack (drop (4 * i) key)) [0..<n] ! i]) (aes_fkey a)"
  have len: "length f0 = 60" using assms(1) by (simp add: f0_def aes_wf_def)
  have "expanded n key n f0" unfolding f0_def using n assms(1) by (intro expanded_cipher_key) (auto simp: aes_wf_def)
  then have exp: "expanded n key N (expand_key n N n 0 f0)" "length (expand_key n N n 0 f0) = 60"
    using expanded_expand_key [of n key n N f0 0] n len by (auto simp: N_def)
  have init: "MCL_AES_init a mode nk key iv =
    (1, (MCL_AES_reset (a\<lparr>aes_Nk := n, aes_Nr := 6 + n\<rparr>) mode iv)
          \<lparr>aes_fkey := expand_key n N n 0 f0, aes_rkey := reverse_key N (expand_key n N n 0 f0) (aes_rkey a)\<rparr>)"
    using assms(2) unfolding n_def [symmetric]
    by (auto simp: MCL_AES_init_def Let_def N_def f0_def simp flip: n_def)
  have rev: "reversed_keys (6 + n) (expand_key n N n 0 f0) (reverse_key N (expand_key n N n 0 f0) (aes_rkey a))"
    unfolding N_def using n assms(1) by (intro reversed_keys_reverse_key) (auto simp: aes_wf_def)
  show "fst (MCL_AES_init a mode nk key iv) = 1" "aes_mode a' = mode" "aes_Nr a' = 6 + nat (nk sdiv 4)"
    "aes_f a' = aes_f (MCL_AES_reset (a\<lparr>aes_Nk := nat (nk sdiv 4), aes_Nr := 6 + nat (nk sdiv 4)\<rparr>) mode iv)"
    "expanded (nat (nk sdiv 4)) key (4 * (aes_Nr a' + 1)) (aes_fkey a')"
    unfolding a'_def n_def [symmetric] using exp by (simp_all add: init N_def)
  show "aes_ready a'"
    using exp rev n assms(1) by (auto simp: a'_def init aes_ready_def aes_wf_def)
qed

lemma ecb_encrypt_fips:
  assumes "expanded nk key (4 * (aes_Nr a + 1)) (aes_fkey a)" "aes_Nr a = nk + 6" "length buff = 16"
  shows "MCL_AES_ecb_encrypt a buff = fips_cipher nk key buff"
proof -
  let ?f = "aes_fkey a"
  define n where "n = nk + 5"
  have nr: "aes_Nr a = Suc n" using assms(2) by (simp add: n_def)
  have blk: "cols (block_words buff) = map (\<lambda>c. slice (4 * c) 4 buff) [0..<4]"
    using assms(3) by (elim length16E) (simp add: block_words_def upt4 pack_Cons unpack_word4 slice_def del: upt_rec_numeral)
  have "cols (add_key ?f 0 (block_words buff)) = AddRoundKey (round_key nk key 0) (cols (block_words buff))"
    using cols_add_key [OF assms(1), of 0 "block_words buff"] by simp
  moreover have "cols (add_key ?f (4 * Suc n) (sub_shift x)) = AddRoundKey (round_key nk key (Suc n)) (ShiftRows (SubBytes (cols x)))"
    if "length x = 4" for x
  proof -
    have "4 * Suc n + 4 \<le> 4 * (aes_Nr a + 1)" using nr by simp
    from cols_add_key [OF assms(1) this, of "sub_shift x"] that show ?thesis by (simp add: cols_sub_shift)
  qed
  moreover have "nk + 6 = Suc n" by (simp add: n_def)
  moreover have "MCL_AES_ecb_encrypt a buff =
      concat (cols (add_key ?f (4 * Suc n) (sub_shift (enc_state ?f (add_key ?f 0 (block_words buff)) n))))"
    using ecb_encrypt_state [OF _ nr, of buff] assms(3) by simp
  moreover have "4 * n + 4 \<le> 4 * (aes_Nr a + 1)" using nr by simp
  ultimately show ?thesis
    using fold_rounds [OF assms(1), of n "add_key ?f 0 (block_words buff)"]
    by (simp only: fips_cipher_def Let_def blk length_state length_enc_state)
qed

section \<open>Modes of operation\<close>

text \<open>
  A pair of transformations with a state, such that the second, started in the same state, takes the output of the
  first back to its input and ends in the same state. Then it does so for every sequence of blocks.
\<close>

fun run_blocks :: "('s \<Rightarrow> 'b \<Rightarrow> 'r \<times> 's \<times> 'b) \<Rightarrow> 's \<Rightarrow> 'b list \<Rightarrow> 'r list \<times> 's \<times> 'b list" where
  "run_blocks step s [] = ([], s, [])"
| "run_blocks step s (b # bs) =
     (let (r, s, c) = step s b; (rs, s, cs) = run_blocks step s bs in (r # rs, s, c # cs))"

locale block_codec =
  fixes enc dec :: "'s \<Rightarrow> 'b \<Rightarrow> 'r \<times> 's \<times> 'b"
    and ready :: "'s \<Rightarrow> bool" and block :: "'b \<Rightarrow> bool"
  assumes enc_ready: "ready s \<Longrightarrow> block b \<Longrightarrow> enc s b = (r, s', c) \<Longrightarrow> ready s'"
    and dec_enc: "ready s \<Longrightarrow> block b \<Longrightarrow> enc s b = (r, s', c) \<Longrightarrow> dec s c = (r, s', b)"
begin

lemma run_dec_enc:
  assumes "ready s" "list_all block bs" "run_blocks enc s bs = (rs, s', cs)"
  shows "run_blocks dec s cs = (rs, s', bs) \<and> ready s'"
  using assms
proof (induction bs arbitrary: s rs cs)
  case (Cons b bs)
  obtain r t c where step: "enc s b = (r, t, c)" by (metis prod_cases3)
  obtain rs' cs' where rest: "run_blocks enc t bs = (rs', s', cs')" and eq: "rs = r # rs'" "cs = c # cs'"
    using Cons.prems(3) step by (auto split: prod.splits)
  have "ready t" using enc_ready [OF _ _ step] Cons.prems by simp
  then show ?case
    using Cons.IH [OF _ _ rest] dec_enc [OF _ _ step] Cons.prems eq by simp
qed simp

end

subsection \<open>Loops over the chaining vector\<close>

lemma length_xor_into [simp]: "length (xor_into n st buff) = length buff"
  unfolding xor_into_def
  by (rule for_loop_inv [where P = "\<lambda>_ r. length r = length buff"]) simp_all

lemma nth_xor_into:
  assumes "i < length buff"
  shows "xor_into n st buff ! i = (if i < n then buff ! i XOR st ! i else buff ! i)"
proof -
  have "length (xor_into n st buff) = length buff \<and> xor_into n st buff ! i = (if i < n then buff ! i XOR st ! i else buff ! i)"
    unfolding xor_into_def
    by (rule for_loop_inv [where P = "\<lambda>n r. length r = length buff \<and> r ! i = (if i < n then buff ! i XOR st ! i else buff ! i)"])
       (use assms in \<open>auto simp: nth_list_update less_Suc_eq\<close>)
  then show ?thesis ..
qed

lemma xor_into_twice: "xor_into n st (xor_into n st buff) = buff"
  by (rule nth_equalityI) (simp_all add: nth_xor_into xor.assoc)

lemma for_loop_cong:
  "(\<And>i s. a \<le> i \<Longrightarrow> i < b \<Longrightarrow> f i s = g i s) \<Longrightarrow> for_loop a b f s = for_loop a b g s"
  unfolding for_loop_def by (rule fold_cong) auto

lemma xor_into_Suc: "xor_into (Suc n) st buff = (xor_into n st buff)[n := xor_into n st buff ! n XOR st ! n]"
  by (simp add: xor_into_def for_loop_Suc)

text \<open>The two loops of cipher feedback.\<close>

lemma cfb_enc_loop:
  assumes "n \<le> length buff"
  shows "for_loop 0 n (\<lambda>j (buff, f). let buff = buff[j := buff ! j XOR st ! j] in (buff, f[16 - n' + j := buff ! j])) (buff, f) =
    (xor_into n st buff, for_loop 0 n (\<lambda>j f. f[16 - n' + j := xor_into n st buff ! j]) f)"
  using assms
proof (induction n)
  case (Suc n)
  have "for_loop 0 n (\<lambda>j f. f[16 - n' + j := xor_into (Suc n) st buff ! j]) f =
      for_loop 0 n (\<lambda>j f. f[16 - n' + j := xor_into n st buff ! j]) f"
    using Suc.prems by (intro for_loop_cong) (simp add: nth_xor_into)
  then show ?case using Suc by (simp add: for_loop_Suc Let_def xor_into_Suc)
qed (simp add: xor_into_def)

lemma cfb_dec_loop:
  assumes "n \<le> length buff"
  shows "for_loop 0 n (\<lambda>j (buff, f). let f = f[16 - n' + j := buff ! j] in (buff[j := buff ! j XOR st ! j], f)) (buff, f) =
    (xor_into n st buff, for_loop 0 n (\<lambda>j f. f[16 - n' + j := buff ! j]) f)"
  using assms
proof (induction n)
  case (Suc n)
  then show ?case by (simp add: for_loop_Suc Let_def nth_xor_into xor_into_Suc)
qed (simp add: xor_into_def)

lemma length_ecb_encrypt: "16 \<le> length buff \<Longrightarrow> 0 < aes_Nr a \<Longrightarrow> length (MCL_AES_ecb_encrypt a buff) = length buff"
  by (cases "aes_Nr a") (simp_all add: ecb_encrypt_state add_key_def)

lemma copy_block: "length f = 16 \<Longrightarrow> 16 \<le> length buff \<Longrightarrow> for_loop 0 16 (\<lambda>j f. f[j := buff ! j]) f = take 16 buff"
  by (rule nth_equalityI) (auto simp: nth_for_loop_update [of "\<lambda>j. j"])

lemma map_nth_16: "length f = 16 \<Longrightarrow> map (\<lambda>j. f ! j) [0..<16] = f"
  by (metis map_nth)

lemma ready_rounds: "aes_ready a \<Longrightarrow> 0 < aes_Nr a" "aes_ready a \<Longrightarrow> length (aes_f a) = 16"
  by (auto simp: aes_ready_def aes_wf_def)

lemma ecb_inverse: "aes_ready a \<Longrightarrow> 16 \<le> length buff \<Longrightarrow> MCL_AES_ecb_decrypt a (MCL_AES_ecb_encrypt a buff) = buff"
  by (rule ecb_decrypt_encrypt) (auto simp: aes_ready_def)

lemma ecb_f_update [simp]:
  "MCL_AES_ecb_encrypt (a\<lparr>aes_f := f\<rparr>) buff = MCL_AES_ecb_encrypt a buff"
  "MCL_AES_ecb_decrypt (a\<lparr>aes_f := f\<rparr>) buff = MCL_AES_ecb_decrypt a buff"
  by (simp_all add: MCL_AES_ecb_encrypt_def MCL_AES_ecb_decrypt_def)

text \<open>One block in cipher feedback mode, then in any mode.\<close>

abbreviation (input) "cfb_mode m \<equiv> m = CFB1 \<or> m = CFB2 \<or> m = CFB4"
abbreviation (input) "ofb_mode m \<equiv> m = OFB1 \<or> m = OFB2 \<or> m = OFB4 \<or> m = OFB8 \<or> m = OFB16"

lemma mode_cases:
  obtains (ecb) "m = ECB" | (cbc) "m = CBC" | (cfb) "cfb_mode m" | (ofb) "ofb_mode m"
    | (none) "m \<notin> {ECB, CBC, CFB1, CFB2, CFB4, OFB1, OFB2, OFB4, OFB8, OFB16}"
  by blast

lemma cfb_encrypt:
  assumes "cfb_mode (aes_mode a)" "length buff = 16"
  defines "n \<equiv> nat (aes_mode a - CFB1 + 1)" and "st \<equiv> MCL_AES_ecb_encrypt a (map (\<lambda>j. aes_f a ! j) [0..<16])"
  shows "MCL_AES_encrypt a buff = (fell_off_bytes n (aes_f a),
    a\<lparr>aes_f := for_loop 0 n (\<lambda>j f. f[16 - n + j := xor_into n st buff ! j]) (shift_reg n (aes_f a))\<rparr>, xor_into n st buff)"
proof -
  have "n \<le> 16" "aes_mode a \<noteq> ECB" "aes_mode a \<noteq> CBC" using assms(1) by (auto simp: n_def)
  then show ?thesis
    using cfb_enc_loop [where n' = n and n = n and buff = buff and st = st and f = "shift_reg n (aes_f a)"] assms(2)
    by (simp only: MCL_AES_encrypt_def assms(1) if_True if_False simp_thms Let_def n_def [symmetric] st_def [symmetric] prod.case)
qed

lemma cfb_decrypt:
  assumes "cfb_mode (aes_mode a)" "length buff = 16"
  defines "n \<equiv> nat (aes_mode a - CFB1 + 1)" and "st \<equiv> MCL_AES_ecb_encrypt a (map (\<lambda>j. aes_f a ! j) [0..<16])"
  shows "MCL_AES_decrypt a buff = (fell_off_bytes n (aes_f a),
    a\<lparr>aes_f := for_loop 0 n (\<lambda>j f. f[16 - n + j := buff ! j]) (shift_reg n (aes_f a))\<rparr>, xor_into n st buff)"
proof -
  have "n \<le> 16" "aes_mode a \<noteq> ECB" "aes_mode a \<noteq> CBC" using assms(1) by (auto simp: n_def)
  then show ?thesis
    using cfb_dec_loop [where n' = n and n = n and buff = buff and st = st and f = "shift_reg n (aes_f a)"] assms(2)
    by (simp only: MCL_AES_decrypt_def assms(1) if_True if_False simp_thms Let_def n_def [symmetric] st_def [symmetric] prod.case)
qed

lemma decrypt_encrypt_block:
  assumes "aes_ready a" "length buff = 16" "MCL_AES_encrypt a buff = (r, a', c)"
  shows "MCL_AES_decrypt a c = (r, a', buff)"
proof (cases "aes_mode a" rule: mode_cases)
  case ecb
  then show ?thesis using assms by (auto simp: MCL_AES_encrypt_def MCL_AES_decrypt_def ecb_inverse)
next
  case cbc
  then show ?thesis
    using assms ready_rounds [OF assms(1)]
    by (auto simp: MCL_AES_encrypt_def MCL_AES_decrypt_def Let_def ecb_inverse map_nth_16 xor_into_twice)
next
  case cfb
  then show ?thesis
    using assms(3) cfb_encrypt [OF cfb assms(2)] cfb_decrypt [OF cfb, of c] assms(2)
    by (auto simp: xor_into_twice)
next
  case ofb
  then show ?thesis using assms by (auto simp: MCL_AES_encrypt_def MCL_AES_decrypt_def Let_def xor_into_twice)
next
  case none
  then show ?thesis using assms by (simp add: MCL_AES_encrypt_def MCL_AES_decrypt_def)
qed

lemma length_shift_reg [simp]: "length (shift_reg n f) = length f"
  unfolding shift_reg_def
  by (cases "n \<le> 16") (auto intro: for_loop_inv [where P = "\<lambda>_ r. length r = length f"])

text \<open>Encryption changes nothing of a context but its chaining vector.\<close>

lemma encrypt_frame:
  assumes "aes_ready a" "length buff = 16" "MCL_AES_encrypt a buff = (r, a', c)"
  obtains f where "a' = a\<lparr>aes_f := f\<rparr>" "length f = 16"
proof (cases "aes_mode a" rule: mode_cases)
  case ecb
  then show ?thesis using assms that [of "aes_f a"] ready_rounds [OF assms(1)] by (auto simp: MCL_AES_encrypt_def)
next
  case cbc
  then show ?thesis
    using assms that ready_rounds [OF assms(1)] by (auto simp: MCL_AES_encrypt_def Let_def)
next
  case cfb
  then show ?thesis
    using assms(3) cfb_encrypt [OF cfb assms(2)] that ready_rounds [OF assms(1)] by auto
next
  case ofb
  then show ?thesis
    using assms that ready_rounds [OF assms(1)] by (auto simp: MCL_AES_encrypt_def Let_def length_ecb_encrypt)
next
  case none
  then show ?thesis using assms that [of "aes_f a"] ready_rounds [OF assms(1)] by (auto simp: MCL_AES_encrypt_def)
qed

lemma encrypt_ready: "aes_ready a \<Longrightarrow> length buff = 16 \<Longrightarrow> MCL_AES_encrypt a buff = (r, a', c) \<Longrightarrow> aes_ready a'"
  by (rule encrypt_frame [of a buff r a' c]) (simp_all add: aes_ready_def aes_wf_def)

interpretation aes: block_codec MCL_AES_encrypt MCL_AES_decrypt aes_ready "\<lambda>b. length b = 16"
  by unfold_locales (auto intro: encrypt_ready decrypt_encrypt_block)

text \<open>The clean-up leaves no round key and no chaining vector behind.\<close>

lemma MCL_AES_end_clears:
  assumes "aes_wf a" "aes_Nr a \<le> 14"
  defines "N \<equiv> 4 * (aes_Nr a + 1)"
  shows "take N (aes_fkey (MCL_AES_end a)) = replicate N 0 \<and> take N (aes_rkey (MCL_AES_end a)) = replicate N 0 \<and>
    aes_f (MCL_AES_end a) = replicate 16 0"
proof -
  have pair: "for_loop 0 n (\<lambda>i (rk, fk). (rk[i := 0], fk[i := 0])) (rk, fk) =
      (for_loop 0 n (\<lambda>i rk. rk[i := 0]) rk, for_loop 0 n (\<lambda>i fk. fk[i := 0]) fk)" for n and rk fk :: "u32 list"
    by (induction n) (simp_all add: for_loop_Suc)
  have zero: "take n (for_loop 0 n (\<lambda>i xs. xs[i := 0]) xs) = replicate n 0" if "n \<le> length xs" for n and xs :: "'b::len word list"
    using that by (intro nth_equalityI) (auto simp: nth_for_loop_update [of "\<lambda>j. j"])
  show ?thesis
    using assms zero [of 16 "aes_f a"] by (simp add: MCL_AES_end_def Let_def pair zero aes_wf_def flip: N_def)
qed

section \<open>Properties\<close>

definition zero_aes :: mcl_aes where
  "zero_aes = \<lparr>aes_Nk = 0, aes_Nr = 0, aes_mode = 0, aes_fkey = replicate 60 0, aes_rkey = replicate 60 0, aes_f = replicate 16 0\<rparr>"

lemma zero_aes_wf: "aes_wf zero_aes"
  by (simp add: aes_wf_def zero_aes_def)

text \<open>
  C37: After \<open>MCL_AES_init\<close> with a key of 16, 24 or 32 bytes, \<open>MCL_AES_ecb_encrypt\<close>, which looks whole columns up in
  tables of words, computes the cipher of FIPS 197 under that key: byte substitution by field inversion and an
  affine map, row shifts, column mixing and the standard's key expansion.
\<close>

theorem aes_is_fips197:
  assumes "aes_wf a" "nk = 16 \<or> nk = 24 \<or> nk = 32" "nk \<le> length key" "length buff = 16"
  shows "MCL_AES_ecb_encrypt (snd (MCL_AES_init a mode (int nk) key iv)) buff = fips_cipher (nk div 4) key buff"
proof -
  have nk: "int nk sdiv 4 = int (nk div 4)" "nat (int nk sdiv 4) = nk div 4" "nat (4 * (int nk sdiv 4)) \<le> length key" "int nk sdiv 4 \<in> {4, 6, 8}"
    using assms(2,3) by auto
  note init = MCL_AES_init_ready [OF assms(1) nk(4,3), of mode iv]
  show ?thesis
    using init(4,5) assms(4) by (intro ecb_encrypt_fips) (simp_all only: nk(2) add.commute)
qed

theorem aes_is_fips197_witness:
  "MCL_AES_ecb_encrypt (snd (MCL_AES_init zero_aes 0 16 (map word_of_nat [0..<16]) None)) (replicate 16 0) =
     fips_cipher 4 (map word_of_nat [0..<16]) (replicate 16 0)"
  using aes_is_fips197 [OF zero_aes_wf, of 16 "map word_of_nat [0..<16]" "replicate 16 0" 0 None] by simp

text \<open>
  C38: In every mode of operation (ECB, CBC, CFB of 1, 2 or 4 bytes, OFB of 1 to 16 bytes) and for every sequence of
  blocks, decrypting what was encrypted from the same context gives the blocks back, returns the same overflow
  words and leaves the context with the same chaining vector.
\<close>

theorem aes_modes_roundtrip:
  assumes "aes_wf a" "nk sdiv 4 = 4 \<or> nk sdiv 4 = 6 \<or> nk sdiv 4 = 8" "nat nk \<le> length key"
    "list_all (\<lambda>b. length b = 16) bs"
    "run_blocks MCL_AES_encrypt (snd (MCL_AES_init a mode nk key iv)) bs = (rs, a', cs)"
  shows "run_blocks MCL_AES_decrypt (snd (MCL_AES_init a mode nk key iv)) cs = (rs, a', bs)"
proof -
  have "0 \<le> nk" using assms(2) by (cases "0 \<le> nk") (auto simp: signed_divide_int_def)
  then have "4 * (nk sdiv 4) \<le> nk" by (cases "nk = 0") (auto simp: signed_divide_int_def)
  then have "nat (4 * (nk sdiv 4)) \<le> length key" using assms(3) by linarith
  then have "aes_ready (snd (MCL_AES_init a mode nk key iv))"
    using assms(1,2) by (intro MCL_AES_init_ready(2)) auto
  from aes.run_dec_enc [OF this assms(4,5)] show ?thesis ..
qed

theorem aes_modes_roundtrip_witness:
  "\<exists>rs a' cs.
     run_blocks MCL_AES_encrypt (snd (MCL_AES_init zero_aes CBC 32 (replicate 32 7) (Some (replicate 16 9)))) [replicate 16 1, replicate 16 2] = (rs, a', cs) \<and>
     run_blocks MCL_AES_decrypt (snd (MCL_AES_init zero_aes CBC 32 (replicate 32 7) (Some (replicate 16 9)))) cs = (rs, a', [replicate 16 1, replicate 16 2])"
proof -
  obtain rs a' cs where "run_blocks MCL_AES_encrypt (snd (MCL_AES_init zero_aes CBC 32 (replicate 32 7) (Some (replicate 16 9))))
      [replicate 16 1, replicate 16 2] = (rs, a', cs)"
    by (metis prod_cases3)
  with aes_modes_roundtrip [OF zero_aes_wf _ _ _ this] show ?thesis by auto
qed

end
