(* ===== verification/Mcl_gcm.thy ===== *)
theory Mcl_gcm
  imports Aes
begin

text \<open>
  Galois/Counter Mode of the MIRACL library (\<^verbatim>\<open>common/vendors/MIRACL/ara/src/lib/mcl_gcm.c\<close>): a context that is
  fed header, plaintext or ciphertext in pieces and yields an authentication tag. The two data pointers of
  \<^verbatim>\<open>MCL_GCM_add_plain\<close> and \<^verbatim>\<open>MCL_GCM_add_cipher\<close> point into one memory, so that the model says what happens when they
  overlap. The reference is the mode of NIST SP 800-38D over polynomials modulo x^128 + x^7 + x^2 + x + 1.
\<close>

unbundle bit_operations_syntax

section \<open>The code\<close>

abbreviation (input) "MCL_GCM_ACCEPTING_HEADER \<equiv> 0 :: int"
abbreviation (input) "MCL_GCM_ACCEPTING_CIPHER \<equiv> 1 :: int"
abbreviation (input) "MCL_GCM_NOT_ACCEPTING_MORE \<equiv> 2 :: int"
abbreviation (input) "MCL_GCM_FINISHED \<equiv> 3 :: int"

record mcl_gcm =
  gcm_table :: "u32 list list"
  gcm_stateX :: bytes
  gcm_Y_0 :: bytes
  gcm_lenA :: "u32 \<times> u32"
  gcm_lenC :: "u32 \<times> u32"
  gcm_status :: int
  gcm_a :: mcl_aes

definition gcm_pack :: "bytes \<Rightarrow> u32" where
  "gcm_pack b = push_bit 24 (ucast (b ! 0)) OR push_bit 16 (ucast (b ! 1)) OR push_bit 8 (ucast (b ! 2)) OR ucast (b ! 3)"

definition gcm_unpack :: "u32 \<Rightarrow> bytes" where
  "gcm_unpack a =
     [MR_TOBYTE (drop_bit 24 a), MR_TOBYTE (drop_bit 16 a), MR_TOBYTE (drop_bit 8 a), MR_TOBYTE a]"

text \<open>The row of the table after \<open>prev\<close>: one shift to the right over the four words, and the reduction.\<close>

definition next_row :: "u32 list \<Rightarrow> u32 list \<Rightarrow> u32 list" where
  "next_row prev row =
     (let (row, b) = for_loop 0 4 (\<lambda>j (row, b). (row[j := b OR drop_bit 1 (prev ! j)], push_bit 31 (prev ! j))) (row, 0)
      in if b \<noteq> 0 then row[0 := row ! 0 XOR 0xE1000000] else row)"

definition precompute :: "mcl_gcm \<Rightarrow> bytes \<Rightarrow> mcl_gcm" where
  "precompute g H =
     (let t = gcm_table g;
          t = t[0 := for_loop 0 4 (\<lambda>i row. row[i := gcm_pack (drop (4 * i) H)]) (t ! 0)];
          t = for_loop 1 128 (\<lambda>i t. t[i := next_row (t ! (i - 1)) (t ! i)]) t
      in g\<lparr>gcm_table := t\<rparr>)"

text \<open>
  The multiplication by the table. Of the loop variables, \<open>j\<close> counts the bits of byte \<open>m\<close> down; the \<^verbatim>\<open>break\<close> of the
  source is taken in the last round of the loop, when \<open>m\<close> reaches 16.
\<close>

definition gf2mul_step :: "mcl_gcm \<Rightarrow> nat \<Rightarrow> u32 list \<times> nat \<times> nat \<Rightarrow> u32 list \<times> nat \<times> nat" where
  "gf2mul_step g i = (\<lambda>(P, j, m).
     let j = j - 1;
         P = (if bit (gcm_stateX g ! m) j then for_loop 0 4 (\<lambda>k P. P[k := P ! k XOR gcm_table g ! i ! k]) P else P)
     in if j = 0 then (P, 8, m + 1) else (P, j, m))"

definition gf2mul :: "mcl_gcm \<Rightarrow> mcl_gcm" where
  "gf2mul g =
     (let (P, j, m) = for_loop 0 128 (gf2mul_step g) (replicate 4 0, 8, 0)
      in g\<lparr>gcm_stateX := for_loop 0 4 (\<lambda>i x. put_bytes x (4 * i) (gcm_unpack (P ! i))) (gcm_stateX g)\<rparr>)"

definition MCL_GCM_wrap :: "mcl_gcm \<Rightarrow> mcl_gcm" where
  "MCL_GCM_wrap g =
     (let (a0, a1) = gcm_lenA g; (c0, c1) = gcm_lenC g;
          F = [push_bit 3 a0 OR drop_bit 29 (a1 AND 0xE0000000), push_bit 3 a1,
               push_bit 3 c0 OR drop_bit 29 (c1 AND 0xE0000000), push_bit 3 c1];
          L = concat (map gcm_unpack F)
      in gf2mul (g\<lparr>gcm_stateX := for_loop 0 16 (\<lambda>i x. x[i := x ! i XOR L ! i]) (gcm_stateX g)\<rparr>))"

text \<open>A 64-bit counter in two words, the high one first.\<close>

definition incr_len :: "u32 \<times> u32 \<Rightarrow> u32 \<times> u32" where
  "incr_len = (\<lambda>(hi, lo). let lo = lo + 1 in (if lo = 0 then hi + 1 else hi, lo))"

text \<open>
  The loop of \<^verbatim>\<open>MCL_GCM_ghash\<close> and of \<^verbatim>\<open>MCL_GCM_add_header\<close> over their data from byte \<open>j\<close>; the two differ in the
  counter that \<open>count\<close> raises, \<^verbatim>\<open>lenC\<close> in the first and \<^verbatim>\<open>lenA\<close> in the second.
\<close>

definition absorb_byte :: "(mcl_gcm \<Rightarrow> mcl_gcm) \<Rightarrow> u8 \<Rightarrow> nat \<Rightarrow> mcl_gcm \<Rightarrow> mcl_gcm" where
  "absorb_byte count b i g = count (g\<lparr>gcm_stateX := (gcm_stateX g)[i := gcm_stateX g ! i XOR b]\<rparr>)"

definition count_C :: "mcl_gcm \<Rightarrow> mcl_gcm" where
  "count_C g = g\<lparr>gcm_lenC := incr_len (gcm_lenC g)\<rparr>"

definition count_A :: "mcl_gcm \<Rightarrow> mcl_gcm" where
  "count_A g = g\<lparr>gcm_lenA := incr_len (gcm_lenA g)\<rparr>"

function absorb_loop :: "(mcl_gcm \<Rightarrow> mcl_gcm) \<Rightarrow> bytes \<Rightarrow> nat \<Rightarrow> nat \<Rightarrow> mcl_gcm \<Rightarrow> mcl_gcm" where
  "absorb_loop count plain len j g =
     (if j < len then
        (let n = min 16 (len - j);
             g = for_loop 0 n (\<lambda>i. absorb_byte count (plain ! (j + i)) i) g
         in absorb_loop count plain len (j + n) (gf2mul g))
      else g)"
  by pat_completeness auto
termination by (relation "measure (\<lambda>(count, plain, len, j, g). len - j)") auto

definition MCL_GCM_ghash :: "mcl_gcm \<Rightarrow> bytes \<Rightarrow> nat \<Rightarrow> int \<times> mcl_gcm" where
  "MCL_GCM_ghash g plain len =
     (let g = (if gcm_status g = MCL_GCM_ACCEPTING_HEADER then g\<lparr>gcm_status := MCL_GCM_ACCEPTING_CIPHER\<rparr> else g)
      in if gcm_status g \<noteq> MCL_GCM_ACCEPTING_CIPHER then (0, g)
         else
           (let g = absorb_loop count_C plain len 0 g
            in (1, if len mod 16 \<noteq> 0 then g\<lparr>gcm_status := MCL_GCM_NOT_ACCEPTING_MORE\<rparr> else g)))"

text \<open>\<^verbatim>\<open>MCL_GCM_init\<close> does not look at what \<^verbatim>\<open>MCL_AES_init\<close> returns.\<close>

definition MCL_GCM_init :: "mcl_gcm \<Rightarrow> int \<Rightarrow> bytes \<Rightarrow> nat \<Rightarrow> bytes \<Rightarrow> mcl_gcm" where
  "MCL_GCM_init g nk key niv iv =
     (let g = g\<lparr>gcm_stateX := for_loop 0 16 (\<lambda>i x. x[i := 0]) (gcm_stateX g)\<rparr>;
          H = replicate 16 0;
          g = g\<lparr>gcm_a := snd (MCL_AES_init (gcm_a g) ECB nk key (Some iv))\<rparr>;
          H = MCL_AES_ecb_encrypt (gcm_a g) H;
          g = precompute g H;
          g = g\<lparr>gcm_lenA := (0, 0), gcm_lenC := (0, 0)\<rparr>;
          g = (if niv = 12 then
                 (let f = for_loop 0 12 (\<lambda>i f. f[i := iv ! i]) (aes_f (gcm_a g));
                      f = put_bytes f 12 (gcm_unpack 1)
                  in g\<lparr>gcm_a := gcm_a g\<lparr>aes_f := f\<rparr>, gcm_Y_0 := for_loop 0 16 (\<lambda>i y. y[i := f ! i]) (gcm_Y_0 g)\<rparr>)
               else
                 (let g = g\<lparr>gcm_status := MCL_GCM_ACCEPTING_CIPHER\<rparr>;
                      g = snd (MCL_GCM_ghash g iv niv);
                      g = MCL_GCM_wrap g;
                      (f, y, x) = for_loop 0 16 (\<lambda>i (f, y, x). (f[i := x ! i], y[i := x ! i], x[i := 0]))
                                    (aes_f (gcm_a g), gcm_Y_0 g, gcm_stateX g)
                  in g\<lparr>gcm_a := gcm_a g\<lparr>aes_f := f\<rparr>, gcm_Y_0 := y, gcm_stateX := x, gcm_lenA := (0, 0), gcm_lenC := (0, 0)\<rparr>))
      in g\<lparr>gcm_status := MCL_GCM_ACCEPTING_HEADER\<rparr>)"

definition MCL_GCM_add_header :: "mcl_gcm \<Rightarrow> bytes \<Rightarrow> nat \<Rightarrow> int \<times> mcl_gcm" where
  "MCL_GCM_add_header g header len =
     (if gcm_status g \<noteq> MCL_GCM_ACCEPTING_HEADER then (0, g)
      else
        (let g = absorb_loop count_A header len 0 g
         in (1, if len mod 16 \<noteq> 0 then g\<lparr>gcm_status := MCL_GCM_ACCEPTING_CIPHER\<rparr> else g)))"

text \<open>The next block of key stream: the counter in the last four bytes of the vector goes up first.\<close>

definition next_counter :: "mcl_gcm \<Rightarrow> bytes \<times> mcl_gcm" where
  "next_counter g =
     (let counter = gcm_pack (drop 12 (aes_f (gcm_a g))) + 1;
          f = put_bytes (aes_f (gcm_a g)) 12 (gcm_unpack counter);
          B = map (\<lambda>i. f ! i) [0..<16];
          g = g\<lparr>gcm_a := gcm_a g\<lparr>aes_f := f\<rparr>\<rparr>
      in (MCL_AES_ecb_encrypt (gcm_a g) B, g))"

text \<open>One byte of each direction, at index \<open>j\<close> of the data and \<open>i\<close> of the block, over memory.\<close>

definition plain_byte :: "bytes \<Rightarrow> nat \<Rightarrow> nat \<Rightarrow> nat \<Rightarrow> nat \<Rightarrow> mcl_gcm \<times> bytes \<Rightarrow> mcl_gcm \<times> bytes" where
  "plain_byte B cipher plain j i = (\<lambda>(g, mem).
     let mem = mem[cipher + j := mem ! (plain + j) XOR B ! i]
     in (absorb_byte count_C (mem ! (cipher + j)) i g, mem))"

definition cipher_byte :: "bytes \<Rightarrow> nat \<Rightarrow> nat \<Rightarrow> nat \<Rightarrow> nat \<Rightarrow> mcl_gcm \<times> bytes \<Rightarrow> mcl_gcm \<times> bytes" where
  "cipher_byte B plain cipher j i = (\<lambda>(g, mem).
     let mem = mem[plain + j := mem ! (cipher + j) XOR B ! i]
     in (absorb_byte count_C (mem ! (cipher + j)) i g, mem))"

text \<open>The loop of both functions, over the assignment for a byte.\<close>

function data_loop ::
  "(bytes \<Rightarrow> nat \<Rightarrow> nat \<Rightarrow> mcl_gcm \<times> bytes \<Rightarrow> mcl_gcm \<times> bytes) \<Rightarrow> nat \<Rightarrow> nat \<Rightarrow> mcl_gcm \<times> bytes \<Rightarrow> mcl_gcm \<times> bytes" where
  "data_loop byte len j (g, mem) =
     (if j < len then
        (let (B, g) = next_counter g;
             n = min 16 (len - j);
             (g, mem) = for_loop 0 n (\<lambda>i. byte B (j + i) i) (g, mem)
         in data_loop byte len (j + n) (gf2mul g, mem))
      else (g, mem))"
  by pat_completeness auto
termination by (relation "measure (\<lambda>(byte, len, j, gm). len - j)") auto

definition MCL_GCM_add_plain :: "mcl_gcm \<Rightarrow> bytes \<Rightarrow> nat \<Rightarrow> nat \<Rightarrow> nat \<Rightarrow> int \<times> mcl_gcm \<times> bytes" where
  "MCL_GCM_add_plain g mem cipher plain len =
     (let g = (if gcm_status g = MCL_GCM_ACCEPTING_HEADER then g\<lparr>gcm_status := MCL_GCM_ACCEPTING_CIPHER\<rparr> else g)
      in if gcm_status g \<noteq> MCL_GCM_ACCEPTING_CIPHER then (0, g, mem)
         else
           (let (g, mem) = data_loop (\<lambda>B. plain_byte B cipher plain) len 0 (g, mem)
            in (1, if len mod 16 \<noteq> 0 then g\<lparr>gcm_status := MCL_GCM_NOT_ACCEPTING_MORE\<rparr> else g, mem)))"

definition MCL_GCM_add_cipher :: "mcl_gcm \<Rightarrow> bytes \<Rightarrow> nat \<Rightarrow> nat \<Rightarrow> nat \<Rightarrow> int \<times> mcl_gcm \<times> bytes" where
  "MCL_GCM_add_cipher g mem plain cipher len =
     (let g = (if gcm_status g = MCL_GCM_ACCEPTING_HEADER then g\<lparr>gcm_status := MCL_GCM_ACCEPTING_CIPHER\<rparr> else g)
      in if gcm_status g \<noteq> MCL_GCM_ACCEPTING_CIPHER then (0, g, mem)
         else
           (let (g, mem) = data_loop (\<lambda>B. cipher_byte B plain cipher) len 0 (g, mem)
            in (1, if len mod 16 \<noteq> 0 then g\<lparr>gcm_status := MCL_GCM_NOT_ACCEPTING_MORE\<rparr> else g, mem)))"

text \<open>The tag is returned when the caller gives a buffer for it.\<close>

definition MCL_GCM_finish :: "mcl_gcm \<Rightarrow> bool \<Rightarrow> bytes option \<times> mcl_gcm" where
  "MCL_GCM_finish g want =
     (let g = MCL_GCM_wrap g;
          (tag, g) =
            (if want then
               (let y = MCL_AES_ecb_encrypt (gcm_a g) (gcm_Y_0 g);
                    y = for_loop 0 16 (\<lambda>i y. y[i := y ! i XOR gcm_stateX g ! i]) y
                in (Some (map (\<lambda>i. y ! i) [0..<16]),
                    g\<lparr>gcm_Y_0 := for_loop 0 16 (\<lambda>i y. y[i := 0]) y,
                      gcm_stateX := for_loop 0 16 (\<lambda>i x. x[i := 0]) (gcm_stateX g)\<rparr>))
             else (None, g))
      in (tag, g\<lparr>gcm_status := MCL_GCM_FINISHED, gcm_a := MCL_AES_end (gcm_a g)\<rparr>))"

declare absorb_loop.simps [simp del] data_loop.simps [simp del]

section \<open>Blocks as polynomials\<close>

text \<open>Bit \<open>i\<close> of the word is the coefficient of x^i; a block holds it in the order of its bits from the left.\<close>

type_synonym poly = "128 word"

definition poly_of_bits :: "(nat \<Rightarrow> bool) \<Rightarrow> poly" where
  "poly_of_bits c = horner_sum of_bool 2 (map c [0..<128])"

definition block_poly :: "bytes \<Rightarrow> poly" where
  "block_poly b = poly_of_bits (\<lambda>i. bit (b ! (i div 8)) (7 - i mod 8))"

definition row_poly :: "u32 list \<Rightarrow> poly" where
  "row_poly r = poly_of_bits (\<lambda>i. bit (r ! (i div 32)) (31 - i mod 32))"

definition poly_block :: "poly \<Rightarrow> bytes" where
  "poly_block p = map (\<lambda>m. horner_sum of_bool 2 (map (\<lambda>k. bit p (8 * m + 7 - k)) [0..<8])) [0..<16]"

lemma bit_poly_of_bits: "bit (poly_of_bits c) n \<longleftrightarrow> n < 128 \<and> c n"
  by (auto simp: poly_of_bits_def bit_horner_sum_bit_word_iff)

text \<open>Positions of a bit: in a byte, and in a word that holds four bytes.\<close>

lemma div_mod_8: "v < 8 \<Longrightarrow> (8 * x + v) div 8 = x" "v < 8 \<Longrightarrow> (8 * x + v) mod 8 = (v :: nat)"
  by simp_all

lemma byte_position: "k < 8 \<Longrightarrow> (8 * m + 7 - k) div 8 = m" "k < 8 \<Longrightarrow> 7 - (8 * m + 7 - k) mod 8 = (k :: nat)"
proof -
  assume "k < 8"
  then have *: "8 * m + 7 - k = 8 * m + (7 - k)" "7 - k < 8" "7 - (7 - k) = k" by simp_all
  show "(8 * m + 7 - k) div 8 = m" "7 - (8 * m + 7 - k) mod 8 = k"
    by (simp_all only: *(1,3) div_mod_8 [OF *(2)])
qed

lemma word_position:
  fixes n :: nat
  shows "(31 - n mod 32) div 8 = 3 - n div 8 mod 4" "(31 - n mod 32) mod 8 = 7 - n mod 8"
    "31 - n mod 32 = 8 * (3 - n div 8 mod 4) + (7 - n mod 8)" "n div 32 = n div 8 div 4"
    "n div 8 = 4 * (n div 32) + n div 8 mod 4"
proof -
  have bc: "n div 8 mod 4 < 4" "n mod 8 < 8" "7 - n mod 8 < 8" by simp_all
  have "n mod 32 = 8 * (n div 8 mod 4) + n mod 8" using mod_mult2_eq [of n 8 4] by simp
  with bc show *: "31 - n mod 32 = 8 * (3 - n div 8 mod 4) + (7 - n mod 8)" by linarith
  show "(31 - n mod 32) div 8 = 3 - n div 8 mod 4" "(31 - n mod 32) mod 8 = 7 - n mod 8"
    by (simp_all only: * div_mod_8 [OF bc(3)])
  show d: "n div 32 = n div 8 div 4" by (simp flip: div_mult2_eq)
  show "n div 8 = 4 * (n div 32) + n div 8 mod 4" unfolding d by simp
qed

lemma poly_eqI: "(\<And>n. n < 128 \<Longrightarrow> bit p n \<longleftrightarrow> bit q n) \<Longrightarrow> p = (q :: poly)"
  by (rule bit_word_eqI) simp

lemmas bit_polys = block_poly_def row_poly_def bit_poly_of_bits

lemma length_poly_block [simp]: "length (poly_block p) = 16"
  by (simp add: poly_block_def)

lemma bit_poly_block: "m < 16 \<Longrightarrow> k < 8 \<Longrightarrow> bit (poly_block p ! m) k \<longleftrightarrow> bit p (8 * m + 7 - k)"
  by (simp add: poly_block_def bit_horner_sum_bit_word_iff)

lemma block_poly_poly_block: "block_poly (poly_block p) = p"
proof (rule poly_eqI)
  fix n :: nat assume "n < 128"
  moreover have "8 * (n div 8) + 7 - (7 - n mod 8) = n" using mod_less_divisor [of 8 n] mult_div_mod_eq [of 8 n] by linarith
  ultimately show "bit (block_poly (poly_block p)) n \<longleftrightarrow> bit p n"
    by (simp add: bit_polys bit_poly_block less_mult_imp_div_less)
qed

lemma poly_block_block_poly: assumes "length b = 16" shows "poly_block (block_poly b) = b"
proof (rule nth_equalityI)
  fix m assume "m < length (poly_block (block_poly b))"
  then have m: "m < 16" by simp
  show "poly_block (block_poly b) ! m = b ! m"
  proof (rule bit_word_eqI)
    fix k assume "k < LENGTH(8)"
    then have k: "k < 8" by simp
    have "8 * m + 7 - k < 128" using m by linarith
    with byte_position [OF k, of m] show "bit (poly_block (block_poly b) ! m) k \<longleftrightarrow> bit (b ! m) k"
      using m k by (simp add: bit_poly_block bit_polys)
  qed
qed (use assms in simp)

lemma bit_gcm_pack: "n < 32 \<Longrightarrow> bit (gcm_pack b) n \<longleftrightarrow> bit (b ! (3 - n div 8)) (n mod 8)"
proof -
  assume n: "n < 32"
  then consider "n < 8" | "8 \<le> n" "n < 16" | "16 \<le> n" "n < 24" | "24 \<le> n" by linarith
  then show ?thesis
  proof cases
    case 1 then show ?thesis using n by (auto simp: gcm_pack_def bit_simps dest: bit_imp_le_length)
  next
    case 2 then have "n div 8 = 1" "n mod 8 = n - 8" by presburger+
    then show ?thesis using n 2 by (auto simp: gcm_pack_def bit_simps dest: bit_imp_le_length)
  next
    case 3 then have "n div 8 = 2" "n mod 8 = n - 16" by presburger+
    then show ?thesis using n 3 by (auto simp: gcm_pack_def bit_simps dest: bit_imp_le_length)
  next
    case 4 then have "n div 8 = 3" "n mod 8 = n - 24" using n by presburger+
    then show ?thesis using n 4 by (auto simp: gcm_pack_def bit_simps dest: bit_imp_le_length)
  qed
qed

lemma gcm_unpack_nth: "k < 4 \<Longrightarrow> gcm_unpack w ! k = MR_TOBYTE (drop_bit (8 * (3 - k)) w)"
  by (auto simp: gcm_unpack_def less_Suc_eq eval_nat_numeral)

lemma length_gcm_unpack [simp]: "length (gcm_unpack w) = 4"
  by (simp add: gcm_unpack_def)

lemma row_poly_pack:
  assumes "\<And>i. i < 4 \<Longrightarrow> r ! i = gcm_pack (drop (4 * i) H)" "length H = 16"
  shows "row_poly r = block_poly H"
proof (rule poly_eqI)
  fix n :: nat assume n: "n < 128"
  then have q: "n div 32 < 4" by simp
  have c: "3 - (3 - c) = c" if "c < 4" for c :: nat using that by simp
  have "n div 8 mod 4 < 4" by simp
  note idx = word_position(1) [of n] c [OF this]
  have "bit (r ! (n div 32)) (31 - n mod 32) \<longleftrightarrow> bit (drop (4 * (n div 32)) H ! (n div 8 mod 4)) (7 - n mod 8)"
  proof -
    have "31 - n mod 32 < 32" by simp
    from bit_gcm_pack [OF this, of "drop (4 * (n div 32)) H"] show ?thesis
      by (simp only: assms(1) [OF q] idx word_position(2))
  qed
  also have "drop (4 * (n div 32)) H ! (n div 8 mod 4) = H ! (n div 8)"
    using q assms(2) by (simp only: nth_drop word_position(5) [symmetric])
  finally show "bit (row_poly r) n \<longleftrightarrow> bit (block_poly H) n" using n by (simp only: bit_polys)
qed

lemma nth_concat4: "length xs = k \<Longrightarrow> i < 4 * k \<Longrightarrow> concat (map gcm_unpack xs) ! i = gcm_unpack (xs ! (i div 4)) ! (i mod 4)"
proof (induction xs arbitrary: k i)
  case (Cons x xs)
  show ?case
  proof (cases "i < 4")
    case False
    then obtain i' where i: "i = i' + 4" by (metis add.commute le_Suc_ex not_less)
    then have "i div 4 = Suc (i' div 4)" "i mod 4 = i' mod 4" by simp_all
    then show ?thesis using Cons i by (auto simp: nth_append)
  qed (simp add: nth_append)
qed simp

lemma block_poly_unpack: "length r = 4 \<Longrightarrow> block_poly (concat (map gcm_unpack r)) = row_poly r"
proof (rule poly_eqI)
  fix n :: nat assume r: "length r = 4" and n: "n < 128"
  have *: "n div 8 < 4 * 4" "n div 8 mod 4 < 4" "7 - n mod 8 < 8" using n by auto
  show "bit (block_poly (concat (map gcm_unpack r))) n \<longleftrightarrow> bit (row_poly r) n"
    using n r *
    by (simp only: bit_polys nth_concat4 [OF r *(1)] gcm_unpack_nth [OF *(2)] MR_TOBYTE_def bit_ucast_iff bit_drop_bit_eq
        word_position(3,4) o_apply) simp
qed

section \<open>The field\<close>

definition mulx :: "poly \<Rightarrow> poly" where
  "mulx v = push_bit 1 v XOR (if bit v 127 then 0x87 else 0)"

primrec poly_sum :: "poly \<Rightarrow> poly \<Rightarrow> nat \<Rightarrow> poly" where
  "poly_sum x y 0 = 0"
| "poly_sum x y (Suc n) = poly_sum x y n XOR (if bit x n then (mulx ^^ n) y else 0)"

definition gf128_mult :: "poly \<Rightarrow> poly \<Rightarrow> poly" where
  "gf128_mult x y = poly_sum x y 128"

subsection \<open>The table\<close>

lemma next_row_eq:
  "next_row [a, b, c, d] [a', b', c', d'] =
     [drop_bit 1 a XOR (if bit d 0 then 0xE1000000 else 0), push_bit 31 a OR drop_bit 1 b,
      push_bit 31 b OR drop_bit 1 c, push_bit 31 c OR drop_bit 1 d]"
proof -
  have "push_bit 31 d \<noteq> 0 \<longleftrightarrow> bit d 0"
  proof
    assume "push_bit 31 d \<noteq> 0"
    then obtain n where "bit (push_bit 31 d) n" by (metis bit_0_eq bit_eq_iff bot_apply bot_bool_def)
    then have "31 \<le> n" "n < 32" "bit d (n - 31)" by (auto simp: bit_push_bit_iff dest: bit_imp_le_length)
    moreover from this have "n = 31" by linarith
    ultimately show "bit d 0" by simp
  next
    assume "bit d 0"
    then have "bit (push_bit 31 d) 31" by (simp add: bit_push_bit_iff)
    then show "push_bit 31 d \<noteq> 0" by auto
  qed
  then show ?thesis by (simp add: next_row_def for_loop_def upt_rec Let_def)
qed

lemma word_index: "32 * a \<le> n \<Longrightarrow> n < 32 * a + 32 \<Longrightarrow> n div 32 = a \<and> n mod 32 = n - 32 * (a :: nat)"
proof -
  assume *: "32 * a \<le> n" "n < 32 * a + 32"
  then obtain m where m: "n = 32 * a + m" using le_Suc_ex by blast
  with * have "m < 32" by simp
  with m show ?thesis by simp
qed

lemma bit_row:
  "bit (row_poly [a, b, c, d]) n \<longleftrightarrow>
     (if n < 32 then bit a (31 - n) else if n < 64 then bit b (63 - n) else if n < 96 then bit c (95 - n)
      else n < 128 \<and> bit d (127 - n))"
proof -
  consider "n < 32" | "32 \<le> n" "n < 64" | "64 \<le> n" "n < 96" | "96 \<le> n" "n < 128" | "128 \<le> n" by linarith
  then show ?thesis
  proof cases
    case 2 with word_index [of 1 n] show ?thesis by (simp add: bit_polys)
  next
    case 3 with word_index [of 2 n] show ?thesis by (simp add: bit_polys)
  next
    case 4 with word_index [of 3 n] show ?thesis by (simp add: bit_polys)
  qed (simp_all add: bit_polys)
qed

lemma bit_reduction:
  "bit (0x87 :: poly) n \<longleftrightarrow> n = 0 \<or> n = 1 \<or> n = 2 \<or> n = 7"
  "bit (0xE1000000 :: u32) k \<longleftrightarrow> k = 31 \<or> k = 30 \<or> k = 29 \<or> k = 24"
proof -
  have "(0x87 :: poly) = 2 ^ 0 OR 2 ^ 1 OR 2 ^ 2 OR 2 ^ 7" "(0xE1000000 :: u32) = 2 ^ 31 OR 2 ^ 30 OR 2 ^ 29 OR 2 ^ 24"
    by simp_all
  then show "bit (0x87 :: poly) n \<longleftrightarrow> n = 0 \<or> n = 1 \<or> n = 2 \<or> n = 7"
    "bit (0xE1000000 :: u32) k \<longleftrightarrow> k = 31 \<or> k = 30 \<or> k = 29 \<or> k = 24"
    by (auto simp only: bit_or_iff bit_exp_iff) (auto simp: possible_bit_word)
qed

lemma bit_mulx:
  "bit (mulx v) n \<longleftrightarrow> n < 128 \<and> ((0 < n \<and> bit v (n - 1)) \<noteq> (bit v 127 \<and> (n = 0 \<or> n = 1 \<or> n = 2 \<or> n = 7)))"
proof (cases "n < 128")
  case True
  then have *: "bit (push_bit 1 v) n \<longleftrightarrow> 0 < n \<and> bit v (n - 1)"
    by (auto simp only: bit_push_bit_iff possible_bit_word) simp_all
  show ?thesis
  proof (cases "bit v 127")
    case False
    then have "mulx v = push_bit 1 v" by (simp add: mulx_def)
    with False True * show ?thesis by (simp only: simp_thms)
  next
    assume top: "bit v 127"
    then have "mulx v = push_bit 1 v XOR 0x87" by (simp only: mulx_def if_True)
    with top True * show ?thesis by (simp only: simp_thms bit_xor_iff bit_reduction(1))
  qed
qed (use bit_imp_le_length [of "mulx v" n] in auto)

lemma row_poly_next:
  assumes "length r = 4" "length r' = 4" shows "row_poly (next_row r r') = mulx (row_poly r)"
proof (rule poly_eqI)
  fix n :: nat assume n: "n < 128"
  obtain a b c d where r: "r = [a, b, c, d]" using assms(1) by (rule length4E)
  obtain a' b' c' d' where r': "r' = [a', b', c', d']" using assms(2) by (rule length4E)
  define R :: u32 where "R = (if bit d 0 then 0xE1000000 else 0)"
  have R: "bit R k \<longleftrightarrow> bit d 0 \<and> (k = 31 \<or> k = 30 \<or> k = 29 \<or> k = 24)" for k
    by (cases "bit d 0") (simp_all only: R_def if_True if_False bit_reduction(2) bit_0_eq bot_apply bot_bool_def simp_thms)
  have row: "next_row r r' = [drop_bit 1 a XOR R, push_bit 31 a OR drop_bit 1 b, push_bit 31 b OR drop_bit 1 c, push_bit 31 c OR drop_bit 1 d]"
    by (simp only: r r' next_row_eq R_def)
  have high: "bit w (32 + m) \<longleftrightarrow> False" for w :: u32 and m using bit_imp_le_length [of w "32 + m"] by auto
  have carry: "bit (push_bit 31 v OR drop_bit 1 w) k \<longleftrightarrow> (if k = 31 then bit v 0 else bit w (Suc k))" if "k < 32"
    for v w :: u32 and k
    using that high [of w 0] by (auto simp: bit_simps)
  have d: "bit (row_poly r) 127 \<longleftrightarrow> bit d 0" by (simp add: r bit_row)
  have next_bit: "bit (row_poly (next_row r r')) n \<longleftrightarrow>
     (if n < 32 then bit a (Suc (31 - n)) \<noteq> bit R (31 - n)
      else if n < 64 then (if n = 32 then bit a 0 else bit b (Suc (63 - n)))
      else if n < 96 then (if n = 64 then bit b 0 else bit c (Suc (95 - n)))
      else (if n = 96 then bit c 0 else bit d (Suc (127 - n))))"
    using n carry [of "63 - n" a b] carry [of "95 - n" b c] carry [of "127 - n" c d]
    by (auto simp: row bit_row bit_xor_iff bit_drop_bit_eq)
  show "bit (row_poly (next_row r r')) n \<longleftrightarrow> bit (mulx (row_poly r)) n"
  proof (cases n)
    case 0
    then show ?thesis unfolding next_bit R bit_mulx d using high [of a 0] by simp
  next
    case (Suc k)
    have below: "bit (row_poly r) k \<longleftrightarrow>
       (if n < 32 then bit a (Suc (31 - n))
        else if n < 64 then (if n = 32 then bit a 0 else bit b (Suc (63 - n)))
        else if n < 96 then (if n = 64 then bit b 0 else bit c (Suc (95 - n)))
        else (if n = 96 then bit c 0 else bit d (Suc (127 - n))))"
    proof -
      have "k < 31 \<Longrightarrow> Suc (30 - k) = 31 - k" "k < 63 \<Longrightarrow> Suc (62 - k) = 63 - k" "k < 95 \<Longrightarrow> Suc (94 - k) = 95 - k"
        "k < 127 \<Longrightarrow> Suc (126 - k) = 127 - k" by simp_all
      then show ?thesis using Suc n by (simp add: r bit_row less_Suc_eq)
    qed
    have nk: "n - 1 = k" using Suc by simp
    have "0 < n" "n < 128" "n \<noteq> 0" using Suc n by simp_all
    moreover have "31 - n = 31 \<longleftrightarrow> False" "31 - n = 30 \<longleftrightarrow> n = 1" "31 - n = 29 \<longleftrightarrow> n = 2" "31 - n = 24 \<longleftrightarrow> n = 7" if "n < 32"
      using that Suc by auto
    moreover have "n \<noteq> 1" "n \<noteq> 2" "n \<noteq> 7" if "\<not> n < 32" using that by auto
    ultimately show ?thesis
      unfolding next_bit R bit_mulx d nk below by (cases "n < 32") simp_all
  qed
qed

lemma length_next_row [simp]: "length (next_row r r') = length r'"
proof -
  have "length (fst (for_loop 0 4 (\<lambda>j (row, b). (row[j := b OR drop_bit 1 (r ! j)], push_bit 31 (r ! j))) (r', 0))) = length r'"
    by (rule for_loop_inv [where P = "\<lambda>_ p. length (fst p) = length r'"]) auto
  then show ?thesis by (auto simp: next_row_def Let_def split: prod.splits)
qed

definition table_shape :: "u32 list list \<Rightarrow> bool" where
  "table_shape t \<longleftrightarrow> length t = 128 \<and> list_all (\<lambda>r. length r = 4) t"

lemma table_shape_row: "table_shape t \<Longrightarrow> i < 128 \<Longrightarrow> length (t ! i) = 4"
  by (simp add: table_shape_def list_all_length)

lemma table_shape_update: "table_shape t \<Longrightarrow> length r = 4 \<Longrightarrow> table_shape (t[i := r])"
  by (cases "i < length t") (auto simp: table_shape_def list_all_length nth_list_update)

definition table_for :: "poly \<Rightarrow> u32 list list \<Rightarrow> bool" where
  "table_for H t \<longleftrightarrow> table_shape t \<and> (\<forall>i < 128. row_poly (t ! i) = (mulx ^^ i) H)"

lemma precompute_table:
  assumes "table_shape (gcm_table g)" "length H = 16"
  obtains t where "precompute g H = g\<lparr>gcm_table := t\<rparr>" "table_for (block_poly H) t"
proof -
  let ?t = "gcm_table g"
  define r0 where "r0 = for_loop 0 4 (\<lambda>i row. row[i := gcm_pack (drop (4 * i) H)]) (?t ! 0)"
  have len: "length (?t ! 0) = 4" using assms(1) by (rule table_shape_row) simp
  have "r0 ! i = gcm_pack (drop (4 * i) H)" if "i < 4" for i
    unfolding r0_def using that len by (intro nth_for_loop_update [of "\<lambda>i. i"]) auto
  then have r0: "row_poly r0 = block_poly H" "length r0 = 4"
    using assms(2) len by (auto intro: row_poly_pack simp: r0_def)
  define t where "t = for_loop 1 128 (\<lambda>i t. t[i := next_row (t ! (i - 1)) (t ! i)]) (?t[0 := r0])"
  have "table_shape t \<and> (\<forall>i < 128. row_poly (t ! i) = (mulx ^^ i) (block_poly H))"
    unfolding t_def
  proof (rule for_loop_inv [where P = "\<lambda>n t. table_shape t \<and> (\<forall>i < n. row_poly (t ! i) = (mulx ^^ i) (block_poly H))"])
    show "table_shape (?t[0 := r0]) \<and> (\<forall>i < 1. row_poly (?t[0 := r0] ! i) = (mulx ^^ i) (block_poly H))"
      using assms(1) r0 by (auto simp: table_shape_update) (simp add: table_shape_def)
  next
    fix n t assume n: "1 \<le> n" "n < 128"
      and IH: "table_shape t \<and> (\<forall>i < n. row_poly (t ! i) = (mulx ^^ i) (block_poly H))"
    obtain m where m: "n = Suc m" using n by (cases n) auto
    have "row_poly (next_row (t ! m) (t ! n)) = (mulx ^^ n) (block_poly H)"
      using IH n m by (simp add: row_poly_next table_shape_row)
    then show "table_shape (t[n := next_row (t ! (n - 1)) (t ! n)]) \<and>
        (\<forall>i < Suc n. row_poly (t[n := next_row (t ! (n - 1)) (t ! n)] ! i) = (mulx ^^ i) (block_poly H))"
      using IH n m by (auto simp: table_shape_update table_shape_row nth_list_update less_Suc_eq) (simp add: table_shape_def)
  qed simp
  then show ?thesis using that [of t] by (simp add: precompute_def Let_def t_def r0_def table_for_def)
qed

subsection \<open>The multiplication\<close>

lemma row_poly_xor: "length r = 4 \<Longrightarrow> length r' = 4 \<Longrightarrow>
  row_poly (for_loop 0 4 (\<lambda>k P. P[k := P ! k XOR r' ! k]) r) = row_poly r XOR row_poly r'"
  by (elim length4E, rule poly_eqI) (simp add: for_loop_def upt_rec bit_row bit_xor_iff numeral_2_eq_2 numeral_3_eq_3)

lemma gf2mul_eq:
  assumes "table_for H (gcm_table g)" "length (gcm_stateX g) = 16"
  shows "gf2mul g = g\<lparr>gcm_stateX := poly_block (gf128_mult (block_poly (gcm_stateX g)) H)\<rparr>"
proof -
  let ?x = "block_poly (gcm_stateX g)"
  let ?res = "for_loop 0 128 (gf2mul_step g) (replicate 4 0, 8, 0)"
  have "case ?res of (P, j, m) \<Rightarrow>
      length P = 4 \<and> row_poly P = poly_sum ?x H 128 \<and> j = 8 - 128 mod 8 \<and> m = 128 div 8"
  proof (rule for_loop_inv [where P = "\<lambda>i (P, j, m). length P = 4 \<and> row_poly P = poly_sum ?x H i \<and> j = 8 - i mod 8 \<and> m = i div 8"])
    show "case (replicate 4 0, 8, 0) of (P, j, m) \<Rightarrow> length P = 4 \<and> row_poly P = poly_sum ?x H 0 \<and> j = 8 - (0 :: nat) mod 8 \<and> m = (0 :: nat) div 8"
      by (auto intro!: poly_eqI simp: bit_polys)
  next
    fix i :: nat and t assume i: "i < 128"
      and "case t of (P, j, m) \<Rightarrow> length P = 4 \<and> row_poly P = poly_sum ?x H i \<and> j = 8 - i mod 8 \<and> m = i div 8"
    then obtain P where t: "t = (P, 8 - i mod 8, i div 8)" and P: "length P = 4" "row_poly P = poly_sum ?x H i" by auto
    define P' where "P' = (if bit ?x i then for_loop 0 4 (\<lambda>k P. P[k := P ! k XOR gcm_table g ! i ! k]) P else P)"
    have row: "length (gcm_table g ! i) = 4" "row_poly (gcm_table g ! i) = (mulx ^^ i) H"
      using assms(1) i by (auto simp: table_for_def table_shape_row)
    have P': "length P' = 4" "row_poly P' = poly_sum ?x H (Suc i)"
      using P row by (auto simp: P'_def row_poly_xor)
        (rule for_loop_inv [where P = "\<lambda>_ P. length P = 4"]; simp)
    have "bit (gcm_stateX g ! (i div 8)) (8 - i mod 8 - 1) \<longleftrightarrow> bit ?x i"
      using i by (simp add: bit_polys)
    then have step: "gf2mul_step g i t =
        (if 8 - i mod 8 - 1 = 0 then (P', 8, i div 8 + 1) else (P', 8 - i mod 8 - 1, i div 8))"
      by (simp only: gf2mul_step_def t prod.case Let_def P'_def)
    show "case gf2mul_step g i t of (P, j, m) \<Rightarrow>
        length P = 4 \<and> row_poly P = poly_sum ?x H (Suc i) \<and> j = 8 - Suc i mod 8 \<and> m = Suc i div 8"
      unfolding step using P' by (auto simp: mod_Suc div_Suc)
  qed simp
  then obtain P where res: "?res = (P, 8, 16)" and P: "length P = 4" "row_poly P = gf128_mult ?x H"
    by (auto simp: gf128_mult_def)
  have "for_loop 0 4 (\<lambda>i x. put_bytes x (4 * i) (gcm_unpack (P ! i))) (gcm_stateX g) = concat (map gcm_unpack P)"
    using P(1) assms(2) by (elim length4E) (simp add: for_loop_def upt_rec put_bytes_def)
  also have "\<dots> = poly_block (gf128_mult ?x H)"
    using P assms(2) poly_block_block_poly [of "concat (map gcm_unpack P)"] block_poly_unpack [OF P(1)]
    by (auto elim!: length4E)
  finally show ?thesis by (simp add: gf2mul_def res)
qed

section \<open>Absorbing data\<close>

text \<open>The reference hash: blocks of 16 bytes, the last one filled up with zeros.\<close>

definition pad16 :: "bytes \<Rightarrow> bytes" where
  "pad16 b = b @ replicate (16 - length b) 0"

function ghash :: "poly \<Rightarrow> poly \<Rightarrow> bytes \<Rightarrow> poly" where
  "ghash H x data =
     (if data = [] then x
      else ghash H (gf128_mult (x XOR block_poly (pad16 (take 16 data))) H) (drop 16 data))"
  by pat_completeness auto
termination by (relation "measure (\<lambda>(H, x, data). length data)") auto

declare ghash.simps [simp del]

lemma ghash_Nil [simp]: "ghash H x [] = x"
  by (simp add: ghash.simps)

text \<open>A state whose first bytes have been xored with those of \<open>bs\<close>.\<close>

definition mixed :: "bytes \<Rightarrow> bytes \<Rightarrow> bytes" where
  "mixed bs x = map (\<lambda>i. if i < length bs then x ! i XOR bs ! i else x ! i) [0..<16]"

lemma length_mixed [simp]: "length (mixed bs x) = 16"
  by (simp add: mixed_def)

lemma mixed_Nil: "length x = 16 \<Longrightarrow> mixed [] x = x"
  by (simp add: mixed_def) (metis map_nth)

lemma mixed_snoc: "length bs < 16 \<Longrightarrow> (mixed bs x)[length bs := mixed bs x ! length bs XOR b] = mixed (bs @ [b]) x"
  by (rule nth_equalityI) (auto simp: mixed_def nth_list_update nth_append less_Suc_eq)

lemma block_poly_mixed: "length bs \<le> 16 \<Longrightarrow> block_poly (mixed bs x) = block_poly x XOR block_poly (pad16 bs)"
proof (rule poly_eqI)
  fix n :: nat assume "length bs \<le> 16" "n < 128"
  then show "bit (block_poly (mixed bs x)) n \<longleftrightarrow> bit (block_poly x XOR block_poly (pad16 bs)) n"
    by (auto simp: bit_polys bit_xor_iff mixed_def pad16_def nth_append)
qed

text \<open>Counting functions leave everything but a length alone.\<close>

locale gcm_counter =
  fixes count :: "mcl_gcm \<Rightarrow> mcl_gcm"
  assumes stateX: "gcm_stateX (count g) = gcm_stateX g"
    and table: "gcm_table (count g) = gcm_table g"
    and update: "count (g\<lparr>gcm_stateX := x\<rparr>) = (count g)\<lparr>gcm_stateX := x\<rparr>"
begin

lemma pow_fields:
  "gcm_stateX ((count ^^ n) g) = gcm_stateX g" "gcm_table ((count ^^ n) g) = gcm_table g"
  "(count ^^ n) (g\<lparr>gcm_stateX := x\<rparr>) = ((count ^^ n) g)\<lparr>gcm_stateX := x\<rparr>"
  by (induction n) (simp_all add: stateX table update)

lemma absorb_chunk:
  assumes "length (gcm_stateX g) = 16" "n \<le> 16"
  shows "for_loop 0 n (\<lambda>i. absorb_byte count (b i) i) g = ((count ^^ n) g)\<lparr>gcm_stateX := mixed (map b [0..<n]) (gcm_stateX g)\<rparr>"
  using assms(2)
proof (induction n)
  case 0
  then show ?case using assms(1) by (simp add: mixed_Nil)
next
  case (Suc n)
  have "mixed (map b [0..<n]) x ! n = x ! n" if "length x = 16" for x
    using Suc.prems by (simp add: mixed_def)
  then show ?case
    using Suc mixed_snoc [of "map b [0..<n]" "gcm_stateX g" "b n"]
    by (simp add: for_loop_Suc absorb_byte_def update pow_fields)
qed

text \<open>The loop over the data computes the reference hash and counts the bytes.\<close>

lemma absorb_loop_eq:
  assumes "table_for H (gcm_table g)" "length (gcm_stateX g) = 16" "len \<le> length data"
  shows "absorb_loop count data len j g =
    ((count ^^ (len - j)) g)\<lparr>gcm_stateX := poly_block (ghash H (block_poly (gcm_stateX g)) (drop j (take len data)))\<rparr>"
  using assms
proof (induction "len - j" arbitrary: j g rule: less_induct)
  case less
  show ?case
  proof (cases "j < len")
    case False
    then show ?thesis using less.prems by (simp add: absorb_loop.simps [of _ _ _ _ g] poly_block_block_poly)
  next
    case True
    define n where "n = min 16 (len - j)"
    have n: "0 < n" "n \<le> 16" "n \<le> len - j" using True by (auto simp: n_def)
    define rest where "rest = drop j (take len data)"
    have take: "map (\<lambda>i. data ! (j + i)) [0..<n] = take 16 rest" and drop: "drop (j + n) (take len data) = drop 16 rest"
      and "rest \<noteq> []"
      using True less.prems(3) by (auto simp: rest_def n_def min_def ac_simps intro!: nth_equalityI)
    let ?x = "gcm_stateX g"
    define g' where "g' = ((count ^^ n) g)\<lparr>gcm_stateX := mixed (take 16 rest) ?x\<rparr>"
    have g': "for_loop 0 n (\<lambda>i. absorb_byte count (data ! (j + i)) i) g = g'"
      using absorb_chunk [OF less.prems(2) n(2), of "\<lambda>i. data ! (j + i)"] by (simp add: g'_def take)
    have tab: "table_for H (gcm_table g')" "length (gcm_stateX g') = 16"
      using less.prems(1) by (simp_all add: g'_def pow_fields)
    define g'' where "g'' = gf2mul g'"
    have g'': "g'' = g'\<lparr>gcm_stateX := poly_block (gf128_mult (block_poly ?x XOR block_poly (pad16 (take 16 rest))) H)\<rparr>"
      unfolding g''_def using gf2mul_eq [OF tab] by (simp add: g'_def block_poly_mixed)
    have "absorb_loop count data len j g = absorb_loop count data len (j + n) g''"
      using True g' by (subst absorb_loop.simps) (simp add: Let_def n_def [symmetric] g''_def)
    also have "\<dots> = ((count ^^ (len - (j + n))) g'')\<lparr>gcm_stateX := poly_block (ghash H (block_poly (gcm_stateX g'')) (drop 16 rest))\<rparr>"
      using less.hyps [of "j + n" g''] True n less.prems(3) tab drop by (simp add: g'')
    also have "\<dots> = ((count ^^ (len - j)) g)\<lparr>gcm_stateX := poly_block (ghash H (block_poly ?x) rest)\<rparr>"
    proof -
      have "(count ^^ (len - (j + n))) ((count ^^ n) g) = (count ^^ (len - j)) g"
        using n funpow_add [of "len - (j + n)" n count] by simp
      moreover have "ghash H (block_poly ?x) rest = ghash H (block_poly (gcm_stateX g'')) (drop 16 rest)"
        using \<open>rest \<noteq> []\<close> by (subst ghash.simps) (simp add: g'' block_poly_poly_block)
      ultimately show ?thesis by (simp add: g'' g'_def pow_fields)
    qed
    finally show ?thesis by (simp add: rest_def)
  qed
qed

end

interpretation cntA: gcm_counter count_A
  by unfold_locales (simp_all add: count_A_def)

interpretation cntC: gcm_counter count_C
  by unfold_locales (simp_all add: count_C_def)

section \<open>Encrypting and decrypting data\<close>

text \<open>The key stream of the reference: the counter block before each block of data is one higher than the last.\<close>

function gctr :: "(bytes \<Rightarrow> bytes) \<Rightarrow> bytes \<Rightarrow> u32 \<Rightarrow> bytes \<Rightarrow> bytes" where
  "gctr E pre ctr data =
     (if data = [] then []
      else map2 (XOR) (take 16 data) (E (pre @ gcm_unpack (ctr + 1))) @ gctr E pre (ctr + 1) (drop 16 data))"
  by pat_completeness auto
termination by (relation "measure (\<lambda>(E, pre, ctr, data). length data)") auto

declare gctr.simps [simp del]

definition blocks :: "nat \<Rightarrow> nat" where
  "blocks n = (n + 15) div 16"

text \<open>
  Both byte operations write the byte at \<open>dst\<close> from that at \<open>src\<close>, and then hash the byte at \<open>hsh\<close>, which is one
  of the two.
\<close>

definition data_byte :: "nat \<Rightarrow> nat \<Rightarrow> nat \<Rightarrow> bytes \<Rightarrow> nat \<Rightarrow> nat \<Rightarrow> mcl_gcm \<times> bytes \<Rightarrow> mcl_gcm \<times> bytes" where
  "data_byte dst src hsh B j i = (\<lambda>(g, mem).
     let mem = mem[dst + j := mem ! (src + j) XOR B ! i] in (absorb_byte count_C (mem ! (hsh + j)) i g, mem))"

lemma plain_byte_eq: "(\<lambda>B. plain_byte B cipher plain) = data_byte cipher plain cipher"
  by (simp add: fun_eq_iff plain_byte_def data_byte_def)

lemma cipher_byte_eq: "(\<lambda>B. cipher_byte B plain cipher) = data_byte plain cipher cipher"
  by (simp add: fun_eq_iff cipher_byte_def data_byte_def)

definition apart :: "nat \<Rightarrow> nat \<Rightarrow> nat \<Rightarrow> bool" where
  "apart p q n \<longleftrightarrow> p + n \<le> q \<or> q + n \<le> p"

lemma put_bytes_snoc:
  "off + length bs < length mem \<Longrightarrow> (put_bytes mem off bs)[off + length bs := v] = put_bytes mem off (bs @ [v])"
  by (rule nth_equalityI) (auto simp: nth_put_bytes nth_list_update nth_append less_Suc_eq)

lemma put_bytes_append:
  "off + length xs + length ys \<le> length mem \<Longrightarrow> put_bytes (put_bytes mem off xs) (off + length xs) ys = put_bytes mem off (xs @ ys)"
  by (rule nth_equalityI) (auto simp: nth_put_bytes nth_append)

lemma slice_put_bytes_apart:
  assumes "apart p off n" "length bs \<le> n" "off + length bs \<le> length mem" "p + n \<le> length mem"
  shows "slice p n (put_bytes mem off bs) = slice p n mem"
  by (rule nth_equalityI) (use assms in \<open>auto simp: slice_def nth_put_bytes apart_def\<close>)

lemma data_chunk:
  fixes B :: bytes
  assumes "length (gcm_stateX g) = 16" "n \<le> 16" "dst + j + n \<le> length mem" "src + j + n \<le> length mem"
    and "dst = src \<or> apart dst src len" "j + n \<le> len" "hsh = dst \<or> hsh = src"
  defines "D \<equiv> map (\<lambda>i. mem ! (src + (j + i))) [0..<n]"
    and "out \<equiv> map (\<lambda>i. mem ! (src + (j + i)) XOR B ! i) [0..<n]"
  shows "for_loop 0 n (\<lambda>i. data_byte dst src hsh B (j + i) i) (g, mem) =
    (((count_C ^^ n) g)\<lparr>gcm_stateX := mixed (if hsh = dst then out else D) (gcm_stateX g)\<rparr>, put_bytes mem (dst + j) out)"
  using assms(2-4,6) unfolding D_def out_def
proof (induction n)
  case 0
  then show ?case using assms(1) by (simp add: mixed_Nil put_bytes_def)
next
  case (Suc n)
  let ?out = "\<lambda>n. map (\<lambda>i. mem ! (src + (j + i)) XOR B ! i) [0..<n]" and ?D = "\<lambda>n. map (\<lambda>i. mem ! (src + (j + i))) [0..<n]"
  define m where "m = put_bytes mem (dst + j) (?out n)"
  have old: "m ! (src + (j + n)) = mem ! (src + (j + n))"
    using Suc.prems assms(5) by (auto simp: m_def nth_put_bytes apart_def)
  have m': "m[dst + (j + n) := mem ! (src + (j + n)) XOR B ! n] = put_bytes mem (dst + j) (?out (Suc n))"
    using put_bytes_snoc [of "dst + j" "?out n" mem "mem ! (src + (j + n)) XOR B ! n"] Suc.prems
    by (simp add: m_def add.assoc)
  have "put_bytes mem (dst + j) (?out (Suc n)) ! (hsh + (j + n)) = (if hsh = dst then ?out (Suc n) else ?D (Suc n)) ! n"
    using Suc.prems assms(5,7) by (auto simp: nth_put_bytes apart_def simp del: upt_Suc map_append)
  moreover have "m ! (hsh + (j + n)) = mem ! (src + (j + n))" if "hsh \<noteq> dst" using that assms(7) old by auto
  ultimately show ?case
    using Suc mixed_snoc [of "if hsh = dst then ?out n else ?D n" "gcm_stateX g" "(if hsh = dst then ?out (Suc n) else ?D (Suc n)) ! n"]
    by (cases "hsh = dst")
       (simp_all add: for_loop_Suc data_byte_def Let_def old m' absorb_byte_def cntC.update cntC.pow_fields nth_append flip: m_def)
qed

lemma next_counter_eq:
  assumes "aes_f (gcm_a g) = pre @ gcm_unpack ctr" "length pre = 12"
  shows "next_counter g = (MCL_AES_ecb_encrypt (gcm_a g) (pre @ gcm_unpack (ctr + 1)),
    g\<lparr>gcm_a := gcm_a g\<lparr>aes_f := pre @ gcm_unpack (ctr + 1)\<rparr>\<rparr>)"
proof -
  have "gcm_pack (gcm_unpack w) = w" for w
    using word4_bytes [of w] by (simp add: gcm_pack_def gcm_unpack_def word4_def aes_pack_def or.commute or.left_commute or.assoc)
  moreover have "map (\<lambda>i. (pre @ gcm_unpack w) ! i) [0..<16] = pre @ gcm_unpack w" for w
    using map_nth [of "pre @ gcm_unpack w"] assms(2) by simp
  ultimately show ?thesis
    using assms by (simp add: next_counter_def Let_def put_bytes_def)
qed

definition cipher_of :: "mcl_gcm \<Rightarrow> bytes \<Rightarrow> bytes" where
  "cipher_of g = MCL_AES_ecb_encrypt (gcm_a g)"

lemma length_gctr: "(\<And>b. length b = 16 \<Longrightarrow> length (E b) = 16) \<Longrightarrow> length pre = 12 \<Longrightarrow> length (gctr E pre ctr data) = length data"
proof (induction E pre ctr data rule: gctr.induct)
  case (1 E pre ctr data)
  then show ?case by (subst gctr.simps) auto
qed

lemma count_C_gcm_a: "(count_C ^^ n) (g\<lparr>gcm_a := a\<rparr>) = ((count_C ^^ n) g)\<lparr>gcm_a := a\<rparr>"
  by (induction n) (simp_all add: count_C_def)

lemma gcm_a_count_C [simp]: "gcm_a ((count_C ^^ n) g) = gcm_a g"
  by (induction n) (simp_all add: count_C_def)

lemma ghash_append:
  "A \<noteq> [] \<Longrightarrow> length A = 16 \<or> length A < 16 \<and> A' = [] \<Longrightarrow>
     ghash H x (A @ A') = ghash H (gf128_mult (x XOR block_poly (pad16 A)) H) A'"
  by (subst ghash.simps) auto

lemma blocks_step: "0 < m \<Longrightarrow> blocks m = Suc (blocks (m - min 16 m))"
  by (cases "m \<le> 16") (auto simp: blocks_def min_def le_div_geq)

lemma cipher_of_cong: "aes_fkey (gcm_a g') = aes_fkey (gcm_a g) \<Longrightarrow> aes_Nr (gcm_a g') = aes_Nr (gcm_a g) \<Longrightarrow> cipher_of g' = cipher_of g"
  by (simp add: cipher_of_def fun_eq_iff MCL_AES_ecb_encrypt_def)

text \<open>One round of the loop.\<close>

lemma data_round:
  assumes "table_for H (gcm_table g)" "length (gcm_stateX g) = 16"
    and "aes_f (gcm_a g) = pre @ gcm_unpack ctr" "length pre = 12" "0 < aes_Nr (gcm_a g)"
    and "dst = src \<or> apart dst src len" "dst + len \<le> length mem" "src + len \<le> length mem" "hsh = dst \<or> hsh = src" "j < len"
  defines "n \<equiv> min 16 (len - j)" and "D \<equiv> take 16 (slice (src + j) (len - j) mem)"
  defines "out \<equiv> map2 (XOR) D (cipher_of g (pre @ gcm_unpack (ctr + 1)))"
  shows "data_loop (data_byte dst src hsh) len j (g, mem) =
    data_loop (data_byte dst src hsh) len (j + n)
      (((count_C ^^ n) g)\<lparr>gcm_a := gcm_a g\<lparr>aes_f := pre @ gcm_unpack (ctr + 1)\<rparr>,
         gcm_stateX := poly_block (gf128_mult (block_poly (gcm_stateX g) XOR block_poly (pad16 (if hsh = dst then out else D))) H)\<rparr>,
       put_bytes mem (dst + j) out)"
    and "length out = n" "length D = n"
proof -
  define B where "B = cipher_of g (pre @ gcm_unpack (ctr + 1))"
  have lenB: "length B = 16" using assms(4,5) by (simp add: B_def cipher_of_def length_ecb_encrypt)
  show len: "length D = n" using assms(8,10) by (simp add: D_def n_def slice_def)
  then show "length out = n" using lenB by (simp add: out_def n_def flip: B_def)
  have D: "map (\<lambda>i. mem ! (src + (j + i))) [0..<n] = D"
    using assms(8,10) by (intro nth_equalityI) (auto simp: D_def n_def slice_def ac_simps)
  have out: "map (\<lambda>i. mem ! (src + (j + i)) XOR B ! i) [0..<n] = out"
    using len lenB by (intro nth_equalityI) (auto simp: out_def n_def simp flip: B_def D)
  define g1 where "g1 = g\<lparr>gcm_a := gcm_a g\<lparr>aes_f := pre @ gcm_unpack (ctr + 1)\<rparr>\<rparr>"
  have ctr: "next_counter g = (B, g1)"
    using next_counter_eq [OF assms(3,4)] by (simp add: B_def cipher_of_def g1_def)
  define g2 where "g2 = ((count_C ^^ n) g1)\<lparr>gcm_stateX := mixed (if hsh = dst then out else D) (gcm_stateX g)\<rparr>"
  have chunk: "for_loop 0 n (\<lambda>i. data_byte dst src hsh B (j + i) i) (g1, mem) = (g2, put_bytes mem (dst + j) out)"
    using data_chunk [of g1 n dst j mem src len hsh B] assms(2,6-10) D out
    by (simp add: g1_def g2_def n_def)
  have "length (if hsh = dst then out else D) \<le> 16" using len \<open>length out = n\<close> by (simp add: n_def)
  then have "gf2mul g2 = g2\<lparr>gcm_stateX := poly_block (gf128_mult (block_poly (gcm_stateX g) XOR block_poly (pad16 (if hsh = dst then out else D))) H)\<rparr>"
    using gf2mul_eq [of H g2] assms(1) by (simp add: g2_def g1_def cntC.pow_fields block_poly_mixed)
  then show "data_loop (data_byte dst src hsh) len j (g, mem) =
    data_loop (data_byte dst src hsh) len (j + n)
      (((count_C ^^ n) g)\<lparr>gcm_a := gcm_a g\<lparr>aes_f := pre @ gcm_unpack (ctr + 1)\<rparr>,
         gcm_stateX := poly_block (gf128_mult (block_poly (gcm_stateX g) XOR block_poly (pad16 (if hsh = dst then out else D))) H)\<rparr>,
       put_bytes mem (dst + j) out)"
    using assms(10) ctr chunk
    by (subst data_loop.simps) (simp add: Let_def g2_def g1_def count_C_gcm_a flip: n_def)
qed

lemma data_loop_eq:
  assumes "table_for H (gcm_table g)" "length (gcm_stateX g) = 16"
    and "aes_f (gcm_a g) = pre @ gcm_unpack ctr" "length pre = 12" "0 < aes_Nr (gcm_a g)"
    and "dst = src \<or> apart dst src len" "dst + len \<le> length mem" "src + len \<le> length mem" "hsh = dst \<or> hsh = src" "j \<le> len"
  shows "data_loop (data_byte dst src hsh) len j (g, mem) =
    (((count_C ^^ (len - j)) g)
       \<lparr>gcm_a := gcm_a g\<lparr>aes_f := pre @ gcm_unpack (ctr + of_nat (blocks (len - j)))\<rparr>,
        gcm_stateX := poly_block (ghash H (block_poly (gcm_stateX g))
          (if hsh = dst then gctr (cipher_of g) pre ctr (slice (src + j) (len - j) mem) else slice (src + j) (len - j) mem))\<rparr>,
     put_bytes mem (dst + j) (gctr (cipher_of g) pre ctr (slice (src + j) (len - j) mem)))"
  using assms
proof (induction "len - j" arbitrary: j g ctr mem rule: less_induct)
  case less
  show ?case
  proof (cases "j < len")
    case False
    then have "j = len" using less.prems(10) by simp
    then show ?thesis
      using less.prems by (simp add: data_loop.simps [of _ _ _ g] poly_block_block_poly slice_def gctr.simps blocks_def put_bytes_def)
  next
    case True
    define n where "n = min 16 (len - j)"
    define S where "S = slice (src + j) (len - j) mem"
    define D where "D = take 16 S"
    define out where "out = map2 (XOR) D (cipher_of g (pre @ gcm_unpack (ctr + 1)))"
    define mem1 where "mem1 = put_bytes mem (dst + j) out"
    define x1 where "x1 = gf128_mult (block_poly (gcm_stateX g) XOR block_poly (pad16 (if hsh = dst then out else D))) H"
    define g1 where "g1 = ((count_C ^^ n) g)\<lparr>gcm_a := gcm_a g\<lparr>aes_f := pre @ gcm_unpack (ctr + 1)\<rparr>, gcm_stateX := poly_block x1\<rparr>"
    note round = data_round [OF less.prems(1-9) True, folded n_def S_def, folded D_def, folded out_def, folded mem1_def x1_def, folded g1_def]
    have n: "0 < n" "j + n \<le> len" "len - (j + n) < len - j" using True by (auto simp: n_def)
    have lenS: "length S = len - j" using less.prems(8,10) by (simp add: S_def)
    have lenD: "length D = n" "length out = n" by (rule round)+
    have drop: "drop 16 S = drop n S" using lenS by (simp add: n_def min_def)
    have rest: "slice (src + (j + n)) (len - (j + n)) mem1 = drop 16 S"
      unfolding drop
      by (rule nth_equalityI)
         (use less.prems n lenS lenD in \<open>auto simp: S_def mem1_def slice_def nth_put_bytes apart_def ac_simps\<close>)
    define R where "R = gctr (cipher_of g) pre (ctr + 1) (drop 16 S)"
    have gctr: "gctr (cipher_of g) pre ctr S = out @ R"
      using lenS True by (subst gctr.simps) (auto simp: out_def D_def R_def)
    have "cipher_of g1 = cipher_of g" by (rule cipher_of_cong) (simp_all add: g1_def)
    then have "data_loop (data_byte dst src hsh) len (j + n) (g1, mem1) =
      (((count_C ^^ (len - (j + n))) g1)
         \<lparr>gcm_a := gcm_a g\<lparr>aes_f := pre @ gcm_unpack (ctr + 1 + of_nat (blocks (len - (j + n))))\<rparr>,
          gcm_stateX := poly_block (ghash H x1 (if hsh = dst then R else drop 16 S))\<rparr>,
       put_bytes mem1 (dst + (j + n)) R)"
      using less.hyps [of "j + n" g1 "ctr + 1" mem1] n less.prems rest round(2)
      by (simp add: g1_def mem1_def R_def cntC.pow_fields block_poly_poly_block)
    moreover have "put_bytes mem1 (dst + (j + n)) R = put_bytes mem (dst + j) (out @ R)"
    proof -
      have "length (cipher_of g b) = 16" if "length b = 16" for b
        using that less.prems(5) by (simp add: cipher_of_def length_ecb_encrypt)
      then have "length R = len - (j + n)"
        using less.prems(4) lenS by (simp add: R_def length_gctr drop)
      then show ?thesis
        using put_bytes_append [of "dst + j" out R mem] lenD n less.prems(7) by (simp add: mem1_def add.assoc)
    qed
    moreover have "ghash H (block_poly (gcm_stateX g)) (if hsh = dst then out @ R else S) = ghash H x1 (if hsh = dst then R else drop 16 S)"
    proof -
      have fits: "n = 16 \<or> n < 16 \<and> drop 16 S = []" using lenS by (auto simp: n_def min_def)
      have "R = []" if "drop 16 S = []" unfolding R_def that by (simp add: gctr.simps)
      moreover have "out \<noteq> []" "D \<noteq> []" using lenD n(1) by auto
      moreover have "S = D @ drop 16 S" by (simp add: D_def)
      ultimately show ?thesis
        using ghash_append [of out R H "block_poly (gcm_stateX g)"] ghash_append [of D "drop 16 S" H "block_poly (gcm_stateX g)"] fits lenD
        by (auto simp: x1_def)
    qed
    moreover have "blocks (len - j) = Suc (blocks (len - (j + n)))"
      using blocks_step [of "len - j"] True by (simp add: n_def)
    moreover have "(count_C ^^ (len - (j + n))) ((count_C ^^ n) g) = (count_C ^^ (len - j)) g"
      using n(2) funpow_add [of "len - (j + n)" n count_C] by simp
    ultimately show ?thesis
      unfolding S_def [symmetric] gctr using round(1)
      by (simp add: g1_def cntC.pow_fields count_C_gcm_a add.assoc split del: if_split)
  qed
qed

section \<open>The reference mode\<close>

definition be64 :: "u64 \<Rightarrow> bytes" where
  "be64 w = map (\<lambda>k. ucast (drop_bit (8 * (7 - k)) w)) [0..<8]"

definition len_block :: "nat \<Rightarrow> nat \<Rightarrow> bytes" where
  "len_block a c = be64 (of_nat (8 * a)) @ be64 (of_nat (8 * c))"

definition gcm_J0 :: "poly \<Rightarrow> bytes \<Rightarrow> bytes" where
  "gcm_J0 H iv =
     (if length iv = 12 then iv @ [0, 0, 0, 1]
      else poly_block (gf128_mult (ghash H 0 iv XOR block_poly (len_block 0 (length iv))) H))"

definition gcm_tag :: "(bytes \<Rightarrow> bytes) \<Rightarrow> poly \<Rightarrow> bytes \<Rightarrow> bytes \<Rightarrow> bytes \<Rightarrow> bytes" where
  "gcm_tag E H J0 A C =
     map2 (XOR) (E J0)
       (poly_block (gf128_mult (ghash H (ghash H 0 A) C XOR block_poly (len_block (length A) (length C))) H))"

text \<open>Authenticated encryption of SP 800-38D: the ciphertext and the tag.\<close>

definition gcm_ae :: "(bytes \<Rightarrow> bytes) \<Rightarrow> bytes \<Rightarrow> bytes \<Rightarrow> bytes \<Rightarrow> bytes \<times> bytes" where
  "gcm_ae E iv A P =
     (let H = block_poly (E (replicate 16 0));
          J0 = gcm_J0 H iv;
          C = gctr E (take 12 J0) (gcm_pack (drop 12 J0)) P
      in (C, gcm_tag E H J0 A C))"

lemma length_be64 [simp]: "length (be64 w) = 8"
  by (simp add: be64_def)

section \<open>Lengths\<close>

definition len64 :: "u32 \<times> u32 \<Rightarrow> u64" where
  "len64 l = of_nat (unat (fst l) * 2 ^ 32 + unat (snd l))"

lemma unat_add_one: "w + 1 \<noteq> 0 \<Longrightarrow> unat (w + 1) = unat w + 1"
  using unatSuc [of w] by (simp add: add.commute)

lemma add_one_wraps: "w + 1 = 0 \<Longrightarrow> unat (w :: u32) = 2 ^ 32 - 1"
  by (simp add: eq_neg_iff_add_eq_0 [symmetric] unsigned_minus_1_eq_mask mask_eq_exp_minus_1)

lemma len64_incr: "len64 (incr_len l) = len64 l + 1"
proof -
  obtain hi lo where l: "l = (hi, lo)" by fastforce
  show ?thesis
  proof (cases "lo + 1 = 0")
    case False
    then show ?thesis by (simp add: l incr_len_def len64_def Let_def unat_add_one)
  next
    case True
    have "of_nat (unat (hi + 1) * 2 ^ 32) = (of_nat (unat hi * 2 ^ 32 + 2 ^ 32) :: u64)"
    proof (cases "hi + 1 = 0")
      case True
      have z: "of_nat (2 ^ 64) = (0 :: u64)" using word_exp_length_eq_0 [where ?'a = 64] by (simp only: of_nat_power of_nat_numeral len_bit0) simp
      have sum: "(2 ^ 32 - 1) * 2 ^ 32 + 2 ^ 32 = (2 :: nat) ^ 64" by simp
      show ?thesis unfolding True unsigned_0 mult_zero_left semiring_1_class.of_nat_0 add_one_wraps [OF True] sum z by (rule refl)
    next
      case False
      from unat_add_one [OF this] have "unat (hi + 1) * 2 ^ 32 = unat hi * 2 ^ 32 + 2 ^ 32" by simp
      then show ?thesis by (rule arg_cong)
    qed
    then show ?thesis using True by (simp add: l incr_len_def len64_def Let_def add_one_wraps)
  qed
qed

lemma len64_zero [simp]: "len64 (0, 0) = 0"
  by (simp add: len64_def)

lemma len64_pow: "len64 ((incr_len ^^ n) l) = len64 l + of_nat n"
  by (induction n) (simp_all add: len64_incr)

lemma count_lens:
  "gcm_lenC ((count_C ^^ n) g) = (incr_len ^^ n) (gcm_lenC g)" "gcm_lenA ((count_C ^^ n) g) = gcm_lenA g"
  "gcm_lenA ((count_A ^^ n) g) = (incr_len ^^ n) (gcm_lenA g)" "gcm_lenC ((count_A ^^ n) g) = gcm_lenC g"
  by (induction n) (simp_all add: count_C_def count_A_def)

lemma bit_len64: "bit (len64 (hi, lo)) n \<longleftrightarrow> (if n < 32 then bit lo n else n < 64 \<and> bit hi (n - 32))"
proof -
  have "len64 (hi, lo) = push_bit 32 (ucast hi) + ucast lo"
    by (simp add: len64_def push_bit_eq_mult)
  also have "\<dots> = push_bit 32 (ucast hi) OR ucast lo"
    by (rule disjunctive_add) (auto simp: bit_simps dest: bit_imp_le_length)
  finally show ?thesis by (auto simp: bit_simps dest: bit_imp_le_length)
qed

lemma bit_high_word:
  assumes "m < 32"
  shows "bit (push_bit 3 hi OR drop_bit 29 (lo AND 0xE0000000) :: u32) m \<longleftrightarrow> (if m < 3 then bit lo (29 + m) else bit hi (m - 3))"
proof -
  have "(7 :: u32) = mask 3" by (simp add: mask_eq_exp_minus_1)
  then have "drop_bit 29 (lo AND 0xE0000000) = drop_bit 29 lo AND mask 3" by (simp add: drop_bit_and)
  then show ?thesis
    using assms bit_imp_le_length [of lo "29 + m"]
    by (auto simp: bit_or_iff bit_push_bit_iff bit_drop_bit_eq bit_and_iff bit_mask_iff add.commute)
qed

lemma len_bytes:
  "gcm_unpack (push_bit 3 hi OR drop_bit 29 (lo AND 0xE0000000)) @ gcm_unpack (push_bit 3 lo) = be64 (push_bit 3 (len64 (hi, lo)))"
proof -
  define W where "W = push_bit 3 hi OR drop_bit 29 (lo AND 0xE0000000)"
  have W: "bit W m \<longleftrightarrow> (if m < 3 then bit lo (29 + m) else bit hi (m - 3))" if "m < 32" for m
    unfolding W_def using that by (rule bit_high_word)
  have "(gcm_unpack W @ gcm_unpack (push_bit 3 lo)) ! k = be64 (push_bit 3 (len64 (hi, lo))) ! k" if k: "k < 8" for k
  proof (rule bit_word_eqI)
    fix b assume "b < LENGTH(8)"
    then have b: "b < 8" by simp
    have rhs: "bit (be64 (push_bit 3 (len64 (hi, lo))) ! k) b \<longleftrightarrow> 3 \<le> 8 * (7 - k) + b \<and> bit (len64 (hi, lo)) (8 * (7 - k) + b - 3)"
      using b k by (auto simp: be64_def bit_ucast_iff bit_drop_bit_eq bit_push_bit_iff possible_bit_word)
    show "bit ((gcm_unpack W @ gcm_unpack (push_bit 3 lo)) ! k) b \<longleftrightarrow> bit (be64 (push_bit 3 (len64 (hi, lo))) ! k) b"
    proof (cases "k < 4")
      case True
      define m where "m = 8 * (3 - k) + b"
      have m: "m < 32" "8 * (7 - k) + b = m + 32" using True b by (auto simp: m_def)
      have "bit ((gcm_unpack W @ gcm_unpack (push_bit 3 lo)) ! k) b \<longleftrightarrow> bit W m"
        using True b by (simp add: nth_append gcm_unpack_nth MR_TOBYTE_def bit_ucast_iff bit_drop_bit_eq m_def)
      then show ?thesis using m(1) by (auto simp: rhs m(2) W bit_len64)
    next
      case False
      define m where "m = 8 * (7 - k) + b"
      have m: "m < 32" "8 * (3 - (k - 4)) + b = m" using False k b by (auto simp: m_def)
      have "bit ((gcm_unpack W @ gcm_unpack (push_bit 3 lo)) ! k) b \<longleftrightarrow> bit (push_bit 3 lo) m"
        using False k b m(2) by (simp add: nth_append gcm_unpack_nth MR_TOBYTE_def bit_ucast_iff bit_drop_bit_eq)
      then show ?thesis using m(1) by (auto simp: rhs m_def [symmetric] bit_len64 bit_push_bit_iff)
    qed
  qed
  then show ?thesis unfolding W_def by (intro nth_equalityI) auto
qed

lemma wrap_lens:
  fixes a c :: "u32 \<times> u32"
  assumes "len64 a = of_nat n" "len64 c = of_nat m"
  shows "(let (a0, a1) = a; (c0, c1) = c
          in concat (map gcm_unpack [push_bit 3 a0 OR drop_bit 29 (a1 AND 0xE0000000), push_bit 3 a1,
               push_bit 3 c0 OR drop_bit 29 (c1 AND 0xE0000000), push_bit 3 c1])) = len_block n m"
proof -
  obtain a0 a1 c0 c1 where ac: "a = (a0, a1)" "c = (c0, c1)" by (metis surj_pair)
  have bits: "push_bit 3 (of_nat n :: u64) = of_nat (8 * n)" for n by (simp add: push_bit_eq_mult)
  have "concat (map gcm_unpack [w, x, y, z]) = (gcm_unpack w @ gcm_unpack x) @ (gcm_unpack y @ gcm_unpack z)" for w x y z
    by simp
  then show ?thesis
    using assms by (simp only: ac Let_def prod.case len_bytes len_block_def bits)
qed

lemma block_poly_zero: "block_poly (replicate 16 0) = 0"
  by (rule poly_eqI) (simp add: bit_polys less_mult_imp_div_less)

lemma MCL_GCM_wrap_eq:
  assumes "table_for H (gcm_table g)" "length (gcm_stateX g) = 16"
    and "len64 (gcm_lenA g) = of_nat n" "len64 (gcm_lenC g) = of_nat m"
  shows "MCL_GCM_wrap g = g\<lparr>gcm_stateX := poly_block (gf128_mult (block_poly (gcm_stateX g) XOR block_poly (len_block n m)) H)\<rparr>"
proof -
  have len: "length (len_block n m) = 16" by (simp add: len_block_def)
  have "for_loop 0 16 (\<lambda>i x. x[i := x ! i XOR len_block n m ! i]) (gcm_stateX g) = xor_into 16 (len_block n m) (gcm_stateX g)"
    by (simp add: xor_into_def)
  also have "\<dots> = mixed (len_block n m) (gcm_stateX g)"
    by (rule nth_equalityI) (simp_all add: assms(2) nth_xor_into mixed_def len)
  finally have x: "for_loop 0 16 (\<lambda>i x. x[i := x ! i XOR len_block n m ! i]) (gcm_stateX g) = mixed (len_block n m) (gcm_stateX g)" .
  define L where "L = (let (a0, a1) = gcm_lenA g; (c0, c1) = gcm_lenC g
      in concat (map gcm_unpack [push_bit 3 a0 OR drop_bit 29 (a1 AND 0xE0000000), push_bit 3 a1,
               push_bit 3 c0 OR drop_bit 29 (c1 AND 0xE0000000), push_bit 3 c1]))"
  have L: "L = len_block n m" unfolding L_def using assms(3,4) by (rule wrap_lens)
  have "MCL_GCM_wrap g = gf2mul (g\<lparr>gcm_stateX := for_loop 0 16 (\<lambda>i x. x[i := x ! i XOR L ! i]) (gcm_stateX g)\<rparr>)"
    unfolding MCL_GCM_wrap_def L_def Let_def by (simp only: case_prod_unfold)
  also have "\<dots> = gf2mul (g\<lparr>gcm_stateX := mixed (len_block n m) (gcm_stateX g)\<rparr>)" by (simp only: L x)
  also have "\<dots> = g\<lparr>gcm_stateX := poly_block (gf128_mult (block_poly (gcm_stateX g) XOR block_poly (len_block n m)) H)\<rparr>"
    using gf2mul_eq [of H "g\<lparr>gcm_stateX := mixed (len_block n m) (gcm_stateX g)\<rparr>"] assms(1)
      block_poly_mixed [of "len_block n m" "gcm_stateX g"] len by (simp add: pad16_def)
  finally show ?thesis .
qed

section \<open>A prepared context\<close>

definition gcm_wf :: "mcl_gcm \<Rightarrow> bool" where
  "gcm_wf g \<longleftrightarrow> table_shape (gcm_table g) \<and> length (gcm_stateX g) = 16 \<and> length (gcm_Y_0 g) = 16 \<and> aes_wf (gcm_a g)"

text \<open>
  What the operations keep between \<open>MCL_GCM_init\<close> and \<open>MCL_GCM_finish\<close>: the table belongs to the hash key, the
  hash state and the lengths to \<open>n\<close> bytes of header and \<open>m\<close> of data, and the vector holds the counter \<open>ctr\<close>.
\<close>

definition gcm_inv :: "poly \<Rightarrow> bytes \<Rightarrow> poly \<Rightarrow> nat \<Rightarrow> nat \<Rightarrow> u32 \<Rightarrow> mcl_gcm \<Rightarrow> bool" where
  "gcm_inv H J0 x n m ctr g \<longleftrightarrow>
     table_for H (gcm_table g) \<and> gcm_stateX g = poly_block x \<and> gcm_Y_0 g = J0 \<and> length J0 = 16 \<and>
     len64 (gcm_lenA g) = of_nat n \<and> len64 (gcm_lenC g) = of_nat m \<and>
     aes_ready (gcm_a g) \<and> aes_f (gcm_a g) = take 12 J0 @ gcm_unpack ctr"

lemma pack_unpack: "length b = 4 \<Longrightarrow> gcm_unpack (gcm_pack b) = b"
proof -
  assume "length b = 4"
  then obtain w x y z where "b = [w, x, y, z]" by (rule length4E)
  moreover have "gcm_pack [w, x, y, z] = word4 z y x w"
    by (simp add: gcm_pack_def word4_def aes_pack_def)
  ultimately show ?thesis by (simp add: gcm_unpack_def bytes_word4)
qed

lemma zero_loop: "length x = 16 \<Longrightarrow> for_loop 0 16 (\<lambda>i x. x[i := 0]) x = replicate 16 0"
  by (rule nth_equalityI) (simp_all add: nth_for_loop_update [of "\<lambda>i. i"])

lemma aes_ready_f: "aes_ready a \<Longrightarrow> length f = 16 \<Longrightarrow> aes_ready (a\<lparr>aes_f := f\<rparr>)"
  by (simp add: aes_ready_def aes_wf_def)

lemma init_vector_12:
  assumes "length f = 16" "length iv = 12"
  shows "put_bytes (for_loop 0 12 (\<lambda>i f. f[i := iv ! i]) f) 12 (gcm_unpack 1) = iv @ gcm_unpack 1"
proof -
  have "take 12 (for_loop 0 12 (\<lambda>i f. f[i := iv ! i]) f) = iv"
    by (rule nth_equalityI) (use assms in \<open>auto simp: nth_for_loop_update [of "\<lambda>i. i"]\<close>)
  then show ?thesis using assms(1) by (simp add: put_bytes_def)
qed

lemma init_vector_hash:
  assumes "length f = 16" "length y = 16" "length x = 16"
  shows "for_loop 0 16 (\<lambda>i (f, y, x). (f[i := x ! i], y[i := x ! i], x[i := 0])) (f, y, x) = (x, x, replicate 16 0)"
proof -
  have "for_loop 0 n (\<lambda>i (f, y, x). (f[i := x ! i], y[i := x ! i], x[i := 0])) (f, y, x) =
      (for_loop 0 n (\<lambda>i f. f[i := x ! i]) f, for_loop 0 n (\<lambda>i f. f[i := x ! i]) y, for_loop 0 n (\<lambda>i x. x[i := 0]) x)" for n
  proof (induction n)
    case (Suc n)
    have "for_loop 0 n (\<lambda>i x. x[i := 0]) x ! n = x ! n" by (rule nth_for_loop_update_other) auto
    then show ?case using Suc by (simp add: for_loop_Suc)
  qed simp
  then show ?thesis using assms copy_block [of f x] copy_block [of y x] by (simp add: zero_loop)
qed

text \<open>The cipher that a prepared context computes.\<close>

definition key_cipher :: "int \<Rightarrow> bytes \<Rightarrow> bytes \<Rightarrow> bytes" where
  "key_cipher nk key = fips_cipher (nat (nk sdiv 4)) key"

definition key_ok :: "int \<Rightarrow> bytes \<Rightarrow> bool" where
  "key_ok nk key \<longleftrightarrow> nk sdiv 4 \<in> {4, 6, 8} \<and> nat (4 * (nk sdiv 4)) \<le> length key"

lemma length_gcm_J0 [simp]: "length (gcm_J0 H iv) = 16"
  by (simp add: gcm_J0_def)

text \<open>The first half of \<open>MCL_GCM_init\<close>, and the vector it makes of an initialisation vector of another length.\<close>

lemma gcm_inv_fresh:
  assumes "table_for H t" "aes_ready a" "length J0 = 16" "table = t" "lenA = (0, 0)" "lenC = (0, 0)"
  shows "gcm_inv H J0 0 0 0 (gcm_pack (drop 12 J0))
    \<lparr>gcm_table = table, gcm_stateX = replicate 16 0, gcm_Y_0 = J0, gcm_lenA = lenA, gcm_lenC = lenC, gcm_status = st, gcm_a = a\<lparr>aes_f := J0\<rparr>\<rparr>"
proof -
  have "poly_block 0 = replicate 16 0"
    using poly_block_block_poly [of "replicate 16 0"] block_poly_zero by simp
  moreover have "take 12 J0 @ gcm_unpack (gcm_pack (drop 12 J0)) = J0"
    using assms(3) by (simp add: pack_unpack)
  ultimately show ?thesis
    using assms by (simp add: gcm_inv_def aes_ready_f)
qed

lemma init_other_vector:
  assumes "table_for H (gcm_table z)" "gcm_stateX z = replicate 16 0" "gcm_lenA z = (0, 0)" "gcm_lenC z = (0, 0)"
    and "gcm_status z = MCL_GCM_ACCEPTING_CIPHER" "length iv \<noteq> 12"
  defines "w \<equiv> MCL_GCM_wrap (snd (MCL_GCM_ghash z iv (length iv)))"
  shows "gcm_stateX w = gcm_J0 H iv" "gcm_table w = gcm_table z" "gcm_a w = gcm_a z" "gcm_Y_0 w = gcm_Y_0 z"
proof -
  define n where "n = length iv"
  have x: "length (gcm_stateX z) = 16" "block_poly (gcm_stateX z) = 0" using assms(2) block_poly_zero by simp_all
  define u where "u = ((count_C ^^ n) z)\<lparr>gcm_stateX := poly_block (ghash H 0 iv)\<rparr>"
  have "absorb_loop count_C iv n 0 z = u"
    using cntC.absorb_loop_eq [OF assms(1) x(1), of n iv 0] x(2) by (simp add: u_def n_def)
  then have gh: "snd (MCL_GCM_ghash z iv n) = (if n mod 16 \<noteq> 0 then u\<lparr>gcm_status := MCL_GCM_NOT_ACCEPTING_MORE\<rparr> else u)"
    using assms(5) by (simp add: MCL_GCM_ghash_def)
  have Y: "gcm_Y_0 ((count_C ^^ n) z) = gcm_Y_0 z" by (induction n) (simp_all add: count_C_def)
  define u' where "u' = snd (MCL_GCM_ghash z iv n)"
  have u': "table_for H (gcm_table u')" "gcm_stateX u' = poly_block (ghash H 0 iv)" "len64 (gcm_lenA u') = of_nat 0"
    "len64 (gcm_lenC u') = of_nat n" "gcm_table u' = gcm_table z" "gcm_a u' = gcm_a z" "gcm_Y_0 u' = gcm_Y_0 z"
    using assms(1,3,4) by (simp_all add: u'_def gh u_def cntC.pow_fields count_lens len64_pow Y)
  have "w = u'\<lparr>gcm_stateX := gcm_J0 H iv\<rparr>"
    using MCL_GCM_wrap_eq [OF u'(1) _ u'(3,4)] u'(2) assms(6)
    by (simp add: w_def u'_def n_def gcm_J0_def block_poly_poly_block)
  then show "gcm_stateX w = gcm_J0 H iv" "gcm_table w = gcm_table z" "gcm_a w = gcm_a z" "gcm_Y_0 w = gcm_Y_0 z"
    using u' by simp_all
qed

lemma MCL_GCM_init_eq:
  fixes iv :: bytes
  assumes "gcm_wf g" "aes_ready a" "a = snd (MCL_AES_init (gcm_a g) ECB nk key (Some iv))"
  defines "H \<equiv> block_poly (MCL_AES_ecb_encrypt a (replicate 16 0))"
  obtains t lA lC where "table_for H t" "lA = (0, 0)" "lC = (0, 0)"
    "MCL_GCM_init g nk key (length iv) iv = \<lparr>gcm_table = t, gcm_stateX = replicate 16 0, gcm_Y_0 = gcm_J0 H iv,
       gcm_lenA = lA, gcm_lenC = lC, gcm_status = MCL_GCM_ACCEPTING_HEADER, gcm_a = a\<lparr>aes_f := gcm_J0 H iv\<rparr>\<rparr>"
proof -
  have wf: "table_shape (gcm_table g)" "length (gcm_stateX g) = 16" "length (gcm_Y_0 g) = 16"
    using assms(1) by (simp_all add: gcm_wf_def)
  have a: "length (aes_f a) = 16" "length (MCL_AES_ecb_encrypt a (replicate 16 0)) = 16"
    using assms(2) by (simp_all add: ready_rounds length_ecb_encrypt)
  define z where "z = g\<lparr>gcm_stateX := replicate 16 0, gcm_a := a\<rparr>"
  obtain t where t: "precompute z (MCL_AES_ecb_encrypt a (replicate 16 0)) = z\<lparr>gcm_table := t\<rparr>" "table_for H t"
    using precompute_table [of z "MCL_AES_ecb_encrypt a (replicate 16 0)"] wf(1) a(2) by (auto simp: z_def H_def)
  define z1 where "z1 = z\<lparr>gcm_table := t, gcm_lenA := (0, 0), gcm_lenC := (0, 0)\<rparr>"
  show ?thesis
  proof (cases "length iv = 12")
    case True
    have "gcm_unpack 1 = [0, 0, 0, 1]" by (simp add: gcm_unpack_def MR_TOBYTE_def)
    then have J0: "gcm_J0 H iv = iv @ gcm_unpack 1" using True by (simp add: gcm_J0_def)
    have "MCL_GCM_init g nk key (length iv) iv = z1\<lparr>gcm_a := a\<lparr>aes_f := gcm_J0 H iv\<rparr>,
        gcm_Y_0 := gcm_J0 H iv, gcm_status := MCL_GCM_ACCEPTING_HEADER\<rparr>"
      using True a wf(3) init_vector_12 [OF a(1) True] copy_block [of "gcm_Y_0 g" "iv @ gcm_unpack 1"]
      by (simp add: MCL_GCM_init_def Let_def zero_loop [OF wf(2)] assms(3) [symmetric] t(1) [unfolded z_def] J0 z1_def z_def)
    then show ?thesis using that [OF t(2)] by (simp add: z1_def z_def)
  next
    case False
    define w where "w = MCL_GCM_wrap (snd (MCL_GCM_ghash (z1\<lparr>gcm_status := MCL_GCM_ACCEPTING_CIPHER\<rparr>) iv (length iv)))"
    have w: "gcm_stateX w = gcm_J0 H iv" "gcm_table w = t" "gcm_a w = a" "gcm_Y_0 w = gcm_Y_0 g"
      using init_other_vector [of H "z1\<lparr>gcm_status := MCL_GCM_ACCEPTING_CIPHER\<rparr>" iv] t(2) False
      by (simp_all add: w_def z1_def z_def)
    have "MCL_GCM_init g nk key (length iv) iv = w\<lparr>gcm_a := a\<lparr>aes_f := gcm_J0 H iv\<rparr>, gcm_Y_0 := gcm_J0 H iv,
        gcm_stateX := replicate 16 0, gcm_lenA := (0, 0), gcm_lenC := (0, 0), gcm_status := MCL_GCM_ACCEPTING_HEADER\<rparr>"
      using False a wf(3) init_vector_hash [of "aes_f a" "gcm_Y_0 g" "gcm_J0 H iv"] w
      by (simp add: MCL_GCM_init_def Let_def zero_loop [OF wf(2)] assms(3) [symmetric] t(1) [unfolded z_def] w_def [unfolded z1_def z_def, simplified, symmetric])
    then show ?thesis using that [OF t(2)] w by simp
  qed
qed

section \<open>The operations on a prepared context\<close>

lemma gcm_invD:
  assumes "gcm_inv H J0 x n m ctr g"
  shows "table_for H (gcm_table g)" "length (gcm_stateX g) = 16" "block_poly (gcm_stateX g) = x"
    "aes_f (gcm_a g) = take 12 J0 @ gcm_unpack ctr" "length (take 12 J0) = 12" "0 < aes_Nr (gcm_a g)"
    "len64 (gcm_lenA g) = of_nat n" "len64 (gcm_lenC g) = of_nat m" "aes_ready (gcm_a g)" "gcm_Y_0 g = J0" "length J0 = 16"
  using assms by (auto simp: gcm_inv_def block_poly_poly_block ready_rounds)

lemma count_fields:
  "gcm_Y_0 ((count_C ^^ n) g) = gcm_Y_0 g" "gcm_status ((count_C ^^ n) g) = gcm_status g"
  "gcm_Y_0 ((count_A ^^ n) g) = gcm_Y_0 g" "gcm_status ((count_A ^^ n) g) = gcm_status g" "gcm_a ((count_A ^^ n) g) = gcm_a g"
  by (induction n) (simp_all add: count_C_def count_A_def)

lemma gcm_inv_status [simp]: "gcm_inv H J0 x n m ctr (g\<lparr>gcm_status := s\<rparr>) = gcm_inv H J0 x n m ctr g"
  by (simp add: gcm_inv_def)

lemma cipher_of_status [simp]: "cipher_of (g\<lparr>gcm_status := s\<rparr>) = cipher_of g"
  by (simp add: cipher_of_def)

lemma add_header_inv:
  assumes "gcm_inv H J0 x n m ctr g" "gcm_status g = MCL_GCM_ACCEPTING_HEADER"
  obtains g' where "MCL_GCM_add_header g A (length A) = (1, g')" "gcm_inv H J0 (ghash H x A) (n + length A) m ctr g'"
    "gcm_status g' = (if length A mod 16 \<noteq> 0 then MCL_GCM_ACCEPTING_CIPHER else MCL_GCM_ACCEPTING_HEADER)"
    "cipher_of g' = cipher_of g"
proof -
  note inv = gcm_invD [OF assms(1)]
  define u where "u = ((count_A ^^ length A) g)\<lparr>gcm_stateX := poly_block (ghash H x A)\<rparr>"
  have loop: "absorb_loop count_A A (length A) 0 g = u"
    using cntA.absorb_loop_eq [OF inv(1,2), of "length A" A 0] inv(3) by (simp add: u_def)
  have u: "gcm_inv H J0 (ghash H x A) (n + length A) m ctr u" "gcm_status u = MCL_GCM_ACCEPTING_HEADER" "cipher_of u = cipher_of g"
    using assms inv by (simp_all add: u_def gcm_inv_def cntA.pow_fields count_fields count_lens len64_pow cipher_of_def)
  show ?thesis
    using that [of "if length A mod 16 \<noteq> 0 then u\<lparr>gcm_status := MCL_GCM_ACCEPTING_CIPHER\<rparr> else u"] u assms(2) loop
    by (simp add: MCL_GCM_add_header_def Let_def)
qed

lemma data_loop_inv:
  assumes "gcm_inv H J0 x n m ctr g"
    and "dst = src \<or> apart dst src len" "dst + len \<le> length mem" "src + len \<le> length mem" "hsh = dst \<or> hsh = src"
  defines "D \<equiv> slice src len mem"
  defines "out \<equiv> gctr (cipher_of g) (take 12 J0) ctr D"
  obtains g' where "data_loop (data_byte dst src hsh) len 0 (g, mem) = (g', put_bytes mem dst out)"
    "gcm_inv H J0 (ghash H x (if hsh = dst then out else D)) n (m + len) (ctr + of_nat (blocks len)) g'"
    "gcm_status g' = gcm_status g" "cipher_of g' = cipher_of g"
proof -
  note inv = gcm_invD [OF assms(1)]
  let ?A = "if hsh = dst then out else D"
  define u where "u = ((count_C ^^ len) g)
       \<lparr>gcm_a := gcm_a g\<lparr>aes_f := take 12 J0 @ gcm_unpack (ctr + of_nat (blocks len))\<rparr>, gcm_stateX := poly_block (ghash H x ?A)\<rparr>"
  have "data_loop (data_byte dst src hsh) len 0 (g, mem) = (u, put_bytes mem dst out)"
    using data_loop_eq [OF inv(1,2,4-6) assms(2-5), of 0] inv(3) by (simp add: u_def out_def D_def)
  moreover have "gcm_inv H J0 (ghash H x ?A) n (m + len) (ctr + of_nat (blocks len)) u" "gcm_status u = gcm_status g" "cipher_of u = cipher_of g"
    using inv by (simp_all add: u_def gcm_inv_def cntC.pow_fields count_fields count_lens len64_pow aes_ready_f cipher_of_def fun_eq_iff)
  ultimately show ?thesis using that by blast
qed

lemma add_data_inv:
  assumes "gcm_inv H J0 x n m ctr g" "gcm_status g = MCL_GCM_ACCEPTING_HEADER \<or> gcm_status g = MCL_GCM_ACCEPTING_CIPHER"
    and "dst = src \<or> apart dst src len" "dst + len \<le> length mem" "src + len \<le> length mem"
  defines "D \<equiv> slice src len mem"
  defines "out \<equiv> gctr (cipher_of g) (take 12 J0) ctr D"
  shows "\<exists>g'. MCL_GCM_add_plain g mem dst src len = (1, g', put_bytes mem dst out) \<and>
      gcm_inv H J0 (ghash H x out) n (m + len) (ctr + of_nat (blocks len)) g' \<and> cipher_of g' = cipher_of g"
    and "\<exists>g'. MCL_GCM_add_cipher g mem dst src len = (1, g', put_bytes mem dst out) \<and>
      gcm_inv H J0 (ghash H x (if src = dst then out else D)) n (m + len) (ctr + of_nat (blocks len)) g' \<and> cipher_of g' = cipher_of g"
proof -
  define g1 where "g1 = (if gcm_status g = MCL_GCM_ACCEPTING_HEADER then g\<lparr>gcm_status := MCL_GCM_ACCEPTING_CIPHER\<rparr> else g)"
  have g1: "gcm_inv H J0 x n m ctr g1" "gcm_status g1 = MCL_GCM_ACCEPTING_CIPHER" "cipher_of g1 = cipher_of g"
    using assms(1,2) by (auto simp: g1_def)
  note loop = data_loop_inv [OF g1(1) assms(3-5), unfolded g1(3), folded D_def, folded out_def]
  let ?fin = "\<lambda>u. if len mod 16 \<noteq> 0 then u\<lparr>gcm_status := MCL_GCM_NOT_ACCEPTING_MORE\<rparr> else u"
  obtain u where u: "data_loop (data_byte dst src dst) len 0 (g1, mem) = (u, put_bytes mem dst out)"
    "gcm_inv H J0 (ghash H x out) n (m + len) (ctr + of_nat (blocks len)) u" "cipher_of u = cipher_of g"
    using loop [of dst] by auto
  have "MCL_GCM_add_plain g mem dst src len = (1, ?fin u, put_bytes mem dst out)"
    using u(1) g1(2) by (simp add: MCL_GCM_add_plain_def Let_def plain_byte_eq flip: g1_def)
  then show "\<exists>g'. MCL_GCM_add_plain g mem dst src len = (1, g', put_bytes mem dst out) \<and>
      gcm_inv H J0 (ghash H x out) n (m + len) (ctr + of_nat (blocks len)) g' \<and> cipher_of g' = cipher_of g"
    using u by auto
  obtain v where v: "data_loop (data_byte dst src src) len 0 (g1, mem) = (v, put_bytes mem dst out)"
    "gcm_inv H J0 (ghash H x (if src = dst then out else D)) n (m + len) (ctr + of_nat (blocks len)) v" "cipher_of v = cipher_of g"
    using loop [of src] by auto
  have "MCL_GCM_add_cipher g mem dst src len = (1, ?fin v, put_bytes mem dst out)"
    using v(1) g1(2) by (simp add: MCL_GCM_add_cipher_def Let_def cipher_byte_eq flip: g1_def)
  then show "\<exists>g'. MCL_GCM_add_cipher g mem dst src len = (1, g', put_bytes mem dst out) \<and>
      gcm_inv H J0 (ghash H x (if src = dst then out else D)) n (m + len) (ctr + of_nat (blocks len)) g' \<and> cipher_of g' = cipher_of g"
    using v by auto
qed

lemma finish_tag:
  assumes "gcm_inv H J0 x n m ctr g"
  shows "fst (MCL_GCM_finish g True) =
    Some (map2 (XOR) (cipher_of g J0) (poly_block (gf128_mult (x XOR block_poly (len_block n m)) H)))"
proof -
  note inv = gcm_invD [OF assms]
  let ?X = "poly_block (gf128_mult (x XOR block_poly (len_block n m)) H)"
  have wrap: "MCL_GCM_wrap g = g\<lparr>gcm_stateX := ?X\<rparr>" using MCL_GCM_wrap_eq [OF inv(1,2,7,8)] inv(3) by simp
  have len: "length (cipher_of g J0) = 16" using inv(6,11) by (simp add: cipher_of_def length_ecb_encrypt)
  have "map (\<lambda>i. xor_into 16 ?X (cipher_of g J0) ! i) [0..<16] = map2 (XOR) (cipher_of g J0) ?X"
    by (rule nth_equalityI) (simp_all add: len nth_xor_into)
  then show ?thesis
    by (simp add: MCL_GCM_finish_def wrap Let_def inv(10) cipher_of_def xor_into_def)
qed

section \<open>Properties\<close>

lemma gctr_cong:
  assumes "\<And>b. length b = 16 \<Longrightarrow> E b = E' b" "length pre = 12"
  shows "gctr E pre ctr data = gctr E' pre ctr data"
  using assms
proof (induction E pre ctr data rule: gctr.induct)
  case (1 E pre ctr data)
  then show ?case by (subst (1 2) gctr.simps) simp
qed

text \<open>The key stream cancels when it is applied twice.\<close>

lemma map2_xor_cancel: "length xs \<le> length ys \<Longrightarrow> map2 (XOR) (map2 (XOR) xs ys) ys = (xs :: bytes)"
  by (rule nth_equalityI) (simp_all add: xor.assoc)

lemma gctr_gctr:
  assumes "\<And>b. length b = 16 \<Longrightarrow> length (E b) = 16" "length pre = 12"
  shows "gctr E pre ctr (gctr E pre ctr data) = data"
  using assms
proof (induction E pre ctr data rule: gctr.induct)
  case (1 E pre ctr data)
  show ?case
  proof (cases "data = []")
    case False
    define B where "B = E (pre @ gcm_unpack (ctr + 1))"
    have B: "length B = 16" using "1.prems" by (simp add: B_def)
    define out where "out = map2 (XOR) (take 16 data) B"
    define R where "R = gctr E pre (ctr + 1) (drop 16 data)"
    have eq: "gctr E pre ctr data = out @ R"
      using False by (subst gctr.simps) (simp add: out_def B_def R_def)
    have len: "length R = length data - 16" using "1.prems" by (simp add: R_def length_gctr)
    have out: "length out = min 16 (length data)" using B by (simp add: out_def)
    have split: "take 16 (out @ R) = out" "drop 16 (out @ R) = R"
      using len out by (auto simp: min_def split: if_splits)
    have "0 < length out" using out False by (simp add: min_def)
    then have "out \<noteq> []" by simp
    moreover have "map2 (XOR) out B = take 16 data" unfolding out_def by (rule map2_xor_cancel) (simp add: B)
    moreover have "gctr E pre (ctr + 1) R = drop 16 data" using "1.IH" False "1.prems" by (simp add: R_def)
    ultimately show ?thesis
      unfolding eq by (subst gctr.simps) (simp only: split B_def [symmetric] append_is_Nil_conv if_False simp_thms append_take_drop_id)
  qed (simp add: gctr.simps)
qed

lemma gcm_tag_cong: "(\<And>b. length b = 16 \<Longrightarrow> E b = E' b) \<Longrightarrow> length J0 = 16 \<Longrightarrow> gcm_tag E H J0 A C = gcm_tag E' H J0 A C"
  by (simp add: gcm_tag_def)

text \<open>A run: initialise, add one header, then the caller's data operation, then take the tag.\<close>

definition gcm_session ::
  "mcl_gcm \<Rightarrow> int \<Rightarrow> bytes \<Rightarrow> bytes \<Rightarrow> bytes \<Rightarrow> (mcl_gcm \<Rightarrow> int \<times> mcl_gcm \<times> bytes) \<Rightarrow> int \<times> int \<times> bytes \<times> bytes option" where
  "gcm_session g nk key iv A op =
     (let g = MCL_GCM_init g nk key (length iv) iv;
          (r1, g) = MCL_GCM_add_header g A (length A);
          (r2, g, mem) = op g
      in (r1, r2, mem, fst (MCL_GCM_finish g True)))"

text \<open>The cipher, the hash key and the counter block of a session.\<close>

lemma fips_cipher_length:
  assumes "n \<in> {4, 6, 8}" "4 * n \<le> length key" "length b = 16" shows "length (fips_cipher n key b) = 16"
proof -
  define a where "a = snd (MCL_AES_init zero_aes 0 (int (4 * n)) key None)"
  have nk: "int (4 * n) sdiv 4 = int n" by (cases "n = 0") (simp_all add: signed_divide_int_def)
  have "int (4 * n) sdiv 4 \<in> {4, 6, 8}" "nat (4 * (int (4 * n) sdiv 4)) \<le> length key"
    unfolding nk using assms by auto
  note init = MCL_AES_init_ready [OF zero_aes_wf this, of 0 None, folded a_def, unfolded nk nat_int]
  have "MCL_AES_ecb_encrypt a b = fips_cipher n key b"
    using init(5) _ assms(3) by (rule ecb_encrypt_fips) (simp only: init(4) add.commute)
  then show ?thesis using init(2) assms(3) by (metis length_ecb_encrypt order_refl ready_rounds(1))
qed

lemma key_cipher_length:
  assumes "key_ok nk key" "length b = 16" shows "length (key_cipher nk key b) = 16"
proof -
  have "nat (nk sdiv 4) \<in> {4, 6, 8}" "4 * nat (nk sdiv 4) \<le> length key" using assms(1) by (auto simp: key_ok_def)
  then show ?thesis unfolding key_cipher_def using assms(2) by (rule fips_cipher_length)
qed

lemma session_prepared:
  fixes iv :: bytes
  assumes "gcm_wf g" "key_ok nk key"
  defines "E \<equiv> key_cipher nk key"
  defines "H \<equiv> block_poly (E (replicate 16 0))"
  defines "J0 \<equiv> gcm_J0 H iv"
  obtains g1 where "MCL_GCM_add_header (MCL_GCM_init g nk key (length iv) iv) A (length A) = (1, g1)"
    "gcm_inv H J0 (ghash H 0 A) (length A) 0 (gcm_pack (drop 12 J0)) g1"
    "gcm_status g1 = MCL_GCM_ACCEPTING_HEADER \<or> gcm_status g1 = MCL_GCM_ACCEPTING_CIPHER"
    "cipher_of g1 J0 = E J0" "\<And>ctr D. gctr (cipher_of g1) (take 12 J0) ctr D = gctr E (take 12 J0) ctr D"
proof -
  define a where "a = snd (MCL_AES_init (gcm_a g) ECB nk key (Some iv))"
  have "aes_wf (gcm_a g)" using assms(1) by (simp add: gcm_wf_def)
  note init = MCL_AES_init_ready [OF this, of nk key ECB "Some iv", folded a_def]
  have a: "aes_ready a" using init assms(2) by (auto simp: key_ok_def)
  have enc: "MCL_AES_ecb_encrypt a b = E b" if "length b = 16" for b
    using that init assms(2) by (auto simp: E_def key_cipher_def key_ok_def add.commute intro!: ecb_encrypt_fips)
  obtain t lA lC where "table_for H t" "lA = (0, 0)" "lC = (0, 0)" and
    g0: "MCL_GCM_init g nk key (length iv) iv = \<lparr>gcm_table = t, gcm_stateX = replicate 16 0, gcm_Y_0 = J0,
       gcm_lenA = lA, gcm_lenC = lC, gcm_status = MCL_GCM_ACCEPTING_HEADER, gcm_a = a\<lparr>aes_f := J0\<rparr>\<rparr>"
    using MCL_GCM_init_eq [OF assms(1) a a_def, of thesis] enc [of "replicate 16 0"] by (simp add: H_def J0_def)
  then have "gcm_inv H J0 0 0 0 (gcm_pack (drop 12 J0)) (MCL_GCM_init g nk key (length iv) iv)"
    using gcm_inv_fresh [of H t a J0] a by (simp add: g0 J0_def)
  then obtain g1 where "MCL_GCM_add_header (MCL_GCM_init g nk key (length iv) iv) A (length A) = (1, g1)"
    "gcm_inv H J0 (ghash H 0 A) (0 + length A) 0 (gcm_pack (drop 12 J0)) g1"
    "gcm_status g1 = (if length A mod 16 \<noteq> 0 then MCL_GCM_ACCEPTING_CIPHER else MCL_GCM_ACCEPTING_HEADER)"
    "cipher_of g1 = cipher_of (MCL_GCM_init g nk key (length iv) iv)"
    by (rule add_header_inv [where A = A]) (simp add: g0)
  moreover have cipher: "cipher_of (MCL_GCM_init g nk key (length iv) iv) b = E b" if "length b = 16" for b
    using enc [OF that] by (simp add: g0 cipher_of_def)
  moreover have "length J0 = 16" by (simp add: J0_def)
  moreover from this have "gctr (cipher_of (MCL_GCM_init g nk key (length iv) iv)) (take 12 J0) ctr D = gctr E (take 12 J0) ctr D" for ctr D
    using cipher by (intro gctr_cong) auto
  ultimately show ?thesis using that by (simp split: if_splits)
qed

text \<open>The tag of a session in which the data operation hashed \<open>X\<close>.\<close>

lemma session_tag:
  fixes iv key :: bytes and nk :: int
  defines "H \<equiv> block_poly (key_cipher nk key (replicate 16 0))"
  defines "J0 \<equiv> gcm_J0 H iv"
  assumes "MCL_GCM_add_header (MCL_GCM_init g nk key (length iv) iv) A (length A) = (1, g1)"
    "op g1 = (1, g2, mem)" "gcm_inv H J0 (ghash H (ghash H 0 A) X) (length A) (length X) ctr g2"
    "cipher_of g1 J0 = key_cipher nk key J0" "cipher_of g2 = cipher_of g1"
  shows "gcm_session g nk key iv A op = (1, 1, mem, Some (gcm_tag (key_cipher nk key) H J0 A X))"
  using finish_tag [OF assms(5)] assms(3,4,6,7) by (simp add: gcm_session_def Let_def gcm_tag_def)

definition zero_gcm :: mcl_gcm where
  "zero_gcm = \<lparr>gcm_table = replicate 128 (replicate 4 0), gcm_stateX = replicate 16 0, gcm_Y_0 = replicate 16 0,
     gcm_lenA = (0, 0), gcm_lenC = (0, 0), gcm_status = 0, gcm_a = zero_aes\<rparr>"

lemma zero_gcm_wf: "gcm_wf zero_gcm"
  by (simp add: gcm_wf_def zero_gcm_def table_shape_def zero_aes_wf list_all_length)

text \<open>
  C39: A session of \<open>MCL_GCM_init\<close>, \<open>MCL_GCM_add_header\<close>, \<open>MCL_GCM_add_plain\<close> and \<open>MCL_GCM_finish\<close>, with its table of
  multiples of the hash key and its words of counters, computes the authenticated encryption of NIST SP 800-38D with
  the AES of FIPS 197, for every key size, initialisation vector, header and plaintext, also in place.
\<close>

theorem gcm_encrypts:
  assumes "gcm_wf g" "key_ok nk key" "cipher = plain \<or> apart cipher plain len"
    "cipher + len \<le> length mem" "plain + len \<le> length mem"
  shows "gcm_session g nk key iv A (\<lambda>g. MCL_GCM_add_plain g mem cipher plain len) =
    (let (C, T) = gcm_ae (key_cipher nk key) iv A (slice plain len mem) in (1, 1, put_bytes mem cipher C, Some T))"
proof -
  let ?E = "key_cipher nk key"
  define H where "H = block_poly (?E (replicate 16 0))"
  define J0 where "J0 = gcm_J0 H iv"
  define C where "C = gctr ?E (take 12 J0) (gcm_pack (drop 12 J0)) (slice plain len mem)"
  obtain g1 where g1: "MCL_GCM_add_header (MCL_GCM_init g nk key (length iv) iv) A (length A) = (1, g1)"
    "gcm_inv H J0 (ghash H 0 A) (length A) 0 (gcm_pack (drop 12 J0)) g1"
    "gcm_status g1 = MCL_GCM_ACCEPTING_HEADER \<or> gcm_status g1 = MCL_GCM_ACCEPTING_CIPHER"
    "cipher_of g1 J0 = ?E J0" "\<And>ctr D. gctr (cipher_of g1) (take 12 J0) ctr D = gctr ?E (take 12 J0) ctr D"
    using session_prepared [OF assms(1,2), of iv A] unfolding H_def J0_def by blast
  have C: "length C = len"
    using key_cipher_length [OF assms(2)] assms(5) by (simp add: C_def length_gctr J0_def)
  with add_data_inv(1) [OF g1(2,3) assms(3,4,5)] obtain g2 where
    "MCL_GCM_add_plain g1 mem cipher plain len = (1, g2, put_bytes mem cipher C)"
    "gcm_inv H J0 (ghash H (ghash H 0 A) C) (length A) (length C) (gcm_pack (drop 12 J0) + of_nat (blocks len)) g2"
    "cipher_of g2 = cipher_of g1"
    by (auto simp: g1(5) C_def)
  from session_tag [OF g1(1), where op = "\<lambda>g. MCL_GCM_add_plain g mem cipher plain len", folded H_def, folded J0_def, OF this(1,2) g1(4) this(3)] show ?thesis
    by (simp add: gcm_ae_def Let_def flip: H_def J0_def C_def)
qed

theorem gcm_encrypts_witness:
  "gcm_session zero_gcm 16 (replicate 16 1) [1, 2, 3] [9] (\<lambda>g. MCL_GCM_add_plain g [5, 6, 7] 0 0 3) =
    (let (C, T) = gcm_ae (key_cipher 16 (replicate 16 1)) [1, 2, 3] [9] [5, 6, 7] in (1, 1, C, Some T))"
proof -
  have "key_ok 16 (replicate 16 1)" by (simp add: key_ok_def signed_divide_int_def)
  from gcm_encrypts [OF zero_gcm_wf this, of 0 0 3 "[5, 6, 7]" "[1, 2, 3]" "[9]"] show ?thesis
    using length_gctr [of "key_cipher 16 (replicate 16 1)"] key_cipher_length [OF \<open>key_ok 16 (replicate 16 1)\<close>]
    by (simp add: slice_def gcm_ae_def Let_def put_bytes_def)
qed

text \<open>
  C40: Decryption of what \<open>gcm_ae\<close> produced, into memory apart from the ciphertext, gives the plaintext back and the tag
  of the encryption, so that a receiver who compares tags accepts exactly what was sent.
\<close>

theorem gcm_decrypts:
  assumes "gcm_wf g" "key_ok nk key" "gcm_ae (key_cipher nk key) iv A P = (C, T)"
    "slice cipher (length P) mem = C" "apart plain cipher (length P)"
    "cipher + length P \<le> length mem" "plain + length P \<le> length mem"
  shows "gcm_session g nk key iv A (\<lambda>g. MCL_GCM_add_cipher g mem plain cipher (length P)) =
    (1, 1, put_bytes mem plain P, Some T)"
proof -
  let ?E = "key_cipher nk key"
  define H where "H = block_poly (?E (replicate 16 0))"
  define J0 where "J0 = gcm_J0 H iv"
  have C: "C = gctr ?E (take 12 J0) (gcm_pack (drop 12 J0)) P" and T: "T = gcm_tag ?E H J0 A C"
    using assms(3) by (auto simp: gcm_ae_def Let_def H_def J0_def)
  obtain g1 where g1: "MCL_GCM_add_header (MCL_GCM_init g nk key (length iv) iv) A (length A) = (1, g1)"
    "gcm_inv H J0 (ghash H 0 A) (length A) 0 (gcm_pack (drop 12 J0)) g1"
    "gcm_status g1 = MCL_GCM_ACCEPTING_HEADER \<or> gcm_status g1 = MCL_GCM_ACCEPTING_CIPHER"
    "cipher_of g1 J0 = ?E J0" "\<And>ctr D. gctr (cipher_of g1) (take 12 J0) ctr D = gctr ?E (take 12 J0) ctr D"
    using session_prepared [OF assms(1,2), of iv A] unfolding H_def J0_def by blast
  have dec: "gctr ?E (take 12 J0) (gcm_pack (drop 12 J0)) C = P"
    unfolding C using key_cipher_length [OF assms(2)] by (intro gctr_gctr) (auto simp: J0_def)
  have len: "length C = length P"
    using key_cipher_length [OF assms(2)] by (simp add: C length_gctr J0_def)
  have same: "(if cipher = plain then P else C) = C" using assms(5) len by (auto simp: apart_def)
  obtain g2 where
    "MCL_GCM_add_cipher g1 mem plain cipher (length P) = (1, g2, put_bytes mem plain P)"
    "gcm_inv H J0 (ghash H (ghash H 0 A) C) (length A) (length C) (gcm_pack (drop 12 J0) + of_nat (blocks (length P))) g2"
    "cipher_of g2 = cipher_of g1"
    using add_data_inv(2) [OF g1(2,3) _ assms(7,6), unfolded g1(5) assms(4) dec same] assms(5) len by auto
  from session_tag [OF g1(1), where op = "\<lambda>g. MCL_GCM_add_cipher g mem plain cipher (length P)", folded H_def, folded J0_def, OF this(1,2) g1(4) this(3)] show ?thesis by (simp add: T)
qed

theorem gcm_decrypts_witness:
  "\<exists>C T. gcm_ae (key_cipher 32 (replicate 32 1)) (replicate 12 3) [9] [5, 6, 7] = (C, T) \<and>
     gcm_session zero_gcm 32 (replicate 32 1) (replicate 12 3) [9] (\<lambda>g. MCL_GCM_add_cipher g (C @ [0, 0, 0]) 3 0 3) =
       (1, 1, C @ [5, 6, 7], Some T)"
proof -
  have key: "key_ok 32 (replicate 32 1)" by (simp add: key_ok_def signed_divide_int_def)
  obtain C T where ae: "gcm_ae (key_cipher 32 (replicate 32 1)) (replicate 12 3) [9] [5, 6, 7] = (C, T)" by fastforce
  then have "length C = 3"
    using length_gctr [of "key_cipher 32 (replicate 32 1)"] key_cipher_length [OF key]
    by (auto simp: gcm_ae_def Let_def)
  with gcm_decrypts [OF zero_gcm_wf key ae, of 0 "C @ [0, 0, 0]" 3] ae show ?thesis
    by (auto simp: slice_def apart_def put_bytes_def numeral_3_eq_3)
qed

text \<open>
  Decrypting in place hashes the wrong bytes: the byte that \<open>MCL_GCM_add_cipher\<close> feeds to the hash is read after the
  plaintext has been stored over it, so the tag authenticates the plaintext instead of the ciphertext.
\<close>

theorem gcm_decrypts_in_place:
  assumes "gcm_wf g" "key_ok nk key" "gcm_ae (key_cipher nk key) iv A P = (C, T)"
    "slice cipher (length P) mem = C" "cipher + length P \<le> length mem"
  shows "gcm_session g nk key iv A (\<lambda>g. MCL_GCM_add_cipher g mem cipher cipher (length P)) =
    (let H = block_poly (key_cipher nk key (replicate 16 0))
     in (1, 1, put_bytes mem cipher P, Some (gcm_tag (key_cipher nk key) H (gcm_J0 H iv) A P)))"
proof -
  let ?E = "key_cipher nk key"
  define H where "H = block_poly (?E (replicate 16 0))"
  define J0 where "J0 = gcm_J0 H iv"
  have C: "C = gctr ?E (take 12 J0) (gcm_pack (drop 12 J0)) P"
    using assms(3) by (auto simp: gcm_ae_def Let_def H_def J0_def)
  obtain g1 where g1: "MCL_GCM_add_header (MCL_GCM_init g nk key (length iv) iv) A (length A) = (1, g1)"
    "gcm_inv H J0 (ghash H 0 A) (length A) 0 (gcm_pack (drop 12 J0)) g1"
    "gcm_status g1 = MCL_GCM_ACCEPTING_HEADER \<or> gcm_status g1 = MCL_GCM_ACCEPTING_CIPHER"
    "cipher_of g1 J0 = ?E J0" "\<And>ctr D. gctr (cipher_of g1) (take 12 J0) ctr D = gctr ?E (take 12 J0) ctr D"
    using session_prepared [OF assms(1,2), of iv A] unfolding H_def J0_def by blast
  have "gctr ?E (take 12 J0) (gcm_pack (drop 12 J0)) C = P"
    unfolding C using key_cipher_length [OF assms(2)] by (intro gctr_gctr) (auto simp: J0_def)
  then obtain g2 where
    "MCL_GCM_add_cipher g1 mem cipher cipher (length P) = (1, g2, put_bytes mem cipher P)"
    "gcm_inv H J0 (ghash H (ghash H 0 A) P) (length A) (length P) (gcm_pack (drop 12 J0) + of_nat (blocks (length P))) g2"
    "cipher_of g2 = cipher_of g1"
    using add_data_inv(2) [OF g1(2,3) _ assms(5,5)] assms(4) by (auto simp: g1(5))
  from session_tag [OF g1(1), where op = "\<lambda>g. MCL_GCM_add_cipher g mem cipher cipher (length P)", folded H_def, folded J0_def, OF this(1,2) g1(4) this(3)] show ?thesis
    by (simp add: Let_def H_def J0_def)
qed

theorem gcm_decrypts_in_place_witness:
  "\<exists>C T. gcm_ae (key_cipher 16 (replicate 16 1)) (replicate 12 3) [9] [5, 6, 7] = (C, T) \<and>
     gcm_session zero_gcm 16 (replicate 16 1) (replicate 12 3) [9] (\<lambda>g. MCL_GCM_add_cipher g C 0 0 3) =
       (let H = block_poly (key_cipher 16 (replicate 16 1) (replicate 16 0))
        in (1, 1, [5, 6, 7], Some (gcm_tag (key_cipher 16 (replicate 16 1)) H (gcm_J0 H (replicate 12 3)) [9] [5, 6, 7])))"
proof -
  have key: "key_ok 16 (replicate 16 1)" by (simp add: key_ok_def signed_divide_int_def)
  obtain C T where ae: "gcm_ae (key_cipher 16 (replicate 16 1)) (replicate 12 3) [9] [5, 6, 7] = (C, T)" by fastforce
  then have "length C = 3"
    using length_gctr [of "key_cipher 16 (replicate 16 1)"] key_cipher_length [OF key]
    by (auto simp: gcm_ae_def Let_def)
  with gcm_decrypts_in_place [OF zero_gcm_wf key ae, of 0 C] ae show ?thesis
    by (auto simp: slice_def put_bytes_def numeral_3_eq_3)
qed

text \<open>
  The header may come in pieces of whole blocks: the documented calling sequence gives the context of a single call.
\<close>

lemma ghash_pieces: "16 dvd length xs \<Longrightarrow> ghash H x (xs @ ys) = ghash H (ghash H x xs) ys"
proof (induction H x xs rule: ghash.induct)
  case (1 H x xs)
  show ?case
  proof (cases "xs = []")
    case False
    then have "16 \<le> length xs" using "1.prems" by (auto dest: dvd_imp_le)
    then have "take 16 xs \<noteq> []" "length (take 16 xs) = 16" "16 dvd length (drop 16 xs)"
      using False "1.prems" by (auto simp: dvd_diff_nat)
    then show ?thesis
      using "1.IH" False ghash_append [of "take 16 xs" "drop 16 xs @ ys" H x] ghash_append [of "take 16 xs" "drop 16 xs" H x]
      by (simp flip: append_assoc)
  qed simp
qed

lemma add_header_eq:
  assumes "table_for H (gcm_table g)" "length (gcm_stateX g) = 16" "gcm_status g = MCL_GCM_ACCEPTING_HEADER"
  shows "MCL_GCM_add_header g A (length A) =
    (1, let u = ((count_A ^^ length A) g)\<lparr>gcm_stateX := poly_block (ghash H (block_poly (gcm_stateX g)) A)\<rparr>
        in if length A mod 16 \<noteq> 0 then u\<lparr>gcm_status := MCL_GCM_ACCEPTING_CIPHER\<rparr> else u)"
  using cntA.absorb_loop_eq [OF assms(1,2), of "length A" A 0] assms(3) by (simp add: MCL_GCM_add_header_def Let_def)

theorem gcm_header_in_pieces:
  assumes "table_for H (gcm_table g)" "length (gcm_stateX g) = 16" "gcm_status g = MCL_GCM_ACCEPTING_HEADER" "16 dvd length A"
  shows "MCL_GCM_add_header (snd (MCL_GCM_add_header g A (length A))) B (length B) = MCL_GCM_add_header g (A @ B) (length (A @ B))"
proof -
  define u where "u = ((count_A ^^ length A) g)\<lparr>gcm_stateX := poly_block (ghash H (block_poly (gcm_stateX g)) A)\<rparr>"
  have first: "MCL_GCM_add_header g A (length A) = (1, u)"
    using assms(4) by (simp add: add_header_eq [OF assms(1-3)] u_def Let_def)
  have u: "table_for H (gcm_table u)" "length (gcm_stateX u) = 16" "gcm_status u = MCL_GCM_ACCEPTING_HEADER"
    using assms by (simp_all add: u_def cntA.pow_fields count_fields)
  have "(length A + length B) mod 16 = length B mod 16" using assms(4) by (auto simp: mod_add_left_eq [symmetric])
  moreover have "(count_A ^^ length B) u =
      ((count_A ^^ length (A @ B)) g)\<lparr>gcm_stateX := poly_block (ghash H (block_poly (gcm_stateX g)) A)\<rparr>"
    using funpow_add [of "length B" "length A" count_A] by (simp add: u_def cntA.pow_fields add.commute)
  moreover have "ghash H (block_poly (gcm_stateX u)) B = ghash H (block_poly (gcm_stateX g)) (A @ B)"
    using assms(4) by (simp add: u_def block_poly_poly_block ghash_pieces)
  ultimately show ?thesis
    unfolding first snd_conv unfolding add_header_eq [OF u, of B] add_header_eq [OF assms(1-3), of "A @ B"] by (simp add: Let_def)
qed

end
