(* ===== verification/Debug.thy ===== *)
theory Debug
  imports Trace Chip
begin

text \<open>
  The parts that only exist in builds for debugging and test: the text output of \<^verbatim>\<open>common/src/debug.c\<close> on the
  serial port of \<^verbatim>\<open>chips/tsb/src/tsb_dbguart.c\<close> (\<^verbatim>\<open>_DEBUGMSGS\<close>), the handshake with the test controller of
  \<^verbatim>\<open>chips/tsb/src/tsb_chipapi.c\<close> (\<^verbatim>\<open>_HANDSHAKE\<close>) and the register getters that only the test applications
  call. The serial port is described by what the writes to its registers do to it; the theory shows that the
  printing functions send exactly the text they are asked for, at a pace the port can take, and return whenever
  the port drains, and that the handshake moves its request line only in answer to the response line.
\<close>

section \<open>The serial port\<close>

abbreviation (input) "UART_RBR_THR_DLL \<equiv> 0x40005000 :: u32"
abbreviation (input) "UART_IER_DLH \<equiv> 0x40005004 :: u32"
abbreviation (input) "UART_FCR_IIR \<equiv> 0x40005008 :: u32"
abbreviation (input) "UART_LCR \<equiv> 0x4000500c :: u32"
abbreviation (input) "UART_LSR \<equiv> 0x40005014 :: u32"
abbreviation (input) "UART_LCR_DLAB \<equiv> 0x80 :: u32"
abbreviation (input) "UART_LCR_DLS_8 \<equiv> 3 :: u32"
abbreviation (input) "UART_LSR_THRE \<equiv> 0x20 :: u32"
abbreviation (input) "UART_LSR_TX_EMPTY \<equiv> 0x40 :: u32"
abbreviation (input) "TSB_PIN_UART_RXTX \<equiv> 1 :: u32"
abbreviation (input) "TSB_CLK_UARTP \<equiv> 21 :: u32"
abbreviation (input) "TSB_CLK_UARTS \<equiv> 22 :: u32"
abbreviation (input) "TSB_RST_UARTP \<equiv> 18 :: u32"
abbreviation (input) "TSB_RST_UARTS \<equiv> 19 :: u32"

text \<open>The clock divider is a constant of the build (\<^verbatim>\<open>CONFIG_UART_CLOCK_DIVIDER\<close>).\<close>

definition UART_DLL :: "u32 \<Rightarrow> u32" where
  "UART_DLL divider = divider AND 0xff"

definition UART_DLH :: "u32 \<Rightarrow> u32" where
  "UART_DLH divider = drop_bit 8 divider AND 0xff"

definition uart_setup :: "u32 \<Rightarrow> ('a machine_scheme, unit) prog" where
  "uart_setup divider =
     bind (putreg32 (UART_LCR_DLAB OR UART_LCR_DLS_8) UART_LCR) (\<lambda>_.
     bind (putreg32 (UART_DLL divider) UART_RBR_THR_DLL) (\<lambda>_.
     bind (putreg32 (UART_DLH divider) UART_IER_DLH) (\<lambda>_.
     bind (putreg32 UART_LCR_DLS_8 UART_LCR) (\<lambda>_.
     bind (putreg32 0 UART_IER_DLH) (\<lambda>_.
     putreg32 7 UART_FCR_IIR)))))"

definition chip_dbginit :: "env \<Rightarrow> u32 \<Rightarrow> ('a machine_scheme, unit) prog" where
  "chip_dbginit E divider =
     bind (tsb_set_pinshare E TSB_PIN_UART_RXTX) (\<lambda>_.
     bind (tsb_clk_enable TSB_CLK_UARTP) (\<lambda>_.
     bind (tsb_clk_enable TSB_CLK_UARTS) (\<lambda>_.
     bind (tsb_reset TSB_RST_UARTP) (\<lambda>_.
     bind (tsb_reset TSB_RST_UARTS) (\<lambda>_.
     seqM (replicate 3 (uart_setup divider)))))))"

definition wait_thre :: "env \<Rightarrow> ('a machine_scheme, unit) prog" where
  "wait_thre E = poll_reg E UART_LSR (\<lambda>v. v AND UART_LSR_THRE = UART_LSR_THRE)"

definition chip_dbgputc :: "env \<Rightarrow> u32 \<Rightarrow> ('a machine_scheme, unit) prog" where
  "chip_dbgputc E c =
     bind (wait_thre E) (\<lambda>_.
     bind (if c = 10 then bind (putreg32 13 UART_RBR_THR_DLL) (\<lambda>_. wait_thre E) else skip) (\<lambda>_.
     putreg32 c UART_RBR_THR_DLL))"

definition chip_dbgflush :: "env \<Rightarrow> ('a machine_scheme, unit) prog" where
  "chip_dbgflush E = poll_reg E UART_LSR (\<lambda>v. v AND UART_LSR_TX_EMPTY = UART_LSR_TX_EMPTY)"

section \<open>Printing\<close>

definition dbginit :: "env \<Rightarrow> u32 \<Rightarrow> ('a machine_scheme, unit) prog" where
  "dbginit E divider = chip_dbginit E divider"

definition dbgputc :: "env \<Rightarrow> u32 \<Rightarrow> ('a machine_scheme, unit) prog" where
  "dbgputc E x = chip_dbgputc E x"

text \<open>
  A string is the bytes from its pointer on; running past them without a terminator is a fault. \<open>None\<close> is the null
  pointer. Plain \<^verbatim>\<open>char\<close> is unsigned on the ARM target.
\<close>

primrec dbgprint_chars :: "env \<Rightarrow> bytes \<Rightarrow> ('a machine_scheme, unit) prog" where
  "dbgprint_chars E [] = stop_with Fault"
| "dbgprint_chars E (c # cs) =
     (if c = 0 then skip else bind (dbgputc E (ucast c)) (\<lambda>_. dbgprint_chars E cs))"

definition dbgprint :: "env \<Rightarrow> bytes option \<Rightarrow> ('a machine_scheme, unit) prog" where
  "dbgprint E str = (case str of None \<Rightarrow> skip | Some cs \<Rightarrow> dbgprint_chars E cs)"

definition print_nybble :: "env \<Rightarrow> u8 \<Rightarrow> nat \<Rightarrow> ('a machine_scheme, unit) prog" where
  "print_nybble E num digit =
     (let nybble = drop_bit (4 * digit) (ucast num) AND 0x0f
      in if nybble < 10 then dbgputc E (0x30 + nybble) else dbgputc E (0x61 + (nybble - 10)))"

definition dbgprinthex8 :: "env \<Rightarrow> u8 \<Rightarrow> ('a machine_scheme, unit) prog" where
  "dbgprinthex8 E num = seqM (map (print_nybble E num) [1, 0])"

definition dbgprinthex16 :: "env \<Rightarrow> u16 \<Rightarrow> ('a machine_scheme, unit) prog" where
  "dbgprinthex16 E num =
     bind (dbgprinthex8 E (ucast (drop_bit 8 num))) (\<lambda>_. dbgprinthex8 E (ucast (num AND 0x0ff)))"

definition dbgprinthex32 :: "env \<Rightarrow> u32 \<Rightarrow> ('a machine_scheme, unit) prog" where
  "dbgprinthex32 E num =
     seqM (map (\<lambda>byte. dbgprinthex8 E (ucast (drop_bit (8 * byte) num AND 0x0ff))) [3, 2, 1, 0])"

definition dbgprinthex64 :: "env \<Rightarrow> 64 word \<Rightarrow> ('a machine_scheme, unit) prog" where
  "dbgprinthex64 E num =
     seqM (map (\<lambda>byte. dbgprinthex8 E (ucast (drop_bit (8 * byte) num AND 0x0ff))) [7, 6, 5, 4, 3, 2, 1, 0])"

definition dbgprintx16 :: "env \<Rightarrow> bytes option \<Rightarrow> u16 \<Rightarrow> bytes option \<Rightarrow> ('a machine_scheme, unit) prog" where
  "dbgprintx16 E s1 num s2 =
     bind (dbgprint E s1) (\<lambda>_. bind (dbgprinthex16 E num) (\<lambda>_. dbgprint E s2))"

definition dbgprintx32 :: "env \<Rightarrow> bytes option \<Rightarrow> u32 \<Rightarrow> bytes option \<Rightarrow> ('a machine_scheme, unit) prog" where
  "dbgprintx32 E s1 num s2 =
     bind (dbgprint E s1) (\<lambda>_. bind (dbgprinthex32 E num) (\<lambda>_. dbgprint E s2))"

definition dbgprintx64 :: "env \<Rightarrow> bytes option \<Rightarrow> 64 word \<Rightarrow> bytes option \<Rightarrow> ('a machine_scheme, unit) prog" where
  "dbgprintx64 E s1 num s2 =
     bind (dbgprint E s1) (\<lambda>_. bind (dbgprinthex64 E num) (\<lambda>_. dbgprint E s2))"

section \<open>The handshake with the test controller\<close>

abbreviation (input) "GPIO_REQ \<equiv> 16 :: nat"
abbreviation (input) "GPIO_RESP \<equiv> 17 :: nat"
abbreviation (input) "GPIO_TEST_STATUS \<equiv> 18 :: nat"
abbreviation (input) "GPIO_TEST_STATUS_OK \<equiv> 0 :: u8"
abbreviation (input) "GPIO_TEST_STATUS_FAIL \<equiv> 1 :: u8"

text \<open>\<^verbatim>\<open>while (chip_gpio_get_value(which) != v);\<close>\<close>

definition wait_gpio :: "env \<Rightarrow> nat \<Rightarrow> bool \<Rightarrow> ('a machine_scheme, unit) prog" where
  "wait_gpio E which high =
     loopM (\<lambda>_. bind (chip_gpio_get_value E which) (\<lambda>v.
       return (if (v \<noteq> 0) = high then Inr () else Inl ()))) ()"

definition chip_handshake_with_test_controller :: "env \<Rightarrow> ('a machine_scheme, unit) prog" where
  "chip_handshake_with_test_controller E =
     bind (chip_dbgflush E) (\<lambda>_.
     bind (wait_gpio E GPIO_RESP False) (\<lambda>_.
     bind (chip_gpio_set_value GPIO_REQ 1) (\<lambda>_.
     bind (wait_gpio E GPIO_RESP True) (\<lambda>_.
     bind (chip_gpio_set_value GPIO_REQ 0) (\<lambda>_.
     wait_gpio E GPIO_RESP False)))))"

definition chip_handshake_boot_status :: "env \<Rightarrow> u32 \<Rightarrow> ('a machine_scheme, unit) prog" where
  "chip_handshake_boot_status E status =
     bind (chip_gpio_set_value GPIO_TEST_STATUS
       (if status \<noteq> 0 then GPIO_TEST_STATUS_FAIL else GPIO_TEST_STATUS_OK)) (\<lambda>_.
     chip_handshake_with_test_controller E)"

section \<open>Register getters of the test applications\<close>

definition tsb_get_debug_reg :: "env \<Rightarrow> u32 \<Rightarrow> ('a machine_scheme, u32) prog" where
  "tsb_get_debug_reg E offset = scm_read E offset"

definition tsb_get_disable_ims_access :: "env \<Rightarrow> ('a machine_scheme, u32) prog" where
  "tsb_get_disable_ims_access E = isaa_read E TSB_ISAA_DISABLE_IMS_ACCESS"

definition tsb_get_disable_cms_access :: "env \<Rightarrow> ('a machine_scheme, u32) prog" where
  "tsb_get_disable_cms_access E = isaa_read E TSB_ISAA_DISABLE_CMS_ACCESS"

definition tsb_get_scr :: "env \<Rightarrow> ('a machine_scheme, u32) prog" where
  "tsb_get_scr E = isaa_read E TSB_ISAA_SCR"

definition tsb_get_retest :: "env \<Rightarrow> ('a machine_scheme, u32) prog" where
  "tsb_get_retest E = isaa_read E 0x30c"

definition tsb_get_jtag_enable :: "env \<Rightarrow> ('a machine_scheme, u32) prog" where
  "tsb_get_jtag_enable E = isaa_read E 0x408"

definition tsb_get_jtag_disable :: "env \<Rightarrow> ('a machine_scheme, u32) prog" where
  "tsb_get_jtag_disable E = isaa_read E TSB_ISAA_JTAG_DISABLE"

definition tsb_get_software_jtag_control :: "env \<Rightarrow> ('a machine_scheme, u32) prog" where
  "tsb_get_software_jtag_control E = isaa_read E 0x410"

section \<open>What the port does\<close>

text \<open>
  The port as its registers define it: while the divisor latch is open, the first two registers hold the divisor;
  otherwise a write to the first one sends a byte.
\<close>

record uart =
  dlab :: bool
  dll :: u32
  dlh :: u32
  ier :: u32
  sent :: "u32 list"

fun uart_step :: "io_event \<Rightarrow> uart \<Rightarrow> uart" where
  "uart_step (WrReg a v) u =
     (if a = UART_LCR then u\<lparr>dlab := bit v 7\<rparr>
      else if a = UART_RBR_THR_DLL then if dlab u then u\<lparr>dll := v\<rparr> else u\<lparr>sent := sent u @ [v]\<rparr>
      else if a = UART_IER_DLH then if dlab u then u\<lparr>dlh := v\<rparr> else u\<lparr>ier := v\<rparr>
      else u)"
| "uart_step (RdReg a v) u = u"
| "uart_step (WrReg8 a v) u = u"

definition uart_of :: "io_event list \<Rightarrow> uart" where
  "uart_of h = foldr uart_step h \<lparr>dlab = False, dll = 0, dlh = 0, ier = 0, sent = []\<rparr>"

lemma uart_of_Cons: "uart_of (e # h) = uart_step e (uart_of h)"
  by (simp add: uart_of_def)

text \<open>Every byte was sent directly after a look at the port that found its transmitter free.\<close>

fun paced :: "io_event list \<Rightarrow> bool" where
  "paced [] \<longleftrightarrow> True"
| "paced (e # h) \<longleftrightarrow>
     (case e of
        WrReg a v \<Rightarrow> a = UART_RBR_THR_DLL \<and> \<not> dlab (uart_of h) \<longrightarrow>
          (case h of RdReg b w # h' \<Rightarrow> b = UART_LSR \<and> w AND UART_LSR_THRE = UART_LSR_THRE | _ \<Rightarrow> False)
      | _ \<Rightarrow> True) \<and> paced h"

text \<open>The history after looking at a register a number of times, and a register that gives way in the end.\<close>

primrec looks :: "env \<Rightarrow> u32 \<Rightarrow> nat \<Rightarrow> io_event list \<Rightarrow> io_event list" where
  "looks E a 0 h = h"
| "looks E a (Suc n) h = looks E a n (RdReg a (dev E h a) # h)"

definition gives_way :: "env \<Rightarrow> u32 \<Rightarrow> (u32 \<Rightarrow> bool) \<Rightarrow> bool" where
  "gives_way E a ok \<longleftrightarrow> (\<forall>h. \<exists>n. ok (dev E (looks E a n h) a))"

lemma poll_reg_returns:
  "ok (dev E (looks E a n (io s)) a) \<Longrightarrow>
   \<exists>m w. poll_reg E a ok s = Ret () (s\<lparr>io := RdReg a w # looks E a m (io s)\<rparr>) \<and> ok w"
proof (induction n arbitrary: s)
  case 0
  then show ?case
    by (intro exI [of _ 0] exI [of _ "dev E (io s) a"])
      (simp add: poll_reg_def loopM_Inr getreg32_def Let_def return_def)
next
  case (Suc n)
  let ?w = "dev E (io s) a"
  let ?s = "s\<lparr>io := RdReg a ?w # io s\<rparr>"
  have look: "getreg32 E a s = Ret ?w ?s" by (simp add: getreg32_def Let_def)
  show ?case
  proof (cases "ok ?w")
    case True
    with look show ?thesis
      by (intro exI [of _ 0] exI [of _ ?w]) (simp add: poll_reg_def loopM_Inr return_def)
  next
    case False
    from Suc.IH [of ?s] Suc.prems obtain m w where
      m: "poll_reg E a ok ?s = Ret () (?s\<lparr>io := RdReg a w # looks E a m (io ?s)\<rparr>)" "ok w" by auto
    from False look m(1) have "poll_reg E a ok s = Ret () (?s\<lparr>io := RdReg a w # looks E a m (io ?s)\<rparr>)"
      unfolding poll_reg_def by (subst loopM_Inl_Ret [where a' = "()" and s' = ?s]) (auto simp: return_def)
    with m(2) show ?thesis by (intro exI [of _ "Suc m"] exI [of _ w]) simp
  qed
qed

lemma looks_harmless: "uart_of (looks E a n h) = uart_of h" "paced h \<Longrightarrow> paced (looks E a n h)"
  by (induction n arbitrary: h) (auto simp: uart_of_Cons)

text \<open>
  A program prints a text: from a port that is open for sending it returns, has added the text to what was sent,
  at the port's pace, and has done nothing else.
\<close>

definition prints :: "('a machine_scheme, unit) prog \<Rightarrow> u32 list \<Rightarrow> bool" where
  "prints m out \<longleftrightarrow> (\<forall>s. \<not> dlab (uart_of (io s)) \<longrightarrow>
     (\<exists>h. m s = Ret () (s\<lparr>io := h\<rparr>) \<and>
       uart_of h = (uart_of (io s))\<lparr>sent := sent (uart_of (io s)) @ out\<rparr> \<and> (paced (io s) \<longrightarrow> paced h)))"

lemma prints_skip: "prints skip []"
  by (auto simp: prints_def skip_def return_def intro!: exI [of _ "io s" for s :: "'a machine_scheme"])

lemma prints_bind:
  assumes "prints m a" "prints (f ()) b"
  shows "prints (bind m f) (a @ b)"
  unfolding prints_def
proof (intro allI impI)
  fix s :: "'a machine_scheme"
  assume "\<not> dlab (uart_of (io s))"
  with assms(1) obtain h where h: "m s = Ret () (s\<lparr>io := h\<rparr>)"
    "uart_of h = (uart_of (io s))\<lparr>sent := sent (uart_of (io s)) @ a\<rparr>" "paced (io s) \<longrightarrow> paced h"
    and unlatched: "\<not> dlab (uart_of (io s))" unfolding prints_def by blast
  from h(2) unlatched have "\<not> dlab (uart_of (io (s\<lparr>io := h\<rparr>)))" by simp
  with assms(2) obtain h' where "f () (s\<lparr>io := h\<rparr>) = Ret () (s\<lparr>io := h\<rparr>\<lparr>io := h'\<rparr>)"
    "uart_of h' = (uart_of (io (s\<lparr>io := h\<rparr>)))\<lparr>sent := sent (uart_of (io (s\<lparr>io := h\<rparr>))) @ b\<rparr>"
    "paced (io (s\<lparr>io := h\<rparr>)) \<longrightarrow> paced h'"
    unfolding prints_def by blast
  with h show "\<exists>h. bind m f s = Ret () (s\<lparr>io := h\<rparr>) \<and>
      uart_of h = (uart_of (io s))\<lparr>sent := sent (uart_of (io s)) @ a @ b\<rparr> \<and> (paced (io s) \<longrightarrow> paced h)"
    by (intro exI [of _ h']) simp
qed

text \<open>The text of one character: a new line is preceded by a carriage return.\<close>

definition char_text :: "u32 \<Rightarrow> u32 list" where
  "char_text c = (if c = 10 then [13, 10] else [c])"

abbreviation (input) "uart_drains E \<equiv> gives_way E UART_LSR (\<lambda>v. v AND UART_LSR_THRE = UART_LSR_THRE)"

lemma sends_byte:
  assumes "uart_drains E"
  shows "prints (bind (wait_thre E) (\<lambda>_. putreg32 c UART_RBR_THR_DLL)) [c]"
  unfolding prints_def
proof (intro allI impI)
  fix s :: "'a machine_scheme"
  assume "\<not> dlab (uart_of (io s))"
  moreover from assms obtain n where "dev E (looks E UART_LSR n (io s)) UART_LSR AND UART_LSR_THRE = UART_LSR_THRE"
    unfolding gives_way_def by blast
  from poll_reg_returns [where ok = "\<lambda>v. v AND UART_LSR_THRE = UART_LSR_THRE", OF this] obtain m w where
    "wait_thre E s = Ret () (s\<lparr>io := RdReg UART_LSR w # looks E UART_LSR m (io s)\<rparr>)"
    "w AND UART_LSR_THRE = UART_LSR_THRE" unfolding wait_thre_def by blast
  ultimately show "\<exists>h. bind (wait_thre E) (\<lambda>_. putreg32 c UART_RBR_THR_DLL) s = Ret () (s\<lparr>io := h\<rparr>) \<and>
      uart_of h = (uart_of (io s))\<lparr>sent := sent (uart_of (io s)) @ [c]\<rparr> \<and> (paced (io s) \<longrightarrow> paced h)"
    by (intro exI [of _ "WrReg UART_RBR_THR_DLL c # RdReg UART_LSR w # looks E UART_LSR m (io s)"])
      (simp add: putreg32_def uart_of_Cons looks_harmless)
qed

lemma dbgputc_prints:
  assumes E: "uart_drains E"
  shows "prints (dbgputc E c :: ('a machine_scheme, unit) prog) (char_text c)"
proof (cases "c = 10")
  case True
  have "prints (bind (bind (wait_thre E) (\<lambda>_. putreg32 13 UART_RBR_THR_DLL))
      (\<lambda>_. bind (wait_thre E) (\<lambda>_. putreg32 10 UART_RBR_THR_DLL)) :: ('a machine_scheme, unit) prog) ([13] @ [10])"
    by (rule prints_bind) (rule sends_byte [OF E])+
  with True show ?thesis by (simp add: dbgputc_def chip_dbgputc_def bind_assoc char_text_def)
next
  case False
  with sends_byte [OF E, of c, where ?'a = 'a] show ?thesis
    by (simp add: dbgputc_def chip_dbgputc_def skip_def char_text_def)
qed

section \<open>The text of strings and numbers\<close>

fun string_ok :: "bytes option \<Rightarrow> bool" where
  "string_ok None \<longleftrightarrow> True"
| "string_ok (Some cs) \<longleftrightarrow> 0 \<in> set cs"

fun string_text :: "bytes option \<Rightarrow> u32 list" where
  "string_text None = []"
| "string_text (Some cs) = concat (map (\<lambda>c. char_text (ucast c)) (takeWhile (\<lambda>c. c \<noteq> 0) cs))"

lemma dbgprint_prints: "uart_drains E \<Longrightarrow> string_ok str \<Longrightarrow> prints (dbgprint E str) (string_text str)"
proof -
  assume E: "uart_drains E" and "string_ok str"
  have "0 \<in> set cs \<Longrightarrow> prints (dbgprint_chars E cs) (string_text (Some cs))" for cs
    by (induction cs) (auto intro: prints_skip prints_bind dbgputc_prints [OF E])
  with \<open>string_ok str\<close> show ?thesis by (cases str) (auto simp: dbgprint_def prints_skip)
qed

text \<open>The digits of a number in hexadecimal, most significant first, and the number a run of digits stands for.\<close>

definition hex_char :: "nat \<Rightarrow> u32" where
  "hex_char d = (if d < 10 then 0x30 + word_of_nat d else 0x61 + word_of_nat (d - 10))"

fun hex_text :: "nat \<Rightarrow> nat \<Rightarrow> u32 list" where
  "hex_text 0 n = []"
| "hex_text (Suc k) n = hex_char (n div 16 ^ k mod 16) # hex_text k n"

definition hex_value :: "u32 \<Rightarrow> nat" where
  "hex_value c = (if c < 0x61 then unat (c - 0x30) else unat (c - 0x61) + 10)"

lemma hex_char_facts:
  assumes "d < 16"
  shows "char_text (hex_char d) = [hex_char d]" "hex_value (hex_char d) = d"
proof -
  have "d = 0 \<or> d = 1 \<or> d = 2 \<or> d = 3 \<or> d = 4 \<or> d = 5 \<or> d = 6 \<or> d = 7 \<or> d = 8 \<or> d = 9 \<or>
      d = 10 \<or> d = 11 \<or> d = 12 \<or> d = 13 \<or> d = 14 \<or> d = 15" using assms by arith
  then show "char_text (hex_char d) = [hex_char d]" "hex_value (hex_char d) = d"
    by (auto simp: char_text_def hex_char_def hex_value_def)
qed

lemma hex_text_append: "hex_text (j + k) n = hex_text j (n div 16 ^ k) @ hex_text k n"
  by (induction j) (simp_all add: div_mult2_eq [symmetric] power_add mult.commute)

lemma hex_text_2_byte: "hex_text 2 (n mod 256) = hex_text 2 n"
proof -
  have "n mod 256 = 16 * (n div 16 mod 16) + n mod 16" using mod_mult2_eq [of n 16 16] by simp
  then show ?thesis by (simp add: numeral_2_eq_2)
qed

text \<open>The digits stand for the number.\<close>

lemma hex_text_value: "foldl (\<lambda>v c. 16 * v + hex_value c) a (hex_text k n) = a * 16 ^ k + n mod 16 ^ k"
proof (induction k arbitrary: a)
  case (Suc k)
  let ?d = "n div 16 ^ k mod 16"
  have "n mod 16 ^ Suc k = 16 ^ k * ?d + n mod 16 ^ k"
    using mod_mult2_eq [of n "16 ^ k" 16] by (simp add: mult.commute)
  moreover have "foldl (\<lambda>v c. 16 * v + hex_value c) a (hex_text (Suc k) n) = (16 * a + ?d) * 16 ^ k + n mod 16 ^ k"
    by (simp add: Suc.IH hex_char_facts)
  ultimately show ?case by (simp only:) (simp add: algebra_simps)
qed simp

lemma unat_low_bits: "unat (w AND 0x0f) = unat w mod 16" "unat (w AND 0x0ff) = unat w mod 256"
  for w :: "'a::len word"
proof -
  have "w AND 0x0f = take_bit 4 w" "w AND 0x0ff = take_bit 8 w"
    by (simp_all add: take_bit_eq_mask mask_eq_exp_minus_1)
  then show "unat (w AND 0x0f) = unat w mod 16" "unat (w AND 0x0ff) = unat w mod 256"
    by (simp_all only: unsigned_take_bit_eq) (simp_all add: take_bit_eq_mod)
qed

lemma print_nybble_prints:
  assumes E: "uart_drains E"
  shows "prints (print_nybble E num digit :: ('a machine_scheme, unit) prog) [hex_char (unat num div 16 ^ digit mod 16)]"
proof -
  define d where "d = unat num div 16 ^ digit mod 16"
  define w where "w = drop_bit (4 * digit) (ucast num :: u32) AND 0x0f"
  have d: "d < 16" by (simp add: d_def)
  have "unat num < 256" using unsigned_less [of num, where ?'a = nat] by simp
  then have "unat w = d"
    by (simp add: w_def d_def unat_low_bits unat_drop_bit_word power_mult unsigned_ucast_eq take_bit_eq_mod)
  moreover have "word_of_nat (unat w) = w" by simp
  ultimately have "unat w = d" "w = word_of_nat d" by simp_all
  with d have "(if w < 10 then 0x30 + w else 0x61 + (w - 10)) = hex_char d"
    by (auto simp: hex_char_def word_less_nat_alt \<open>unat w = d\<close> of_nat_diff not_less)
  then have "(print_nybble E num digit :: ('a machine_scheme, unit) prog) = dbgputc E (hex_char d)"
    by (simp add: print_nybble_def w_def [symmetric] Let_def if_distrib [of "dbgputc E", symmetric])
  with dbgputc_prints [OF E, of "hex_char d"] hex_char_facts(1) [OF d] show ?thesis by (simp add: d_def)
qed

lemma dbgprinthex8_prints: "uart_drains E \<Longrightarrow> prints (dbgprinthex8 E num) (hex_text 2 (unat num))"
  using prints_bind [OF print_nybble_prints [of E num 1] prints_bind [OF print_nybble_prints [of E num 0] prints_skip]]
  by (simp add: dbgprinthex8_def numeral_2_eq_2)

text \<open>Printing bytes from the most significant one down prints all their digits.\<close>

lemma bytes_print_hex:
  assumes "uart_drains E" and byte: "\<And>i. i < k \<Longrightarrow> unat (f i) = n div 256 ^ i mod 256"
  shows "prints (seqM (map (\<lambda>i. dbgprinthex8 E (f i)) (rev [0..<k])) :: ('a machine_scheme, unit) prog) (hex_text (2 * k) n)"
  using byte
proof (induction k)
  case 0
  then show ?case by (simp add: prints_skip)
next
  case (Suc k)
  have "(16::nat) ^ (2 * k) = 256 ^ k" by (simp add: power_mult)
  then have "hex_text (2 * Suc k) n = hex_text 2 (unat (f k)) @ hex_text (2 * k) n"
    using hex_text_append [of 2 "2 * k" n] Suc.prems [of k] by (simp add: hex_text_2_byte)
  moreover have "prints (bind (dbgprinthex8 E (f k)) (\<lambda>_. seqM (map (\<lambda>i. dbgprinthex8 E (f i)) (rev [0..<k])))
        :: ('a machine_scheme, unit) prog)
      (hex_text 2 (unat (f k)) @ hex_text (2 * k) n)"
    by (rule prints_bind [OF dbgprinthex8_prints [OF assms(1)]]) (use Suc in simp)
  ultimately show ?case by (simp del: hex_text.simps)
qed

lemma low_byte: "unat (ucast (drop_bit (8 * i) w AND 0x0ff) :: u8) = unat w div 256 ^ i mod 256"
  by (simp add: unat_ucast_u8 unat_low_bits unat_drop_bit_word power_mult)

lemma dbgprinthex_prints:
  assumes "uart_drains E"
  shows "prints (dbgprinthex16 E a :: ('a machine_scheme, unit) prog) (hex_text 4 (unat a))"
    "prints (dbgprinthex32 E b :: ('a machine_scheme, unit) prog) (hex_text 8 (unat b))"
    "prints (dbgprinthex64 E c :: ('a machine_scheme, unit) prog) (hex_text 16 (unat c))"
proof -
  have "hex_text 4 (unat a) = hex_text 2 (unat (ucast (drop_bit 8 a) :: u8)) @ hex_text 2 (unat (ucast (a AND 0x0ff) :: u8))"
    using hex_text_append [of 2 2 "unat a"]
    by (simp add: unat_ucast_u8 unat_low_bits unat_drop_bit_word hex_text_2_byte del: hex_text.simps)
  moreover have "prints (dbgprinthex16 E a :: ('a machine_scheme, unit) prog)
      (hex_text 2 (unat (ucast (drop_bit 8 a) :: u8)) @ hex_text 2 (unat (ucast (a AND 0x0ff) :: u8)))"
    unfolding dbgprinthex16_def by (intro prints_bind dbgprinthex8_prints assms)
  ultimately show "prints (dbgprinthex16 E a :: ('a machine_scheme, unit) prog) (hex_text 4 (unat a))" by (simp only:)
  have "rev [0..<4] = [3, 2, 1, 0::nat]" "rev [0..<8] = [7, 6, 5, 4, 3, 2, 1, 0::nat]" by code_simp+
  with bytes_print_hex [OF assms low_byte [of _ b], of 4, where ?'a = 'a]
    bytes_print_hex [OF assms low_byte [of _ c], of 8, where ?'a = 'a]
  show "prints (dbgprinthex32 E b :: ('a machine_scheme, unit) prog) (hex_text 8 (unat b))"
    "prints (dbgprinthex64 E c :: ('a machine_scheme, unit) prog) (hex_text 16 (unat c))"
    unfolding dbgprinthex32_def dbgprinthex64_def by simp_all
qed

text \<open>Setting up the port leaves it open for sending, with the divisor of the build, and sends nothing.\<close>

lemma dbginit_opens:
  "\<exists>h. dbginit E divider s = Ret () (s\<lparr>io := h\<rparr>) \<and>
     uart_of h = (uart_of (io s))\<lparr>dlab := False, dll := UART_DLL divider, dlh := UART_DLH divider, ier := 0\<rparr> \<and>
     (paced (io s) \<longrightarrow> paced h)"
  unfolding dbginit_def chip_dbginit_def uart_setup_def tsb_set_pinshare_def scm_read_def scm_write_def
    tsb_clk_enable_def tsb_reset_def
  by (simp add: getreg32_def putreg32_def Let_def bind_assoc numeral_3_eq_3 skip_def return_def CLK_OFFSET_def,
      rule exI, rule conjI, rule refl) (simp add: uart_of_Cons SYSCTL_BASE_def)

text \<open>
  After the set-up, printing a number between two strings returns whenever the port keeps draining, and has sent exactly
  the strings with their line ends and the eight digits of the number, each byte when the port was ready for it.
\<close>

theorem debug_text_exact:
  assumes "gives_way E UART_LSR (\<lambda>v. v AND UART_LSR_THRE = UART_LSR_THRE)" "string_ok s1" "string_ok s2"
  shows "\<exists>h. bind (dbginit E divider) (\<lambda>_. dbgprintx32 E s1 num s2) s = Ret () (s\<lparr>io := h\<rparr>) \<and>
     sent (uart_of h) = sent (uart_of (io s)) @ string_text s1 @ hex_text 8 (unat num) @ string_text s2 \<and>
     dll (uart_of h) = UART_DLL divider \<and> dlh (uart_of h) = UART_DLH divider \<and>
     (paced (io s) \<longrightarrow> paced h)"
proof -
  obtain h where h: "dbginit E divider s = Ret () (s\<lparr>io := h\<rparr>)"
    "uart_of h = (uart_of (io s))\<lparr>dlab := False, dll := UART_DLL divider, dlh := UART_DLH divider, ier := 0\<rparr>"
    "paced (io s) \<longrightarrow> paced h" using dbginit_opens by blast
  have "prints (dbgprintx32 E s1 num s2 :: ('a machine_scheme, unit) prog)
      (string_text s1 @ hex_text 8 (unat num) @ string_text s2)"
    unfolding dbgprintx32_def by (intro prints_bind dbgprint_prints dbgprinthex_prints assms)
  from this [unfolded prints_def, rule_format, of "s\<lparr>io := h\<rparr>"] h show ?thesis by auto
qed

lemma hex_text_numeral:
  "hex_text (numeral k) n = hex_char (n div 16 ^ pred_numeral k mod 16) # hex_text (pred_numeral k) n"
  by (simp only: numeral_eq_Suc hex_text.simps(2))

theorem debug_text_exact_witness:
  "\<exists>h. bind (dbginit (es3_env (\<lambda>_ _. 0x60)) 4)
       (\<lambda>_. dbgprintx32 (es3_env (\<lambda>_ _. 0x60)) (Some [0x76, 0x3d, 0]) 0x1f2e (Some [10, 0])) \<lparr>io = [], ram = \<lambda>_. 0\<rparr> =
       Ret () \<lparr>io = h, ram = \<lambda>_. 0\<rparr> \<and>
     sent (uart_of h) = [0x76, 0x3d, 0x30, 0x30, 0x30, 0x30, 0x31, 0x66, 0x32, 0x65, 13, 10] \<and> paced h"
proof -
  have "gives_way (es3_env (\<lambda>_ _. 0x60)) UART_LSR (\<lambda>v. v AND UART_LSR_THRE = UART_LSR_THRE)"
    by (simp add: gives_way_def es3_env_def)
  note printed = debug_text_exact [OF this, of "Some [0x76, 0x3d, 0]" "Some [10, 0]", where divider = 4 and num = "0x1f2e"
      and s = "\<lparr>io = [], ram = \<lambda>_. 0\<rparr>"]
  have "sent (uart_of []) @ string_text (Some [0x76, 0x3d, 0]) @ hex_text 8 (unat (0x1f2e :: u32)) @
      string_text (Some [10, 0]) = [0x76, 0x3d, 0x30, 0x30, 0x30, 0x30, 0x31, 0x66, 0x32, 0x65, 13, 10]"
    by (simp add: uart_of_def hex_text_numeral hex_char_def char_text_def)
  moreover have "string_ok (Some [0x76, 0x3d, 0])" "string_ok (Some [10, 0])" "paced []" by simp_all
  ultimately show ?thesis using printed by (simp only: machine.simps) blast
qed

text \<open>What was printed can be read back: the digits determine the number.\<close>

lemma printed_number_determined: "hex_text 8 (unat v) = hex_text 8 (unat w) \<longleftrightarrow> v = (w :: u32)"
proof
  assume "hex_text 8 (unat v) = hex_text 8 (unat w)"
  with hex_text_value [of 0 8 "unat v"] hex_text_value [of 0 8 "unat w"]
  have "unat v mod 16 ^ 8 = unat w mod 16 ^ 8" by (simp del: hex_text.simps)
  moreover have "unat v < 16 ^ 8" "unat w < 16 ^ 8"
    using unsigned_less [of v, where ?'a = nat] unsigned_less [of w, where ?'a = nat] by simp_all
  ultimately show "v = w" by (simp add: word_unat_eq_iff)
qed simp

section \<open>The order of the handshake\<close>

text \<open>
  The handshake as the test controller sees it: what was read from its response line, and the changes of the
  request and of the status line.
\<close>

datatype hs_event = Resp bool | Req bool | Status bool

fun hs_word :: "io_event \<Rightarrow> hs_event option" where
  "hs_word (RdReg a v) = (if a = GPIO_BASE then Some (Resp (bit v GPIO_RESP)) else None)"
| "hs_word (WrReg a v) =
     (if a = GPIO_BASE + 8 \<or> a = GPIO_BASE + 0xc then
        if bit v GPIO_REQ then Some (Req (a = GPIO_BASE + 8))
        else if bit v GPIO_TEST_STATUS then Some (Status (a = GPIO_BASE + 8)) else None
      else None)"
| "hs_word (WrReg8 a v) = None"

definition hs_log :: "io_event list \<Rightarrow> hs_event list" where
  "hs_log h = rev (List.map_filter hs_word h)"

lemma hs_log_Cons: "hs_log (e # h) = hs_log h @ (case hs_word e of None \<Rightarrow> [] | Some w \<Rightarrow> [w])"
  by (simp add: hs_log_def map_filter_simps split: option.split)

lemma wait_gpio_log:
  "wp (wait_gpio E GPIO_RESP high)
     (\<lambda>_ t. \<exists>n. hs_log (io t) = hs_log (io s) @ replicate n (Resp (\<not> high)) @ [Resp high]) (\<lambda>_ _. True) s"
  unfolding wait_gpio_def
proof (rule wp_loopM [where I = "\<lambda>_ t. \<exists>n. hs_log (io t) = hs_log (io s) @ replicate n (Resp (\<not> high))"])
  show "\<exists>n. hs_log (io s) = hs_log (io s) @ replicate n (Resp (\<not> high))" by (rule exI [of _ 0]) simp
next
  fix a :: unit and t
  assume "\<exists>n. hs_log (io t) = hs_log (io s) @ replicate n (Resp (\<not> high))"
  then show "wp (bind (chip_gpio_get_value E GPIO_RESP) (\<lambda>v. return (if (v \<noteq> 0) = high then Inr () else Inl ())))
     (\<lambda>r t. case r of Inl a' \<Rightarrow> \<exists>n. hs_log (io t) = hs_log (io s) @ replicate n (Resp (\<not> high))
        | Inr b \<Rightarrow> \<exists>n. hs_log (io t) = hs_log (io s) @ replicate n (Resp (\<not> high)) @ [Resp high]) (\<lambda>_ _. True) t"
    by (auto simp: chip_gpio_get_value_def wp_simps hs_log_Cons bit_iff_and_push_bit_not_eq_0 replicate_append_same
        intro: exI [of _ "Suc n" for n])
qed simp_all


lemma flush_log: "wp (chip_dbgflush E) (\<lambda>_ t. hs_log (io t) = hs_log (io s)) (\<lambda>_ _. True) s"
  unfolding chip_dbgflush_def poll_reg_def
  by (rule wp_loopM [where I = "\<lambda>_ t. hs_log (io t) = hs_log (io s)"])
    (auto simp: wp_simps hs_log_Cons GPIO_BASE_def)

text \<open>
  The status is put up first; the request is raised only after the response was seen low, withdrawn only after the
  response was seen high, and the handshake is over when the response is low again.
\<close>

theorem handshake_sequence:
  "chip_handshake_boot_status E status s = Ret () t \<Longrightarrow>
   \<exists>a b c. hs_log (io t) = hs_log (io s) @ [Status (status \<noteq> 0)] @
     replicate a (Resp True) @ [Resp False, Req True] @
     replicate b (Resp False) @ [Resp True, Req False] @
     replicate c (Resp True) @ [Resp False]"
proof -
  assume "chip_handshake_boot_status E status s = Ret () t"
  then obtain u0 u1 u2 u3 u4 where "chip_gpio_set_value GPIO_TEST_STATUS
       (if status \<noteq> 0 then GPIO_TEST_STATUS_FAIL else GPIO_TEST_STATUS_OK) s = Ret () u0"
    and f: "chip_dbgflush E u0 = Ret () u1" and w1: "wait_gpio E GPIO_RESP False u1 = Ret () u2"
    and w2: "wait_gpio E GPIO_RESP True (u2\<lparr>io := WrReg (GPIO_BASE + 8) (push_bit 16 1) # io u2\<rparr>) = Ret () u3"
    and w3: "wait_gpio E GPIO_RESP False (u3\<lparr>io := WrReg (GPIO_BASE + 0xc) (push_bit 16 1) # io u3\<rparr>) = Ret () t"
    unfolding chip_handshake_boot_status_def chip_handshake_with_test_controller_def
    by (elim bind_eq_RetE) (auto simp: chip_gpio_set_value_def putreg32_def)
  moreover from wp_RetD [OF flush_log f] have "hs_log (io u1) = hs_log (io u0)" .
  moreover obtain a b c where
    "hs_log (io u2) = hs_log (io u1) @ replicate a (Resp True) @ [Resp False]"
    "hs_log (io u3) = hs_log (WrReg (GPIO_BASE + 8) (push_bit 16 1) # io u2) @ replicate b (Resp False) @ [Resp True]"
    "hs_log (io t) = hs_log (WrReg (GPIO_BASE + 0xc) (push_bit 16 1) # io u3) @ replicate c (Resp True) @ [Resp False]"
    using wp_RetD [OF wait_gpio_log w1] wp_RetD [OF wait_gpio_log w2] wp_RetD [OF wait_gpio_log w3] by auto
  ultimately show ?thesis
    by (intro exI [of _ a] exI [of _ b] exI [of _ c])
      (auto simp: hs_log_Cons chip_gpio_set_value_def putreg32_def GPIO_BASE_def split: if_splits)
qed

end
