(* ===== verification/Standby.thy ===== *)
theory Standby
  imports Trace Crypto
begin

text \<open>
  Standby and resume on the ES3 chip: the sequence that later firmware runs in work RAM
  (\<^verbatim>\<open>chips/es3tsb/src/es3_workram_standby.c\<close>), the two routines of the ROM around the loss of power
  (\<^verbatim>\<open>chips/es3tsb/src/es3_standby.S\<close>, straight-line assembly), the decision between resuming and a cold boot at
  the reset entry (\<^verbatim>\<open>__start\<close> of \<^verbatim>\<open>chips/tsb/src/boot.S\<close>) and the firmware's side of the agreement on where to
  resume (\<^verbatim>\<open>enter_standby\<close> of \<^verbatim>\<open>apps/test3rdstage/src/start.c\<close>). Debug messages are those of the production
  build, that is none; delays only take time. The theory shows in which order the power registers are
  operated, that the chip powers down only with the UniPro clock off, that a resume jumps only to a
  confirmed address with the secrets locked and only once, and that resuming takes the firmware back to the address
  it asked for.
\<close>

section \<open>Registers\<close>

abbreviation (input) "ISO_EN \<equiv> 0x40090000 :: u32"
abbreviation (input) "ISO_FOR_IO_EN \<equiv> 0x40090004 :: u32"
abbreviation (input) "RETSRAMRET \<equiv> 0x40090010 :: u32"
abbreviation (input) "RETSRAMCENCONT \<equiv> 0x40090014 :: u32"
abbreviation (input) "RETSRAMCLKCONT \<equiv> 0x40090018 :: u32"
abbreviation (input) "HB8CLK_EN \<equiv> 0x4009001c :: u32"
abbreviation (input) "WAKEUPSRC \<equiv> 0x40090024 :: u32"
abbreviation (input) "BOOTRET_O \<equiv> 0x4009002c :: u32"
abbreviation (input) "RETFFSAVE \<equiv> 0x40090040 :: u32"
abbreviation (input) "RETFFSTR \<equiv> 0x40090044 :: u32"
abbreviation (input) "UNIPRO_CLK_EN \<equiv> 0x40000e10 :: u32"
abbreviation (input) "SOFTRESETRELEASE1 \<equiv> 0x40000104 :: u32"
abbreviation (input) "SRSTRELEASE_UNIPRO_SYSRESET_N \<equiv> 4 :: u32"
abbreviation (input) "TSB_SCM_CLOCKENABLE1 \<equiv> 0x40000304 :: u32"
abbreviation (input) "CE_UNIPRO_SYSCLK \<equiv> 4 :: u32"
abbreviation (input) "TSB_CLK_UNIPROSYS \<equiv> 0x01000002 :: u32"
abbreviation (input) "TSB_HIBERNATE_ENTER_REQ \<equiv> 0xd030 :: u16"
abbreviation (input) "TSB_HIBERNATE_ENTER_IND \<equiv> 0xd031 :: u16"
abbreviation (input) "TSB_HIBERNATE_EXIT_REQ \<equiv> 0xd032 :: u16"
abbreviation (input) "TSB_HIBERNATE_EXIT_IND \<equiv> 0xd033 :: u16"
abbreviation (input) "EXIT_REQ_DENIED \<equiv> 2 :: u32"
abbreviation (input) "TEST_WAKEUPSRC \<equiv> 0x1111 :: u32"
abbreviation (input) "EBUSY \<equiv> 16 :: int"

section \<open>Hibernating the link\<close>

text \<open>\<^verbatim>\<open>do { rc = chip_unipro_attr_read(attr, &tempval, 0, ATTR_LOCAL); } while (!rc && tempval == 0);\<close>\<close>

definition wait_indication :: "env \<Rightarrow> u16 \<Rightarrow> ('a machine_scheme, int) prog" where
  "wait_indication E attr =
     loopM (\<lambda>_. bind (chip_unipro_attr_read E attr 0 False) (\<lambda>(rc, tempval).
       return (if rc = 0 \<and> tempval = 0 then Inl () else Inr rc))) ()"

definition hold_cport :: "nat \<Rightarrow> ('a machine_scheme, unit) prog" where
  "hold_cport cportid =
     (let tx_reset_offset = TX_SW_RESET_00 + push_bit 2 (word_of_nat cportid);
          rx_reset_offset = RX_SW_RESET_00 + push_bit 2 (word_of_nat cportid)
      in bind (putreg32 CPORT_SW_RESET_BITS (AIO_UNIPRO_BASE + tx_reset_offset)) (\<lambda>_.
         putreg32 CPORT_SW_RESET_BITS (AIO_UNIPRO_BASE + rx_reset_offset)))"

definition hold_cports :: "env \<Rightarrow> ('a machine_scheme, unit) prog" where
  "hold_cports E = seqM (map hold_cport [0..<unat (cport_max E)])"

definition chip_enter_hibern8_client :: "env \<Rightarrow> ('a machine_scheme, int) prog" where
  "chip_enter_hibern8_client E =
     bind (wait_indication E TSB_HIBERNATE_ENTER_IND) (\<lambda>rc.
     if rc \<noteq> 0 then return rc else bind (hold_cports E) (\<lambda>_. return 0))"

definition request_exit :: "env \<Rightarrow> unit \<Rightarrow> ('a machine_scheme, unit + int) prog" where
  "request_exit E = (\<lambda>_.
     bind (chip_unipro_attr_write E TSB_HIBERNATE_EXIT_REQ 1 0 False) (\<lambda>rc.
     if rc \<noteq> 0 then return (Inr rc)
     else
       bind (chip_unipro_attr_read E TSB_HIBERNATE_EXIT_REQ 0 False) (\<lambda>(rc, tempval).
       if rc \<noteq> 0 then return (Inr rc)
       else if tempval \<noteq> EXIT_REQ_DENIED then return (Inr 0)
       else return (Inl ()))))"

definition chip_exit_hibern8_client :: "env \<Rightarrow> ('a machine_scheme, int) prog" where
  "chip_exit_hibern8_client E =
     bind (tsb_clk_enable TSB_CLK_UNIPROSYS) (\<lambda>_.
     bind (loopM (request_exit E) ()) (\<lambda>rc.
     if rc \<noteq> 0 then return rc
     else wait_indication E TSB_HIBERNATE_EXIT_IND))"

definition enter_hibern8 :: "env \<Rightarrow> ('a machine_scheme, int) prog" where
  "enter_hibern8 E =
     bind (hold_cports E) (\<lambda>_.
     bind (chip_unipro_attr_write E TSB_HIBERNATE_ENTER_REQ 1 0 False) (\<lambda>rc.
     if rc \<noteq> 0 then return rc
     else wait_indication E TSB_HIBERNATE_ENTER_IND))"

definition chip_enter_hibern8_server :: "env \<Rightarrow> ('a machine_scheme, int) prog" where
  "chip_enter_hibern8_server E =
     bind (enter_hibern8 E) (\<lambda>_. wait_indication E TSB_HIBERNATE_EXIT_IND)"

section \<open>Powering down\<close>

text \<open>The last steps in ROM; the loop in which the power goes is \<open>Hung\<close>.\<close>

definition chip_enter_standby :: "env \<Rightarrow> ('a machine_scheme, int) prog" where
  "chip_enter_standby E =
     bind (getreg32 E TSB_SCM_CLOCKENABLE1) (\<lambda>r0.
     if r0 AND CE_UNIPRO_SYSCLK \<noteq> 0 then return (- EBUSY)
     else
       bind (putreg32 1 RETSRAMCENCONT) (\<lambda>_.
       bind (putreg32 0 RETSRAMCLKCONT) (\<lambda>_.
       bind (putreg32 1 RETSRAMRET) (\<lambda>_.
       bind (putreg32 1 ISO_FOR_IO_EN) (\<lambda>_.
       bind (putreg32 1 ISO_EN) (\<lambda>_.
       stop_with Hung))))))"

text \<open>
  \<open>client\<close> is the build in which the other side starts the hibernation
  (\<^verbatim>\<open>_SPECIAL_TEST == SPECIAL_GBBOOT_SERVER_STANDBY\<close>). The pointer fetched from the shared functions is called
  as it is.
\<close>

definition standby_sequence :: "env \<Rightarrow> bool \<Rightarrow> ('a crypto_scheme, int) prog" where
  "standby_sequence E client =
     bind (putreg32 TEST_WAKEUPSRC WAKEUPSRC) (\<lambda>_.
     bind (if client then chip_enter_hibern8_client E else enter_hibern8 E) (\<lambda>_.
     bind (poll_reg E UNIPRO_CLK_EN (\<lambda>v. v = 0)) (\<lambda>_.
     bind (tsb_clk_disable TSB_CLK_UNIPROSYS) (\<lambda>_.
     bind (putreg32 0 HB8CLK_EN) (\<lambda>_.
     bind (putreg32 1 RETFFSAVE) (\<lambda>_.
     bind (putreg32 0 RETFFSAVE) (\<lambda>_.
     bind (get_shared_function SHARED_FUNCTION_ENTER_STANDBY) (\<lambda>enter_standby_func.
     bind (assert_or_fault (enter_standby_func = Some Enter_standby)) (\<lambda>_.
     chip_enter_standby E)))))))))"

text \<open>The data for the resume are the last 12 bytes of the communication area.\<close>

definition resume_data :: "env \<Rightarrow> u32" where
  "resume_data E = communication_area E + 1012"

definition ram_word :: "(u32 \<Rightarrow> u8) \<Rightarrow> u32 \<Rightarrow> u32" where
  "ram_word m a = get_u32 (map (\<lambda>i. m (a + word_of_nat i)) [0..<4]) 0"

definition put_ram_word :: "u32 \<Rightarrow> u32 \<Rightarrow> ('a machine_scheme, unit) prog" where
  "put_ram_word a v = modify (\<lambda>s. s\<lparr>ram := store_ram a (u32_bytes v) (ram s)\<rparr>)"

definition enter_standby :: "env \<Rightarrow> bool \<Rightarrow> u32 \<Rightarrow> ('a crypto_scheme, int) prog" where
  "enter_standby E client resume_point =
     bind (put_ram_word (resume_data E) 1) (\<lambda>_.
     bind (put_ram_word (resume_data E + 4) resume_point) (\<lambda>_.
     bind (put_ram_word (resume_data E + 8) (NOT resume_point)) (\<lambda>_.
     standby_sequence E client)))"

section \<open>Coming back\<close>

text \<open>The ROM's part; \<open>cold_boot\<close> is the rest of the start-up code.\<close>

definition resume_from_standby :: "env \<Rightarrow> ('a machine_scheme, unit) prog \<Rightarrow> ('a machine_scheme, unit) prog" where
  "resume_from_standby E cold_boot =
     bind (putreg32 0 RETSRAMRET) (\<lambda>_.
     bind (putreg32 1 RETSRAMCLKCONT) (\<lambda>_.
     bind (putreg32 0 RETSRAMCENCONT) (\<lambda>_.
     bind (gets (\<lambda>s. ram_word (ram s) (resume_data E))) (\<lambda>r0.
     bind (gets (\<lambda>s. ram_word (ram s) (resume_data E + 4))) (\<lambda>r1.
     bind (gets (\<lambda>s. ram_word (ram s) (resume_data E + 8))) (\<lambda>r4.
     if r1 \<noteq> NOT r4 then cold_boot
     else
       bind (isaa_write TSB_ISAA_DISABLE_IMS_ACCESS 1) (\<lambda>_.
       bind (isaa_write TSB_ISAA_DISABLE_CMS_ACCESS 1) (\<lambda>_.
       bind (if r0 AND 1 \<noteq> 0 then isaa_write TSB_ISAA_JTAG_DISABLE 1 else skip) (\<lambda>_.
       bind (put_ram_word (resume_data E) 0) (\<lambda>_.
       bind (put_ram_word (resume_data E + 4) 0) (\<lambda>_.
       stop_with (Jumped (r1 OR 1)))))))))))))"

definition start :: "env \<Rightarrow> ('a machine_scheme, unit) prog \<Rightarrow> ('a machine_scheme, unit) prog" where
  "start E cold_boot =
     bind (getreg32 E BOOTRET_O) (\<lambda>r0.
     if r0 AND 1 \<noteq> 0 then resume_from_standby E cold_boot else cold_boot)"

definition resume_sequence_in_workram :: "env \<Rightarrow> ('a machine_scheme, unit) prog" where
  "resume_sequence_in_workram E =
     bind (putreg32 SRSTRELEASE_UNIPRO_SYSRESET_N SOFTRESETRELEASE1) (\<lambda>_.
     bind (putreg32 1 RETFFSTR) (\<lambda>_.
     bind (putreg32 0 RETFFSTR) (\<lambda>_.
     bind (putreg32 1 HB8CLK_EN) (\<lambda>_.
     bind chip_init (\<lambda>_.
     bind (chip_exit_hibern8_client E) (\<lambda>_.
     bind (putreg32 0 ISO_FOR_IO_EN) (\<lambda>_.
     putreg32 1 BOOTRET_O)))))))"

section \<open>Words in RAM\<close>

lemma store_word: "store_ram a (u32_bytes v) m =
    m(a := ucast v, a + 1 := ucast (drop_bit 8 v), a + 2 := ucast (drop_bit 16 v), a + 3 := ucast (drop_bit 24 v))"
  by (simp add: store_ram_def for_loop_def u32_bytes_def upt_rec)

lemma ram_word_bytes: "ram_word m a = get_u32 [m a, m (a + 1), m (a + 2), m (a + 3)] 0"
  by (simp add: ram_word_def upt_rec)

lemma ram_word_store [simp]: "ram_word (store_ram a (u32_bytes v) m) a = v"
  using get_u32_u32_bytes [of "[]" v "[]", unfolded u32_bytes_def] by (simp add: ram_word_bytes store_word)

text \<open>The three words of the resume data do not overlap.\<close>

lemma ram_word_apart [simp]:
  "ram_word (store_ram (a + 4) (u32_bytes v) m) a = ram_word m a"
  "ram_word (store_ram (a + 8) (u32_bytes v) m) a = ram_word m a"
  "ram_word (store_ram a (u32_bytes v) m) (a + 4) = ram_word m (a + 4)"
  "ram_word (store_ram (a + 8) (u32_bytes v) m) (a + 4) = ram_word m (a + 4)"
  "ram_word (store_ram a (u32_bytes v) m) (a + 8) = ram_word m (a + 8)"
  "ram_word (store_ram (a + 4) (u32_bytes v) m) (a + 8) = ram_word m (a + 8)"
  by (simp_all add: ram_word_bytes store_word add.assoc)

lemma wp_put_ram_word [wp_simps]:
  "wp (put_ram_word a v) Q K s = Q () (s\<lparr>ram := store_ram a (u32_bytes v) (ram s)\<rparr>)"
  by (simp add: put_ram_word_def wp_modify)

section \<open>The decision at reset\<close>

text \<open>What the ROM does on the way back into the firmware, newest first, after the address has been confirmed.\<close>

definition locked_events :: "bool \<Rightarrow> io_event list" where
  "locked_events jtag =
     (if jtag then [WrReg (ISAA_BASE + TSB_ISAA_JTAG_DISABLE) 1] else []) @
     [WrReg (ISAA_BASE + TSB_ISAA_DISABLE_CMS_ACCESS) 1, WrReg (ISAA_BASE + TSB_ISAA_DISABLE_IMS_ACCESS) 1,
      WrReg RETSRAMCENCONT 0, WrReg RETSRAMCLKCONT 1, WrReg RETSRAMRET 0]"

lemma resume_from_standby_cases:
  "resume_from_standby E cold_boot s =
     (if ram_word (ram s) (resume_data E + 4) \<noteq> NOT (ram_word (ram s) (resume_data E + 8))
      then cold_boot (s\<lparr>io := [WrReg RETSRAMCENCONT 0, WrReg RETSRAMCLKCONT 1, WrReg RETSRAMRET 0] @ io s\<rparr>)
      else Stop (Jumped (ram_word (ram s) (resume_data E + 4) OR 1))
        (s\<lparr>io := locked_events (ram_word (ram s) (resume_data E) AND 1 \<noteq> 0) @ io s,
           ram := store_ram (resume_data E + 4) (u32_bytes 0) (store_ram (resume_data E) (u32_bytes 0) (ram s))\<rparr>))"
  by (simp add: resume_from_standby_def locked_events_def isaa_write_def putreg32_def put_ram_word_def gets_def
      modify_def stop_with_def skip_def return_def bind_def)

text \<open>From this state the chip starts afresh, with its RAM as it is; or it goes back to address \<open>a\<close>.\<close>

definition cold_boots :: "env \<Rightarrow> 'a machine_scheme \<Rightarrow> bool" where
  "cold_boots E s \<longleftrightarrow> (\<forall>cold_boot. \<exists>u. only_io s u \<and> start E cold_boot s = cold_boot u)"

definition resumes_at :: "env \<Rightarrow> 'a machine_scheme \<Rightarrow> u32 \<Rightarrow> 'a machine_scheme \<Rightarrow> bool" where
  "resumes_at E s a t \<longleftrightarrow> (\<forall>cold_boot. start E cold_boot s = Stop (Jumped a) t)"

lemma start_cases:
  "start E cold_boot s =
     (if dev E (io s) BOOTRET_O AND 1 = 0 then cold_boot (s\<lparr>io := [RdReg BOOTRET_O (dev E (io s) BOOTRET_O)] @ io s\<rparr>)
      else resume_from_standby E cold_boot (s\<lparr>io := RdReg BOOTRET_O (dev E (io s) BOOTRET_O) # io s\<rparr>))"
  by (simp add: start_def getreg32_def Let_def bind_def)

lemma only_io_append: "only_io s (s\<lparr>io := ev @ io s\<rparr>)"
  by (auto simp: only_io_def)

lemma cold_boots_if:
  assumes "dev E (io s) BOOTRET_O AND 1 = 0 \<or>
     ram_word (ram s) (resume_data E + 4) \<noteq> NOT (ram_word (ram s) (resume_data E + 8))"
  shows "cold_boots E s"
  unfolding cold_boots_def
proof (intro allI)
  fix cold_boot :: "('a machine_scheme, unit) prog"
  let ?r = "RdReg BOOTRET_O (dev E (io s) BOOTRET_O)"
  show "\<exists>u. only_io s u \<and> start E cold_boot s = cold_boot u"
  proof (cases "dev E (io s) BOOTRET_O AND 1 = 0")
    case True
    with only_io_append [of s "[?r]"] show ?thesis by (auto simp: start_cases)
  next
    case False
    with assms only_io_append [of s "[WrReg RETSRAMCENCONT 0, WrReg RETSRAMCLKCONT 1, WrReg RETSRAMRET 0, ?r]"]
    show ?thesis by (auto simp: start_cases resume_from_standby_cases)
  qed
qed

text \<open>
  C33: After reset the chip resumes exactly if the flag for a return from standby is set and the stored address is
  confirmed by its stored complement. It then jumps to that address with the access to both secrets disabled, and with JTAG
  disabled if the firmware asked for it, and does so only once: the next reset starts afresh unless the address was
  0. In every other case it starts afresh with the memory untouched.
\<close>

theorem resume_guarded:
  "if dev E (io s) BOOTRET_O AND 1 = 0 \<or>
      ram_word (ram s) (resume_data E + 4) \<noteq> NOT (ram_word (ram s) (resume_data E + 8))
   then cold_boots E s
   else \<exists>t. resumes_at E s (ram_word (ram s) (resume_data E + 4) OR 1) t \<and>
      io t = locked_events (ram_word (ram s) (resume_data E) AND 1 \<noteq> 0) @
        [RdReg BOOTRET_O (dev E (io s) BOOTRET_O)] @ io s \<and>
      (ram_word (ram s) (resume_data E + 4) = 0 \<or> cold_boots E t)"
proof (cases "dev E (io s) BOOTRET_O AND 1 = 0 \<or>
      ram_word (ram s) (resume_data E + 4) \<noteq> NOT (ram_word (ram s) (resume_data E + 8))")
  case True
  with cold_boots_if [OF True] show ?thesis by simp
next
  case False
  let ?a = "ram_word (ram s) (resume_data E + 4)" and ?v = "dev E (io s) BOOTRET_O"
  let ?j = "ram_word (ram s) (resume_data E) AND 1 \<noteq> 0"
  let ?t = "s\<lparr>io := locked_events ?j @ [RdReg BOOTRET_O ?v] @ io s,
       ram := store_ram (resume_data E + 4) (u32_bytes 0) (store_ram (resume_data E) (u32_bytes 0) (ram s))\<rparr>"
  from False have r: "?v AND 1 \<noteq> 0" "?a = NOT (ram_word (ram s) (resume_data E + 8))" by blast+
  then have "resumes_at E s (?a OR 1) ?t"
    by (simp add: resumes_at_def start_cases resume_from_standby_cases)
  moreover have "?a = 0 \<or> cold_boots E ?t"
    using r(2) by (cases "?a = 0") (auto intro!: cold_boots_if)
  ultimately have "\<exists>t. resumes_at E s (?a OR 1) t \<and> io t = locked_events ?j @ [RdReg BOOTRET_O ?v] @ io s \<and>
      (?a = 0 \<or> cold_boots E t)"
    by (intro exI [of _ ?t]) simp
  with False show ?thesis by (simp only: if_False)
qed

theorem resume_guarded_witness:
  "let E = es3_env (\<lambda>_ _. 1);
       s = \<lparr>io = [], ram = store_ram (resume_data E + 8) (u32_bytes (NOT 0x10000100))
             (store_ram (resume_data E + 4) (u32_bytes 0x10000100) (\<lambda>_. 0))\<rparr>
   in \<exists>t. resumes_at E s 0x10000101 t \<and> io t = locked_events False @ [RdReg BOOTRET_O 1] \<and> cold_boots E t"
proof -
  let ?E = "es3_env (\<lambda>_ _. 1)"
  let ?s = "\<lparr>io = [], ram = store_ram (resume_data ?E + 8) (u32_bytes (NOT 0x10000100))
             (store_ram (resume_data ?E + 4) (u32_bytes 0x10000100) (\<lambda>_. 0))\<rparr>"
  have "dev ?E h a = 1" for h a by (simp add: es3_env_def)
  moreover have "ram_word (\<lambda>_. 0) a = 0" for a by (simp add: ram_word_bytes get_u32_def)
  ultimately show ?thesis
    using resume_guarded [of ?E ?s] by (auto simp: Let_def)
qed

section \<open>The way down\<close>

text \<open>
  The power sequence: writes to the registers of the power management unit, gating of the second group of clocks, and
  looks at the two registers that tell whether the UniPro clock runs, oldest first.
\<close>

fun pm_word :: "io_event \<Rightarrow> (u32 \<times> u32) option" where
  "pm_word (WrReg a v) = (if a AND 0xFFFFFF00 = ISO_EN \<or> a = 0x40000204 then Some (a, v) else None)"
| "pm_word (RdReg a v) = (if a = UNIPRO_CLK_EN \<or> a = TSB_SCM_CLOCKENABLE1 then Some (a, v) else None)"
| "pm_word (WrReg8 a v) = None"

definition pm_log :: "io_event list \<Rightarrow> (u32 \<times> u32) list" where
  "pm_log h = rev (List.map_filter pm_word h)"

lemma pm_log_Cons: "pm_log (e # h) = pm_log h @ (case pm_word e of None \<Rightarrow> [] | Some w \<Rightarrow> [w])"
  by (simp add: pm_log_def map_filter_simps split: option.split)

text \<open>A part of the sequence that leaves the power alone.\<close>

definition unpowered :: "'a machine_scheme \<Rightarrow> 'a machine_scheme \<Rightarrow> bool" where
  "unpowered s t \<longleftrightarrow> (\<exists>ev. t = s\<lparr>io := ev @ io s\<rparr> \<and> List.map_filter pm_word ev = [])"

lemma unpowered_trans: "unpowered s t \<Longrightarrow> unpowered t u \<Longrightarrow> unpowered s u"
proof -
  assume "unpowered s t" "unpowered t u"
  then obtain ev ev' where "t = s\<lparr>io := ev @ io s\<rparr>" "List.map_filter pm_word ev = []"
    "u = t\<lparr>io := ev' @ io t\<rparr>" "List.map_filter pm_word ev' = []" unfolding unpowered_def by blast
  then show ?thesis
    unfolding unpowered_def by (intro exI [of _ "ev' @ ev"]) (simp add: map_filter_def)
qed

interpretation unpowered: state_rel unpowered
proof unfold_locales
  fix s :: "'a machine_scheme"
  show "unpowered s s" unfolding unpowered_def by (rule exI [of _ "[]"]) (simp add: map_filter_simps)
qed (rule unpowered_trans)

lemma unpowered_step: "pm_word e = None \<Longrightarrow> unpowered s (s\<lparr>io := e # io s\<rparr>)"
  unfolding unpowered_def by (rule exI [of _ "[e]"]) (simp add: map_filter_simps)

lemma unpowered_log: "unpowered s t \<Longrightarrow> pm_log (io t) = pm_log (io s)"
  by (auto simp: unpowered_def pm_log_def map_filter_def)

lemma unpowered_registers:
  "a \<noteq> UNIPRO_CLK_EN \<Longrightarrow> a \<noteq> TSB_SCM_CLOCKENABLE1 \<Longrightarrow> preserves unpowered (getreg32 E a)"
  "a AND 0xFFFFFF00 \<noteq> ISO_EN \<Longrightarrow> a \<noteq> 0x40000204 \<Longrightarrow> preserves unpowered (putreg32 v a)"
  by (auto intro!: preservesI unpowered_step simp: getreg32_def putreg32_def Let_def)

lemma unpowered_poll: "a \<noteq> UNIPRO_CLK_EN \<Longrightarrow> a \<noteq> TSB_SCM_CLOCKENABLE1 \<Longrightarrow> preserves unpowered (poll_reg E a ok)"
  unfolding poll_reg_def by (intro unpowered.pres_intros unpowered_registers)

lemma unpowered_attr:
  "preserves unpowered (chip_unipro_attr_read E a sel peer)" "preserves unpowered (chip_unipro_attr_write E a v sel peer)"
  unfolding chip_unipro_attr_read_def chip_unipro_attr_write_def unipro_attr_access_def tsb_unipro_read_def
    tsb_unipro_write_def
  by (intro unpowered.pres_intros unpowered_registers unpowered_poll, simp_all add: AIO_UNIPRO_BASE_def)+

lemma unpowered_wait: "preserves unpowered (wait_indication E a)"
  unfolding wait_indication_def by (intro unpowered.pres_intros unpowered_attr)

lemma unpowered_hold:
  assumes "cport_max E \<le> 4"
  shows "preserves unpowered (hold_cports E)"
proof -
  have hold: "preserves unpowered (hold_cport i)" if "i < 4" for i
  proof -
    from that have "i = 0 \<or> i = 1 \<or> i = 2 \<or> i = 3" by arith
    then show ?thesis
      unfolding hold_cport_def Let_def
      by (intro unpowered.pres_intros unpowered_registers) (auto simp: AIO_UNIPRO_BASE_def)
  qed
  have seq: "preserves unpowered (seqM ms)" if "\<And>m. m \<in> set ms \<Longrightarrow> preserves unpowered m" for ms
    using that by (induction ms) (auto intro: unpowered.pres_bind unpowered.pres_skip)
  have "unat (cport_max E) \<le> 4" using assms by (simp add: word_le_nat_alt)
  then show ?thesis unfolding hold_cports_def by (intro seq) (auto intro!: hold)
qed

lemma unpowered_hibern8:
  assumes "cport_max E \<le> 4"
  shows "preserves unpowered (enter_hibern8 E)" "preserves unpowered (chip_enter_hibern8_client E)"
  unfolding enter_hibern8_def chip_enter_hibern8_client_def
  by (intro unpowered.pres_intros unpowered_attr unpowered_wait unpowered_hold assms)+

lemma wait_clock_off:
  "wp (poll_reg E UNIPRO_CLK_EN (\<lambda>v. v = 0))
     (\<lambda>_ t. \<exists>vs. 0 \<notin> set vs \<and> pm_log (io t) = pm_log (io s) @ map (Pair UNIPRO_CLK_EN) vs @ [(UNIPRO_CLK_EN, 0)])
     (\<lambda>_ t. t = s) s" for s :: "'a machine_scheme"
  unfolding poll_reg_def
proof (rule wp_loopM [where I = "\<lambda>_ t. \<exists>vs. 0 \<notin> set vs \<and> pm_log (io t) = pm_log (io s) @ map (Pair UNIPRO_CLK_EN) vs"])
  fix a :: unit and t :: "'a machine_scheme"
  assume "\<exists>vs. 0 \<notin> set vs \<and> pm_log (io t) = pm_log (io s) @ map (Pair UNIPRO_CLK_EN) vs"
  then obtain vs where vs: "0 \<notin> set vs" "pm_log (io t) = pm_log (io s) @ map (Pair UNIPRO_CLK_EN) vs" by blast
  let ?v = "dev E (io t) UNIPRO_CLK_EN"
  show "wp (bind (getreg32 E UNIPRO_CLK_EN) (\<lambda>v. return (if v = 0 then Inr () else Inl ())))
     (\<lambda>r t. case r of
         Inl a' \<Rightarrow> \<exists>vs. 0 \<notin> set vs \<and> pm_log (io t) = pm_log (io s) @ map (Pair UNIPRO_CLK_EN) vs
       | Inr b \<Rightarrow> \<exists>vs. 0 \<notin> set vs \<and>
           pm_log (io t) = pm_log (io s) @ map (Pair UNIPRO_CLK_EN) vs @ [(UNIPRO_CLK_EN, 0)])
     (\<lambda>_ t. t = s) t"
    using vs exI [of "\<lambda>ws. 0 \<notin> set ws \<and> map (Pair UNIPRO_CLK_EN) vs @ [(UNIPRO_CLK_EN, ?v)] = map (Pair UNIPRO_CLK_EN) ws"
      "vs @ [?v]"]
    by (auto simp: wp_simps pm_log_Cons)
qed (auto intro: exI [of _ "[]"])

text \<open>
  The chip is powered down when its last access isolated it. The sequence up to there, for the values \<open>vs\<close> in which
  the UniPro clock was still running and the state \<open>v\<close> of the clock gates at the end.
\<close>

definition powered_down :: "'a machine_scheme \<Rightarrow> bool" where
  "powered_down t \<longleftrightarrow> (\<exists>h. io t = WrReg ISO_EN 1 # h)"

definition standby_script :: "u32 list \<Rightarrow> u32 \<Rightarrow> (u32 \<times> u32) list" where
  "standby_script vs v =
     [(WAKEUPSRC, TEST_WAKEUPSRC)] @ map (Pair UNIPRO_CLK_EN) vs @
     [(UNIPRO_CLK_EN, 0), (0x40000204, 4), (HB8CLK_EN, 0), (RETFFSAVE, 1), (RETFFSAVE, 0), (TSB_SCM_CLOCKENABLE1, v),
      (RETSRAMCENCONT, 1), (RETSRAMCLKCONT, 0), (RETSRAMRET, 1), (ISO_FOR_IO_EN, 1), (ISO_EN, 1)]"

lemma standby_sequence_wp:
  fixes s :: "'a crypto_scheme"
  assumes "cport_max E \<le> 4"
  shows "wp (standby_sequence E client) (\<lambda>r _. r = - EBUSY)
    (\<lambda>_ t. \<not> powered_down t \<or> (\<exists>vs v. 0 \<notin> set vs \<and> v AND CE_UNIPRO_SYSCLK = 0 \<and>
       pm_log (io t) = pm_log (io s) @ standby_script vs v \<and> shared_functions s 4 = Some Enter_standby)) s"
proof -
  let ?s = "s\<lparr>io := WrReg WAKEUPSRC TEST_WAKEUPSRC # io s\<rparr>"
  have hib: "wp (if client then chip_enter_hibern8_client E else enter_hibern8 E)
      (\<lambda>_. unpowered ?s) (\<lambda>_. unpowered ?s) ?s"
    by (cases client) (auto intro!: preserves_gets_cases unpowered_hibern8 assms)
  have awake: "\<not> powered_down t" if "unpowered ?s t" for t
    using that by (auto simp: unpowered_def powered_down_def map_filter_def append_eq_Cons_conv)
  have log: "pm_log (io t) = pm_log (io s) @ [(WAKEUPSRC, TEST_WAKEUPSRC)]" "shared_functions t = shared_functions s"
    if "unpowered ?s t" for t
    using that unpowered_log [OF that] by (auto simp: pm_log_Cons unpowered_def)
  show ?thesis
    unfolding standby_sequence_def wp_bind wp_putreg32
  proof (rule wp_mono [OF hib], goal_cases)
    case (1 rc t)
    note t = awake [OF 1(2)] log [OF 1(2)]
    show ?case
    proof (rule wp_mono [OF wait_clock_off], goal_cases)
      case (1 a u)
      then obtain vs where vs: "0 \<notin> set vs"
        "pm_log (io u) = pm_log (io t) @ map (Pair UNIPRO_CLK_EN) vs @ [(UNIPRO_CLK_EN, 0)]" by blast
      from only_io_RetD [OF poll_reg_only_io 1(1)] have "shared_functions u = shared_functions t" by auto
      with vs t show ?case
        by (auto simp: wp_simps tsb_clk_disable_def scm_write_def SYSCTL_BASE_def CLK_OFFSET_def CLK_MASK_def
            get_shared_function_def chip_enter_standby_def powered_down_def pm_log_Cons standby_script_def)
    qed (use t(1) in simp)
  qed (use awake in auto)
qed

text \<open>Nothing before the ROM's part touches memory, so the firmware's wish is still there when the power goes.\<close>

lemma standby_only_io: "preserves only_io (standby_sequence E client)"
proof -
  have hold: "preserves only_io (hold_cports E)"
    unfolding hold_cports_def hold_cport_def Let_def by (rule seqM_only_io) (auto intro!: io_intros)
  have wait: "preserves only_io (wait_indication E a)" for a
    unfolding wait_indication_def by (intro io_intros attr_read_only_io)
  show ?thesis
    unfolding standby_sequence_def enter_hibern8_def chip_enter_hibern8_client_def chip_enter_standby_def
      get_shared_function_def
    by (intro io_intros hold wait attr_write_only_io poll_reg_only_io chip_only_io)
qed

definition resume_agreed :: "env \<Rightarrow> u32 \<Rightarrow> (u32 \<Rightarrow> u8) \<Rightarrow> bool" where
  "resume_agreed E p m \<longleftrightarrow> ram_word m (resume_data E) = 1 \<and> ram_word m (resume_data E + 4) = p \<and>
     ram_word m (resume_data E + 8) = NOT p"

lemma enter_standby_eq:
  "\<exists>m. resume_agreed E p m \<and> enter_standby E client p s = standby_sequence E client (s\<lparr>ram := m\<rparr>)"
  by (intro exI [of _ "store_ram (resume_data E + 8) (u32_bytes (NOT p))
      (store_ram (resume_data E + 4) (u32_bytes p) (store_ram (resume_data E) (u32_bytes 1) (ram s)))"])
    (simp add: resume_agreed_def enter_standby_def put_ram_word_def modify_def bind_def)

text \<open>
  The chip powers down only at the end of the whole sequence: after the UniPro clock was seen to stop, with its gate closed,
  and through the shared function of the ROM. A sequence that comes back reports that the clock is still on.
\<close>

theorem standby_order:
  assumes "cport_max E \<le> 4"
  shows "case enter_standby E client p s of
     Ret r t \<Rightarrow> r = - EBUSY
   | Stop k t \<Rightarrow> \<not> powered_down t \<or> (\<exists>vs v. 0 \<notin> set vs \<and> v AND CE_UNIPRO_SYSCLK = 0 \<and>
       pm_log (io t) = pm_log (io s) @ standby_script vs v \<and> shared_functions s 4 = Some Enter_standby)"
proof -
  obtain m where "enter_standby E client p s = standby_sequence E client (s\<lparr>ram := m\<rparr>)"
    using enter_standby_eq by blast
  with standby_sequence_wp [OF assms, of client "s\<lparr>ram := m\<rparr>"] show ?thesis
    by (auto simp: wp_def split: outcome.splits)
qed

text \<open>
  C34: When the firmware has asked to resume at an address and the chip has powered down, the next reset with the flag for
  a return from standby takes it back to that address, with the secrets and JTAG locked.
\<close>

theorem standby_resumes:
  assumes "enter_standby E client p s = Stop k t" and "powered_down t"
    and "dev E (io t) BOOTRET_O AND 1 \<noteq> 0"
  shows "\<exists>u. resumes_at E t (p OR 1) u \<and>
     io u = locked_events True @ [RdReg BOOTRET_O (dev E (io t) BOOTRET_O)] @ io t"
proof -
  obtain m where m: "resume_agreed E p m" "enter_standby E client p s = standby_sequence E client (s\<lparr>ram := m\<rparr>)"
    using enter_standby_eq by blast
  with assms(1) preserves_StopD [OF standby_only_io] have "only_io (s\<lparr>ram := m\<rparr>) t" by metis
  from only_io_ram [OF this] m(1) have "resume_agreed E p (ram t)" by simp
  with assms(3) show ?thesis
    by (simp add: resume_agreed_def resumes_at_def start_cases resume_from_standby_cases)
qed

section \<open>A run\<close>

text \<open>
  A chip in which every attribute access ends at once with status \<open>st\<close> and value 1, the UniPro clock is off, and the
  flag for a return from standby is set.
\<close>

definition standby_env :: "u32 \<Rightarrow> env" where
  "standby_env st = es3_env (\<lambda>h a.
     if a = AIO_UNIPRO_BASE + A2D_ATTRACS_INT_BEF \<or> a = AIO_UNIPRO_BASE + A2D_ATTRACS_DATA_STS_00 \<or> a = BOOTRET_O then 1
     else if a = AIO_UNIPRO_BASE + A2D_ATTRACS_STS_00 then st else 0)"

lemma standby_env_access:
  "\<exists>ev. unipro_attr_access (standby_env st) a v sel peer wr s = Ret (sint st, if wr then v else 1) (s\<lparr>io := ev @ io s\<rparr>)"
proof -
  have poll: "poll_reg (standby_env st) (AIO_UNIPRO_BASE + A2D_ATTRACS_INT_BEF) (\<lambda>v. v \<noteq> 0) u =
      Ret () (u\<lparr>io := RdReg (AIO_UNIPRO_BASE + A2D_ATTRACS_INT_BEF) 1 # io u\<rparr>)" for u :: "'a machine_scheme"
    unfolding poll_reg_def by (rule loopM_Inr) (simp add: getreg32_def prog_defs standby_env_def es3_env_def)
  have "\<exists>t. unipro_attr_access (standby_env st) a v sel peer wr s = Ret (sint st, if wr then v else 1) t"
    by (simp add: unipro_attr_access_def tsb_unipro_write_def tsb_unipro_read_def putreg32_def getreg32_def poll prog_defs)
      (simp add: standby_env_def es3_env_def AIO_UNIPRO_BASE_def return_def getreg32_def Let_def bind_def)
  with only_io_RetD [OF unipro_attr_access_only_io] show ?thesis by metis
qed

lemma standby_env_hibern8: "\<exists>ev. enter_hibern8 (standby_env st) s = Ret (sint st) (s\<lparr>io := ev\<rparr>)"
proof -
  let ?E = "standby_env st"
  obtain h where hold: "hold_cports ?E s = Ret () (s\<lparr>io := h\<rparr>)"
    by (simp add: hold_cports_def hold_cport_def standby_env_def es3_env_def putreg32_def Let_def upt_rec skip_def return_def)
  from standby_env_access [of st TSB_HIBERNATE_ENTER_REQ 1 0 False True "s\<lparr>io := h\<rparr>"]
  obtain h1 where wr: "chip_unipro_attr_write ?E TSB_HIBERNATE_ENTER_REQ 1 0 False (s\<lparr>io := h\<rparr>) =
      Ret (sint st) (s\<lparr>io := h1\<rparr>)" by (auto simp: chip_unipro_attr_write_def return_def)
  from standby_env_access [of st TSB_HIBERNATE_ENTER_IND 0 0 False False "s\<lparr>io := h1\<rparr>"]
  obtain h2 where "chip_unipro_attr_read ?E TSB_HIBERNATE_ENTER_IND 0 False (s\<lparr>io := h1\<rparr>) =
      Ret (sint st, 1) (s\<lparr>io := h2\<rparr>)" by (auto simp: chip_unipro_attr_read_def)
  then have "wait_indication ?E TSB_HIBERNATE_ENTER_IND (s\<lparr>io := h1\<rparr>) = Ret (sint st) (s\<lparr>io := h2\<rparr>)"
    unfolding wait_indication_def by (intro loopM_Inr) (simp add: return_def)
  with hold wr show ?thesis by (auto simp: enter_hibern8_def return_def)
qed

lemma standby_env_powers_down:
  assumes "shared_functions s 4 = Some Enter_standby"
  shows "\<exists>t. enter_standby (standby_env st) False p s = Stop Hung t \<and> powered_down t \<and> dev (standby_env st) (io t) BOOTRET_O = 1"
proof -
  obtain m where m: "enter_standby (standby_env st) False p s = standby_sequence (standby_env st) False (s\<lparr>ram := m\<rparr>)"
    using enter_standby_eq by blast
  have poll: "poll_reg (standby_env st) UNIPRO_CLK_EN (\<lambda>v. v = 0) u =
      Ret () (u\<lparr>io := RdReg UNIPRO_CLK_EN 0 # io u\<rparr>)" for u :: "'a crypto_scheme"
    unfolding poll_reg_def by (rule loopM_Inr)
      (simp add: getreg32_def prog_defs standby_env_def es3_env_def AIO_UNIPRO_BASE_def)
  obtain ev where ev: "enter_hibern8 (standby_env st) (s\<lparr>ram := m, io := WrReg WAKEUPSRC TEST_WAKEUPSRC # io s\<rparr>) =
      Ret (sint st) (s\<lparr>ram := m, io := ev\<rparr>)" using standby_env_hibern8 [of st "s\<lparr>ram := m, io := WrReg WAKEUPSRC TEST_WAKEUPSRC # io s\<rparr>"] by auto
  have clk: "dev (standby_env st) h TSB_SCM_CLOCKENABLE1 = 0" "dev (standby_env st) h BOOTRET_O = 1" for h
    by (simp_all add: standby_env_def es3_env_def AIO_UNIPRO_BASE_def)
  show ?thesis
    unfolding m standby_sequence_def
    using assms ev poll clk
    by (simp add: putreg32_def getreg32_def Let_def tsb_clk_disable_def scm_write_def get_shared_function_def
        chip_enter_standby_def powered_down_def gets_def assert_or_fault_def stop_with_def skip_def)
qed

lemma standby_state: "shared_functions (reset_crypto\<lparr>shared_functions := \<lambda>_. Some Enter_standby\<rparr>) 4 = Some Enter_standby"
  by simp

theorem standby_order_witness:
  "cport_max (standby_env 0) \<le> 4 \<and>
   (\<exists>t vs v. enter_standby (standby_env 0) False 0x10000100 (reset_crypto\<lparr>shared_functions := \<lambda>_. Some Enter_standby\<rparr>) =
      Stop Hung t \<and> pm_log (io t) = standby_script vs v)"
proof -
  let ?s = "reset_crypto\<lparr>shared_functions := \<lambda>_. Some Enter_standby\<rparr>"
  obtain t where t: "enter_standby (standby_env 0) False 0x10000100 ?s = Stop Hung t" "powered_down t"
    using standby_env_powers_down [OF standby_state] by blast
  have max: "cport_max (standby_env 0) \<le> 4" by (simp add: standby_env_def es3_env_def)
  from standby_order [OF max, where client = False and p = "0x10000100" and s = ?s] t show ?thesis
    by (simp add: max reset_crypto_def pm_log_def map_filter_simps) blast
qed

theorem standby_resumes_witness:
  "\<exists>t u. enter_standby (standby_env 0) False 0x10000100 (reset_crypto\<lparr>shared_functions := \<lambda>_. Some Enter_standby\<rparr>) =
     Stop Hung t \<and> resumes_at (standby_env 0) t 0x10000101 u \<and>
     WrReg (ISAA_BASE + TSB_ISAA_JTAG_DISABLE) 1 \<in> set (io u)"
proof -
  let ?s = "reset_crypto\<lparr>shared_functions := \<lambda>_. Some Enter_standby\<rparr>"
  obtain t where t: "enter_standby (standby_env 0) False 0x10000100 ?s = Stop Hung t" "powered_down t"
    "dev (standby_env 0) (io t) BOOTRET_O = 1"
    using standby_env_powers_down [OF standby_state] by blast
  from standby_resumes [OF t(1,2)] t(1,3) show ?thesis
    by (auto simp: locked_events_def)
qed

text \<open>
  The results of the hibernation are ignored: the chip is powered down even if every access to the attributes of the
  link fails.
\<close>

theorem hibernate_failure_ignored:
  assumes "shared_functions s 4 = Some Enter_standby"
  shows "(\<exists>u. enter_hibern8 (standby_env 7) s = Ret 7 u) \<and>
     (\<exists>t. enter_standby (standby_env 7) False p s = Stop Hung t \<and> powered_down t)"
  using standby_env_hibern8 [of 7 s] standby_env_powers_down [OF assms, of 7 p] by auto

section \<open>The way up\<close>

lemma wp_attr:
  "(\<And>r t. attr_log (io t) = attr_log (io s) @ [(True, attr_ctrl a sel peer False)] \<Longrightarrow> Q r t) \<Longrightarrow>
   wp (chip_unipro_attr_read E a sel peer) Q (\<lambda>_ _. True) s"
  "(\<And>r t. attr_log (io t) = attr_log (io s) @ set_words (a, v, sel, peer) \<Longrightarrow> P r t) \<Longrightarrow>
   wp (chip_unipro_attr_write E a v sel peer) P (\<lambda>_ _. True) s"
  unfolding wp_def by (auto split: outcome.split dest: attr_read_log attr_write_log)

lemma wait_indication_log:
  assumes "wait_indication E a s = Ret rc t"
  shows "\<exists>n. attr_log (io t) = attr_log (io s) @ replicate (Suc n) (True, attr_ctrl a 0 False False)"
proof -
  let ?w = "(True, attr_ctrl a 0 False False)"
  have "wp (wait_indication E a) (\<lambda>_ t. \<exists>n. attr_log (io t) = attr_log (io s) @ replicate (Suc n) ?w) (\<lambda>_ _. True) s"
    unfolding wait_indication_def
  proof (rule wp_loopM [where I = "\<lambda>_ t. \<exists>n. attr_log (io t) = attr_log (io s) @ replicate n ?w"], goal_cases)
    case (2 b u)
    then obtain n where n: "attr_log (io u) = attr_log (io s) @ replicate n ?w" by blast
    have "\<exists>n. attr_log (io u) @ [?w] = attr_log (io s) @ replicate (Suc n) ?w"
      using n by (intro exI [of _ n]) (simp add: replicate_append_same)
    then show ?case
      unfolding wp_bind
      by (intro wp_attr) (auto simp: wp_return split: prod.split simp del: replicate.simps)
  qed (auto intro: exI [of _ 0])
  with assms show ?thesis by (simp add: wp_def)
qed

text \<open>One request to leave hibernation and the look at its answer.\<close>

definition exit_words :: "(bool \<times> u32) list" where
  "exit_words = set_words (TSB_HIBERNATE_EXIT_REQ, 1, 0, False) @
     [(True, attr_ctrl TSB_HIBERNATE_EXIT_REQ 0 False False)]"

lemma request_exit_log:
  "wp (loopM (request_exit E) ())
     (\<lambda>rc t. rc \<noteq> 0 \<or> (\<exists>n. attr_log (io t) = attr_log (io s) @ concat (replicate (Suc n) exit_words))) (\<lambda>_ _. True) s"
proof (rule wp_loopM [where I = "\<lambda>_ t. \<exists>n. attr_log (io t) = attr_log (io s) @ concat (replicate n exit_words)"], goal_cases)
  case (2 b u)
  then obtain n where n: "attr_log (io u) = attr_log (io s) @ concat (replicate n exit_words)" by blast
  have "concat (replicate n exit_words) @ exit_words = concat (replicate n exit_words @ [exit_words])" by simp
  also have "\<dots> = concat (replicate (Suc n) exit_words)" by (simp only: replicate_append_same replicate.simps)
  finally have "attr_log (io u) @ set_words (TSB_HIBERNATE_EXIT_REQ, 1, 0, False) @
      [(True, attr_ctrl TSB_HIBERNATE_EXIT_REQ 0 False False)] = attr_log (io s) @ concat (replicate (Suc n) exit_words)"
    using n by (simp add: exit_words_def)
  then show ?case
    unfolding request_exit_def wp_bind
    by (intro wp_attr)
      (auto simp: wp_simps split: prod.split intro!: wp_attr simp del: replicate.simps set_words.simps)
qed (auto intro: exI [of _ 0])

text \<open>
  A hibernation that was left successfully: the request was repeated as long as it was denied, and then the indication
  was awaited.
\<close>

theorem exit_hibern8_exchange:
  assumes "chip_exit_hibern8_client E s = Ret 0 t"
  shows "\<exists>n m. attr_log (io t) = attr_log (io s) @ concat (replicate (Suc n) exit_words) @
     replicate (Suc m) (True, attr_ctrl TSB_HIBERNATE_EXIT_IND 0 False False)"
proof -
  let ?s = "s\<lparr>io := WrReg (SYSCTL_BASE + 0x304) 4 # io s\<rparr>"
  from assms obtain rc u where u: "loopM (request_exit E) () ?s = Ret rc u"
    and rest: "(if rc \<noteq> 0 then return rc else wait_indication E TSB_HIBERNATE_EXIT_IND) u = Ret 0 t"
    by (auto simp: chip_exit_hibern8_client_def tsb_clk_enable_def scm_write_def CLK_OFFSET_def CLK_MASK_def putreg32_def
        elim!: bind_eq_RetE)
  from rest have "rc = 0" "wait_indication E TSB_HIBERNATE_EXIT_IND u = Ret 0 t"
    by (auto simp: return_def split: if_splits)
  moreover have "attr_log (io ?s) = attr_log (io s)" by (simp add: attr_log_Cons AIO_UNIPRO_BASE_def SYSCTL_BASE_def)
  ultimately obtain n m where "attr_log (io u) = attr_log (io s) @ concat (replicate (Suc n) exit_words)"
    "attr_log (io t) = attr_log (io u) @ replicate (Suc m) (True, attr_ctrl TSB_HIBERNATE_EXIT_IND 0 False False)"
    using wp_RetD [OF request_exit_log u] wait_indication_log by metis
  then show ?thesis by (intro exI [of _ n] exI [of _ m]) simp
qed

text \<open>The power registers on the way up, whatever became of the link.\<close>

theorem resume_order:
  assumes "resume_sequence_in_workram E s = Ret () t"
  shows "pm_log (io t) = pm_log (io s) @
     [(RETFFSTR, 1), (RETFFSTR, 0), (HB8CLK_EN, 1), (ISO_FOR_IO_EN, 0), (BOOTRET_O, 1)]"
proof -
  have exit: "preserves unpowered (chip_exit_hibern8_client E)"
    unfolding chip_exit_hibern8_client_def tsb_clk_enable_def scm_write_def request_exit_def
    by (intro unpowered.pres_intros unpowered_attr unpowered_wait unpowered_registers)
      (simp_all add: SYSCTL_BASE_def CLK_OFFSET_def)
  have "wp (resume_sequence_in_workram E) (\<lambda>_ t. pm_log (io t) = pm_log (io s) @
     [(RETFFSTR, 1), (RETFFSTR, 0), (HB8CLK_EN, 1), (ISO_FOR_IO_EN, 0), (BOOTRET_O, 1)]) (\<lambda>_ _. True) s"
    unfolding resume_sequence_in_workram_def chip_init_def tsb_clk_init_def scm_write_def wp_bind wp_putreg32
    by (rule wp_mono [OF preserves_gets_cases [OF exit]])
      (auto dest!: unpowered_log simp: pm_log_Cons SYSCTL_BASE_def)
  with assms show ?thesis by (simp add: wp_def)
qed

end
