(* ===== verification/Es2.thy ===== *)
theory Es2
  imports Fakesvc Tftf Debug
begin

text \<open>
  The older chip revision ES2 (\<^verbatim>\<open>chips/es2tsb/src\<close>), as far as it differs from ES3: the UniPro driver with its
  fixups of the physical layer, the loader that reads the flash through the memory map, the advertised boot status,
  and the e-fuses. Names that the ES3 theories use as well have the prefix \<open>es2\<close>. The theory shows that the
  mapped flash is a loader in the sense of \<^verbatim>\<open>data_loading.h\<close> and delivers exactly what the flash holds, that
  the fixups are one script of attribute writes, and what becomes of a boot status that is advertised and read back.
\<close>

section \<open>UniPro\<close>

abbreviation (input) "T_TSTSRCINCREMENT \<equiv> 0x4083 :: u16"
abbreviation (input) "ES2_MBOX_ACK_ATTR \<equiv> 0x4086 :: u16"
abbreviation (input) "DME_ARA_VID \<equiv> 0x6000 :: u16"
abbreviation (input) "DME_ARA_PID \<equiv> 0x6001 :: u16"
abbreviation (input) "TSB_MPHY_MAP \<equiv> 0x7f :: u16"
abbreviation (input) "TSB_MPHY_MAP_TSB_REGISTER_1 \<equiv> 0x01 :: u32"
abbreviation (input) "TSB_MPHY_MAP_NORMAL \<equiv> 0x00 :: u32"
abbreviation (input) "TSB_MPHY_MAP_TSB_REGISTER_2 \<equiv> 0x81 :: u32"
abbreviation (input) "TSB_MPHY_FIXUP_LAST \<equiv> 1 :: u32"
abbreviation (input) "TSB_MPHY_FIXUP_MAGIC_R1 \<equiv> 2 :: u32"
abbreviation (input) "TRANSFER_MODE \<equiv> 2 :: int"
abbreviation (input) "TRANSFER_MODE_2_CTRL_0 \<equiv> 0xAAAAAAAA :: u32"
abbreviation (input) "AHM_MODE_CTRL_0 \<equiv> 0x610 :: u32"
abbreviation (input) "UNIPRO_INT_EN \<equiv> 0x200 :: u32"
abbreviation (input) "ENOSYS \<equiv> 38 :: int"

text \<open>The register accesses are those of ES3; only the attribute of the mailbox acknowledgement is replaced.\<close>

definition es2_unipro_attr_access ::
    "env \<Rightarrow> u16 \<Rightarrow> u32 \<Rightarrow> u16 \<Rightarrow> bool \<Rightarrow> bool \<Rightarrow> ('a machine_scheme, int \<times> u32) prog" where
  "es2_unipro_attr_access E attr val selector peer wr =
     (let attr = (if attr = ARA_MBOX_ACK_ATTR then ES2_MBOX_ACK_ATTR else attr)
      in bind (tsb_unipro_write A2D_ATTRACS_CTRL_00 (attr_ctrl attr selector peer wr)) (\<lambda>_.
         bind (if wr then tsb_unipro_write A2D_ATTRACS_DATA_CTRL_00 val else skip) (\<lambda>_.
         bind (tsb_unipro_write A2D_ATTRACS_MSTR_CTRL (push_bit 16 1 OR 1)) (\<lambda>_.
         bind (poll_reg E (AIO_UNIPRO_BASE + A2D_ATTRACS_INT_BEF) (\<lambda>v. v \<noteq> 0)) (\<lambda>_.
         bind (tsb_unipro_write A2D_ATTRACS_INT_BEF 1) (\<lambda>_.
         bind (tsb_unipro_read E A2D_ATTRACS_STS_00) (\<lambda>rc.
         bind (if wr then return val else tsb_unipro_read E A2D_ATTRACS_DATA_STS_00) (\<lambda>val.
         return (sint rc, val)))))))))"

definition es2_unipro_attr_read :: "env \<Rightarrow> u16 \<Rightarrow> u16 \<Rightarrow> bool \<Rightarrow> ('a tftf_scheme, int \<times> u32) prog" where
  "es2_unipro_attr_read E attr selector peer =
     (if attr = DME_ARA_VID then bind (gets ara_vid) (\<lambda>v. return (0, v))
      else if attr = DME_ARA_PID then bind (gets ara_pid) (\<lambda>v. return (0, v))
      else es2_unipro_attr_access E attr 0 selector peer False)"

definition es2_unipro_attr_write :: "env \<Rightarrow> u16 \<Rightarrow> u32 \<Rightarrow> u16 \<Rightarrow> bool \<Rightarrow> ('a machine_scheme, int) prog" where
  "es2_unipro_attr_write E attr val selector peer =
     bind (es2_unipro_attr_access E attr val selector peer True) (\<lambda>(rc, _). return rc)"

definition unipro_attr_local_write :: "env \<Rightarrow> u16 \<Rightarrow> u32 \<Rightarrow> u16 \<Rightarrow> ('a machine_scheme, int) prog" where
  "unipro_attr_local_write E attr val selector = es2_unipro_attr_write E attr val selector False"

subsection \<open>Fixups of the physical layer\<close>

record tsb_mphy_fixup =
  attrid :: u16
  select_index :: u16
  fixup_value :: u32
  fixup_flags :: u32

definition tsb_mphy_fixup_is_last :: "tsb_mphy_fixup \<Rightarrow> bool" where
  "tsb_mphy_fixup_is_last fu \<longleftrightarrow> fixup_flags fu AND TSB_MPHY_FIXUP_LAST \<noteq> 0"

definition tsb_mphy_r1_fixup_is_magic :: "tsb_mphy_fixup \<Rightarrow> bool" where
  "tsb_mphy_r1_fixup_is_magic fu \<longleftrightarrow> fixup_flags fu AND TSB_MPHY_FIXUP_MAGIC_R1 \<noteq> 0"

definition fixup_row :: "u16 \<times> u16 \<times> u32 \<times> u32 \<Rightarrow> tsb_mphy_fixup" where
  "fixup_row = (\<lambda>(a, s, v, f). \<lparr>attrid = a, select_index = s, fixup_value = v, fixup_flags = f\<rparr>)"

definition tsb_register_1_map_mphy_fixups :: "tsb_mphy_fixup list" where
  "tsb_register_1_map_mphy_fixups = map fixup_row [
      (0, 0, 0, 2), (0x8004, 0, 0xca, 0), (0x8015, 0, 0x01, 0), (0x8022, 0, 0x44, 0),
      (0x8023, 0, 0x42, 0), (0x80a2, 0, 0x00, 0), (0x80aa, 0, 0xa8, 0), (0x80ba, 0, 0x20, 0),
      (0x80a2, 1, 0x00, 0), (0x80aa, 1, 0xa8, 0), (0x80ba, 1, 0x20, 0), (0x8094, 4, 0x09, 0),
      (0x809a, 4, 0x06, 0), (0x809b, 4, 0x03, 0), (0x809c, 4, 0x00, 0), (0x80aa, 4, 0x0f, 0),
      (0x80b4, 4, 0x50, 0), (0x80b6, 4, 0x82, 0), (0x80b7, 4, 0x01, 0), (0x8094, 5, 0x09, 0),
      (0x809a, 5, 0x06, 0), (0x809b, 5, 0x03, 0), (0x809c, 5, 0x00, 0), (0x80aa, 5, 0x0f, 0),
      (0x80b4, 5, 0x50, 0), (0x80b6, 5, 0x82, 0), (0x80b7, 5, 0x01, 0), (0x8000, 0, 0x01, 1)]"

definition tsb_register_2_map_mphy_fixups :: "tsb_mphy_fixup list" where
  "tsb_register_2_map_mphy_fixups = map fixup_row [
      (0x8000, 0, 0x02, 0), (0x8080, 0, 0x20, 0), (0x8081, 0, 0x03, 0), (0x8080, 1, 0x20, 0),
      (0x8081, 1, 0x03, 0), (0x8082, 4, 0x3f, 0), (0x8084, 4, 0x10, 0), (0x8086, 4, 0x10, 0),
      (0x8087, 4, 0x01, 0), (0x8088, 4, 0x10, 0), (0x808d, 4, 0x0b, 0), (0x808e, 4, 0x00, 0),
      (0x8094, 4, 0x00, 0), (0x8096, 4, 0x00, 0), (0x8098, 4, 0x08, 0), (0x8099, 4, 0x50, 0),
      (0x8082, 5, 0x3f, 0), (0x8084, 5, 0x10, 0), (0x8086, 5, 0x10, 0), (0x8087, 5, 0x01, 0),
      (0x8088, 5, 0x10, 0), (0x808d, 5, 0x0b, 0), (0x808e, 5, 0x00, 0), (0x8094, 5, 0x00, 0),
      (0x8096, 5, 0x00, 0), (0x8098, 5, 0x08, 0), (0x8099, 5, 0x50, 1)]"

text \<open>
  The loop over a table, whose last row is marked; running past the table is a fault. Only in the first table may a row
  stand for the value of the debug register.
\<close>

fun apply_fixups :: "env \<Rightarrow> u32 option \<Rightarrow> tsb_mphy_fixup list \<Rightarrow> ('a machine_scheme, int) prog" where
  "apply_fixups E magic [] = stop_with Fault"
| "apply_fixups E magic (fu # fus) =
     bind (case magic of
             Some debug_0720 \<Rightarrow>
               if tsb_mphy_r1_fixup_is_magic fu
               then unipro_attr_local_write E 0x8002 (drop_bit 1 debug_0720 AND 0x1f) 0
               else unipro_attr_local_write E (attrid fu) (fixup_value fu) (select_index fu)
           | None \<Rightarrow> unipro_attr_local_write E (attrid fu) (fixup_value fu) (select_index fu)) (\<lambda>urc.
     if urc \<noteq> 0 then return urc
     else if tsb_mphy_fixup_is_last fu then return 0
     else apply_fixups E magic fus)"

definition es2_fixup_mphy :: "env \<Rightarrow> ('a machine_scheme, int) prog" where
  "es2_fixup_mphy E =
     bind (tsb_get_debug_reg E 0x0720) (\<lambda>debug_0720.
     bind (unipro_attr_local_write E TSB_MPHY_MAP TSB_MPHY_MAP_TSB_REGISTER_2 0) (\<lambda>urc.
     if urc \<noteq> 0 then return urc else
     bind (apply_fixups E None tsb_register_2_map_mphy_fixups) (\<lambda>urc.
     if urc \<noteq> 0 then return urc else
     bind (unipro_attr_local_write E TSB_MPHY_MAP TSB_MPHY_MAP_NORMAL 0) (\<lambda>urc.
     if urc \<noteq> 0 then return urc else
     bind (unipro_attr_local_write E TSB_MPHY_MAP TSB_MPHY_MAP_TSB_REGISTER_1 0) (\<lambda>urc.
     if urc \<noteq> 0 then return urc else
     bind (apply_fixups E (Some debug_0720) tsb_register_1_map_mphy_fixups) (\<lambda>urc.
     if urc \<noteq> 0 then return urc else
     bind (unipro_attr_local_write E TSB_MPHY_MAP TSB_MPHY_MAP_NORMAL 0) (\<lambda>urc.
     if urc \<noteq> 0 then return urc else return 0)))))))"

definition configure_transfer_mode :: "int \<Rightarrow> ('a machine_scheme, unit) prog" where
  "configure_transfer_mode mode =
     (if mode = TRANSFER_MODE then tsb_unipro_write AHM_MODE_CTRL_0 TRANSFER_MODE_2_CTRL_0 else skip)"

text \<open>
  The reset of the CPorts is the shared one. It only writes attributes that the two revisions write in the same way
  (\<open>es2_write_same\<close> below).
\<close>

definition es2_unipro_init :: "env \<Rightarrow> ('a machine_scheme, unit) prog" where
  "es2_unipro_init E =
     bind (es2_fixup_mphy E) (\<lambda>_.
     bind (configure_transfer_mode TRANSFER_MODE) (\<lambda>_.
     bind (tsb_unipro_write UNIPRO_INT_EN 0) (\<lambda>_.
     bind (tsb_unipro_write UNIPRO_INT_EN 1) (\<lambda>_.
     bind (tsb_reset_all_cports E) (\<lambda>_. skip)))))"

definition es2_unipro_init_cport :: "env \<Rightarrow> u32 \<Rightarrow> ('a machine_scheme, int) prog" where
  "es2_unipro_init_cport E cportid = tsb_unipro_init_cport E cportid"

definition es2_reset_before_jump :: "env \<Rightarrow> ('a machine_scheme, unit) prog" where
  "es2_reset_before_jump E = tsb_reset_before_jump E"

section \<open>Flash in the memory map\<close>

text \<open>
  \<open>flash\<close> is what the memory map shows at an address. \<open>current_addr\<close> is the pointer of the loader, null being 0.
\<close>

record es2 = tftf +
  mmap_initialized :: u8

abbreviation (input) "MMAP_LOAD_BASE \<equiv> 0x01000000 :: u32"
abbreviation (input) "MMAP_LOAD_SIZE \<equiv> 0x01000000 :: u32"

definition data_load_mmapped_init :: "('a es2_scheme, int) prog" where
  "data_load_mmapped_init =
     bind (gets mmap_initialized) (\<lambda>i.
     if i \<noteq> 1 then
       bind (modify (\<lambda>s. s\<lparr>current_addr := MMAP_LOAD_BASE\<rparr>)) (\<lambda>_.
       bind (modify (\<lambda>s. s\<lparr>mmap_initialized := 1\<rparr>)) (\<lambda>_.
       bind (tsb_clk_enable TSB_CLK_SPIP) (\<lambda>_.
       bind (tsb_clk_enable TSB_CLK_SPIS) (\<lambda>_.
       return 0))))
     else return (-1))"

text \<open>The copying loop from the pointer up to an end; the bytes stored at the destination, and the pointer after it.\<close>

function copy_mapped :: "(u32 \<Rightarrow> u8) \<Rightarrow> u32 \<Rightarrow> u32 \<Rightarrow> bytes \<times> u32" where
  "copy_mapped flash cur load_end =
     (if cur < load_end then
        (let (bs, c) = copy_mapped flash (cur + 1) load_end in (flash cur # bs, c))
      else ([], cur))"
  by pat_completeness auto

lemma next_byte:
  fixes cur load_end :: u32
  assumes "cur < load_end"
  shows "unat (cur + 1) = Suc (unat cur)"
proof -
  have "Suc (unat cur) < 2 ^ 32"
    using assms unsigned_less [of load_end, where ?'a = nat] by (simp add: word_less_nat_alt)
  then show ?thesis by (simp add: unat_word_ariths)
qed

termination copy_mapped
  by (relation "measure (\<lambda>(flash, cur, load_end). unat load_end - unat cur)")
    (auto simp: next_byte word_less_nat_alt)

declare copy_mapped.simps [simp del]

definition data_load_mmapped_read :: "(u32 \<Rightarrow> u8) \<Rightarrow> u32 \<Rightarrow> u32 \<Rightarrow> ('a es2_scheme, int \<times> bytes) prog" where
  "data_load_mmapped_read flash addr len =
     bind (gets mmap_initialized) (\<lambda>i.
     if i \<noteq> 1 \<or> addr + len \<ge> MMAP_LOAD_SIZE then return (-1, [])
     else
       (let (bs, c) = copy_mapped flash (MMAP_LOAD_BASE + addr) (MMAP_LOAD_BASE + addr + len)
        in bind (modify (\<lambda>s. s\<lparr>current_addr := c\<rparr>)) (\<lambda>_. return (0, bs))))"

text \<open>
  Here the length is added to a pointer; a sum past the end of the address space is undefined behaviour.
\<close>

definition data_load_mmapped_load :: "(u32 \<Rightarrow> u8) \<Rightarrow> u32 \<Rightarrow> bool \<Rightarrow> ('a es2_scheme, int \<times> bytes) prog" where
  "data_load_mmapped_load flash len hash =
     bind get_state (\<lambda>s.
     if mmap_initialized s \<noteq> 1 then return (-1, [])
     else
       bind (assert_or_fault (unat (current_addr s) + unat len < 2 ^ 32)) (\<lambda>_.
       if current_addr s + len \<ge> MMAP_LOAD_BASE + MMAP_LOAD_SIZE then return (-1, [])
       else
         (let (bs, c) = copy_mapped flash (current_addr s) (current_addr s + len)
          in bind (modify (\<lambda>s. s\<lparr>current_addr := c\<rparr>)) (\<lambda>_.
             bind (if hash then hash_update bs else skip) (\<lambda>_.
             return (0, bs))))))"

definition data_load_mmapped_finish :: "bool \<Rightarrow> bool \<Rightarrow> ('a es2_scheme, int) prog" where
  "data_load_mmapped_finish valid is_secure_image =
     bind (tsb_clk_disable TSB_CLK_SPIS) (\<lambda>_.
     bind (tsb_clk_disable TSB_CLK_SPIP) (\<lambda>_.
     bind (modify (\<lambda>s. s\<lparr>mmap_initialized := 0\<rparr>)) (\<lambda>_.
     bind (modify (\<lambda>s. s\<lparr>current_addr := 0\<rparr>)) (\<lambda>_.
     return 0))))"

definition es2_spi_ops :: "(u32 \<Rightarrow> u8) \<Rightarrow> 'a es2_scheme data_load_ops" where
  "es2_spi_ops flash = \<lparr>ops_init = data_load_mmapped_init, ops_read = Some (data_load_mmapped_read flash),
     ops_load = \<lambda>_. data_load_mmapped_load flash, ops_finish = data_load_mmapped_finish\<rparr>"

section \<open>Boot status and e-fuses\<close>

definition es2_advertise_with ::
    "env \<Rightarrow> (u32 \<Rightarrow> ('a errs_scheme, unit) prog) \<Rightarrow> u32 \<Rightarrow> ('a errs_scheme, unit) prog" where
  "es2_advertise_with E halt boot_status =
     bind (gets boot_status_offline) (\<lambda>off.
     if off then skip
     else
       bind (es2_unipro_attr_write E T_TSTSRCINCREMENT (drop_bit 24 boot_status) 0 False) (\<lambda>rc.
       if rc \<noteq> 0
       then bind (modify (\<lambda>s. s\<lparr>boot_status_offline := True\<rparr>)) (\<lambda>_. halt boot_status)
       else skip))"

definition es2_advertise_boot_status :: "env \<Rightarrow> u32 \<Rightarrow> ('a errs_scheme, unit) prog" where
  "es2_advertise_boot_status E = es2_advertise_with E (halt_with (\<lambda>_. skip))"

definition es2_get_boot_status :: "env \<Rightarrow> ('a tftf_scheme, u32) prog" where
  "es2_get_boot_status E =
     bind (es2_unipro_attr_read E T_TSTSRCINCREMENT 0 False) (\<lambda>(rc, boot_status).
     if rc \<noteq> 0
     then bind (modify (\<lambda>s. s\<lparr>boot_status_offline := True\<rparr>)) (\<lambda>_.
          halt_with (es2_advertise_boot_status E) boot_status)
     else return (push_bit 24 boot_status))"

definition es2_advertise_boot_type :: "('a machine_scheme, int) prog" where
  "es2_advertise_boot_type = return 0"

definition es2_reset_before_ready :: "('a machine_scheme, unit) prog" where
  "es2_reset_before_ready = tsb_reset_before_ready"

text \<open>The identity is fixed by the build (\<^verbatim>\<open>BOOTROM_MODULE_VID\<close>, \<^verbatim>\<open>BOOTROM_MODULE_PID\<close>).\<close>

definition es2_efuse_init :: "u32 \<Rightarrow> u32 \<Rightarrow> ('a tftf_scheme, int) prog" where
  "es2_efuse_init vid pid =
     bind (modify (\<lambda>s. s\<lparr>ara_vid := vid\<rparr>)) (\<lambda>_.
     bind (modify (\<lambda>s. s\<lparr>ara_pid := pid\<rparr>)) (\<lambda>_.
     return 0))"

definition es2_efuse_rig_for_untrusted :: "('a machine_scheme, unit) prog" where
  "es2_efuse_rig_for_untrusted = skip"

definition es2_enter_standby :: "('a machine_scheme, int) prog" where
  "es2_enter_standby = return (- ENOSYS)"

section \<open>What the mapped flash delivers\<close>

definition mapped_bytes :: "(u32 \<Rightarrow> u8) \<Rightarrow> u32 \<Rightarrow> nat \<Rightarrow> bytes" where
  "mapped_bytes flash a n = map (\<lambda>i. flash (a + word_of_nat i)) [0..<n]"

lemma length_mapped_bytes [simp]: "length (mapped_bytes flash a n) = n"
  by (simp add: mapped_bytes_def)

lemma mapped_bytes_Suc: "mapped_bytes flash a (Suc n) = flash a # mapped_bytes flash (a + 1) n"
  by (simp add: mapped_bytes_def upt_conv_Cons map_Suc_upt [symmetric] add.assoc del: upt_Suc)

lemma mapped_bytes_add:
  "mapped_bytes flash a (m + n) = mapped_bytes flash a m @ mapped_bytes flash (a + word_of_nat m) n"
  by (rule nth_equalityI) (auto simp: mapped_bytes_def nth_append algebra_simps simp flip: of_nat_add)

lemma copy_mapped_eq:
  "copy_mapped flash cur e = (mapped_bytes flash cur (unat e - unat cur), if cur < e then e else cur)"
proof (induction flash cur e rule: copy_mapped.induct)
  case (1 flash cur e)
  show ?case
  proof (cases "cur < e")
    case True
    then have n: "unat e - unat cur = Suc (unat e - unat (cur + 1))"
      using next_byte [OF True] by (simp add: word_less_nat_alt)
    have "\<not> cur + 1 < e \<Longrightarrow> cur + 1 = e"
      using True next_byte [OF True] by (simp add: word_less_nat_alt word_unat_eq_iff)
    with 1 True show ?thesis by (subst copy_mapped.simps) (auto simp: n mapped_bytes_Suc)
  next
    case False
    then show ?thesis by (subst copy_mapped.simps) (auto simp: mapped_bytes_def word_less_nat_alt)
  qed
qed

lemma copy_mapped_len:
  assumes "unat cur + unat len < 2 ^ 32"
  shows "copy_mapped flash cur (cur + len) = (mapped_bytes flash cur (unat len), cur + len)"
proof -
  have "unat (cur + len) = unat cur + unat len" using assms by (simp add: unat_plus_if')
  then show ?thesis by (simp add: copy_mapped_eq word_less_nat_alt unat_eq_zero)
qed

lemma mapped_load_eq:
  "data_load_mmapped_load flash len h s =
     (if mmap_initialized s \<noteq> 1 then Ret (-1, []) s
      else if \<not> unat (current_addr s) + unat len < 2 ^ 32 then Stop Fault s
      else if current_addr s + len \<ge> 0x2000000 then Ret (-1, []) s
      else bind (if h then hash_update (mapped_bytes flash (current_addr s) (unat len)) else skip)
        (\<lambda>_. return (0, mapped_bytes flash (current_addr s) (unat len))) (s\<lparr>current_addr := current_addr s + len\<rparr>))"
proof (cases "mmap_initialized s = 1 \<and> unat (current_addr s) + unat len < 2 ^ 32")
  case True
  then have "copy_mapped flash (current_addr s) (current_addr s + len) =
      (mapped_bytes flash (current_addr s) (unat len), current_addr s + len)" by (simp add: copy_mapped_len)
  with True show ?thesis
    by (simp add: data_load_mmapped_load_def get_state_def assert_or_fault_def skip_def modify_def return_def)
qed (auto simp: data_load_mmapped_load_def get_state_def assert_or_fault_def stop_with_def return_def)

lemma mapped_load_run:
  assumes "data_load_mmapped_load flash len h s = Ret (rc, bs) t"
  shows "if rc = 0
     then bs = mapped_bytes flash (current_addr s) (unat len) \<and> mmap_initialized s = 1 \<and>
       unat (current_addr s) + unat len < 0x2000000 \<and>
       (if h then hash_update bs (s\<lparr>current_addr := current_addr s + len\<rparr>) = Ret () t
        else t = s\<lparr>current_addr := current_addr s + len\<rparr>)
     else bs = [] \<and> t = s"
proof (cases "mmap_initialized s = 1 \<and> unat (current_addr s) + unat len < 0x2000000")
  case True
  then have sum: "unat (current_addr s + len) = unat (current_addr s) + unat len" by (simp add: unat_plus_if')
  have "data_load_mmapped_load flash len h s =
      bind (if h then hash_update (mapped_bytes flash (current_addr s) (unat len)) else skip)
        (\<lambda>_. return (0, mapped_bytes flash (current_addr s) (unat len))) (s\<lparr>current_addr := current_addr s + len\<rparr>)"
    using True by (simp add: mapped_load_eq word_le_nat_alt sum)
  from this [symmetric, unfolded assms] True show ?thesis
    by (cases h) (auto simp: skip_def return_def elim!: bind_eq_RetE)
next
  case False
  have "current_addr s + len \<ge> 0x2000000"
    if "mmap_initialized s = 1" "unat (current_addr s) + unat len < 2 ^ 32"
  proof -
    have "unat (current_addr s + len) = unat (current_addr s) + unat len" using that(2) by (simp add: unat_plus_if')
    with False that(1) show ?thesis by (simp add: word_le_nat_alt)
  qed
  then have "data_load_mmapped_load flash len h s = Ret (-1, []) s \<or> data_load_mmapped_load flash len h s = Stop Fault s"
    unfolding mapped_load_eq by argo
  with assms show ?thesis by auto
qed

text \<open>The mapped flash keeps the contract of a loader.\<close>

lemma mapped_load_effect: "data_load_mmapped_load flash len h s = Ret r t \<Longrightarrow> spi_effect s t"
proof -
  assume r: "data_load_mmapped_load flash len h s = Ret r t"
  obtain rc bs where "r = (rc, bs)" by (cases r)
  with mapped_load_run [of flash len h s rc bs t] r show ?thesis
    by (auto dest!: hash_update_effect intro: moves_effect [OF addr_moves] moves_effect_id [OF addr_moves]
        spi.keeps_refl split: if_splits)
qed

interpretation mapped: loader "\<lambda>_. data_load_mmapped_load flash" spi_effect for flash
proof
  fix n h d bs r and s t u :: "'a es2_scheme"
  show "spi_effect s s" by (rule spi.keeps_refl)
  show "spi_effect s t \<Longrightarrow> spi_effect t u \<Longrightarrow> spi_effect s u" by (rule spi.keeps_trans)
  show "data_load_mmapped_load flash n h s = Ret r t \<Longrightarrow> spi_effect s t" by (rule mapped_load_effect)
  show "data_load_mmapped_load flash n h s = Ret (0, bs) t \<Longrightarrow> length bs = unat n"
    using mapped_load_run [of flash n h s 0 bs t] by auto
  show "hash_fed d s \<Longrightarrow> data_load_mmapped_load flash n h s = Ret (0, bs) t \<Longrightarrow> hash_fed (if h then d @ bs else d) t"
    using mapped_load_run [of flash n h s 0 bs t] hash_update_run [of d "s\<lparr>current_addr := current_addr s + n\<rparr>" bs]
    by (auto simp: hash_fed_def crypto_ready_def split: if_splits)
  show "crypto_ready s \<Longrightarrow> data_load_mmapped_load flash n False s = Ret r t \<Longrightarrow> crypto_ready t"
    by (cases r) (use mapped_load_run [of flash n False s "fst r" "snd r" t] in \<open>auto simp: crypto_ready_def split: if_splits\<close>)
qed

interpretation mapped_reader: flash_reader "data_load_mmapped_read flash" for flash
  by unfold_locales
    (auto simp: data_load_mmapped_read_def gets_def modify_def return_def ffff_frame_def elim!: bind_eq_RetE
      split: if_splits prod.splits)

text \<open>
  Reading from an address and then loading in pieces delivers the flash from that address on.
\<close>

lemma mapped_read_run:
  assumes "data_load_mmapped_read flash addr len s = Ret (0, bs) t" "unat addr + unat len < 2 ^ 32"
  shows "bs = mapped_bytes flash (MMAP_LOAD_BASE + addr) (unat len) \<and> mmap_initialized s = 1 \<and>
     unat addr + unat len < 0x1000000 \<and> t = s\<lparr>current_addr := MMAP_LOAD_BASE + addr + len\<rparr>"
proof -
  from assms(1) have i: "mmap_initialized s = 1" "addr + len < MMAP_LOAD_SIZE"
    by (auto simp: data_load_mmapped_read_def gets_def return_def not_le split: if_splits)
  moreover have "unat (addr + len) = unat addr + unat len" using assms(2) by (simp add: unat_plus_if')
  ultimately have small: "unat addr + unat len < 0x1000000" by (simp add: word_less_nat_alt)
  then have "unat (MMAP_LOAD_BASE + addr) + unat len < 2 ^ 32" by (simp add: unat_plus_if')
  from copy_mapped_len [OF this, of flash] have "data_load_mmapped_read flash addr len s =
      Ret (0, mapped_bytes flash (MMAP_LOAD_BASE + addr) (unat len)) (s\<lparr>current_addr := MMAP_LOAD_BASE + addr + len\<rparr>)"
    using i by (simp add: data_load_mmapped_read_def gets_def modify_def return_def bind_def)
  with assms(1) i small show ?thesis by simp
qed

theorem mapped_flash_exact:
  assumes "data_load_mmapped_read flash addr m s = Ret (0, a) u"
    and "data_load_mmapped_load flash n h u = Ret (0, b) t"
    and "unat addr + unat m < 2 ^ 32"
  shows "a @ b = mapped_bytes flash (MMAP_LOAD_BASE + addr) (unat m + unat n) \<and>
     unat addr + unat m + unat n < 0x1000000 \<and> current_addr t = MMAP_LOAD_BASE + addr + m + n"
proof -
  note r = mapped_read_run [OF assms(1,3)]
  with mapped_load_run [OF assms(2)] have b: "b = mapped_bytes flash (MMAP_LOAD_BASE + addr + m) (unat n)"
    "unat (MMAP_LOAD_BASE + addr + m) + unat n < 0x2000000" "current_addr t = MMAP_LOAD_BASE + addr + m + n"
    by (auto dest!: hash_update_effect split: if_splits)
  from r have "unat (MMAP_LOAD_BASE + addr + m) = 0x1000000 + unat addr + unat m"
    by (simp add: unat_plus_if')
  with r b show ?thesis by (simp add: mapped_bytes_add)
qed

text \<open>
  Two limits of the bound check of the reader: the sum of address and length wraps, so an enormous length is answered with
  success and no data; and the comparison also refuses a read that ends with the last byte of the flash.
\<close>

theorem mapped_read_limits:
  assumes "mmap_initialized s = 1"
  shows "\<exists>t. data_load_mmapped_read flash 0x10 0xFFFFFFFF s = Ret (0, []) t"
    and "data_load_mmapped_read flash 0xFFFFFF 1 s = Ret (-1, []) s"
  using assms
  by (simp_all add: data_load_mmapped_read_def gets_def modify_def return_def bind_def copy_mapped_eq mapped_bytes_def)

section \<open>The fixups as a script\<close>

lemma es2_write_same:
  "attr \<noteq> ARA_MBOX_ACK_ATTR \<Longrightarrow> es2_unipro_attr_write E attr v sel peer = chip_unipro_attr_write E attr v sel peer"
  by (simp add: es2_unipro_attr_write_def es2_unipro_attr_access_def chip_unipro_attr_write_def unipro_attr_access_def)

definition fixup_set :: "u32 option \<Rightarrow> tsb_mphy_fixup \<Rightarrow> attr_set" where
  "fixup_set magic fu =
     (case magic of
        Some d \<Rightarrow> if tsb_mphy_r1_fixup_is_magic fu then (0x8002, drop_bit 1 d AND 0x1f, 0, False)
                  else (attrid fu, fixup_value fu, select_index fu, False)
      | None \<Rightarrow> (attrid fu, fixup_value fu, select_index fu, False))"

definition mphy_script :: "u32 \<Rightarrow> attr_set list" where
  "mphy_script d =
     (TSB_MPHY_MAP, TSB_MPHY_MAP_TSB_REGISTER_2, 0, False) #
     map (fixup_set None) tsb_register_2_map_mphy_fixups @
     (TSB_MPHY_MAP, TSB_MPHY_MAP_NORMAL, 0, False) #
     (TSB_MPHY_MAP, TSB_MPHY_MAP_TSB_REGISTER_1, 0, False) #
     map (fixup_set (Some d)) tsb_register_1_map_mphy_fixups @
     [(TSB_MPHY_MAP, TSB_MPHY_MAP_NORMAL, 0, False)]"

text \<open>A table is in order if exactly its last row is marked and no row is the mailbox acknowledgement.\<close>

fun table_ok :: "tsb_mphy_fixup list \<Rightarrow> bool" where
  "table_ok [] \<longleftrightarrow> False"
| "table_ok (fu # fus) \<longleftrightarrow> attrid fu \<noteq> ARA_MBOX_ACK_ATTR \<and>
     (if tsb_mphy_fixup_is_last fu then fus = [] else table_ok fus)"

lemma apply_fixups_script: "table_ok fus \<Longrightarrow> apply_fixups E magic fus = set_attrs E (map (fixup_set magic) fus)"
  by (induction fus)
    (auto simp: fixup_set_def unipro_attr_local_write_def es2_write_same ok_then_def cong: if_cong
      split: option.splits if_splits)

lemma fixup_tables_ok: "table_ok tsb_register_1_map_mphy_fixups" "table_ok tsb_register_2_map_mphy_fixups"
  by (simp_all add: tsb_register_1_map_mphy_fixups_def tsb_register_2_map_mphy_fixups_def fixup_row_def
      tsb_mphy_fixup_is_last_def)

lemma es2_fixup_mphy_script:
  "es2_fixup_mphy E = bind (tsb_get_debug_reg E 0x0720) (\<lambda>d. set_attrs E (mphy_script d))"
  by (simp add: es2_fixup_mphy_def mphy_script_def apply_fixups_script fixup_tables_ok set_attrs_append
      unipro_attr_local_write_def es2_write_same flip: ok_then_def)

text \<open>
  The fixups of the physical layer are one script of attribute writes, carried out in order up to the first failure: both
  tables to their marked ends, each under its own register map, and the normal map last.
\<close>

theorem fixups_exact:
  assumes "es2_fixup_mphy E s = Ret rc t"
  shows "\<exists>n \<le> 59. attr_log (io t) = attr_log (io s) @
      concat (map set_words (take n (mphy_script (dev E (io s) (SYSCTL_BASE + 0x720))))) \<and>
      (if rc = 0 then n = 59 else 0 < n)"
proof -
  let ?s = "s\<lparr>io := RdReg (SYSCTL_BASE + 0x720) (dev E (io s) (SYSCTL_BASE + 0x720)) # io s\<rparr>"
  have len: "length (mphy_script d) = 59" for d
    by (simp add: mphy_script_def tsb_register_1_map_mphy_fixups_def tsb_register_2_map_mphy_fixups_def)
  from assms have run: "set_attrs E (mphy_script (dev E (io s) (SYSCTL_BASE + 0x720))) ?s = Ret rc t"
    by (simp add: es2_fixup_mphy_script tsb_get_debug_reg_def scm_read_def getreg32_def Let_def bind_def)
  have "attr_log (io ?s) = attr_log (io s)" by (simp add: attr_log_Cons)
  with set_attrs_log [OF run] show ?thesis unfolding len by (simp only:)
qed

section \<open>The advertised status\<close>

text \<open>
  Of the boot status only the upper byte is advertised. Reading it back gives that byte in its place; the error code below
  it is lost, whatever the link does in between.
\<close>

theorem boot_status_upper_byte:
  assumes "es2_get_boot_status E s = Ret b t" "es2_unipro_attr_read E T_TSTSRCINCREMENT 0 False s = Ret (0, drop_bit 24 st) u"
  shows "b = st AND 0xFF000000"
proof -
  from assms have "b = push_bit 24 (drop_bit 24 st)" by (simp add: es2_get_boot_status_def return_def)
  also have "\<dots> = st AND push_bit 24 (mask 8)"
    by (rule bit_word_eqI) (auto simp: bit_simps)
  finally show ?thesis by (simp add: mask_eq_exp_minus_1)
qed

end
